(* ===== verification/Prelude.thy ===== *)
theory Prelude
  imports Main "HOL-Library.Word" "HOL-Library.Product_Lexorder"
begin

text \<open>
  Shared vocabulary of the development.  The engine under
  \<^verbatim>\<open>src-native/ApfsAccess.ApfsRwEngine\<close> computes on \<^verbatim>\<open>std::uint64_t\<close>
  addresses and byte counts.  They are modelled as \<^typ>\<open>nat\<close> values below
  \<open>2 ^ 64\<close>; every overflow test of the source is kept, and an operation that may wrap
  in the source is written with \<open>add64\<close>.  The theory holds

  \<^item> the named collections the component proofs use,
  \<^item> the bound \<open>u64_max\<close> and wrapping addition,
  \<^item> half-open byte ranges (\<open>ivl\<close>), the abstraction of an extent,
  \<^item> generic facts on lists, options and optional folds.
\<close>

named_theorems extent_simps \<open>unfolding rules for single extents and their ranges\<close>
named_theorems space_simps \<open>rules that compute the address set of an extent list\<close>
named_theorems codec_simps \<open>round-trip rules of readers over appended encodings\<close>

section \<open>Machine integers\<close>

definition u64_max :: nat where
  "u64_max = 18446744073709551615"

definition u32_max :: nat where
  "u32_max = 4294967295"

definition add64 :: "nat \<Rightarrow> nat \<Rightarrow> nat" where
  "add64 a b = (a + b) mod 18446744073709551616"

lemma u64_max_power: "u64_max = 2 ^ 64 - 1"
  by (simp add: u64_max_def)

lemma u64_max_pos [simp]: "0 < u64_max"
  by (simp add: u64_max_def)

lemma add64_exact: "a + b \<le> u64_max \<Longrightarrow> add64 a b = a + b"
  by (simp add: add64_def u64_max_def)

lemma add64_bound: "add64 a b \<le> u64_max"
proof -
  have "(a + b) mod 18446744073709551616 < 18446744073709551616"
    by (rule mod_less_divisor) simp
  then show ?thesis by (simp add: add64_def u64_max_def)
qed

lemma dvd_less_gap:
  fixes b x y :: nat
  assumes "b dvd x" and "b dvd y" and "x < y"
  shows "x + b \<le> y"
proof -
  obtain k l where kl: "x = b * k" "y = b * l" using assms(1,2) by (auto elim!: dvdE)
  then have "Suc k \<le> l" using assms(3) by (metis Suc_leI mult_less_cancel1)
  then have "b * Suc k \<le> b * l" by (rule mult_le_mono2)
  then show ?thesis using kl by simp
qed

section \<open>Half-open address ranges\<close>

definition ivl :: "nat \<Rightarrow> nat \<Rightarrow> nat set" where
  "ivl a n = {a..<a + n}"

lemma mem_ivl [extent_simps]: "x \<in> ivl a n \<longleftrightarrow> a \<le> x \<and> x < a + n"
  by (simp add: ivl_def)

lemma ivl_zero [simp]: "ivl a 0 = {}"
  by (simp add: ivl_def)

lemma ivl_empty_iff [simp]: "ivl a n = {} \<longleftrightarrow> n = 0"
  by (simp add: ivl_def)

lemma ivl_disjoint_iff:
  "0 < m \<Longrightarrow> 0 < n \<Longrightarrow> ivl a m \<inter> ivl b n = {} \<longleftrightarrow> a + m \<le> b \<or> b + n \<le> a"
  by (auto simp: ivl_def)

lemma ivl_union_touching:
  "a \<le> b \<Longrightarrow> b \<le> a + m \<Longrightarrow> ivl a m \<union> ivl b n = ivl a (max (a + m) (b + n) - a)"
  by (auto simp: ivl_def)

lemma ivl_subset: "a \<le> b \<Longrightarrow> b + n \<le> a + m \<Longrightarrow> ivl b n \<subseteq> ivl a m"
  by (auto simp: ivl_def)

lemma ivl_split: "k \<le> n \<Longrightarrow> ivl a n = ivl a k \<union> ivl (a + k) (n - k)"
  by (auto simp: ivl_def)

section \<open>Lists\<close>

lemma takeWhile_nth_prefix:
  "i < length (takeWhile P xs) \<Longrightarrow> i < length xs \<and> P (xs ! i)"
  by (metis length_takeWhile_le nth_mem order_less_le_trans set_takeWhileD takeWhile_nth)

lemma sorted_wrt_take_drop:
  "sorted_wrt R xs \<Longrightarrow> sorted_wrt R (take i xs) \<and> sorted_wrt R (drop j xs)"
  by (simp add: sorted_wrt_take sorted_wrt_drop)

lemma set_take_nth: "x \<in> set (take i xs) \<Longrightarrow> \<exists>k < i. k < length xs \<and> x = xs ! k"
  by (auto simp: in_set_conv_nth)

lemma set_drop_nth: "x \<in> set (drop i xs) \<Longrightarrow> \<exists>k \<ge> i. k < length xs \<and> x = xs ! k"
proof -
  assume "x \<in> set (drop i xs)"
  then obtain k where "k < length xs - i" "x = xs ! (i + k)"
    by (auto simp: in_set_conv_nth)
  then show ?thesis by (intro exI [of _ "i + k"]) auto
qed

lemma take_drop_split: "i \<le> j \<Longrightarrow> xs = take i xs @ take (j - i) (drop i xs) @ drop j xs"
  by (metis append.assoc append_take_drop_id le_add_diff_inverse take_add)

section \<open>Options\<close>

lemma option_case_Some_iff:
  "(case x of None \<Rightarrow> None | Some y \<Rightarrow> f y) = Some z \<longleftrightarrow> (\<exists>y. x = Some y \<and> f y = Some z)"
  by (cases x) auto

end
