(* ===== verification/ByteCodec.thy ===== *)
theory ByteCodec
  imports Prelude "HOL-Library.Monad_Syntax"
begin

text \<open>
  The byte buffers the engine writes and reads: little-endian integers, length-prefixed byte
  strings and UTF-16 text, the patching of a length or checksum field, and the FNV-1a
  checksum.  The same helpers are defined at the top of \<^verbatim>\<open>src/CheckpointDelta.cpp\<close>,
  \<^verbatim>\<open>src/BtreeMutationCodec.cpp\<close>, \<^verbatim>\<open>src/ApfsObjectMapStore.cpp\<close> and
  \<^verbatim>\<open>src/ApfsSpacemanStore.cpp\<close>.

  A \<^verbatim>\<open>std::byte\<close> is an \<open>8 word\<close>, a \<^verbatim>\<open>wchar_t\<close> (16 bits on Windows) a
  \<open>16 word\<close>.  A \<^verbatim>\<open>Reader\<close> is the list of its remaining bytes; a read returns the
  value and the bytes after it, or \<^term>\<open>None\<close> where the source returns false.
\<close>

unbundle bit_operations_syntax

type_synonym byte = "8 word"
type_synonym wchar = "16 word"

section \<open>Little-endian integers\<close>

text \<open>The loops over \<^verbatim>\<open>shift\<close>: byte \<open>i\<close> is \<^verbatim>\<open>(value >> 8 * i) & 0xff\<close>.\<close>

fun le_bytes :: "nat \<Rightarrow> nat \<Rightarrow> byte list" where
  "le_bytes 0 value = []"
| "le_bytes (Suc k) value = word_of_nat value # le_bytes k (value div 256)"

text \<open>The bytes are combined with \<^verbatim>\<open>|\<close> at disjoint positions, which is addition.\<close>

fun le_value :: "byte list \<Rightarrow> nat" where
  "le_value [] = 0"
| "le_value (b # bs) = unat b + 256 * le_value bs"

lemma byte_less: "unat (b::byte) < 256"
  using unsigned_less [of b] by simp

lemma length_le_bytes [simp]: "length (le_bytes k v) = k"
  by (induction k arbitrary: v) simp_all

lemma le_value_le_bytes [simp]: "le_value (le_bytes k v) = v mod 256 ^ k"
proof (induction k arbitrary: v)
  case 0
  then show ?case by simp
next
  case (Suc k)
  have "v mod 256 ^ Suc k = v mod 256 + 256 * (v div 256 mod 256 ^ k)"
    by (simp add: mod_mult2_eq)
  then show ?case using Suc by (simp add: unat_of_nat)
qed

lemma le_value_bound: "le_value bs < 256 ^ length bs"
proof (induction bs)
  case Nil
  then show ?case by simp
next
  case (Cons b bs)
  have "unat b < 256" by (rule byte_less)
  then show ?case using Cons by simp
qed

lemma le_bytes_le_value [simp]: "le_bytes (length bs) (le_value bs) = bs"
proof (induction bs)
  case Nil
  then show ?case by simp
next
  case (Cons b bs)
  have b: "unat b < 256" by (rule byte_less)
  have "word_of_nat (unat b + 256 * le_value bs) = b"
  proof -
    have "(256::byte) = 0" by simp
    then show ?thesis by (simp only: of_nat_add of_nat_mult of_nat_unat of_nat_numeral) simp
  qed
  moreover have "(unat b + 256 * le_value bs) div 256 = le_value bs" using b by simp
  ultimately show ?case using Cons by simp
qed

definition AppendU8 :: "byte list \<Rightarrow> nat \<Rightarrow> byte list" where
  "AppendU8 out value = out @ [word_of_nat value]"

definition AppendU16 :: "byte list \<Rightarrow> nat \<Rightarrow> byte list" where
  "AppendU16 out value = out @ le_bytes 2 value"

definition AppendU32 :: "byte list \<Rightarrow> nat \<Rightarrow> byte list" where
  "AppendU32 out value = out @ le_bytes 4 value"

definition AppendU64 :: "byte list \<Rightarrow> nat \<Rightarrow> byte list" where
  "AppendU64 out value = out @ le_bytes 8 value"

definition PatchU32 :: "byte list \<Rightarrow> nat \<Rightarrow> nat \<Rightarrow> byte list" where
  "PatchU32 out offset value =
     (if offset + 4 > length out then out
      else take offset out @ le_bytes 4 value @ drop (offset + 4) out)"

definition ReadU8 :: "byte list \<Rightarrow> (nat \<times> byte list) option" where
  "ReadU8 r = (case r of [] \<Rightarrow> None | b # r' \<Rightarrow> Some (unat b, r'))"

definition ReadLe :: "nat \<Rightarrow> byte list \<Rightarrow> (nat \<times> byte list) option" where
  "ReadLe k r = (if length r < k then None else Some (le_value (take k r), drop k r))"

definition ReadU16 :: "byte list \<Rightarrow> (nat \<times> byte list) option" where
  "ReadU16 r = ReadLe 2 r"

definition ReadU32 :: "byte list \<Rightarrow> (nat \<times> byte list) option" where
  "ReadU32 r = ReadLe 4 r"

definition ReadU64 :: "byte list \<Rightarrow> (nat \<times> byte list) option" where
  "ReadU64 r = ReadLe 8 r"

section \<open>Length-prefixed bytes and text\<close>

definition ReadBytes :: "byte list \<Rightarrow> (byte list \<times> byte list) option" where
  "ReadBytes r =
     (case ReadU32 r of
        None \<Rightarrow> None
      | Some (n, r') \<Rightarrow>
          if length r' < n then None else Some (take n r', drop n r'))"

fun utf16_bytes :: "wchar list \<Rightarrow> byte list" where
  "utf16_bytes [] = []"
| "utf16_bytes (ch # cs) = ucast ch # ucast (drop_bit 8 ch) # utf16_bytes cs"

text \<open>\<^term>\<open>None\<close> is \<^verbatim>\<open>ok = false\<close>, the odd byte count.\<close>

fun DecodeUtf16 :: "byte list \<Rightarrow> wchar list option" where
  "DecodeUtf16 [] = Some []"
| "DecodeUtf16 [b] = None"
| "DecodeUtf16 (b0 # b1 # bs) =
     (case DecodeUtf16 bs of
        None \<Rightarrow> None
      | Some cs \<Rightarrow> Some ((ucast b0 OR push_bit 8 (ucast b1)) # cs))"

definition Utf16ByteCount :: "wchar list \<Rightarrow> nat option" where
  "Utf16ByteCount value =
     (if length value > u32_max div 2 then None else Some (length value * 2))"

definition AppendBytes :: "byte list \<Rightarrow> byte list \<Rightarrow> byte list" where
  "AppendBytes out bs = AppendU32 out (length bs) @ bs"

definition AppendString :: "byte list \<Rightarrow> wchar list \<Rightarrow> byte list" where
  "AppendString out value =
     AppendU32 out (case Utf16ByteCount value of None \<Rightarrow> 0 | Some n \<Rightarrow> n) @ utf16_bytes value"

definition ReadString :: "byte list \<Rightarrow> (wchar list \<times> byte list) option" where
  "ReadString r =
     (case ReadBytes r of
        None \<Rightarrow> None
      | Some (bs, r') \<Rightarrow>
          (case DecodeUtf16 bs of None \<Rightarrow> None | Some value \<Rightarrow> Some (value, r')))"

section \<open>Decimal text\<close>

text \<open>\<^verbatim>\<open>std::to_wstring\<close> of an unsigned integer: its decimal digits.\<close>

fun to_wstring :: "nat \<Rightarrow> wchar list" where
  "to_wstring n =
     (if n < 10 then [word_of_nat (48 + n)]
      else to_wstring (n div 10) @ [word_of_nat (48 + n mod 10)])"

declare to_wstring.simps [simp del]

section \<open>FNV-1a checksum\<close>

definition fnv_prime :: "32 word" where
  "fnv_prime = 16777619"

definition fnv_seed :: "32 word" where
  "fnv_seed = 2166136261"

fun UpdateFnv1a :: "32 word \<Rightarrow> byte list \<Rightarrow> 32 word" where
  "UpdateFnv1a hash [] = hash"
| "UpdateFnv1a hash (b # bs) = UpdateFnv1a ((hash XOR ucast b) * fnv_prime) bs"


section \<open>Round trips\<close>

lemma ReadLe_le_bytes [codec_simps]:
  "v < 256 ^ k \<Longrightarrow> ReadLe k (le_bytes k v @ rest) = Some (v, rest)"
  by (simp add: ReadLe_def)

lemma ReadU8_byte [codec_simps]: "v < 256 \<Longrightarrow> ReadU8 (word_of_nat v # rest) = Some (v, rest)"
  by (simp add: ReadU8_def unat_of_nat)

lemma ReadU16_le [codec_simps]: "v < 65536 \<Longrightarrow> ReadU16 (le_bytes 2 v @ rest) = Some (v, rest)"
  unfolding ReadU16_def by (rule ReadLe_le_bytes) simp

lemma ReadU32_le [codec_simps]: "v \<le> u32_max \<Longrightarrow> ReadU32 (le_bytes 4 v @ rest) = Some (v, rest)"
  unfolding ReadU32_def by (rule ReadLe_le_bytes) (simp add: u32_max_def)

lemma ReadU64_le [codec_simps]: "v \<le> u64_max \<Longrightarrow> ReadU64 (le_bytes 8 v @ rest) = Some (v, rest)"
  unfolding ReadU64_def by (rule ReadLe_le_bytes) (simp add: u64_max_def)

lemma ReadBytes_append [codec_simps]:
  "length bs \<le> u32_max \<Longrightarrow> ReadBytes (le_bytes 4 (length bs) @ bs @ rest) = Some (bs, rest)"
  by (simp add: ReadBytes_def codec_simps)

lemma length_utf16_bytes [simp]: "length (utf16_bytes cs) = 2 * length cs"
  by (induction cs) simp_all

lemma wchar_split: "ucast (ucast (ch::wchar) :: byte) OR push_bit 8 (ucast (ucast (drop_bit 8 ch) :: byte)) = ch"
  by (rule bit_word_eqI) (auto simp: bit_simps)

lemma DecodeUtf16_utf16_bytes [simp]: "DecodeUtf16 (utf16_bytes cs) = Some cs"
  by (induction cs) (simp_all add: wchar_split)

lemma ReadString_append [codec_simps]:
  assumes "length cs \<le> u32_max div 2"
  shows "ReadString (le_bytes 4 (length cs * 2) @ utf16_bytes cs @ rest) = Some (cs, rest)"
proof -
  have "length (utf16_bytes cs) \<le> u32_max" using assms by simp
  from ReadBytes_append [OF this, of rest] show ?thesis by (simp add: ReadString_def mult.commute)
qed

section \<open>Decimal text can be read back\<close>

definition wdecimal :: "wchar list \<Rightarrow> nat" where
  "wdecimal ds = foldl (\<lambda>a d. 10 * a + (unat d - 48)) 0 ds"

text \<open>The digits are the code units 48 to 57, and the number can be read back from them.\<close>

lemma to_wstring_facts:
  "wdecimal (to_wstring n) = n \<and> (\<forall>c \<in> set (to_wstring n). 48 \<le> unat c \<and> unat c \<le> 57)"
proof (induction n rule: to_wstring.induct)
  case (1 n)
  define d where "d k = (word_of_nat (48 + k) :: wchar)" for k
  have digit: "unat (d k) = 48 + k" if "k < 10" for k
    using that unfolding d_def by (simp only: unat_of_nat) simp
  have eq: "to_wstring n = (if n < 10 then [d n] else to_wstring (n div 10) @ [d (n mod 10)])"
    unfolding d_def by (rule to_wstring.simps)
  show ?case
  proof (cases "n < 10")
    case True
    then show ?thesis using digit [of n] eq by (simp add: wdecimal_def)
  next
    case False
    have "unat (d (n mod 10)) = 48 + n mod 10" by (rule digit) simp
    then show ?thesis using False 1 eq by (auto simp: wdecimal_def)
  qed
qed

lemma to_wstring_separated:
  assumes "\<not> (48 \<le> unat c \<and> unat c \<le> 57)"
  shows "to_wstring m @ [c] @ xs = to_wstring n @ [c] @ ys \<longleftrightarrow> m = n \<and> xs = ys"
proof
  assume eq: "to_wstring m @ [c] @ xs = to_wstring n @ [c] @ ys"
  have digits: "takeWhile (\<lambda>x. x \<noteq> c) (to_wstring k @ [c] @ zs) = to_wstring k" for k zs
    using to_wstring_facts [of k] assms by (auto simp: takeWhile_append)
  have "to_wstring m = to_wstring n" by (metis digits eq)
  then have "m = n" by (metis to_wstring_facts)
  then show "m = n \<and> xs = ys" using eq by simp
qed simp

section \<open>Reads consume input\<close>

lemma ReadU8_length: "ReadU8 r = Some (v, r') \<Longrightarrow> length r = Suc (length r') \<and> v < 256"
  using byte_less by (auto simp: ReadU8_def split: list.splits)

lemma ReadLe_length: "ReadLe k r = Some (v, r') \<Longrightarrow> length r = k + length r' \<and> v < 256 ^ k"
  using le_value_bound [of "take k r"] by (auto simp: ReadLe_def min_def split: if_splits)

lemma ReadU32_length: "ReadU32 r = Some (v, r') \<Longrightarrow> length r = 4 + length r' \<and> v \<le> u32_max"
  using ReadLe_length [of 4 r v r'] by (simp add: ReadU32_def u32_max_def)

lemma ReadU64_length: "ReadU64 r = Some (v, r') \<Longrightarrow> length r = 8 + length r' \<and> v \<le> u64_max"
  using ReadLe_length [of 8 r v r'] by (simp add: ReadU64_def u64_max_def)

lemma ReadBytes_length:
  "ReadBytes r = Some (bs, r') \<Longrightarrow> length r = 4 + length bs + length r' \<and> length bs \<le> u32_max"
  by (auto simp: ReadBytes_def dest!: ReadU32_length split: option.splits if_splits)

lemma DecodeUtf16_length: "DecodeUtf16 bs = Some cs \<Longrightarrow> length bs = 2 * length cs"
  by (induction bs arbitrary: cs rule: DecodeUtf16.induct) (auto split: option.splits)

lemma ReadString_length:
  "ReadString r = Some (cs, r') \<Longrightarrow>
   length r = 4 + 2 * length cs + length r' \<and> length cs \<le> u32_max div 2"
  by (auto simp: ReadString_def dest!: ReadBytes_length DecodeUtf16_length split: option.splits)

section \<open>The checksum detects every single-byte error\<close>

text \<open>
  The prime is odd, hence invertible modulo \<open>2 ^ 32\<close>, and exclusive-or with a byte is
  injective; so a step of the hash loses nothing of the hash before it, and two different
  bytes give different hashes.
\<close>

lemma fnv_prime_inverse: "fnv_prime * 899433627 = 1"
  by (simp add: fnv_prime_def)

lemma fnv_step_cancel: "x * fnv_prime = y * fnv_prime \<longleftrightarrow> x = y"
proof
  assume "x * fnv_prime = y * fnv_prime"
  then have "x * (fnv_prime * 899433627) = y * (fnv_prime * 899433627)"
    by (simp only: mult.assoc [symmetric])
  then show "x = y" by (simp only: fnv_prime_inverse mult_1_right)
qed simp

lemma xor_cancel_left: "(a::32 word) XOR b = a XOR c \<longleftrightarrow> b = c"
  by (metis bit.xor_left_self)

lemma xor_cancel_right: "(b::32 word) XOR a = c XOR a \<longleftrightarrow> b = c"
  by (metis bit.xor_left_self xor.commute)

lemma UpdateFnv1a_inj: "UpdateFnv1a h bs = UpdateFnv1a h' bs \<longleftrightarrow> h = h'"
  by (induction bs arbitrary: h h') (simp_all add: fnv_step_cancel xor_cancel_right)

lemma UpdateFnv1a_append: "UpdateFnv1a h (xs @ ys) = UpdateFnv1a (UpdateFnv1a h xs) ys"
  by (induction xs arbitrary: h) simp_all

lemma ucast_byte_inj: "(ucast (a::byte) :: 32 word) = ucast b \<longleftrightarrow> a = b"
proof
  assume "(ucast a :: 32 word) = ucast b"
  then have "(ucast (ucast a :: 32 word) :: byte) = ucast (ucast b :: 32 word)" by simp
  then show "a = b" by (simp add: unsigned_ucast_eq take_bit_word_eq_self)
qed simp

lemma UpdateFnv1a_update:
  assumes "i < length bs" and "b \<noteq> bs ! i"
  shows "UpdateFnv1a h (bs[i := b]) \<noteq> UpdateFnv1a h bs"
proof -
  have "bs = take i bs @ bs ! i # drop (Suc i) bs" using assms(1) by (rule id_take_nth_drop)
  then have "UpdateFnv1a h bs = UpdateFnv1a h (take i bs @ bs ! i # drop (Suc i) bs)" by simp
  moreover have "bs[i := b] = take i bs @ b # drop (Suc i) bs"
    using assms(1) by (rule upd_conv_take_nth_drop)
  ultimately show ?thesis
    using assms(2)
    by (simp add: UpdateFnv1a_append UpdateFnv1a_inj fnv_step_cancel xor_cancel_left ucast_byte_inj)
qed

end
