(* ===== verification/BtreeMutationCodec.thy ===== *)
theory BtreeMutationCodec
  imports ByteCodec
begin

text \<open>
  The B-tree records of \<^verbatim>\<open>src/BtreeMutationCodec.cpp\<close>: key and value bytes of inode,
  directory entry and file extent records.  The metadata store keys its pending records by
  these key bytes, so the property that matters is that a key identifies its record.
\<close>

section \<open>Data and encoders\<close>

datatype BtreeRecordKind = InodeKind | DirectoryEntryKind | FileExtentKind

fun kind_value :: "BtreeRecordKind \<Rightarrow> nat" where
  "kind_value InodeKind = 1"
| "kind_value DirectoryEntryKind = 2"
| "kind_value FileExtentKind = 3"

record BtreeRecord =
  record_kind :: BtreeRecordKind
  record_tombstone :: bool
  record_key :: "byte list"
  record_value :: "byte list"

definition AppendLe32 :: "byte list \<Rightarrow> nat \<Rightarrow> byte list" where
  "AppendLe32 buffer value = buffer @ le_bytes 4 value"

definition AppendLe64 :: "byte list \<Rightarrow> nat \<Rightarrow> byte list" where
  "AppendLe64 buffer value = buffer @ le_bytes 8 value"

definition AppendWideString :: "byte list \<Rightarrow> wchar list \<Rightarrow> byte list" where
  "AppendWideString buffer txt = AppendLe32 buffer (length txt) @ utf16_bytes txt"

definition inode_flags :: "bool \<Rightarrow> bool \<Rightarrow> nat \<Rightarrow> nat" where
  "inode_flags is_directory tombstone timestamp_utc =
     (let flags = 0;
          flags = (if is_directory then flags OR 1 else flags);
          flags = (if tombstone then flags OR 2 else flags)
      in if timestamp_utc \<noteq> 0 then flags OR 4 else flags)"

definition EncodeInodeRecord ::
  "nat \<Rightarrow> nat \<Rightarrow> wchar list \<Rightarrow> bool \<Rightarrow> nat \<Rightarrow> nat \<Rightarrow> nat \<Rightarrow> nat \<Rightarrow> bool \<Rightarrow> BtreeRecord" where
  "EncodeInodeRecord object_id parent_object_id name is_directory logical_size
     data_physical_address timestamp_utc xid tombstone =
     (let kind = InodeKind;
          key = AppendLe64 (AppendLe64 [word_of_nat (kind_value kind)] parent_object_id) object_id;
          value = AppendLe32 (AppendLe64 [] xid) (inode_flags is_directory tombstone timestamp_utc);
          value = AppendLe64 (AppendLe64 value logical_size) data_physical_address;
          value = (if timestamp_utc \<noteq> 0 then AppendLe64 value timestamp_utc else value);
          value = AppendWideString value name
      in \<lparr>record_kind = kind, record_tombstone = tombstone, record_key = key, record_value = value\<rparr>)"

definition EncodeDirectoryRecord ::
  "nat \<Rightarrow> wchar list \<Rightarrow> nat \<Rightarrow> nat \<Rightarrow> bool \<Rightarrow> BtreeRecord" where
  "EncodeDirectoryRecord parent_object_id entry_name child_object_id xid tombstone =
     (let kind = DirectoryEntryKind;
          key = AppendWideString (AppendLe64 [word_of_nat (kind_value kind)] parent_object_id) entry_name;
          value = AppendLe64 (AppendLe64 [] xid) child_object_id @ [if tombstone then 1 else 0]
      in \<lparr>record_kind = kind, record_tombstone = tombstone, record_key = key, record_value = value\<rparr>)"

definition EncodeExtentRecord ::
  "nat \<Rightarrow> nat \<Rightarrow> nat \<Rightarrow> nat \<Rightarrow> nat \<Rightarrow> bool \<Rightarrow> BtreeRecord" where
  "EncodeExtentRecord object_id logical_offset physical_address extent_bytes xid tombstone =
     (let kind = FileExtentKind;
          key = AppendLe64 (AppendLe64 [word_of_nat (kind_value kind)] object_id) logical_offset;
          value = AppendLe64 (AppendLe64 (AppendLe64 [] xid) physical_address) extent_bytes @
                  [if tombstone then 1 else 0]
      in \<lparr>record_kind = kind, record_tombstone = tombstone, record_key = key, record_value = value\<rparr>)"

section \<open>A key identifies its record\<close>

text \<open>
  The arguments of the three encoders, and what identifies a record among all records:
  the inode by parent and object, the directory entry by parent and name, the file extent
  by object and logical offset.
\<close>

datatype BtreeMutation =
    InodeMutation nat nat "wchar list" bool nat nat nat nat bool
  | DirectoryMutation nat "wchar list" nat nat bool
  | ExtentMutation nat nat nat nat nat bool

fun encode_mutation :: "BtreeMutation \<Rightarrow> BtreeRecord" where
  "encode_mutation (InodeMutation object parent name dir lsize data ts xid tomb) =
     EncodeInodeRecord object parent name dir lsize data ts xid tomb"
| "encode_mutation (DirectoryMutation parent name child xid tomb) =
     EncodeDirectoryRecord parent name child xid tomb"
| "encode_mutation (ExtentMutation object offset pa n xid tomb) =
     EncodeExtentRecord object offset pa n xid tomb"

datatype BtreeIdentity =
    InodeIdentity nat nat | DirectoryIdentity nat "wchar list" | ExtentIdentity nat nat

fun mutation_identity :: "BtreeMutation \<Rightarrow> BtreeIdentity" where
  "mutation_identity (InodeMutation object parent name dir lsize data ts xid tomb) =
     InodeIdentity parent object"
| "mutation_identity (DirectoryMutation parent name child xid tomb) = DirectoryIdentity parent name"
| "mutation_identity (ExtentMutation object offset pa n xid tomb) = ExtentIdentity object offset"

fun mutation_bounded :: "BtreeMutation \<Rightarrow> bool" where
  "mutation_bounded (InodeMutation object parent name dir lsize data ts xid tomb) \<longleftrightarrow>
     object \<le> u64_max \<and> parent \<le> u64_max \<and> length name \<le> u32_max \<and> lsize \<le> u64_max \<and>
     data \<le> u64_max \<and> ts \<le> u64_max \<and> xid \<le> u64_max"
| "mutation_bounded (DirectoryMutation parent name child xid tomb) \<longleftrightarrow>
     parent \<le> u64_max \<and> length name \<le> u32_max \<and> child \<le> u64_max \<and> xid \<le> u64_max"
| "mutation_bounded (ExtentMutation object offset pa n xid tomb) \<longleftrightarrow>
     object \<le> u64_max \<and> offset \<le> u64_max \<and> pa \<le> u64_max \<and> n \<le> u64_max \<and> xid \<le> u64_max"

lemma le_bytes_8_append_inj:
  assumes "a \<le> u64_max" and "b \<le> u64_max"
  shows "le_bytes 8 a @ xs = le_bytes 8 b @ ys \<longleftrightarrow> a = b \<and> xs = ys"
  by (metis ReadU64_le [OF assms(1), of xs] ReadU64_le [OF assms(2), of ys] option.inject prod.inject)

lemma le_bytes_4_append_inj:
  assumes "a \<le> u32_max" and "b \<le> u32_max"
  shows "le_bytes 4 a @ xs = le_bytes 4 b @ ys \<longleftrightarrow> a = b \<and> xs = ys"
  by (metis ReadU32_le [OF assms(1), of xs] ReadU32_le [OF assms(2), of ys] option.inject prod.inject)

lemma le_bytes_8_inj: "a \<le> u64_max \<Longrightarrow> b \<le> u64_max \<Longrightarrow> le_bytes 8 a = le_bytes 8 b \<longleftrightarrow> a = b"
  using le_bytes_8_append_inj [of a b "[]" "[]"] by simp

lemma utf16_bytes_inj: "utf16_bytes xs = utf16_bytes ys \<longleftrightarrow> xs = ys"
  by (metis DecodeUtf16_utf16_bytes option.inject)

lemmas append_defs = AppendLe32_def AppendLe64_def AppendWideString_def Let_def

text \<open>
  C11. The key bytes of a record identify it: two records have the same key exactly when they
  are of the same kind and agree on parent and object, on parent and name, or on object and
  logical offset; no other argument enters the key.
\<close>

theorem encode_mutation_key_identifies:
  assumes "mutation_bounded m" and "mutation_bounded m'"
  shows "record_key (encode_mutation m) = record_key (encode_mutation m') \<longleftrightarrow>
         mutation_identity m = mutation_identity m'"
  using assms
  by (cases m; cases m')
     (auto simp: EncodeInodeRecord_def EncodeDirectoryRecord_def EncodeExtentRecord_def append_defs
        le_bytes_8_append_inj le_bytes_4_append_inj le_bytes_8_inj utf16_bytes_inj)

theorem encode_mutation_key_identifies_witness:
  "record_key (encode_mutation (DirectoryMutation 2 [97] 16 7 False)) =
     record_key (encode_mutation (DirectoryMutation 2 [97] 99 8 True))"
  using encode_mutation_key_identifies
    [of "DirectoryMutation 2 [97] 16 7 False" "DirectoryMutation 2 [97] 99 8 True"]
  by (simp add: u64_max_def u32_max_def)

end
