(* ===== verification/VolumeTreeStore.thy ===== *)
theory VolumeTreeStore
  imports BtreeMutationCodec
begin

text \<open>
  The volume tree store of \<^verbatim>\<open>src/ApfsVolumeTreeStore.cpp\<close>: the decoders of the B-tree
  records written by \<^verbatim>\<open>src/BtreeMutationCodec.cpp\<close>, and
  \<^verbatim>\<open>TryProjectFromBtreeRecords\<close>, which accepts a set of records only if it describes a
  consistent volume tree.

  The hash maps of the source are association lists in insertion order; a set of keys is a
  list.  The source walks a hash map in an unspecified order, so when several checks fail
  it may report another one of the errors; whether the records are accepted does not depend
  on the order.
\<close>

section \<open>Decoders\<close>

record DecodedBtreeInode =
  di_object_id :: nat
  di_parent_object_id :: nat
  di_xid :: nat
  di_is_directory :: bool
  di_logical_size :: nat
  di_data_physical_address :: nat
  di_timestamp_utc :: nat
  di_name :: "wchar list"

record DecodedBtreeDirectoryEntry =
  dd_parent_object_id :: nat
  dd_entry_name :: "wchar list"
  dd_child_object_id :: nat
  dd_xid :: nat

record DecodedBtreeExtent =
  dx_object_id :: nat
  dx_logical_offset :: nat
  dx_physical_address :: nat
  dx_extent_bytes :: nat
  dx_xid :: nat

definition TryReadLe :: "nat \<Rightarrow> byte list \<Rightarrow> nat \<Rightarrow> nat option" where
  "TryReadLe k buffer offset =
     (if offset > u64_max - k \<or> offset + k > length buffer then None
      else Some (le_value (take k (drop offset buffer))))"

definition TryReadLe32 :: "byte list \<Rightarrow> nat \<Rightarrow> nat option" where
  "TryReadLe32 = TryReadLe 4"

definition TryReadLe64 :: "byte list \<Rightarrow> nat \<Rightarrow> nat option" where
  "TryReadLe64 = TryReadLe 8"

text \<open>The loop over the code units; the caller has checked that the bytes are there.\<close>

fun read_code_units :: "byte list \<Rightarrow> nat \<Rightarrow> nat \<Rightarrow> wchar list" where
  "read_code_units buffer cursor 0 = []"
| "read_code_units buffer cursor (Suc n) =
     (ucast (buffer ! cursor) OR push_bit 8 (ucast (buffer ! Suc cursor))) #
     read_code_units buffer (cursor + 2) n"

definition TryReadWideStringWithLength ::
  "byte list \<Rightarrow> nat \<Rightarrow> (wchar list \<times> nat) option" where
  "TryReadWideStringWithLength buffer cursor =
     (case TryReadLe32 buffer cursor of
        None \<Rightarrow> None
      | Some units \<Rightarrow>
          let cursor' = cursor + 4 in
          if units = 0 then Some ([], cursor')
          else if units > u32_max div 2 then None
          else if units * 2 > u64_max - cursor' then None
          else if units * 2 > length buffer - cursor' then None
          else Some (read_code_units buffer cursor' units, cursor' + 2 * units))"

definition IsValidKindPrefix :: "BtreeRecord \<Rightarrow> bool" where
  "IsValidKindPrefix r =
     (case record_key r of
        [] \<Rightarrow> False
      | prefix # _ \<Rightarrow> unat prefix = kind_value (record_kind r))"

definition BuildDirectoryEntryIndexKey :: "nat \<Rightarrow> wchar list \<Rightarrow> wchar list" where
  "BuildDirectoryEntryIndexKey parent_object_id entry_name =
     to_wstring parent_object_id @ [31] @ entry_name"

definition DecodeBtreeInodeRecord :: "BtreeRecord \<Rightarrow> DecodedBtreeInode option" where
  "DecodeBtreeInodeRecord r =
     (if length (record_key r) \<noteq> 17 then None
      else do {
        parent \<leftarrow> TryReadLe64 (record_key r) 1;
        object \<leftarrow> TryReadLe64 (record_key r) 9;
        xid \<leftarrow> TryReadLe64 (record_value r) 0;
        flags \<leftarrow> TryReadLe32 (record_value r) 8;
        logical_size \<leftarrow> TryReadLe64 (record_value r) 12;
        data \<leftarrow> TryReadLe64 (record_value r) 20;
        (timestamp, cursor) \<leftarrow>
          (if flags AND 4 \<noteq> 0 then do { t \<leftarrow> TryReadLe64 (record_value r) 28; Some (t, 36) }
           else Some (0, 28));
        (name, cursor') \<leftarrow> TryReadWideStringWithLength (record_value r) cursor;
        (if cursor' \<noteq> length (record_value r) then None
         else
           let is_directory = (flags AND 1 \<noteq> 0) in
           if flags AND 2 \<noteq> 0 \<or> flags AND 4294967290 \<noteq> 0 then None
           else if object = 0 \<or> parent = 0 \<or> name = [] \<or> xid = 0 then None
           else if is_directory \<and> (logical_size \<noteq> 0 \<or> data \<noteq> 0) then None
           else Some \<lparr>di_object_id = object, di_parent_object_id = parent, di_xid = xid,
                      di_is_directory = is_directory, di_logical_size = logical_size,
                      di_data_physical_address = data, di_timestamp_utc = timestamp,
                      di_name = name\<rparr>) })"

definition DecodeBtreeDirectoryRecord :: "BtreeRecord \<Rightarrow> DecodedBtreeDirectoryEntry option" where
  "DecodeBtreeDirectoryRecord r =
     (if length (record_key r) < 13 then None
      else do {
        parent \<leftarrow> TryReadLe64 (record_key r) 1;
        (entry_name, key_cursor) \<leftarrow> TryReadWideStringWithLength (record_key r) 9;
        (if key_cursor \<noteq> length (record_key r) \<or> entry_name = [] then None
         else if length (record_value r) \<noteq> 17 then None
         else do {
           xid \<leftarrow> TryReadLe64 (record_value r) 0;
           child \<leftarrow> TryReadLe64 (record_value r) 8;
           (if parent = 0 \<or> child = 0 \<or> xid = 0 \<or> record_value r ! 16 \<noteq> 0 then None
            else Some \<lparr>dd_parent_object_id = parent, dd_entry_name = entry_name,
                       dd_child_object_id = child, dd_xid = xid\<rparr>) }) })"

definition DecodeBtreeExtentRecord :: "BtreeRecord \<Rightarrow> DecodedBtreeExtent option" where
  "DecodeBtreeExtentRecord r =
     (if length (record_key r) \<noteq> 17 then None
      else do {
        object \<leftarrow> TryReadLe64 (record_key r) 1;
        offset \<leftarrow> TryReadLe64 (record_key r) 9;
        (if object = 0 then None
         else if length (record_value r) \<noteq> 25 then None
         else do {
           xid \<leftarrow> TryReadLe64 (record_value r) 0;
           pa \<leftarrow> TryReadLe64 (record_value r) 8;
           n \<leftarrow> TryReadLe64 (record_value r) 16;
           (if xid = 0 \<or> n = 0 \<or> record_value r ! 24 \<noteq> 0 then None
            else Some \<lparr>dx_object_id = object, dx_logical_offset = offset,
                       dx_physical_address = pa, dx_extent_bytes = n, dx_xid = xid\<rparr>) }) })"

section \<open>Logical coverage\<close>

fun covers_from :: "nat \<Rightarrow> nat \<Rightarrow> DecodedBtreeExtent list \<Rightarrow> bool" where
  "covers_from logical_size covered_until [] = False"
| "covers_from logical_size covered_until (x # xs) =
     (if dx_extent_bytes x = 0 \<or> dx_physical_address x = 0 \<or>
         dx_logical_offset x \<noteq> covered_until \<or>
         dx_logical_offset x > u64_max - dx_extent_bytes x then False
      else let covered = dx_logical_offset x + dx_extent_bytes x in
        if covered \<ge> logical_size then True else covers_from logical_size covered xs)"

definition HasExtentCoverage :: "DecodedBtreeExtent list \<Rightarrow> nat \<Rightarrow> nat \<Rightarrow> bool" where
  "HasExtentCoverage extents logical_size anchor_physical_address =
     (if logical_size = 0 then extents = []
      else if extents = [] then False
      else
        let sorted = sort_key (\<lambda>x. (dx_logical_offset x, dx_physical_address x)) extents in
        if dx_logical_offset (hd sorted) \<noteq> 0 \<or>
           dx_physical_address (hd sorted) \<noteq> anchor_physical_address then False
        else covers_from logical_size 0 sorted)"

section \<open>Projection\<close>

datatype VolumeTreeError =
    BtreeRecordKindPrefixMismatch | BtreeRecordTombstoneUnsupported | BtreeRecordMissingValue
  | BtreeRecordDuplicateKey | BtreeInodeDecodeInvalid | BtreeInodeDuplicateObjectId
  | BtreeDirectoryDecodeInvalid | BtreeDirectoryDuplicateEntry | BtreeExtentDecodeInvalid
  | BtreeNativeAllocationMissingFile | BtreeExtentMissingForFileInode
  | BtreeExtentUnexpectedForZeroLengthInode | BtreeExtentMissingInode | BtreeExtentInodeMismatch
  | BtreeDirectoryMissingChildInode | BtreeDirectoryChildMismatch
  | BtreeDirectoryParentNotDirectory | BtreeInodeUnlinked | BtreeInodeParentInvalid

record ApfsVolumeTreeProjection =
  inode_record_count :: nat
  directory_entry_record_count :: nat
  extent_record_count :: nat

record DecodedTree =
  dedupe_keys :: "byte list list"
  decoded_inodes_by_object :: "(nat \<times> DecodedBtreeInode) list"
  decoded_directory_entries :: "(wchar list \<times> DecodedBtreeDirectoryEntry) list"
  decoded_extents_by_object :: "(nat \<times> DecodedBtreeExtent list) list"

fun push_extent ::
  "DecodedBtreeExtent \<Rightarrow> (nat \<times> DecodedBtreeExtent list) list \<Rightarrow>
   (nat \<times> DecodedBtreeExtent list) list" where
  "push_extent d [] = [(dx_object_id d, [d])]"
| "push_extent d ((object, ds) # m) =
     (if object = dx_object_id d then (object, ds @ [d]) # m
      else (object, ds) # push_extent d m)"

text \<open>The body of the loop over the records.\<close>

definition project_record :: "DecodedTree \<Rightarrow> BtreeRecord \<Rightarrow> VolumeTreeError + DecodedTree" where
  "project_record t r =
     (if \<not> IsValidKindPrefix r then Inl BtreeRecordKindPrefixMismatch
      else if record_tombstone r then Inl BtreeRecordTombstoneUnsupported
      else if record_value r = [] then Inl BtreeRecordMissingValue
      else if record_key r \<in> set (dedupe_keys t) then Inl BtreeRecordDuplicateKey
      else
        let t = t\<lparr>dedupe_keys := dedupe_keys t @ [record_key r]\<rparr> in
        case record_kind r of
          InodeKind \<Rightarrow>
            (case DecodeBtreeInodeRecord r of
               None \<Rightarrow> Inl BtreeInodeDecodeInvalid
             | Some d \<Rightarrow>
                 if di_object_id d \<in> fst ` set (decoded_inodes_by_object t)
                 then Inl BtreeInodeDuplicateObjectId
                 else Inr (t\<lparr>decoded_inodes_by_object :=
                               decoded_inodes_by_object t @ [(di_object_id d, d)]\<rparr>))
        | DirectoryEntryKind \<Rightarrow>
            (case DecodeBtreeDirectoryRecord r of
               None \<Rightarrow> Inl BtreeDirectoryDecodeInvalid
             | Some d \<Rightarrow>
                 let key = BuildDirectoryEntryIndexKey (dd_parent_object_id d) (dd_entry_name d) in
                 if key \<in> fst ` set (decoded_directory_entries t)
                 then Inl BtreeDirectoryDuplicateEntry
                 else Inr (t\<lparr>decoded_directory_entries :=
                               decoded_directory_entries t @ [(key, d)]\<rparr>))
        | FileExtentKind \<Rightarrow>
            (case DecodeBtreeExtentRecord r of
               None \<Rightarrow> Inl BtreeExtentDecodeInvalid
             | Some d \<Rightarrow>
                 Inr (t\<lparr>decoded_extents_by_object := push_extent d (decoded_extents_by_object t)\<rparr>)))"

fun project_records :: "DecodedTree \<Rightarrow> BtreeRecord list \<Rightarrow> VolumeTreeError + DecodedTree" where
  "project_records t [] = Inr t"
| "project_records t (r # rs) =
     (case project_record t r of Inl e \<Rightarrow> Inl e | Inr t' \<Rightarrow> project_records t' rs)"

text \<open>A loop that stops at the first element with an error.\<close>

fun first_error :: "('a \<Rightarrow> 'e option) \<Rightarrow> 'a list \<Rightarrow> 'e option" where
  "first_error check [] = None"
| "first_error check (x # xs) = (case check x of None \<Rightarrow> first_error check xs | Some e \<Rightarrow> Some e)"

definition check_native_allocation :: "DecodedTree \<Rightarrow> nat \<times> nat \<Rightarrow> VolumeTreeError option" where
  "check_native_allocation t allocation =
     (case map_of (decoded_inodes_by_object t) (fst allocation) of
        None \<Rightarrow> Some BtreeNativeAllocationMissingFile
      | Some inode \<Rightarrow>
          if snd allocation = 0 \<or> di_is_directory inode
          then Some BtreeNativeAllocationMissingFile else None)"

definition extent_size :: "(nat \<times> nat) list \<Rightarrow> DecodedBtreeInode \<Rightarrow> nat" where
  "extent_size native_allocations inode =
     (case map_of native_allocations (di_object_id inode) of
        None \<Rightarrow> di_logical_size inode
      | Some allocation \<Rightarrow> max (di_logical_size inode) allocation)"

definition check_inode_extents ::
  "(nat \<times> nat) list \<Rightarrow> DecodedTree \<Rightarrow> nat \<times> DecodedBtreeInode \<Rightarrow> VolumeTreeError option" where
  "check_inode_extents native_allocations t p =
     (let object_id = fst p; inode = snd p;
          has_extents = object_id \<in> fst ` set (decoded_extents_by_object t) in
      if \<not> di_is_directory inode \<and> extent_size native_allocations inode > 0 \<and>
         di_data_physical_address inode \<noteq> 0 \<and> \<not> has_extents
      then Some BtreeExtentMissingForFileInode
      else if extent_size native_allocations inode = 0 \<and> has_extents
      then Some BtreeExtentUnexpectedForZeroLengthInode
      else None)"

definition check_extent_inode ::
  "(nat \<times> nat) list \<Rightarrow> DecodedTree \<Rightarrow> nat \<times> DecodedBtreeExtent list \<Rightarrow> VolumeTreeError option" where
  "check_extent_inode native_allocations t p =
     (case map_of (decoded_inodes_by_object t) (fst p) of
        None \<Rightarrow> Some BtreeExtentMissingInode
      | Some inode \<Rightarrow>
          if di_is_directory inode then Some BtreeExtentMissingInode
          else if \<not> HasExtentCoverage (snd p) (extent_size native_allocations inode)
                      (di_data_physical_address inode)
          then Some BtreeExtentInodeMismatch
          else None)"

definition is_primary_link :: "DecodedBtreeInode \<Rightarrow> DecodedBtreeDirectoryEntry \<Rightarrow> bool" where
  "is_primary_link child entry \<longleftrightarrow>
     di_parent_object_id child = dd_parent_object_id entry \<and> di_name child = dd_entry_name entry"

text \<open>
  The loop over the directory entries counts the links of every inode.  The maps
  \<^verbatim>\<open>inbound_links\<close> and \<^verbatim>\<open>primary_links\<close> hold a count for exactly the decoded
  inodes, since an entry without a child inode is an error.
\<close>

fun count_links ::
  "DecodedTree \<Rightarrow> DecodedBtreeDirectoryEntry list \<Rightarrow> (nat \<Rightarrow> nat) \<Rightarrow> (nat \<Rightarrow> nat) \<Rightarrow>
   VolumeTreeError + (nat \<Rightarrow> nat) \<times> (nat \<Rightarrow> nat)" where
  "count_links t [] inbound primary = Inr (inbound, primary)"
| "count_links t (entry # es) inbound primary =
     (case map_of (decoded_inodes_by_object t) (dd_child_object_id entry) of
        None \<Rightarrow> Inl BtreeDirectoryMissingChildInode
      | Some child \<Rightarrow>
          if di_is_directory child \<and> \<not> is_primary_link child entry
          then Inl BtreeDirectoryChildMismatch
          else if (case map_of (decoded_inodes_by_object t) (dd_parent_object_id entry) of
                     None \<Rightarrow> False | Some parent \<Rightarrow> \<not> di_is_directory parent)
          then Inl BtreeDirectoryParentNotDirectory
          else
            let c = dd_child_object_id entry in
            count_links t es (inbound(c := Suc (inbound c)))
              (if is_primary_link child entry then primary(c := Suc (primary c)) else primary))"

definition check_inode_links ::
  "(nat \<Rightarrow> nat) \<Rightarrow> (nat \<Rightarrow> nat) \<Rightarrow> nat \<times> DecodedBtreeInode \<Rightarrow> VolumeTreeError option" where
  "check_inode_links inbound primary p =
     (if inbound (fst p) = 0 then Some BtreeInodeUnlinked
      else if primary (fst p) \<noteq> 1 then Some BtreeDirectoryChildMismatch
      else if di_parent_object_id (snd p) = 0 then Some BtreeInodeParentInvalid
      else None)"

definition TryProjectFromBtreeRecords ::
  "BtreeRecord list \<Rightarrow> (nat \<times> nat) list \<Rightarrow> VolumeTreeError + ApfsVolumeTreeProjection" where
  "TryProjectFromBtreeRecords records native_allocations =
     (case project_records \<lparr>dedupe_keys = [], decoded_inodes_by_object = [],
             decoded_directory_entries = [], decoded_extents_by_object = []\<rparr> records of
        Inl e \<Rightarrow> Inl e
      | Inr t \<Rightarrow>
          (case first_error (check_native_allocation t) native_allocations of
             Some e \<Rightarrow> Inl e
           | None \<Rightarrow>
          (case first_error (check_inode_extents native_allocations t) (decoded_inodes_by_object t) of
             Some e \<Rightarrow> Inl e
           | None \<Rightarrow>
          (case first_error (check_extent_inode native_allocations t) (decoded_extents_by_object t) of
             Some e \<Rightarrow> Inl e
           | None \<Rightarrow>
          (case count_links t (map snd (decoded_directory_entries t)) (\<lambda>_. 0) (\<lambda>_. 0) of
             Inl e \<Rightarrow> Inl e
           | Inr (inbound, primary) \<Rightarrow>
          (case first_error (check_inode_links inbound primary) (decoded_inodes_by_object t) of
             Some e \<Rightarrow> Inl e
           | None \<Rightarrow>
               Inr \<lparr>inode_record_count = length (decoded_inodes_by_object t),
                    directory_entry_record_count = length (decoded_directory_entries t),
                    extent_record_count =
                      sum_list (map (length \<circ> snd) (decoded_extents_by_object t))\<rparr>))))))"


section \<open>Round trip of the records\<close>

text \<open>The three decoders together, with the record's fields as a mutation.\<close>

definition decode_record :: "BtreeRecord \<Rightarrow> BtreeMutation option" where
  "decode_record r =
     (case record_kind r of
        InodeKind \<Rightarrow>
          map_option (\<lambda>d. InodeMutation (di_object_id d) (di_parent_object_id d) (di_name d)
            (di_is_directory d) (di_logical_size d) (di_data_physical_address d)
            (di_timestamp_utc d) (di_xid d) False) (DecodeBtreeInodeRecord r)
      | DirectoryEntryKind \<Rightarrow>
          map_option (\<lambda>d. DirectoryMutation (dd_parent_object_id d) (dd_entry_name d)
            (dd_child_object_id d) (dd_xid d) False) (DecodeBtreeDirectoryRecord r)
      | FileExtentKind \<Rightarrow>
          map_option (\<lambda>d. ExtentMutation (dx_object_id d) (dx_logical_offset d)
            (dx_physical_address d) (dx_extent_bytes d) (dx_xid d) False) (DecodeBtreeExtentRecord r))"

fun mutation_live :: "BtreeMutation \<Rightarrow> bool" where
  "mutation_live (InodeMutation object parent name dir lsize data ts xid tomb) \<longleftrightarrow>
     \<not> tomb \<and> object \<noteq> 0 \<and> parent \<noteq> 0 \<and> name \<noteq> [] \<and> length name \<le> u32_max div 2 \<and> xid \<noteq> 0 \<and>
     (dir \<longrightarrow> lsize = 0 \<and> data = 0)"
| "mutation_live (DirectoryMutation parent name child xid tomb) \<longleftrightarrow>
     \<not> tomb \<and> parent \<noteq> 0 \<and> name \<noteq> [] \<and> length name \<le> u32_max div 2 \<and> child \<noteq> 0 \<and> xid \<noteq> 0"
| "mutation_live (ExtentMutation object offset pa n xid tomb) \<longleftrightarrow>
     \<not> tomb \<and> object \<noteq> 0 \<and> xid \<noteq> 0 \<and> n \<noteq> 0"

lemma le_value_8: "v \<le> u64_max \<Longrightarrow> le_value (le_bytes 8 v) = v"
  by (simp add: u64_max_def)

lemma le_value_4: "v \<le> u32_max \<Longrightarrow> le_value (le_bytes 4 v) = v"
  by (simp add: u32_max_def)

lemma TryReadLe_append:
  assumes "length xs = offset" and "offset + k \<le> u64_max" and "v < 256 ^ k"
  shows "TryReadLe k (xs @ le_bytes k v @ ys) offset = Some v"
  using assms by (auto simp: TryReadLe_def)

lemma TryReadLe64_at:
  "length xs = offset \<Longrightarrow> offset \<le> 100 \<Longrightarrow> v \<le> u64_max \<Longrightarrow>
   TryReadLe64 (xs @ le_bytes 8 v @ ys) offset = Some v"
  unfolding TryReadLe64_def by (rule TryReadLe_append) (simp_all add: u64_max_def)

lemma TryReadLe32_at:
  "length xs = offset \<Longrightarrow> offset \<le> 100 \<Longrightarrow> v \<le> u32_max \<Longrightarrow>
   TryReadLe32 (xs @ le_bytes 4 v @ ys) offset = Some v"
  unfolding TryReadLe32_def by (rule TryReadLe_append) (simp_all add: u64_max_def u32_max_def)

lemma read_code_units_append:
  "length xs = cursor \<Longrightarrow> read_code_units (xs @ utf16_bytes cs @ ys) cursor (length cs) = cs"
proof (induction cs arbitrary: xs cursor)
  case Nil
  then show ?case by simp
next
  case (Cons ch cs)
  have "read_code_units ((xs @ [ucast ch, ucast (drop_bit 8 ch)]) @ utf16_bytes cs @ ys)
      (cursor + 2) (length cs) = cs"
    using Cons.prems by (intro Cons.IH) simp
  then show ?case using Cons.prems by (auto simp: nth_append wchar_split)
qed

lemma TryReadWideString_at:
  assumes "length xs = cursor" and "cursor \<le> 100" and "length cs \<le> u32_max"
  shows "TryReadWideStringWithLength (xs @ le_bytes 4 (length cs) @ utf16_bytes cs) cursor =
     (if length cs > u32_max div 2 then None else Some (cs, cursor + 4 + 2 * length cs))"
proof -
  have "read_code_units ((xs @ le_bytes 4 (length cs)) @ utf16_bytes cs @ []) (cursor + 4) (length cs) = cs"
    using assms(1) by (intro read_code_units_append) simp
  moreover have "\<not> u64_max - (cursor + 4) < length cs * 2"
    using assms(2,3) by (simp add: u64_max_def u32_max_def)
  ultimately show ?thesis
    using TryReadLe32_at [OF assms(1,2,3), of "utf16_bytes cs"] assms(1)
    by (auto simp: TryReadWideStringWithLength_def Let_def)
qed

lemma flags_facts:
  "(inode_flags d t ts AND 1 \<noteq> 0) = d" "(inode_flags d t ts AND 2 \<noteq> 0) = t"
  "(inode_flags d t ts AND 4 \<noteq> 0) = (ts \<noteq> 0)" "inode_flags d t ts AND 4294967290 \<noteq> 0 \<longrightarrow> t"
  "inode_flags d t ts \<le> u32_max"
  by (simp_all add: inode_flags_def u32_max_def)


lemma decode_inode_encoded:
  assumes "mutation_bounded (InodeMutation object parent name dir lsize data ts xid tomb)"
  shows "decode_record (EncodeInodeRecord object parent name dir lsize data ts xid tomb) =
     (if mutation_live (InodeMutation object parent name dir lsize data ts xid tomb)
      then Some (InodeMutation object parent name dir lsize data ts xid tomb) else None)"
proof -
  let ?r = "EncodeInodeRecord object parent name dir lsize data ts xid tomb"
  let ?flags = "inode_flags dir tomb ts"
  let ?stamp = "if ts \<noteq> 0 then le_bytes 8 ts else []"
  let ?txt = "le_bytes 4 (length name) @ utf16_bytes name"
  have b: "object \<le> u64_max" "parent \<le> u64_max" "length name \<le> u32_max" "lsize \<le> u64_max"
    "data \<le> u64_max" "ts \<le> u64_max" "xid \<le> u64_max" using assms by simp_all
  have k: "record_key ?r = [1] @ le_bytes 8 parent @ le_bytes 8 object"
    and v: "record_value ?r = le_bytes 8 xid @ le_bytes 4 ?flags @ le_bytes 8 lsize @ le_bytes 8 data @
        ?stamp @ ?txt"
    and kd: "record_kind ?r = InodeKind" by (simp_all add: EncodeInodeRecord_def append_defs)
  have keys: "length (record_key ?r) = 17" "TryReadLe64 (record_key ?r) 1 = Some parent"
    "TryReadLe64 (record_key ?r) 9 = Some object"
    using TryReadLe64_at [of "[1]" 1 parent "le_bytes 8 object"]
      TryReadLe64_at [of "[1] @ le_bytes 8 parent" 9 object "[]"] b unfolding k by simp_all
  have vals: "TryReadLe64 (record_value ?r) 0 = Some xid" "TryReadLe32 (record_value ?r) 8 = Some ?flags"
    "TryReadLe64 (record_value ?r) 12 = Some lsize" "TryReadLe64 (record_value ?r) 20 = Some data"
    using TryReadLe64_at [of "[]" 0 xid] TryReadLe32_at [of "le_bytes 8 xid" 8 ?flags]
      TryReadLe64_at [of "le_bytes 8 xid @ le_bytes 4 ?flags" 12 lsize]
      TryReadLe64_at [of "le_bytes 8 xid @ le_bytes 4 ?flags @ le_bytes 8 lsize" 20 data]
      b flags_facts(5) unfolding v by simp_all
  have stamp: "ts \<noteq> 0 \<Longrightarrow> TryReadLe64 (record_value ?r) 28 = Some ts"
    using TryReadLe64_at [of "le_bytes 8 xid @ le_bytes 4 ?flags @ le_bytes 8 lsize @ le_bytes 8 data"
        28 ts ?txt] b unfolding v by simp
  have wide: "TryReadWideStringWithLength (record_value ?r) (if ts \<noteq> 0 then 36 else 28) =
     (if length name > u32_max div 2 then None else Some (name, length (record_value ?r)))"
    using TryReadWideString_at [of "le_bytes 8 xid @ le_bytes 4 ?flags @ le_bytes 8 lsize @
        le_bytes 8 data @ ?stamp" "if ts \<noteq> 0 then 36 else 28" name] b unfolding v by simp
  have bad: "?flags AND 2 \<noteq> 0 \<or> ?flags AND 4294967290 \<noteq> 0 \<longleftrightarrow> tomb"
    using flags_facts(2,4) by blast
  define c where "c = (if ts \<noteq> 0 then 36 else (28 :: nat))"
  have sc: "(if ?flags AND 4 \<noteq> 0 then TryReadLe64 (record_value ?r) 28 \<bind> (\<lambda>t. Some (t, 36))
       else Some (0, 28)) = Some (ts, c)"
    unfolding flags_facts(3) c_def using stamp by simp
  have "DecodeBtreeInodeRecord ?r =
    (if length name > u32_max div 2 then None
     else if tomb then None else if object = 0 \<or> parent = 0 \<or> name = [] \<or> xid = 0 then None
     else if dir \<and> (lsize \<noteq> 0 \<or> data \<noteq> 0) then None
     else Some \<lparr>di_object_id = object, di_parent_object_id = parent, di_xid = xid,
       di_is_directory = dir, di_logical_size = lsize, di_data_physical_address = data,
       di_timestamp_utc = ts, di_name = name\<rparr>)"
    unfolding DecodeBtreeInodeRecord_def Let_def
    by (cases "length name > u32_max div 2")
       (simp_all only: keys vals Option.bind.bind_lunit sc prod.case wide [folded c_def] bad
        flags_facts(1) Option.bind.simps not_True_eq_False simp_thms if_False if_True)
  then show ?thesis by (simp add: decode_record_def kd)
qed

lemma decode_directory_encoded:
  assumes "mutation_bounded (DirectoryMutation parent name child xid tomb)"
  shows "decode_record (EncodeDirectoryRecord parent name child xid tomb) =
     (if mutation_live (DirectoryMutation parent name child xid tomb)
      then Some (DirectoryMutation parent name child xid tomb) else None)"
proof -
  let ?r = "EncodeDirectoryRecord parent name child xid tomb"
  have b: "parent \<le> u64_max" "length name \<le> u32_max" "child \<le> u64_max" "xid \<le> u64_max"
    using assms by simp_all
  have k: "record_key ?r = [2] @ le_bytes 8 parent @ le_bytes 4 (length name) @ utf16_bytes name"
    and v: "record_value ?r = le_bytes 8 xid @ le_bytes 8 child @ [if tomb then 1 else 0]"
    and kd: "record_kind ?r = DirectoryEntryKind" by (simp_all add: EncodeDirectoryRecord_def append_defs)
  have keys: "length (record_key ?r) \<ge> 13" "TryReadLe64 (record_key ?r) 1 = Some parent"
    "TryReadWideStringWithLength (record_key ?r) 9 =
       (if length name > u32_max div 2 then None else Some (name, length (record_key ?r)))"
    using TryReadLe64_at [of "[2]" 1 parent "le_bytes 4 (length name) @ utf16_bytes name"]
      TryReadWideString_at [of "[2] @ le_bytes 8 parent" 9 name] b unfolding k by simp_all
  have vals: "length (record_value ?r) = 17" "TryReadLe64 (record_value ?r) 0 = Some xid"
    "TryReadLe64 (record_value ?r) 8 = Some child" "record_value ?r ! 16 \<noteq> 0 \<longleftrightarrow> tomb"
    using TryReadLe64_at [of "[]" 0 xid] TryReadLe64_at [of "le_bytes 8 xid" 8 child] b
    unfolding v by (simp_all add: nth_append)
  show ?thesis
    using keys vals by (auto simp: decode_record_def kd DecodeBtreeDirectoryRecord_def)
qed

lemma decode_extent_encoded:
  assumes "mutation_bounded (ExtentMutation object offset pa n xid tomb)"
  shows "decode_record (EncodeExtentRecord object offset pa n xid tomb) =
     (if mutation_live (ExtentMutation object offset pa n xid tomb)
      then Some (ExtentMutation object offset pa n xid tomb) else None)"
proof -
  let ?r = "EncodeExtentRecord object offset pa n xid tomb"
  have b: "object \<le> u64_max" "offset \<le> u64_max" "pa \<le> u64_max" "n \<le> u64_max" "xid \<le> u64_max"
    using assms by simp_all
  have k: "record_key ?r = [3] @ le_bytes 8 object @ le_bytes 8 offset"
    and v: "record_value ?r = le_bytes 8 xid @ le_bytes 8 pa @ le_bytes 8 n @ [if tomb then 1 else 0]"
    and kd: "record_kind ?r = FileExtentKind" by (simp_all add: EncodeExtentRecord_def append_defs)
  have keys: "length (record_key ?r) = 17" "TryReadLe64 (record_key ?r) 1 = Some object"
    "TryReadLe64 (record_key ?r) 9 = Some offset"
    using TryReadLe64_at [of "[3]" 1 object "le_bytes 8 offset"]
      TryReadLe64_at [of "[3] @ le_bytes 8 object" 9 offset "[]"] b unfolding k by simp_all
  have vals: "length (record_value ?r) = 25" "TryReadLe64 (record_value ?r) 0 = Some xid"
    "TryReadLe64 (record_value ?r) 8 = Some pa" "TryReadLe64 (record_value ?r) 16 = Some n"
    "record_value ?r ! 24 \<noteq> 0 \<longleftrightarrow> tomb"
    using TryReadLe64_at [of "[]" 0 xid] TryReadLe64_at [of "le_bytes 8 xid" 8 pa]
      TryReadLe64_at [of "le_bytes 8 xid @ le_bytes 8 pa" 16 n] b unfolding v by (simp_all add: nth_append)
  show ?thesis
    using keys vals by (auto simp: decode_record_def kd DecodeBtreeExtentRecord_def)
qed

text \<open>
  C12. The decoders of the volume tree store read back exactly what the
  encoders of the mutation codec wrote: a live record decodes to the arguments it was encoded
  from, and a tombstone, a zero identifier, an empty or over-long name, or a directory with
  data is rejected.
\<close>

theorem decode_encode_mutation:
  assumes "mutation_bounded m"
  shows "decode_record (encode_mutation m) = (if mutation_live m then Some m else None)"
proof (cases m)
  case (InodeMutation object parent name dir lsize data ts xid tomb)
  then show ?thesis using assms decode_inode_encoded by simp
next
  case (DirectoryMutation parent name child xid tomb)
  then show ?thesis using assms decode_directory_encoded by simp
next
  case (ExtentMutation object offset pa n xid tomb)
  then show ?thesis using assms decode_extent_encoded by simp
qed

theorem decode_encode_mutation_witness:
  "decode_record (EncodeInodeRecord 16 2 [97, 98] False 5 8192 77 9 False) =
   Some (InodeMutation 16 2 [97, 98] False 5 8192 77 9 False)"
  using decode_encode_mutation [of "InodeMutation 16 2 [97, 98] False 5 8192 77 9 False"]
  by (simp add: u64_max_def u32_max_def)

end
