(* ===== verification/VolumeTreeProjection.thy ===== *)
theory VolumeTreeProjection
  imports VolumeTreeStore
begin

text \<open>
  \<^verbatim>\<open>TryProjectFromBtreeRecords\<close> accepts exactly the consistent volume trees: the check of
  \<^verbatim>\<open>src/ApfsVolumeTreeStore.cpp\<close> against a declarative description of the records.
\<close>

section \<open>Specification\<close>

definition tree_inodes :: "BtreeRecord list \<Rightarrow> DecodedBtreeInode list" where
  "tree_inodes rs =
     List.map_filter (\<lambda>r. if record_kind r = InodeKind then DecodeBtreeInodeRecord r else None) rs"

definition tree_entries :: "BtreeRecord list \<Rightarrow> DecodedBtreeDirectoryEntry list" where
  "tree_entries rs =
     List.map_filter (\<lambda>r. if record_kind r = DirectoryEntryKind then DecodeBtreeDirectoryRecord r else None) rs"

definition tree_extents :: "BtreeRecord list \<Rightarrow> DecodedBtreeExtent list" where
  "tree_extents rs =
     List.map_filter (\<lambda>r. if record_kind r = FileExtentKind then DecodeBtreeExtentRecord r else None) rs"

definition extents_of :: "BtreeRecord list \<Rightarrow> nat \<Rightarrow> DecodedBtreeExtent list" where
  "extents_of rs object = filter (\<lambda>x. dx_object_id x = object) (tree_extents rs)"

definition record_accepted :: "BtreeRecord \<Rightarrow> bool" where
  "record_accepted r \<longleftrightarrow> IsValidKindPrefix r \<and> \<not> record_tombstone r \<and> record_value r \<noteq> [] \<and>
     decode_record r \<noteq> None"

text \<open>
  The data of an inode: a directory has no extents; the extents of a file cover its size
  from its data address, and a non-empty file with a data address has extents.
\<close>

definition inode_data_ok :: "(nat \<times> nat) list \<Rightarrow> DecodedBtreeExtent list \<Rightarrow> DecodedBtreeInode \<Rightarrow> bool" where
  "inode_data_ok allocations xs i \<longleftrightarrow>
     (if di_is_directory i then xs = []
      else (xs \<noteq> [] \<longrightarrow> HasExtentCoverage xs (extent_size allocations i) (di_data_physical_address i)) \<and>
           (0 < extent_size allocations i \<and> di_data_physical_address i \<noteq> 0 \<longrightarrow> xs \<noteq> []))"

definition entry_ok :: "DecodedBtreeInode list \<Rightarrow> DecodedBtreeDirectoryEntry \<Rightarrow> bool" where
  "entry_ok inodes e \<longleftrightarrow>
     (\<exists>i \<in> set inodes. di_object_id i = dd_child_object_id e \<and>
        (di_is_directory i \<longrightarrow> is_primary_link i e)) \<and>
     (\<forall>i \<in> set inodes. di_object_id i = dd_parent_object_id e \<longrightarrow> di_is_directory i)"

definition primary_entries ::
  "DecodedBtreeDirectoryEntry list \<Rightarrow> DecodedBtreeInode \<Rightarrow> DecodedBtreeDirectoryEntry list" where
  "primary_entries entries i =
     filter (\<lambda>e. dd_child_object_id e = di_object_id i \<and> is_primary_link i e) entries"

definition consistent_tree :: "BtreeRecord list \<Rightarrow> (nat \<times> nat) list \<Rightarrow> bool" where
  "consistent_tree rs allocations \<longleftrightarrow>
     (\<forall>r \<in> set rs. record_accepted r) \<and>
     distinct (map record_key rs) \<and> distinct (map di_object_id (tree_inodes rs)) \<and>
     (\<forall>(object, n) \<in> set allocations. n \<noteq> 0 \<and>
        (\<exists>i \<in> set (tree_inodes rs). di_object_id i = object \<and> \<not> di_is_directory i)) \<and>
     (\<forall>x \<in> set (tree_extents rs). \<exists>i \<in> set (tree_inodes rs). di_object_id i = dx_object_id x) \<and>
     (\<forall>i \<in> set (tree_inodes rs). inode_data_ok allocations (extents_of rs (di_object_id i)) i) \<and>
     (\<forall>e \<in> set (tree_entries rs). entry_ok (tree_inodes rs) e) \<and>
     (\<forall>i \<in> set (tree_inodes rs). length (primary_entries (tree_entries rs) i) = 1)"

section \<open>The loops\<close>

lemma first_error_None: "first_error f xs = None \<longleftrightarrow> (\<forall>x \<in> set xs. f x = None)"
  by (induction xs) (auto split: option.splits)

definition group_extents :: "DecodedBtreeExtent list \<Rightarrow> (nat \<times> DecodedBtreeExtent list) list" where
  "group_extents xs = fold push_extent xs []"

lemma group_extents_snoc: "group_extents (xs @ [x]) = push_extent x (group_extents xs)"
  by (simp add: group_extents_def)

lemma keys_push_extent: "fst ` set (push_extent x m) = insert (dx_object_id x) (fst ` set m)"
  by (induction x m rule: push_extent.induct) auto

lemma distinct_push_extent: "distinct (map fst m) \<Longrightarrow> distinct (map fst (push_extent x m))"
proof (induction x m rule: push_extent.induct)
  case (2 d object ds m)
  have "fst ` set (push_extent d m) = insert (dx_object_id d) (fst ` set m)" by (rule keys_push_extent)
  then show ?case using 2 by auto
qed simp

lemma map_of_push_extent:
  "map_of (push_extent x m) o' =
     (if o' = dx_object_id x
      then Some ((case map_of m o' of None \<Rightarrow> [] | Some ds \<Rightarrow> ds) @ [x])
      else map_of m o')"
  by (induction x m rule: push_extent.induct) (auto split: option.splits)

lemma sum_push_extent:
  "sum_list (map (length \<circ> snd) (push_extent x m)) = Suc (sum_list (map (length \<circ> snd) m))"
  by (induction x m rule: push_extent.induct) auto

lemma group_extents_facts:
  "distinct (map fst (group_extents xs))"
  "map_of (group_extents xs) object =
     (let ys = filter (\<lambda>x. dx_object_id x = object) xs in if ys = [] then None else Some ys)"
  "fst ` set (group_extents xs) = dx_object_id ` set xs"
  "sum_list (map (length \<circ> snd) (group_extents xs)) = length xs"
proof (induction xs rule: rev_induct)
  case Nil
  { case 1 show ?case by (simp add: group_extents_def) }
  { case 2 show ?case by (simp add: group_extents_def) }
  { case 3 show ?case by (simp add: group_extents_def) }
  { case 4 show ?case by (simp add: group_extents_def) }
next
  case (snoc x xs)
  { case 1 show ?case using snoc(1) by (simp add: group_extents_snoc distinct_push_extent) }
  { case 2 show ?case using snoc(2)
      by (cases "object = dx_object_id x") (auto simp: group_extents_snoc map_of_push_extent Let_def) }
  { case 3 show ?case using snoc(3) by (simp add: group_extents_snoc keys_push_extent) }
  { case 4 show ?case using snoc(4) unfolding group_extents_snoc sum_push_extent by (simp add: comp_def) }
qed

definition entry_key :: "DecodedBtreeDirectoryEntry \<Rightarrow> wchar list" where
  "entry_key d = BuildDirectoryEntryIndexKey (dd_parent_object_id d) (dd_entry_name d)"

definition tree_state :: "BtreeRecord list \<Rightarrow> DecodedTree" where
  "tree_state rs =
     \<lparr>dedupe_keys = map record_key rs,
      decoded_inodes_by_object = map (\<lambda>d. (di_object_id d, d)) (tree_inodes rs),
      decoded_directory_entries = map (\<lambda>d. (entry_key d, d)) (tree_entries rs),
      decoded_extents_by_object = group_extents (tree_extents rs)\<rparr>"

definition decodable_records :: "BtreeRecord list \<Rightarrow> bool" where
  "decodable_records rs \<longleftrightarrow> (\<forall>r \<in> set rs. record_accepted r) \<and> distinct (map record_key rs) \<and>
     distinct (map di_object_id (tree_inodes rs)) \<and> distinct (map entry_key (tree_entries rs))"

lemma tree_snoc:
  "tree_inodes (rs @ [r]) = tree_inodes rs @
     (if record_kind r = InodeKind then case DecodeBtreeInodeRecord r of None \<Rightarrow> [] | Some d \<Rightarrow> [d] else [])"
  "tree_entries (rs @ [r]) = tree_entries rs @
     (if record_kind r = DirectoryEntryKind
      then case DecodeBtreeDirectoryRecord r of None \<Rightarrow> [] | Some d \<Rightarrow> [d] else [])"
  "tree_extents (rs @ [r]) = tree_extents rs @
     (if record_kind r = FileExtentKind
      then case DecodeBtreeExtentRecord r of None \<Rightarrow> [] | Some d \<Rightarrow> [d] else [])"
  by (simp_all add: tree_inodes_def tree_entries_def tree_extents_def map_filter_def split: option.split)

lemma project_record_step:
  assumes "decodable_records rs"
  shows "project_record (tree_state rs) r = Inr t \<longleftrightarrow>
           decodable_records (rs @ [r]) \<and> t = tree_state (rs @ [r])"
proof (cases "IsValidKindPrefix r \<and> \<not> record_tombstone r \<and> record_value r \<noteq> [] \<and>
      record_key r \<notin> set (map record_key rs)")
  case False
  then show ?thesis
    by (auto simp: project_record_def tree_state_def decodable_records_def record_accepted_def)
next
  case True
  have d: "decodable_records (rs @ [r]) \<longleftrightarrow> decode_record r \<noteq> None \<and>
      distinct (map di_object_id (tree_inodes (rs @ [r]))) \<and>
      distinct (map entry_key (tree_entries (rs @ [r])))"
    using assms True by (auto simp: decodable_records_def record_accepted_def)
  have dis: "distinct (map di_object_id (tree_inodes rs))" "distinct (map entry_key (tree_entries rs))"
    using assms by (simp_all add: decodable_records_def)
  show ?thesis
  proof (cases "record_kind r")
    case InodeKind
    then show ?thesis
      using True dis unfolding d
      by (cases "DecodeBtreeInodeRecord r")
         (auto simp: project_record_def tree_state_def tree_snoc decode_record_def Let_def image_iff)
  next
    case DirectoryEntryKind
    then show ?thesis
      using True dis unfolding d
      by (cases "DecodeBtreeDirectoryRecord r")
         (auto simp: project_record_def tree_state_def tree_snoc decode_record_def Let_def image_iff
            entry_key_def)
  next
    case FileExtentKind
    then show ?thesis
      using True dis unfolding d
      by (cases "DecodeBtreeExtentRecord r")
         (auto simp: project_record_def tree_state_def tree_snoc decode_record_def Let_def
            group_extents_snoc)
  qed
qed

lemma decodable_records_append: "decodable_records (rs @ qs) \<Longrightarrow> decodable_records rs"
  by (simp add: decodable_records_def tree_inodes_def tree_entries_def map_filter_def)

lemma project_records_iff:
  "decodable_records ps \<Longrightarrow>
   project_records (tree_state ps) rs = Inr t \<longleftrightarrow>
     decodable_records (ps @ rs) \<and> t = tree_state (ps @ rs)"
proof (induction rs arbitrary: ps)
  case Nil
  then show ?case by auto
next
  case (Cons r rs)
  show ?case
  proof (cases "project_record (tree_state ps) r")
    case (Inl e)
    then have "\<not> decodable_records (ps @ [r])" using project_record_step [OF Cons.prems, of r] by auto
    then have "\<not> decodable_records (ps @ r # rs)"
      using decodable_records_append [of "ps @ [r]" rs] by auto
    then show ?thesis using Inl by simp
  next
    case (Inr t')
    then have "decodable_records (ps @ [r])" "t' = tree_state (ps @ [r])"
      using project_record_step [OF Cons.prems, of r] by auto
    then show ?thesis using Inr Cons.IH [of "ps @ [r]"] by simp
  qed
qed

section \<open>A directory entry is identified by its key bytes\<close>

lemma entry_key_inj:
  "entry_key d = entry_key d' \<longleftrightarrow>
   dd_parent_object_id d = dd_parent_object_id d' \<and> dd_entry_name d = dd_entry_name d'"
  unfolding entry_key_def BuildDirectoryEntryIndexKey_def by (rule to_wstring_separated) simp

lemma code_unit_bytes:
  "ucast (ucast (b0::byte) OR push_bit 8 (ucast (b1::byte)) :: wchar) = b0"
  "ucast (drop_bit 8 (ucast (b0::byte) OR push_bit 8 (ucast (b1::byte)) :: wchar)) = b1"
  by (rule bit_word_eqI, auto simp: bit_simps dest: bit_imp_le_length)+

lemma utf16_read_code_units:
  "cursor + 2 * n \<le> length buffer \<Longrightarrow>
   utf16_bytes (read_code_units buffer cursor n) = take (2 * n) (drop cursor buffer)"
proof (induction n arbitrary: cursor)
  case 0
  then show ?case by simp
next
  case (Suc n)
  have "drop cursor buffer = buffer ! cursor # buffer ! Suc cursor # drop (cursor + 2) buffer"
    using Suc.prems Cons_nth_drop_Suc [of cursor buffer] Cons_nth_drop_Suc [of "Suc cursor" buffer] by simp
  moreover have "utf16_bytes (read_code_units buffer cursor (Suc n)) =
      buffer ! cursor # buffer ! Suc cursor # utf16_bytes (read_code_units buffer (cursor + 2) n)"
    by (simp only: read_code_units.simps utf16_bytes.simps code_unit_bytes)
  ultimately show ?case using Suc.IH [of "cursor + 2"] Suc.prems by simp
qed

lemma length_read_code_units [simp]: "length (read_code_units buffer cursor n) = n"
  by (induction n arbitrary: cursor) simp_all

lemma TryReadLe_bytes:
  "TryReadLe k buffer offset = Some v \<Longrightarrow>
   offset + k \<le> length buffer \<and> le_bytes k v = take k (drop offset buffer)"
proof -
  assume a: "TryReadLe k buffer offset = Some v"
  then have "length (take k (drop offset buffer)) = k" "v = le_value (take k (drop offset buffer))"
    by (auto simp: TryReadLe_def split: if_splits)
  then have "le_bytes k v = take k (drop offset buffer)" by (metis le_bytes_le_value)
  then show ?thesis using a by (auto simp: TryReadLe_def split: if_splits)
qed

lemma directory_record_key:
  assumes "DecodeBtreeDirectoryRecord r = Some d"
  shows "record_key r \<noteq> []"
    and "tl (record_key r) = le_bytes 8 (dd_parent_object_id d) @
      le_bytes 4 (length (dd_entry_name d)) @ utf16_bytes (dd_entry_name d)"
proof -
  define k where "k = record_key r"
  obtain cursor where p: "TryReadLe64 k 1 = Some (dd_parent_object_id d)"
    and w: "TryReadWideStringWithLength k 9 = Some (dd_entry_name d, cursor)"
    and c: "cursor = length k" "dd_entry_name d \<noteq> []"
    using assms unfolding DecodeBtreeDirectoryRecord_def k_def
    by (auto split: if_splits bind_splits)
  note p = TryReadLe_bytes [OF p [unfolded TryReadLe64_def]]
  obtain units where u: "TryReadLe 4 k 9 = Some units" "dd_entry_name d = read_code_units k 13 units"
    "cursor = 13 + 2 * units"
    using w c(2) by (auto simp: TryReadWideStringWithLength_def TryReadLe32_def Let_def
        split: option.splits if_splits)
  note u4 = TryReadLe_bytes [OF u(1)]
  have "utf16_bytes (dd_entry_name d) = drop 13 k"
    unfolding u(2) using utf16_read_code_units [of 13 units k] u(3) c(1) by simp
  moreover have "drop 9 k = le_bytes 4 units @ drop 13 k"
    using u4 append_take_drop_id [of 4 "drop 9 k"] by simp
  moreover have "drop 1 k = le_bytes 8 (dd_parent_object_id d) @ drop 9 k"
    using p append_take_drop_id [of 8 "drop 1 k"] by simp
  ultimately show "tl (record_key r) = le_bytes 8 (dd_parent_object_id d) @
      le_bytes 4 (length (dd_entry_name d)) @ utf16_bytes (dd_entry_name d)"
    unfolding k_def [symmetric] using u(2) by (simp add: drop_Suc)
  show "record_key r \<noteq> []" using p by (auto simp: k_def)
qed

lemma kind_prefix: "IsValidKindPrefix r \<Longrightarrow> hd (record_key r) = word_of_nat (kind_value (record_kind r))"
  by (auto simp: IsValidKindPrefix_def split: list.splits dest!: sym [of "unat _"])

text \<open>
  Hence the check for a duplicate directory entry never fires: such records have equal keys,
  which the check for duplicate keys has rejected.
\<close>

lemma entry_keys_distinct:
  assumes "\<forall>r \<in> set rs. record_accepted r" and "distinct (map record_key rs)"
  shows "distinct (map entry_key (tree_entries rs))"
  using assms
proof (induction rs rule: rev_induct)
  case Nil
  then show ?case by (simp add: tree_entries_def map_filter_def)
next
  case (snoc r rs)
  have IH: "distinct (map entry_key (tree_entries rs))" using snoc by simp
  have "entry_key d \<notin> entry_key ` set (tree_entries rs)"
    if d: "record_kind r = DirectoryEntryKind" "DecodeBtreeDirectoryRecord r = Some d" for d
  proof
    assume "entry_key d \<in> entry_key ` set (tree_entries rs)"
    then obtain r' d' where r': "r' \<in> set rs" "record_kind r' = DirectoryEntryKind"
      "DecodeBtreeDirectoryRecord r' = Some d'" "entry_key d = entry_key d'"
      by (auto simp: tree_entries_def map_filter_def split: if_splits)
    have "hd (record_key r) = hd (record_key r')"
      using kind_prefix [of r] kind_prefix [of r'] snoc.prems(1) r'(1,2) d(1) by (simp add: record_accepted_def)
    then have "record_key r = record_key r'"
      using directory_record_key [OF d(2)] directory_record_key [OF r'(3)] r'(4)
      by (intro list.expand) (simp_all add: entry_key_inj)
    moreover have "record_key r \<notin> record_key ` set rs" using snoc.prems(2) by simp
    ultimately show False using r'(1) by (metis imageI)
  qed
  then show ?case
    using IH by (cases "DecodeBtreeDirectoryRecord r"; cases "record_kind r") (auto simp: tree_snoc)
qed

section \<open>Acceptance\<close>

lemma map_of_by_id:
  "distinct (map di_object_id is) \<Longrightarrow>
   map_of (map (\<lambda>d. (di_object_id d, d)) is) object = Some i \<longleftrightarrow> i \<in> set is \<and> di_object_id i = object"
  by (subst map_of_eq_Some_iff) (auto simp: comp_def)

lemma map_of_by_id_None:
  "map_of (map (\<lambda>d. (di_object_id d, d)) is) object = None \<longleftrightarrow> (\<forall>i \<in> set is. di_object_id i \<noteq> object)"
  by (induction "is") auto

definition link_primary :: "DecodedTree \<Rightarrow> DecodedBtreeDirectoryEntry \<Rightarrow> bool" where
  "link_primary t e \<longleftrightarrow>
     (case map_of (decoded_inodes_by_object t) (dd_child_object_id e) of
        None \<Rightarrow> False | Some child \<Rightarrow> is_primary_link child e)"

definition link_ok :: "DecodedTree \<Rightarrow> DecodedBtreeDirectoryEntry \<Rightarrow> bool" where
  "link_ok t e \<longleftrightarrow>
     (\<exists>child. map_of (decoded_inodes_by_object t) (dd_child_object_id e) = Some child \<and>
        (di_is_directory child \<longrightarrow> is_primary_link child e)) \<and>
     (\<forall>parent. map_of (decoded_inodes_by_object t) (dd_parent_object_id e) = Some parent \<longrightarrow>
        di_is_directory parent)"

lemma count_links_iff:
  "count_links t es inbound primary = Inr (inbound', primary') \<longleftrightarrow>
     (\<forall>e \<in> set es. link_ok t e) \<and>
     inbound' = (\<lambda>c. inbound c + length (filter (\<lambda>e. dd_child_object_id e = c) es)) \<and>
     primary' = (\<lambda>c. primary c +
       length (filter (\<lambda>e. dd_child_object_id e = c \<and> link_primary t e) es))"
proof (induction es arbitrary: inbound primary)
  case Nil
  then show ?case by auto
next
  case (Cons e es)
  show ?case
  proof (cases "link_ok t e")
    case True
    then obtain child where child: "map_of (decoded_inodes_by_object t) (dd_child_object_id e) = Some child"
      "di_is_directory child \<longrightarrow> is_primary_link child e"
      and parent: "\<forall>parent. map_of (decoded_inodes_by_object t) (dd_parent_object_id e) = Some parent \<longrightarrow>
        di_is_directory parent" by (auto simp: link_ok_def)
    let ?c = "dd_child_object_id e"
    have "count_links t (e # es) inbound primary =
        count_links t es (inbound(?c := Suc (inbound ?c)))
          (if is_primary_link child e then primary(?c := Suc (primary ?c)) else primary)"
      using child parent by (auto simp: Let_def split: option.splits)
    moreover have "link_primary t e = is_primary_link child e" using child(1) by (simp add: link_primary_def)
    ultimately show ?thesis using True by (auto simp: Cons.IH fun_eq_iff)
  next
    case False
    then have "\<exists>err. count_links t (e # es) inbound primary = Inl err"
      by (auto simp: link_ok_def split: option.splits)
    then show ?thesis using False by auto
  qed
qed

definition projection_counts :: "BtreeRecord list \<Rightarrow> ApfsVolumeTreeProjection" where
  "projection_counts rs =
     \<lparr>inode_record_count = length (tree_inodes rs),
      directory_entry_record_count = length (tree_entries rs),
      extent_record_count = length (tree_extents rs)\<rparr>"

lemma first_error_split:
  "(case first_error f xs of Some e \<Rightarrow> Inl e | None \<Rightarrow> y) = Inr z \<longleftrightarrow>
   (\<forall>x \<in> set xs. f x = None) \<and> y = Inr z"
  using first_error_None [of f xs] by (auto split: option.splits)

text \<open>The conditions the code checks on the decoded tables, in its order.\<close>

definition tables_ok :: "(nat \<times> nat) list \<Rightarrow> DecodedTree \<Rightarrow> bool" where
  "tables_ok al t \<longleftrightarrow>
     (\<forall>a \<in> set al. check_native_allocation t a = None) \<and>
     (\<forall>p \<in> set (decoded_inodes_by_object t). check_inode_extents al t p = None) \<and>
     (\<forall>p \<in> set (decoded_extents_by_object t). check_extent_inode al t p = None) \<and>
     (\<forall>e \<in> set (map snd (decoded_directory_entries t)). link_ok t e) \<and>
     (\<forall>p \<in> set (decoded_inodes_by_object t). check_inode_links
        (\<lambda>c. length (filter (\<lambda>e. dd_child_object_id e = c) (map snd (decoded_directory_entries t))))
        (\<lambda>c. length (filter (\<lambda>e. dd_child_object_id e = c \<and> link_primary t e)
                (map snd (decoded_directory_entries t)))) p = None)"

lemma TryProject_tables:
  "TryProjectFromBtreeRecords rs al = Inr p \<longleftrightarrow>
     decodable_records rs \<and> tables_ok al (tree_state rs) \<and> p = projection_counts rs"
proof -
  have init: "\<lparr>dedupe_keys = [], decoded_inodes_by_object = [], decoded_directory_entries = [],
      decoded_extents_by_object = []\<rparr> = tree_state []" "decodable_records []"
    by (simp_all add: tree_state_def decodable_records_def tree_inodes_def tree_entries_def
        tree_extents_def map_filter_def group_extents_def)
  have counts: "\<lparr>inode_record_count = length (decoded_inodes_by_object (tree_state rs)),
       directory_entry_record_count = length (decoded_directory_entries (tree_state rs)),
       extent_record_count = sum_list (map (length \<circ> snd) (decoded_extents_by_object (tree_state rs)))\<rparr>
     = projection_counts rs"
    unfolding projection_counts_def tree_state_def by (simp only: DecodedTree.simps group_extents_facts) simp
  show ?thesis
  proof (cases "project_records (tree_state []) rs")
    case (Inl e)
    then have "\<not> decodable_records rs" using project_records_iff [OF init(2), of rs] by auto
    then show ?thesis using Inl by (simp add: TryProjectFromBtreeRecords_def init(1))
  next
    case (Inr t)
    then have d: "decodable_records rs" "t = tree_state rs"
      using project_records_iff [OF init(2), of rs t] by auto
    show ?thesis
    proof (cases "count_links t (map snd (decoded_directory_entries t)) (\<lambda>_. 0) (\<lambda>_. 0)")
      case (Inl e)
      then have "\<not> (\<forall>e \<in> set (map snd (decoded_directory_entries t)). link_ok t e)"
        using count_links_iff [of t "map snd (decoded_directory_entries t)" "\<lambda>_. 0" "\<lambda>_. 0"] by auto
      then have "\<not> tables_ok al t" unfolding tables_ok_def by blast
      then show ?thesis
        unfolding TryProjectFromBtreeRecords_def init(1) Inr sum.case first_error_split Inl
        using d by simp
    next
      case (Inr counts)
      obtain inb prim where c: "counts = (inb, prim)" by (cases counts)
      note counted = Inr [unfolded c count_links_iff]
      show ?thesis
        unfolding TryProjectFromBtreeRecords_def init(1)
          \<open>project_records (tree_state []) rs = Inr t\<close> sum.case first_error_split Inr c prod.case
        using counted d counts unfolding tables_ok_def by auto
    qed
  qed
qed

lemma if_split_eq_Some:
  "(if b then None else x) = Some y \<longleftrightarrow> \<not> b \<and> x = Some y"
  by simp

lemma decoded_inode_facts:
  assumes "i \<in> set (tree_inodes rs)"
  shows "di_parent_object_id i \<noteq> 0"
    and "di_is_directory i \<Longrightarrow> di_logical_size i = 0 \<and> di_data_physical_address i = 0"
proof -
  obtain r where "DecodeBtreeInodeRecord r = Some i"
    using assms by (auto simp: tree_inodes_def map_filter_def split: if_splits)
  then have "di_parent_object_id i \<noteq> 0 \<and>
      (di_is_directory i \<longrightarrow> di_logical_size i = 0 \<and> di_data_physical_address i = 0)"
    unfolding DecodeBtreeInodeRecord_def Let_def
    by (clarsimp simp only: bind_eq_Some_conv split_def if_split_eq_Some option.inject) auto
  then show "di_parent_object_id i \<noteq> 0"
    "di_is_directory i \<Longrightarrow> di_logical_size i = 0 \<and> di_data_physical_address i = 0" by auto
qed

lemma tree_state_sel [simp]:
  "decoded_inodes_by_object (tree_state rs) = map (\<lambda>d. (di_object_id d, d)) (tree_inodes rs)"
  "map snd (decoded_directory_entries (tree_state rs)) = tree_entries rs"
  "decoded_extents_by_object (tree_state rs) = group_extents (tree_extents rs)"
  by (simp_all add: tree_state_def comp_def)

lemma inode_unique:
  "distinct (map di_object_id is) \<Longrightarrow> i \<in> set is \<Longrightarrow> j \<in> set is \<Longrightarrow>
   di_object_id i = di_object_id j \<Longrightarrow> i = j"
  by (metis distinct_map inj_onD)

lemma check_native_allocation_iff:
  assumes "distinct (map di_object_id (tree_inodes rs))"
  shows "check_native_allocation (tree_state rs) a = None \<longleftrightarrow> snd a \<noteq> 0 \<and>
    (\<exists>i \<in> set (tree_inodes rs). di_object_id i = fst a \<and> \<not> di_is_directory i)"
proof (cases "map_of (map (\<lambda>d. (di_object_id d, d)) (tree_inodes rs)) (fst a)")
  case None
  then have "\<forall>i \<in> set (tree_inodes rs). di_object_id i \<noteq> fst a" by (simp only: map_of_by_id_None)
  then show ?thesis using None by (simp add: check_native_allocation_def)
next
  case (Some i)
  then have i: "i \<in> set (tree_inodes rs)" "di_object_id i = fst a" by (simp_all add: map_of_by_id assms)
  have "j = i" if "j \<in> set (tree_inodes rs)" "di_object_id j = fst a" for j
    using inode_unique [OF assms that(1) i(1)] that(2) i(2) by simp
  then have "(\<exists>j \<in> set (tree_inodes rs). di_object_id j = fst a \<and> \<not> di_is_directory j) \<longleftrightarrow>
      \<not> di_is_directory i" using i by blast
  then show ?thesis using Some by (simp add: check_native_allocation_def)
qed

lemma link_ok_iff:
  assumes "distinct (map di_object_id (tree_inodes rs))"
  shows "link_ok (tree_state rs) e \<longleftrightarrow> entry_ok (tree_inodes rs) e"
  using map_of_by_id [OF assms] by (auto simp: link_ok_def entry_ok_def)

lemma length_filter_conj: "length (filter (\<lambda>x. P x \<and> Q x) xs) \<le> length (filter P xs)"
  by (induction xs) auto

lemma check_inode_links_iff:
  assumes "distinct (map di_object_id (tree_inodes rs))" and i: "i \<in> set (tree_inodes rs)"
  shows "check_inode_links
      (\<lambda>c. length (filter (\<lambda>e. dd_child_object_id e = c) (tree_entries rs)))
      (\<lambda>c. length (filter (\<lambda>e. dd_child_object_id e = c \<and> link_primary (tree_state rs) e) (tree_entries rs)))
      (di_object_id i, i) = None \<longleftrightarrow> length (primary_entries (tree_entries rs) i) = 1"
proof -
  have "map_of (map (\<lambda>d. (di_object_id d, d)) (tree_inodes rs)) (di_object_id i) = Some i"
    using i by (simp add: map_of_by_id assms(1))
  then have p: "filter (\<lambda>e. dd_child_object_id e = di_object_id i \<and> link_primary (tree_state rs) e)
      (tree_entries rs) = primary_entries (tree_entries rs) i"
    by (auto simp: primary_entries_def link_primary_def intro: filter_cong)
  have "length (primary_entries (tree_entries rs) i) \<le>
      length (filter (\<lambda>e. dd_child_object_id e = di_object_id i) (tree_entries rs))"
    unfolding primary_entries_def by (rule length_filter_conj)
  then have "length (filter (\<lambda>e. dd_child_object_id e = di_object_id i) (tree_entries rs)) \<noteq> 0"
    if "length (primary_entries (tree_entries rs) i) = 1" using that by linarith
  then show ?thesis
    using decoded_inode_facts(1) [OF i] unfolding check_inode_links_def fst_conv snd_conv p by auto
qed

lemma extents_of_group:
  "(object, xs) \<in> set (group_extents (tree_extents rs)) \<longleftrightarrow> xs = extents_of rs object \<and> xs \<noteq> []"
proof -
  have "(object, xs) \<in> set (group_extents (tree_extents rs)) \<longleftrightarrow>
      map_of (group_extents (tree_extents rs)) object = Some xs"
    by (simp add: map_of_eq_Some_iff group_extents_facts(1))
  then show ?thesis by (auto simp: group_extents_facts(2) extents_of_def Let_def)
qed

lemma extent_checks_iff:
  assumes d: "distinct (map di_object_id (tree_inodes rs))"
    and al: "\<forall>a \<in> set al. snd a \<noteq> 0 \<and>
      (\<exists>i \<in> set (tree_inodes rs). di_object_id i = fst a \<and> \<not> di_is_directory i)"
  shows "(\<forall>p \<in> set (decoded_inodes_by_object (tree_state rs)). check_inode_extents al (tree_state rs) p = None) \<and>
     (\<forall>p \<in> set (decoded_extents_by_object (tree_state rs)). check_extent_inode al (tree_state rs) p = None) \<longleftrightarrow>
     (\<forall>x \<in> set (tree_extents rs). \<exists>i \<in> set (tree_inodes rs). di_object_id i = dx_object_id x) \<and>
     (\<forall>i \<in> set (tree_inodes rs). inode_data_ok al (extents_of rs (di_object_id i)) i)"
  (is "?I \<and> ?X \<longleftrightarrow> ?E \<and> ?D")
proof -
  let ?m = "map_of (map (\<lambda>d. (di_object_id d, d)) (tree_inodes rs))"
  have has: "object \<in> fst ` set (group_extents (tree_extents rs)) \<longleftrightarrow> extents_of rs object \<noteq> []" for object
    by (auto simp: group_extents_facts(3) extents_of_def filter_empty_conv)
  have I: "?I \<longleftrightarrow> (\<forall>i \<in> set (tree_inodes rs).
      (\<not> di_is_directory i \<and> 0 < extent_size al i \<and> di_data_physical_address i \<noteq> 0 \<longrightarrow>
         extents_of rs (di_object_id i) \<noteq> []) \<and>
      (extent_size al i = 0 \<longrightarrow> extents_of rs (di_object_id i) = []))"
  proof -
    have "check_inode_extents al (tree_state rs) (di_object_id i, i) = None \<longleftrightarrow>
      (\<not> di_is_directory i \<and> 0 < extent_size al i \<and> di_data_physical_address i \<noteq> 0 \<longrightarrow>
         extents_of rs (di_object_id i) \<noteq> []) \<and>
      (extent_size al i = 0 \<longrightarrow> extents_of rs (di_object_id i) = [])" for i
      unfolding check_inode_extents_def Let_def fst_conv snd_conv tree_state_sel(3) has by simp
    then show ?thesis by simp
  qed
  have X: "?X \<longleftrightarrow> (\<forall>object. extents_of rs object \<noteq> [] \<longrightarrow> (\<exists>i. ?m object = Some i \<and> \<not> di_is_directory i \<and>
      HasExtentCoverage (extents_of rs object) (extent_size al i) (di_data_physical_address i)))"
  proof -
    have chk: "check_extent_inode al (tree_state rs) (object, xs) = None \<longleftrightarrow>
        (\<exists>i. ?m object = Some i \<and> \<not> di_is_directory i \<and>
          HasExtentCoverage xs (extent_size al i) (di_data_physical_address i))" for object xs
      by (simp add: check_extent_inode_def split: option.split)
    have "?X \<longleftrightarrow> (\<forall>object xs. (object, xs) \<in> set (group_extents (tree_extents rs)) \<longrightarrow>
        check_extent_inode al (tree_state rs) (object, xs) = None)" by auto
    then show ?thesis unfolding chk extents_of_group by blast
  qed
  have dirs: "extent_size al i = 0" if "i \<in> set (tree_inodes rs)" "di_is_directory i" for i
  proof -
    have "map_of al (di_object_id i) = None"
    proof (rule ccontr)
      assume "map_of al (di_object_id i) \<noteq> None"
      then obtain n where "(di_object_id i, n) \<in> set al" by (auto dest: map_of_SomeD)
      then obtain j where "j \<in> set (tree_inodes rs)" "di_object_id j = di_object_id i" "\<not> di_is_directory j"
        using al by auto
      then show False using inode_unique [OF d _ that(1)] that(2) by blast
    qed
    then show ?thesis using decoded_inode_facts(2) [OF that] by (simp add: extent_size_def)
  qed
  have cov0: "\<not> HasExtentCoverage xs 0 pa" if "xs \<noteq> []" for xs pa
    using that by (simp add: HasExtentCoverage_def)
  have E: "?E \<longleftrightarrow> (\<forall>object. extents_of rs object \<noteq> [] \<longrightarrow> (\<exists>i. ?m object = Some i))"
    by (auto simp: map_of_by_id [OF d] extents_of_def filter_empty_conv)
  show ?thesis
  proof
    assume IX: "?I \<and> ?X"
    have "inode_data_ok al (extents_of rs (di_object_id i)) i" if i: "i \<in> set (tree_inodes rs)" for i
    proof -
      have m: "?m (di_object_id i) = Some i" using i by (simp add: map_of_by_id [OF d])
      then have "extents_of rs (di_object_id i) \<noteq> [] \<longrightarrow> \<not> di_is_directory i \<and>
          HasExtentCoverage (extents_of rs (di_object_id i)) (extent_size al i) (di_data_physical_address i)"
        using IX [unfolded X] by (metis option.inject)
      then show ?thesis using IX [unfolded I] i unfolding inode_data_ok_def by auto
    qed
    moreover have ?E unfolding E using IX [unfolded X] by blast
    ultimately show "?E \<and> ?D" by blast
  next
    assume ED: "?E \<and> ?D"
    have ?I
      unfolding I
    proof (intro ballI)
      fix i assume i: "i \<in> set (tree_inodes rs)"
      have "inode_data_ok al (extents_of rs (di_object_id i)) i" using ED i by blast
      then show "(\<not> di_is_directory i \<and> 0 < extent_size al i \<and> di_data_physical_address i \<noteq> 0 \<longrightarrow>
           extents_of rs (di_object_id i) \<noteq> []) \<and>
        (extent_size al i = 0 \<longrightarrow> extents_of rs (di_object_id i) = [])"
        using cov0 unfolding inode_data_ok_def by (auto split: if_splits)
    qed
    moreover have ?X
      unfolding X
    proof (intro allI impI)
      fix object assume o: "extents_of rs object \<noteq> []"
      then obtain i where i: "?m object = Some i" using ED E by blast
      then have "i \<in> set (tree_inodes rs)" "di_object_id i = object" by (simp_all add: map_of_by_id [OF d])
      then have "inode_data_ok al (extents_of rs object) i" using ED by blast
      then show "\<exists>i. ?m object = Some i \<and> \<not> di_is_directory i \<and>
        HasExtentCoverage (extents_of rs object) (extent_size al i) (di_data_physical_address i)"
        using o i by (auto simp: inode_data_ok_def split: if_splits)
    qed
    ultimately show "?I \<and> ?X" by blast
  qed
qed

lemma TryProject_consistent:
  "TryProjectFromBtreeRecords rs al = Inr p \<longleftrightarrow> consistent_tree rs al \<and> p = projection_counts rs"
proof (cases "(\<forall>r \<in> set rs. record_accepted r) \<and> distinct (map record_key rs) \<and>
    distinct (map di_object_id (tree_inodes rs))")
  case False
  then show ?thesis by (auto simp: TryProject_tables decodable_records_def consistent_tree_def)
next
  case True
  then have d: "distinct (map di_object_id (tree_inodes rs))" by blast
  have dec: "decodable_records rs" using True entry_keys_distinct by (simp add: decodable_records_def)
  note rules = check_native_allocation_iff [OF d] link_ok_iff [OF d]
  have links: "(\<forall>p \<in> set (decoded_inodes_by_object (tree_state rs)). check_inode_links
        (\<lambda>c. length (filter (\<lambda>e. dd_child_object_id e = c) (tree_entries rs)))
        (\<lambda>c. length (filter (\<lambda>e. dd_child_object_id e = c \<and> link_primary (tree_state rs) e) (tree_entries rs)))
        p = None) \<longleftrightarrow> (\<forall>i \<in> set (tree_inodes rs). length (primary_entries (tree_entries rs) i) = 1)"
    using check_inode_links_iff [OF d] by auto
  have "tables_ok al (tree_state rs) \<longleftrightarrow> consistent_tree rs al"
    unfolding tables_ok_def consistent_tree_def rules tree_state_sel(2) links split_beta
    using extent_checks_iff [OF d, of al] True by blast
  then show ?thesis unfolding TryProject_tables using dec by blast
qed

text \<open>
  C13. The projection accepts a list of records exactly when they describe a consistent
  volume tree, and then reports the number of its inodes, directory entries and extents:
  every record decodes, no key and no inode number occurs twice, extents belong to files and
  cover them, every directory entry names an existing inode under a directory, and every
  inode has exactly one primary directory entry.
\<close>

theorem TryProjectFromBtreeRecords_iff:
  "TryProjectFromBtreeRecords rs al = Inr p \<longleftrightarrow> consistent_tree rs al \<and> p = projection_counts rs"
  by (rule TryProject_consistent)

end
