(* ===== verification/ExtentAllocator.thy ===== *)
theory ExtentAllocator
  imports Prelude
begin

text \<open>
  The extent allocator of \<^verbatim>\<open>src/ExtentAllocator.cpp\<close>: the free list kept by the
  metadata store as a vector of byte extents, with normalisation, insertion, removal and
  the undo records of insertion.  The allocation operations are in \<^verbatim>\<open>ExtentAllocation\<close>.

  A mutable \<^verbatim>\<open>std::vector<Extent>&\<close> argument is passed in and returned; the
  \<^verbatim>\<open>bool\<close> result is returned beside it, so that what an operation leaves behind on its
  error paths is part of the model.  The abstraction \<open>space\<close> is the set of byte addresses
  an extent list covers; the invariant of a free list is the source's own
  \<^verbatim>\<open>IsSortedAndValid\<close>.
\<close>

section \<open>Data\<close>

record Extent =
  physical_address :: nat
  bytes :: nat

record FileExtent =
  logical_offset :: nat
  fe_physical_address :: nat
  fe_bytes :: nat

abbreviation mk_extent :: "nat \<Rightarrow> nat \<Rightarrow> Extent" where
  "mk_extent a n \<equiv> \<lparr>physical_address = a, bytes = n\<rparr>"

record AddFreeExtentUndo =
  valid :: bool
  erase_begin :: nat
  erased_count :: nat
  erased_extents :: "Extent list"
  inserted_without_erasing :: bool

section \<open>Range arithmetic and validation\<close>

definition RangeEnd :: "nat \<Rightarrow> nat \<Rightarrow> nat option" where
  "RangeEnd pa n =
     (if pa = 0 \<or> n = 0 \<or> pa > u64_max - n then None else Some (pa + n))"

definition AlignBytes :: "nat \<Rightarrow> nat \<Rightarrow> nat" where
  "AlignBytes n block_size =
     (if n = 0 \<or> block_size = 0 then 0
      else let aligned = max n block_size; remainder = aligned mod block_size in
        if remainder = 0 then aligned
        else if aligned > u64_max - (block_size - remainder) then 0
        else aligned + (block_size - remainder))"

fun HasLogicalExtentCoverage_loop :: "nat \<Rightarrow> nat \<Rightarrow> FileExtent list \<Rightarrow> bool" where
  "HasLogicalExtentCoverage_loop logical_size covered_until [] = False"
| "HasLogicalExtentCoverage_loop logical_size covered_until (e # es) =
     (if fe_bytes e = 0 \<or> fe_physical_address e = 0 \<or> logical_offset e \<noteq> covered_until \<or>
         logical_offset e > u64_max - fe_bytes e then False
      else let covered = logical_offset e + fe_bytes e in
        if covered \<ge> logical_size then True
        else HasLogicalExtentCoverage_loop logical_size covered es)"

definition HasLogicalExtentCoverage :: "FileExtent list \<Rightarrow> nat \<Rightarrow> bool" where
  "HasLogicalExtentCoverage extents logical_size =
     (if logical_size = 0 then extents = []
      else if extents = [] then False
      else HasLogicalExtentCoverage_loop logical_size 0 extents)"

text \<open>\<open>previous\<close> is \<^verbatim>\<open>previous_end\<close> once \<^verbatim>\<open>have_previous\<close> is set.\<close>

fun IsSortedAndValid_loop :: "nat option \<Rightarrow> Extent list \<Rightarrow> bool" where
  "IsSortedAndValid_loop previous [] = True"
| "IsSortedAndValid_loop previous (e # es) =
     (case RangeEnd (physical_address e) (bytes e) of
        None \<Rightarrow> False
      | Some extent_end \<Rightarrow>
          (case previous of
             None \<Rightarrow> IsSortedAndValid_loop (Some extent_end) es
           | Some previous_end \<Rightarrow>
               if physical_address e \<le> previous_end then False
               else IsSortedAndValid_loop (Some extent_end) es))"

definition IsSortedAndValid :: "Extent list \<Rightarrow> bool" where
  "IsSortedAndValid extents = IsSortedAndValid_loop None extents"

text \<open>
  The loop of \<^verbatim>\<open>CoalesceSorted\<close>; \<open>merged\<close> is kept with its \<^verbatim>\<open>back()\<close> first.
\<close>

fun CoalesceSorted_loop :: "Extent list \<Rightarrow> Extent list \<Rightarrow> Extent list option" where
  "CoalesceSorted_loop merged [] = Some (rev merged)"
| "CoalesceSorted_loop merged (e # es) =
     (if physical_address e = 0 \<or> bytes e = 0 then CoalesceSorted_loop merged es
      else case RangeEnd (physical_address e) (bytes e) of
        None \<Rightarrow> None
      | Some extent_end \<Rightarrow>
          (case merged of
             [] \<Rightarrow> CoalesceSorted_loop [e] es
           | previous # rest \<Rightarrow>
               (case RangeEnd (physical_address previous) (bytes previous) of
                  None \<Rightarrow> None
                | Some previous_end \<Rightarrow>
                    if physical_address e \<le> previous_end then
                      (if extent_end > previous_end
                       then CoalesceSorted_loop
                              (previous\<lparr>bytes := extent_end - physical_address previous\<rparr> # rest) es
                       else CoalesceSorted_loop merged es)
                    else CoalesceSorted_loop (e # merged) es)))"

definition CoalesceSorted :: "Extent list \<Rightarrow> bool \<times> Extent list" where
  "CoalesceSorted extents =
     (case CoalesceSorted_loop [] extents of
        None \<Rightarrow> (False, extents)
      | Some merged \<Rightarrow> (True, merged))"

text \<open>The comparator orders by address, then by length; equal keys are equal extents.\<close>

definition extent_key :: "Extent \<Rightarrow> nat \<times> nat" where
  "extent_key e = (physical_address e, bytes e)"

definition Normalize :: "Extent list \<Rightarrow> bool \<times> Extent list" where
  "Normalize extents =
     (if extents = [] then (True, extents) else CoalesceSorted (sort_key extent_key extents))"

section \<open>Insertion into the free list\<close>

definition lower_bound :: "Extent list \<Rightarrow> nat \<Rightarrow> nat" where
  "lower_bound extents pa = length (takeWhile (\<lambda>c. physical_address c < pa) extents)"

text \<open>The two merge loops of \<^verbatim>\<open>AddFreeExtent\<close>, towards lower and higher addresses.\<close>

fun merge_backward :: "Extent list \<Rightarrow> nat \<Rightarrow> nat \<Rightarrow> nat \<Rightarrow> (nat \<times> nat \<times> nat) option" where
  "merge_backward fs 0 merge_start merge_end = Some (0, merge_start, merge_end)"
| "merge_backward fs (Suc i) merge_start merge_end =
     (let previous = fs ! i in
      case RangeEnd (physical_address previous) (bytes previous) of
        None \<Rightarrow> None
      | Some previous_end \<Rightarrow>
          if previous_end < merge_start then Some (Suc i, merge_start, merge_end)
          else merge_backward fs i (physical_address previous) (max merge_end previous_end))"

function merge_forward :: "Extent list \<Rightarrow> nat \<Rightarrow> nat \<Rightarrow> (nat \<times> nat) option" where
  "merge_forward fs j merge_end =
     (if j < length fs then
        let candidate = fs ! j in
        if physical_address candidate > merge_end then Some (j, merge_end)
        else case RangeEnd (physical_address candidate) (bytes candidate) of
               None \<Rightarrow> None
             | Some candidate_end \<Rightarrow> merge_forward fs (Suc j) (max merge_end candidate_end)
      else Some (j, merge_end))"
  by pat_completeness auto
termination
  by (relation "measure (\<lambda>(fs, j, e). length fs - j)") auto

declare merge_forward.simps [simp del]

text \<open>
  The result is the returned flag, the free list left behind and what is written to
  \<^verbatim>\<open>*undo\<close> when the caller passes one.  The unsorted path sets only
  \<^verbatim>\<open>undo->valid = false\<close>; \<open>undo\<close> is the record's previous content.
\<close>

definition AddFreeExtent ::
  "Extent list \<Rightarrow> Extent \<Rightarrow> AddFreeExtentUndo \<Rightarrow> bool \<times> Extent list \<times> AddFreeExtentUndo" where
  "AddFreeExtent fs e undo =
     (case RangeEnd (physical_address e) (bytes e) of
        None \<Rightarrow> (False, fs, undo)
      | Some extent_end \<Rightarrow>
          if \<not> IsSortedAndValid fs then
            (let (ok, fs') = Normalize (fs @ [e]) in (ok, fs', undo\<lparr>valid := False\<rparr>))
          else
            let insertion = lower_bound fs (physical_address e) in
            case merge_backward fs insertion (physical_address e) extent_end of
              None \<Rightarrow> (False, fs, undo)
            | Some (eb, merge_start, merge_end) \<Rightarrow>
                (case merge_forward fs insertion merge_end of
                   None \<Rightarrow> (False, fs, undo)
                 | Some (ee, merge_end') \<Rightarrow>
                     let merged = mk_extent merge_start (merge_end' - merge_start);
                         local_undo =
                           \<lparr>valid = True, erase_begin = eb, erased_count = ee - eb,
                            erased_extents = take (ee - eb) (drop eb fs),
                            inserted_without_erasing = (eb = ee)\<rparr>
                     in if eb = ee
                        then (True, take eb fs @ merged # drop eb fs, local_undo)
                        else (True, take eb fs @ merged # drop ee fs, local_undo)))"

definition RollbackAddFreeExtent :: "Extent list \<Rightarrow> AddFreeExtentUndo \<Rightarrow> bool \<times> Extent list" where
  "RollbackAddFreeExtent fs undo =
     (if \<not> valid undo then (False, fs)
      else if erase_begin undo \<ge> length fs then (False, fs)
      else
        let erased = take (erase_begin undo) fs @ drop (Suc (erase_begin undo)) fs;
            at = min (erase_begin undo) (length erased);
            restored = (if erased_extents undo \<noteq> []
                        then take at erased @ erased_extents undo @ drop at erased
                        else erased)
        in (IsSortedAndValid restored, restored))"

section \<open>Removal from the free list\<close>

fun RemoveAllocatedExtent_loop :: "nat \<Rightarrow> nat \<Rightarrow> Extent list \<Rightarrow> Extent list option" where
  "RemoveAllocatedExtent_loop pa extent_end [] = Some []"
| "RemoveAllocatedExtent_loop pa extent_end (f # fs) =
     (case RangeEnd (physical_address f) (bytes f) of
        None \<Rightarrow> None
      | Some free_end \<Rightarrow>
          (case RemoveAllocatedExtent_loop pa extent_end fs of
             None \<Rightarrow> None
           | Some adjusted \<Rightarrow>
               if free_end \<le> pa \<or> extent_end \<le> physical_address f then Some (f # adjusted)
               else Some
                 ((if physical_address f < pa
                   then [mk_extent (physical_address f) (pa - physical_address f)] else []) @
                  (if extent_end < free_end
                   then [mk_extent extent_end (free_end - extent_end)] else []) @
                  adjusted)))"

definition RemoveAllocatedExtent :: "Extent list \<Rightarrow> Extent \<Rightarrow> bool \<times> Extent list" where
  "RemoveAllocatedExtent fs e =
     (case RangeEnd (physical_address e) (bytes e) of
        None \<Rightarrow> (False, fs)
      | Some extent_end \<Rightarrow>
          let (ok, fs') = (if IsSortedAndValid fs then (True, fs) else Normalize fs) in
          if \<not> ok then (False, fs')
          else case RemoveAllocatedExtent_loop (physical_address e) extent_end fs' of
                 None \<Rightarrow> (False, fs')
               | Some adjusted \<Rightarrow> (True, adjusted))"

text \<open>
  The batch removal walks the free list and the normalised removals together.
  \<open>skip_removals\<close> is the \<^verbatim>\<open>while\<close> loop that advances \<^verbatim>\<open>removal_it\<close>,
  \<open>carve_free_extent\<close> the inner \<^verbatim>\<open>for\<close> loop over the removals that meet one free
  extent; it returns the pieces kept and the final cursor.
\<close>

fun skip_removals :: "nat \<Rightarrow> Extent list \<Rightarrow> Extent list option" where
  "skip_removals free_pa [] = Some []"
| "skip_removals free_pa (r # rs) =
     (case RangeEnd (physical_address r) (bytes r) of
        None \<Rightarrow> None
      | Some removal_end \<Rightarrow>
          if removal_end > free_pa then Some (r # rs) else skip_removals free_pa rs)"

fun carve_free_extent :: "nat \<Rightarrow> nat \<Rightarrow> Extent list \<Rightarrow> (Extent list \<times> nat) option" where
  "carve_free_extent free_end cursor [] = Some ([], cursor)"
| "carve_free_extent free_end cursor (r # rs) =
     (case RangeEnd (physical_address r) (bytes r) of
        None \<Rightarrow> None
      | Some removal_end \<Rightarrow>
          if physical_address r \<ge> free_end then Some ([], cursor)
          else
            let piece = (if physical_address r > cursor
                         then [mk_extent cursor (physical_address r - cursor)] else []);
                cursor' = max cursor (min removal_end free_end)
            in if cursor' \<ge> free_end then Some (piece, cursor')
               else (case carve_free_extent free_end cursor' rs of
                       None \<Rightarrow> None
                     | Some (pieces, final) \<Rightarrow> Some (piece @ pieces, final)))"

fun RemoveAllocatedExtents_loop :: "Extent list \<Rightarrow> Extent list \<Rightarrow> Extent list option" where
  "RemoveAllocatedExtents_loop rs [] = Some []"
| "RemoveAllocatedExtents_loop rs (f # fs) =
     (case RangeEnd (physical_address f) (bytes f) of
        None \<Rightarrow> None
      | Some free_end \<Rightarrow>
          (case skip_removals (physical_address f) rs of
             None \<Rightarrow> None
           | Some rs' \<Rightarrow>
               (case carve_free_extent free_end (physical_address f) rs' of
                  None \<Rightarrow> None
                | Some (pieces, cursor) \<Rightarrow>
                    (case RemoveAllocatedExtents_loop rs' fs of
                       None \<Rightarrow> None
                     | Some adjusted \<Rightarrow>
                         Some (pieces @
                           (if cursor < free_end then [mk_extent cursor (free_end - cursor)] else [])
                           @ adjusted)))))"

definition RemoveAllocatedExtents :: "Extent list \<Rightarrow> Extent list \<Rightarrow> bool \<times> Extent list" where
  "RemoveAllocatedExtents fs extents =
     (if fs = [] \<or> extents = [] then (True, fs)
      else
        let (ok, fs') = (if IsSortedAndValid fs then (True, fs) else Normalize fs) in
        if \<not> ok then (False, fs')
        else
          let (ok_removals, removals) = Normalize extents in
          if \<not> ok_removals then (False, fs')
          else if removals = [] then (True, fs')
          else case RemoveAllocatedExtents_loop removals fs' of
                 None \<Rightarrow> (False, fs')
               | Some adjusted \<Rightarrow> (IsSortedAndValid adjusted, adjusted))"


section \<open>Abstraction and invariant\<close>

definition valid_extent :: "Extent \<Rightarrow> bool" where
  "valid_extent e \<longleftrightarrow> RangeEnd (physical_address e) (bytes e) \<noteq> None"

definition range_of :: "Extent \<Rightarrow> nat set" where
  "range_of e = ivl (physical_address e) (bytes e)"

definition space :: "Extent list \<Rightarrow> nat set" where
  "space es = (\<Union>e \<in> set es. range_of e)"

definition gap :: "Extent \<Rightarrow> Extent \<Rightarrow> bool" where
  "gap a b \<longleftrightarrow> physical_address a + bytes a < physical_address b"

lemma RangeEnd_Some_iff:
  "RangeEnd a n = Some z \<longleftrightarrow> 0 < a \<and> 0 < n \<and> a \<le> u64_max - n \<and> z = a + n"
  by (auto simp: RangeEnd_def)

lemma valid_extent_RangeEnd [extent_simps]:
  "valid_extent e \<Longrightarrow>
   RangeEnd (physical_address e) (bytes e) = Some (physical_address e + bytes e)"
  by (auto simp: valid_extent_def RangeEnd_def split: if_splits)

lemma valid_extent_iff [extent_simps]:
  "valid_extent e \<longleftrightarrow>
   0 < physical_address e \<and> 0 < bytes e \<and> physical_address e \<le> u64_max - bytes e"
  by (auto simp: valid_extent_def RangeEnd_def)

lemma valid_extent_end: "valid_extent e \<Longrightarrow> physical_address e + bytes e \<le> u64_max"
  by (auto simp: valid_extent_iff)

lemma space_Nil [simp, space_simps]: "space [] = {}"
  by (simp add: space_def)

lemma space_Cons [simp, space_simps]: "space (e # es) = range_of e \<union> space es"
  by (simp add: space_def)

lemma space_append [simp, space_simps]: "space (xs @ ys) = space xs \<union> space ys"
  by (simp add: space_def)

lemma space_rev [simp, space_simps]: "space (rev xs) = space xs"
  by (simp add: space_def)

lemma space_cong_set: "set xs = set ys \<Longrightarrow> space xs = space ys"
  by (simp add: space_def)

lemma range_of_mk [simp, extent_simps]: "range_of (mk_extent a n) = ivl a n"
  by (simp add: range_of_def)

lemma range_of_empty: "bytes e = 0 \<Longrightarrow> range_of e = {}"
  by (simp add: range_of_def)

lemma range_of_nonempty: "valid_extent e \<Longrightarrow> range_of e \<noteq> {}"
  by (simp add: range_of_def valid_extent_iff)

lemma gap_trans: "valid_extent b \<Longrightarrow> gap a b \<Longrightarrow> gap b c \<Longrightarrow> gap a c"
  by (simp add: gap_def)

lemma gap_disjoint: "gap a b \<Longrightarrow> range_of a \<inter> range_of b = {}"
  by (auto simp: gap_def range_of_def mem_ivl)

lemma IsSortedAndValid_loop_iff:
  "IsSortedAndValid_loop p es \<longleftrightarrow>
   (\<forall>e \<in> set es. valid_extent e) \<and> sorted_wrt gap es \<and>
   (\<forall>q. p = Some q \<longrightarrow> (\<forall>e \<in> set es. q < physical_address e))"
proof (induction es arbitrary: p)
  case Nil
  then show ?case by simp
next
  case (Cons e es)
  show ?case
  proof (cases "valid_extent e")
    case False
    then show ?thesis by (simp add: valid_extent_def)
  next
    case True
    then show ?thesis
      by (cases p) (auto simp: Cons.IH valid_extent_RangeEnd gap_def)
  qed
qed

lemma IsSortedAndValid_iff:
  "IsSortedAndValid es \<longleftrightarrow> (\<forall>e \<in> set es. valid_extent e) \<and> sorted_wrt gap es"
  by (simp add: IsSortedAndValid_def IsSortedAndValid_loop_iff)

lemma IsSortedAndValid_Nil [simp]: "IsSortedAndValid []"
  by (simp add: IsSortedAndValid_iff)

lemma IsSortedAndValid_Cons:
  "IsSortedAndValid (e # es) \<longleftrightarrow>
   valid_extent e \<and> IsSortedAndValid es \<and> (\<forall>x \<in> set es. gap e x)"
  by (auto simp: IsSortedAndValid_iff)

lemma IsSortedAndValid_append:
  "IsSortedAndValid (xs @ ys) \<longleftrightarrow>
   IsSortedAndValid xs \<and> IsSortedAndValid ys \<and> (\<forall>x \<in> set xs. \<forall>y \<in> set ys. gap x y)"
  by (auto simp: IsSortedAndValid_iff sorted_wrt_append)

text \<open>A canonical list is determined by its address set: the invariant is a normal form.\<close>

lemma space_bound_below:
  "\<forall>x \<in> set es. l \<le> physical_address x \<Longrightarrow> a \<in> space es \<Longrightarrow> l \<le> a"
  by (fastforce simp: space_def range_of_def mem_ivl)

lemma canonical_head:
  assumes "IsSortedAndValid (e # es)"
  shows "physical_address e \<in> space (e # es)"
    and "\<And>a. a \<in> space (e # es) \<Longrightarrow> physical_address e \<le> a"
    and "physical_address e + bytes e \<notin> space (e # es)"
    and "\<And>a. physical_address e \<le> a \<Longrightarrow> a < physical_address e + bytes e \<Longrightarrow> a \<in> space (e # es)"
proof -
  have v: "valid_extent e" and g: "\<forall>x \<in> set es. gap e x"
    using assms by (auto simp: IsSortedAndValid_Cons)
  have above: "\<And>a. a \<in> space es \<Longrightarrow> Suc (physical_address e + bytes e) \<le> a"
    using g by (intro space_bound_below) (auto simp: gap_def)
  show "physical_address e \<in> space (e # es)"
    using v by (simp add: range_of_def mem_ivl valid_extent_iff)
  show "\<And>a. a \<in> space (e # es) \<Longrightarrow> physical_address e \<le> a"
    using above by (fastforce simp: range_of_def mem_ivl)
  show "physical_address e + bytes e \<notin> space (e # es)"
    using above by (fastforce simp: range_of_def mem_ivl)
  show "\<And>a. physical_address e \<le> a \<Longrightarrow> a < physical_address e + bytes e \<Longrightarrow> a \<in> space (e # es)"
    by (simp add: range_of_def mem_ivl)
qed

lemma space_tail:
  assumes "IsSortedAndValid (e # es)"
  shows "space es = space (e # es) - range_of e"
proof -
  have "range_of e \<inter> range_of x = {}" if "x \<in> set es" for x
    using assms that by (intro gap_disjoint) (auto simp: IsSortedAndValid_Cons)
  then show ?thesis by (auto simp: space_def)
qed

lemma canonical_unique:
  "IsSortedAndValid xs \<Longrightarrow> IsSortedAndValid ys \<Longrightarrow> space xs = space ys \<Longrightarrow> xs = ys"
proof (induction xs arbitrary: ys)
  case Nil
  then show ?case
    by (cases ys) (auto simp: IsSortedAndValid_Cons range_of_nonempty)
next
  case (Cons x xs)
  then obtain y ys' where ys: "ys = y # ys'"
    by (cases ys) (auto simp: IsSortedAndValid_Cons range_of_nonempty)
  note hx = canonical_head [OF Cons.prems(1)]
  note hy = canonical_head [OF Cons.prems(2) [unfolded ys]]
  note eq = Cons.prems(3) [unfolded ys]
  have pa: "physical_address x = physical_address y"
    using hx(1,2) hy(1,2) eq by (metis le_antisym)
  have "physical_address x + bytes x = physical_address y + bytes y"
  proof (rule ccontr)
    assume "physical_address x + bytes x \<noteq> physical_address y + bytes y"
    then consider "physical_address x + bytes x < physical_address y + bytes y"
      | "physical_address y + bytes y < physical_address x + bytes x" by linarith
    then show False
      using hx(3,4) hy(3,4) eq pa by cases (metis le_add1)+
  qed
  then have xy: "x = y" using pa by simp
  moreover have "xs = ys'"
  proof (rule Cons.IH)
    show "IsSortedAndValid xs" "IsSortedAndValid ys'"
      using Cons.prems ys by (auto simp: IsSortedAndValid_Cons)
    show "space xs = space ys'"
      using space_tail [OF Cons.prems(1)] space_tail [OF Cons.prems(2) [unfolded ys]] eq xy
      by simp
  qed
  ultimately show ?case using ys by simp
qed

section \<open>Normalisation\<close>

text \<open>
  An entry with a zero address or a zero length is dropped by normalisation; every other
  entry counts, and must not run past the end of the address space.
\<close>

definition counted :: "Extent \<Rightarrow> bool" where
  "counted e \<longleftrightarrow> physical_address e \<noteq> 0 \<and> bytes e \<noteq> 0"

definition normalizable :: "Extent list \<Rightarrow> bool" where
  "normalizable es \<longleftrightarrow> (\<forall>e \<in> set es. counted e \<longrightarrow> valid_extent e)"

lemma valid_extent_counted: "valid_extent e \<Longrightarrow> counted e"
  by (simp add: valid_extent_iff counted_def)

lemma filter_counted_canonical: "IsSortedAndValid es \<Longrightarrow> filter counted es = es"
  by (simp add: IsSortedAndValid_iff valid_extent_counted)

lemma normalizable_canonical: "IsSortedAndValid es \<Longrightarrow> normalizable es"
  by (auto simp: normalizable_def IsSortedAndValid_iff)

lemma CoalesceSorted_loop_correct:
  assumes "sorted (map extent_key es)"
    and "IsSortedAndValid (rev merged)"
    and "\<forall>m \<in> set merged. \<forall>e \<in> set es. physical_address m \<le> physical_address e"
    and "normalizable es"
  shows "\<exists>out. CoalesceSorted_loop merged es = Some out \<and> IsSortedAndValid out \<and>
               space out = space merged \<union> space (filter counted es)"
  using assms
proof (induction es arbitrary: merged)
  case Nil
  then show ?case by simp
next
  case (Cons e es)
  have sorted_es: "sorted (map extent_key es)" and norm_es: "normalizable es"
    using Cons.prems by (auto simp: normalizable_def)
  have e_le: "\<forall>x \<in> set es. physical_address e \<le> physical_address x"
    using Cons.prems(1) by (auto simp: extent_key_def)
  show ?case
  proof (cases "counted e")
    case False
    have "\<exists>out. CoalesceSorted_loop merged es = Some out \<and> IsSortedAndValid out \<and>
               space out = space merged \<union> space (filter counted es)"
      using Cons.prems sorted_es norm_es by (intro Cons.IH) auto
    moreover have "physical_address e = 0 \<or> bytes e = 0"
      using False by (simp add: counted_def)
    ultimately show ?thesis using False by simp
  next
    case True
    then have ve: "valid_extent e" using Cons.prems(4) by (simp add: normalizable_def)
    note re = valid_extent_RangeEnd [OF ve]
    have nz: "\<not> (physical_address e = 0 \<or> bytes e = 0)" using True by (simp add: counted_def)
    show ?thesis
    proof (cases merged)
      case Nil
      have "\<exists>out. CoalesceSorted_loop [e] es = Some out \<and> IsSortedAndValid out \<and>
               space out = space [e] \<union> space (filter counted es)"
        using sorted_es norm_es e_le ve by (intro Cons.IH) (auto simp: IsSortedAndValid_Cons)
      then show ?thesis using Nil nz True re by auto
    next
      case (Cons p rest)
      then have vp: "valid_extent p" and wr: "IsSortedAndValid (rev rest)"
        and gp: "\<forall>x \<in> set rest. gap x p"
        using Cons.prems(2) by (auto simp: IsSortedAndValid_append IsSortedAndValid_Cons)
      note rp = valid_extent_RangeEnd [OF vp]
      have p_le: "physical_address p \<le> physical_address e"
        and rest_le: "\<forall>m \<in> set rest. \<forall>x \<in> set es. physical_address m \<le> physical_address x"
        and p_le_es: "\<forall>x \<in> set es. physical_address p \<le> physical_address x"
        using Cons.prems(3) Cons by auto
      show ?thesis
      proof (cases "physical_address e \<le> physical_address p + bytes p")
        case touching: True
        let ?z = "max (physical_address p + bytes p) (physical_address e + bytes e)"
        let ?q = "p\<lparr>bytes := ?z - physical_address p\<rparr>"
        have q_range: "range_of ?q = range_of p \<union> range_of e"
          using ivl_union_touching [OF p_le touching, of "bytes e"] by (simp add: range_of_def)
        have vq: "valid_extent ?q"
          using vp ve p_le by (auto simp: valid_extent_iff max_def)
        have "\<exists>out. CoalesceSorted_loop (?q # rest) es = Some out \<and> IsSortedAndValid out \<and>
               space out = space (?q # rest) \<union> space (filter counted es)"
          using sorted_es norm_es wr vq gp rest_le p_le_es
          by (intro Cons.IH)
             (auto simp: IsSortedAndValid_append IsSortedAndValid_Cons gap_def)
        moreover have "CoalesceSorted_loop merged (e # es) = CoalesceSorted_loop (?q # rest) es"
          using Cons nz re rp touching by (auto simp: max_def)
        ultimately show ?thesis using Cons q_range True by auto
      next
        case apart: False
        have "\<exists>out. CoalesceSorted_loop (e # merged) es = Some out \<and> IsSortedAndValid out \<and>
               space out = space (e # merged) \<union> space (filter counted es)"
          using sorted_es norm_es Cons.prems(2,3) Cons e_le ve gp apart vp
          by (intro Cons.IH)
             (auto simp: IsSortedAndValid_append IsSortedAndValid_Cons gap_def)
        then show ?thesis using Cons nz re rp apart True by auto
      qed
    qed
  qed
qed

lemma CoalesceSorted_loop_overflow:
  "\<not> normalizable es \<Longrightarrow> CoalesceSorted_loop merged es = None"
proof (induction es arbitrary: merged)
  case Nil
  then show ?case by (simp add: normalizable_def)
next
  case (Cons e es)
  show ?case
  proof (cases "counted e \<and> \<not> valid_extent e")
    case True
    then show ?thesis by (simp add: counted_def valid_extent_def)
  next
    case False
    then have "\<not> normalizable es" using Cons.prems by (auto simp: normalizable_def)
    then show ?thesis by (auto simp: Cons.IH split: option.splits list.splits)
  qed
qed

lemma Normalize_ok:
  assumes "normalizable es"
  shows "\<exists>out. Normalize es = (True, out) \<and> IsSortedAndValid out \<and>
               space out = space (filter counted es)"
proof (cases "es = []")
  case True
  then show ?thesis by (simp add: Normalize_def)
next
  case False
  let ?s = "sort_key extent_key es"
  have "\<exists>out. CoalesceSorted_loop [] ?s = Some out \<and> IsSortedAndValid out \<and>
              space out = space [] \<union> space (filter counted ?s)"
    using assms by (intro CoalesceSorted_loop_correct) (auto simp: normalizable_def)
  moreover have "space (filter counted ?s) = space (filter counted es)"
    by (intro space_cong_set) simp
  ultimately show ?thesis using False by (auto simp: Normalize_def CoalesceSorted_def)
qed

lemma Normalize_overflow:
  assumes "\<not> normalizable es"
  shows "Normalize es = (False, sort_key extent_key es)"
proof -
  have "es \<noteq> []" using assms by (auto simp: normalizable_def)
  moreover have "\<not> normalizable (sort_key extent_key es)"
    using assms by (simp add: normalizable_def)
  ultimately show ?thesis
    by (simp add: Normalize_def CoalesceSorted_def CoalesceSorted_loop_overflow)
qed

lemma Normalize_canonical:
  assumes "IsSortedAndValid es"
  shows "Normalize es = (True, es)"
  using Normalize_ok [OF normalizable_canonical [OF assms]] canonical_unique assms
  by (metis filter_counted_canonical)

text \<open>
  C1. Normalisation of a free list succeeds exactly when no counted extent runs past the
  end of the address space.  On success the result is sorted, valid and fully coalesced
  (neighbours are separated by a gap) and covers exactly the addresses of the counted
  extents; on failure the list is left sorted but not merged.
\<close>

theorem Normalize_correct:
  "(normalizable es \<longleftrightarrow> fst (Normalize es)) \<and>
   (if fst (Normalize es)
    then IsSortedAndValid (snd (Normalize es)) \<and>
         space (snd (Normalize es)) = space (filter counted es)
    else snd (Normalize es) = sort_key extent_key es)"
proof (cases "normalizable es")
  case True
  then obtain out where "Normalize es = (True, out)" "IsSortedAndValid out"
    "space out = space (filter counted es)" using Normalize_ok by blast
  then show ?thesis using True by simp
next
  case False
  then show ?thesis using Normalize_overflow by simp
qed

section \<open>Insertion\<close>

lemma lower_bound_le: "lower_bound fs a \<le> length fs"
  by (simp add: lower_bound_def length_takeWhile_le)

lemma lower_bound_before: "i < lower_bound fs a \<Longrightarrow> physical_address (fs ! i) < a"
  using takeWhile_nth_prefix [of i "\<lambda>c. physical_address c < a" fs] by (simp add: lower_bound_def)

lemma canonical_nth_gap:
  "IsSortedAndValid fs \<Longrightarrow> i < j \<Longrightarrow> j < length fs \<Longrightarrow> gap (fs ! i) (fs ! j)"
  by (simp add: IsSortedAndValid_iff sorted_wrt_nth_less)

lemma canonical_nth_valid: "IsSortedAndValid fs \<Longrightarrow> i < length fs \<Longrightarrow> valid_extent (fs ! i)"
  by (simp add: IsSortedAndValid_iff)

lemma lower_bound_after:
  assumes "IsSortedAndValid fs" and "lower_bound fs a \<le> i" and "i < length fs"
  shows "a \<le> physical_address (fs ! i)"
proof -
  let ?k = "lower_bound fs a"
  have "?k < length fs" using assms by simp
  then have k: "a \<le> physical_address (fs ! ?k)"
    unfolding lower_bound_def by (metis linorder_not_less nth_length_takeWhile)
  show ?thesis
  proof (cases "i = ?k")
    case True
    then show ?thesis using k by simp
  next
    case False
    then have "gap (fs ! ?k) (fs ! i)" using assms by (intro canonical_nth_gap) auto
    then show ?thesis using k by (simp add: gap_def)
  qed
qed

lemma space_take_Suc:
  "i < length fs \<Longrightarrow> space (take (Suc i) fs) = space (take i fs) \<union> range_of (fs ! i)"
  by (simp add: take_Suc_conv_app_nth)

lemma space_drop_Suc:
  "i < length fs \<Longrightarrow> space (drop i fs) = range_of (fs ! i) \<union> space (drop (Suc i) fs)"
  by (simp add: Cons_nth_drop_Suc [symmetric])

lemma merge_backward_correct:
  assumes "IsSortedAndValid fs" and "k \<le> length fs" and "0 < ms" and "ms < me" and "me \<le> u64_max"
    and "\<forall>i < k. physical_address (fs ! i) \<le> ms"
  shows "\<exists>eb ms' me'. merge_backward fs k ms me = Some (eb, ms', me') \<and> eb \<le> k \<and> ms' \<le> ms \<and>
           0 < ms' \<and> me \<le> me' \<and> me' \<le> u64_max \<and>
           space (take k fs) \<union> {ms..<me} = space (take eb fs) \<union> {ms'..<me'} \<and>
           (\<forall>i < eb. physical_address (fs ! i) + bytes (fs ! i) < ms')"
  using assms
proof (induction k arbitrary: ms me)
  case 0
  then show ?case by simp
next
  case (Suc i)
  let ?p = "fs ! i"
  have vp: "valid_extent ?p" using Suc.prems by (intro canonical_nth_valid) auto
  note rp = valid_extent_RangeEnd [OF vp]
  show ?case
  proof (cases "physical_address ?p + bytes ?p < ms")
    case True
    have "physical_address (fs ! j) + bytes (fs ! j) < ms" if "j < Suc i" for j
    proof (cases "j = i")
      case True
      then show ?thesis using \<open>physical_address ?p + bytes ?p < ms\<close> by simp
    next
      case False
      then have "gap (fs ! j) ?p" using that Suc.prems by (intro canonical_nth_gap) auto
      then show ?thesis using True by (simp add: gap_def)
    qed
    then show ?thesis using True rp Suc.prems by simp
  next
    case False
    let ?me = "max me (physical_address ?p + bytes ?p)"
    have p_le: "physical_address ?p \<le> ms" using Suc.prems(6) by simp
    have before: "\<forall>j < i. physical_address (fs ! j) \<le> physical_address ?p"
      using Suc.prems canonical_nth_gap [of fs _ i] by (fastforce simp: gap_def)
    have "\<exists>eb ms' me'. merge_backward fs i (physical_address ?p) ?me = Some (eb, ms', me') \<and>
           eb \<le> i \<and> ms' \<le> physical_address ?p \<and> 0 < ms' \<and> ?me \<le> me' \<and> me' \<le> u64_max \<and>
           space (take i fs) \<union> {physical_address ?p..<?me} = space (take eb fs) \<union> {ms'..<me'} \<and>
           (\<forall>i < eb. physical_address (fs ! i) + bytes (fs ! i) < ms')"
      using Suc.prems vp before valid_extent_end [OF vp]
      by (intro Suc.IH) (auto simp: valid_extent_iff)
    then obtain eb ms' me' where
      r: "merge_backward fs i (physical_address ?p) ?me = Some (eb, ms', me')" "eb \<le> i"
        "ms' \<le> physical_address ?p" "0 < ms'" "?me \<le> me'" "me' \<le> u64_max"
      and sp: "space (take i fs) \<union> {physical_address ?p..<?me} = space (take eb fs) \<union> {ms'..<me'}"
      and g: "\<forall>i < eb. physical_address (fs ! i) + bytes (fs ! i) < ms'"
      by blast
    have "range_of ?p \<union> {ms..<me} = {physical_address ?p..<?me}"
      using p_le False Suc.prems(4) by (auto simp: range_of_def mem_ivl)
    then have "space (take (Suc i) fs) \<union> {ms..<me} = space (take eb fs) \<union> {ms'..<me'}"
      using sp Suc.prems(2) by (simp add: space_take_Suc Un_assoc)
    then show ?thesis using r g False rp p_le by (intro exI [of _ eb] exI [of _ ms'] exI [of _ me']) auto
  qed
qed

lemma merge_forward_correct:
  assumes "IsSortedAndValid fs" and "j \<le> length fs" and "0 < ms" and "ms < me" and "me \<le> u64_max"
    and "\<forall>i \<ge> j. i < length fs \<longrightarrow> ms \<le> physical_address (fs ! i)"
  shows "\<exists>ee me'. merge_forward fs j me = Some (ee, me') \<and> j \<le> ee \<and> ee \<le> length fs \<and> me \<le> me' \<and>
           me' \<le> u64_max \<and> {ms..<me} \<union> space (drop j fs) = {ms..<me'} \<union> space (drop ee fs) \<and>
           (\<forall>i \<ge> ee. i < length fs \<longrightarrow> me' < physical_address (fs ! i))"
  using assms
proof (induction fs j me rule: merge_forward.induct)
  case (1 fs j me)
  show ?case
  proof (cases "j < length fs")
    case False
    then have "merge_forward fs j me = Some (j, me)" by (simp add: merge_forward.simps [of fs j me])
    then show ?thesis using False "1.prems" by (intro exI [of _ j] exI [of _ me]) auto
  next
    case j: True
    let ?c = "fs ! j"
    have vc: "valid_extent ?c" using "1.prems" j by (intro canonical_nth_valid) auto
    note rc = valid_extent_RangeEnd [OF vc]
    show ?thesis
    proof (cases "physical_address ?c > me")
      case True
      have "me < physical_address (fs ! i)" if "j \<le> i" "i < length fs" for i
      proof (cases "i = j")
        case False
        then have "gap ?c (fs ! i)" using that "1.prems" by (intro canonical_nth_gap) auto
        then show ?thesis using True by (simp add: gap_def)
      qed (use True in simp)
      then show ?thesis using True j "1.prems" by (simp add: merge_forward.simps [of fs j me])
    next
      case False
      let ?me = "max me (physical_address ?c + bytes ?c)"
      have "\<exists>ee me'. merge_forward fs (Suc j) ?me = Some (ee, me') \<and> Suc j \<le> ee \<and>
           ee \<le> length fs \<and> ?me \<le> me' \<and> me' \<le> u64_max \<and>
           {ms..<?me} \<union> space (drop (Suc j) fs) = {ms..<me'} \<union> space (drop ee fs) \<and>
           (\<forall>i \<ge> ee. i < length fs \<longrightarrow> me' < physical_address (fs ! i))"
        using "1.prems" j False rc valid_extent_end [OF vc] by (intro "1.IH") auto
      moreover have "{ms..<me} \<union> range_of ?c = {ms..<?me}"
      proof -
        have "ms \<le> physical_address ?c" using "1.prems"(6) j by simp
        then show ?thesis using "1.prems"(4) False by (auto simp: range_of_def mem_ivl)
      qed
      ultimately show ?thesis
        using j False rc
        by (auto simp: merge_forward.simps [of fs j me] space_drop_Suc Un_assoc [symmetric])
    qed
  qed
qed

lemma canonical_replace:
  assumes "IsSortedAndValid fs" and "eb \<le> ee" and "ee \<le> length fs" and "0 < ms" and "ms < me"
    and "me \<le> u64_max"
    and "\<forall>i < eb. physical_address (fs ! i) + bytes (fs ! i) < ms"
    and "\<forall>i \<ge> ee. i < length fs \<longrightarrow> me < physical_address (fs ! i)"
  shows "IsSortedAndValid (take eb fs @ mk_extent ms (me - ms) # drop ee fs)"
proof -
  let ?m = "mk_extent ms (me - ms)"
  have "valid_extent ?m" using assms by (auto simp: valid_extent_iff)
  moreover have "IsSortedAndValid (take eb fs)" "IsSortedAndValid (drop ee fs)"
    using assms(1) by (auto simp: IsSortedAndValid_iff sorted_wrt_take sorted_wrt_drop
        dest: in_set_takeD in_set_dropD)
  moreover have "\<forall>x \<in> set (take eb fs). gap x ?m"
    using assms(7) by (auto dest!: set_take_nth simp: gap_def)
  moreover have "\<forall>y \<in> set (drop ee fs). gap ?m y"
    using assms(5,8) by (auto dest!: set_drop_nth simp: gap_def)
  moreover have "gap x y" if x: "x \<in> set (take eb fs)" and y: "y \<in> set (drop ee fs)" for x y
  proof -
    obtain i where i: "i < eb" "x = fs ! i" using set_take_nth [OF x] by blast
    obtain j where j: "ee \<le> j" "j < length fs" "y = fs ! j" using set_drop_nth [OF y] by blast
    show ?thesis using canonical_nth_gap [OF assms(1), of i j] assms(2) i j by simp
  qed
  ultimately show ?thesis by (auto simp: IsSortedAndValid_append IsSortedAndValid_Cons)
qed

text \<open>The whole behaviour of a successful insertion, indices of the undo record included.\<close>

lemma AddFreeExtent_canonical:
  assumes wf: "IsSortedAndValid fs" and e: "valid_extent e"
  shows "\<exists>eb ee ms me. AddFreeExtent fs e undo =
           (True, take eb fs @ mk_extent ms (me - ms) # drop ee fs,
            \<lparr>valid = True, erase_begin = eb, erased_count = ee - eb,
             erased_extents = take (ee - eb) (drop eb fs),
             inserted_without_erasing = (eb = ee)\<rparr>) \<and>
         eb \<le> ee \<and> ee \<le> length fs \<and>
         IsSortedAndValid (take eb fs @ mk_extent ms (me - ms) # drop ee fs) \<and>
         space (take eb fs @ mk_extent ms (me - ms) # drop ee fs) = space fs \<union> range_of e"
proof -
  let ?a = "physical_address e" and ?n = "bytes e"
  let ?k = "lower_bound fs ?a"
  have ev: "0 < ?a" "?a < ?a + ?n" "?a + ?n \<le> u64_max"
    using e valid_extent_end [OF e] by (auto simp: valid_extent_iff)
  have kl: "?k \<le> length fs" by (rule lower_bound_le)
  have before: "\<forall>i < ?k. physical_address (fs ! i) \<le> ?a"
    using lower_bound_before by (simp add: less_imp_le)
  obtain eb ms me where b: "merge_backward fs ?k ?a (?a + ?n) = Some (eb, ms, me)"
    and b': "eb \<le> ?k" "ms \<le> ?a" "0 < ms" "?a + ?n \<le> me" "me \<le> u64_max"
    and bs: "space (take ?k fs) \<union> {?a..<?a + ?n} = space (take eb fs) \<union> {ms..<me}"
    and bg: "\<forall>i < eb. physical_address (fs ! i) + bytes (fs ! i) < ms"
    using merge_backward_correct [OF wf kl ev before] by blast
  have "\<forall>i \<ge> ?k. i < length fs \<longrightarrow> ms \<le> physical_address (fs ! i)"
    using lower_bound_after [OF wf] b'(2) by (meson le_trans)
  moreover have "ms < me" using b' ev by linarith
  ultimately obtain ee me' where f: "merge_forward fs ?k me = Some (ee, me')"
    and f': "?k \<le> ee" "ee \<le> length fs" "me \<le> me'" "me' \<le> u64_max"
    and fsp: "{ms..<me} \<union> space (drop ?k fs) = {ms..<me'} \<union> space (drop ee fs)"
    and fg: "\<forall>i \<ge> ee. i < length fs \<longrightarrow> me' < physical_address (fs ! i)"
    using merge_forward_correct [OF wf kl b'(3) _ b'(5)] by blast
  have ms_me: "ms < me'" using \<open>ms < me\<close> f' by linarith
  let ?out = "take eb fs @ mk_extent ms (me' - ms) # drop ee fs"
  have canon: "IsSortedAndValid ?out"
    using wf b' f' ms_me bg fg by (intro canonical_replace) auto
  have "space fs \<union> range_of e = space (take ?k fs @ drop ?k fs) \<union> {?a..<?a + ?n}"
    by (simp only: append_take_drop_id) (simp add: range_of_def ivl_def)
  also have "\<dots> = (space (take ?k fs) \<union> {?a..<?a + ?n}) \<union> space (drop ?k fs)"
    by (simp del: append_take_drop_id add: Un_ac)
  also have "\<dots> = space (take eb fs) \<union> ({ms..<me} \<union> space (drop ?k fs))"
    unfolding bs by (simp add: Un_ac)
  also have "\<dots> = space ?out"
    unfolding fsp using ms_me by (simp add: ivl_def)
  finally have sp: "space ?out = space fs \<union> range_of e" by simp
  have "AddFreeExtent fs e undo = (True, ?out,
      \<lparr>valid = True, erase_begin = eb, erased_count = ee - eb,
       erased_extents = take (ee - eb) (drop eb fs), inserted_without_erasing = (eb = ee)\<rparr>)"
    using wf b f valid_extent_RangeEnd [OF e] by (simp add: AddFreeExtent_def Let_def)
  moreover have "eb \<le> ee" "ee \<le> length fs" using b' f' by linarith+
  ultimately show ?thesis using canon sp by blast
qed


lemma AddFreeExtent_ok:
  assumes "IsSortedAndValid fs" and "valid_extent e"
  shows "\<exists>fs' undo'. AddFreeExtent fs e undo = (True, fs', undo') \<and> IsSortedAndValid fs' \<and>
           space fs' = space fs \<union> range_of e"
  using AddFreeExtent_canonical [OF assms, of undo] by blast

lemma AddFreeExtent_rejects:
  "\<not> valid_extent e \<Longrightarrow> AddFreeExtent fs e undo = (False, fs, undo)"
  by (simp add: AddFreeExtent_def valid_extent_def)

text \<open>
  Inserting a valid extent into a canonical free list always succeeds, keeps the list
  canonical and adds exactly the extent's addresses.  The in-place merge computes what
  appending the extent and normalising the whole list would: the optimised insertion agrees
  with the reference path the source takes on an unsorted list.
\<close>

lemma AddFreeExtent_refines_Normalize:
  assumes "IsSortedAndValid fs" and "valid_extent e"
  shows "\<exists>fs' undo'. AddFreeExtent fs e undo = (True, fs', undo') \<and> IsSortedAndValid fs' \<and>
           space fs' = space fs \<union> range_of e \<and> Normalize (fs @ [e]) = (True, fs')"
proof -
  obtain fs' undo' where a: "AddFreeExtent fs e undo = (True, fs', undo')"
    and c: "IsSortedAndValid fs'" and sp: "space fs' = space fs \<union> range_of e"
    using AddFreeExtent_ok [OF assms] by blast
  have "normalizable (fs @ [e])"
    using assms by (auto simp: normalizable_def IsSortedAndValid_iff)
  then obtain out where o: "Normalize (fs @ [e]) = (True, out)" "IsSortedAndValid out"
    "space out = space (filter counted (fs @ [e]))" using Normalize_ok by blast
  have "space out = space fs'"
    using o(3) sp assms by (simp add: filter_counted_canonical valid_extent_counted)
  then have "out = fs'" using canonical_unique o(2) c by blast
  then show ?thesis using a c sp o(1) by blast
qed

lemma AddFreeExtent_refines_Normalize_witness:
  "\<exists>fs' undo'. AddFreeExtent [mk_extent 4096 4096, mk_extent 16384 4096] (mk_extent 8192 8192)
       \<lparr>valid = False, erase_begin = 0, erased_count = 0, erased_extents = [],
        inserted_without_erasing = False\<rparr> = (True, fs', undo') \<and>
     IsSortedAndValid fs' \<and>
     space fs' = space [mk_extent 4096 4096, mk_extent 16384 4096] \<union> range_of (mk_extent 8192 8192) \<and>
     Normalize ([mk_extent 4096 4096, mk_extent 16384 4096] @ [mk_extent 8192 8192]) = (True, fs')"
  by (rule AddFreeExtent_refines_Normalize)
     (simp_all add: IsSortedAndValid_def RangeEnd_def u64_max_def valid_extent_iff)

lemma RollbackAddFreeExtent_replaced:
  assumes "valid u" and "erase_begin u = length before"
  shows "RollbackAddFreeExtent (before @ x # after) u =
    (IsSortedAndValid (before @ erased_extents u @ after), before @ erased_extents u @ after)"
  using assms by (simp add: RollbackAddFreeExtent_def Let_def)

text \<open>
  Rolling an insertion back with its undo record restores the free list exactly, and
  the rollback reports success.
\<close>

lemma RollbackAddFreeExtent_inverse:
  assumes "IsSortedAndValid fs" and "AddFreeExtent fs e undo = (True, fs', undo')"
  shows "RollbackAddFreeExtent fs' undo' = (True, fs)"
proof -
  have ve: "valid_extent e"
    using assms(2) AddFreeExtent_rejects by (metis Pair_inject)
  obtain eb ee ms me where a: "AddFreeExtent fs e undo =
           (True, take eb fs @ mk_extent ms (me - ms) # drop ee fs,
            \<lparr>valid = True, erase_begin = eb, erased_count = ee - eb,
             erased_extents = take (ee - eb) (drop eb fs),
             inserted_without_erasing = (eb = ee)\<rparr>)"
    and le: "eb \<le> ee" "ee \<le> length fs"
    using AddFreeExtent_canonical [OF assms(1) ve, of undo] by blast
  have "take eb fs @ take (ee - eb) (drop eb fs) @ drop ee fs = fs"
    using take_drop_split [OF le(1), of fs] by simp
  then show ?thesis
    using a assms le RollbackAddFreeExtent_replaced [of undo' "take eb fs" "mk_extent ms (me - ms)" "drop ee fs"]
    by simp
qed

lemma RollbackAddFreeExtent_inverse_witness:
  "RollbackAddFreeExtent [mk_extent 4096 16384]
     \<lparr>valid = True, erase_begin = 0, erased_count = 2,
      erased_extents = [mk_extent 4096 4096, mk_extent 16384 4096],
      inserted_without_erasing = False\<rparr> = (True, [mk_extent 4096 4096, mk_extent 16384 4096])"
  by (rule RollbackAddFreeExtent_inverse
        [where e = "mk_extent 8192 8192" and
           undo = "\<lparr>valid = False, erase_begin = 0, erased_count = 0, erased_extents = [],
                    inserted_without_erasing = False\<rparr>"])
     (simp_all add: IsSortedAndValid_def RangeEnd_def u64_max_def AddFreeExtent_def lower_bound_def
        merge_forward.simps numeral_2_eq_2)

section \<open>Removal\<close>

lemma remove_one_range:
  fixes f fe a z :: nat
  assumes "f < fe" and "a < z"
  shows "{f..<fe} - {a..<z} =
         (if fe \<le> a \<or> z \<le> f then {f..<fe}
          else (if f < a then {f..<a} else {}) \<union> (if z < fe then {z..<fe} else {}))"
  using assms by auto

text \<open>
  Every piece a removal leaves lies within the extent it came from, which keeps the gaps of
  the list: \<open>within f x\<close> is that relation.
\<close>

definition within :: "Extent \<Rightarrow> Extent \<Rightarrow> bool" where
  "within f x \<longleftrightarrow> physical_address f \<le> physical_address x \<and>
     physical_address x + bytes x \<le> physical_address f + bytes f"

lemma within_gap: "within f x \<Longrightarrow> within g y \<Longrightarrow> gap f g \<Longrightarrow> gap x y"
  by (simp add: within_def gap_def)

lemma within_refl [simp]: "within f f"
  by (simp add: within_def)

lemma RemoveAllocatedExtent_loop_correct:
  assumes "IsSortedAndValid fs" and "0 < a" and "a < z" and "z \<le> u64_max"
  shows "\<exists>out. RemoveAllocatedExtent_loop a z fs = Some out \<and> IsSortedAndValid out \<and>
           space out = space fs - {a..<z} \<and> (\<forall>x \<in> set out. \<exists>f \<in> set fs. within f x)"
  using assms
proof (induction fs)
  case Nil
  then show ?case by simp
next
  case (Cons f fs)
  then have vf: "valid_extent f" and wf: "IsSortedAndValid fs" and gf: "\<forall>x \<in> set fs. gap f x"
    by (auto simp: IsSortedAndValid_Cons)
  obtain out where o: "RemoveAllocatedExtent_loop a z fs = Some out" "IsSortedAndValid out"
    "space out = space fs - {a..<z}" "\<forall>x \<in> set out. \<exists>f \<in> set fs. within f x"
    using Cons.IH [OF wf] Cons.prems by blast
  let ?fa = "physical_address f" let ?fe = "?fa + bytes f"
  note rf = valid_extent_RangeEnd [OF vf]
  have gout: "\<forall>x \<in> set out. gap f x"
    using o(4) gf within_gap [OF within_refl] by blast
  let ?pieces = "if ?fe \<le> a \<or> z \<le> ?fa then [f]
    else (if ?fa < a then [mk_extent ?fa (a - ?fa)] else []) @
         (if z < ?fe then [mk_extent z (?fe - z)] else [])"
  have res: "RemoveAllocatedExtent_loop a z (f # fs) = Some (?pieces @ out)"
    using rf o(1) by simp
  have sp: "space ?pieces = range_of f - {a..<z}"
    using remove_one_range [of ?fa ?fe a z] vf Cons.prems
    by (auto simp: range_of_def ivl_def valid_extent_iff)
  have wp: "\<forall>x \<in> set ?pieces. within f x" using Cons.prems by (auto simp: within_def)
  have cp: "IsSortedAndValid ?pieces"
    using vf valid_extent_end [OF vf] Cons.prems
    by (auto simp: IsSortedAndValid_Cons valid_extent_iff gap_def)
  have "gap x y" if "x \<in> set ?pieces" "y \<in> set out" for x y
    using wp gout that within_gap [OF _ within_refl] by blast
  then have "IsSortedAndValid (?pieces @ out)" using cp o(2) by (simp only: IsSortedAndValid_append) blast
  moreover have "space (?pieces @ out) = space (f # fs) - {a..<z}"
    unfolding space_append sp o(3) by auto
  ultimately show ?case
    using res wp o(4) by (intro exI [of _ "?pieces @ out"]) (auto simp del: append.simps)
qed

lemma RemoveAllocatedExtent_ok:
  assumes "IsSortedAndValid fs" and "valid_extent e"
  shows "\<exists>fs'. RemoveAllocatedExtent fs e = (True, fs') \<and> IsSortedAndValid fs' \<and>
           space fs' = space fs - range_of e"
proof -
  have "\<exists>out. RemoveAllocatedExtent_loop (physical_address e) (physical_address e + bytes e) fs = Some out
     \<and> IsSortedAndValid out \<and> space out = space fs - range_of e"
    using RemoveAllocatedExtent_loop_correct [OF assms(1), of "physical_address e"
        "physical_address e + bytes e"] assms(2) valid_extent_end [OF assms(2)]
    by (auto simp: valid_extent_iff range_of_def ivl_def)
  then show ?thesis
    using assms valid_extent_RangeEnd [OF assms(2)] by (auto simp: RemoveAllocatedExtent_def)
qed


lemma space_above:
  assumes "\<forall>x \<in> set es. gap r x" and "a \<in> space es"
  shows "physical_address r + bytes r < a"
  using assms by (fastforce simp: space_def range_of_def mem_ivl gap_def)

lemma skip_removals_correct:
  assumes "IsSortedAndValid rs"
  shows "\<exists>rs'. skip_removals p rs = Some rs' \<and> IsSortedAndValid rs' \<and>
           space rs' \<inter> {p..} = space rs \<inter> {p..}"
  using assms
proof (induction rs)
  case Nil
  then show ?case by simp
next
  case (Cons r rs)
  then have vr: "valid_extent r" and wr: "IsSortedAndValid rs" by (auto simp: IsSortedAndValid_Cons)
  note rr = valid_extent_RangeEnd [OF vr]
  show ?case
  proof (cases "physical_address r + bytes r > p")
    case True
    then show ?thesis using rr Cons.prems by simp
  next
    case False
    then have "range_of r \<inter> {p..} = {}" by (auto simp: range_of_def mem_ivl)
    then have "space (r # rs) \<inter> {p..} = space rs \<inter> {p..}" by auto
    then show ?thesis using Cons.IH [OF wr] False rr by auto
  qed
qed

text \<open>What one free extent contributes: the carved pieces and the rest after the last cut.\<close>

definition carved :: "nat \<Rightarrow> Extent list \<Rightarrow> nat \<Rightarrow> Extent list" where
  "carved fe pieces final =
     pieces @ (if final < fe then [mk_extent final (fe - final)] else [])"

lemma carve_free_extent_correct:
  assumes "IsSortedAndValid rs" and "0 < c" and "c \<le> fe" and "fe \<le> u64_max"
  shows "\<exists>pieces final. carve_free_extent fe c rs = Some (pieces, final) \<and>
     IsSortedAndValid (carved fe pieces final) \<and>
     space (carved fe pieces final) = {c..<fe} - space rs \<and>
     (\<forall>x \<in> set (carved fe pieces final).
        c \<le> physical_address x \<and> physical_address x + bytes x \<le> fe)"
  using assms
proof (induction rs arbitrary: c)
  case Nil
  then show ?case by (auto simp: carved_def IsSortedAndValid_Cons valid_extent_iff ivl_def)
next
  case (Cons r rs)
  then have vr: "valid_extent r" and wr: "IsSortedAndValid rs" and gr: "\<forall>x \<in> set rs. gap r x"
    by (auto simp: IsSortedAndValid_Cons)
  note rr = valid_extent_RangeEnd [OF vr]
  let ?ra = "physical_address r" let ?re = "?ra + bytes r"
  have ra_re: "?ra < ?re" using vr by (simp add: valid_extent_iff)
  have rs_above: "\<And>a. a \<in> space rs \<Longrightarrow> ?re < a" using space_above [OF gr] by blast
  let ?piece = "if ?ra > c then [mk_extent c (?ra - c)] else []"
  let ?c = "max c (min ?re fe)"
  consider (beyond) "?ra \<ge> fe" | (last) "?ra < fe" "?c \<ge> fe" | (more) "?ra < fe" "?c < fe"
    by linarith
  then show ?case
  proof cases
    case beyond
    then have "{c..<fe} - space (r # rs) = {c..<fe}"
      using rs_above ra_re by (fastforce simp: range_of_def mem_ivl)
    then show ?thesis
      using beyond rr Cons.prems
      by (auto simp: carved_def IsSortedAndValid_Cons valid_extent_iff ivl_def)
  next
    case last
    then have "{c..<fe} - space (r # rs) = {c..<?ra}"
      using rs_above Cons.prems(3) ra_re by (fastforce simp: range_of_def mem_ivl max_def min_def
          split: if_splits)
    then show ?thesis
      using last rr Cons.prems
      by (auto simp: carved_def IsSortedAndValid_Cons valid_extent_iff ivl_def)
  next
    case more
    have "0 < ?c" "?c \<le> fe" using Cons.prems more by auto
    then obtain pieces final where p: "carve_free_extent fe ?c rs = Some (pieces, final)"
      and o: "IsSortedAndValid (carved fe pieces final)"
        "space (carved fe pieces final) = {?c..<fe} - space rs"
        "\<forall>x \<in> set (carved fe pieces final).
           ?c \<le> physical_address x \<and> physical_address x + bytes x \<le> fe"
      using Cons.IH [OF wr _ _ Cons.prems(4)] by blast
    let ?out = "carved fe pieces final"
    have re_lt: "?re < fe" using more by (auto simp: max_def min_def split: if_splits)
    have res: "carve_free_extent fe c (r # rs) = Some (?piece @ pieces, final)"
    proof -
      have "\<not> fe \<le> ?ra" "\<not> fe \<le> ?c" using more by linarith+
      then show ?thesis
        by (simp only: carve_free_extent.simps rr option.case Let_def p if_False prod.case)
    qed
    have "IsSortedAndValid (?piece @ ?out)"
      using o(1,3) Cons.prems more ra_re re_lt
      by (auto simp: IsSortedAndValid_append IsSortedAndValid_Cons valid_extent_iff gap_def
          max_def min_def split: if_splits)
    moreover have "space (?piece @ ?out) = {c..<fe} - space (r # rs)"
    proof -
      have "{c..<fe} - space (r # rs) = {c..<?ra} \<union> ({?c..<fe} - space rs)"
        using ra_re re_lt by (auto simp: range_of_def mem_ivl dest: rs_above)
      then show ?thesis by (simp add: o(2) ivl_def)
    qed
    moreover have "\<forall>x \<in> set (?piece @ ?out). c \<le> physical_address x \<and> physical_address x + bytes x \<le> fe"
      using o(3) more by auto
    ultimately show ?thesis
      using res by (intro exI [of _ "?piece @ pieces"] exI [of _ final]) (simp add: carved_def)
  qed
qed

lemma RemoveAllocatedExtents_loop_correct:
  assumes "IsSortedAndValid rs" and "IsSortedAndValid fs"
  shows "\<exists>out. RemoveAllocatedExtents_loop rs fs = Some out \<and> IsSortedAndValid out \<and>
           space out = space fs - space rs \<and> (\<forall>x \<in> set out. \<exists>f \<in> set fs. within f x)"
  using assms
proof (induction fs arbitrary: rs)
  case Nil
  then show ?case by simp
next
  case (Cons f fs)
  then have vf: "valid_extent f" and wf: "IsSortedAndValid fs" and gf: "\<forall>x \<in> set fs. gap f x"
    by (auto simp: IsSortedAndValid_Cons)
  let ?fa = "physical_address f" let ?fe = "?fa + bytes f"
  note rf = valid_extent_RangeEnd [OF vf]
  obtain rs' where k: "skip_removals ?fa rs = Some rs'" "IsSortedAndValid rs'"
    and ks: "space rs' \<inter> {?fa..} = space rs \<inter> {?fa..}"
    using skip_removals_correct [OF Cons.prems(1)] by blast
  obtain pieces final where p: "carve_free_extent ?fe ?fa rs' = Some (pieces, final)"
    and c: "IsSortedAndValid (carved ?fe pieces final)"
      "space (carved ?fe pieces final) = {?fa..<?fe} - space rs'"
      "\<forall>x \<in> set (carved ?fe pieces final).
         ?fa \<le> physical_address x \<and> physical_address x + bytes x \<le> ?fe"
    using carve_free_extent_correct [OF k(2), of ?fa ?fe] vf valid_extent_end [OF vf]
    by (auto simp: valid_extent_iff)
  let ?own = "carved ?fe pieces final"
  obtain out where o: "RemoveAllocatedExtents_loop rs' fs = Some out" "IsSortedAndValid out"
    "space out = space fs - space rs'" "\<forall>x \<in> set out. \<exists>f \<in> set fs. within f x"
    using Cons.IH [OF k(2) wf] by blast
  have res: "RemoveAllocatedExtents_loop rs (f # fs) = Some (?own @ out)"
    using rf k(1) p o(1) by (simp add: carved_def)
  have wo: "\<forall>x \<in> set ?own. within f x" using c(3) by (simp add: within_def)
  have "gap x y" if "x \<in> set ?own" "y \<in> set out" for x y
    using that wo o(4) gf within_gap by blast
  then have "IsSortedAndValid (?own @ out)" using c(1) o(2) by (simp add: IsSortedAndValid_append)
  moreover have "space (?own @ out) = space (f # fs) - space rs"
  proof -
    have "space fs \<subseteq> {?fa..}" using space_above [OF gf] by fastforce
    then have "space fs - space rs' = space fs - space rs" using ks by blast
    moreover have "{?fa..<?fe} - space rs' = range_of f - space rs"
    proof -
      have "range_of f \<subseteq> {?fa..}" "range_of f = {?fa..<?fe}" by (auto simp: range_of_def ivl_def)
      then show ?thesis using ks by blast
    qed
    ultimately show ?thesis using c(2) o(3) by auto
  qed
  moreover have "\<forall>x \<in> set (?own @ out). \<exists>g \<in> set (f # fs). within g x" using wo o(4) by auto
  ultimately show ?case using res by blast
qed

lemma RemoveAllocatedExtents_ok:
  assumes "IsSortedAndValid fs" and "normalizable es"
  shows "\<exists>fs'. RemoveAllocatedExtents fs es = (True, fs') \<and> IsSortedAndValid fs' \<and>
           space fs' = space fs - space (filter counted es)"
proof (cases "fs = [] \<or> es = []")
  case True
  then show ?thesis using assms by (auto simp: RemoveAllocatedExtents_def)
next
  case False
  obtain rs where r: "Normalize es = (True, rs)" "IsSortedAndValid rs"
    "space rs = space (filter counted es)" using Normalize_ok [OF assms(2)] by blast
  obtain out where "RemoveAllocatedExtents_loop rs fs = Some out" "IsSortedAndValid out"
    "space out = space fs - space rs" using RemoveAllocatedExtents_loop_correct [OF r(2) assms(1)] by blast
  then show ?thesis
    using False r assms by (cases "rs = []") (auto simp: RemoveAllocatedExtents_def)
qed

text \<open>The reference for the batch: remove the extents one after the other.\<close>

fun RemoveOneByOne :: "Extent list \<Rightarrow> Extent list \<Rightarrow> bool \<times> Extent list" where
  "RemoveOneByOne fs [] = (True, fs)"
| "RemoveOneByOne fs (e # es) =
     (case RemoveAllocatedExtent fs e of
        (False, fs') \<Rightarrow> (False, fs')
      | (True, fs') \<Rightarrow> RemoveOneByOne fs' es)"

lemma RemoveOneByOne_ok:
  assumes "IsSortedAndValid fs" and "\<forall>e \<in> set es. valid_extent e"
  shows "\<exists>fs'. RemoveOneByOne fs es = (True, fs') \<and> IsSortedAndValid fs' \<and>
           space fs' = space fs - space es"
  using assms
proof (induction es arbitrary: fs)
  case Nil
  then show ?case by simp
next
  case (Cons e es)
  obtain fs1 where 1: "RemoveAllocatedExtent fs e = (True, fs1)" "IsSortedAndValid fs1"
    "space fs1 = space fs - range_of e" using RemoveAllocatedExtent_ok Cons.prems by fastforce
  obtain fs2 where 2: "RemoveOneByOne fs1 es = (True, fs2)" "IsSortedAndValid fs2"
    "space fs2 = space fs1 - space es" using Cons.IH [OF 1(2)] Cons.prems by auto
  have "space fs2 = space fs - space (e # es)" using 1(3) 2(3) by auto
  then show ?case using 1 2 by simp
qed

text \<open>
  The batch removal, which walks the free list and the sorted removals once, computes
  exactly what removing the extents one by one computes, in any order they are given and
  whether or not they overlap: the canonical free list of the remaining addresses.
\<close>

theorem RemoveAllocatedExtents_eq_one_by_one:
  assumes "IsSortedAndValid fs" and "\<forall>e \<in> set es. valid_extent e"
  shows "RemoveAllocatedExtents fs es = RemoveOneByOne fs es \<and>
         fst (RemoveAllocatedExtents fs es) \<and>
         IsSortedAndValid (snd (RemoveAllocatedExtents fs es)) \<and>
         space (snd (RemoveAllocatedExtents fs es)) = space fs - space es"
proof -
  have n: "normalizable es" and f: "filter counted es = es"
    using assms(2) by (auto simp: normalizable_def valid_extent_counted)
  obtain a where a: "RemoveAllocatedExtents fs es = (True, a)" "IsSortedAndValid a"
    "space a = space fs - space es" using RemoveAllocatedExtents_ok [OF assms(1) n] f by auto
  obtain b where b: "RemoveOneByOne fs es = (True, b)" "IsSortedAndValid b"
    "space b = space fs - space es" using RemoveOneByOne_ok [OF assms] by blast
  have "a = b" using canonical_unique a b by metis
  then show ?thesis using a b by simp
qed

theorem RemoveAllocatedExtents_eq_one_by_one_witness:
  "RemoveAllocatedExtents [mk_extent 4096 16384] [mk_extent 12288 4096, mk_extent 8192 4096]
     = RemoveOneByOne [mk_extent 4096 16384] [mk_extent 12288 4096, mk_extent 8192 4096] \<and>
   fst (RemoveAllocatedExtents [mk_extent 4096 16384] [mk_extent 12288 4096, mk_extent 8192 4096]) \<and>
   IsSortedAndValid (snd (RemoveAllocatedExtents [mk_extent 4096 16384]
     [mk_extent 12288 4096, mk_extent 8192 4096])) \<and>
   space (snd (RemoveAllocatedExtents [mk_extent 4096 16384]
     [mk_extent 12288 4096, mk_extent 8192 4096]))
   = space [mk_extent 4096 16384] - space [mk_extent 12288 4096, mk_extent 8192 4096]"
  by (rule RemoveAllocatedExtents_eq_one_by_one)
     (simp_all add: IsSortedAndValid_def RangeEnd_def u64_max_def valid_extent_iff)


section \<open>The free-space interface\<close>

text \<open>
  What the users of the free list rely on: extents are given back and taken away, the
  address set follows, and the representation of an address set is unique.
\<close>

datatype FreeOp = GiveBack Extent | TakeAway Extent

fun run_free_ops ::
  "('s \<Rightarrow> Extent \<Rightarrow> 's option) \<Rightarrow> ('s \<Rightarrow> Extent \<Rightarrow> 's option) \<Rightarrow> 's \<Rightarrow> FreeOp list \<Rightarrow> 's option" where
  "run_free_ops give taken s [] = Some s"
| "run_free_ops give taken s (GiveBack e # ops) =
     (case give s e of None \<Rightarrow> None | Some s' \<Rightarrow> run_free_ops give taken s' ops)"
| "run_free_ops give taken s (TakeAway e # ops) =
     (case taken s e of None \<Rightarrow> None | Some s' \<Rightarrow> run_free_ops give taken s' ops)"

fun free_ops_set :: "nat set \<Rightarrow> FreeOp list \<Rightarrow> nat set" where
  "free_ops_set A [] = A"
| "free_ops_set A (GiveBack e # ops) = free_ops_set (A \<union> range_of e) ops"
| "free_ops_set A (TakeAway e # ops) = free_ops_set (A - range_of e) ops"

fun op_extent :: "FreeOp \<Rightarrow> Extent" where
  "op_extent (GiveBack e) = e"
| "op_extent (TakeAway e) = e"

locale free_space_store =
  fixes invar :: "'s \<Rightarrow> bool"
    and addresses :: "'s \<Rightarrow> nat set"
    and give :: "'s \<Rightarrow> Extent \<Rightarrow> 's option"
    and take_away :: "'s \<Rightarrow> Extent \<Rightarrow> 's option"
  assumes give_law: "invar s \<Longrightarrow> valid_extent e \<Longrightarrow>
      \<exists>s'. give s e = Some s' \<and> invar s' \<and> addresses s' = addresses s \<union> range_of e"
    and take_law: "invar s \<Longrightarrow> valid_extent e \<Longrightarrow>
      \<exists>s'. take_away s e = Some s' \<and> invar s' \<and> addresses s' = addresses s - range_of e"
    and unique: "invar s \<Longrightarrow> invar t \<Longrightarrow> addresses s = addresses t \<Longrightarrow> s = t"
begin

lemma run_refines:
  assumes "invar s" and "\<forall>op \<in> set ops. valid_extent (op_extent op)"
  shows "\<exists>s'. run_free_ops give take_away s ops = Some s' \<and> invar s' \<and>
              addresses s' = free_ops_set (addresses s) ops"
  using assms
proof (induction ops arbitrary: s)
  case Nil
  then show ?case by simp
next
  case (Cons op ops)
  show ?case
  proof (cases op)
    case (GiveBack e)
    then obtain s1 where "give s e = Some s1" "invar s1" "addresses s1 = addresses s \<union> range_of e"
      using give_law [of s e] Cons.prems by auto
    then show ?thesis using Cons.IH [of s1] Cons.prems GiveBack by auto
  next
    case (TakeAway e)
    then obtain s1 where "take_away s e = Some s1" "invar s1" "addresses s1 = addresses s - range_of e"
      using take_law [of s e] Cons.prems by auto
    then show ?thesis using Cons.IH [of s1] Cons.prems TakeAway by auto
  qed
qed

lemma runs_agree:
  assumes "invar s" and "\<forall>op \<in> set ops. valid_extent (op_extent op)"
    and "\<forall>op \<in> set ops'. valid_extent (op_extent op)"
    and "free_ops_set (addresses s) ops = free_ops_set (addresses s) ops'"
  shows "run_free_ops give take_away s ops = run_free_ops give take_away s ops'"
  using run_refines [OF assms(1,2)] run_refines [OF assms(1,3)] assms(4) unique by metis

end

definition give_extent :: "Extent list \<Rightarrow> Extent \<Rightarrow> Extent list option" where
  "give_extent fs e =
     (case AddFreeExtent fs e \<lparr>valid = False, erase_begin = 0, erased_count = 0,
        erased_extents = [], inserted_without_erasing = False\<rparr> of
        (ok, fs', _) \<Rightarrow> if ok then Some fs' else None)"

definition take_extent :: "Extent list \<Rightarrow> Extent \<Rightarrow> Extent list option" where
  "take_extent fs e = (case RemoveAllocatedExtent fs e of (ok, fs') \<Rightarrow> if ok then Some fs' else None)"

interpretation free_list: free_space_store IsSortedAndValid space give_extent take_extent
proof
  show "\<exists>s'. give_extent s e = Some s' \<and> IsSortedAndValid s' \<and> space s' = space s \<union> range_of e"
    if s: "IsSortedAndValid s" and e: "valid_extent e" for s e
  proof -
    obtain fs' undo' where "AddFreeExtent s e \<lparr>valid = False, erase_begin = 0, erased_count = 0,
        erased_extents = [], inserted_without_erasing = False\<rparr> = (True, fs', undo')"
      "IsSortedAndValid fs'" "space fs' = space s \<union> range_of e"
      using AddFreeExtent_ok [OF s e] by blast
    then show ?thesis by (simp add: give_extent_def)
  qed
  show "\<exists>s'. take_extent s e = Some s' \<and> IsSortedAndValid s' \<and> space s' = space s - range_of e"
    if "IsSortedAndValid s" "valid_extent e" for s e
    using RemoveAllocatedExtent_ok [OF that] by (auto simp: take_extent_def)
  show "s = t" if "IsSortedAndValid s" "IsSortedAndValid t" "space s = space t" for s t
    using canonical_unique that by blast
qed

text \<open>
  C5. Any sequence of insertions and removals of valid extents on a canonical free list
  succeeds and refines the same sequence of set operations on addresses; two sequences with
  the same effect on the address set leave the very same list behind.
\<close>

theorem free_list_refines_address_sets:
  assumes "IsSortedAndValid fs" and "\<forall>op \<in> set ops. valid_extent (op_extent op)"
  shows "\<exists>fs'. run_free_ops give_extent take_extent fs ops = Some fs' \<and> IsSortedAndValid fs' \<and>
           space fs' = free_ops_set (space fs) ops \<and>
           (\<forall>ops'. (\<forall>op \<in> set ops'. valid_extent (op_extent op)) \<and>
                   free_ops_set (space fs) ops' = free_ops_set (space fs) ops \<longrightarrow>
                   run_free_ops give_extent take_extent fs ops' = Some fs')"
  using free_list.run_refines [OF assms] free_list.runs_agree [OF assms] by metis

theorem free_list_refines_address_sets_witness:
  "\<exists>fs'. run_free_ops give_extent take_extent [mk_extent 4096 4096]
       [GiveBack (mk_extent 8192 4096), TakeAway (mk_extent 4096 4096)] = Some fs' \<and>
     IsSortedAndValid fs' \<and>
     space fs' = free_ops_set (space [mk_extent 4096 4096])
       [GiveBack (mk_extent 8192 4096), TakeAway (mk_extent 4096 4096)] \<and>
     (\<forall>ops'. (\<forall>op \<in> set ops'. valid_extent (op_extent op)) \<and>
        free_ops_set (space [mk_extent 4096 4096]) ops' =
          free_ops_set (space [mk_extent 4096 4096])
            [GiveBack (mk_extent 8192 4096), TakeAway (mk_extent 4096 4096)] \<longrightarrow>
        run_free_ops give_extent take_extent [mk_extent 4096 4096] ops' = Some fs')"
  by (rule free_list_refines_address_sets)
     (simp_all add: IsSortedAndValid_def RangeEnd_def u64_max_def valid_extent_iff)

end
