(* ===== verification/CheckpointDelta.thy ===== *)
theory CheckpointDelta
  imports BtreeMutationCodec ExtentAllocator
begin

text \<open>
  The checkpoint delta codec of \<^verbatim>\<open>src/CheckpointDelta.cpp\<close>: a delta carries the object
  map, space manager, inode, directory link and B-tree updates from one transaction to the
  next.  This theory holds the data, the size estimate, the encoder and the decoder of a
  delta and of a chain of deltas; the state the deltas are applied to is in
  \<^verbatim>\<open>CheckpointDeltaState\<close>.

  A \<^verbatim>\<open>std::string\<close> is a \<^typ>\<open>string\<close>, a \<^verbatim>\<open>std::size_t\<close> a \<^typ>\<open>nat\<close> up to
  \<^const>\<open>u64_max\<close>.  An encoder returns the empty vector on failure, as the source does.
\<close>

section \<open>Data\<close>

record CheckpointDeltaObjectMapUpdate =
  ou_object_id :: nat
  ou_physical_address :: nat
  ou_logical_size :: nat
  ou_xid :: nat
  ou_tombstone :: bool

record CheckpointDeltaInodeUpdate =
  iu_object_id :: nat
  iu_parent_object_id :: nat
  iu_name :: "wchar list"
  iu_full_path :: "wchar list"
  iu_is_directory :: bool
  iu_logical_size :: nat
  iu_data_physical_address :: nat
  iu_xid :: nat
  iu_timestamp_utc :: nat
  iu_tombstone :: bool

record CheckpointDeltaDirectoryLinkUpdate =
  lu_parent_object_id :: nat
  lu_entry_name :: "wchar list"
  lu_child_object_id :: nat
  lu_xid :: nat
  lu_tombstone :: bool

record CheckpointDelta =
  volume_identity :: string
  base_xid :: nat
  target_xid :: nat
  object_map_updates :: "CheckpointDeltaObjectMapUpdate list"
  spaceman_allocations :: "Extent list"
  spaceman_deallocations :: "Extent list"
  inode_updates :: "CheckpointDeltaInodeUpdate list"
  directory_link_updates :: "CheckpointDeltaDirectoryLinkUpdate list"
  btree_records :: "BtreeRecord list"

datatype CheckpointDeltaParseStatus =
    Ok | Empty | UnsupportedVersion | InvalidHeader | InvalidChecksum | WrongVolume | InvalidXid
  | Truncated | InvalidRecord

definition kMagic :: nat where "kMagic = 0x44465041"
definition kChainMagic :: nat where "kChainMagic = 0x43465041"
definition kVersion :: nat where "kVersion = 1"
definition kHeaderBytes :: nat where "kHeaderBytes = 40"
definition kChainHeaderBytes :: nat where "kChainHeaderBytes = 44"
definition kSectionHeaderBytes :: nat where "kSectionHeaderBytes = 9"

datatype SectionKind =
    ObjectMap | SpacemanAllocation | SpacemanDeallocation | Inode | DirectoryLink | Btree

fun section_value :: "SectionKind \<Rightarrow> nat" where
  "section_value ObjectMap = 1"
| "section_value SpacemanAllocation = 2"
| "section_value SpacemanDeallocation = 3"
| "section_value Inode = 4"
| "section_value DirectoryLink = 5"
| "section_value Btree = 6"

definition section_of :: "nat \<Rightarrow> SectionKind option" where
  "section_of v =
     (if v = 1 then Some ObjectMap else if v = 2 then Some SpacemanAllocation
      else if v = 3 then Some SpacemanDeallocation else if v = 4 then Some Inode
      else if v = 5 then Some DirectoryLink else if v = 6 then Some Btree else None)"

section \<open>Checksum and volume hash\<close>

text \<open>
  The checksum skips the four bytes at offset 12, where it is stored.  Both callers hold at
  least a header of bytes, so the first twelve are there.
\<close>

definition ComputeChecksum :: "byte list \<Rightarrow> nat" where
  "ComputeChecksum bs =
     (if bs = [] then unat fnv_seed
      else
        let hash = UpdateFnv1a fnv_seed (take 12 bs) in
        unat (if length bs > 16 then UpdateFnv1a hash (drop 16 bs) else hash))"

fun hash_chars :: "64 word \<Rightarrow> string \<Rightarrow> 64 word" where
  "hash_chars hash [] = hash"
| "hash_chars hash (ch # cs) =
     hash_chars ((hash XOR word_of_nat (of_char ch)) * 1099511628211) cs"

definition HashVolumeIdentity :: "string \<Rightarrow> nat" where
  "HashVolumeIdentity value = unat (hash_chars 1469598103934665603 value)"

section \<open>Size estimate\<close>

definition CheckedAddSize :: "nat \<Rightarrow> nat \<Rightarrow> nat option" where
  "CheckedAddSize value addend = (if addend > u64_max - value then None else Some (value + addend))"

definition CheckedMultiplySize :: "nat \<Rightarrow> nat \<Rightarrow> nat option" where
  "CheckedMultiplySize lhs rhs =
     (if lhs \<noteq> 0 \<and> rhs > u64_max div lhs then None else Some (lhs * rhs))"

definition AddLengthPrefixedBytes :: "nat \<Rightarrow> nat \<Rightarrow> nat option" where
  "AddLengthPrefixedBytes value payload_bytes =
     (if payload_bytes > u32_max then None
      else do { v \<leftarrow> CheckedAddSize value 4; CheckedAddSize v payload_bytes })"

definition AddLengthPrefixedStringBytes :: "nat \<Rightarrow> wchar list \<Rightarrow> nat option" where
  "AddLengthPrefixedStringBytes value txt =
     do { payload_bytes \<leftarrow> Utf16ByteCount txt; AddLengthPrefixedBytes value payload_bytes }"

definition AddSectionBytes :: "nat \<Rightarrow> nat \<Rightarrow> nat \<Rightarrow> nat option" where
  "AddSectionBytes value count fixed_record_bytes =
     (if count > u32_max then None
      else do {
        payload_bytes \<leftarrow> CheckedMultiplySize count fixed_record_bytes;
        v \<leftarrow> CheckedAddSize value kSectionHeaderBytes;
        CheckedAddSize v payload_bytes })"

fun add_each :: "(nat \<Rightarrow> 'a \<Rightarrow> nat option) \<Rightarrow> nat \<Rightarrow> 'a list \<Rightarrow> nat option" where
  "add_each f value [] = Some value"
| "add_each f value (x # xs) = do { v \<leftarrow> f value x; add_each f v xs }"

definition add_inode_bytes :: "nat \<Rightarrow> CheckpointDeltaInodeUpdate \<Rightarrow> nat option" where
  "add_inode_bytes value inode =
     do {
       v \<leftarrow> CheckedAddSize value 16;
       v \<leftarrow> AddLengthPrefixedStringBytes v (iu_name inode);
       v \<leftarrow> AddLengthPrefixedStringBytes v (iu_full_path inode);
       CheckedAddSize v 34 }"

definition add_link_bytes :: "nat \<Rightarrow> CheckpointDeltaDirectoryLinkUpdate \<Rightarrow> nat option" where
  "add_link_bytes value link =
     do {
       v \<leftarrow> CheckedAddSize value 8;
       v \<leftarrow> AddLengthPrefixedStringBytes v (lu_entry_name link);
       CheckedAddSize v 17 }"

definition add_btree_bytes :: "nat \<Rightarrow> BtreeRecord \<Rightarrow> nat option" where
  "add_btree_bytes value r =
     do {
       v \<leftarrow> CheckedAddSize value 2;
       v \<leftarrow> AddLengthPrefixedBytes v (length (record_key r));
       AddLengthPrefixedBytes v (length (record_value r)) }"

definition add_records ::
  "(nat \<Rightarrow> 'a \<Rightarrow> nat option) \<Rightarrow> nat \<Rightarrow> 'a list \<Rightarrow> nat option" where
  "add_records f value xs =
     (if length xs > u32_max then None
      else do { v \<leftarrow> CheckedAddSize value kSectionHeaderBytes; add_each f v xs })"

definition EstimateEncodedDeltaBytes :: "CheckpointDelta \<Rightarrow> nat option" where
  "EstimateEncodedDeltaBytes delta =
     do {
       v \<leftarrow> AddSectionBytes kHeaderBytes (length (object_map_updates delta)) 33;
       v \<leftarrow> AddSectionBytes v (length (spaceman_allocations delta)) 16;
       v \<leftarrow> AddSectionBytes v (length (spaceman_deallocations delta)) 16;
       v \<leftarrow> add_records add_inode_bytes v (inode_updates delta);
       v \<leftarrow> add_records add_link_bytes v (directory_link_updates delta);
       add_records add_btree_bytes v (btree_records delta) }"

section \<open>Encoder\<close>

definition flag :: "bool \<Rightarrow> nat" where
  "flag b = (if b then 1 else 0)"

definition append_object_map :: "CheckpointDeltaObjectMapUpdate \<Rightarrow> byte list \<Rightarrow> byte list" where
  "append_object_map u out =
     AppendU8 (AppendU64 (AppendU64 (AppendU64 (AppendU64 out (ou_object_id u))
       (ou_physical_address u)) (ou_logical_size u)) (ou_xid u)) (flag (ou_tombstone u))"

definition append_extent :: "Extent \<Rightarrow> byte list \<Rightarrow> byte list" where
  "append_extent e out = AppendU64 (AppendU64 out (physical_address e)) (bytes e)"

definition append_inode :: "CheckpointDeltaInodeUpdate \<Rightarrow> byte list \<Rightarrow> byte list" where
  "append_inode u out =
     (let out = AppendU64 (AppendU64 out (iu_object_id u)) (iu_parent_object_id u);
          out = AppendString (AppendString out (iu_name u)) (iu_full_path u);
          out = AppendU8 out (flag (iu_is_directory u));
          out = AppendU64 (AppendU64 out (iu_logical_size u)) (iu_data_physical_address u);
          out = AppendU64 (AppendU64 out (iu_xid u)) (iu_timestamp_utc u)
      in AppendU8 out (flag (iu_tombstone u)))"

definition append_link :: "CheckpointDeltaDirectoryLinkUpdate \<Rightarrow> byte list \<Rightarrow> byte list" where
  "append_link u out =
     AppendU8 (AppendU64 (AppendU64 (AppendString (AppendU64 out (lu_parent_object_id u))
       (lu_entry_name u)) (lu_child_object_id u)) (lu_xid u)) (flag (lu_tombstone u))"

definition append_btree :: "BtreeRecord \<Rightarrow> byte list \<Rightarrow> byte list" where
  "append_btree r out =
     AppendBytes (AppendBytes (AppendU8 (AppendU8 out (kind_value (record_kind r)))
       (flag (record_tombstone r))) (record_key r)) (record_value r)"

definition BeginSection :: "byte list \<Rightarrow> SectionKind \<Rightarrow> nat \<Rightarrow> byte list \<times> nat" where
  "BeginSection out kind count =
     (let out = AppendU32 (AppendU8 out (section_value kind)) count
      in (AppendU32 out 0, length out))"

definition EndSection :: "byte list \<Rightarrow> nat \<Rightarrow> byte list" where
  "EndSection out size_offset =
     (let payload_size = length out - (size_offset + 4) in PatchU32 out size_offset payload_size)"

text \<open>\<^verbatim>\<open>write_section\<close> with the loop of its \<^verbatim>\<open>writer\<close> over the records.\<close>

definition write_section ::
  "SectionKind \<Rightarrow> ('a \<Rightarrow> byte list \<Rightarrow> byte list) \<Rightarrow> 'a list \<Rightarrow> byte list \<Rightarrow> byte list option" where
  "write_section kind append_record xs out =
     (if length xs > u32_max then None
      else
        let (out, size_offset) = BeginSection out kind (length xs)
        in Some (EndSection (fold append_record xs out) size_offset))"

definition append_header ::
  "nat \<Rightarrow> nat \<Rightarrow> string \<Rightarrow> nat \<Rightarrow> nat \<Rightarrow> byte list" where
  "append_header magic header_bytes identity base target =
     (let out = AppendU16 (AppendU16 (AppendU32 [] magic) kVersion) 0;
          out = AppendU32 (AppendU32 out header_bytes) 0
      in AppendU64 (AppendU64 (AppendU64 out (HashVolumeIdentity identity)) base) target)"

definition encode_sections :: "CheckpointDelta \<Rightarrow> byte list option" where
  "encode_sections delta =
     do {
       out \<leftarrow> Some (append_header kMagic kHeaderBytes (volume_identity delta) (base_xid delta)
               (target_xid delta));
       out \<leftarrow> write_section ObjectMap append_object_map (object_map_updates delta) out;
       out \<leftarrow> write_section SpacemanAllocation append_extent (spaceman_allocations delta) out;
       out \<leftarrow> write_section SpacemanDeallocation append_extent (spaceman_deallocations delta) out;
       out \<leftarrow> write_section Inode append_inode (inode_updates delta) out;
       out \<leftarrow> write_section DirectoryLink append_link (directory_link_updates delta) out;
       write_section Btree append_btree (btree_records delta) out }"

definition Encode :: "CheckpointDelta \<Rightarrow> byte list" where
  "Encode delta =
     (case EstimateEncodedDeltaBytes delta of
        None \<Rightarrow> []
      | Some estimated_bytes \<Rightarrow>
          (case encode_sections delta of
             None \<Rightarrow> []
           | Some out \<Rightarrow>
               if length out \<noteq> estimated_bytes then []
               else PatchU32 out 12 (ComputeChecksum out)))"

section \<open>Decoder\<close>

definition IsValidXidRange :: "nat \<Rightarrow> nat \<Rightarrow> bool" where
  "IsValidXidRange base target \<longleftrightarrow>
     base \<noteq> 0 \<and> target \<noteq> 0 \<and> target > base \<and> target = add64 base 1"

definition read_object_map ::
  "nat \<Rightarrow> byte list \<Rightarrow> (CheckpointDeltaObjectMapUpdate \<times> byte list) option" where
  "read_object_map target r =
     do {
       (object_id, r) \<leftarrow> ReadU64 r;
       (pa, r) \<leftarrow> ReadU64 r;
       (logical_size, r) \<leftarrow> ReadU64 r;
       (xid, r) \<leftarrow> ReadU64 r;
       (tombstone, r) \<leftarrow> ReadU8 r;
       (if object_id = 0 \<or> xid \<noteq> target \<or> tombstone > 1 then None
        else Some (\<lparr>ou_object_id = object_id, ou_physical_address = pa,
                    ou_logical_size = logical_size, ou_xid = xid,
                    ou_tombstone = (tombstone \<noteq> 0)\<rparr>, r)) }"

definition read_extent :: "byte list \<Rightarrow> (Extent \<times> byte list) option" where
  "read_extent r =
     do {
       (pa, r) \<leftarrow> ReadU64 r;
       (n, r) \<leftarrow> ReadU64 r;
       (if pa = 0 \<or> n = 0 then None else Some (mk_extent pa n, r)) }"

definition read_inode ::
  "nat \<Rightarrow> byte list \<Rightarrow> (CheckpointDeltaInodeUpdate \<times> byte list) option" where
  "read_inode target r =
     do {
       (object_id, r) \<leftarrow> ReadU64 r;
       (parent, r) \<leftarrow> ReadU64 r;
       (name, r) \<leftarrow> ReadString r;
       (full_path, r) \<leftarrow> ReadString r;
       (is_directory, r) \<leftarrow> ReadU8 r;
       (logical_size, r) \<leftarrow> ReadU64 r;
       (data, r) \<leftarrow> ReadU64 r;
       (xid, r) \<leftarrow> ReadU64 r;
       (timestamp, r) \<leftarrow> ReadU64 r;
       (tombstone, r) \<leftarrow> ReadU8 r;
       (if object_id = 0 \<or> xid \<noteq> target \<or> is_directory > 1 \<or> tombstone > 1 then None
        else Some (\<lparr>iu_object_id = object_id, iu_parent_object_id = parent, iu_name = name,
                    iu_full_path = full_path, iu_is_directory = (is_directory \<noteq> 0),
                    iu_logical_size = logical_size, iu_data_physical_address = data,
                    iu_xid = xid, iu_timestamp_utc = timestamp,
                    iu_tombstone = (tombstone \<noteq> 0)\<rparr>, r)) }"

definition read_link ::
  "nat \<Rightarrow> byte list \<Rightarrow> (CheckpointDeltaDirectoryLinkUpdate \<times> byte list) option" where
  "read_link target r =
     do {
       (parent, r) \<leftarrow> ReadU64 r;
       (entry_name, r) \<leftarrow> ReadString r;
       (child, r) \<leftarrow> ReadU64 r;
       (xid, r) \<leftarrow> ReadU64 r;
       (tombstone, r) \<leftarrow> ReadU8 r;
       (if parent = 0 \<or> child = 0 \<or> xid \<noteq> target \<or> tombstone > 1 then None
        else Some (\<lparr>lu_parent_object_id = parent, lu_entry_name = entry_name,
                    lu_child_object_id = child, lu_xid = xid,
                    lu_tombstone = (tombstone \<noteq> 0)\<rparr>, r)) }"

definition kind_of :: "nat \<Rightarrow> BtreeRecordKind option" where
  "kind_of v =
     (if v < 1 \<or> v > 3 then None
      else Some (if v = 1 then InodeKind else if v = 2 then DirectoryEntryKind else FileExtentKind))"

definition read_btree :: "byte list \<Rightarrow> (BtreeRecord \<times> byte list) option" where
  "read_btree r =
     do {
       (kind, r) \<leftarrow> ReadU8 r;
       (tombstone, r) \<leftarrow> ReadU8 r;
       (key, r) \<leftarrow> ReadBytes r;
       (value, r) \<leftarrow> ReadBytes r;
       k \<leftarrow> kind_of kind;
       (if tombstone > 1 then None
        else Some (\<lparr>record_kind = k, record_tombstone = (tombstone \<noteq> 0),
                    record_key = key, record_value = value\<rparr>, r)) }"

text \<open>The \<^verbatim>\<open>switch\<close> of the decoder: one record of a section, pushed onto the delta.\<close>

definition read_record ::
  "nat \<Rightarrow> byte list \<Rightarrow> CheckpointDelta \<Rightarrow> (CheckpointDelta \<times> byte list) option" where
  "read_record section_kind r d =
     (case section_of section_kind of
        None \<Rightarrow> None
      | Some ObjectMap \<Rightarrow>
          do { (u, r) \<leftarrow> read_object_map (target_xid d) r;
               Some (d\<lparr>object_map_updates := object_map_updates d @ [u]\<rparr>, r) }
      | Some SpacemanAllocation \<Rightarrow>
          do { (e, r) \<leftarrow> read_extent r;
               Some (d\<lparr>spaceman_allocations := spaceman_allocations d @ [e]\<rparr>, r) }
      | Some SpacemanDeallocation \<Rightarrow>
          do { (e, r) \<leftarrow> read_extent r;
               Some (d\<lparr>spaceman_deallocations := spaceman_deallocations d @ [e]\<rparr>, r) }
      | Some Inode \<Rightarrow>
          do { (u, r) \<leftarrow> read_inode (target_xid d) r;
               Some (d\<lparr>inode_updates := inode_updates d @ [u]\<rparr>, r) }
      | Some DirectoryLink \<Rightarrow>
          do { (u, r) \<leftarrow> read_link (target_xid d) r;
               Some (d\<lparr>directory_link_updates := directory_link_updates d @ [u]\<rparr>, r) }
      | Some Btree \<Rightarrow>
          do { (b, r) \<leftarrow> read_btree r;
               Some (d\<lparr>btree_records := btree_records d @ [b]\<rparr>, r) })"

fun read_records ::
  "nat \<Rightarrow> nat \<Rightarrow> byte list \<Rightarrow> CheckpointDelta \<Rightarrow> (CheckpointDelta \<times> byte list) option" where
  "read_records section_kind 0 r d = Some (d, r)"
| "read_records section_kind (Suc count) r d =
     (case read_record section_kind r d of
        None \<Rightarrow> None
      | Some (d', r') \<Rightarrow> read_records section_kind count r' d')"

text \<open>
  The section loop.  The source compares \<^verbatim>\<open>reader.offset()\<close> with \<^verbatim>\<open>section_end\<close>;
  with the remaining bytes for the reader this is a comparison of their numbers.
\<close>

definition read_section ::
  "byte list \<Rightarrow> CheckpointDelta \<Rightarrow> CheckpointDeltaParseStatus + CheckpointDelta \<times> byte list" where
  "read_section r d =
     (case do { (kind, r) \<leftarrow> ReadU8 r; (count, r) \<leftarrow> ReadU32 r; (payload, r) \<leftarrow> ReadU32 r;
                Some (kind, count, payload, r) } of
        None \<Rightarrow> Inl Truncated
      | Some (kind, count, payload, r) \<Rightarrow>
          if length r < payload then Inl Truncated
          else case read_records kind count r d of
                 None \<Rightarrow> Inl InvalidRecord
               | Some (d', r') \<Rightarrow>
                   if length r' + payload \<noteq> length r then Inl InvalidRecord else Inr (d', r'))"

lemma read_section_consumes: "read_section r d = Inr (d', r') \<Longrightarrow> length r' < length r"
  by (auto simp: read_section_def bind_eq_Some_conv split: option.splits if_splits
      dest!: ReadU8_length ReadU32_length)

function read_sections ::
  "byte list \<Rightarrow> CheckpointDelta \<Rightarrow> CheckpointDeltaParseStatus + CheckpointDelta" where
  "read_sections r d =
     (if r = [] then Inr d
      else case read_section r d of
             Inl e \<Rightarrow> Inl e
           | Inr p \<Rightarrow> read_sections (snd p) (fst p))"
  by pat_completeness auto
termination
  by (relation "measure (\<lambda>(r, d). length r)") (auto simp: read_section_consumes)

declare read_sections.simps [simp del]

record DeltaHeader =
  h_magic :: nat
  h_version :: nat
  h_flags :: nat
  h_header_bytes :: nat
  h_checksum :: nat
  h_volume_hash :: nat
  h_base_xid :: nat
  h_target_xid :: nat

definition read_header :: "byte list \<Rightarrow> (DeltaHeader \<times> byte list) option" where
  "read_header r =
     do {
       (magic, r) \<leftarrow> ReadU32 r;
       (version, r) \<leftarrow> ReadU16 r;
       (flags, r) \<leftarrow> ReadU16 r;
       (header_bytes, r) \<leftarrow> ReadU32 r;
       (checksum, r) \<leftarrow> ReadU32 r;
       (volume_hash, r) \<leftarrow> ReadU64 r;
       (base, r) \<leftarrow> ReadU64 r;
       (target, r) \<leftarrow> ReadU64 r;
       Some (\<lparr>h_magic = magic, h_version = version, h_flags = flags, h_header_bytes = header_bytes,
              h_checksum = checksum, h_volume_hash = volume_hash, h_base_xid = base,
              h_target_xid = target\<rparr>, r) }"

definition Decode :: "byte list \<Rightarrow> string \<Rightarrow> CheckpointDeltaParseStatus \<times> CheckpointDelta option" where
  "Decode bs expected_volume_identity =
     (if bs = [] then (Empty, None)
      else if length bs < kHeaderBytes then (Truncated, None)
      else case read_header bs of
        None \<Rightarrow> (Truncated, None)
      | Some (h, r) \<Rightarrow>
          if h_magic h \<noteq> kMagic \<or> h_header_bytes h \<noteq> kHeaderBytes \<or> h_flags h \<noteq> 0
          then (InvalidHeader, None)
          else if h_version h \<noteq> kVersion then (UnsupportedVersion, None)
          else if h_checksum h \<noteq> ComputeChecksum bs then (InvalidChecksum, None)
          else if h_volume_hash h \<noteq> HashVolumeIdentity expected_volume_identity
          then (WrongVolume, None)
          else if \<not> IsValidXidRange (h_base_xid h) (h_target_xid h) then (InvalidXid, None)
          else case read_sections r
                 \<lparr>volume_identity = expected_volume_identity, base_xid = h_base_xid h,
                  target_xid = h_target_xid h, object_map_updates = [],
                  spaceman_allocations = [], spaceman_deallocations = [], inode_updates = [],
                  directory_link_updates = [], btree_records = []\<rparr> of
               Inl e \<Rightarrow> (e, None)
             | Inr delta \<Rightarrow> (Ok, Some delta))"

section \<open>Chains of deltas\<close>

text \<open>The first loop of \<^verbatim>\<open>EncodeChain\<close>: the deltas belong to the volume and follow each other.\<close>

fun chain_target :: "string \<Rightarrow> nat \<Rightarrow> CheckpointDelta list \<Rightarrow> nat option" where
  "chain_target identity target [] = Some target"
| "chain_target identity target (d # ds) =
     (if volume_identity d \<noteq> identity \<or> base_xid d \<noteq> target \<or>
         \<not> IsValidXidRange (base_xid d) (target_xid d)
      then None else chain_target identity (target_xid d) ds)"

definition add_delta_bytes :: "nat \<Rightarrow> CheckpointDelta \<Rightarrow> nat option" where
  "add_delta_bytes reserve_bytes d =
     do { delta_bytes \<leftarrow> EstimateEncodedDeltaBytes d;
          AddLengthPrefixedBytes reserve_bytes delta_bytes }"

fun append_deltas :: "CheckpointDelta list \<Rightarrow> byte list \<Rightarrow> byte list option" where
  "append_deltas [] out = Some out"
| "append_deltas (d # ds) out =
     (let encoded = Encode d in
      if encoded = [] then None
      else append_deltas ds (AppendU32 out (length encoded) @ encoded))"

definition EncodeChain :: "CheckpointDelta list \<Rightarrow> string \<Rightarrow> nat \<Rightarrow> byte list" where
  "EncodeChain deltas identity base =
     (case chain_target identity base deltas of
        None \<Rightarrow> []
      | Some target \<Rightarrow>
          (case add_each add_delta_bytes kChainHeaderBytes deltas of
             None \<Rightarrow> []
           | Some reserve_bytes \<Rightarrow>
               (case append_deltas deltas
                       (AppendU32 (append_header kChainMagic kChainHeaderBytes identity base target)
                          (length deltas)) of
                  None \<Rightarrow> []
                | Some out \<Rightarrow>
                    if length out \<noteq> reserve_bytes then []
                    else PatchU32 out 12 (ComputeChecksum out))))"

record CheckpointDeltaChainParseResult =
  chain_status :: CheckpointDeltaParseStatus
  chain_base_xid :: nat
  chain_target_xid :: nat
  chain_deltas :: "CheckpointDelta list"

text \<open>
  The record loop of \<^verbatim>\<open>DecodeChain\<close>: the deltas read so far, the transaction the last
  one leads to, and the bytes left, or the status of the failure.
\<close>

fun read_deltas ::
  "string \<Rightarrow> nat \<Rightarrow> nat \<Rightarrow> byte list \<Rightarrow> CheckpointDelta list \<Rightarrow>
   CheckpointDeltaParseStatus + CheckpointDelta list \<times> nat \<times> byte list" where
  "read_deltas identity 0 expected_delta_base r deltas = Inr (deltas, expected_delta_base, r)"
| "read_deltas identity (Suc count) expected_delta_base r deltas =
     (case ReadBytes r of
        None \<Rightarrow> Inl Truncated
      | Some (encoded_delta, r') \<Rightarrow>
          (case Decode encoded_delta identity of
             (status, None) \<Rightarrow> Inl status
           | (status, Some d) \<Rightarrow>
               if status \<noteq> Ok then Inl status
               else if base_xid d \<noteq> expected_delta_base then Inl InvalidXid
               else read_deltas identity count (target_xid d) r' (deltas @ [d])))"

definition chain_failed :: "CheckpointDeltaParseStatus \<Rightarrow> nat \<Rightarrow> nat \<Rightarrow> CheckpointDeltaChainParseResult" where
  "chain_failed status base target =
     \<lparr>chain_status = status, chain_base_xid = base, chain_target_xid = target, chain_deltas = []\<rparr>"

definition DecodeChain :: "byte list \<Rightarrow> string \<Rightarrow> nat \<Rightarrow> CheckpointDeltaChainParseResult" where
  "DecodeChain bs expected_volume_identity expected_base_xid =
     (if bs = [] then chain_failed Empty 0 0
      else if length bs < kChainHeaderBytes then chain_failed Truncated 0 0
      else case do { (h, r) \<leftarrow> read_header bs; (count, r) \<leftarrow> ReadU32 r; Some (h, count, r) } of
        None \<Rightarrow> chain_failed Truncated 0 0
      | Some (h, record_count, r) \<Rightarrow>
          if h_magic h \<noteq> kChainMagic \<or> h_header_bytes h \<noteq> kChainHeaderBytes \<or> h_flags h \<noteq> 0
          then chain_failed InvalidHeader 0 0
          else if h_version h \<noteq> kVersion then chain_failed UnsupportedVersion 0 0
          else if h_checksum h \<noteq> ComputeChecksum bs then chain_failed InvalidChecksum 0 0
          else if h_base_xid h = 0 \<or> h_base_xid h \<noteq> expected_base_xid
          then chain_failed InvalidXid 0 0
          else if expected_volume_identity = [] \<or>
                  h_volume_hash h \<noteq> HashVolumeIdentity expected_volume_identity
          then chain_failed WrongVolume 0 0
          else case read_deltas expected_volume_identity record_count (h_base_xid h) r [] of
            Inl status \<Rightarrow> chain_failed status (h_base_xid h) (h_target_xid h)
          | Inr (deltas, expected_delta_base, r') \<Rightarrow>
              if r' \<noteq> [] \<or> expected_delta_base \<noteq> h_target_xid h \<or>
                 (record_count = 0 \<and> h_target_xid h \<noteq> h_base_xid h)
              then chain_failed InvalidXid (h_base_xid h) (h_target_xid h)
              else \<lparr>chain_status = Ok, chain_base_xid = h_base_xid h,
                    chain_target_xid = h_target_xid h, chain_deltas = deltas\<rparr>)"

end
