(* ===== verification/CheckpointDeltaRoundTrip.thy ===== *)
theory CheckpointDeltaRoundTrip
  imports CheckpointDelta
begin

text \<open>
  Round trip of the checkpoint delta codec: what \<^verbatim>\<open>Encode\<close> and \<^verbatim>\<open>EncodeChain\<close>
  write, \<^verbatim>\<open>Decode\<close> and \<^verbatim>\<open>DecodeChain\<close> read back.
\<close>

section \<open>Encoded records\<close>

lemmas append_simps = AppendU8_def AppendU16_def AppendU32_def AppendU64_def AppendBytes_def
  AppendString_def

definition extends :: "('a \<Rightarrow> byte list \<Rightarrow> byte list) \<Rightarrow> bool" where
  "extends f \<longleftrightarrow> (\<forall>x out. f x out = out @ f x [])"

lemma extends_fold: "extends f \<Longrightarrow> fold f xs out = out @ concat (map (\<lambda>x. f x []) xs)"
proof (induction xs arbitrary: out)
  case Nil
  then show ?case by simp
next
  case (Cons x xs)
  have "fold f (x # xs) out = f x out @ concat (map (\<lambda>x. f x []) xs)" using Cons by simp
  moreover have "f x out = out @ f x []" using Cons.prems unfolding extends_def by blast
  ultimately show ?case by simp
qed

lemma extends_appends:
  "extends append_object_map" "extends append_extent" "extends append_inode"
  "extends append_link" "extends append_btree"
  by (simp_all add: extends_def append_object_map_def append_extent_def append_inode_def
      append_link_def append_btree_def append_simps)

definition section_bytes :: "SectionKind \<Rightarrow> ('a \<Rightarrow> byte list) \<Rightarrow> 'a list \<Rightarrow> byte list" where
  "section_bytes kind enc xs =
     (let payload = concat (map enc xs) in
      word_of_nat (section_value kind) # le_bytes 4 (length xs) @ le_bytes 4 (length payload) @ payload)"

lemma write_section_eq:
  assumes "extends f" and "length xs \<le> u32_max"
  shows "write_section kind f xs out = Some (out @ section_bytes kind (\<lambda>x. f x []) xs)"
  using assms(2) extends_fold [OF assms(1)]
  by (simp add: write_section_def BeginSection_def EndSection_def PatchU32_def section_bytes_def
      append_simps Let_def)

lemma length_section_bytes:
  "length (section_bytes kind enc xs) = kSectionHeaderBytes + sum_list (map (length \<circ> enc) xs)"
  by (simp add: section_bytes_def Let_def kSectionHeaderBytes_def length_concat comp_def)

section \<open>Interface of a section\<close>

text \<open>
  What the section loops need of a kind of records: reading back an encoded record pushes it
  onto the delta, and pushing another record does not change whether a record is readable.
\<close>

locale delta_section =
  fixes kind :: SectionKind
    and enc :: "'a \<Rightarrow> byte list"
    and ok :: "CheckpointDelta \<Rightarrow> 'a \<Rightarrow> bool"
    and push :: "'a \<Rightarrow> CheckpointDelta \<Rightarrow> CheckpointDelta"
  assumes read_enc: "ok d x \<Longrightarrow> read_record (section_value kind) (enc x @ rest) d = Some (push x d, rest)"
    and ok_push: "ok d x \<Longrightarrow> ok (push y d) x"
begin

lemma read_records_enc:
  "\<forall>x \<in> set xs. ok d x \<Longrightarrow>
   read_records (section_value kind) (length xs) (concat (map enc xs) @ rest) d = Some (fold push xs d, rest)"
proof (induction xs arbitrary: d)
  case Nil
  then show ?case by simp
next
  case (Cons x xs)
  have "\<forall>y \<in> set xs. ok (push x d) y" using Cons.prems ok_push by simp
  then show ?case using Cons read_enc [of d x "concat (map enc xs) @ rest"] by simp
qed

lemma read_section_enc:
  assumes "\<forall>x \<in> set xs. ok d x" and "length xs \<le> u32_max"
    and "sum_list (map (length \<circ> enc) xs) \<le> u32_max"
  shows "read_section (section_bytes kind enc xs @ rest) d = Inr (fold push xs d, rest)"
proof -
  have k: "ReadU8 (word_of_nat (section_value kind) # r) = Some (section_value kind, r)" for r
    by (rule ReadU8_byte) (cases kind; simp)
  show ?thesis
    using assms(2,3) read_records_enc [OF assms(1), of rest]
    by (simp add: read_section_def section_bytes_def Let_def k ReadU32_le length_concat comp_def)
qed

lemma read_sections_enc:
  assumes "\<forall>x \<in> set xs. ok d x" and "length xs \<le> u32_max"
    and "sum_list (map (length \<circ> enc) xs) \<le> u32_max"
  shows "read_sections (section_bytes kind enc xs @ rest) d = read_sections rest (fold push xs d)"
  using read_section_enc [OF assms, of rest]
  by (subst read_sections.simps) (simp add: section_bytes_def Let_def)

end

section \<open>The record kinds\<close>

definition object_map_ok :: "nat \<Rightarrow> CheckpointDeltaObjectMapUpdate \<Rightarrow> bool" where
  "object_map_ok target u \<longleftrightarrow> ou_object_id u \<noteq> 0 \<and> ou_object_id u \<le> u64_max \<and>
     ou_physical_address u \<le> u64_max \<and> ou_logical_size u \<le> u64_max \<and> ou_xid u = target \<and> target \<le> u64_max"

definition extent_ok :: "Extent \<Rightarrow> bool" where
  "extent_ok e \<longleftrightarrow> physical_address e \<noteq> 0 \<and> bytes e \<noteq> 0 \<and> physical_address e \<le> u64_max \<and> bytes e \<le> u64_max"

definition inode_ok :: "nat \<Rightarrow> CheckpointDeltaInodeUpdate \<Rightarrow> bool" where
  "inode_ok target u \<longleftrightarrow> iu_object_id u \<noteq> 0 \<and> iu_object_id u \<le> u64_max \<and>
     iu_parent_object_id u \<le> u64_max \<and> length (iu_name u) \<le> u32_max div 2 \<and>
     length (iu_full_path u) \<le> u32_max div 2 \<and> iu_logical_size u \<le> u64_max \<and>
     iu_data_physical_address u \<le> u64_max \<and> iu_xid u = target \<and> target \<le> u64_max \<and>
     iu_timestamp_utc u \<le> u64_max"

definition link_update_ok :: "nat \<Rightarrow> CheckpointDeltaDirectoryLinkUpdate \<Rightarrow> bool" where
  "link_update_ok target u \<longleftrightarrow> lu_parent_object_id u \<noteq> 0 \<and> lu_parent_object_id u \<le> u64_max \<and>
     length (lu_entry_name u) \<le> u32_max div 2 \<and> lu_child_object_id u \<noteq> 0 \<and>
     lu_child_object_id u \<le> u64_max \<and> lu_xid u = target \<and> target \<le> u64_max"

definition btree_ok :: "BtreeRecord \<Rightarrow> bool" where
  "btree_ok r \<longleftrightarrow> length (record_key r) \<le> u32_max \<and> length (record_value r) \<le> u32_max"

lemma flag_facts: "flag b < 256" "\<not> Suc 0 < flag b" "(0 < flag b) = b" "(flag b \<noteq> 0) = b"
  by (simp_all add: flag_def)

lemma Utf16ByteCount_ok: "length cs \<le> u32_max div 2 \<Longrightarrow> Utf16ByteCount cs = Some (length cs * 2)"
  by (simp add: Utf16ByteCount_def)

lemma kind_facts: "kind_value k < 256" "kind_of (kind_value k) = Some k"
  by (cases k; simp add: kind_of_def)+

lemma read_object_map_enc:
  "object_map_ok target u \<Longrightarrow> read_object_map target (append_object_map u [] @ rest) = Some (u, rest)"
  by (simp add: object_map_ok_def read_object_map_def append_object_map_def append_simps codec_simps
      flag_facts)

lemma read_extent_enc: "extent_ok e \<Longrightarrow> read_extent (append_extent e [] @ rest) = Some (e, rest)"
  by (simp add: extent_ok_def read_extent_def append_extent_def append_simps codec_simps)

lemma read_inode_enc: "inode_ok target u \<Longrightarrow> read_inode target (append_inode u [] @ rest) = Some (u, rest)"
  by (simp add: inode_ok_def read_inode_def append_inode_def append_simps codec_simps flag_facts
      Utf16ByteCount_ok Let_def)

lemma read_link_enc: "link_update_ok target u \<Longrightarrow> read_link target (append_link u [] @ rest) = Some (u, rest)"
  by (simp add: link_update_ok_def read_link_def append_link_def append_simps codec_simps flag_facts
      Utf16ByteCount_ok)

lemma read_btree_enc: "btree_ok r \<Longrightarrow> read_btree (append_btree r [] @ rest) = Some (r, rest)"
  by (simp add: btree_ok_def read_btree_def append_btree_def append_simps codec_simps flag_facts
      kind_facts)

interpretation object_map_section: delta_section ObjectMap "\<lambda>u. append_object_map u []"
  "\<lambda>d. object_map_ok (target_xid d)" "\<lambda>u d. d\<lparr>object_map_updates := object_map_updates d @ [u]\<rparr>"
  by unfold_locales (simp_all add: read_record_def section_of_def read_object_map_enc)

interpretation allocation_section: delta_section SpacemanAllocation "\<lambda>e. append_extent e []"
  "\<lambda>d. extent_ok" "\<lambda>e d. d\<lparr>spaceman_allocations := spaceman_allocations d @ [e]\<rparr>"
  by unfold_locales (simp_all add: read_record_def section_of_def read_extent_enc)

interpretation deallocation_section: delta_section SpacemanDeallocation "\<lambda>e. append_extent e []"
  "\<lambda>d. extent_ok" "\<lambda>e d. d\<lparr>spaceman_deallocations := spaceman_deallocations d @ [e]\<rparr>"
  by unfold_locales (simp_all add: read_record_def section_of_def read_extent_enc)

interpretation inode_section: delta_section Inode "\<lambda>u. append_inode u []"
  "\<lambda>d. inode_ok (target_xid d)" "\<lambda>u d. d\<lparr>inode_updates := inode_updates d @ [u]\<rparr>"
  by unfold_locales (simp_all add: read_record_def section_of_def read_inode_enc)

interpretation link_section: delta_section DirectoryLink "\<lambda>u. append_link u []"
  "\<lambda>d. link_update_ok (target_xid d)"
  "\<lambda>u d. d\<lparr>directory_link_updates := directory_link_updates d @ [u]\<rparr>"
  by unfold_locales (simp_all add: read_record_def section_of_def read_link_enc)

interpretation btree_section: delta_section Btree "\<lambda>r. append_btree r []"
  "\<lambda>d. btree_ok" "\<lambda>r d. d\<lparr>btree_records := btree_records d @ [r]\<rparr>"
  by unfold_locales (simp_all add: read_record_def section_of_def read_btree_enc)

lemma fold_push_object_map:
  "fold (\<lambda>u d. d\<lparr>object_map_updates := object_map_updates d @ [u]\<rparr>) us d = d\<lparr>object_map_updates := object_map_updates d @ us\<rparr>"
  by (induction us arbitrary: d) simp_all

lemma fold_push_allocation:
  "fold (\<lambda>u d. d\<lparr>spaceman_allocations := spaceman_allocations d @ [u]\<rparr>) us d = d\<lparr>spaceman_allocations := spaceman_allocations d @ us\<rparr>"
  by (induction us arbitrary: d) simp_all

lemma fold_push_deallocation:
  "fold (\<lambda>u d. d\<lparr>spaceman_deallocations := spaceman_deallocations d @ [u]\<rparr>) us d = d\<lparr>spaceman_deallocations := spaceman_deallocations d @ us\<rparr>"
  by (induction us arbitrary: d) simp_all

lemma fold_push_inode:
  "fold (\<lambda>u d. d\<lparr>inode_updates := inode_updates d @ [u]\<rparr>) us d = d\<lparr>inode_updates := inode_updates d @ us\<rparr>"
  by (induction us arbitrary: d) simp_all

lemma fold_push_link:
  "fold (\<lambda>u d. d\<lparr>directory_link_updates := directory_link_updates d @ [u]\<rparr>) us d = d\<lparr>directory_link_updates := directory_link_updates d @ us\<rparr>"
  by (induction us arbitrary: d) simp_all

lemma fold_push_btree:
  "fold (\<lambda>u d. d\<lparr>btree_records := btree_records d @ [u]\<rparr>) us d = d\<lparr>btree_records := btree_records d @ us\<rparr>"
  by (induction us arbitrary: d) simp_all

lemmas fold_push = fold_push_object_map fold_push_allocation fold_push_deallocation fold_push_inode
  fold_push_link fold_push_btree

section \<open>The estimate is exact\<close>

lemma CheckedAddSize_Some: "CheckedAddSize a b = Some c \<longleftrightarrow> b \<le> u64_max - a \<and> c = a + b"
  by (auto simp: CheckedAddSize_def)

lemma AddLengthPrefixedBytes_Some:
  "AddLengthPrefixedBytes v n = Some w \<Longrightarrow> n \<le> u32_max \<and> w = v + 4 + n"
  by (auto simp: AddLengthPrefixedBytes_def CheckedAddSize_Some bind_eq_Some_conv split: if_splits)

lemma AddLengthPrefixedStringBytes_Some:
  "AddLengthPrefixedStringBytes v cs = Some w \<Longrightarrow>
   length cs \<le> u32_max div 2 \<and> w = v + 4 + 2 * length cs"
  by (auto simp: AddLengthPrefixedStringBytes_def Utf16ByteCount_def bind_eq_Some_conv
      dest!: AddLengthPrefixedBytes_Some split: if_splits)

lemma AddSectionBytes_Some:
  "AddSectionBytes v n k = Some w \<Longrightarrow> n \<le> u32_max \<and> w = v + kSectionHeaderBytes + n * k"
  by (auto simp: AddSectionBytes_def CheckedMultiplySize_def CheckedAddSize_Some bind_eq_Some_conv
      split: if_splits)

lemma add_inode_bytes_Some:
  "add_inode_bytes v u = Some w \<Longrightarrow> w = v + length (append_inode u []) \<and>
     length (iu_name u) \<le> u32_max div 2 \<and> length (iu_full_path u) \<le> u32_max div 2"
  by (auto simp: add_inode_bytes_def CheckedAddSize_Some bind_eq_Some_conv append_inode_def append_simps
      Let_def dest!: AddLengthPrefixedStringBytes_Some)

lemma add_link_bytes_Some:
  "add_link_bytes v u = Some w \<Longrightarrow> w = v + length (append_link u []) \<and>
     length (lu_entry_name u) \<le> u32_max div 2"
  by (auto simp: add_link_bytes_def CheckedAddSize_Some bind_eq_Some_conv append_link_def append_simps
      dest!: AddLengthPrefixedStringBytes_Some)

lemma add_btree_bytes_Some:
  "add_btree_bytes v r = Some w \<Longrightarrow> w = v + length (append_btree r []) \<and> btree_ok r"
  by (auto simp: add_btree_bytes_def CheckedAddSize_Some bind_eq_Some_conv append_btree_def append_simps
      btree_ok_def dest!: AddLengthPrefixedBytes_Some)

lemma add_each_Some:
  assumes "\<And>v x w. f v x = Some w \<Longrightarrow> w = v + g x \<and> P x"
  shows "add_each f v xs = Some w \<Longrightarrow> w = v + sum_list (map g xs) \<and> (\<forall>x \<in> set xs. P x)"
proof (induction xs arbitrary: v)
  case Nil
  then show ?case by simp
next
  case (Cons x xs)
  then obtain v' where "f v x = Some v'" "add_each f v' xs = Some w"
    by (auto simp: bind_eq_Some_conv)
  then show ?case using Cons.IH [of v'] assms [of v x v'] by simp
qed

lemma add_records_Some:
  assumes "\<And>v x w. f v x = Some w \<Longrightarrow> w = v + g x \<and> P x" and "add_records f v xs = Some w"
  shows "length xs \<le> u32_max" and "w = v + kSectionHeaderBytes + sum_list (map g xs)"
    and "\<forall>x \<in> set xs. P x"
  using assms(2) add_each_Some [where f = f and g = g and P = P, OF assms(1)]
  by (auto simp: add_records_def CheckedAddSize_Some bind_eq_Some_conv split: if_splits)

lemmas inode_records_Some = add_records_Some [where f = add_inode_bytes and g = "\<lambda>u. length (append_inode u [])" and
  P = "\<lambda>u. length (iu_name u) \<le> u32_max div 2 \<and> length (iu_full_path u) \<le> u32_max div 2",
  OF add_inode_bytes_Some, simplified]

lemmas link_records_Some = add_records_Some [where f = add_link_bytes and g = "\<lambda>u. length (append_link u [])" and
  P = "\<lambda>u. length (lu_entry_name u) \<le> u32_max div 2", OF add_link_bytes_Some, simplified]

lemmas btree_records_Some = add_records_Some [where f = add_btree_bytes and g = "\<lambda>r. length (append_btree r [])" and
  P = btree_ok, OF add_btree_bytes_Some, simplified]

lemma fixed_record_lengths [simp]:
  "length (append_object_map u []) = 33" "length (append_extent e []) = 16"
  by (simp_all add: append_object_map_def append_extent_def append_simps)

definition delta_header :: "CheckpointDelta \<Rightarrow> byte list" where
  "delta_header d = append_header kMagic kHeaderBytes (volume_identity d) (base_xid d) (target_xid d)"

definition delta_sections :: "CheckpointDelta \<Rightarrow> byte list" where
  "delta_sections d =
     section_bytes ObjectMap (\<lambda>u. append_object_map u []) (object_map_updates d) @
     section_bytes SpacemanAllocation (\<lambda>e. append_extent e []) (spaceman_allocations d) @
     section_bytes SpacemanDeallocation (\<lambda>e. append_extent e []) (spaceman_deallocations d) @
     section_bytes Inode (\<lambda>u. append_inode u []) (inode_updates d) @
     section_bytes DirectoryLink (\<lambda>u. append_link u []) (directory_link_updates d) @
     section_bytes Btree (\<lambda>r. append_btree r []) (btree_records d)"

lemma length_append_header [simp]: "length (append_header m n v b t) = 40"
  by (simp add: append_header_def append_simps Let_def)

text \<open>
  An accepted estimate is the exact length of what is written, so the encoder's own
  comparison never fails; it also bounds the counts, names, keys and values.
\<close>

lemma Estimate_exact:
  assumes "EstimateEncodedDeltaBytes d = Some n"
  shows "n = length (delta_header d @ delta_sections d)"
    and "encode_sections d = Some (delta_header d @ delta_sections d)"
    and "length (object_map_updates d) \<le> u32_max" "length (spaceman_allocations d) \<le> u32_max"
      "length (spaceman_deallocations d) \<le> u32_max" "length (inode_updates d) \<le> u32_max"
      "length (directory_link_updates d) \<le> u32_max" "length (btree_records d) \<le> u32_max"
    and "\<forall>u \<in> set (inode_updates d). length (iu_name u) \<le> u32_max div 2 \<and> length (iu_full_path u) \<le> u32_max div 2"
    and "\<forall>u \<in> set (directory_link_updates d). length (lu_entry_name u) \<le> u32_max div 2"
    and "\<forall>r \<in> set (btree_records d). btree_ok r"
proof -
  obtain v1 v2 v3 v4 v5 where
    1: "AddSectionBytes kHeaderBytes (length (object_map_updates d)) 33 = Some v1"
    and 2: "AddSectionBytes v1 (length (spaceman_allocations d)) 16 = Some v2"
    and 3: "AddSectionBytes v2 (length (spaceman_deallocations d)) 16 = Some v3"
    and 4: "add_records add_inode_bytes v3 (inode_updates d) = Some v4"
    and 5: "add_records add_link_bytes v4 (directory_link_updates d) = Some v5"
    and 6: "add_records add_btree_bytes v5 (btree_records d) = Some n"
    using assms by (auto simp: EstimateEncodedDeltaBytes_def bind_eq_Some_conv)
  note s = AddSectionBytes_Some [OF 1] AddSectionBytes_Some [OF 2] AddSectionBytes_Some [OF 3]
  note i = inode_records_Some [OF 4] and l = link_records_Some [OF 5] and b = btree_records_Some [OF 6]
  show "length (object_map_updates d) \<le> u32_max" "length (spaceman_allocations d) \<le> u32_max"
    "length (spaceman_deallocations d) \<le> u32_max" "length (inode_updates d) \<le> u32_max"
    "length (directory_link_updates d) \<le> u32_max" "length (btree_records d) \<le> u32_max"
    "\<forall>u \<in> set (inode_updates d). length (iu_name u) \<le> u32_max div 2 \<and> length (iu_full_path u) \<le> u32_max div 2"
    "\<forall>u \<in> set (directory_link_updates d). length (lu_entry_name u) \<le> u32_max div 2"
    "\<forall>r \<in> set (btree_records d). btree_ok r"
    using s i l b by auto
  then show "encode_sections d = Some (delta_header d @ delta_sections d)"
    by (simp add: encode_sections_def write_section_eq extends_appends delta_header_def delta_sections_def)
  show "n = length (delta_header d @ delta_sections d)"
    using s i(2) l(2) b(2)
    by (simp add: delta_header_def delta_sections_def length_section_bytes kHeaderBytes_def comp_def
        sum_list_triv mult.commute)
qed

section \<open>Header and checksum field\<close>

lemma ComputeChecksum_bound: "ComputeChecksum bs \<le> u32_max"
proof -
  have "unat (w :: 32 word) < 2 ^ LENGTH(32)" for w by (rule unsigned_less)
  then have "unat (w :: 32 word) \<le> u32_max" for w by (simp add: u32_max_def less_Suc_eq_le [symmetric])
  then show ?thesis by (simp add: ComputeChecksum_def Let_def)
qed

lemma HashVolumeIdentity_bound: "HashVolumeIdentity v \<le> u64_max"
proof -
  have "unat (w :: 64 word) < 2 ^ LENGTH(64)" for w by (rule unsigned_less)
  then have "unat (w :: 64 word) \<le> u64_max" for w by (simp add: u64_max_def less_Suc_eq_le [symmetric])
  then show ?thesis by (simp add: HashVolumeIdentity_def)
qed

lemma length_PatchU32 [simp]: "length (PatchU32 out offset v) = length out"
  by (simp add: PatchU32_def)

lemma ComputeChecksum_PatchU32:
  assumes "16 \<le> length out"
  shows "ComputeChecksum (PatchU32 out 12 c) = ComputeChecksum out"
proof -
  have "take 12 (PatchU32 out 12 c) = take 12 out" "drop 16 (PatchU32 out 12 c) = drop 16 out"
    "PatchU32 out 12 c \<noteq> []" "out \<noteq> []"
    using assms by (auto simp: PatchU32_def)
  then show ?thesis unfolding ComputeChecksum_def Let_def by simp
qed

lemma PatchU32_header:
  "PatchU32 (append_header m n v b t @ r) 12 c =
     le_bytes 4 m @ le_bytes 2 kVersion @ le_bytes 2 0 @ le_bytes 4 n @ le_bytes 4 c @
     le_bytes 8 (HashVolumeIdentity v) @ le_bytes 8 b @ le_bytes 8 t @ r"
  by (simp add: PatchU32_def append_header_def append_simps Let_def)

lemma read_header_patched:
  assumes "m \<le> u32_max" and "n \<le> u32_max" and "b \<le> u64_max" and "t \<le> u64_max" and "c \<le> u32_max"
  shows "read_header (PatchU32 (append_header m n v b t @ r) 12 c) =
     Some (\<lparr>h_magic = m, h_version = kVersion, h_flags = 0, h_header_bytes = n, h_checksum = c,
            h_volume_hash = HashVolumeIdentity v, h_base_xid = b, h_target_xid = t\<rparr>, r)"
  unfolding PatchU32_header
  using assms HashVolumeIdentity_bound
  by (simp add: read_header_def codec_simps kVersion_def)

section \<open>Round trip of a delta\<close>

text \<open>A well-formed delta: one transaction step, and records the decoder accepts.\<close>

definition delta_wf :: "CheckpointDelta \<Rightarrow> bool" where
  "delta_wf d \<longleftrightarrow> IsValidXidRange (base_xid d) (target_xid d) \<and> base_xid d \<le> u64_max \<and>
     (\<forall>u \<in> set (object_map_updates d). object_map_ok (target_xid d) u) \<and>
     (\<forall>e \<in> set (spaceman_allocations d) \<union> set (spaceman_deallocations d). extent_ok e) \<and>
     (\<forall>u \<in> set (inode_updates d). inode_ok (target_xid d) u) \<and>
     (\<forall>u \<in> set (directory_link_updates d). link_update_ok (target_xid d) u)"

lemma IsValidXidRange_bound: "IsValidXidRange b t \<Longrightarrow> t \<le> u64_max"
  by (auto simp: IsValidXidRange_def add64_bound)

lemma read_sections_delta:
  assumes wf: "delta_wf d" and est: "EstimateEncodedDeltaBytes d = Some n" and n: "n \<le> u32_max"
  shows "read_sections (delta_sections d)
    \<lparr>volume_identity = volume_identity d, base_xid = base_xid d, target_xid = target_xid d,
     object_map_updates = [], spaceman_allocations = [], spaceman_deallocations = [],
     inode_updates = [], directory_link_updates = [], btree_records = []\<rparr> = Inr d"
proof -
  note e = Estimate_exact [OF est]
  have len: "length (delta_sections d) \<le> u32_max" using e(1) n by simp
  have sums: "sum_list (map (length \<circ> (\<lambda>u. append_object_map u [])) (object_map_updates d)) \<le> u32_max"
    "sum_list (map (length \<circ> (\<lambda>e. append_extent e [])) (spaceman_allocations d)) \<le> u32_max"
    "sum_list (map (length \<circ> (\<lambda>e. append_extent e [])) (spaceman_deallocations d)) \<le> u32_max"
    "sum_list (map (length \<circ> (\<lambda>u. append_inode u [])) (inode_updates d)) \<le> u32_max"
    "sum_list (map (length \<circ> (\<lambda>u. append_link u [])) (directory_link_updates d)) \<le> u32_max"
    "sum_list (map (length \<circ> (\<lambda>r. append_btree r [])) (btree_records d)) \<le> u32_max"
    using len unfolding delta_sections_def length_append length_section_bytes by linarith+
  have wf': "\<forall>u \<in> set (object_map_updates d). object_map_ok (target_xid d) u"
    "\<forall>e \<in> set (spaceman_allocations d). extent_ok e" "\<forall>e \<in> set (spaceman_deallocations d). extent_ok e"
    "\<forall>u \<in> set (inode_updates d). inode_ok (target_xid d) u"
    "\<forall>u \<in> set (directory_link_updates d). link_update_ok (target_xid d) u"
    using wf by (auto simp: delta_wf_def)
  have finished: "read_sections [] x = Inr x" for x by (simp add: read_sections.simps)
  show ?thesis
    unfolding delta_sections_def
    using wf' e(3-8,11) sums
      btree_section.read_sections_enc [where xs = "btree_records d" and rest = "[]"]
    by (simp add: object_map_section.read_sections_enc allocation_section.read_sections_enc
        deallocation_section.read_sections_enc inode_section.read_sections_enc
        link_section.read_sections_enc finished fold_push)
qed

lemma Encode_eq:
  assumes "EstimateEncodedDeltaBytes d = Some n"
  shows "Encode d = PatchU32 (delta_header d @ delta_sections d) 12
           (ComputeChecksum (delta_header d @ delta_sections d))"
  using assms Estimate_exact(1,2) [OF assms] by (simp add: Encode_def)

lemma Encode_length:
  "EstimateEncodedDeltaBytes d = Some n \<Longrightarrow> length (Encode d) = n \<and> 40 \<le> n"
  using Encode_eq [of d n] Estimate_exact(1) [of d n] by (auto simp: delta_header_def)

lemma Decode_Encode_wf:
  assumes "delta_wf d" and "EstimateEncodedDeltaBytes d = Some n" and "n \<le> u32_max"
  shows "Decode (Encode d) (volume_identity d) = (Ok, Some d)"
proof -
  define out where "out = delta_header d @ delta_sections d"
  define c where "c = ComputeChecksum out"
  have enc: "Encode d = PatchU32 out 12 c" using Encode_eq [OF assms(2)] by (simp add: out_def c_def)
  have len: "40 \<le> length out" by (simp add: out_def delta_header_def)
  have chk: "ComputeChecksum (PatchU32 out 12 c) = c"
    using ComputeChecksum_PatchU32 [of out c] len by (simp add: c_def)
  have "base_xid d \<le> u64_max" "target_xid d \<le> u64_max" "IsValidXidRange (base_xid d) (target_xid d)"
    using assms(1) IsValidXidRange_bound by (auto simp: delta_wf_def)
  then have "read_header (PatchU32 out 12 c) =
     Some (\<lparr>h_magic = kMagic, h_version = kVersion, h_flags = 0, h_header_bytes = kHeaderBytes,
       h_checksum = c, h_volume_hash = HashVolumeIdentity (volume_identity d),
       h_base_xid = base_xid d, h_target_xid = target_xid d\<rparr>, delta_sections d)"
    unfolding out_def delta_header_def
    by (intro read_header_patched) (simp_all add: kMagic_def kHeaderBytes_def u32_max_def c_def
        ComputeChecksum_bound [unfolded u32_max_def])
  moreover have "length (PatchU32 out 12 c) \<ge> kHeaderBytes" "PatchU32 out 12 c \<noteq> []"
    using len length_PatchU32 [of out 12 c] by (auto simp: kHeaderBytes_def simp del: length_PatchU32)
  ultimately show ?thesis
    using read_sections_delta [OF assms] chk \<open>IsValidXidRange (base_xid d) (target_xid d)\<close>
    unfolding enc Decode_def by simp
qed

text \<open>
  C14. Decoding an encoded delta gives the delta back: for a well-formed delta whose size
  estimate is below four gigabytes, the decoder accepts the encoder's output under the
  delta's volume identity and returns the same delta.
\<close>

theorem Decode_Encode:
  assumes "delta_wf d" and "EstimateEncodedDeltaBytes d = Some n" and "n \<le> u32_max"
  shows "Decode (Encode d) (volume_identity d) = (Ok, Some d)"
  using assms by (rule Decode_Encode_wf)

theorem Decode_Encode_witness:
  "let d = \<lparr>volume_identity = ''vol'', base_xid = 7, target_xid = 8,
       object_map_updates = [\<lparr>ou_object_id = 16, ou_physical_address = 8192, ou_logical_size = 5,
         ou_xid = 8, ou_tombstone = False\<rparr>],
       spaceman_allocations = [mk_extent 8192 4096], spaceman_deallocations = [],
       inode_updates = [\<lparr>iu_object_id = 16, iu_parent_object_id = 2, iu_name = [97],
         iu_full_path = [47, 97], iu_is_directory = False, iu_logical_size = 5,
         iu_data_physical_address = 8192, iu_xid = 8, iu_timestamp_utc = 1, iu_tombstone = False\<rparr>],
       directory_link_updates = [\<lparr>lu_parent_object_id = 2, lu_entry_name = [97],
         lu_child_object_id = 16, lu_xid = 8, lu_tombstone = False\<rparr>],
       btree_records = [EncodeDirectoryRecord 2 [97] 16 8 False]\<rparr>
   in Decode (Encode d) ''vol'' = (Ok, Some d)"
  (is "let d = ?d in _")
proof -
  have wf: "delta_wf ?d"
    by (simp add: delta_wf_def IsValidXidRange_def add64_def object_map_ok_def extent_ok_def inode_ok_def
        link_update_ok_def u64_max_def u32_max_def)
  have "EstimateEncodedDeltaBytes ?d = Some 280"
    by (simp add: EstimateEncodedDeltaBytes_def AddSectionBytes_def CheckedMultiplySize_def
        CheckedAddSize_def add_records_def add_inode_bytes_def add_link_bytes_def add_btree_bytes_def
        AddLengthPrefixedStringBytes_def AddLengthPrefixedBytes_def Utf16ByteCount_def
        EncodeDirectoryRecord_def append_defs kSectionHeaderBytes_def kHeaderBytes_def
        u64_max_def u32_max_def)
  from Decode_Encode [OF wf this] show ?thesis by (simp add: u32_max_def Let_def)
qed

section \<open>Round trip of a chain\<close>

definition chain_record :: "CheckpointDelta \<Rightarrow> byte list" where
  "chain_record d = le_bytes 4 (length (Encode d)) @ Encode d"

lemma add_delta_bytes_Some:
  "add_delta_bytes v d = Some w \<Longrightarrow> w = v + length (chain_record d) \<and>
     (\<exists>n. EstimateEncodedDeltaBytes d = Some n \<and> n \<le> u32_max)"
  using Encode_length
  by (auto simp: add_delta_bytes_def bind_eq_Some_conv chain_record_def dest!: AddLengthPrefixedBytes_Some)

lemmas deltas_Some = add_each_Some [where f = add_delta_bytes and g = "\<lambda>d. length (chain_record d)" and
  P = "\<lambda>d. \<exists>n. EstimateEncodedDeltaBytes d = Some n \<and> n \<le> u32_max", OF add_delta_bytes_Some, simplified]

lemma append_deltas_eq:
  "\<forall>d \<in> set ds. \<exists>n. EstimateEncodedDeltaBytes d = Some n \<Longrightarrow>
   append_deltas ds out = Some (out @ concat (map chain_record ds))"
proof (induction ds arbitrary: out)
  case Nil
  then show ?case by simp
next
  case (Cons d ds)
  have "Encode d \<noteq> []" using Cons.prems Encode_length by fastforce
  then show ?case using Cons by (simp add: chain_record_def AppendU32_def Let_def)
qed

lemma read_deltas_enc:
  assumes "\<forall>d \<in> set ds. delta_wf d \<and> (\<exists>n. EstimateEncodedDeltaBytes d = Some n \<and> n \<le> u32_max)"
    and "chain_target identity base ds = Some t"
  shows "read_deltas identity (length ds) base (concat (map chain_record ds) @ rest) acc =
     Inr (acc @ ds, t, rest)"
  using assms
proof (induction ds arbitrary: base acc)
  case Nil
  then show ?case by simp
next
  case (Cons d ds)
  obtain n where n: "EstimateEncodedDeltaBytes d = Some n" "n \<le> u32_max" using Cons.prems(1) by auto
  have id: "volume_identity d = identity" "base_xid d = base" "chain_target identity (target_xid d) ds = Some t"
    using Cons.prems(2) by (auto split: if_splits)
  have "Decode (Encode d) identity = (Ok, Some d)"
    using Decode_Encode_wf [OF _ n] Cons.prems(1) id(1) by simp
  moreover have "ReadBytes (chain_record d @ r) = Some (Encode d, r)" for r
    using ReadBytes_append [of "Encode d" r] Encode_length [OF n(1)] n(2) by (simp add: chain_record_def)
  ultimately show ?case using Cons id by simp
qed

lemma chain_target_last:
  "chain_target identity base ds = Some t \<Longrightarrow> t = (if ds = [] then base else target_xid (last ds))"
  by (induction ds arbitrary: base) (auto split: if_splits)

lemma chain_target_bound:
  "chain_target identity base ds = Some t \<Longrightarrow> base \<le> u64_max \<Longrightarrow> t \<le> u64_max"
  by (induction ds arbitrary: base) (auto split: if_splits dest: IsValidXidRange_bound)

definition chain_body :: "CheckpointDelta list \<Rightarrow> byte list" where
  "chain_body ds = le_bytes 4 (length ds) @ concat (map chain_record ds)"

lemma EncodeChain_eq:
  assumes "chain_target identity base ds = Some t"
    and "add_each add_delta_bytes kChainHeaderBytes ds = Some v"
  defines "out \<equiv> append_header kChainMagic kChainHeaderBytes identity base t @ chain_body ds"
  shows "EncodeChain ds identity base = PatchU32 out 12 (ComputeChecksum out)"
    and "length (EncodeChain ds identity base) \<ge> 44"
proof -
  note est = deltas_Some [OF assms(2)]
  let ?h = "append_header kChainMagic kChainHeaderBytes identity base t"
  have "\<forall>d \<in> set ds. \<exists>n. EstimateEncodedDeltaBytes d = Some n" using est by blast
  then have "append_deltas ds (AppendU32 ?h (length ds)) = Some out"
    using append_deltas_eq [of ds "AppendU32 ?h (length ds)"]
    by (simp add: out_def chain_body_def AppendU32_def)
  moreover have "length out = v"
    using est by (simp add: out_def chain_body_def kChainHeaderBytes_def length_concat comp_def)
  ultimately show enc: "EncodeChain ds identity base = PatchU32 out 12 (ComputeChecksum out)"
    using assms(1,2) by (simp add: EncodeChain_def)
  show "length (EncodeChain ds identity base) \<ge> 44"
    unfolding enc by (simp add: out_def chain_body_def)
qed

text \<open>
  Decoding an encoded chain gives the deltas back, in order, with the transaction the
  last one leads to: whenever the chain encoder produces output for well-formed deltas, the
  chain decoder accepts it.
\<close>

theorem DecodeChain_EncodeChain:
  assumes "\<forall>d \<in> set ds. delta_wf d" and "identity \<noteq> []" and "base \<noteq> 0" and "base \<le> u64_max"
    and "length ds \<le> u32_max" and "EncodeChain ds identity base \<noteq> []"
  shows "DecodeChain (EncodeChain ds identity base) identity base =
     \<lparr>chain_status = Ok, chain_base_xid = base,
      chain_target_xid = (if ds = [] then base else target_xid (last ds)), chain_deltas = ds\<rparr>"
proof -
  obtain t v where t: "chain_target identity base ds = Some t"
    and v: "add_each add_delta_bytes kChainHeaderBytes ds = Some v"
    using assms(6) by (auto simp: EncodeChain_def split: option.splits)
  note est = deltas_Some [OF v]
  define out where "out = append_header kChainMagic kChainHeaderBytes identity base t @ chain_body ds"
  define c where "c = ComputeChecksum out"
  have enc: "EncodeChain ds identity base = PatchU32 out 12 c"
    and len: "length (PatchU32 out 12 c) \<ge> 44"
    using EncodeChain_eq [OF t v] by (simp_all add: out_def c_def)
  have chk: "ComputeChecksum (PatchU32 out 12 c) = c"
    using ComputeChecksum_PatchU32 [of out c] by (simp add: c_def out_def)
  have hdr: "read_header (PatchU32 out 12 c) =
     Some (\<lparr>h_magic = kChainMagic, h_version = kVersion, h_flags = 0,
       h_header_bytes = kChainHeaderBytes, h_checksum = c,
       h_volume_hash = HashVolumeIdentity identity, h_base_xid = base, h_target_xid = t\<rparr>, chain_body ds)"
    unfolding out_def using assms(4) chain_target_bound [OF t assms(4)]
    by (intro read_header_patched) (simp_all add: kChainMagic_def kChainHeaderBytes_def u32_max_def c_def
        ComputeChecksum_bound [unfolded u32_max_def])
  have cnt: "ReadU32 (chain_body ds) = Some (length ds, concat (map chain_record ds))"
    using ReadU32_le [OF assms(5)] by (simp add: chain_body_def)
  have rd: "read_deltas identity (length ds) base (concat (map chain_record ds)) [] = Inr (ds, t, [])"
    using read_deltas_enc [OF _ t, of "[]" "[]"] assms(1) est by auto
  have "PatchU32 out 12 c \<noteq> []" using len by (intro notI) simp
  moreover have "ds = [] \<longrightarrow> t = base" using t by auto
  ultimately show ?thesis
    using len hdr cnt rd chk assms(2,3) chain_target_last [OF t]
    unfolding enc DecodeChain_def by (auto simp: kChainHeaderBytes_def)
qed

definition sample_delta :: CheckpointDelta where
  "sample_delta = \<lparr>volume_identity = ''vol'', base_xid = 7, target_xid = 8, object_map_updates = [],
     spaceman_allocations = [mk_extent 8192 4096], spaceman_deallocations = [], inode_updates = [],
     directory_link_updates = [], btree_records = []\<rparr>"

lemma sample_delta_facts:
  "delta_wf sample_delta" "EstimateEncodedDeltaBytes sample_delta = Some 110"
  by (simp_all add: sample_delta_def delta_wf_def IsValidXidRange_def add64_def extent_ok_def
      EstimateEncodedDeltaBytes_def AddSectionBytes_def CheckedMultiplySize_def CheckedAddSize_def
      add_records_def kSectionHeaderBytes_def kHeaderBytes_def u64_max_def u32_max_def)

theorem DecodeChain_EncodeChain_witness:
  "chain_deltas (DecodeChain (EncodeChain [sample_delta] ''vol'' 7) ''vol'' 7) = [sample_delta]"
proof -
  have v: "add_each add_delta_bytes kChainHeaderBytes [sample_delta] = Some 158"
    by (simp add: add_delta_bytes_def sample_delta_facts AddLengthPrefixedBytes_def CheckedAddSize_def
        kChainHeaderBytes_def u64_max_def u32_max_def)
  have "chain_target ''vol'' 7 [sample_delta] = Some 8"
    by (simp add: sample_delta_def IsValidXidRange_def add64_def)
  then have "EncodeChain [sample_delta] ''vol'' 7 \<noteq> []" using EncodeChain_eq(2) [OF _ v] by fastforce
  then show ?thesis
    using DecodeChain_EncodeChain [of "[sample_delta]" "''vol''" 7] sample_delta_facts(1)
    by (simp add: u64_max_def u32_max_def)
qed

section \<open>Corruption is detected\<close>

lemma ReadLe_iff: "ReadLe k r = Some (v, r') \<longleftrightarrow> k \<le> length r \<and> v = le_value (take k r) \<and> r' = drop k r"
  by (auto simp: ReadLe_def)

lemma stored_checksum:
  assumes "read_header bs = Some (h, r)"
  shows "h_checksum h = le_value (take 4 (drop 12 bs))" and "40 \<le> length bs"
proof -
  have "h_checksum h = le_value (take 4 (drop 12 bs)) \<and> 40 \<le> length bs"
    using assms unfolding read_header_def ReadU16_def ReadU32_def ReadU64_def
    by (clarsimp simp: ReadLe_iff bind_eq_Some_conv) linarith
  then show "h_checksum h = le_value (take 4 (drop 12 bs))" "40 \<le> length bs" by auto
qed

lemma checksum_update:
  assumes "i < length bs" and "b \<noteq> bs ! i" and "40 \<le> length bs"
    and "le_value (take 4 (drop 12 bs)) = ComputeChecksum bs"
  shows "le_value (take 4 (drop 12 (bs[i := b]))) \<noteq> ComputeChecksum (bs[i := b])"
proof -
  define field where "field x = take 4 (drop 12 (x :: byte list))" for x
  define covered where "covered x = take 12 x @ drop 16 (x :: byte list)" for x
  have chk: "ComputeChecksum x = unat (UpdateFnv1a fnv_seed (covered x))" if "40 \<le> length x" for x
    using that by (auto simp: ComputeChecksum_def Let_def covered_def UpdateFnv1a_append)
  show ?thesis
  proof (cases "12 \<le> i \<and> i < 16")
    case True
    then have "covered (bs[i := b]) = covered bs" by (simp add: covered_def)
    then have "ComputeChecksum (bs[i := b]) = ComputeChecksum bs" using chk assms(3) by simp
    moreover have "field (bs[i := b]) ! (i - 12) \<noteq> field bs ! (i - 12)"
    proof -
      have "i - 12 < 4" "12 + (i - 12) = i" using True by auto
      then show ?thesis using assms by (simp add: field_def)
    qed
    then have "field (bs[i := b]) \<noteq> field bs" by auto
    then have "le_value (field (bs[i := b])) \<noteq> le_value (field bs)"
      using le_bytes_le_value [of "field (bs[i := b])"] le_bytes_le_value [of "field bs"] assms(3)
      by (auto simp: field_def)
    ultimately show ?thesis using assms(4) by (simp add: field_def)
  next
    case False
    have "field (bs[i := b]) = field bs"
      using False by (auto simp: field_def drop_update_swap take_update_cancel)
    moreover have "\<exists>j. covered (bs[i := b]) = (covered bs)[j := b] \<and> j < length (covered bs) \<and>
        b \<noteq> covered bs ! j"
    proof (cases "i < 12")
      case True
      then show ?thesis
        using assms by (intro exI [of _ i]) (auto simp: covered_def list_update_append nth_append take_update_swap)
    next
      case False
      with \<open>\<not> (12 \<le> i \<and> i < 16)\<close> have "16 \<le> i" by simp
      then show ?thesis
        using assms by (intro exI [of _ "i - 4"])
          (auto simp: covered_def list_update_append nth_append drop_update_swap)
    qed
    then have "UpdateFnv1a fnv_seed (covered (bs[i := b])) \<noteq> UpdateFnv1a fnv_seed (covered bs)"
      using UpdateFnv1a_update by metis
    then have "ComputeChecksum (bs[i := b]) \<noteq> ComputeChecksum bs"
      using chk assms(3) by (simp add: word_unat_eq_iff)
    ultimately show ?thesis using assms(4) by (simp add: field_def)
  qed
qed

text \<open>
  Corruption of a single byte is always detected: if the decoder (of a delta or of a
  chain) accepts a buffer, it rejects every buffer that differs from it in exactly one byte,
  wherever that byte is.
\<close>

lemma Decode_detects_single_byte_corruption:
  assumes "i < length bs" and "b \<noteq> bs ! i"
    and "fst (Decode bs v) = Ok \<or> chain_status (DecodeChain bs v x) = Ok"
  shows "fst (Decode (bs[i := b]) v) \<noteq> Ok \<and> chain_status (DecodeChain (bs[i := b]) v x) \<noteq> Ok"
proof -
  have dec: "\<exists>h r. read_header cs = Some (h, r) \<and> h_checksum h = ComputeChecksum cs"
    if "fst (Decode cs v) = Ok \<or> chain_status (DecodeChain cs v x) = Ok" for cs
    using that unfolding Decode_def DecodeChain_def
    by (auto simp: chain_failed_def bind_eq_Some_conv split: if_splits option.splits prod.splits)
  have stored: "le_value (take 4 (drop 12 cs)) = ComputeChecksum cs \<and> 40 \<le> length cs"
    if "fst (Decode cs v) = Ok \<or> chain_status (DecodeChain cs v x) = Ok" for cs
    using dec [OF that] stored_checksum by metis
  have "le_value (take 4 (drop 12 (bs[i := b]))) \<noteq> ComputeChecksum (bs[i := b])"
    using checksum_update [OF assms(1,2)] stored [OF assms(3)] by blast
  then show ?thesis using stored [of "bs[i := b]"] by blast
qed

lemma Decode_detects_single_byte_corruption_witness:
  "fst (Decode ((Encode sample_delta)[20 := Encode sample_delta ! 20 + 1]) ''vol'') \<noteq> Ok"
proof -
  have "Decode (Encode sample_delta) ''vol'' = (Ok, Some sample_delta)"
    using Decode_Encode_wf [OF sample_delta_facts] by (simp add: u32_max_def sample_delta_def)
  moreover have "length (Encode sample_delta) = 110" using Encode_length [OF sample_delta_facts(2)] by simp
  ultimately show ?thesis
    using Decode_detects_single_byte_corruption [of 20 "Encode sample_delta" "Encode sample_delta ! 20 + 1" "''vol''"]
    by simp
qed

section \<open>The decoder returns only well-formed deltas\<close>

definition records_ok :: "CheckpointDelta \<Rightarrow> bool" where
  "records_ok d \<longleftrightarrow>
     (\<forall>u \<in> set (object_map_updates d). object_map_ok (target_xid d) u) \<and>
     (\<forall>e \<in> set (spaceman_allocations d) \<union> set (spaceman_deallocations d). extent_ok e) \<and>
     (\<forall>u \<in> set (inode_updates d). inode_ok (target_xid d) u) \<and>
     (\<forall>u \<in> set (directory_link_updates d). link_update_ok (target_xid d) u)"

lemma read_object_map_ok: "read_object_map t r = Some (u, r') \<Longrightarrow> object_map_ok t u"
  by (auto simp: read_object_map_def object_map_ok_def bind_eq_Some_conv split: if_splits dest!: ReadU64_length)

lemma read_extent_ok: "read_extent r = Some (e, r') \<Longrightarrow> extent_ok e"
  by (auto simp: read_extent_def extent_ok_def bind_eq_Some_conv split: if_splits dest!: ReadU64_length)

lemma read_inode_ok: "read_inode t r = Some (u, r') \<Longrightarrow> inode_ok t u"
  by (auto simp: read_inode_def inode_ok_def bind_eq_Some_conv split: if_splits
      dest!: ReadU64_length ReadString_length)

lemma read_link_ok: "read_link t r = Some (u, r') \<Longrightarrow> link_update_ok t u"
  by (auto simp: read_link_def link_update_ok_def bind_eq_Some_conv split: if_splits
      dest!: ReadU64_length ReadString_length)

lemmas read_oks = read_object_map_ok read_extent_ok read_inode_ok read_link_ok

definition same_step :: "CheckpointDelta \<Rightarrow> CheckpointDelta \<Rightarrow> bool" where
  "same_step d d' \<longleftrightarrow> volume_identity d' = volume_identity d \<and> base_xid d' = base_xid d \<and>
     target_xid d' = target_xid d"

lemma same_step_trans: "same_step a b \<Longrightarrow> same_step b c \<Longrightarrow> same_step a c"
  by (simp add: same_step_def)

lemma read_record_ok:
  assumes "records_ok d" and "read_record k r d = Some (d', r')"
  shows "records_ok d' \<and> same_step d d'"
proof -
  obtain kind where "section_of k = Some kind"
    using assms(2) by (auto simp: read_record_def split: option.splits)
  then show ?thesis
    using assms
    by (cases kind)
       (auto simp: read_record_def records_ok_def same_step_def bind_eq_Some_conv dest: read_oks)
qed

lemma read_records_ok:
  "records_ok d \<Longrightarrow> read_records k n r d = Some (d', r') \<Longrightarrow> records_ok d' \<and> same_step d d'"
proof (induction n arbitrary: r d)
  case 0
  then show ?case by (simp add: same_step_def)
next
  case (Suc n)
  then obtain d1 r1 where 1: "read_record k r d = Some (d1, r1)" "read_records k n r1 d1 = Some (d', r')"
    by (auto split: option.splits)
  have "records_ok d1 \<and> same_step d d1" using read_record_ok [OF Suc.prems(1) 1(1)] .
  then show ?case using Suc.IH [OF _ 1(2)] same_step_trans by blast
qed

lemma read_section_ok:
  "records_ok d \<Longrightarrow> read_section r d = Inr (d', r') \<Longrightarrow> records_ok d' \<and> same_step d d'"
  unfolding read_section_def
  by (auto split: option.splits if_splits) (use read_records_ok in blast)+

lemma read_sections_ok:
  "records_ok d \<Longrightarrow> read_sections r d = Inr d' \<Longrightarrow> records_ok d' \<and> same_step d d'"
proof (induction r d rule: read_sections.induct)
  case (1 r d)
  show ?case
  proof (cases "r = []")
    case True
    then show ?thesis using 1 by (simp add: read_sections.simps same_step_def)
  next
    case False
    then obtain d1 r1 where s: "read_section r d = Inr (d1, r1)" "read_sections r1 d1 = Inr d'"
      using 1(3) by (subst (asm) read_sections.simps) (auto split: sum.splits)
    have "records_ok d1 \<and> same_step d d1" using read_section_ok [OF 1(2) s(1)] .
    then show ?thesis using 1(1) [OF False s(1)] s(2) same_step_trans by auto
  qed
qed

lemma read_header_bounds: "read_header bs = Some (h, r) \<Longrightarrow> h_base_xid h \<le> u64_max"
  by (auto simp: read_header_def bind_eq_Some_conv dest!: ReadU64_length)

text \<open>
  C17. Whatever bytes it is given, the decoder returns only well-formed deltas of the expected
  volume: the transaction range is a single step, and every record carries its transaction,
  non-zero identifiers and values within their width.  A delta is returned exactly with the
  status \<^verbatim>\<open>Ok\<close>.
\<close>

theorem Decode_wf:
  "case Decode bs v of
     (s, None) \<Rightarrow> s \<noteq> Ok
   | (s, Some d) \<Rightarrow> s = Ok \<and> delta_wf d \<and> volume_identity d = v"
proof -
  have errors: "read_sections r d = Inl e \<Longrightarrow> e \<noteq> Ok" for r d e
  proof (induction r d rule: read_sections.induct)
    case (1 r d)
    have "read_section r d = Inl e \<Longrightarrow> e \<noteq> Ok"
      unfolding read_section_def by (auto split: option.splits if_splits prod.splits)
    then show ?case
      using 1 by (subst (asm) (2) read_sections.simps) (auto split: if_splits sum.splits)
  qed
  show ?thesis
  proof (cases "Decode bs v")
    case (Pair s res)
    show ?thesis
    proof (cases res)
      case None
      then show ?thesis
        using Pair errors unfolding Decode_def
        by (auto split: if_splits option.splits sum.splits)
    next
      case (Some d)
      then obtain h r where h: "read_header bs = Some (h, r)" "IsValidXidRange (h_base_xid h) (h_target_xid h)"
        and d: "s = Ok" "read_sections r
                 \<lparr>volume_identity = v, base_xid = h_base_xid h, target_xid = h_target_xid h,
                  object_map_updates = [], spaceman_allocations = [], spaceman_deallocations = [],
                  inode_updates = [], directory_link_updates = [], btree_records = []\<rparr> = Inr d"
        using Pair unfolding Decode_def by (auto split: if_splits option.splits sum.splits)
      have "records_ok \<lparr>volume_identity = v, base_xid = h_base_xid h, target_xid = h_target_xid h,
          object_map_updates = [], spaceman_allocations = [], spaceman_deallocations = [],
          inode_updates = [], directory_link_updates = [], btree_records = []\<rparr>"
        by (simp add: records_ok_def)
      from read_sections_ok [OF this d(2)]
      have "records_ok d" "volume_identity d = v" "base_xid d = h_base_xid h" "target_xid d = h_target_xid h"
        by (simp_all add: same_step_def)
      then show ?thesis
        using Pair Some d(1) h read_header_bounds [OF h(1)] by (simp add: delta_wf_def records_ok_def)
    qed
  qed
qed

end
