(* ===== verification/CheckpointDeltaState.thy ===== *)
theory CheckpointDeltaState
  imports CheckpointDeltaRoundTrip "HOL-Library.Multiset"
begin

text \<open>
  Applying checkpoint deltas, from \<^verbatim>\<open>src/CheckpointDelta.cpp\<close>: the state a replay
  rebuilds, the validation of a delta, \<^verbatim>\<open>ApplyDelta\<close> and \<^verbatim>\<open>ApplyChain\<close>, and the
  compaction of a chain into one delta.

  A hash map that is only looked up, written and erased is a map; the tables of
  \<^verbatim>\<open>CompactChain\<close>, which are also walked, are association lists in the order of first
  insertion (the order of a hash map's elements is unspecified).
\<close>

section \<open>State and keys\<close>

record CheckpointDeltaState =
  state_volume_identity :: string
  checkpoint_xid :: nat
  object_map :: "nat \<rightharpoonup> CheckpointDeltaObjectMapUpdate"
  allocations :: "Extent list"
  inodes :: "nat \<rightharpoonup> CheckpointDeltaInodeUpdate"
  directory_links :: "wchar list \<rightharpoonup> CheckpointDeltaDirectoryLinkUpdate"
  btree_table :: "byte list \<rightharpoonup> BtreeRecord"

definition DirectoryLinkKey :: "nat \<Rightarrow> wchar list \<Rightarrow> wchar list" where
  "DirectoryLinkKey parent_object_id entry_name = to_wstring parent_object_id @ [58] @ entry_name"

definition BtreeRecordKey :: "BtreeRecord \<Rightarrow> byte list" where
  "BtreeRecordKey r = word_of_nat (kind_value (record_kind r)) # record_key r"

section \<open>Validation\<close>

text \<open>
  The kind of a B-tree record is a value of the enumeration in the model, so the range check
  on it always holds.
\<close>

definition IsValidDeltaForApply :: "CheckpointDelta \<Rightarrow> bool" where
  "IsValidDeltaForApply d \<longleftrightarrow>
     IsValidXidRange (base_xid d) (target_xid d) \<and> volume_identity d \<noteq> [] \<and>
     (\<forall>u \<in> set (object_map_updates d). \<not> (ou_object_id u = 0 \<or> ou_xid u \<noteq> target_xid d \<or>
        (\<not> ou_tombstone u \<and> (ou_physical_address u = 0 \<or> ou_logical_size u = 0)))) \<and>
     (\<forall>e \<in> set (spaceman_allocations d). \<not> (physical_address e = 0 \<or> bytes e = 0)) \<and>
     (\<forall>e \<in> set (spaceman_deallocations d). \<not> (physical_address e = 0 \<or> bytes e = 0)) \<and>
     (\<forall>u \<in> set (inode_updates d). \<not> (iu_object_id u = 0 \<or> iu_xid u \<noteq> target_xid d \<or>
        (\<not> iu_tombstone u \<and> iu_full_path u = []))) \<and>
     (\<forall>u \<in> set (directory_link_updates d). \<not> (lu_parent_object_id u = 0 \<or>
        lu_child_object_id u = 0 \<or> lu_xid u \<noteq> target_xid d \<or> lu_entry_name u = [])) \<and>
     (\<forall>r \<in> set (btree_records d). \<not> (record_key r = [] \<or>
        kind_value (record_kind r) < 1 \<or> kind_value (record_kind r) > 3))"

definition RemoveExtent :: "Extent list \<Rightarrow> Extent \<Rightarrow> Extent list option" where
  "RemoveExtent extents target =
     (if target \<in> set extents then Some (remove1 target extents) else None)"

fun remove_extents :: "Extent list \<Rightarrow> Extent list \<Rightarrow> Extent list option" where
  "remove_extents extents [] = Some extents"
| "remove_extents extents (e # es) =
     (case RemoveExtent extents e of None \<Rightarrow> None | Some extents' \<Rightarrow> remove_extents extents' es)"

section \<open>Application\<close>

text \<open>An update of a table: a tombstone erases the key, any other record is stored under it.\<close>

definition put :: "('a \<Rightarrow> bool) \<Rightarrow> ('a \<Rightarrow> 'k) \<Rightarrow> 'a \<Rightarrow> ('k \<rightharpoonup> 'a) \<Rightarrow> ('k \<rightharpoonup> 'a)" where
  "put tombstone key u m = (if tombstone u then m(key u := None) else m(key u \<mapsto> u))"

definition ApplyDelta ::
  "CheckpointDeltaState \<Rightarrow> CheckpointDelta \<Rightarrow> CheckpointDeltaParseStatus \<times> CheckpointDeltaState" where
  "ApplyDelta s d =
     (if state_volume_identity s \<noteq> volume_identity d then (WrongVolume, s)
      else if checkpoint_xid s \<noteq> base_xid d \<or> \<not> IsValidDeltaForApply d then (InvalidXid, s)
      else
        let s1 = s\<lparr>object_map := fold (put ou_tombstone ou_object_id) (object_map_updates d) (object_map s)\<rparr>
        in case remove_extents (allocations s1 @ spaceman_allocations d) (spaceman_deallocations d) of
             None \<Rightarrow> (InvalidRecord, s)
           | Some extents \<Rightarrow>
               (Ok, s1\<lparr>allocations := extents,
                       inodes := fold (put iu_tombstone iu_object_id) (inode_updates d) (inodes s1),
                       directory_links :=
                         fold (put lu_tombstone
                                 (\<lambda>u. DirectoryLinkKey (lu_parent_object_id u) (lu_entry_name u)))
                           (directory_link_updates d) (directory_links s1),
                       btree_table :=
                         fold (put record_tombstone BtreeRecordKey) (btree_records d) (btree_table s1),
                       checkpoint_xid := target_xid d\<rparr>))"

text \<open>The loop of \<^verbatim>\<open>ApplyChain\<close> on the copy \<^verbatim>\<open>next\<close>.\<close>

fun apply_all ::
  "CheckpointDeltaState \<Rightarrow> CheckpointDelta list \<Rightarrow> CheckpointDeltaParseStatus + CheckpointDeltaState" where
  "apply_all nxt [] = Inr nxt"
| "apply_all nxt (d # ds) =
     (case ApplyDelta nxt d of
        (status, nxt') \<Rightarrow> if status \<noteq> Ok then Inl status else apply_all nxt' ds)"

definition ApplyChain ::
  "CheckpointDeltaState \<Rightarrow> CheckpointDelta list \<Rightarrow> CheckpointDeltaParseStatus \<times> CheckpointDeltaState" where
  "ApplyChain s ds =
     (if ds = [] then (Empty, s)
      else case apply_all s ds of Inl status \<Rightarrow> (status, s) | Inr nxt \<Rightarrow> (Ok, nxt))"

section \<open>Compaction\<close>

fun upsert :: "'k \<Rightarrow> 'a \<Rightarrow> ('k \<times> 'a) list \<Rightarrow> ('k \<times> 'a) list" where
  "upsert k v [] = [(k, v)]"
| "upsert k v ((k', v') # m) = (if k = k' then (k, v) # m else (k', v') # upsert k v m)"

record CompactTables =
  object_map_by_id :: "(nat \<times> CheckpointDeltaObjectMapUpdate) list"
  inode_by_id :: "(nat \<times> CheckpointDeltaInodeUpdate) list"
  link_by_key :: "(wchar list \<times> CheckpointDeltaDirectoryLinkUpdate) list"
  btree_by_key :: "(byte list \<times> BtreeRecord) list"
  all_allocations :: "Extent list"
  all_deallocations :: "Extent list"

definition compact_step :: "CompactTables \<Rightarrow> CheckpointDelta \<Rightarrow> CompactTables" where
  "compact_step t d =
     t\<lparr>object_map_by_id := fold (\<lambda>u. upsert (ou_object_id u) u) (object_map_updates d) (object_map_by_id t),
       all_allocations := all_allocations t @ spaceman_allocations d,
       all_deallocations := all_deallocations t @ spaceman_deallocations d,
       inode_by_id := fold (\<lambda>u. upsert (iu_object_id u) u) (inode_updates d) (inode_by_id t),
       link_by_key := fold (\<lambda>u. upsert (DirectoryLinkKey (lu_parent_object_id u) (lu_entry_name u)) u)
         (directory_link_updates d) (link_by_key t),
       btree_by_key := fold (\<lambda>r. upsert (BtreeRecordKey r) r) (btree_records d) (btree_by_key t)\<rparr>"

text \<open>
  The loop over the deltas: the status, the tables filled so far and the transaction
  reached.
\<close>

fun compact_loop ::
  "string \<Rightarrow> nat \<Rightarrow> CompactTables \<Rightarrow> CheckpointDelta list \<Rightarrow>
   CheckpointDeltaParseStatus \<times> CompactTables \<times> nat" where
  "compact_loop identity expected_base t [] = (Ok, t, expected_base)"
| "compact_loop identity expected_base t (d # ds) =
     (if volume_identity d \<noteq> identity \<or> base_xid d \<noteq> expected_base \<or>
         \<not> IsValidXidRange (base_xid d) (target_xid d)
      then (if volume_identity d \<noteq> identity then WrongVolume else InvalidXid, t, expected_base)
      else compact_loop identity (target_xid d) (compact_step t d) ds)"

record CheckpointDeltaChainResult =
  result_status :: CheckpointDeltaParseStatus
  result_target_xid :: nat
  compacted :: CheckpointDelta

definition CompactChain ::
  "CheckpointDelta list \<Rightarrow> string \<Rightarrow> nat \<Rightarrow> CheckpointDeltaChainResult" where
  "CompactChain deltas identity base =
     (let empty_tables = \<lparr>object_map_by_id = [], inode_by_id = [], link_by_key = [],
            btree_by_key = [], all_allocations = [], all_deallocations = []\<rparr>;
          make = (\<lambda>identity base target t oms ins ls bs.
            \<lparr>volume_identity = identity, base_xid = base, target_xid = target,
             object_map_updates = oms, spaceman_allocations = all_allocations t,
             spaceman_deallocations = all_deallocations t, inode_updates = ins,
             directory_link_updates = ls, btree_records = bs\<rparr>)
      in if deltas = [] \<or> identity = [] \<or> base = 0
         then \<lparr>result_status = InvalidXid, result_target_xid = 0,
               compacted = make [] 0 0 empty_tables [] [] [] []\<rparr>
         else case compact_loop identity base empty_tables deltas of
                (status, t, target) \<Rightarrow>
                  if status \<noteq> Ok
                  then \<lparr>result_status = status, result_target_xid = 0,
                        compacted = make identity base 0 t [] [] [] []\<rparr>
                  else \<lparr>result_status = Ok, result_target_xid = target,
                        compacted = make identity base target t
                          (map (\<lambda>(_, u). u\<lparr>ou_xid := target\<rparr>) (object_map_by_id t))
                          (map (\<lambda>(_, u). u\<lparr>iu_xid := target\<rparr>) (inode_by_id t))
                          (map (\<lambda>(_, u). u\<lparr>lu_xid := target\<rparr>) (link_by_key t))
                          (map snd (btree_by_key t))\<rparr>)"


section \<open>Replay\<close>

text \<open>The accepted sequences of deltas, as a step relation.\<close>

inductive replays :: "CheckpointDeltaState \<Rightarrow> CheckpointDelta list \<Rightarrow> CheckpointDeltaState \<Rightarrow> bool" where
  replays_done: "replays s [] s"
| replays_step: "ApplyDelta s d = (Ok, s1) \<Longrightarrow> replays s1 ds s2 \<Longrightarrow> replays s (d # ds) s2"

inductive_cases replays_ConsE: "replays s (d # ds) s'"
inductive_simps replays_Nil: "replays s [] s'"

text \<open>The effect of an accepted delta, field by field.\<close>

definition delta_effect :: "CheckpointDelta \<Rightarrow> CheckpointDeltaState \<Rightarrow> CheckpointDeltaState \<Rightarrow> bool" where
  "delta_effect d s s' \<longleftrightarrow>
     state_volume_identity s' = state_volume_identity s \<and> checkpoint_xid s' = target_xid d \<and>
     object_map s' = fold (put ou_tombstone ou_object_id) (object_map_updates d) (object_map s) \<and>
     remove_extents (allocations s @ spaceman_allocations d) (spaceman_deallocations d) =
       Some (allocations s') \<and>
     inodes s' = fold (put iu_tombstone iu_object_id) (inode_updates d) (inodes s) \<and>
     directory_links s' =
       fold (put lu_tombstone (\<lambda>u. DirectoryLinkKey (lu_parent_object_id u) (lu_entry_name u)))
         (directory_link_updates d) (directory_links s) \<and>
     btree_table s' = fold (put record_tombstone BtreeRecordKey) (btree_records d) (btree_table s)"

lemma ApplyDelta_Ok:
  assumes "ApplyDelta s d = (Ok, s')"
  shows "delta_effect d s s'" and "state_volume_identity s = volume_identity d"
    and "checkpoint_xid s = base_xid d" and "IsValidDeltaForApply d"
proof -
  have "delta_effect d s s' \<and> state_volume_identity s = volume_identity d \<and>
      checkpoint_xid s = base_xid d \<and> IsValidDeltaForApply d"
    using assms by (auto simp: ApplyDelta_def delta_effect_def Let_def split: if_splits option.splits)
  then show "delta_effect d s s'" "state_volume_identity s = volume_identity d"
    "checkpoint_xid s = base_xid d" "IsValidDeltaForApply d" by blast+
qed

lemma ApplyDelta_rejected: "ApplyDelta s d = (e, s') \<Longrightarrow> e \<noteq> Ok \<Longrightarrow> s' = s"
  by (auto simp: ApplyDelta_def Let_def split: if_splits option.splits)

lemma IsValidXidRange_Suc: "IsValidXidRange b t \<Longrightarrow> t = Suc b"
proof -
  assume v: "IsValidXidRange b t"
  then have t: "b < t" "t = add64 b 1" "t \<le> u64_max" using IsValidXidRange_bound by (auto simp: IsValidXidRange_def)
  then have "b + 1 \<le> u64_max" by simp
  then show ?thesis using t(2) add64_exact by simp
qed

lemma ApplyDelta_xid: "ApplyDelta s d = (Ok, s') \<Longrightarrow> checkpoint_xid s' = Suc (checkpoint_xid s)"
  using ApplyDelta_Ok [of s d s'] IsValidXidRange_Suc
  by (simp add: delta_effect_def IsValidDeltaForApply_def)

lemma replays_facts:
  "replays s ds s' \<Longrightarrow> checkpoint_xid s' = checkpoint_xid s + length ds \<and>
     state_volume_identity s' = state_volume_identity s"
proof (induction rule: replays.induct)
  case (replays_done s)
  then show ?case by simp
next
  case (replays_step s d s1 ds s2)
  then show ?case
    using ApplyDelta_xid [OF replays_step(1)] ApplyDelta_Ok(1) [OF replays_step(1)]
    by (simp add: delta_effect_def)
qed

lemma apply_all_iff: "apply_all s ds = Inr s' \<longleftrightarrow> replays s ds s'"
proof (induction ds arbitrary: s)
  case Nil
  then show ?case by (auto simp: replays_Nil)
next
  case (Cons d ds)
  obtain e s1 where a: "ApplyDelta s d = (e, s1)" by fastforce
  have "replays s (d # ds) s' \<longleftrightarrow> e = Ok \<and> replays s1 ds s'"
    using a by (auto intro: replays_step elim: replays_ConsE)
  then show ?case using a Cons.IH [of s1] by simp
qed

text \<open>
  C18. A chain is applied as a whole or not at all: if it is rejected the state is unchanged;
  it is accepted exactly when it is not empty and each of its deltas is accepted in turn, and
  then the state's transaction has advanced by the number of deltas.
\<close>

theorem ApplyChain_atomic:
  "case ApplyChain s ds of (status, s') \<Rightarrow>
     if status = Ok
     then ds \<noteq> [] \<and> replays s ds s' \<and> checkpoint_xid s' = checkpoint_xid s + length ds
     else s' = s \<and> (ds = [] \<or> \<not> (\<exists>s''. replays s ds s''))"
proof -
  have not_ok: "apply_all t es = Inl e \<Longrightarrow> e \<noteq> Ok" for t es e
    by (induction es arbitrary: t) (auto split: prod.splits if_splits)
  show ?thesis
  proof (cases "apply_all s ds")
    case (Inl e)
    then have "\<not> replays s ds s''" for s'' using apply_all_iff [of s ds s''] by simp
    then show ?thesis using Inl not_ok by (auto simp: ApplyChain_def)
  next
    case (Inr nxt)
    then have "replays s ds nxt" by (simp add: apply_all_iff)
    then show ?thesis using Inr replays_facts by (auto simp: ApplyChain_def)
  qed
qed

section \<open>The replayed state is well formed\<close>

definition table_ok :: "('a \<Rightarrow> bool) \<Rightarrow> ('a \<Rightarrow> 'k) \<Rightarrow> ('a \<Rightarrow> bool) \<Rightarrow> ('k \<rightharpoonup> 'a) \<Rightarrow> bool" where
  "table_ok tombstone key P m \<longleftrightarrow> (\<forall>k u. m k = Some u \<longrightarrow> key u = k \<and> \<not> tombstone u \<and> P u)"

lemma table_ok_put: "table_ok tombstone key P m \<Longrightarrow> P u \<or> tombstone u \<Longrightarrow> table_ok tombstone key P (put tombstone key u m)"
  by (auto simp: table_ok_def put_def)

lemma table_ok_fold:
  "table_ok tombstone key P m \<Longrightarrow> \<forall>u \<in> set us. P u \<or> tombstone u \<Longrightarrow>
   table_ok tombstone key P (fold (put tombstone key) us m)"
  by (induction us arbitrary: m) (simp_all add: table_ok_put)

lemma table_ok_mono: "table_ok tombstone key P m \<Longrightarrow> (\<And>u. P u \<Longrightarrow> Q u) \<Longrightarrow> table_ok tombstone key Q m"
  by (auto simp: table_ok_def)

text \<open>
  Every table entry is stored under its own key, is no tombstone, was written by a
  transaction up to the current one, and has the fields the validation asks for; every
  allocation is non-empty.
\<close>

definition state_ok :: "CheckpointDeltaState \<Rightarrow> bool" where
  "state_ok s \<longleftrightarrow>
     table_ok ou_tombstone ou_object_id (\<lambda>u. ou_object_id u \<noteq> 0 \<and> ou_xid u \<le> checkpoint_xid s \<and>
       ou_physical_address u \<noteq> 0 \<and> ou_logical_size u \<noteq> 0) (object_map s) \<and>
     table_ok iu_tombstone iu_object_id (\<lambda>u. iu_object_id u \<noteq> 0 \<and> iu_xid u \<le> checkpoint_xid s \<and>
       iu_full_path u \<noteq> []) (inodes s) \<and>
     table_ok lu_tombstone (\<lambda>u. DirectoryLinkKey (lu_parent_object_id u) (lu_entry_name u))
       (\<lambda>u. lu_parent_object_id u \<noteq> 0 \<and> lu_child_object_id u \<noteq> 0 \<and> lu_xid u \<le> checkpoint_xid s \<and>
         lu_entry_name u \<noteq> []) (directory_links s) \<and>
     table_ok record_tombstone BtreeRecordKey (\<lambda>r. record_key r \<noteq> []) (btree_table s) \<and>
     (\<forall>e \<in> set (allocations s). physical_address e \<noteq> 0 \<and> bytes e \<noteq> 0)"

lemma remove_extents_subset: "remove_extents xs es = Some ys \<Longrightarrow> set ys \<subseteq> set xs"
proof (induction es arbitrary: xs)
  case Nil
  then show ?case by simp
next
  case (Cons e es)
  then have "remove_extents (remove1 e xs) es = Some ys"
    by (auto simp: RemoveExtent_def split: option.splits if_splits)
  then show ?case using Cons.IH set_remove1_subset [of e xs] by blast
qed

lemma ApplyDelta_state_ok:
  assumes "state_ok s" and "ApplyDelta s d = (e, s')"
  shows "state_ok s'"
proof (cases "e = Ok")
  case False
  then show ?thesis using assms ApplyDelta_rejected by blast
next
  case True
  note a = ApplyDelta_Ok [OF assms(2) [unfolded True]]
  have x: "checkpoint_xid s \<le> target_xid d" "checkpoint_xid s' = target_xid d"
    using ApplyDelta_xid [OF assms(2) [unfolded True]] a(1) by (simp_all add: delta_effect_def)
  have old: "table_ok ou_tombstone ou_object_id (\<lambda>u. ou_object_id u \<noteq> 0 \<and> ou_xid u \<le> target_xid d \<and>
       ou_physical_address u \<noteq> 0 \<and> ou_logical_size u \<noteq> 0) (object_map s)"
    "table_ok iu_tombstone iu_object_id (\<lambda>u. iu_object_id u \<noteq> 0 \<and> iu_xid u \<le> target_xid d \<and>
       iu_full_path u \<noteq> []) (inodes s)"
    "table_ok lu_tombstone (\<lambda>u. DirectoryLinkKey (lu_parent_object_id u) (lu_entry_name u))
       (\<lambda>u. lu_parent_object_id u \<noteq> 0 \<and> lu_child_object_id u \<noteq> 0 \<and> lu_xid u \<le> target_xid d \<and>
         lu_entry_name u \<noteq> []) (directory_links s)"
    using assms(1) x(1) unfolding state_ok_def table_ok_def by fastforce+
  have "set (allocations s') \<subseteq> set (allocations s) \<union> set (spaceman_allocations d)"
    using a(1) remove_extents_subset by (fastforce simp: delta_effect_def)
  then show ?thesis
    using a(1,4) old assms(1) unfolding state_ok_def x(2)
    by (auto simp: delta_effect_def IsValidDeltaForApply_def intro!: table_ok_fold)
qed

text \<open>
  The contract of a store that replays updates by version: a rejected update changes
  nothing, an accepted one advances the version by one, and no outcome breaks the invariant.
\<close>

locale versioned_store =
  fixes version :: "'s \<Rightarrow> nat"
    and attempt :: "'s \<Rightarrow> 'd \<Rightarrow> CheckpointDeltaParseStatus \<times> 's"
    and invar :: "'s \<Rightarrow> bool"
  assumes rejected: "attempt s d = (e, s') \<Longrightarrow> e \<noteq> Ok \<Longrightarrow> s' = s"
    and accepted: "attempt s d = (Ok, s') \<Longrightarrow> version s' = Suc (version s)"
    and keeps: "invar s \<Longrightarrow> attempt s d = (e, s') \<Longrightarrow> invar s'"
begin

lemma attempts_invar: "invar s \<Longrightarrow> invar (foldl (\<lambda>s d. snd (attempt s d)) s ds)"
proof (induction ds arbitrary: s)
  case Nil
  then show ?case by simp
next
  case (Cons d ds)
  have "invar (snd (attempt s d))" using keeps [OF Cons.prems, of d] by (cases "attempt s d") auto
  then show ?case using Cons.IH by simp
qed

lemma attempts_version:
  "version s \<le> version (foldl (\<lambda>s d. snd (attempt s d)) s ds) \<and>
   version (foldl (\<lambda>s d. snd (attempt s d)) s ds) \<le> version s + length ds"
proof (induction ds arbitrary: s)
  case Nil
  then show ?case by simp
next
  case (Cons d ds)
  have "version (snd (attempt s d)) = version s \<or> version (snd (attempt s d)) = Suc (version s)"
    using rejected [of s d] accepted [of s d] by (cases "attempt s d") fastforce
  then show ?case using Cons.IH [of "snd (attempt s d)"] by auto
qed

end

interpretation delta_store: versioned_store checkpoint_xid ApplyDelta state_ok
  by unfold_locales (auto intro: ApplyDelta_rejected ApplyDelta_xid ApplyDelta_state_ok)




section \<open>Compaction keeps the net effect\<close>

lemma fold_put_find:
  "fold (put tombstone key) us m k =
     (case find (\<lambda>u. key u = k) (rev us) of
        None \<Rightarrow> m k | Some u \<Rightarrow> if tombstone u then None else Some u)"
proof (induction us rule: rev_induct)
  case Nil
  then show ?case by simp
next
  case (snoc u us)
  then show ?case by (auto simp: put_def)
qed

lemma map_of_upsert: "map_of (upsert k v t) = (map_of t)(k \<mapsto> v)"
  by (induction k v t rule: upsert.induct) auto

lemma upsert_keys: "fst ` set (upsert k v t) = insert k (fst ` set t)"
  by (induction k v t rule: upsert.induct) auto

lemma upsert_distinct: "distinct (map fst t) \<Longrightarrow> distinct (map fst (upsert k v t))"
proof (induction k v t rule: upsert.induct)
  case (2 k v k' v' t)
  then show ?case using upsert_keys [of k v t] by auto
qed simp

lemma upsert_own_keys:
  "\<forall>(k, u) \<in> set t. key u = k \<Longrightarrow> \<forall>(k, u) \<in> set (upsert (key u) u t). key u = k"
  by (induction "key u" u t rule: upsert.induct) auto

lemma fold_upsert:
  shows "map_of (fold (\<lambda>u. upsert (key u) u) us []) k = find (\<lambda>u. key u = k) (rev us)"
    and "distinct (map fst (fold (\<lambda>u. upsert (key u) u) us []))"
    and "\<forall>(k, u) \<in> set (fold (\<lambda>u. upsert (key u) u) us []). key u = k"
proof (induction us rule: rev_induct)
  case Nil
  { case 1 show ?case by simp }
  { case 2 show ?case by simp }
  { case 3 show ?case by simp }
next
  case (snoc u us)
  { case 1 show ?case using snoc(1) by (simp add: map_of_upsert) }
  { case 2 show ?case using snoc(2) by (simp add: upsert_distinct) }
  { case 3 show ?case using upsert_own_keys [OF snoc(3), of u] by simp }
qed

lemma find_append: "find P (xs @ ys) = (case find P xs of None \<Rightarrow> find P ys | Some x \<Rightarrow> Some x)"
  by (induction xs) simp_all

lemma find_table:
  assumes "distinct (map fst t)" and "\<forall>(k, u) \<in> set t. key u = k" and "\<And>u. key (f u) = key u"
  shows "find (\<lambda>u. key u = k) (rev (map (\<lambda>(_, u). f u) t)) = map_option f (map_of t k)"
  using assms(1,2)
proof (induction t)
  case Nil
  then show ?case by simp
next
  case (Cons p t)
  obtain k' u where p: "p = (k', u)" by (cases p)
  have IH: "find (\<lambda>u. key u = k) (rev (map (\<lambda>(_, u). f u) t)) = map_option f (map_of t k)"
    using Cons by auto
  show ?case
  proof (cases "k' = k")
    case True
    then have "map_of t k = None" using Cons.prems(1) p by (auto simp: map_of_eq_None_iff)
    then show ?thesis using True IH p Cons.prems(2) assms(3) by (simp add: find_append)
  next
    case False
    then show ?thesis using IH p Cons.prems(2) assms(3) by (simp add: find_append split: option.splits)
  qed
qed

text \<open>
  Writing the compacted table (with fields \<open>f\<close> changed that neither the key nor the
  tombstone depends on) has the effect of writing all the updates, up to what \<open>strip\<close>
  removes.
\<close>

lemma compacted_table:
  assumes "\<And>u. key (f u) = key u" and "\<And>u. tombstone (f u) = tombstone u" and "\<And>u. strip (f u) = strip u"
  shows "map_option strip (fold (put tombstone key)
           (map (\<lambda>(_, u). f u) (fold (\<lambda>u. upsert (key u) u) us [])) m k) =
         map_option strip (fold (put tombstone key) us m k)"
  unfolding fold_put_find
    find_table [where key = key and f = f, OF fold_upsert(2) [of key] fold_upsert(3) [of key] assms(1)]
    fold_upsert(1)
  by (auto simp: assms(2,3) split: option.split)

lemma remove_extents_mset:
  "remove_extents xs es = Some ys \<Longrightarrow> mset ys + mset es = mset xs"
proof (induction es arbitrary: xs)
  case Nil
  then show ?case by simp
next
  case (Cons e es)
  then have "e \<in> set xs" "remove_extents (remove1 e xs) es = Some ys"
    by (auto simp: RemoveExtent_def split: option.splits if_splits)
  then show ?case using Cons.IH [of "remove1 e xs"] by simp
qed

lemma remove_extents_possible: "mset es \<subseteq># mset xs \<Longrightarrow> \<exists>ys. remove_extents xs es = Some ys"
proof (induction es arbitrary: xs)
  case Nil
  then show ?case by simp
next
  case (Cons e es)
  have e: "e \<in> set xs" using Cons.prems by (metis insert_subset_eq_iff mset.simps(2) set_mset_mset)
  have "mset es \<subseteq># mset (remove1 e xs)"
    using Cons.prems by (simp add: insert_subset_eq_iff)
  then show ?case using Cons.IH [of "remove1 e xs"] e by (simp add: RemoveExtent_def)
qed

definition replayed_updates :: "(CheckpointDelta \<Rightarrow> 'a list) \<Rightarrow> CheckpointDelta list \<Rightarrow> 'a list" where
  "replayed_updates f ds = concat (map f ds)"

lemma balance_add:
  fixes a b c d e f g :: "'x multiset"
  assumes "a + b = c + d" and "e + f = a + g"
  shows "e + (b + f) = c + (d + g)"
proof -
  have "e + (b + f) = (e + f) + b" by (simp add: ac_simps)
  also have "\<dots> = (a + b) + g" unfolding assms(2) by (simp add: ac_simps)
  also have "\<dots> = c + (d + g)" unfolding assms(1) by (simp add: ac_simps)
  finally show ?thesis .
qed

lemma replays_effect:
  "replays s ds s' \<Longrightarrow>
     object_map s' = fold (put ou_tombstone ou_object_id) (replayed_updates object_map_updates ds) (object_map s) \<and>
     inodes s' = fold (put iu_tombstone iu_object_id) (replayed_updates inode_updates ds) (inodes s) \<and>
     directory_links s' =
       fold (put lu_tombstone (\<lambda>u. DirectoryLinkKey (lu_parent_object_id u) (lu_entry_name u)))
         (replayed_updates directory_link_updates ds) (directory_links s) \<and>
     btree_table s' =
       fold (put record_tombstone BtreeRecordKey) (replayed_updates btree_records ds) (btree_table s) \<and>
     mset (allocations s') + mset (replayed_updates spaceman_deallocations ds) =
       mset (allocations s) + mset (replayed_updates spaceman_allocations ds)"
proof (induction rule: replays.induct)
  case (replays_done s)
  then show ?case by (simp add: replayed_updates_def)
next
  case (replays_step s d s1 ds s2)
  note e = ApplyDelta_Ok(1) [OF replays_step(1), unfolded delta_effect_def]
  have "mset (allocations s1) + mset (spaceman_deallocations d) = mset (allocations s) + mset (spaceman_allocations d)"
    using e remove_extents_mset by fastforce
  then have "mset (allocations s2) + mset (replayed_updates spaceman_deallocations (d # ds)) =
      mset (allocations s) + mset (replayed_updates spaceman_allocations (d # ds))"
    using replays_step(3) by (auto simp: replayed_updates_def intro: balance_add)
  then show ?case using e replays_step(3) by (simp add: replayed_updates_def)
qed

lemma compact_loop_tables:
  assumes "compact_loop identity base t ds = (Ok, t', target)"
  shows "object_map_by_id t' = fold (\<lambda>u. upsert (ou_object_id u) u) (replayed_updates object_map_updates ds) (object_map_by_id t)"
    and "inode_by_id t' = fold (\<lambda>u. upsert (iu_object_id u) u) (replayed_updates inode_updates ds) (inode_by_id t)"
    and "link_by_key t' = fold (\<lambda>u. upsert (DirectoryLinkKey (lu_parent_object_id u) (lu_entry_name u)) u)
      (replayed_updates directory_link_updates ds) (link_by_key t)"
    and "btree_by_key t' = fold (\<lambda>r. upsert (BtreeRecordKey r) r) (replayed_updates btree_records ds) (btree_by_key t)"
    and "all_allocations t' = all_allocations t @ replayed_updates spaceman_allocations ds"
    and "all_deallocations t' = all_deallocations t @ replayed_updates spaceman_deallocations ds"
    and "target = base + length ds"
proof -
  have "object_map_by_id t' = fold (\<lambda>u. upsert (ou_object_id u) u) (replayed_updates object_map_updates ds) (object_map_by_id t)
    \<and> inode_by_id t' = fold (\<lambda>u. upsert (iu_object_id u) u) (replayed_updates inode_updates ds) (inode_by_id t)
    \<and> link_by_key t' = fold (\<lambda>u. upsert (DirectoryLinkKey (lu_parent_object_id u) (lu_entry_name u)) u)
      (replayed_updates directory_link_updates ds) (link_by_key t)
    \<and> btree_by_key t' = fold (\<lambda>r. upsert (BtreeRecordKey r) r) (replayed_updates btree_records ds) (btree_by_key t)
    \<and> all_allocations t' = all_allocations t @ replayed_updates spaceman_allocations ds
    \<and> all_deallocations t' = all_deallocations t @ replayed_updates spaceman_deallocations ds
    \<and> target = base + length ds"
    using assms
  proof (induction ds arbitrary: base t)
    case Nil
    then show ?case by (simp add: replayed_updates_def)
  next
    case (Cons d ds)
    then have d: "base_xid d = base" "IsValidXidRange (base_xid d) (target_xid d)"
      and rest: "compact_loop identity (target_xid d) (compact_step t d) ds = (Ok, t', target)"
      by (auto split: if_splits)
    have "target_xid d = Suc base" using IsValidXidRange_Suc [OF d(2)] d(1) by simp
    then show ?case using Cons.IH [OF rest] by (simp add: replayed_updates_def compact_step_def)
  qed
  then show "object_map_by_id t' = fold (\<lambda>u. upsert (ou_object_id u) u) (replayed_updates object_map_updates ds) (object_map_by_id t)"
    "inode_by_id t' = fold (\<lambda>u. upsert (iu_object_id u) u) (replayed_updates inode_updates ds) (inode_by_id t)"
    "link_by_key t' = fold (\<lambda>u. upsert (DirectoryLinkKey (lu_parent_object_id u) (lu_entry_name u)) u)
      (replayed_updates directory_link_updates ds) (link_by_key t)"
    "btree_by_key t' = fold (\<lambda>r. upsert (BtreeRecordKey r) r) (replayed_updates btree_records ds) (btree_by_key t)"
    "all_allocations t' = all_allocations t @ replayed_updates spaceman_allocations ds"
    "all_deallocations t' = all_deallocations t @ replayed_updates spaceman_deallocations ds"
    "target = base + length ds" by simp_all
qed


lemma CompactChain_Ok:
  assumes "result_status (CompactChain ds identity base) = Ok"
  obtains t target where "ds \<noteq> []" "base \<noteq> 0"
    "compact_loop identity base \<lparr>object_map_by_id = [], inode_by_id = [], link_by_key = [],
       btree_by_key = [], all_allocations = [], all_deallocations = []\<rparr> ds = (Ok, t, target)"
    "compacted (CompactChain ds identity base) =
       \<lparr>volume_identity = identity, base_xid = base, target_xid = target,
        object_map_updates = map (\<lambda>(_, u). u\<lparr>ou_xid := target\<rparr>) (object_map_by_id t),
        spaceman_allocations = all_allocations t, spaceman_deallocations = all_deallocations t,
        inode_updates = map (\<lambda>(_, u). u\<lparr>iu_xid := target\<rparr>) (inode_by_id t),
        directory_link_updates = map (\<lambda>(_, u). u\<lparr>lu_xid := target\<rparr>) (link_by_key t),
        btree_records = map snd (btree_by_key t)\<rparr>"
  using assms
  by (auto simp: CompactChain_def Let_def split: if_splits prod.splits)

lemma compact_loop_first:
  "compact_loop identity base t ds = (Ok, t', target) \<Longrightarrow> ds \<noteq> [] \<Longrightarrow> base_xid (hd ds) = base"
  by (cases ds) (auto split: if_splits)

lemma compact_loop_bound:
  "compact_loop identity base t ds = (Ok, t', target) \<Longrightarrow> ds \<noteq> [] \<Longrightarrow> target \<le> u64_max"
proof (induction ds arbitrary: base t)
  case Nil
  then show ?case by simp
next
  case (Cons d ds)
  then have "IsValidXidRange (base_xid d) (target_xid d)"
    "compact_loop identity (target_xid d) (compact_step t d) ds = (Ok, t', target)"
    by (auto split: if_splits)
  then show ?case using Cons.IH IsValidXidRange_bound by (cases "ds = []") auto
qed

text \<open>
  Compacting a chain keeps its net effect: for a chain that can be replayed, the
  compacted delta spans the same transactions, its table updates lead to the same object
  map, inodes and directory links up to the transaction number stored in the entries, to the
  same B-tree records, and its allocations and deallocations to the same allocations.
\<close>

lemma CompactChain_effect:
  assumes "replays s ds s'" and "result_status (CompactChain ds identity base) = Ok"
  defines "c \<equiv> compacted (CompactChain ds identity base)"
  shows "base_xid c = checkpoint_xid s \<and> target_xid c = checkpoint_xid s' \<and>
     (\<forall>k. map_option (ou_xid_update (\<lambda>_. 0)) (fold (put ou_tombstone ou_object_id) (object_map_updates c) (object_map s) k)
        = map_option (ou_xid_update (\<lambda>_. 0)) (object_map s' k)) \<and>
     (\<forall>k. map_option (iu_xid_update (\<lambda>_. 0)) (fold (put iu_tombstone iu_object_id) (inode_updates c) (inodes s) k)
        = map_option (iu_xid_update (\<lambda>_. 0)) (inodes s' k)) \<and>
     (\<forall>k. map_option (lu_xid_update (\<lambda>_. 0)) (fold (put lu_tombstone
          (\<lambda>u. DirectoryLinkKey (lu_parent_object_id u) (lu_entry_name u))) (directory_link_updates c) (directory_links s) k)
        = map_option (lu_xid_update (\<lambda>_. 0)) (directory_links s' k)) \<and>
     (\<forall>k. fold (put record_tombstone BtreeRecordKey) (btree_records c) (btree_table s) k = btree_table s' k) \<and>
     (\<exists>e. remove_extents (allocations s @ spaceman_allocations c) (spaceman_deallocations c) = Some e \<and>
        mset e = mset (allocations s'))"
proof -
  obtain t target where ne: "ds \<noteq> []" and loop: "compact_loop identity base \<lparr>object_map_by_id = [], inode_by_id = [],
       link_by_key = [], btree_by_key = [], all_allocations = [], all_deallocations = []\<rparr> ds = (Ok, t, target)"
    and c: "c = \<lparr>volume_identity = identity, base_xid = base, target_xid = target,
        object_map_updates = map (\<lambda>(_, u). u\<lparr>ou_xid := target\<rparr>) (object_map_by_id t),
        spaceman_allocations = all_allocations t, spaceman_deallocations = all_deallocations t,
        inode_updates = map (\<lambda>(_, u). u\<lparr>iu_xid := target\<rparr>) (inode_by_id t),
        directory_link_updates = map (\<lambda>(_, u). u\<lparr>lu_xid := target\<rparr>) (link_by_key t),
        btree_records = map snd (btree_by_key t)\<rparr>"
    using CompactChain_Ok [OF assms(2)] unfolding c_def by metis
  note tb = compact_loop_tables [OF loop, simplified]
  note e = replays_effect [OF assms(1)]
  obtain d ds' where ds: "ds = d # ds'" using ne by (cases ds) auto
  have "base_xid d = checkpoint_xid s"
    using assms(1) ApplyDelta_Ok(3) unfolding ds by (auto elim: replays_ConsE)
  then have base: "base = checkpoint_xid s" using compact_loop_first [OF loop ne] ds by simp
  have xid: "target = checkpoint_xid s'" using tb(7) base replays_facts [OF assms(1)] by simp
  have alloc: "mset (allocations s') + mset (spaceman_deallocations c) = mset (allocations s @ spaceman_allocations c)"
    using e tb(5,6) by (simp add: c)
  then have "mset (spaceman_deallocations c) \<subseteq># mset (allocations s @ spaceman_allocations c)"
    by (metis mset_subset_eq_add_right)
  then obtain x where x: "remove_extents (allocations s @ spaceman_allocations c) (spaceman_deallocations c) = Some x"
    using remove_extents_possible by blast
  have "mset x = mset (allocations s')" using remove_extents_mset [OF x] alloc by (metis add_right_cancel)
  moreover have "\<forall>k. fold (put record_tombstone BtreeRecordKey) (btree_records c) (btree_table s) k = btree_table s' k"
    using compacted_table [where key = BtreeRecordKey and f = id and strip = id and tombstone = record_tombstone
        and us = "replayed_updates btree_records ds" and m = "btree_table s"] e tb(4)
    by (simp add: c option.map_id case_prod_unfold)
  moreover have "\<forall>k. map_option (ou_xid_update (\<lambda>_. 0)) (fold (put ou_tombstone ou_object_id) (object_map_updates c) (object_map s) k)
        = map_option (ou_xid_update (\<lambda>_. 0)) (object_map s' k)"
    using e tb(1) by (simp add: c compacted_table)
  moreover have "\<forall>k. map_option (iu_xid_update (\<lambda>_. 0)) (fold (put iu_tombstone iu_object_id) (inode_updates c) (inodes s) k)
        = map_option (iu_xid_update (\<lambda>_. 0)) (inodes s' k)"
    using e tb(2) by (simp add: c compacted_table)
  moreover have "\<forall>k. map_option (lu_xid_update (\<lambda>_. 0)) (fold (put lu_tombstone
          (\<lambda>u. DirectoryLinkKey (lu_parent_object_id u) (lu_entry_name u))) (directory_link_updates c) (directory_links s) k)
        = map_option (lu_xid_update (\<lambda>_. 0)) (directory_links s' k)"
    using e tb(3) by (simp add: c compacted_table)
  ultimately show ?thesis using x base xid by (auto simp: c)
qed

text \<open>
  C21. The compacted delta of a chain of two or more deltas spans more than one transaction,
  which both consumers of a delta reject: it cannot be applied to any state, and its encoding
  is not accepted by the decoder.
\<close>

theorem CompactChain_not_replayable:
  assumes "result_status (CompactChain ds identity base) = Ok" and "2 \<le> length ds"
  shows "fst (ApplyDelta s (compacted (CompactChain ds identity base))) \<noteq> Ok \<and>
    fst (Decode (Encode (compacted (CompactChain ds identity base))) identity) \<noteq> Ok"
proof -
  define c where "c = compacted (CompactChain ds identity base)"
  obtain t target where ne: "ds \<noteq> []" and loop: "compact_loop identity base \<lparr>object_map_by_id = [], inode_by_id = [],
       link_by_key = [], btree_by_key = [], all_allocations = [], all_deallocations = []\<rparr> ds = (Ok, t, target)"
    and c: "base_xid c = base" "target_xid c = target" "volume_identity c = identity"
    by (rule CompactChain_Ok [OF assms(1)]) (rule that, simp_all add: c_def)
  have len: "target = base + length ds" by (rule compact_loop_tables(7) [OF loop])
  have bound: "target \<le> u64_max" by (rule compact_loop_bound [OF loop ne])
  have bad: "\<not> IsValidXidRange (base_xid c) (target_xid c)"
  proof
    assume "IsValidXidRange (base_xid c) (target_xid c)"
    from IsValidXidRange_Suc [OF this] show False using len assms(2) c by simp
  qed
  have "fst (ApplyDelta s c) \<noteq> Ok"
    using bad ApplyDelta_Ok(4) [of s c] by (cases "ApplyDelta s c") (auto simp: IsValidDeltaForApply_def)
  moreover have "fst (Decode (Encode c) identity) \<noteq> Ok"
  proof (cases "EstimateEncodedDeltaBytes c")
    case None
    then show ?thesis by (simp add: Encode_def Decode_def)
  next
    case (Some n)
    define out where "out = delta_header c @ delta_sections c"
    have "\<exists>h r. read_header (Encode c) = Some (h, r) \<and> h_base_xid h = base_xid c \<and> h_target_xid h = target_xid c"
      unfolding Encode_eq [OF Some] out_def [symmetric] unfolding out_def delta_header_def
      using bound len c read_header_patched [of kMagic kHeaderBytes "base_xid c" "target_xid c"]
        ComputeChecksum_bound by (simp add: kMagic_def kHeaderBytes_def u32_max_def)
    then show ?thesis using bad by (auto simp: Decode_def split: if_splits)
  qed
  ultimately show ?thesis by (simp add: c_def)
qed

definition sample_delta2 :: CheckpointDelta where
  "sample_delta2 = sample_delta\<lparr>base_xid := 8, target_xid := 9\<rparr>"

definition sample_state :: CheckpointDeltaState where
  "sample_state = \<lparr>state_volume_identity = ''vol'', checkpoint_xid = 7, object_map = (\<lambda>_. None),
     allocations = [], inodes = (\<lambda>_. None), directory_links = (\<lambda>_. None), btree_table = (\<lambda>_. None)\<rparr>"

lemma sample_compact: "result_status (CompactChain [sample_delta, sample_delta2] ''vol'' 7) = Ok"
  by (simp add: CompactChain_def Let_def sample_delta_def sample_delta2_def IsValidXidRange_def add64_def)

lemma sample_replay: "\<exists>s'. replays sample_state [sample_delta, sample_delta2] s'"
  unfolding apply_all_iff [symmetric]
  by (simp add: ApplyDelta_def sample_state_def sample_delta_def sample_delta2_def
       IsValidDeltaForApply_def IsValidXidRange_def add64_def)

lemma CompactChain_effect_witness:
  "\<exists>s'. replays sample_state [sample_delta, sample_delta2] s' \<and>
     target_xid (compacted (CompactChain [sample_delta, sample_delta2] ''vol'' 7)) = checkpoint_xid s'"
  using sample_replay CompactChain_effect [OF _ sample_compact] by blast

theorem CompactChain_not_replayable_witness:
  "fst (ApplyDelta sample_state (compacted (CompactChain [sample_delta, sample_delta2] ''vol'' 7))) \<noteq> Ok"
  using CompactChain_not_replayable [OF sample_compact] by simp

theorem ApplyChain_atomic_witness:
  "\<exists>s'. ApplyChain sample_state [sample_delta, sample_delta2] = (Ok, s') \<and> checkpoint_xid s' = 9"
proof -
  obtain r where "replays sample_state [sample_delta, sample_delta2] r" using sample_replay by blast
  then have "fst (ApplyChain sample_state [sample_delta, sample_delta2]) = Ok"
    using ApplyChain_atomic [where s = sample_state and ds = "[sample_delta, sample_delta2]"]
    by (auto split: prod.splits if_splits)
  then show ?thesis
    using ApplyChain_atomic [where s = sample_state and ds = "[sample_delta, sample_delta2]"]
    by (cases "ApplyChain sample_state [sample_delta, sample_delta2]") (auto simp: sample_state_def)
qed

end
