(* ===== verification/ExtentAllocation.thy ===== *)
theory ExtentAllocation
  imports ExtentAllocator
begin

text \<open>
  Allocation from the free list of \<^verbatim>\<open>src/ExtentAllocator.cpp\<close>: a contiguous range
  taken from a free extent or from the tail beyond the highest extent, the rollback of such
  an allocation, the extraction of clean block runs from a partly unavailable extent by
  binary search, and the fragmented allocation of a file's extents.

  The callbacks of \<^verbatim>\<open>AllocationPolicy\<close> are function values of the model's policy
  record; the \<^verbatim>\<open>context\<close> pointer is the closure.  A null callback is \<^term>\<open>None\<close>.
\<close>

section \<open>Data\<close>

record AllocationPolicy =
  container_bytes :: "nat option"
  overlaps_unavailable :: "(nat \<Rightarrow> nat \<Rightarrow> bool) option"
  advance_past_unavailable :: "(nat \<Rightarrow> nat \<Rightarrow> nat option) option"

datatype AllocationSource = SourceNone | SourceFreeExtent | SourceEphemeralTail

record ContiguousAllocationUndo =
  source :: AllocationSource
  free_extent_index :: nat
  previous_free_extent :: Extent
  free_extent_erased :: bool
  previous_next_ephemeral_extent :: nat
  previous_ephemeral_free_extents :: "Extent list"

section \<open>Policy queries\<close>

definition FitsContainer :: "nat \<Rightarrow> nat \<Rightarrow> AllocationPolicy \<Rightarrow> bool" where
  "FitsContainer pa n policy =
     (case RangeEnd pa n of
        None \<Rightarrow> False
      | Some range_end \<Rightarrow>
          (case container_bytes policy of None \<Rightarrow> True | Some limit \<Rightarrow> range_end \<le> limit))"

definition OverlapsUnavailable :: "nat \<Rightarrow> nat \<Rightarrow> AllocationPolicy \<Rightarrow> bool" where
  "OverlapsUnavailable pa n policy =
     (case overlaps_unavailable policy of None \<Rightarrow> False | Some f \<Rightarrow> f pa n)"

definition IsCleanWholeExtent :: "Extent \<Rightarrow> AllocationPolicy \<Rightarrow> bool" where
  "IsCleanWholeExtent e policy =
     (RangeEnd (physical_address e) (bytes e) \<noteq> None \<and>
      FitsContainer (physical_address e) (bytes e) policy \<and>
      \<not> OverlapsUnavailable (physical_address e) (bytes e) policy)"

section \<open>Contiguous allocation\<close>

text \<open>
  One iteration of the search loop of \<^verbatim>\<open>AllocateContiguousFromFree\<close>:
  \<^term>\<open>None\<close> is \<^verbatim>\<open>continue\<close>, otherwise the address chosen inside the extent and
  the extent's end.
\<close>

definition try_free_extent :: "nat \<Rightarrow> AllocationPolicy \<Rightarrow> Extent \<Rightarrow> (nat \<times> nat) option" where
  "try_free_extent n policy e =
     (if bytes e < n then None
      else case RangeEnd (physical_address e) (bytes e) of
        None \<Rightarrow> None
      | Some extent_end \<Rightarrow>
          let a = physical_address e in
          if a > u64_max - n then None
          else if \<not> FitsContainer a n policy then None
          else if OverlapsUnavailable a n policy then
            (case advance_past_unavailable policy of
               None \<Rightarrow> None
             | Some advance \<Rightarrow>
                 (case advance a n of
                    None \<Rightarrow> None
                  | Some b \<Rightarrow>
                      if b \<le> a \<or> b > extent_end \<or> b > u64_max - n \<or> b + n > extent_end \<or>
                         \<not> FitsContainer b n policy \<or> OverlapsUnavailable b n policy
                      then None else Some (b, extent_end)))
          else Some (a, extent_end))"

fun search_free_extents ::
  "nat \<Rightarrow> AllocationPolicy \<Rightarrow> nat \<Rightarrow> Extent list \<Rightarrow> (nat \<times> nat \<times> nat) option" where
  "search_free_extents n policy i [] = None"
| "search_free_extents n policy i (e # es) =
     (case try_free_extent n policy e of
        None \<Rightarrow> search_free_extents n policy (Suc i) es
      | Some (a, extent_end) \<Rightarrow> Some (i, a, extent_end))"

definition AllocateContiguousFromFree ::
  "Extent list \<Rightarrow> nat \<Rightarrow> AllocationPolicy \<Rightarrow> ContiguousAllocationUndo \<Rightarrow>
   nat option \<times> Extent list \<times> ContiguousAllocationUndo" where
  "AllocateContiguousFromFree fs n policy undo =
     (if n = 0 then (None, fs, undo)
      else case search_free_extents n policy 0 fs of
        None \<Rightarrow> (None, fs, undo)
      | Some (i, a, extent_end) \<Rightarrow>
          let allocation_end = a + n;
              rest = mk_extent allocation_end (extent_end - allocation_end);
              erased = (bytes rest = 0);
              fs' = (if erased then take i fs @ drop (Suc i) fs else fs[i := rest])
          in (Some a, fs',
              \<lparr>source = SourceFreeExtent, free_extent_index = i, previous_free_extent = fs ! i,
               free_extent_erased = erased, previous_next_ephemeral_extent = 0,
               previous_ephemeral_free_extents = []\<rparr>))"

text \<open>
  The tail allocation first moves past an unavailable range (at most once), then re-checks.
\<close>

definition ephemeral_address :: "nat \<Rightarrow> nat \<Rightarrow> AllocationPolicy \<Rightarrow> nat option" where
  "ephemeral_address current n policy =
     (if current = 0 \<or> current > u64_max - n then None
      else if OverlapsUnavailable current n policy then
        (case advance_past_unavailable policy of
           None \<Rightarrow> None
         | Some advance \<Rightarrow>
             (case advance current n of
                None \<Rightarrow> None
              | Some b \<Rightarrow>
                  if b \<le> current then None
                  else if b = 0 \<or> b > u64_max - n then None
                  else Some b))
      else Some current)"

definition AllocateContiguous ::
  "Extent list \<Rightarrow> nat \<Rightarrow> nat \<Rightarrow> AllocationPolicy \<Rightarrow> ContiguousAllocationUndo \<Rightarrow>
   nat option \<times> Extent list \<times> nat \<times> ContiguousAllocationUndo" where
  "AllocateContiguous fs next_ephemeral n policy undo =
     (case AllocateContiguousFromFree fs n policy undo of
        (Some a, fs', undo') \<Rightarrow> (Some a, fs', next_ephemeral, undo')
      | (None, fs', undo') \<Rightarrow>
          (case ephemeral_address next_ephemeral n policy of
             None \<Rightarrow> (None, fs', next_ephemeral, undo')
           | Some current \<Rightarrow>
               if \<not> FitsContainer current n policy then (None, fs', next_ephemeral, undo')
               else if OverlapsUnavailable current n policy then (None, fs', next_ephemeral, undo')
               else
                 (case RemoveAllocatedExtent fs' (mk_extent current n) of
                    (False, _) \<Rightarrow> (None, fs', next_ephemeral, undo')
                  | (True, removed) \<Rightarrow>
                      (Some current, removed, current + n,
                       \<lparr>source = SourceEphemeralTail, free_extent_index = 0,
                        previous_free_extent = mk_extent 0 0, free_extent_erased = False,
                        previous_next_ephemeral_extent = next_ephemeral,
                        previous_ephemeral_free_extents = fs'\<rparr>))))"

definition RollbackContiguousAllocation ::
  "Extent list \<Rightarrow> nat \<Rightarrow> ContiguousAllocationUndo \<Rightarrow> bool \<times> Extent list \<times> nat" where
  "RollbackContiguousAllocation fs next_ephemeral undo =
     (case source undo of
        SourceFreeExtent \<Rightarrow>
          if free_extent_erased undo then
            let at = min (free_extent_index undo) (length fs);
                fs' = take at fs @ previous_free_extent undo # drop at fs
            in (IsSortedAndValid fs', fs', next_ephemeral)
          else if free_extent_index undo < length fs then
            let fs' = fs[free_extent_index undo := previous_free_extent undo]
            in (IsSortedAndValid fs', fs', next_ephemeral)
          else (False, fs, next_ephemeral)
      | SourceEphemeralTail \<Rightarrow>
          (IsSortedAndValid (previous_ephemeral_free_extents undo),
           previous_ephemeral_free_extents undo, previous_next_ephemeral_extent undo)
      | SourceNone \<Rightarrow> (False, fs, next_ephemeral))"

section \<open>Clean runs of a partly unavailable extent\<close>

text \<open>
  The binary search for the longest clean prefix; \<open>overlaps\<close> is
  \<^verbatim>\<open>OverlapsUnavailable(curr, _)\<close>.  The caller has rejected a zero block size, where
  the source would divide by zero; the model returns at once there.
\<close>

function clean_prefix_search :: "(nat \<Rightarrow> bool) \<Rightarrow> nat \<Rightarrow> nat \<Rightarrow> nat \<Rightarrow> nat \<Rightarrow> nat" where
  "clean_prefix_search overlaps block_size low high clean_len =
     (if block_size \<noteq> 0 \<and> low \<le> high then
        let low_blocks = low div block_size; high_blocks = high div block_size;
            mid = (low_blocks + (high_blocks - low_blocks) div 2) * block_size
        in if \<not> overlaps mid
           then clean_prefix_search overlaps block_size (mid + block_size) high mid
           else if mid \<le> block_size then clean_len
           else clean_prefix_search overlaps block_size low (mid - block_size) clean_len
      else clean_len)"
  by pat_completeness auto

lemma search_mid_bounds:
  fixes bs low high :: nat
  assumes "bs \<noteq> 0" and "low \<le> high"
  defines "mid \<equiv> (low div bs + (high div bs - low div bs) div 2) * bs"
  shows "mid \<le> high" and "low < mid + bs" and "low div bs * bs \<le> mid" and "bs dvd mid"
proof -
  have le: "low div bs \<le> high div bs" using assms(2) by (rule div_le_mono)
  have "low div bs + (high div bs - low div bs) div 2 \<le> high div bs" using le by linarith
  then have "mid \<le> high div bs * bs" unfolding mid_def by (rule mult_le_mono1)
  then show "mid \<le> high" by (meson div_times_less_eq_dividend le_trans)
  show lo: "low div bs * bs \<le> mid" unfolding mid_def by simp
  have "low < low div bs * bs + bs"
    using assms(1) by (metis dividend_less_times_div mult.commute gr0I add.commute)
  then show "low < mid + bs" using lo by linarith
  show "bs dvd mid" unfolding mid_def by simp
qed

termination clean_prefix_search
proof (relation "measure (\<lambda>(ov, bs, low, high, c). Suc high - low)", goal_cases)
  case 1
  then show ?case by simp
next
  case (2 ov bs low high c lb hb mid)
  then have "low < mid + bs" "low \<le> high" using search_mid_bounds [of bs low high] by simp_all
  then have "Suc high - (mid + bs) < Suc high - low" by linarith
  then show ?case by simp
next
  case (3 ov bs low high c lb hb mid)
  then have "mid \<le> high" "low \<le> high" "0 < bs" "bs < mid"
    using search_mid_bounds [of bs low high] by simp_all
  then have "Suc (mid - bs) - low < Suc high - low" by linarith
  then show ?case by simp
qed

declare clean_prefix_search.simps [simp del]

definition search_mid :: "nat \<Rightarrow> nat \<Rightarrow> nat \<Rightarrow> nat" where
  "search_mid bs low high = (low div bs + (high div bs - low div bs) div 2) * bs"

lemmas search_mid_facts = search_mid_bounds [folded search_mid_def]

lemma clean_prefix_search_stop:
  "bs = 0 \<or> high < low \<Longrightarrow> clean_prefix_search ov bs low high c = c"
  by (subst clean_prefix_search.simps) auto

lemma clean_prefix_search_step:
  "bs \<noteq> 0 \<Longrightarrow> low \<le> high \<Longrightarrow> clean_prefix_search ov bs low high c =
     (if \<not> ov (search_mid bs low high)
      then clean_prefix_search ov bs (search_mid bs low high + bs) high (search_mid bs low high)
      else if search_mid bs low high \<le> bs then c
      else clean_prefix_search ov bs low (search_mid bs low high - bs) c)"
  by (subst clean_prefix_search.simps) (simp add: Let_def search_mid_def)

lemma clean_prefix_search_induct [case_names Stop Clean Small Dirty]:
  assumes "\<And>low high c. bs = 0 \<or> high < low \<Longrightarrow> P low high c"
    and "\<And>low high c. bs \<noteq> 0 \<Longrightarrow> low \<le> high \<Longrightarrow> \<not> ov (search_mid bs low high) \<Longrightarrow>
      P (search_mid bs low high + bs) high (search_mid bs low high) \<Longrightarrow> P low high c"
    and "\<And>low high c. bs \<noteq> 0 \<Longrightarrow> low \<le> high \<Longrightarrow> ov (search_mid bs low high) \<Longrightarrow>
      search_mid bs low high \<le> bs \<Longrightarrow> P low high c"
    and "\<And>low high c. bs \<noteq> 0 \<Longrightarrow> low \<le> high \<Longrightarrow> ov (search_mid bs low high) \<Longrightarrow>
      bs < search_mid bs low high \<Longrightarrow> P low (search_mid bs low high - bs) c \<Longrightarrow> P low high c"
  shows "P low high c"
proof (induction "Suc high - low" arbitrary: low high c rule: less_induct)
  case (less low high c)
  let ?mid = "search_mid bs low high"
  show ?case
  proof (cases "bs \<noteq> 0 \<and> low \<le> high")
    case False
    then show ?thesis by (intro assms(1)) auto
  next
    case True
    then have b: "?mid \<le> high" "low < ?mid + bs" "0 < bs" "low \<le> high"
      using search_mid_facts [of bs low high] by auto
    consider "\<not> ov ?mid" | "ov ?mid" "?mid \<le> bs" | "ov ?mid" "bs < ?mid" by linarith
    then show ?thesis
    proof cases
      case 1
      have "Suc high - (?mid + bs) < Suc high - low" using b by linarith
      then have "P (?mid + bs) high ?mid" by (rule less)
      with 1 True show ?thesis by (metis assms(2))
    next
      case 2
      with True show ?thesis by (metis assms(3))
    next
      case 3
      have "Suc (?mid - bs) - low < Suc high - low" using b 3 by linarith
      then have "P low (?mid - bs) c" by (rule less)
      with 3 True show ?thesis by (metis assms(4))
    qed
  qed
qed

lemma clean_prefix_search_ge:
  "bs \<le> low \<Longrightarrow> bs \<le> c \<Longrightarrow> bs \<le> clean_prefix_search ov bs low high c"
proof (induction low high c rule: clean_prefix_search_induct [where bs = bs and ov = ov])
  case (Stop low high c)
  then show ?case by (simp add: clean_prefix_search_stop)
next
  case (Clean low high c)
  have "1 \<le> low div bs" using Clean by (simp add: div_greater_zero_iff Suc_le_eq)
  then have "bs \<le> low div bs * bs" by simp
  then have "bs \<le> search_mid bs low high"
    using search_mid_facts(3) [of bs low high] Clean by linarith
  then show ?case using Clean by (simp add: clean_prefix_search_step)
next
  case (Small low high c)
  then show ?case by (simp add: clean_prefix_search_step)
next
  case (Dirty low high c)
  then show ?case by (simp add: clean_prefix_search_step)
qed

text \<open>The outer loop of \<^verbatim>\<open>ExtractCleanSubExtents\<close> from \<open>cur\<close> (\<^verbatim>\<open>curr\<close>) to the extent's end.\<close>

function clean_runs_loop ::
  "AllocationPolicy \<Rightarrow> (nat \<Rightarrow> nat \<Rightarrow> nat option) \<Rightarrow> nat \<Rightarrow> nat \<Rightarrow> nat \<Rightarrow> Extent list" where
  "clean_runs_loop policy advance block_size extent_end cur =
     (if block_size \<noteq> 0 \<and> cur < extent_end then
        if OverlapsUnavailable cur block_size policy then
          (case advance cur block_size of
             None \<Rightarrow> []
           | Some b \<Rightarrow>
               if b \<le> cur \<or> b \<ge> extent_end \<or> b mod block_size \<noteq> 0 then []
               else clean_runs_loop policy advance block_size extent_end b)
        else
          let max_possible = extent_end - cur in
          if \<not> OverlapsUnavailable cur max_possible policy then [mk_extent cur max_possible]
          else
            let clean_len = clean_prefix_search (\<lambda>len. OverlapsUnavailable cur len policy)
                              block_size block_size max_possible block_size
            in mk_extent cur clean_len #
               clean_runs_loop policy advance block_size extent_end (cur + clean_len)
      else [])"
  by pat_completeness auto

termination clean_runs_loop
proof (relation "measure (\<lambda>(p, adv, bs, z, cur). z - cur)", goal_cases)
  case 1
  then show ?case by simp
next
  case (2 p adv bs z cur b)
  then show ?case by auto
next
  case (3 p adv bs z cur m c)
  then have "bs \<le> c" using clean_prefix_search_ge by simp
  then have "0 < c" "cur < z" using 3 by auto
  then have "z - (cur + c) < z - cur" by linarith
  then show ?case by simp
qed

declare clean_runs_loop.simps [simp del]

definition ExtractCleanSubExtents :: "Extent \<Rightarrow> nat \<Rightarrow> AllocationPolicy \<Rightarrow> Extent list" where
  "ExtractCleanSubExtents e block_size policy =
     (if block_size = 0 \<or> physical_address e mod block_size \<noteq> 0 \<or> bytes e mod block_size \<noteq> 0 \<or>
         RangeEnd (physical_address e) (bytes e) = None \<or>
         \<not> FitsContainer (physical_address e) (bytes e) policy
      then []
      else if \<not> OverlapsUnavailable (physical_address e) (bytes e) policy then [e]
      else case advance_past_unavailable policy of
             None \<Rightarrow> []
           | Some advance \<Rightarrow>
               clean_runs_loop policy advance block_size (physical_address e + bytes e)
                 (physical_address e))"

section \<open>Fragmented allocation\<close>

text \<open>
  The clean runs one free extent contributes, as both users compute them: the whole extent
  if it is clean, else its clean sub-extents if the policy can advance.
\<close>

definition extent_runs :: "nat \<Rightarrow> AllocationPolicy \<Rightarrow> Extent \<Rightarrow> Extent list" where
  "extent_runs block_size policy e =
     (if IsCleanWholeExtent e policy then [e]
      else if advance_past_unavailable policy \<noteq> None
      then ExtractCleanSubExtents e block_size policy
      else [])"

text \<open>
  Summing available bytes: \<open>Inl\<close> is an early return of the given flag, \<open>Inr\<close> the sum so far.
\<close>

fun sum_runs :: "nat \<Rightarrow> nat \<Rightarrow> Extent list \<Rightarrow> bool + nat" where
  "sum_runs aligned_total available [] = Inr available"
| "sum_runs aligned_total available (r # rs) =
     (if available > u64_max - bytes r then Inl False
      else if available + bytes r \<ge> aligned_total then Inl True
      else sum_runs aligned_total (available + bytes r) rs)"

fun CanAllocate_loop ::
  "nat \<Rightarrow> nat \<Rightarrow> AllocationPolicy \<Rightarrow> nat \<Rightarrow> Extent list \<Rightarrow> bool" where
  "CanAllocate_loop aligned_total block_size policy available [] = False"
| "CanAllocate_loop aligned_total block_size policy available (e # es) =
     (if physical_address e mod block_size \<noteq> 0 \<or> bytes e mod block_size \<noteq> 0 then False
      else case sum_runs aligned_total available (extent_runs block_size policy e) of
             Inl result \<Rightarrow> result
           | Inr available' \<Rightarrow> CanAllocate_loop aligned_total block_size policy available' es)"

definition CanAllocateFromFragmentedFreeExtents ::
  "Extent list \<Rightarrow> nat \<Rightarrow> AllocationPolicy \<Rightarrow> nat \<Rightarrow> bool" where
  "CanAllocateFromFragmentedFreeExtents fs aligned_total policy block_size =
     (if aligned_total = 0 \<or> block_size = 0 \<or> aligned_total mod block_size \<noteq> 0 then False
      else CanAllocate_loop aligned_total block_size policy 0 fs)"

text \<open>The accumulators of the allocation loop.\<close>

record FileAllocation =
  file_extents :: "FileExtent list"
  allocated_physical_extents :: "Extent list"
  remaining_logical :: nat
  next_logical_offset :: nat

definition take_run :: "nat \<Rightarrow> Extent \<Rightarrow> FileAllocation \<Rightarrow> FileAllocation option" where
  "take_run block_size r st =
     (let remaining_aligned = AlignBytes (remaining_logical st) block_size in
      if remaining_aligned = 0 then None
      else
        let allocation_bytes = min (bytes r) remaining_aligned;
            logical_bytes = min (remaining_logical st) allocation_bytes
        in if logical_bytes = 0 \<or> physical_address r > u64_max - allocation_bytes then None
           else Some
             (st\<lparr>file_extents := file_extents st @
                   [\<lparr>logical_offset = next_logical_offset st,
                     fe_physical_address = physical_address r, fe_bytes = logical_bytes\<rparr>],
                 allocated_physical_extents := allocated_physical_extents st @
                   [mk_extent (physical_address r) allocation_bytes],
                 remaining_logical := remaining_logical st - logical_bytes,
                 next_logical_offset := next_logical_offset st + logical_bytes\<rparr>))"

fun take_runs :: "nat \<Rightarrow> Extent list \<Rightarrow> FileAllocation \<Rightarrow> FileAllocation option" where
  "take_runs block_size [] st = Some st"
| "take_runs block_size (r # rs) st =
     (if remaining_logical st = 0 then Some st
      else case take_run block_size r st of
             None \<Rightarrow> None
           | Some st' \<Rightarrow> take_runs block_size rs st')"

fun take_extents ::
  "nat \<Rightarrow> AllocationPolicy \<Rightarrow> Extent list \<Rightarrow> FileAllocation \<Rightarrow> FileAllocation option" where
  "take_extents block_size policy [] st = Some st"
| "take_extents block_size policy (e # es) st =
     (if remaining_logical st = 0 then Some st
      else case take_runs block_size (extent_runs block_size policy e) st of
             None \<Rightarrow> None
           | Some st' \<Rightarrow> take_extents block_size policy es st')"

definition no_undo :: ContiguousAllocationUndo where
  "no_undo = \<lparr>source = SourceNone, free_extent_index = 0, previous_free_extent = mk_extent 0 0,
     free_extent_erased = False, previous_next_ephemeral_extent = 0,
     previous_ephemeral_free_extents = []\<rparr>"

text \<open>The last resort: one contiguous range from a free extent or the tail, re-checked.\<close>

definition fallback_contiguous ::
  "Extent list \<Rightarrow> nat \<Rightarrow> nat \<Rightarrow> nat \<Rightarrow> nat \<Rightarrow> AllocationPolicy \<Rightarrow>
   FileExtent list option \<times> Extent list \<times> nat" where
  "fallback_contiguous fs next_ephemeral logical_size aligned_total block_size policy =
     (case AllocateContiguous fs next_ephemeral aligned_total policy no_undo of
        (None, _, _, _) \<Rightarrow> (None, fs, next_ephemeral)
      | (Some a, fs', next', _) \<Rightarrow>
          if a mod block_size \<noteq> 0 \<or> \<not> FitsContainer a aligned_total policy \<or>
             OverlapsUnavailable a aligned_total policy
          then (None, fs, next_ephemeral)
          else (Some [\<lparr>logical_offset = 0, fe_physical_address = a, fe_bytes = logical_size\<rparr>],
                fs', next'))"

definition AllocateFileExtents ::
  "Extent list \<Rightarrow> nat \<Rightarrow> nat \<Rightarrow> nat \<Rightarrow> nat \<Rightarrow> AllocationPolicy \<Rightarrow>
   FileExtent list option \<times> Extent list \<times> nat" where
  "AllocateFileExtents fs next_ephemeral logical_size aligned_total block_size policy =
     (if logical_size = 0 then (Some [], fs, next_ephemeral)
      else if aligned_total = 0 \<or> block_size = 0 \<or> aligned_total mod block_size \<noteq> 0 \<or>
              aligned_total < logical_size
      then (None, fs, next_ephemeral)
      else if \<exists>e \<in> set fs. physical_address e mod block_size \<noteq> 0 \<or> bytes e mod block_size \<noteq> 0
      then (None, fs, next_ephemeral)
      else case AllocateContiguousFromFree fs aligned_total
                  (policy\<lparr>advance_past_unavailable := None\<rparr>) no_undo of
        (Some a, fs', _) \<Rightarrow>
          (Some [\<lparr>logical_offset = 0, fe_physical_address = a, fe_bytes = logical_size\<rparr>],
           fs', next_ephemeral)
      | (None, fs1, _) \<Rightarrow>
          (case take_extents block_size policy fs1
                  \<lparr>file_extents = [], allocated_physical_extents = [],
                   remaining_logical = logical_size, next_logical_offset = 0\<rparr> of
             None \<Rightarrow> (None, fs1, next_ephemeral)
           | Some st \<Rightarrow>
               if remaining_logical st = 0 \<and> HasLogicalExtentCoverage (file_extents st) logical_size
               then (case RemoveAllocatedExtents fs1 (allocated_physical_extents st) of
                       (False, _) \<Rightarrow> (None, fs1, next_ephemeral)
                     | (True, fs') \<Rightarrow> (Some (file_extents st), fs', next_ephemeral))
               else fallback_contiguous fs1 next_ephemeral logical_size aligned_total block_size
                      policy))"


section \<open>Contiguous allocation: correctness\<close>

lemma FitsContainer_D:
  assumes "FitsContainer a n policy"
  shows "0 < a" and "0 < n" and "a + n \<le> u64_max" and "valid_extent (mk_extent a n)"
    and "\<forall>limit. container_bytes policy = Some limit \<longrightarrow> a + n \<le> limit"
  using assms
  by (auto simp: FitsContainer_def valid_extent_iff RangeEnd_def split: option.splits if_splits)

lemma try_free_extent_Some:
  assumes "try_free_extent n policy e = Some (a, z)"
  shows "z = physical_address e + bytes e" and "physical_address e \<le> a" and "a + n \<le> z"
    and "FitsContainer a n policy" and "\<not> OverlapsUnavailable a n policy"
    and "advance_past_unavailable policy = None \<Longrightarrow> a = physical_address e"
  using assms
  by (auto simp: try_free_extent_def RangeEnd_Some_iff Let_def split: if_splits option.splits)

lemma search_free_extents_Some:
  assumes "search_free_extents n policy i fs = Some (j, a, z)"
  shows "\<exists>xs e ys. fs = xs @ e # ys \<and> j = i + length xs \<and> try_free_extent n policy e = Some (a, z)"
  using assms
proof (induction fs arbitrary: i)
  case Nil
  then show ?case by simp
next
  case (Cons f fs)
  show ?case
  proof (cases "try_free_extent n policy f")
    case None
    then obtain xs e ys where "fs = xs @ e # ys" "j = Suc i + length xs"
      "try_free_extent n policy e = Some (a, z)" using Cons.IH [of "Suc i"] Cons.prems by auto
    then show ?thesis by (intro exI [of _ "f # xs"] exI [of _ e] exI [of _ ys]) simp
  next
    case (Some r)
    then show ?thesis using Cons.prems by (intro exI [of _ "[]"]) (auto split: prod.splits)
  qed
qed

text \<open>The free extent after the range \<open>[physical_address e, a + n)\<close> has been cut off its front.\<close>

definition cut_front :: "Extent \<Rightarrow> nat \<Rightarrow> Extent list" where
  "cut_front e z = (if physical_address e + bytes e - z = 0 then []
                    else [mk_extent z (physical_address e + bytes e - z)])"

lemma cut_front_canonical:
  assumes "IsSortedAndValid (xs @ e # ys)" and "physical_address e < z"
    and "z \<le> physical_address e + bytes e"
  shows "IsSortedAndValid (xs @ cut_front e z @ ys)"
    and "space (xs @ cut_front e z @ ys) = space (xs @ e # ys) - {physical_address e..<z}"
proof -
  have ve: "valid_extent e" and gx: "\<forall>x \<in> set xs. gap x e" and gy: "\<forall>y \<in> set ys. gap e y"
    using assms(1) by (auto simp: IsSortedAndValid_append IsSortedAndValid_Cons)
  show "IsSortedAndValid (xs @ cut_front e z @ ys)"
    using assms ve valid_extent_end [OF ve]
    by (auto simp: IsSortedAndValid_append IsSortedAndValid_Cons cut_front_def gap_def
        valid_extent_iff)
  have "space (cut_front e z) = range_of e - {physical_address e..<z}"
    using assms(2,3) by (auto simp: cut_front_def range_of_def ivl_def)
  moreover have "space xs \<inter> range_of e = {}" "space ys \<inter> range_of e = {}"
    using gx gy gap_disjoint by (fastforce simp: space_def)+
  moreover have "{physical_address e..<z} \<subseteq> range_of e"
    using assms(3) by (auto simp: range_of_def ivl_def)
  ultimately show "space (xs @ cut_front e z @ ys) = space (xs @ e # ys) - {physical_address e..<z}"
    by auto
qed

lemma AllocateContiguousFromFree_cases:
  assumes "AllocateContiguousFromFree fs n policy undo = (r, fs', undo')"
  obtains (none) "r = None" "fs' = fs" "undo' = undo"
  | (some) xs e ys a where "0 < n" "fs = xs @ e # ys"
      "try_free_extent n policy e = Some (a, physical_address e + bytes e)" "r = Some a"
      "fs' = xs @ cut_front e (a + n) @ ys"
      "undo' = \<lparr>source = SourceFreeExtent, free_extent_index = length xs, previous_free_extent = e,
                free_extent_erased = (cut_front e (a + n) = []),
                previous_next_ephemeral_extent = 0, previous_ephemeral_free_extents = []\<rparr>"
proof (cases "n = 0 \<or> search_free_extents n policy 0 fs = None")
  case True
  then have "AllocateContiguousFromFree fs n policy undo = (None, fs, undo)"
    by (auto simp: AllocateContiguousFromFree_def)
  then show ?thesis using assms none by simp
next
  case False
  then obtain j a z where s: "search_free_extents n policy 0 fs = Some (j, a, z)" by auto
  then obtain xs e ys where d: "fs = xs @ e # ys" "j = length xs"
    "try_free_extent n policy e = Some (a, z)" using search_free_extents_Some by fastforce
  have z: "z = physical_address e + bytes e" using try_free_extent_Some(1) [OF d(3)] .
  show ?thesis
    using assms False s d z
    by (intro some [of xs e ys a])
       (auto simp: AllocateContiguousFromFree_def Let_def cut_front_def nth_append)
qed

lemma AllocateContiguousFromFree_correct:
  assumes wf: "IsSortedAndValid fs"
    and alloc: "AllocateContiguousFromFree fs n policy undo = (Some a, fs', undo')"
  shows "IsSortedAndValid fs'" and "ivl a n \<subseteq> space fs" and "space fs' \<subseteq> space fs - ivl a n"
    and "FitsContainer a n policy" and "\<not> OverlapsUnavailable a n policy"
    and "advance_past_unavailable policy = None \<Longrightarrow> space fs' = space fs - ivl a n"
    and "advance_past_unavailable policy = None \<Longrightarrow> a \<in> physical_address ` set fs"
    and "RollbackContiguousAllocation fs' next undo' = (True, fs, next)"
proof -
  from alloc obtain xs e ys where n: "0 < n" and fs: "fs = xs @ e # ys"
    and t: "try_free_extent n policy e = Some (a, physical_address e + bytes e)"
    and fs': "fs' = xs @ cut_front e (a + n) @ ys"
    and u: "undo' = \<lparr>source = SourceFreeExtent, free_extent_index = length xs,
       previous_free_extent = e, free_extent_erased = (cut_front e (a + n) = []),
       previous_next_ephemeral_extent = 0, previous_ephemeral_free_extents = []\<rparr>"
    by (auto elim: AllocateContiguousFromFree_cases)
  note tr = try_free_extent_Some [OF t]
  have c: "physical_address e < a + n" "a + n \<le> physical_address e + bytes e" using tr n by auto
  note cut = cut_front_canonical [OF wf [unfolded fs] c]
  show "IsSortedAndValid fs'" using cut(1) fs' by simp
  show "ivl a n \<subseteq> space fs" using tr fs by (auto simp: range_of_def mem_ivl)
  show "space fs' \<subseteq> space fs - ivl a n" using cut(2) fs fs' tr(2) by (auto simp: mem_ivl)
  show "FitsContainer a n policy" "\<not> OverlapsUnavailable a n policy" using tr by auto
  show "space fs' = space fs - ivl a n" if "advance_past_unavailable policy = None"
    using cut(2) fs fs' tr(6) [OF that] by (simp add: ivl_def)
  show "a \<in> physical_address ` set fs" if "advance_past_unavailable policy = None"
    using fs tr(6) [OF that] by simp
  show "RollbackContiguousAllocation fs' next undo' = (True, fs, next)"
    using wf u fs fs'
    by (auto simp: RollbackContiguousAllocation_def cut_front_def Let_def list_update_append)
qed

lemma ephemeral_address_Some:
  "ephemeral_address c n policy = Some b \<Longrightarrow> c \<le> b \<and> 0 < b"
  by (auto simp: ephemeral_address_def split: if_splits option.splits)

text \<open>Everything an allocation through \<^verbatim>\<open>AllocateContiguous\<close> guarantees.\<close>

lemma AllocateContiguous_cases:
  assumes "AllocateContiguous fs next_ephemeral n policy undo = (r, fs', next', undo')"
  obtains (none) "r = None" "fs' = fs" "next' = next_ephemeral" "undo' = undo"
  | (free) a where "r = Some a" "next' = next_ephemeral"
      "AllocateContiguousFromFree fs n policy undo = (Some a, fs', undo')"
  | (tail) a where "r = Some a" "next' = a + n" "next_ephemeral \<le> a"
      "FitsContainer a n policy" "\<not> OverlapsUnavailable a n policy"
      "RemoveAllocatedExtent fs (mk_extent a n) = (True, fs')"
      "undo' = \<lparr>source = SourceEphemeralTail, free_extent_index = 0,
         previous_free_extent = mk_extent 0 0, free_extent_erased = False,
         previous_next_ephemeral_extent = next_ephemeral,
         previous_ephemeral_free_extents = fs\<rparr>"
proof -
  obtain r1 fs1 undo1 where f: "AllocateContiguousFromFree fs n policy undo = (r1, fs1, undo1)"
    by (metis prod_cases3)
  show ?thesis
  proof (cases r1)
    case (Some a)
    then show ?thesis using assms f by (intro free [of a]) (auto simp: AllocateContiguous_def)
  next
    case None
    have same: "fs1 = fs" "undo1 = undo"
      using f None by (auto elim: AllocateContiguousFromFree_cases)
    have "r = None \<and> fs' = fs \<and> next' = next_ephemeral \<and> undo' = undo \<or>
      (\<exists>a. r = Some a \<and> next' = a + n \<and> next_ephemeral \<le> a \<and> FitsContainer a n policy \<and>
        \<not> OverlapsUnavailable a n policy \<and> RemoveAllocatedExtent fs (mk_extent a n) = (True, fs') \<and>
        undo' = \<lparr>source = SourceEphemeralTail, free_extent_index = 0,
         previous_free_extent = mk_extent 0 0, free_extent_erased = False,
         previous_next_ephemeral_extent = next_ephemeral,
         previous_ephemeral_free_extents = fs\<rparr>)"
      using assms f None same ephemeral_address_Some
      by (auto simp: AllocateContiguous_def split: option.splits if_splits prod.splits bool.splits)
    then show ?thesis using none tail by blast
  qed
qed

lemma AllocateContiguous_ok:
  assumes "IsSortedAndValid fs"
    and "AllocateContiguous fs next_ephemeral n policy undo = (r, fs', next', undo')"
  shows "case r of
      None \<Rightarrow> fs' = fs \<and> next' = next_ephemeral \<and> undo' = undo
    | Some a \<Rightarrow> IsSortedAndValid fs' \<and> space fs' \<subseteq> space fs - ivl a n \<and>
        FitsContainer a n policy \<and> \<not> OverlapsUnavailable a n policy \<and>
        (ivl a n \<subseteq> space fs \<and> next' = next_ephemeral \<or>
         next_ephemeral \<le> a \<and> next' = a + n \<and> space fs' = space fs - ivl a n)"
  using assms(2)
proof (cases rule: AllocateContiguous_cases)
  case none
  then show ?thesis by simp
next
  case (free a)
  note c = AllocateContiguousFromFree_correct [OF assms(1) free(3)]
  then show ?thesis using free by simp
next
  case (tail a)
  note f = FitsContainer_D [OF tail(4)]
  have "IsSortedAndValid fs' \<and> space fs' = space fs - ivl a n"
    using RemoveAllocatedExtent_ok [OF assms(1) f(4)] tail(6) by auto
  then show ?thesis using tail by simp
qed

text \<open>
  C6. A contiguous allocation from a canonical free list keeps the list canonical, returns
  a range that lies in the container and meets nothing unavailable, and leaves none of it in
  the free list; the range comes from the free list or from the tail at or after
  \<^verbatim>\<open>next_ephemeral_extent\<close>, which then moves to its end.  A failed allocation changes
  nothing.
\<close>

theorem AllocateContiguous_correct:
  assumes "IsSortedAndValid fs"
    and "AllocateContiguous fs next_ephemeral n policy undo = (r, fs', next', undo')"
  shows "case r of
      None \<Rightarrow> fs' = fs \<and> next' = next_ephemeral \<and> undo' = undo
    | Some a \<Rightarrow> IsSortedAndValid fs' \<and> space fs' \<subseteq> space fs - ivl a n \<and>
        FitsContainer a n policy \<and> \<not> OverlapsUnavailable a n policy \<and>
        (ivl a n \<subseteq> space fs \<and> next' = next_ephemeral \<or>
         next_ephemeral \<le> a \<and> next' = a + n \<and> space fs' = space fs - ivl a n)"
  using assms by (rule AllocateContiguous_ok)

theorem AllocateContiguous_correct_witness:
  "\<exists>r fs' next' undo'.
     AllocateContiguous [mk_extent 4096 4096] 65536 8192
       \<lparr>container_bytes = Some 1048576, overlaps_unavailable = None,
        advance_past_unavailable = None\<rparr> no_undo = (r, fs', next', undo') \<and>
     (case r of
        None \<Rightarrow> fs' = [mk_extent 4096 4096] \<and> next' = 65536 \<and> undo' = no_undo
      | Some a \<Rightarrow> IsSortedAndValid fs' \<and> space fs' \<subseteq> space [mk_extent 4096 4096] - ivl a 8192 \<and>
          FitsContainer a 8192 \<lparr>container_bytes = Some 1048576, overlaps_unavailable = None,
            advance_past_unavailable = None\<rparr> \<and>
          \<not> OverlapsUnavailable a 8192 \<lparr>container_bytes = Some 1048576,
            overlaps_unavailable = None, advance_past_unavailable = None\<rparr> \<and>
          (ivl a 8192 \<subseteq> space [mk_extent 4096 4096] \<and> next' = 65536 \<or>
           65536 \<le> a \<and> next' = a + 8192 \<and> space fs' = space [mk_extent 4096 4096] - ivl a 8192))"
proof -
  have wf: "IsSortedAndValid [mk_extent 4096 4096]"
    by (simp add: IsSortedAndValid_def RangeEnd_def u64_max_def)
  obtain r fs' next' undo' where a: "AllocateContiguous [mk_extent 4096 4096] 65536 8192
       \<lparr>container_bytes = Some 1048576, overlaps_unavailable = None,
        advance_past_unavailable = None\<rparr> no_undo = (r, fs', next', undo')"
    by (metis prod_cases4)
  show ?thesis using AllocateContiguous_correct [OF wf a] a by blast
qed

text \<open>
  Rolling a contiguous allocation back with its undo record restores the free list and
  the tail pointer exactly, whichever way the range was obtained.
\<close>

theorem RollbackContiguousAllocation_inverse:
  assumes "IsSortedAndValid fs"
    and "AllocateContiguous fs next_ephemeral n policy undo = (Some a, fs', next', undo')"
  shows "RollbackContiguousAllocation fs' next' undo' = (True, fs, next_ephemeral)"
  using assms(2)
proof (cases rule: AllocateContiguous_cases)
  case none
  then show ?thesis by simp
next
  case (free b)
  show ?thesis
    unfolding free(2) by (rule AllocateContiguousFromFree_correct(8) [OF assms(1) free(3)])
next
  case (tail b)
  then show ?thesis using assms(1) by (simp add: RollbackContiguousAllocation_def)
qed

theorem RollbackContiguousAllocation_inverse_witness:
  "RollbackContiguousAllocation [mk_extent 8192 4096] 65536
     \<lparr>source = SourceFreeExtent, free_extent_index = 0, previous_free_extent = mk_extent 4096 8192,
      free_extent_erased = False, previous_next_ephemeral_extent = 0,
      previous_ephemeral_free_extents = []\<rparr> = (True, [mk_extent 4096 8192], 65536)"
  by (rule RollbackContiguousAllocation_inverse
        [where n = 4096 and a = 4096 and undo = no_undo and
           policy = "\<lparr>container_bytes = None, overlaps_unavailable = None,
                      advance_past_unavailable = None\<rparr>"])
     (simp_all add: IsSortedAndValid_def RangeEnd_def u64_max_def AllocateContiguous_def
        AllocateContiguousFromFree_def try_free_extent_def FitsContainer_def OverlapsUnavailable_def)


section \<open>Clean runs: correctness\<close>

lemma clean_prefix_search_clean:
  "\<not> ov c \<Longrightarrow> \<not> ov (clean_prefix_search ov bs low high c)"
  by (induction low high c rule: clean_prefix_search_induct [where bs = bs and ov = ov])
     (simp_all add: clean_prefix_search_stop clean_prefix_search_step)

lemma clean_prefix_search_le:
  "c \<le> h \<Longrightarrow> high \<le> h \<Longrightarrow> clean_prefix_search ov bs low high c \<le> h"
proof (induction low high c rule: clean_prefix_search_induct [where bs = bs and ov = ov])
  case (Stop low high c)
  then show ?case by (simp add: clean_prefix_search_stop)
next
  case (Clean low high c)
  then show ?case
    using search_mid_facts(1) [of bs low high] by (simp add: clean_prefix_search_step)
next
  case (Small low high c)
  then show ?case by (simp add: clean_prefix_search_step)
next
  case (Dirty low high c)
  then show ?case
    using search_mid_facts(1) [of bs low high] by (simp add: clean_prefix_search_step)
qed

lemma clean_prefix_search_dvd:
  "bs dvd c \<Longrightarrow> bs dvd clean_prefix_search ov bs low high c"
proof (induction low high c rule: clean_prefix_search_induct [where bs = bs and ov = ov])
  case (Clean low high c)
  then show ?case
    using search_mid_facts(4) [of bs low high] by (simp add: clean_prefix_search_step)
qed (simp_all add: clean_prefix_search_stop clean_prefix_search_step)

text \<open>
  With an overlap test that is monotone in the length, the search finds the longest clean
  prefix: every longer multiple of the block size up to the limit overlaps.
\<close>

lemma clean_prefix_search_maximal:
  assumes mono: "\<And>m k. bs dvd m \<Longrightarrow> bs dvd k \<Longrightarrow> m \<le> k \<Longrightarrow> ov m \<Longrightarrow> ov k"
  shows "bs \<noteq> 0 \<Longrightarrow> bs dvd low \<Longrightarrow> bs dvd high \<Longrightarrow> bs \<le> low \<Longrightarrow> bs dvd c \<Longrightarrow> low \<le> c + bs \<Longrightarrow>
     bs \<le> c \<Longrightarrow> \<not> ov c \<Longrightarrow> (\<And>m. bs dvd m \<Longrightarrow> high < m \<Longrightarrow> m \<le> h \<Longrightarrow> ov m) \<Longrightarrow>
     bs dvd m \<Longrightarrow> clean_prefix_search ov bs low high c < m \<Longrightarrow> m \<le> h \<Longrightarrow> ov m"
proof (induction low high c rule: clean_prefix_search_induct [where bs = bs and ov = ov])
  case (Stop low high c)
  have "c < m" using Stop by (simp add: clean_prefix_search_stop)
  then have "c + bs \<le> m" using dvd_less_gap Stop by blast
  then show ?case using Stop by auto
next
  case (Clean low high c)
  note f = search_mid_facts [OF Clean(1,2)]
  have "low div bs * bs = low" using Clean by (simp add: dvd_div_mult_self)
  then have "low \<le> search_mid bs low high" using f(3) by simp
  then show ?case
    using Clean f by (intro Clean.IH) (auto simp: clean_prefix_search_step)
next
  case (Small low high c)
  note f = search_mid_facts [OF Small(1,2)]
  have "ov c" using mono [of "search_mid bs low high" c] Small f(4) by auto
  then show ?case using Small by simp
next
  case (Dirty low high c)
  note f = search_mid_facts [OF Dirty(1,2)]
  have "ov k" if "bs dvd k" "search_mid bs low high - bs < k" "k \<le> h" for k
  proof -
    have "search_mid bs low high \<le> k"
      using dvd_less_gap [of bs "search_mid bs low high - bs" k] that f(4) Dirty(4)
      by (simp add: dvd_diff_nat)
    then show ?thesis using mono f(4) that(1) Dirty by blast
  qed
  then show ?case using Dirty f by (intro Dirty.IH) (auto simp: clean_prefix_search_step dvd_diff_nat)
qed


text \<open>
  A run that may be allocated from: block aligned, inside the container, meeting nothing
  unavailable.  Runs of one list lie one behind the other.
\<close>

definition clean_run :: "nat \<Rightarrow> AllocationPolicy \<Rightarrow> Extent \<Rightarrow> bool" where
  "clean_run bs policy r \<longleftrightarrow> bs dvd physical_address r \<and> bs dvd bytes r \<and>
     FitsContainer (physical_address r) (bytes r) policy \<and>
     \<not> OverlapsUnavailable (physical_address r) (bytes r) policy"

definition behind :: "Extent \<Rightarrow> Extent \<Rightarrow> bool" where
  "behind a b \<longleftrightarrow> physical_address a + bytes a \<le> physical_address b"

lemma FitsContainer_sub:
  assumes "FitsContainer a n policy" and "a \<le> b" and "b + m \<le> a + n" and "0 < m"
  shows "FitsContainer b m policy"
  using assms by (auto simp: FitsContainer_def RangeEnd_def split: option.splits if_splits)

lemma clean_runs_loop_correct:
  assumes "bs \<noteq> 0" and "bs dvd z" and "bs dvd cur" and "e = mk_extent cur (z - cur)"
    and "cur < z \<Longrightarrow> FitsContainer cur (z - cur) policy"
  shows "sorted_wrt behind (clean_runs_loop policy adv bs z cur) \<and>
     (\<forall>r \<in> set (clean_runs_loop policy adv bs z cur). clean_run bs policy r \<and>
        cur \<le> physical_address r \<and> physical_address r + bytes r \<le> z)"
  using assms
proof (induction policy adv bs z cur arbitrary: e rule: clean_runs_loop.induct)
  case (1 policy adv bs z cur)
  note unfold = clean_runs_loop.simps [of policy adv bs z cur]
  show ?case
  proof (cases "cur < z")
    case False
    then show ?thesis by (simp add: unfold)
  next
    case True
    note fits = "1.prems"(5) [OF True]
    have m: "bs dvd z - cur" using "1.prems" by (simp add: dvd_diff_nat)
    consider (stop) "OverlapsUnavailable cur bs policy" "clean_runs_loop policy adv bs z cur = []"
      | (jump) b where "OverlapsUnavailable cur bs policy" "adv cur bs = Some b" "cur < b" "b < z"
          "b mod bs = 0" "clean_runs_loop policy adv bs z cur = clean_runs_loop policy adv bs z b"
      | (rest) "\<not> OverlapsUnavailable cur bs policy" "\<not> OverlapsUnavailable cur (z - cur) policy"
          "clean_runs_loop policy adv bs z cur = [mk_extent cur (z - cur)]"
      | (prefix) "\<not> OverlapsUnavailable cur bs policy" "OverlapsUnavailable cur (z - cur) policy"
      using True "1.prems"(1) by (fastforce simp: unfold Let_def split: option.splits if_splits)
    then show ?thesis
    proof cases
      case stop
      then show ?thesis by simp
    next
      case jump
      have "sorted_wrt behind (clean_runs_loop policy adv bs z b) \<and>
         (\<forall>r \<in> set (clean_runs_loop policy adv bs z b). clean_run bs policy r \<and>
            b \<le> physical_address r \<and> physical_address r + bytes r \<le> z)"
        using jump True "1.prems" fits
        by (intro "1.IH"(1) [OF _ _ jump(2)])
           (auto simp: mod_eq_0_iff_dvd intro: FitsContainer_sub [of cur "z - cur"])
      then show ?thesis using jump(3,6) by fastforce
    next
      case rest
      then show ?thesis using "1.prems" m fits True by (simp add: clean_run_def)
    next
      case prefix
      define c where "c = clean_prefix_search (\<lambda>len. OverlapsUnavailable cur len policy)
                            bs bs (z - cur) bs"
      have blk: "bs \<le> z - cur" using m True by (intro dvd_imp_le) auto
      have c: "bs \<le> c" "\<not> OverlapsUnavailable cur c policy" "c \<le> z - cur" "bs dvd c"
        unfolding c_def
        using clean_prefix_search_ge clean_prefix_search_clean [where ov = "\<lambda>len. OverlapsUnavailable cur len policy"]
          clean_prefix_search_le clean_prefix_search_dvd blk prefix(1) by auto
      have eq: "clean_runs_loop policy adv bs z cur =
          mk_extent cur c # clean_runs_loop policy adv bs z (cur + c)"
        using prefix True "1.prems"(1) by (simp add: unfold Let_def c_def)
      have IH: "sorted_wrt behind (clean_runs_loop policy adv bs z (cur + c)) \<and>
         (\<forall>r \<in> set (clean_runs_loop policy adv bs z (cur + c)). clean_run bs policy r \<and>
            cur + c \<le> physical_address r \<and> physical_address r + bytes r \<le> z)"
        unfolding c_def
        using prefix True "1.prems" fits c [unfolded c_def]
        by (intro "1.IH"(2)) (auto intro: FitsContainer_sub [of cur "z - cur"])
      have "clean_run bs policy (mk_extent cur c)"
        using c "1.prems" FitsContainer_sub [OF fits, of cur c]
        by (auto simp: clean_run_def)
      moreover have "\<forall>r \<in> set (clean_runs_loop policy adv bs z (cur + c)). behind (mk_extent cur c) r"
        using IH by (simp add: behind_def)
      ultimately show ?thesis using IH c True unfolding eq by fastforce
    qed
  qed
qed

lemma extent_runs_correct:
  assumes "valid_extent e" and "bs dvd physical_address e" and "bs dvd bytes e"
  shows "sorted_wrt behind (extent_runs bs policy e)"
    and "r \<in> set (extent_runs bs policy e) \<Longrightarrow> clean_run bs policy r \<and> within e r"
proof -
  let ?a = "physical_address e" let ?z = "?a + bytes e"
  have whole: "clean_run bs policy e" if "IsCleanWholeExtent e policy"
    using that assms by (simp add: IsCleanWholeExtent_def clean_run_def)
  have "sorted_wrt behind (ExtractCleanSubExtents e bs policy) \<and>
    (\<forall>r \<in> set (ExtractCleanSubExtents e bs policy). clean_run bs policy r \<and> within e r)"
  proof (cases "bs = 0 \<or> \<not> FitsContainer ?a (bytes e) policy \<or>
      \<not> OverlapsUnavailable ?a (bytes e) policy \<or> advance_past_unavailable policy = None")
    case True
    then show ?thesis
      using assms by (auto simp: ExtractCleanSubExtents_def clean_run_def split: option.splits)
  next
    case False
    then obtain adv where "advance_past_unavailable policy = Some adv" by auto
    then have "ExtractCleanSubExtents e bs policy = clean_runs_loop policy adv bs ?z ?a"
      using False assms by (auto simp: ExtractCleanSubExtents_def valid_extent_RangeEnd)
    then show ?thesis
      using clean_runs_loop_correct [of bs ?z ?a _ policy adv] False assms
      by (simp add: within_def)
  qed
  then show "sorted_wrt behind (extent_runs bs policy e)"
    "r \<in> set (extent_runs bs policy e) \<Longrightarrow> clean_run bs policy r \<and> within e r"
    using whole by (auto simp: extent_runs_def split: if_splits)
qed

lemma all_runs_correct:
  assumes "IsSortedAndValid fs" and "\<forall>e \<in> set fs. bs dvd physical_address e \<and> bs dvd bytes e"
  shows "sorted_wrt behind (concat (map (extent_runs bs policy) fs)) \<and>
    (\<forall>r \<in> set (concat (map (extent_runs bs policy) fs)).
       clean_run bs policy r \<and> (\<exists>e \<in> set fs. within e r))"
  using assms
proof (induction fs)
  case Nil
  then show ?case by simp
next
  case (Cons e fs)
  then have ve: "valid_extent e" and g: "\<forall>x \<in> set fs. gap e x" and wf: "IsSortedAndValid fs"
    by (auto simp: IsSortedAndValid_Cons)
  note own = extent_runs_correct [OF ve, where bs = bs and policy = policy]
  have IH: "sorted_wrt behind (concat (map (extent_runs bs policy) fs))"
    "\<forall>r \<in> set (concat (map (extent_runs bs policy) fs)).
       clean_run bs policy r \<and> (\<exists>e \<in> set fs. within e r)"
    using Cons.IH [OF wf] Cons.prems(2) by simp_all
  have "behind r r'" if r: "r \<in> set (extent_runs bs policy e)"
      and r': "r' \<in> set (concat (map (extent_runs bs policy) fs))" for r r'
  proof -
    obtain x where "x \<in> set fs" "within x r'" using IH(2) r' by blast
    moreover have "within e r" using own(2) Cons.prems(2) r by auto
    ultimately have "gap r r'" using g within_gap by blast
    then show ?thesis by (simp add: gap_def behind_def)
  qed
  then show ?case using own IH Cons.prems(2) by (auto simp: sorted_wrt_append)
qed

text \<open>
  Whatever the callbacks answer, the sub-extents extracted from an extent
  are block-aligned ranges inside it and inside the container, lie one behind the other, and
  each of them was reported clean as a whole.
\<close>

theorem ExtractCleanSubExtents_sound:
  "sorted_wrt behind (ExtractCleanSubExtents e bs policy) \<and>
    (\<forall>r \<in> set (ExtractCleanSubExtents e bs policy).
       physical_address r mod bs = 0 \<and> bytes r mod bs = 0 \<and> 0 < bytes r \<and> within e r \<and>
       FitsContainer (physical_address r) (bytes r) policy \<and>
       \<not> OverlapsUnavailable (physical_address r) (bytes r) policy)"
proof (cases "valid_extent e \<and> bs dvd physical_address e \<and> bs dvd bytes e")
  case False
  then show ?thesis by (auto simp: ExtractCleanSubExtents_def valid_extent_def)
next
  case True
  have sub: "set (ExtractCleanSubExtents e bs policy) \<subseteq> set (extent_runs bs policy e)"
    "sorted_wrt behind (ExtractCleanSubExtents e bs policy)"
    using extent_runs_correct [where e = e and bs = bs and policy = policy] True
    by (auto simp: extent_runs_def IsCleanWholeExtent_def ExtractCleanSubExtents_def
        split: if_splits option.splits)
  show ?thesis
  proof (intro conjI ballI)
    fix r assume "r \<in> set (ExtractCleanSubExtents e bs policy)"
    then have "clean_run bs policy r \<and> within e r"
      using extent_runs_correct(2) [where e = e and bs = bs and policy = policy and r = r] True sub
      by blast
    then show "physical_address r mod bs = 0" "bytes r mod bs = 0" "0 < bytes r" "within e r"
      "FitsContainer (physical_address r) (bytes r) policy"
      "\<not> OverlapsUnavailable (physical_address r) (bytes r) policy"
      using FitsContainer_D(2) by (auto simp: clean_run_def)
  qed (use sub in simp)
qed

theorem ExtractCleanSubExtents_sound_witness:
  "\<exists>r. ExtractCleanSubExtents (mk_extent 4096 12288) 4096
      \<lparr>container_bytes = Some 1048576, overlaps_unavailable = Some (\<lambda>a n. a < 8192 \<and> 4096 < a + n),
       advance_past_unavailable = Some (\<lambda>a n. Some 8192)\<rparr> = [r] \<and>
     r = mk_extent 8192 8192 \<and> physical_address r mod 4096 = 0 \<and> within (mk_extent 4096 12288) r"
  (is "\<exists>r. ExtractCleanSubExtents ?e ?bs ?policy = [r] \<and> _")
proof -
  have "ExtractCleanSubExtents ?e ?bs ?policy = [mk_extent 8192 8192]"
    by (simp add: ExtractCleanSubExtents_def FitsContainer_def OverlapsUnavailable_def RangeEnd_def
        u64_max_def clean_runs_loop.simps)
  then show ?thesis using ExtractCleanSubExtents_sound [of ?e ?bs ?policy] by simp
qed

end
