(* ===== verification/SpacemanExtents.thy ===== *)
theory SpacemanExtents
  imports ExtentAllocation
begin

text \<open>
  The extent helpers at the top of \<^verbatim>\<open>src/MetadataStore.cpp\<close>: the metadata store keeps
  its committed allocations and free extents as vectors of \<^verbatim>\<open>SpacemanAllocation\<close>, a
  struct with the fields of \<^verbatim>\<open>ExtentAllocator::Extent\<close>, and has its own routines to
  search, sort, normalise and subtract them.  They are modelled here and compared with the
  allocator's routines and with the sets of addresses the lists stand for.
\<close>

type_synonym SpacemanAllocation = Extent

section \<open>Ranges\<close>

definition PhysicalRangeContains :: "nat \<Rightarrow> nat \<Rightarrow> nat \<Rightarrow> nat \<Rightarrow> bool" where
  "PhysicalRangeContains container_start container_size pa required_bytes =
     (if container_start > pa \<or> container_start > u64_max - container_size \<or>
         pa > u64_max - required_bytes then False
      else pa + required_bytes \<le> container_start + container_size)"

text \<open>The block-rounded range of an extent; \<^term>\<open>None\<close> where the source gives up.\<close>

definition aligned_range :: "nat \<Rightarrow> nat \<Rightarrow> nat \<Rightarrow> (nat \<times> nat) option" where
  "aligned_range pa n block_bytes =
     (if pa > u64_max - n then None
      else
        let aligned_start = pa - pa mod block_bytes; physical_end = pa + n in
        if physical_end mod block_bytes \<noteq> 0 \<and>
           physical_end > u64_max - (block_bytes - physical_end mod block_bytes) then None
        else
          let aligned_end = (if physical_end mod block_bytes = 0 then physical_end
                             else physical_end + (block_bytes - physical_end mod block_bytes))
          in if aligned_end \<le> aligned_start then None else Some (aligned_start, aligned_end))"

definition ConservativePhysicalRangeContains :: "nat \<Rightarrow> nat \<Rightarrow> nat \<Rightarrow> nat \<Rightarrow> nat \<Rightarrow> bool" where
  "ConservativePhysicalRangeContains extent_pa extent_bytes pa required_bytes block_size =
     (if block_size = 0 \<or> extent_pa = 0 \<or> extent_bytes = 0 \<or> pa = 0 \<or> required_bytes = 0 then False
      else case aligned_range extent_pa extent_bytes block_size of
             None \<Rightarrow> False
           | Some (aligned_start, aligned_end) \<Rightarrow>
               PhysicalRangeContains aligned_start (aligned_end - aligned_start) pa required_bytes)"

definition RangeOverlapsSorted :: "SpacemanAllocation list \<Rightarrow> SpacemanAllocation \<Rightarrow> bool" where
  "RangeOverlapsSorted sorted_extents e =
     (if physical_address e = 0 \<or> bytes e = 0 \<or> physical_address e > u64_max - bytes e then False
      else
        let extent_end = physical_address e + bytes e;
            nxt = lower_bound sorted_extents (physical_address e)
        in if nxt < length sorted_extents \<and> physical_address (sorted_extents ! nxt) < extent_end
           then True
           else if nxt \<noteq> 0 then
             let previous = sorted_extents ! (nxt - 1) in
             physical_address previous \<le> u64_max - bytes previous \<and>
             physical_address previous + bytes previous > physical_address e
           else False)"

section \<open>Sorting and validation\<close>

text \<open>\<open>strict\<close> distinguishes the check for canonical lists, where neighbours may not touch.\<close>

fun sorted_extents_loop :: "bool \<Rightarrow> nat option \<Rightarrow> SpacemanAllocation list \<Rightarrow> bool" where
  "sorted_extents_loop strict previous [] = True"
| "sorted_extents_loop strict previous (e # es) =
     (if physical_address e = 0 \<or> bytes e = 0 \<or> physical_address e > u64_max - bytes e then False
      else if (case previous of None \<Rightarrow> False
               | Some previous_end \<Rightarrow>
                   if strict then physical_address e \<le> previous_end
                   else physical_address e < previous_end) then False
      else sorted_extents_loop strict (Some (physical_address e + bytes e)) es)"

definition SpacemanExtentsAreSortedNonOverlapping :: "SpacemanAllocation list \<Rightarrow> bool" where
  "SpacemanExtentsAreSortedNonOverlapping extents = sorted_extents_loop False None extents"

definition SortNonOverlappingSpacemanExtents ::
  "SpacemanAllocation list \<Rightarrow> bool \<times> SpacemanAllocation list" where
  "SortNonOverlappingSpacemanExtents extents =
     (let sorted = sort_key extent_key extents in (sorted_extents_loop False None sorted, sorted))"

definition IsCanonicalSpacemanExtents :: "SpacemanAllocation list \<Rightarrow> bool" where
  "IsCanonicalSpacemanExtents extents = sorted_extents_loop True None extents"

section \<open>Normalisation\<close>

text \<open>The merge loop; \<open>merged\<close> is kept with its \<^verbatim>\<open>back()\<close> first.\<close>

fun merge_loop :: "SpacemanAllocation list \<Rightarrow> SpacemanAllocation list \<Rightarrow> SpacemanAllocation list option" where
  "merge_loop merged [] = Some (rev merged)"
| "merge_loop merged (e # es) =
     (if physical_address e = 0 \<or> bytes e = 0 then merge_loop merged es
      else if physical_address e > u64_max - bytes e then None
      else case merged of
        [] \<Rightarrow> merge_loop [e] es
      | previous # rest \<Rightarrow>
          if physical_address previous > u64_max - bytes previous then None
          else
            let previous_end = physical_address previous + bytes previous;
                extent_end = physical_address e + bytes e
            in if physical_address e \<le> previous_end then
                 (if extent_end > previous_end
                  then merge_loop (previous\<lparr>bytes := extent_end - physical_address previous\<rparr> # rest) es
                  else merge_loop merged es)
               else merge_loop (e # merged) es)"

definition NormalizeSpacemanExtents ::
  "SpacemanAllocation list \<Rightarrow> bool \<times> SpacemanAllocation list" where
  "NormalizeSpacemanExtents extents =
     (if extents = [] then (True, extents)
      else
        let sorted = sort_key extent_key extents in
        case merge_loop [] sorted of None \<Rightarrow> (False, sorted) | Some merged \<Rightarrow> (True, merged))"

section \<open>Subtraction\<close>

text \<open>The filter loop: entries with a zero field are skipped, an overflowing one is an error.\<close>

fun keep_counted :: "SpacemanAllocation list \<Rightarrow> SpacemanAllocation list option" where
  "keep_counted [] = Some []"
| "keep_counted (e # es) =
     (if physical_address e = 0 \<or> bytes e = 0 then keep_counted es
      else if physical_address e > u64_max - bytes e then None
      else map_option ((#) e) (keep_counted es))"

text \<open>The inner loop over the ranges to subtract: the pieces kept and the final cursor.\<close>

fun subtract_loop :: "nat \<Rightarrow> nat \<Rightarrow> SpacemanAllocation list \<Rightarrow> SpacemanAllocation list \<times> nat" where
  "subtract_loop range_end cursor [] = ([], cursor)"
| "subtract_loop range_end cursor (r # rs) =
     (let removal_end = physical_address r + bytes r in
      if removal_end \<le> cursor then subtract_loop range_end cursor rs
      else if physical_address r \<ge> range_end then ([], cursor)
      else
        let piece = (if physical_address r > cursor
                     then [mk_extent cursor (physical_address r - cursor)] else []);
            cursor' = max cursor (min removal_end range_end)
        in if cursor' \<ge> range_end then (piece, cursor')
           else (let (pieces, final) = subtract_loop range_end cursor' rs in (piece @ pieces, final)))"

definition subtract_from :: "SpacemanAllocation list \<Rightarrow> SpacemanAllocation \<Rightarrow> SpacemanAllocation list" where
  "subtract_from rs e =
     (let range_end = physical_address e + bytes e;
          (pieces, cursor) = subtract_loop range_end (physical_address e) rs
      in pieces @ (if cursor < range_end then [mk_extent cursor (range_end - cursor)] else []))"

definition SubtractAllocationsFromFreeExtents ::
  "SpacemanAllocation list \<Rightarrow> SpacemanAllocation list \<Rightarrow> bool \<times> SpacemanAllocation list" where
  "SubtractAllocationsFromFreeExtents free_extents allocations =
     (if free_extents = [] \<or> allocations = [] then (True, free_extents)
      else case keep_counted allocations of
        None \<Rightarrow> (False, free_extents)
      | Some counted_allocations \<Rightarrow>
          let sorted_allocations = sort_key extent_key counted_allocations in
          case keep_counted free_extents of
            None \<Rightarrow> (False, free_extents)
          | Some counted_free \<Rightarrow>
              let adjusted = concat (map (subtract_from sorted_allocations) counted_free) in
              case merge_loop [] (sort_key extent_key adjusted) of
                None \<Rightarrow> (False, free_extents)
              | Some merged \<Rightarrow> (True, merged))"

definition SubtractExtentsFromAllocations ::
  "SpacemanAllocation list \<Rightarrow> SpacemanAllocation list \<Rightarrow> bool \<times> SpacemanAllocation list" where
  "SubtractExtentsFromAllocations allocations removals =
     (if allocations = [] then (True, allocations)
      else if removals = [] then NormalizeSpacemanExtents allocations
      else case keep_counted removals of
        None \<Rightarrow> (False, allocations)
      | Some counted_removals \<Rightarrow>
          let (ok, sorted_removals) = NormalizeSpacemanExtents counted_removals in
          if \<not> ok then (False, allocations)
          else case keep_counted allocations of
                 None \<Rightarrow> (False, allocations)
               | Some counted_allocations \<Rightarrow>
                   NormalizeSpacemanExtents
                     (concat (map (subtract_from sorted_removals) counted_allocations)))"

section \<open>Conservative allocations\<close>

text \<open>
  The first loop of \<^verbatim>\<open>AddConservativeAllocationFromReadExtents\<close>: the block-rounded
  ranges of the extents read.
\<close>

fun conservative_ranges :: "nat \<Rightarrow> FileExtent list \<Rightarrow> SpacemanAllocation list option" where
  "conservative_ranges block_bytes [] = Some []"
| "conservative_ranges block_bytes (f # fs) =
     (if fe_physical_address f = 0 \<or> fe_bytes f = 0 then conservative_ranges block_bytes fs
      else case aligned_range (fe_physical_address f) (fe_bytes f) block_bytes of
        None \<Rightarrow> None
      | Some (aligned_start, aligned_end) \<Rightarrow>
          let aligned_bytes = aligned_end - aligned_start in
          if aligned_start = 0 \<or> aligned_bytes = 0 then None
          else if aligned_start > u64_max - aligned_bytes then None
          else map_option ((#) (mk_extent aligned_start aligned_bytes))
                 (conservative_ranges block_bytes fs))"

text \<open>
  The merge loop of this routine does not test the extent for overflow; its end wraps.
\<close>

fun merge_loop_wrapping ::
  "SpacemanAllocation list \<Rightarrow> SpacemanAllocation list \<Rightarrow> SpacemanAllocation list option" where
  "merge_loop_wrapping merged [] = Some (rev merged)"
| "merge_loop_wrapping merged (e # es) =
     (if physical_address e = 0 \<or> bytes e = 0 then merge_loop_wrapping merged es
      else case merged of
        [] \<Rightarrow> merge_loop_wrapping [e] es
      | previous # rest \<Rightarrow>
          if physical_address previous > u64_max - bytes previous then None
          else
            let previous_end = physical_address previous + bytes previous;
                extent_end = add64 (physical_address e) (bytes e)
            in if physical_address e \<le> previous_end then
                 (if extent_end > previous_end
                  then merge_loop_wrapping (previous\<lparr>bytes := extent_end - physical_address previous\<rparr> # rest) es
                  else merge_loop_wrapping merged es)
               else merge_loop_wrapping (e # merged) es)"

text \<open>
  The success result; the error paths leave the list partly extended and the caller drops it.
\<close>

definition AddConservativeAllocationFromReadExtents ::
  "FileExtent list \<Rightarrow> SpacemanAllocation list \<Rightarrow> nat \<Rightarrow> SpacemanAllocation list option" where
  "AddConservativeAllocationFromReadExtents extents allocations block_size =
     (if block_size = 0 then None
      else case conservative_ranges block_size extents of
        None \<Rightarrow> None
      | Some ranges \<Rightarrow> merge_loop_wrapping [] (sort_key extent_key (allocations @ ranges)))"

section \<open>Agreement with the allocator's routines\<close>

lemma IsCanonical_iff: "IsCanonicalSpacemanExtents es \<longleftrightarrow> IsSortedAndValid es"
proof -
  have "sorted_extents_loop True p es \<longleftrightarrow> IsSortedAndValid_loop p es" for p
    by (induction es arbitrary: p) (auto simp: RangeEnd_def split: option.splits)
  then show ?thesis by (simp add: IsCanonicalSpacemanExtents_def IsSortedAndValid_def)
qed

lemma merge_loop_eq:
  "\<forall>m \<in> set merged. counted m \<Longrightarrow> merge_loop merged es = CoalesceSorted_loop merged es"
proof (induction es arbitrary: merged)
  case Nil
  then show ?case by simp
next
  case (Cons e es)
  show ?case
  proof (cases merged)
    case Nil
    then show ?thesis using Cons.IH [of "[e]"] Cons.IH [of "[]"] by (simp add: counted_def RangeEnd_def)
  next
    case (Cons p rest)
    then have p: "counted p" "\<forall>m \<in> set rest. counted m" using Cons.prems by auto
    have q: "counted (p\<lparr>bytes := z - physical_address p\<rparr>)" if "physical_address p + bytes p < z" for z
      using that p(1) by (simp add: counted_def)
    show ?thesis
      using Cons p q Cons.IH [of merged] Cons.IH [of "e # merged"]
        Cons.IH [of "p\<lparr>bytes := physical_address e + bytes e - physical_address p\<rparr> # rest"]
      by (auto simp: counted_def RangeEnd_def Let_def)
  qed
qed

lemma NormalizeSpacemanExtents_eq: "NormalizeSpacemanExtents es = Normalize es"
  using merge_loop_eq [of "[]"]
  by (auto simp: NormalizeSpacemanExtents_def Normalize_def CoalesceSorted_def Let_def split: option.split)

lemma keep_counted_eq: "keep_counted es = (if normalizable es then Some (filter counted es) else None)"
proof (induction es)
  case Nil
  then show ?case by (simp add: normalizable_def)
next
  case (Cons e es)
  have n: "normalizable (e # es) \<longleftrightarrow> (counted e \<longrightarrow> valid_extent e) \<and> normalizable es"
    by (simp add: normalizable_def)
  show ?case
  proof (cases "counted e")
    case False
    then have "physical_address e = 0 \<or> bytes e = 0" by (simp add: counted_def)
    then show ?thesis using Cons n False by simp
  next
    case True
    then have "physical_address e \<noteq> 0" "bytes e \<noteq> 0"
      "valid_extent e \<longleftrightarrow> \<not> physical_address e > u64_max - bytes e"
      by (auto simp: valid_extent_iff counted_def)
    then show ?thesis using Cons n True by simp
  qed
qed

lemma subtract_loop_correct:
  assumes "\<forall>r \<in> set rs. 0 < bytes r" and "sorted (map physical_address rs)"
    and "subtract_loop z cursor rs = (pieces, final)" and "cursor < z"
  shows "space pieces \<union> {final..<z} = {cursor..<z} - space rs"
    and "cursor \<le> final" and "\<forall>p \<in> set pieces. cursor \<le> physical_address p \<and> 0 < bytes p \<and>
      physical_address p + bytes p \<le> z"
proof -
  have "space pieces \<union> {final..<z} = {cursor..<z} - space rs \<and> cursor \<le> final \<and>
    (\<forall>p \<in> set pieces. cursor \<le> physical_address p \<and> 0 < bytes p \<and> physical_address p + bytes p \<le> z)"
    using assms
  proof (induction rs arbitrary: cursor pieces)
    case Nil
    then show ?case by auto
  next
    case (Cons r rs)
    let ?a = "physical_address r" let ?e = "?a + bytes r"
    have rest: "\<forall>r \<in> set rs. 0 < bytes r" "sorted (map physical_address rs)"
      "\<forall>x \<in> set rs. ?a \<le> physical_address x" "0 < bytes r" using Cons.prems by auto
    consider (skip) "?e \<le> cursor" | (stop) "cursor < ?e" "z \<le> ?a" | (cut) "cursor < ?e" "?a < z" by linarith
    then show ?case
    proof cases
      case skip
      then have "space pieces \<union> {final..<z} = {cursor..<z} - space rs \<and> cursor \<le> final \<and>
          (\<forall>p \<in> set pieces. cursor \<le> physical_address p \<and> 0 < bytes p \<and> physical_address p + bytes p \<le> z)"
        using Cons.prems rest by (intro Cons.IH) (auto simp: Let_def)
      then show ?thesis using skip by (auto simp: range_of_def mem_ivl)
    next
      case stop
      then have "pieces = []" "final = cursor" using Cons.prems(3) by (auto simp: Let_def)
      moreover have "{cursor..<z} \<inter> space (r # rs) = {}"
        using stop rest(3) by (fastforce simp: space_def range_of_def mem_ivl)
      ultimately show ?thesis by auto
    next
      case cut
      define piece where "piece = (if ?a > cursor then [mk_extent cursor (?a - cursor)] else [])"
      define cur where "cur = max cursor (min ?e z)"
      have step: "subtract_loop z cursor (r # rs) = (if z \<le> cur then (piece, cur)
          else (let (pieces, final) = subtract_loop z cur rs in (piece @ pieces, final)))"
        unfolding subtract_loop.simps Let_def piece_def cur_def
        by (subst if_not_P, use cut in linarith, subst if_not_P, use cut in linarith) (rule refl)
      have piece: "space piece \<union> {cur..<z} = {cursor..<z} - range_of r"
        "\<forall>p \<in> set piece. cursor \<le> physical_address p \<and> 0 < bytes p \<and> physical_address p + bytes p \<le> z"
        using cut Cons.prems(4) by (auto simp: piece_def cur_def range_of_def mem_ivl split: if_splits)
      have sep: "space piece \<inter> space rs = {}"
        using rest(3) by (fastforce simp: piece_def space_def range_of_def mem_ivl split: if_splits)
      show ?thesis
      proof (cases "z \<le> cur")
        case True
        then have "pieces = piece" "final = cur"
          using Cons.prems(3) unfolding step by simp_all
        then show ?thesis using piece sep True by (auto simp: cur_def)
      next
        case False
        then obtain ps where ps: "subtract_loop z cur rs = (ps, final)" "pieces = piece @ ps"
          using Cons.prems(3) unfolding step by (cases "subtract_loop z cur rs") auto
        have "space ps \<union> {final..<z} = {cur..<z} - space rs \<and> cur \<le> final \<and>
          (\<forall>p \<in> set ps. cur \<le> physical_address p \<and> 0 < bytes p \<and> physical_address p + bytes p \<le> z)"
          using Cons.IH [OF rest(1,2) ps(1)] False by simp
        then show ?thesis using piece sep ps(2) by (auto simp: cur_def)
      qed
    qed
  qed
  then show "space pieces \<union> {final..<z} = {cursor..<z} - space rs" "cursor \<le> final"
    "\<forall>p \<in> set pieces. cursor \<le> physical_address p \<and> 0 < bytes p \<and> physical_address p + bytes p \<le> z" by blast+
qed

lemma subtract_from_correct:
  assumes "\<forall>r \<in> set rs. 0 < bytes r" and "sorted (map physical_address rs)" and "valid_extent e"
  shows "space (subtract_from rs e) = range_of e - space rs"
    and "\<forall>p \<in> set (subtract_from rs e). valid_extent p"
proof -
  let ?a = "physical_address e" let ?z = "?a + bytes e"
  obtain pieces final where s: "subtract_loop ?z ?a rs = (pieces, final)" by fastforce
  have lt: "?a < ?z" using assms(3) by (simp add: valid_extent_iff)
  note c = subtract_loop_correct [OF assms(1,2) s lt]
  have "range_of e = {?a..<?z}" by (simp add: range_of_def ivl_def)
  then show "space (subtract_from rs e) = range_of e - space rs"
    using c(1) s by (auto simp: subtract_from_def Let_def ivl_def)
  have "p \<le> ?z \<Longrightarrow> p \<le> u64_max" for p using valid_extent_end [OF assms(3)] by linarith
  then show "\<forall>p \<in> set (subtract_from rs e). valid_extent p"
    using c(2,3) s assms(3) by (fastforce simp: subtract_from_def Let_def valid_extent_iff)
qed

lemma subtract_all_correct:
  assumes "\<forall>r \<in> set rs. 0 < bytes r" and "sorted (map physical_address rs)" and "\<forall>e \<in> set es. valid_extent e"
  shows "\<exists>out. Normalize (concat (map (subtract_from rs) es)) = (True, out) \<and> IsSortedAndValid out \<and>
           space out = space es - space rs"
proof -
  let ?adj = "concat (map (subtract_from rs) es)"
  have v: "\<forall>p \<in> set ?adj. valid_extent p" using subtract_from_correct(2) [OF assms(1,2)] assms(3) by auto
  then have f: "normalizable ?adj" "filter counted ?adj = ?adj"
    using valid_extent_counted by (auto simp: normalizable_def filter_id_conv)
  have "space ?adj = (\<Union>e \<in> set es. space (subtract_from rs e))" by (auto simp: space_def)
  also have "\<dots> = space es - space rs"
    using subtract_from_correct(1) [OF assms(1,2)] assms(3) by (auto simp: space_def)
  finally show ?thesis using Normalize_ok [OF f(1)] f(2) by auto
qed

lemma counted_sorted:
  "\<forall>r \<in> set (sort_key extent_key (filter counted es)). 0 < bytes r"
  "sorted (map physical_address (sort_key extent_key (filter counted es)))"
proof -
  show "\<forall>r \<in> set (sort_key extent_key (filter counted es)). 0 < bytes r" by (simp add: counted_def)
  have "sorted (map extent_key (sort_key extent_key (filter counted es)))" by simp
  then show "sorted (map physical_address (sort_key extent_key (filter counted es)))"
    unfolding sorted_map by (rule sorted_wrt_mono_rel [rotated]) (auto simp: extent_key_def)
qed

lemma SubtractAllocationsFromFreeExtents_ok:
  assumes "normalizable fs" and "normalizable as" and "fs \<noteq> []" and "as \<noteq> []"
  shows "\<exists>out. SubtractAllocationsFromFreeExtents fs as = (True, out) \<and> IsSortedAndValid out \<and>
           space out = space (filter counted fs) - space (filter counted as)"
proof -
  let ?rs = "sort_key extent_key (filter counted as)"
  let ?adj = "concat (map (subtract_from ?rs) (filter counted fs))"
  have v: "\<forall>e \<in> set (filter counted fs). valid_extent e" using assms(1) by (auto simp: normalizable_def)
  obtain out where out: "Normalize ?adj = (True, out)" "IsSortedAndValid out"
    "space out = space (filter counted fs) - space ?rs"
    using subtract_all_correct [OF counted_sorted v] by blast
  have "merge_loop [] (sort_key extent_key adj) = Some out" if "Normalize adj = (True, out)" for adj
    using that merge_loop_eq [of "[]"]
    by (cases "adj = []") (auto simp: Normalize_def CoalesceSorted_def split: option.splits)
  then have "merge_loop [] (sort_key extent_key ?adj) = Some out" using out(1) by blast
  moreover have "space ?rs = space (filter counted as)" by (intro space_cong_set) simp
  ultimately show ?thesis
    using assms out(2,3) by (simp add: SubtractAllocationsFromFreeExtents_def keep_counted_eq)
qed

lemma SubtractExtentsFromAllocations_ok:
  assumes "normalizable es" and "normalizable rs"
  shows "\<exists>out. SubtractExtentsFromAllocations es rs = (True, out) \<and> IsSortedAndValid out \<and>
           space out = space (filter counted es) - space (filter counted rs)"
proof -
  have v: "\<forall>e \<in> set (filter counted es). valid_extent e" using assms(1) by (auto simp: normalizable_def)
  have "normalizable (filter counted rs)" using assms(2) by (auto simp: normalizable_def)
  then obtain ns where ns: "Normalize (filter counted rs) = (True, ns)" "IsSortedAndValid ns"
    "space ns = space (filter counted rs)" using Normalize_ok by fastforce
  have n: "\<forall>r \<in> set ns. 0 < bytes r" "sorted (map physical_address ns)"
    using ns(2) unfolding IsSortedAndValid_iff sorted_map
    by (auto simp: valid_extent_iff gap_def elim!: sorted_wrt_mono_rel [rotated])
  obtain out where "Normalize (concat (map (subtract_from ns) (filter counted es))) = (True, out)"
    "IsSortedAndValid out" "space out = space (filter counted es) - space ns"
    using subtract_all_correct [OF n v] by blast
  then show ?thesis
    using assms ns(1,3) Normalize_ok [OF assms(1)]
    by (auto simp: SubtractExtentsFromAllocations_def keep_counted_eq NormalizeSpacemanExtents_eq
        normalizable_def)
qed

text \<open>
  The three ways to take ranges out of an extent list agree: on a canonical list, the
  store's subtraction from its free extents and from its allocations, and the allocator's
  batch removal, all succeed with the same canonical list, which covers exactly the
  difference of the address sets.
\<close>

theorem subtractions_agree:
  assumes "IsSortedAndValid fs" and "normalizable rs"
  shows "\<exists>out. SubtractAllocationsFromFreeExtents fs rs = (True, out) \<and>
     SubtractExtentsFromAllocations fs rs = (True, out) \<and> RemoveAllocatedExtents fs rs = (True, out) \<and>
     IsSortedAndValid out \<and> space out = space fs - space (filter counted rs)"
proof -
  have f: "normalizable fs" "filter counted fs = fs"
    using assms(1) by (simp_all add: normalizable_canonical filter_counted_canonical)
  obtain a where a: "SubtractExtentsFromAllocations fs rs = (True, a)" "IsSortedAndValid a"
    "space a = space fs - space (filter counted rs)"
    using SubtractExtentsFromAllocations_ok [OF f(1) assms(2)] f(2) by auto
  obtain b where b: "RemoveAllocatedExtents fs rs = (True, b)" "IsSortedAndValid b"
    "space b = space fs - space (filter counted rs)"
    using RemoveAllocatedExtents_ok [OF assms] by blast
  have "\<exists>c. SubtractAllocationsFromFreeExtents fs rs = (True, c) \<and> IsSortedAndValid c \<and>
    space c = space fs - space (filter counted rs)"
  proof (cases "fs = [] \<or> rs = []")
    case True
    then show ?thesis using assms(1) by (auto simp: SubtractAllocationsFromFreeExtents_def)
  next
    case False
    then show ?thesis using SubtractAllocationsFromFreeExtents_ok [OF f(1) assms(2)] f(2) by simp
  qed
  then show ?thesis using a b canonical_unique by metis
qed

theorem subtractions_agree_witness:
  "\<exists>out. SubtractAllocationsFromFreeExtents [mk_extent 4096 12288] [mk_extent 8192 4096] = (True, out) \<and>
     RemoveAllocatedExtents [mk_extent 4096 12288] [mk_extent 8192 4096] = (True, out)"
proof -
  have "IsSortedAndValid [mk_extent 4096 12288]" "normalizable [mk_extent 8192 4096]"
    by (simp_all add: IsSortedAndValid_def normalizable_def valid_extent_iff RangeEnd_def u64_max_def)
  from subtractions_agree [OF this] show ?thesis by blast
qed


section \<open>Overlap search\<close>

lemma sorted_extents_loop_iff:
  "sorted_extents_loop False p es \<longleftrightarrow> (\<forall>e \<in> set es. valid_extent e) \<and> sorted_wrt behind es \<and>
     (case p of None \<Rightarrow> True | Some z \<Rightarrow> \<forall>e \<in> set es. z \<le> physical_address e)"
proof (induction es arbitrary: p)
  case Nil
  then show ?case by (simp split: option.split)
next
  case (Cons e es)
  show ?case
  proof (cases "valid_extent e")
    case False
    then show ?thesis by (auto simp: valid_extent_iff)
  next
    case True
    then have v: "\<not> (physical_address e = 0 \<or> bytes e = 0 \<or> physical_address e > u64_max - bytes e)"
      by (auto simp: valid_extent_iff)
    have "physical_address e \<le> physical_address e + bytes e" by simp
    then show ?thesis
      using True v by (auto simp: Cons.IH behind_def split: option.split dest: le_trans)
  qed
qed

lemma lower_bound_sorted:
  assumes "sorted (map physical_address es)"
  shows "i < lower_bound es a \<Longrightarrow> physical_address (es ! i) < a"
    and "lower_bound es a \<le> i \<Longrightarrow> i < length es \<Longrightarrow> a \<le> physical_address (es ! i)"
proof -
  show "i < lower_bound es a \<Longrightarrow> physical_address (es ! i) < a" by (rule lower_bound_before)
  assume i: "lower_bound es a \<le> i" "i < length es"
  have "\<not> physical_address (es ! lower_bound es a) < a"
    using nth_length_takeWhile [of "\<lambda>c. physical_address c < a" es] i by (simp add: lower_bound_def)
  moreover have "physical_address (es ! lower_bound es a) \<le> physical_address (es ! i)"
    using sorted_nth_mono [OF assms i(1)] i by simp
  ultimately show "a \<le> physical_address (es ! i)" by simp
qed

lemma RangeOverlapsSorted_exact:
  assumes "SpacemanExtentsAreSortedNonOverlapping es" and "valid_extent e"
  shows "RangeOverlapsSorted es e \<longleftrightarrow> range_of e \<inter> space es \<noteq> {}"
proof -
  let ?a = "physical_address e" let ?z = "?a + bytes e" let ?n = "lower_bound es ?a"
  have v: "\<forall>x \<in> set es. valid_extent x" and b: "sorted_wrt behind es"
    using assms(1) by (simp_all add: SpacemanExtentsAreSortedNonOverlapping_def sorted_extents_loop_iff)
  have s: "sorted (map physical_address es)"
    unfolding sorted_map using b by (rule sorted_wrt_mono_rel [rotated]) (simp add: behind_def)
  have ov: "range_of e \<inter> space es \<noteq> {} \<longleftrightarrow>
      (\<exists>i < length es. physical_address (es ! i) < ?z \<and> ?a < physical_address (es ! i) + bytes (es ! i))"
  proof
    assume "range_of e \<inter> space es \<noteq> {}"
    then obtain y x where "y \<in> range_of e" "x \<in> set es" "y \<in> range_of x" by (auto simp: space_def)
    then show "\<exists>i < length es. physical_address (es ! i) < ?z \<and> ?a < physical_address (es ! i) + bytes (es ! i)"
      by (fastforce simp: in_set_conv_nth range_of_def mem_ivl)
  next
    assume "\<exists>i < length es. physical_address (es ! i) < ?z \<and> ?a < physical_address (es ! i) + bytes (es ! i)"
    then obtain i where i: "i < length es" "physical_address (es ! i) < ?z"
      "?a < physical_address (es ! i) + bytes (es ! i)" by blast
    have "max ?a (physical_address (es ! i)) \<in> range_of e \<inter> range_of (es ! i)"
      using i assms(2) v nth_mem [OF i(1)] by (auto simp: range_of_def mem_ivl max_def valid_extent_iff)
    then have "max ?a (physical_address (es ! i)) \<in> range_of e \<inter> space es"
      using nth_mem [OF i(1)] unfolding space_def by blast
    then show "range_of e \<inter> space es \<noteq> {}" by blast
  qed
  have nz: "\<not> (?a = 0 \<or> bytes e = 0 \<or> ?a > u64_max - bytes e)" using assms(2) by (auto simp: valid_extent_iff)
  have prev: "physical_address (es ! (?n - 1)) \<le> u64_max - bytes (es ! (?n - 1))" if "?n \<noteq> 0"
  proof -
    have "?n - 1 < length es" using that lower_bound_le [of es ?a] by linarith
    then show ?thesis using v nth_mem by (auto simp: valid_extent_iff)
  qed
  have def: "RangeOverlapsSorted es e \<longleftrightarrow> (?n < length es \<and> physical_address (es ! ?n) < ?z) \<or>
      (?n \<noteq> 0 \<and> ?a < physical_address (es ! (?n - 1)) + bytes (es ! (?n - 1)))"
    using nz prev by (auto simp: RangeOverlapsSorted_def Let_def)
  show ?thesis
    unfolding def ov
  proof
    assume "(?n < length es \<and> physical_address (es ! ?n) < ?z) \<or>
      (?n \<noteq> 0 \<and> ?a < physical_address (es ! (?n - 1)) + bytes (es ! (?n - 1)))"
    then show "\<exists>i < length es. physical_address (es ! i) < ?z \<and> ?a < physical_address (es ! i) + bytes (es ! i)"
    proof
      assume n: "?n < length es \<and> physical_address (es ! ?n) < ?z"
      then have "?a \<le> physical_address (es ! ?n)" using lower_bound_sorted(2) [OF s] by simp
      moreover have "0 < bytes (es ! ?n)" using v n by (auto simp: valid_extent_iff)
      ultimately show ?thesis using n by (intro exI [of _ ?n]) auto
    next
      assume n: "?n \<noteq> 0 \<and> ?a < physical_address (es ! (?n - 1)) + bytes (es ! (?n - 1))"
      then have "physical_address (es ! (?n - 1)) < ?a" by (intro lower_bound_sorted(1) [OF s]) simp
      moreover have "?n - 1 < length es" using n lower_bound_le [of es ?a] by linarith
      ultimately show ?thesis using n by (intro exI [of _ "?n - 1"]) auto
    qed
  next
    assume "\<exists>i < length es. physical_address (es ! i) < ?z \<and> ?a < physical_address (es ! i) + bytes (es ! i)"
    then obtain i where i: "i < length es" "physical_address (es ! i) < ?z"
      "?a < physical_address (es ! i) + bytes (es ! i)" by blast
    show "(?n < length es \<and> physical_address (es ! ?n) < ?z) \<or>
      (?n \<noteq> 0 \<and> ?a < physical_address (es ! (?n - 1)) + bytes (es ! (?n - 1)))"
    proof (cases "?n \<le> i")
      case True
      then have "physical_address (es ! ?n) \<le> physical_address (es ! i)"
        using sorted_nth_mono [OF s True] i(1) by simp
      then show ?thesis using True i by auto
    next
      case False
      have "i = ?n - 1"
      proof (rule ccontr)
        assume "i \<noteq> ?n - 1"
        then have "i < ?n - 1" "?n - 1 < length es" using False lower_bound_le [of es ?a] by linarith+
        then have "physical_address (es ! i) + bytes (es ! i) \<le> physical_address (es ! (?n - 1))"
          using b by (simp add: sorted_wrt_iff_nth_less behind_def)
        moreover have "physical_address (es ! (?n - 1)) < ?a"
          using False by (intro lower_bound_sorted(1) [OF s]) simp
        ultimately show False using i(3) by simp
      qed
      then show ?thesis using i False by auto
    qed
  qed
qed

text \<open>
  The overlap search in a sorted list of disjoint extents is exact: it answers true
  exactly when the range meets one of the extents, although it only looks at the two
  neighbours of the insertion point.
\<close>

theorem RangeOverlapsSorted_iff:
  assumes "SpacemanExtentsAreSortedNonOverlapping es" and "valid_extent e"
  shows "RangeOverlapsSorted es e \<longleftrightarrow> range_of e \<inter> space es \<noteq> {}"
  using assms by (rule RangeOverlapsSorted_exact)

theorem RangeOverlapsSorted_iff_witness:
  "\<not> RangeOverlapsSorted [mk_extent 4096 4096, mk_extent 8192 4096] (mk_extent 12288 4096) \<and>
   range_of (mk_extent 12288 4096) \<inter> space [mk_extent 4096 4096, mk_extent 8192 4096] = {}"
proof -
  have "SpacemanExtentsAreSortedNonOverlapping [mk_extent 4096 4096, mk_extent 8192 4096]"
    "valid_extent (mk_extent 12288 4096)"
    by (simp_all add: SpacemanExtentsAreSortedNonOverlapping_def valid_extent_iff u64_max_def)
  note iff = RangeOverlapsSorted_iff [OF this]
  have "range_of (mk_extent 12288 4096) \<inter> space [mk_extent 4096 4096, mk_extent 8192 4096] = {}"
    by (auto simp: mem_ivl)
  then show ?thesis using iff by simp
qed

end
