(* ===== verification/FileExtentAllocation.thy ===== *)
theory FileExtentAllocation
  imports ExtentAllocation
begin

text \<open>
  Correctness of \<^verbatim>\<open>ExtentAllocator::AllocateFileExtents\<close>: what a successful
  fragmented allocation hands out, that a failed one changes nothing, and that a positive
  answer of \<^verbatim>\<open>CanAllocateFromFragmentedFreeExtents\<close> is honoured.
\<close>

section \<open>Rounding to blocks\<close>

lemma AlignBytes_nonzero:
  assumes "AlignBytes n bs \<noteq> 0"
  shows "0 < n" and "0 < bs" and "bs dvd AlignBytes n bs" and "n \<le> AlignBytes n bs"
    and "AlignBytes n bs < n + bs"
proof -
  show n: "0 < n" and b: "0 < bs" using assms by (auto simp: AlignBytes_def split: if_splits)
  let ?m = "max n bs" let ?r = "?m mod bs"
  have r: "?r < bs" using b by simp
  have "AlignBytes n bs = (if ?r = 0 then ?m else ?m + (bs - ?r))"
    using assms n b by (auto simp: AlignBytes_def Let_def split: if_splits)
  moreover have "bs dvd ?m + (bs - ?r)"
  proof -
    have "?m + (bs - ?r) = ?m div bs * bs + bs" using r div_mult_mod_eq [of ?m bs] by linarith
    then show ?thesis by simp
  qed
  moreover have "?r = 0 \<and> ?m < n + bs \<or> ?r \<noteq> 0 \<and> ?m = n"
    using n b by (cases "bs \<le> n") (auto simp: max_def)
  moreover have "n \<le> ?m" by simp
  moreover have "bs dvd ?m" if "?r = 0" using that by (rule mod_0_imp_dvd)
  ultimately show "bs dvd AlignBytes n bs" "n \<le> AlignBytes n bs" "AlignBytes n bs < n + bs"
    using r by (auto split: if_splits)
qed

lemma AlignBytes_le_multiple:
  assumes "0 < n" and "0 < bs" and "bs dvd t" and "n \<le> t" and "t \<le> u64_max"
  shows "AlignBytes n bs \<noteq> 0" and "AlignBytes n bs \<le> t"
proof -
  have bt: "bs \<le> t" using assms by (intro dvd_imp_le) auto
  let ?m = "max n bs" let ?r = "?m mod bs"
  have r: "?r < bs" using assms(2) by simp
  have m: "?m \<le> t" using assms(4) bt by simp
  have up: "?m + (bs - ?r) \<le> t" if "?r \<noteq> 0"
  proof -
    have low: "?m - ?r < t"
      using m that by (metis assms(3) diff_less_Suc diff_zero dvd_imp_mod_0 le_neq_implies_less
          less_imp_diff_less linorder_not_le less_le_trans mod_eq_0_iff_dvd diff_le_self le_antisym)
    have "bs dvd ?m - ?r" by (rule dvd_minus_mod)
    then have "?m - ?r + bs \<le> t" using dvd_less_gap assms(3) low by blast
    then show ?thesis using r mod_less_eq_dividend [of ?m bs] by linarith
  qed
  have "AlignBytes n bs = (if ?r = 0 then ?m else ?m + (bs - ?r))"
  proof (cases "?r = 0")
    case True
    then show ?thesis using assms by (simp add: AlignBytes_def)
  next
    case False
    then have "\<not> ?m > u64_max - (bs - ?r)" using up assms(5) by linarith
    then show ?thesis using False assms by (simp add: AlignBytes_def Let_def)
  qed
  moreover have "0 < ?m" using assms(1) by simp
  ultimately show "AlignBytes n bs \<noteq> 0" "AlignBytes n bs \<le> t" using up m by auto
qed

section \<open>The allocation loop over runs\<close>

lemma take_runs_append:
  "take_runs bs (xs @ ys) st =
   (case take_runs bs xs st of None \<Rightarrow> None | Some st' \<Rightarrow> take_runs bs ys st')"
proof (induction xs arbitrary: st)
  case Nil
  then show ?case by simp
next
  case (Cons x xs)
  have "take_runs bs ys st = Some st" if "remaining_logical st = 0"
    using that by (cases ys) simp_all
  then show ?case by (auto simp: Cons.IH split: option.splits)
qed

lemma take_extents_eq_take_runs:
  "take_extents bs policy es st = take_runs bs (concat (map (extent_runs bs policy) es)) st"
proof (induction es arbitrary: st)
  case Nil
  then show ?case by simp
next
  case (Cons e es)
  have "take_runs bs xs st = Some st" if "remaining_logical st = 0" for xs
    using that by (cases xs) simp_all
  then show ?case by (auto simp: Cons.IH take_runs_append split: option.splits)
qed

text \<open>\<open>tiles a xs b\<close>: the logical ranges of \<open>xs\<close> cover \<open>[a, b)\<close> in order, without gap or overlap.\<close>

fun tiles :: "nat \<Rightarrow> FileExtent list \<Rightarrow> nat \<Rightarrow> bool" where
  "tiles a [] b \<longleftrightarrow> a = b"
| "tiles a (f # fs) b \<longleftrightarrow> logical_offset f = a \<and> 0 < fe_bytes f \<and> tiles (a + fe_bytes f) fs b"

definition footprint :: "nat \<Rightarrow> FileExtent \<Rightarrow> Extent" where
  "footprint bs f = mk_extent (fe_physical_address f) (AlignBytes (fe_bytes f) bs)"

lemma tiles_le: "tiles a xs b \<Longrightarrow> a \<le> b"
  by (induction xs arbitrary: a) fastforce+

lemma tiles_snoc: "tiles a (xs @ [f]) c \<longleftrightarrow> (\<exists>b. tiles a xs b \<and> logical_offset f = b \<and> 0 < fe_bytes f \<and> c = b + fe_bytes f)"
  by (induction xs arbitrary: a) auto

lemma tiles_coverage_loop:
  assumes "tiles a xs b" and "xs \<noteq> []" and "b \<le> u64_max" and "\<forall>f \<in> set xs. 0 < fe_physical_address f"
  shows "HasLogicalExtentCoverage_loop b a xs"
  using assms
proof (induction xs arbitrary: a)
  case Nil
  then show ?case by simp
next
  case (Cons f xs)
  have le: "a + fe_bytes f \<le> b" using Cons.prems(1) tiles_le by auto
  have fits: "\<not> u64_max - fe_bytes f < a" using le Cons.prems(3) by linarith
  show ?case
  proof (cases "xs = []")
    case True
    then show ?thesis using Cons.prems fits by (simp add: Let_def)
  next
    case False
    then have "HasLogicalExtentCoverage_loop b (a + fe_bytes f) xs"
      using Cons.prems by (intro Cons.IH) auto
    then show ?thesis using Cons.prems fits le by (simp add: Let_def)
  qed
qed

lemma take_run_Some:
  assumes "take_run bs r st = Some st'" and "bs \<noteq> 0" and "bs dvd bytes r"
  obtains f where "file_extents st' = file_extents st @ [f]"
    "allocated_physical_extents st' = allocated_physical_extents st @ [footprint bs f]"
    "logical_offset f = next_logical_offset st" "fe_physical_address f = physical_address r"
    "0 < fe_bytes f" "0 < AlignBytes (fe_bytes f) bs" "AlignBytes (fe_bytes f) bs \<le> bytes r"
    "fe_bytes f \<le> remaining_logical st"
    "fe_bytes f = min (remaining_logical st) (bytes r)"
    "remaining_logical st' = remaining_logical st - fe_bytes f"
    "next_logical_offset st' = next_logical_offset st + fe_bytes f"
proof -
  define ra where "ra = AlignBytes (remaining_logical st) bs"
  define ab where "ab = min (bytes r) ra"
  define lb where "lb = min (remaining_logical st) ab"
  define f where "f = \<lparr>logical_offset = next_logical_offset st,
      fe_physical_address = physical_address r, fe_bytes = lb\<rparr>"
  have nz: "ra \<noteq> 0" and lb: "lb \<noteq> 0"
    and st': "st' = st\<lparr>file_extents := file_extents st @ [f],
        allocated_physical_extents := allocated_physical_extents st @ [mk_extent (physical_address r) ab],
        remaining_logical := remaining_logical st - lb,
        next_logical_offset := next_logical_offset st + lb\<rparr>"
    using assms(1)
    by (auto simp: take_run_def Let_def f_def lb_def ab_def ra_def split: if_splits)
  note al = AlignBytes_nonzero [OF nz [unfolded ra_def], folded ra_def]
  have "ab = AlignBytes lb bs \<and> 0 < ab \<and> lb = min (remaining_logical st) (bytes r)"
  proof (cases "bytes r < ra")
    case True
    then have "bytes r + bs \<le> ra" using dvd_less_gap assms(3) al(3) by blast
    then have lbr: "lb = bytes r" "bytes r \<le> remaining_logical st"
      using al(5) True by (simp_all add: lb_def ab_def)
    then have "bs \<le> bytes r" using assms(3) lb by (intro dvd_imp_le) auto
    then have "AlignBytes (bytes r) bs = bytes r"
      using assms(2,3) lb lbr by (simp add: AlignBytes_def max_absorb1)
    then show ?thesis using lbr True lb by (simp add: ab_def)
  next
    case False
    then show ?thesis using al(4) nz by (simp add: lb_def ab_def ra_def)
  qed
  then show ?thesis
    using st' lb by (intro that [of f]) (auto simp: f_def footprint_def ab_def)
qed

lemma take_runs_correct:
  assumes "bs \<noteq> 0" and "\<forall>r \<in> set runs. bs dvd bytes r"
    and "take_runs bs runs st = Some st'"
  shows "\<exists>new. file_extents st' = file_extents st @ new \<and>
     allocated_physical_extents st' = allocated_physical_extents st @ map (footprint bs) new \<and>
     length new \<le> length runs \<and>
     (\<forall>i < length new. fe_physical_address (new ! i) = physical_address (runs ! i) \<and>
        0 < AlignBytes (fe_bytes (new ! i)) bs \<and>
        AlignBytes (fe_bytes (new ! i)) bs \<le> bytes (runs ! i)) \<and>
     tiles (next_logical_offset st) new (next_logical_offset st') \<and>
     next_logical_offset st' + remaining_logical st' = next_logical_offset st + remaining_logical st"
  using assms(2,3)
proof (induction runs arbitrary: st)
  case Nil
  then show ?case by simp
next
  case (Cons r rs)
  show ?case
  proof (cases "remaining_logical st = 0")
    case True
    then show ?thesis using Cons.prems by (intro exI [of _ "[]"]) simp
  next
    case False
    then obtain st1 where s1: "take_run bs r st = Some st1" and rest: "take_runs bs rs st1 = Some st'"
      using Cons.prems by (auto split: option.splits)
    obtain f where f: "file_extents st1 = file_extents st @ [f]"
      "allocated_physical_extents st1 = allocated_physical_extents st @ [footprint bs f]"
      "logical_offset f = next_logical_offset st" "fe_physical_address f = physical_address r"
      "0 < fe_bytes f" "0 < AlignBytes (fe_bytes f) bs" "AlignBytes (fe_bytes f) bs \<le> bytes r"
      "fe_bytes f \<le> remaining_logical st"
      "remaining_logical st1 = remaining_logical st - fe_bytes f"
      "next_logical_offset st1 = next_logical_offset st + fe_bytes f"
      using take_run_Some [OF s1 assms(1)] Cons.prems(1) by (metis list.set_intros(1))
    obtain new where n: "file_extents st' = file_extents st1 @ new"
      "allocated_physical_extents st' = allocated_physical_extents st1 @ map (footprint bs) new"
      "length new \<le> length rs"
      and nth: "\<forall>i < length new. fe_physical_address (new ! i) = physical_address (rs ! i) \<and>
        0 < AlignBytes (fe_bytes (new ! i)) bs \<and>
        AlignBytes (fe_bytes (new ! i)) bs \<le> bytes (rs ! i)"
      and t: "tiles (next_logical_offset st1) new (next_logical_offset st')"
      and sum: "next_logical_offset st' + remaining_logical st' =
        next_logical_offset st1 + remaining_logical st1"
      using Cons.IH [OF _ rest] Cons.prems(1) by auto
    show ?thesis
    proof (intro exI [of _ "f # new"] conjI)
      show "\<forall>i < length (f # new). fe_physical_address ((f # new) ! i) = physical_address ((r # rs) ! i) \<and>
        0 < AlignBytes (fe_bytes ((f # new) ! i)) bs \<and>
        AlignBytes (fe_bytes ((f # new) ! i)) bs \<le> bytes ((r # rs) ! i)"
        using nth f(4,6,7) by (auto simp: nth_Cons split: nat.splits)
      show "tiles (next_logical_offset st) (f # new) (next_logical_offset st')"
        using t f(3,5,10) by simp
      show "next_logical_offset st' + remaining_logical st' = next_logical_offset st + remaining_logical st"
        using sum f(8,9,10) by simp
    qed (use n f(1,2) in auto)
  qed
qed


section \<open>Safety\<close>

text \<open>
  What the allocator relies on in the policy: a range reported clean has no part, in whole
  blocks, that is reported unavailable.
\<close>

definition policy_monotone :: "nat \<Rightarrow> AllocationPolicy \<Rightarrow> bool" where
  "policy_monotone bs policy \<longleftrightarrow>
     (\<forall>a n b m. FitsContainer a n policy \<and> \<not> OverlapsUnavailable a n policy \<and>
        bs dvd a \<and> bs dvd n \<and> bs dvd b \<and> bs dvd m \<and> 0 < m \<and> a \<le> b \<and> b + m \<le> a + n \<longrightarrow>
        \<not> OverlapsUnavailable b m policy)"

lemma AllocateContiguousFromFree_None:
  "AllocateContiguousFromFree fs n policy undo = (None, fs', undo') \<Longrightarrow> fs' = fs"
  by (erule AllocateContiguousFromFree_cases) simp_all

lemma AllocateFileExtents_cases:
  assumes "AllocateFileExtents fs next_ephemeral logical_size aligned_total bs policy = (r, fs', next')"
  obtains (failed) "r = None" "fs' = fs" "next' = next_ephemeral"
  | (empty) "logical_size = 0" "r = Some []" "fs' = fs" "next' = next_ephemeral"
  | (contiguous) a undo' where "0 < logical_size" "0 < bs" "bs dvd aligned_total"
      "logical_size \<le> aligned_total"
      "\<forall>e \<in> set fs. bs dvd physical_address e \<and> bs dvd bytes e"
      "AllocateContiguousFromFree fs aligned_total (policy\<lparr>advance_past_unavailable := None\<rparr>) no_undo
         = (Some a, fs', undo')" "next' = next_ephemeral"
      "r = Some [\<lparr>logical_offset = 0, fe_physical_address = a, fe_bytes = logical_size\<rparr>]"
  | (fragments) st where "0 < logical_size" "0 < bs"
      "\<forall>e \<in> set fs. bs dvd physical_address e \<and> bs dvd bytes e"
      "take_extents bs policy fs \<lparr>file_extents = [], allocated_physical_extents = [],
         remaining_logical = logical_size, next_logical_offset = 0\<rparr> = Some st"
      "remaining_logical st = 0" "HasLogicalExtentCoverage (file_extents st) logical_size"
      "RemoveAllocatedExtents fs (allocated_physical_extents st) = (True, fs')"
      "next' = next_ephemeral" "r = Some (file_extents st)"
  | (fallback) a undo' where "0 < logical_size" "0 < bs" "bs dvd aligned_total"
      "logical_size \<le> aligned_total"
      "AllocateContiguous fs next_ephemeral aligned_total policy no_undo = (Some a, fs', next', undo')"
      "bs dvd a"
      "r = Some [\<lparr>logical_offset = 0, fe_physical_address = a, fe_bytes = logical_size\<rparr>]"
  using assms AllocateContiguousFromFree_None
  by (auto simp: AllocateFileExtents_def fallback_contiguous_def Let_def mod_eq_0_iff_dvd
      split: if_splits option.splits prod.splits bool.splits dest!: AllocateContiguousFromFree_None)

text \<open>
  \<open>file_allocation_ok\<close>: the file extents \<open>xs\<close> cover exactly the logical size; their
  block-rounded ranges are aligned, inside the container, clean, in ascending disjoint
  order, come from the free space or from the tail at \<open>next_ephemeral\<close> or above, and are
  no longer free.
\<close>

definition file_allocation_ok ::
  "nat \<Rightarrow> AllocationPolicy \<Rightarrow> Extent list \<Rightarrow> nat \<Rightarrow> nat \<Rightarrow> FileExtent list \<Rightarrow> Extent list \<Rightarrow> bool" where
  "file_allocation_ok bs policy fs next_ephemeral logical_size xs fs' \<longleftrightarrow>
     tiles 0 xs logical_size \<and> HasLogicalExtentCoverage xs logical_size \<and>
     sorted_wrt behind (map (footprint bs) xs) \<and>
     (\<forall>f \<in> set xs. clean_run bs policy (footprint bs f) \<and>
        (range_of (footprint bs f) \<subseteq> space fs \<or> next_ephemeral \<le> fe_physical_address f)) \<and>
     IsSortedAndValid fs' \<and> space fs' \<subseteq> space fs - space (map (footprint bs) xs)"

lemma FitsContainer_without_advance [simp]:
  "FitsContainer a n (policy\<lparr>advance_past_unavailable := x\<rparr>) = FitsContainer a n policy"
  by (simp add: FitsContainer_def split: option.split)

lemma OverlapsUnavailable_without_advance [simp]:
  "OverlapsUnavailable a n (policy\<lparr>advance_past_unavailable := x\<rparr>) = OverlapsUnavailable a n policy"
  by (simp add: OverlapsUnavailable_def)

lemma clean_run_sub:
  assumes "policy_monotone bs policy" and "clean_run bs policy (mk_extent a n)"
    and "bs dvd b" and "bs dvd m" and "0 < m" and "a \<le> b" and "b + m \<le> a + n"
  shows "clean_run bs policy (mk_extent b m)"
  using assms FitsContainer_sub [of a n policy b m]
  unfolding policy_monotone_def clean_run_def by (simp, blast)

lemma single_extent_ok:
  assumes mono: "policy_monotone bs policy" and L: "0 < L" "0 < bs" "bs dvd t" "L \<le> t" "bs dvd a"
    and fits: "FitsContainer a t policy" and clean: "\<not> OverlapsUnavailable a t policy"
    and "ivl a t \<subseteq> space fs \<or> next_ephemeral \<le> a"
    and "IsSortedAndValid fs'" and "space fs' \<subseteq> space fs - ivl a t"
  shows "file_allocation_ok bs policy fs next_ephemeral L
           [\<lparr>logical_offset = 0, fe_physical_address = a, fe_bytes = L\<rparr>] fs'"
proof -
  note d = FitsContainer_D [OF fits]
  have t: "t \<le> u64_max" using d(3) by simp
  note al = AlignBytes_le_multiple [OF L(1,2,3,4) t]
  have run: "clean_run bs policy (mk_extent a t)" using L fits clean by (simp add: clean_run_def)
  have cr: "clean_run bs policy (mk_extent a (AlignBytes L bs))"
    using al AlignBytes_nonzero(3) [OF al(1)] L(5) by (intro clean_run_sub [OF mono run]) auto
  have sub: "ivl a (AlignBytes L bs) \<subseteq> ivl a t" using al by (intro ivl_subset) auto
  have "\<not> u64_max - L < 0" by simp
  then have "HasLogicalExtentCoverage [\<lparr>logical_offset = 0, fe_physical_address = a, fe_bytes = L\<rparr>] L"
    using L d(1) by (simp add: HasLogicalExtentCoverage_def Let_def)
  then show ?thesis
    using L cr sub assms(9,10,11) by (auto simp: file_allocation_ok_def footprint_def)
qed

text \<open>The facts about the fragments that hold whatever the policy answers.\<close>

lemma fragments_layout:
  assumes wf: "IsSortedAndValid fs" and bs: "0 < bs"
    and al: "\<forall>e \<in> set fs. bs dvd physical_address e \<and> bs dvd bytes e"
    and te: "take_extents bs policy fs \<lparr>file_extents = [], allocated_physical_extents = [],
         remaining_logical = L, next_logical_offset = 0\<rparr> = Some st"
  shows "allocated_physical_extents st = map (footprint bs) (file_extents st)"
    and "tiles 0 (file_extents st) (next_logical_offset st)"
    and "next_logical_offset st + remaining_logical st = L"
    and "sorted_wrt behind (map (footprint bs) (file_extents st))"
    and "f \<in> set (file_extents st) \<Longrightarrow> valid_extent (footprint bs f) \<and>
      bs dvd fe_physical_address f \<and> AlignBytes (fe_bytes f) bs \<noteq> 0 \<and>
      range_of (footprint bs f) \<subseteq> space fs \<and>
      (\<exists>r. clean_run bs policy r \<and> within r (footprint bs f))"
proof -
  define runs where "runs = concat (map (extent_runs bs policy) fs)"
  define xs where "xs = file_extents st"
  have sr: "sorted_wrt behind runs"
    and cr: "\<forall>r \<in> set runs. clean_run bs policy r \<and> (\<exists>e \<in> set fs. within e r)"
    using all_runs_correct [OF wf al, of policy] unfolding runs_def by blast+
  have tr: "take_runs bs runs \<lparr>file_extents = [], allocated_physical_extents = [],
         remaining_logical = L, next_logical_offset = 0\<rparr> = Some st"
    using te unfolding take_extents_eq_take_runs runs_def .
  have "\<forall>r \<in> set runs. bs dvd bytes r" using cr by (simp add: clean_run_def)
  from take_runs_correct [OF _ this tr] bs
  have basic: "allocated_physical_extents st = map (footprint bs) (file_extents st)"
    "tiles 0 (file_extents st) (next_logical_offset st)"
    "next_logical_offset st + remaining_logical st = L"
    and len: "length xs \<le> length runs"
    and nth: "\<forall>i < length xs. fe_physical_address (xs ! i) = physical_address (runs ! i) \<and>
        0 < AlignBytes (fe_bytes (xs ! i)) bs \<and> AlignBytes (fe_bytes (xs ! i)) bs \<le> bytes (runs ! i)"
    by (auto simp: xs_def)
  show "allocated_physical_extents st = map (footprint bs) (file_extents st)"
    "tiles 0 (file_extents st) (next_logical_offset st)"
    "next_logical_offset st + remaining_logical st = L" by (fact basic)+
  have "sorted_wrt behind (map (footprint bs) xs)"
    unfolding sorted_wrt_iff_nth_less
  proof (intro allI impI)
    fix i j assume ij: "i < j" "j < length (map (footprint bs) xs)"
    have "behind (runs ! i) (runs ! j)" using sr ij len by (simp add: sorted_wrt_iff_nth_less)
    then show "behind (map (footprint bs) xs ! i) (map (footprint bs) xs ! j)"
      using nth [rule_format, of i] nth [rule_format, of j] ij by (simp add: behind_def footprint_def)
  qed
  then show "sorted_wrt behind (map (footprint bs) (file_extents st))" by (simp only: xs_def)
  assume "f \<in> set (file_extents st)"
  then obtain i where i: "i < length xs" "f = xs ! i" by (auto simp: xs_def in_set_conv_nth)
  let ?r = "runs ! i"
  have "?r \<in> set runs" using i(1) len by simp
  then obtain e where c: "clean_run bs policy ?r" and e: "e \<in> set fs" "within e ?r" using cr by blast
  have n: "fe_physical_address f = physical_address ?r" "AlignBytes (fe_bytes f) bs \<noteq> 0"
    "AlignBytes (fe_bytes f) bs \<le> bytes ?r" using nth i by auto
  then have w: "within ?r (footprint bs f)" by (simp add: within_def footprint_def)
  have "FitsContainer (fe_physical_address f) (AlignBytes (fe_bytes f) bs) policy"
    using c n FitsContainer_sub [of "physical_address ?r" "bytes ?r"] by (simp add: clean_run_def)
  then have "valid_extent (footprint bs f)" unfolding footprint_def by (rule FitsContainer_D(4))
  moreover have "range_of (footprint bs f) \<subseteq> range_of e"
    using w e(2) by (auto simp: range_of_def within_def mem_ivl)
  ultimately show "valid_extent (footprint bs f) \<and> bs dvd fe_physical_address f \<and>
      AlignBytes (fe_bytes f) bs \<noteq> 0 \<and> range_of (footprint bs f) \<subseteq> space fs \<and>
      (\<exists>r. clean_run bs policy r \<and> within r (footprint bs f))"
    using n c e(1) w by (auto simp: clean_run_def space_def)
qed

lemma fragments_removable:
  assumes "IsSortedAndValid fs" and "\<forall>f \<in> set xs. valid_extent (footprint bs f)"
  shows "\<exists>fs'. RemoveAllocatedExtents fs (map (footprint bs) xs) = (True, fs') \<and>
     IsSortedAndValid fs' \<and> space fs' = space fs - space (map (footprint bs) xs)"
proof -
  have "normalizable (map (footprint bs) xs)" using assms(2) by (auto simp: normalizable_def)
  moreover have "filter counted (map (footprint bs) xs) = map (footprint bs) xs"
    using assms(2) valid_extent_counted by (auto simp: filter_id_conv)
  ultimately show ?thesis using RemoveAllocatedExtents_ok [OF assms(1)] by metis
qed

lemma fragments_ok:
  assumes mono: "policy_monotone bs policy" and wf: "IsSortedAndValid fs" and bs: "0 < bs"
    and al: "\<forall>e \<in> set fs. bs dvd physical_address e \<and> bs dvd bytes e"
    and te: "take_extents bs policy fs \<lparr>file_extents = [], allocated_physical_extents = [],
         remaining_logical = L, next_logical_offset = 0\<rparr> = Some st"
    and rem: "remaining_logical st = 0" and cov: "HasLogicalExtentCoverage (file_extents st) L"
    and rm: "RemoveAllocatedExtents fs (allocated_physical_extents st) = (True, fs')"
  shows "file_allocation_ok bs policy fs next_ephemeral L (file_extents st) fs'"
proof -
  note l = fragments_layout [OF wf bs al te]
  have run: "clean_run bs policy (footprint bs f)" if f: "f \<in> set (file_extents st)" for f
  proof -
    obtain r where r: "clean_run bs policy r" "within r (footprint bs f)" using l(5) [OF f] by blast
    have nz: "AlignBytes (fe_bytes f) bs \<noteq> 0" "bs dvd fe_physical_address f" using l(5) [OF f] by blast+
    have "clean_run bs policy (mk_extent (physical_address r) (bytes r))"
      using r(1) by (simp add: clean_run_def)
    from clean_run_sub [OF mono this nz(2) AlignBytes_nonzero(3) [OF nz(1)]]
    show ?thesis using r(2) nz(1) by (simp add: footprint_def within_def)
  qed
  have "IsSortedAndValid fs' \<and> space fs' = space fs - space (map (footprint bs) (file_extents st))"
    using fragments_removable [OF wf, of "file_extents st" bs] l(5) rm unfolding l(1) by auto
  then show ?thesis
    using l run rem cov unfolding file_allocation_ok_def by auto
qed

lemma AllocateFileExtents_ok:
  assumes "policy_monotone bs policy" and "IsSortedAndValid fs"
    and "AllocateFileExtents fs next_ephemeral logical_size aligned_total bs policy = (r, fs', next')"
  shows "case r of
      None \<Rightarrow> fs' = fs \<and> next' = next_ephemeral
    | Some xs \<Rightarrow> file_allocation_ok bs policy fs next_ephemeral logical_size xs fs'"
  using assms(3)
proof (cases rule: AllocateFileExtents_cases)
  case failed
  then show ?thesis by simp
next
  case empty
  then show ?thesis using assms(2) by (simp add: file_allocation_ok_def HasLogicalExtentCoverage_def)
next
  case (contiguous a undo')
  note c = AllocateContiguousFromFree_correct [OF assms(2) contiguous(6)]
  have "bs dvd a" using c(7) contiguous(5) by auto
  then show ?thesis
    using c(1-6) contiguous(1-4,8) by (simp add: single_extent_ok [OF assms(1)])
next
  case (fragments st)
  then show ?thesis using fragments_ok [OF assms(1,2)] by simp
next
  case (fallback a undo')
  from fallback(5) have "IsSortedAndValid fs' \<and> space fs' \<subseteq> space fs - ivl a aligned_total \<and>
        FitsContainer a aligned_total policy \<and> \<not> OverlapsUnavailable a aligned_total policy \<and>
        (ivl a aligned_total \<subseteq> space fs \<or> next_ephemeral \<le> a)"
  proof (cases rule: AllocateContiguous_cases)
    case none
    then show ?thesis by simp
  next
    case (free b)
    then show ?thesis using AllocateContiguousFromFree_correct [OF assms(2) free(3)] by simp
  next
    case (tail b)
    then show ?thesis
      using RemoveAllocatedExtent_ok [OF assms(2) FitsContainer_D(4) [OF tail(4)]] by auto
  qed
  then show ?thesis using fallback single_extent_ok [OF assms(1)] by simp
qed

text \<open>
  The contract between the allocator and the provider of its policy callbacks: the parts, in
  whole blocks, of a range reported clean are clean.  Whatever store keeps it gets fragmented
  allocations that are safe.
\<close>

locale clean_policy =
  fixes bs :: nat and policy :: AllocationPolicy
  assumes clean_part: "FitsContainer a n policy \<Longrightarrow> \<not> OverlapsUnavailable a n policy \<Longrightarrow>
     bs dvd a \<Longrightarrow> bs dvd n \<Longrightarrow> bs dvd b \<Longrightarrow> bs dvd m \<Longrightarrow> 0 < m \<Longrightarrow> a \<le> b \<Longrightarrow> b + m \<le> a + n \<Longrightarrow>
     \<not> OverlapsUnavailable b m policy"
begin

lemma monotone: "policy_monotone bs policy"
  unfolding policy_monotone_def using clean_part by blast

lemma file_extents_ok:
  assumes "IsSortedAndValid fs"
    and "AllocateFileExtents fs next_ephemeral logical_size aligned_total bs policy = (Some xs, fs', next')"
  shows "file_allocation_ok bs policy fs next_ephemeral logical_size xs fs'"
  using AllocateFileExtents_ok [OF monotone assms] by simp

lemma file_extents_failed:
  assumes "IsSortedAndValid fs"
    and "AllocateFileExtents fs next_ephemeral logical_size aligned_total bs policy = (None, fs', next')"
  shows "fs' = fs \<and> next' = next_ephemeral"
  using AllocateFileExtents_ok [OF monotone assms] by simp

end

text \<open>
  C9. A successful fragmented allocation covers exactly the requested logical
  size; its block-rounded ranges are aligned, inside the container, reported clean, pairwise
  disjoint, taken from the free space or from the tail, and no longer free; the free list
  stays canonical.  A failed allocation leaves the free list and the tail as they were.
\<close>

theorem AllocateFileExtents_safe:
  assumes "policy_monotone bs policy" and "IsSortedAndValid fs"
    and "AllocateFileExtents fs next_ephemeral logical_size aligned_total bs policy = (r, fs', next')"
  shows "case r of
      None \<Rightarrow> fs' = fs \<and> next' = next_ephemeral
    | Some xs \<Rightarrow> file_allocation_ok bs policy fs next_ephemeral logical_size xs fs'"
  using assms by (rule AllocateFileExtents_ok)

theorem AllocateFileExtents_safe_witness:
  "file_allocation_ok 4096
     \<lparr>container_bytes = Some 1048576, overlaps_unavailable = Some (\<lambda>a n. a < 8192 \<and> 4096 < a + n),
      advance_past_unavailable = Some (\<lambda>a n. Some 8192)\<rparr>
     [mk_extent 4096 12288, mk_extent 20480 4096] 65536 10000
     [\<lparr>logical_offset = 0, fe_physical_address = 8192, fe_bytes = 8192\<rparr>,
      \<lparr>logical_offset = 8192, fe_physical_address = 20480, fe_bytes = 1808\<rparr>] [mk_extent 4096 4096]"
  (is "file_allocation_ok _ ?policy ?fs _ _ ?xs ?fs'")
proof -
  have mono: "policy_monotone 4096 ?policy"
    by (auto simp: policy_monotone_def FitsContainer_def OverlapsUnavailable_def)
  have wf: "IsSortedAndValid ?fs" by (simp add: IsSortedAndValid_def RangeEnd_def u64_max_def)
  have "AllocateFileExtents ?fs 65536 10000 12288 4096 ?policy = (Some ?xs, ?fs', 65536)"
    by (simp add: AllocateFileExtents_def AllocateContiguousFromFree_def try_free_extent_def
        FitsContainer_def OverlapsUnavailable_def RangeEnd_def u64_max_def extent_runs_def
        IsCleanWholeExtent_def ExtractCleanSubExtents_def clean_runs_loop.simps take_run_def
        AlignBytes_def HasLogicalExtentCoverage_def RemoveAllocatedExtents_def IsSortedAndValid_def
        Normalize_def CoalesceSorted_def extent_key_def)
  from AllocateFileExtents_safe [OF mono wf this] show ?thesis by simp
qed

section \<open>The capacity check is honoured\<close>

lemma sum_runs_True:
  "sum_runs t a rs = Inl True \<Longrightarrow> t \<le> a + sum_list (map bytes rs)"
  by (induction rs arbitrary: a) (fastforce split: if_splits)+

lemma sum_runs_Inr: "sum_runs t a rs = Inr a' \<Longrightarrow> a' = a + sum_list (map bytes rs)"
  by (induction rs arbitrary: a) (fastforce split: if_splits)+

lemma CanAllocate_loop_sum:
  "CanAllocate_loop t bs policy a fs \<Longrightarrow>
   t \<le> a + sum_list (map bytes (concat (map (extent_runs bs policy) fs)))"
proof (induction fs arbitrary: a)
  case Nil
  then show ?case by simp
next
  case (Cons e fs)
  show ?case
  proof (cases "sum_runs t a (extent_runs bs policy e)")
    case (Inl b)
    then show ?thesis using Cons.prems sum_runs_True [of t a "extent_runs bs policy e"]
      by (auto split: if_splits)
  next
    case (Inr a')
    then have "t \<le> a' + sum_list (map bytes (concat (map (extent_runs bs policy) fs)))"
      using Cons by (auto split: if_splits)
    then show ?thesis using sum_runs_Inr [OF Inr] by simp
  qed
qed

lemma take_runs_enough:
  assumes "0 < bs" and "bs dvd t" and "t \<le> u64_max" and "\<forall>r \<in> set runs. clean_run bs policy r"
    and "remaining_logical st \<le> t" and "remaining_logical st \<le> sum_list (map bytes runs)"
  shows "\<exists>st'. take_runs bs runs st = Some st' \<and> remaining_logical st' = 0"
  using assms(4-6)
proof (induction runs arbitrary: st)
  case Nil
  then show ?case by simp
next
  case (Cons r rs)
  show ?case
  proof (cases "remaining_logical st = 0")
    case True
    then show ?thesis by simp
  next
    case False
    have r: "bs dvd bytes r" "FitsContainer (physical_address r) (bytes r) policy"
      using Cons.prems(1) by (simp_all add: clean_run_def)
    have nz: "AlignBytes (remaining_logical st) bs \<noteq> 0"
      using AlignBytes_le_multiple(1) [OF _ assms(1,2) Cons.prems(2) assms(3)] False by simp
    have "\<not> u64_max - min (bytes r) (AlignBytes (remaining_logical st) bs) < physical_address r"
      using FitsContainer_D(3) [OF r(2)] by linarith
    then obtain st1 where st1: "take_run bs r st = Some st1"
      using nz False FitsContainer_D(2) [OF r(2)] by (simp add: take_run_def Let_def)
    then have "remaining_logical st1 = remaining_logical st - bytes r"
      using take_run_Some [OF st1 _ r(1)] assms(1) by (metis diff_diff_cancel diff_self_eq_0
        gr_implies_not_zero linorder_le_cases min.absorb1 min.absorb2 diff_is_0_eq)
    then show ?thesis using Cons st1 False by simp
  qed
qed

text \<open>
  C10. A positive answer of the capacity check is honoured: when
  \<^verbatim>\<open>CanAllocateFromFragmentedFreeExtents\<close> accepts the block-rounded size against a
  canonical free list of block-aligned extents, \<^verbatim>\<open>AllocateFileExtents\<close> succeeds, and
  it succeeds without moving the ephemeral tail.
\<close>

theorem CanAllocate_honoured:
  assumes "IsSortedAndValid fs"
    and "\<forall>e \<in> set fs. physical_address e mod bs = 0 \<and> bytes e mod bs = 0"
    and "CanAllocateFromFragmentedFreeExtents fs aligned_total policy bs"
    and "logical_size \<le> aligned_total" and "aligned_total \<le> u64_max"
  shows "\<exists>xs fs'. AllocateFileExtents fs next_ephemeral logical_size aligned_total bs policy =
           (Some xs, fs', next_ephemeral)"
proof (cases "logical_size = 0")
  case True
  then show ?thesis by (simp add: AllocateFileExtents_def)
next
  case False
  have g: "0 < aligned_total" "0 < bs" "bs dvd aligned_total" "\<not> aligned_total < logical_size"
    and can: "CanAllocate_loop aligned_total bs policy 0 fs"
    using assms(3,4) by (auto simp: CanAllocateFromFragmentedFreeExtents_def split: if_splits)
  have al: "\<forall>e \<in> set fs. bs dvd physical_address e \<and> bs dvd bytes e" using assms(2) by auto
  obtain r fs1 u where c: "AllocateContiguousFromFree fs aligned_total
      (policy\<lparr>advance_past_unavailable := None\<rparr>) no_undo = (r, fs1, u)" by (metis prod_cases3)
  show ?thesis
  proof (cases r)
    case (Some a)
    then show ?thesis using c False g al by (auto simp: AllocateFileExtents_def)
  next
    case None
    have fs1: "fs1 = fs" using c None AllocateContiguousFromFree_None by simp
    let ?st = "\<lparr>file_extents = [], allocated_physical_extents = [],
         remaining_logical = logical_size, next_logical_offset = 0\<rparr>"
    have "logical_size \<le> sum_list (map bytes (concat (map (extent_runs bs policy) fs)))"
      using CanAllocate_loop_sum [OF can] assms(4) by simp
    then obtain st where st: "take_extents bs policy fs ?st = Some st" "remaining_logical st = 0"
      using take_runs_enough [OF g(2,3) assms(5), of "concat (map (extent_runs bs policy) fs)" policy ?st]
        all_runs_correct [OF assms(1) al, of policy] assms(4) unfolding take_extents_eq_take_runs
      by auto
    note l = fragments_layout [OF assms(1) g(2) al st(1)]
    have t: "tiles 0 (file_extents st) logical_size" using l(2,3) st(2) by simp
    have "\<forall>f \<in> set (file_extents st). 0 < fe_physical_address f"
      using l(5) by (auto simp: valid_extent_iff footprint_def)
    moreover have "file_extents st \<noteq> []" using t False by auto
    ultimately have cov: "HasLogicalExtentCoverage (file_extents st) logical_size"
      using tiles_coverage_loop [OF t] assms(4,5) False by (simp add: HasLogicalExtentCoverage_def)
    obtain fs' where "RemoveAllocatedExtents fs (allocated_physical_extents st) = (True, fs')"
      using fragments_removable [OF assms(1), of "file_extents st" bs] l(5) unfolding l(1) by blast
    then show ?thesis
      using c None fs1 False g al st cov by (auto simp: AllocateFileExtents_def)
  qed
qed

theorem CanAllocate_honoured_witness:
  "\<exists>xs fs'. AllocateFileExtents [mk_extent 4096 8192, mk_extent 20480 4096] 65536 10000 12288 4096
     \<lparr>container_bytes = Some 1048576, overlaps_unavailable = None, advance_past_unavailable = None\<rparr> =
     (Some xs, fs', 65536)"
  by (rule CanAllocate_honoured)
     (simp_all add: IsSortedAndValid_def RangeEnd_def u64_max_def extent_runs_def
        CanAllocateFromFragmentedFreeExtents_def IsCleanWholeExtent_def FitsContainer_def
        OverlapsUnavailable_def)

end
