(* ===== verification/CheckpointLayout.thy ===== *)
theory CheckpointLayout
  imports Prelude "HOL-Library.Multiset"
begin

text \<open>
  The private checkpoint band of \<^verbatim>\<open>src/MetadataStore.cpp\<close>: the last blocks of the
  container, and extension ranges before them, hold the slots of the object map, spaceman,
  inode, B-tree and replay checkpoints.  The layout functions depend on the container size and,
  for a container shared by several volumes, on the volume's slot; their per-size caches
  (reset whenever a superblock is loaded) return the list built for the same size and are left
  out.
\<close>

section \<open>Constants\<close>

definition kNativeCheckpointBandBlocks :: nat where "kNativeCheckpointBandBlocks = 128"
definition kNativeObjectMapCheckpointOffset :: nat where "kNativeObjectMapCheckpointOffset = 0"
definition kNativeSpacemanCheckpointOffset :: nat where "kNativeSpacemanCheckpointOffset = 4"
definition kNativeInodeCheckpointOffset :: nat where "kNativeInodeCheckpointOffset = 8"
definition kNativeBtreeCheckpointOffset :: nat where "kNativeBtreeCheckpointOffset = 24"
definition kNativeReplayCheckpointOffset :: nat where "kNativeReplayCheckpointOffset = 64"
definition kNativeOverflowCheckpointOffset :: nat where
  "kNativeOverflowCheckpointOffset = kNativeReplayCheckpointOffset + 2"
definition kNativeObjectMapOverflowBlocks :: nat where "kNativeObjectMapOverflowBlocks = 48"
definition kNativeInodeOverflowOffset :: nat where
  "kNativeInodeOverflowOffset = kNativeOverflowCheckpointOffset + kNativeObjectMapOverflowBlocks"
definition kNativeSpacemanExtensionBlocks :: nat where "kNativeSpacemanExtensionBlocks = 32"
definition kNativeInodeExtensionBlocks :: nat where "kNativeInodeExtensionBlocks = 192"
definition kNativeBtreeExtensionBlocks :: nat where "kNativeBtreeExtensionBlocks = 384"
definition kNativeMetadataExtensionBlocks :: nat where
  "kNativeMetadataExtensionBlocks = kNativeInodeExtensionBlocks + kNativeBtreeExtensionBlocks"
definition kNativeCheckpointExtensionBlocks :: nat where
  "kNativeCheckpointExtensionBlocks = kNativeSpacemanExtensionBlocks + kNativeMetadataExtensionBlocks"
definition kNativeMinimumSpacemanExtensionStartBlock :: nat where
  "kNativeMinimumSpacemanExtensionStartBlock = 1024"
definition kNativeMinimumMetadataExtensionStartBlock :: nat where
  "kNativeMinimumMetadataExtensionStartBlock = 1024"
definition kNativeSpacemanExtensionOffset :: nat where "kNativeSpacemanExtensionOffset = 0"
definition kNativeInodeExtensionOffset :: nat where "kNativeInodeExtensionOffset = 0"
definition kNativeBtreeExtensionOffset :: nat where
  "kNativeBtreeExtensionOffset = kNativeInodeExtensionBlocks"

lemmas layout_constants =
  kNativeCheckpointBandBlocks_def kNativeObjectMapCheckpointOffset_def
  kNativeSpacemanCheckpointOffset_def kNativeInodeCheckpointOffset_def
  kNativeBtreeCheckpointOffset_def kNativeReplayCheckpointOffset_def
  kNativeOverflowCheckpointOffset_def kNativeObjectMapOverflowBlocks_def
  kNativeInodeOverflowOffset_def kNativeSpacemanExtensionBlocks_def
  kNativeInodeExtensionBlocks_def kNativeBtreeExtensionBlocks_def
  kNativeMetadataExtensionBlocks_def kNativeCheckpointExtensionBlocks_def
  kNativeMinimumSpacemanExtensionStartBlock_def kNativeMinimumMetadataExtensionStartBlock_def
  kNativeSpacemanExtensionOffset_def kNativeInodeExtensionOffset_def kNativeBtreeExtensionOffset_def

section \<open>The band\<close>

definition ResolveNativeCheckpointBandStartBlock :: "nat \<Rightarrow> nat option" where
  "ResolveNativeCheckpointBandStartBlock total_blocks =
     (if total_blocks \<le> kNativeCheckpointBandBlocks then None
      else Some (total_blocks - kNativeCheckpointBandBlocks))"

definition IsNativeCheckpointBandBlock :: "nat \<Rightarrow> nat \<Rightarrow> bool" where
  "IsNativeCheckpointBandBlock total_blocks block_index =
     (case ResolveNativeCheckpointBandStartBlock total_blocks of
        None \<Rightarrow> False
      | Some band_start \<Rightarrow>
          if block_index \<ge> band_start \<and> block_index < total_blocks then True
          else if band_start \<ge> kNativeMetadataExtensionBlocks \<and>
            (let metadata_extension_start = band_start - kNativeMetadataExtensionBlocks in
             metadata_extension_start \<ge> kNativeMinimumMetadataExtensionStartBlock \<and>
             block_index \<ge> metadata_extension_start \<and> block_index < band_start) then True
          else if band_start \<ge> kNativeCheckpointExtensionBlocks \<and>
            (let spaceman_extension_start = band_start - kNativeCheckpointExtensionBlocks in
             spaceman_extension_start \<ge> kNativeMinimumSpacemanExtensionStartBlock \<and>
             block_index \<ge> spaceman_extension_start \<and>
             block_index < spaceman_extension_start + kNativeSpacemanExtensionBlocks) then True
          else False)"

section \<open>Slot lists\<close>

text \<open>
  The loops that collect candidates: \<open>append_range\<close> from the start of the band, with its
  test for wrap-around, and \<open>extension_range\<close>, which also stops at the band.
\<close>

definition append_range :: "nat \<Rightarrow> nat \<Rightarrow> nat \<Rightarrow> nat \<Rightarrow> nat list" where
  "append_range total_blocks band_start offset block_count =
     (if block_count = 0 \<or> band_start > u64_max - offset then []
      else
        let range_start = band_start + offset in
        filter (IsNativeCheckpointBandBlock total_blocks)
          (map (\<lambda>index. range_start + index)
            (takeWhile (\<lambda>index. range_start \<le> u64_max - index) [0..<block_count])))"

definition primary_range :: "nat \<Rightarrow> nat \<Rightarrow> nat \<Rightarrow> nat list" where
  "primary_range total_blocks primary block_count =
     filter (IsNativeCheckpointBandBlock total_blocks) (map (\<lambda>index. add64 primary index) [0..<block_count])"

definition extension_range :: "nat \<Rightarrow> nat \<Rightarrow> nat \<Rightarrow> nat \<Rightarrow> nat list" where
  "extension_range total_blocks band_start range_start block_count =
     filter (IsNativeCheckpointBandBlock total_blocks)
       (map (\<lambda>index. range_start + index)
         (takeWhile (\<lambda>index. range_start \<le> u64_max - index \<and> \<not> range_start + index \<ge> band_start) [0..<block_count]))"

text \<open>The partition of a slot list among the volumes of a shared container.\<close>

record CheckpointContext =
  shared_container_session :: bool
  container_volume_slot_count :: nat
  container_volume_slot_index :: nat

definition SelectVolumeCheckpointPartition :: "CheckpointContext \<Rightarrow> nat list \<Rightarrow> nat list" where
  "SelectVolumeCheckpointPartition ctx block_indices =
     (if \<not> shared_container_session ctx \<or> container_volume_slot_count ctx \<le> 1 then block_indices
      else if container_volume_slot_index ctx \<ge> container_volume_slot_count ctx \<or>
              length block_indices < container_volume_slot_count ctx then []
      else
        let block_count = container_volume_slot_count ctx;
            index = container_volume_slot_index ctx;
            base = length block_indices div block_count;
            remainder = length block_indices mod block_count;
            first = index * base + min index remainder;
            len = base + (if index < remainder then 1 else 0)
        in if len = 0 \<or> first > length block_indices - len then []
           else take len (drop first block_indices))"

definition ResolveObjectMapCheckpointBlockIndices :: "CheckpointContext \<Rightarrow> nat \<Rightarrow> nat list" where
  "ResolveObjectMapCheckpointBlockIndices ctx total_blocks =
     SelectVolumeCheckpointPartition ctx
      (case ResolveNativeCheckpointBandStartBlock total_blocks of
         None \<Rightarrow> []
       | Some band_start \<Rightarrow>
           if band_start > u64_max - kNativeObjectMapCheckpointOffset then []
           else append_range total_blocks band_start kNativeObjectMapCheckpointOffset
                  (kNativeSpacemanCheckpointOffset - kNativeObjectMapCheckpointOffset) @
                append_range total_blocks band_start kNativeOverflowCheckpointOffset
                  kNativeObjectMapOverflowBlocks)"

definition ResolveSpacemanCheckpointBlockIndices :: "nat \<Rightarrow> nat list" where
  "ResolveSpacemanCheckpointBlockIndices total_blocks =
     (case ResolveNativeCheckpointBandStartBlock total_blocks of
        None \<Rightarrow> []
      | Some band_start \<Rightarrow>
          if band_start > u64_max - kNativeSpacemanCheckpointOffset then []
          else
            primary_range total_blocks (band_start + kNativeSpacemanCheckpointOffset)
              (kNativeInodeCheckpointOffset - kNativeSpacemanCheckpointOffset) @
            (if band_start \<ge> kNativeCheckpointExtensionBlocks \<and>
                band_start - kNativeCheckpointExtensionBlocks \<ge> kNativeMinimumSpacemanExtensionStartBlock
             then extension_range total_blocks band_start
                    (band_start - kNativeCheckpointExtensionBlocks + kNativeSpacemanExtensionOffset)
                    kNativeSpacemanExtensionBlocks
             else []))"

definition ResolveInodeCheckpointBlockIndices :: "CheckpointContext \<Rightarrow> nat \<Rightarrow> nat list" where
  "ResolveInodeCheckpointBlockIndices ctx total_blocks =
     SelectVolumeCheckpointPartition ctx
      (case ResolveNativeCheckpointBandStartBlock total_blocks of
         None \<Rightarrow> []
       | Some band_start \<Rightarrow>
           if band_start > u64_max - kNativeInodeCheckpointOffset then []
           else
             append_range total_blocks band_start kNativeInodeCheckpointOffset
               (kNativeBtreeCheckpointOffset - kNativeInodeCheckpointOffset) @
             append_range total_blocks band_start kNativeInodeOverflowOffset
               (kNativeCheckpointBandBlocks - kNativeInodeOverflowOffset) @
             (if band_start \<ge> kNativeMetadataExtensionBlocks \<and>
                 band_start - kNativeMetadataExtensionBlocks \<ge> kNativeMinimumMetadataExtensionStartBlock
              then extension_range total_blocks band_start
                     (band_start - kNativeMetadataExtensionBlocks + kNativeInodeExtensionOffset)
                     kNativeInodeExtensionBlocks
              else []))"

definition ResolveLegacyContiguousCheckpointBlocks ::
  "nat option \<Rightarrow> nat \<Rightarrow> nat \<Rightarrow> (nat \<Rightarrow> bool) \<Rightarrow> nat list" where
  "ResolveLegacyContiguousCheckpointBlocks band_start offset block_count is_allowed =
     (case band_start of
        None \<Rightarrow> []
      | Some start \<Rightarrow>
          if block_count = 0 \<or> start > u64_max - offset then []
          else filter is_allowed
                 (map (\<lambda>index. start + offset + index)
                   (takeWhile (\<lambda>index. start + offset \<le> u64_max - index) [0..<block_count])))"

text \<open>
  The loop over the B-tree extension tests the start of the extension for wrap-around, not the
  shifted start; the sum wraps.
\<close>

definition ResolveBtreeCheckpointBlockIndices :: "CheckpointContext \<Rightarrow> nat \<Rightarrow> nat list" where
  "ResolveBtreeCheckpointBlockIndices ctx total_blocks =
     SelectVolumeCheckpointPartition ctx
      (case ResolveNativeCheckpointBandStartBlock total_blocks of
         None \<Rightarrow> []
       | Some band_start \<Rightarrow>
           if band_start > u64_max - kNativeBtreeCheckpointOffset then []
           else
             primary_range total_blocks (band_start + kNativeBtreeCheckpointOffset)
               (kNativeReplayCheckpointOffset - kNativeBtreeCheckpointOffset) @
             (if band_start \<ge> kNativeMetadataExtensionBlocks \<and>
                 band_start - kNativeMetadataExtensionBlocks \<ge> kNativeMinimumMetadataExtensionStartBlock
              then
                let extension_start = band_start - kNativeMetadataExtensionBlocks;
                    candidate = (\<lambda>index. add64 (add64 extension_start kNativeBtreeExtensionOffset) index)
                in filter (IsNativeCheckpointBandBlock total_blocks)
                     (map candidate
                       (takeWhile (\<lambda>index. extension_start \<le> u64_max - index \<and>
                          \<not> candidate index \<ge> band_start) [0..<kNativeBtreeExtensionBlocks]))
              else []))"

definition ResolveReplayCheckpointBlockIndices :: "nat \<Rightarrow> nat list" where
  "ResolveReplayCheckpointBlockIndices total_blocks =
     (case ResolveNativeCheckpointBandStartBlock total_blocks of
        None \<Rightarrow> []
      | Some band_start \<Rightarrow>
          if band_start > u64_max - kNativeReplayCheckpointOffset then []
          else primary_range total_blocks (band_start + kNativeReplayCheckpointOffset) 2)"


section \<open>Closed forms\<close>

lemma ResolveNativeCheckpointBandStartBlock_Some:
  "ResolveNativeCheckpointBandStartBlock t = Some b \<longleftrightarrow> t = b + 128 \<and> 0 < b"
  by (auto simp: ResolveNativeCheckpointBandStartBlock_def layout_constants)

lemma ResolveNativeCheckpointBandStartBlock_None:
  "ResolveNativeCheckpointBandStartBlock t = None \<longleftrightarrow> t \<le> 128"
  by (simp add: ResolveNativeCheckpointBandStartBlock_def layout_constants)

text \<open>The band blocks: the band itself and, in a container large enough, the extensions.\<close>

definition band_low :: "nat \<Rightarrow> nat" where
  "band_low t = (if t \<le> 128 then t else if t \<ge> 1760 then t - 736 else if t \<ge> 1728 then t - 704 else t - 128)"

definition band_blocks :: "nat \<Rightarrow> nat set" where
  "band_blocks t = {band_low t..<t}"

lemma IsNativeCheckpointBandBlock_iff: "IsNativeCheckpointBandBlock t i \<longleftrightarrow> i \<in> band_blocks t"
proof (cases "t \<le> 128")
  case True
  then show ?thesis
    by (simp add: IsNativeCheckpointBandBlock_def ResolveNativeCheckpointBandStartBlock_None [THEN iffD2] band_blocks_def band_low_def)
next
  case False
  then have b: "ResolveNativeCheckpointBandStartBlock t = Some (t - 128)"
    by (simp add: ResolveNativeCheckpointBandStartBlock_Some)
  show ?thesis
    using False unfolding IsNativeCheckpointBandBlock_def b band_blocks_def band_low_def
    by (auto simp: layout_constants Let_def)
qed

lemma filter_shifted_upt:
  assumes "\<forall>i < n. P (a + i)"
  shows "filter P (map (\<lambda>i. a + i) [0..<n]) = [a..<a + n]"
proof -
  have m: "map (\<lambda>i. a + i) [0..<n] = [a..<a + n]" by (simp add: map_add_upt add.commute)
  have "P x" if "x \<in> set [a..<a + n]" for x
  proof -
    have "a \<le> x" "x - a < n" using that by auto
    then show ?thesis using assms [rule_format, of "x - a"] by simp
  qed
  then show ?thesis unfolding m by (intro filter_True) blast
qed

lemma append_range_closed:
  assumes "t = b + 128" and "0 < b" and "t \<le> u64_max" and "off + n \<le> 128"
  shows "append_range t b off n = [b + off..<b + off + n]"
proof (cases "n = 0")
  case True
  then show ?thesis by (simp add: append_range_def)
next
  case False
  have "takeWhile (\<lambda>i. b + off \<le> u64_max - i) [0..<n] = [0..<n]"
    using assms by (intro takeWhile_eq_all_conv [THEN iffD2]) auto
  moreover have "\<forall>i < n. IsNativeCheckpointBandBlock t (b + off + i)"
    using assms by (auto simp: IsNativeCheckpointBandBlock_iff band_blocks_def band_low_def)
  moreover have "append_range t b off n = filter (IsNativeCheckpointBandBlock t)
      (map (\<lambda>i. b + off + i) (takeWhile (\<lambda>i. b + off \<le> u64_max - i) [0..<n]))"
    using False assms unfolding append_range_def Let_def by (subst if_not_P) auto
  ultimately show ?thesis by (simp only: filter_shifted_upt)
qed

lemma primary_range_closed:
  assumes "t = b + 128" and "0 < b" and "t \<le> u64_max" and "off + n \<le> 128"
  shows "primary_range t (b + off) n = [b + off..<b + off + n]"
proof -
  have "map (\<lambda>i. add64 (b + off) i) [0..<n] = map (\<lambda>i. b + off + i) [0..<n]"
    using assms by (auto intro!: add64_exact)
  moreover have "\<forall>i < n. IsNativeCheckpointBandBlock t (b + off + i)"
    using assms by (auto simp: IsNativeCheckpointBandBlock_iff band_blocks_def band_low_def)
  ultimately show ?thesis unfolding primary_range_def by (simp only: filter_shifted_upt)
qed

lemma extension_range_closed:
  assumes "t = b + 128" and "t \<le> u64_max" and "s + n \<le> b" and "{s..<s + n} \<subseteq> band_blocks t"
  shows "extension_range t b s n = [s..<s + n]"
proof -
  have "takeWhile (\<lambda>i. s \<le> u64_max - i \<and> \<not> s + i \<ge> b) [0..<n] = [0..<n]"
    using assms by (intro takeWhile_eq_all_conv [THEN iffD2]) auto
  moreover have "\<forall>i < n. IsNativeCheckpointBandBlock t (s + i)"
    using assms(4) by (auto simp: IsNativeCheckpointBandBlock_iff)
  ultimately show ?thesis unfolding extension_range_def by (simp only: filter_shifted_upt)
qed

section \<open>Partition among volumes\<close>

lemma SelectVolumeCheckpointPartition_slice:
  "\<exists>i n. SelectVolumeCheckpointPartition ctx bs = take n (drop i bs)"
proof -
  have whole: "\<exists>i n. bs = take n (drop i bs)" by (rule exI [of _ 0], rule exI [of _ "length bs"]) simp
  have none: "\<exists>i n. [] = take n (drop i bs)" by (rule exI [of _ 0], rule exI [of _ 0]) simp
  show ?thesis
    unfolding SelectVolumeCheckpointPartition_def Let_def
    by (simp only: if_distrib [of "\<lambda>l. \<exists>i n. l = take n (drop i bs)"]) (use whole none in auto)
qed

lemma SelectVolumeCheckpointPartition_distinct:
  "distinct bs \<Longrightarrow> distinct (SelectVolumeCheckpointPartition ctx bs)"
  "set (SelectVolumeCheckpointPartition ctx bs) \<subseteq> set bs"
  using SelectVolumeCheckpointPartition_slice [of ctx bs]
  by (metis distinct_drop distinct_take) (metis SelectVolumeCheckpointPartition_slice set_drop_subset set_take_subset subset_trans)

definition slot_start :: "nat \<Rightarrow> nat \<Rightarrow> nat \<Rightarrow> nat" where
  "slot_start len block_count index = index * (len div block_count) + min index (len mod block_count)"

lemma slot_start_Suc:
  "slot_start len block_count (Suc i) = slot_start len block_count i + (len div block_count + (if i < len mod block_count then 1 else 0))"
  by (auto simp: slot_start_def)

lemma slot_start_mono: "i \<le> j \<Longrightarrow> slot_start len block_count i \<le> slot_start len block_count j"
  unfolding slot_start_def by (intro add_mono mult_le_mono1) auto

lemma slot_start_end: "0 < block_count \<Longrightarrow> slot_start len block_count block_count = len"
  using mod_less_divisor [of block_count len] by (simp add: slot_start_def min_absorb2 less_imp_le)

lemma SelectVolumeCheckpointPartition_shared:
  assumes "shared_container_session ctx" and "1 < container_volume_slot_count ctx"
    and "container_volume_slot_count ctx \<le> length bs"
    and "container_volume_slot_index ctx < container_volume_slot_count ctx"
  shows "SelectVolumeCheckpointPartition ctx bs =
    (let s = slot_start (length bs) (container_volume_slot_count ctx) in
     take (s (Suc (container_volume_slot_index ctx)) - s (container_volume_slot_index ctx))
       (drop (s (container_volume_slot_index ctx)) bs))"
proof -
  let ?n = "length bs" let ?c = "container_volume_slot_count ctx" let ?i = "container_volume_slot_index ctx"
  have base: "0 < ?n div ?c" using assms(2,3) by (simp add: div_greater_zero_iff)
  have "slot_start ?n ?c (Suc ?i) \<le> ?n"
    using slot_start_mono [of "Suc ?i" ?c ?n ?c] slot_start_end [of ?c ?n] assms by simp
  then have fits: "\<not> slot_start ?n ?c ?i > ?n - (?n div ?c + (if ?i < ?n mod ?c then 1 else 0))"
    unfolding slot_start_Suc by linarith
  show ?thesis
    using assms base fits
    by (auto simp: SelectVolumeCheckpointPartition_def Let_def slot_start_def)
qed

lemma concat_slices:
  assumes "\<And>i. s i \<le> s (Suc i)"
  shows "s 0 \<le> s k \<and> concat (map (\<lambda>i. take (s (Suc i) - s i) (drop (s i) xs)) [0..<k]) =
    take (s k - s 0) (drop (s 0) xs)"
proof (induction k)
  case 0
  then show ?case by simp
next
  case (Suc k)
  have "s 0 \<le> s k" "s k \<le> s (Suc k)" using Suc assms by auto
  then have "take (s (Suc k) - s 0) (drop (s 0) xs) =
      take (s k - s 0) (drop (s 0) xs) @ take (s (Suc k) - s k) (drop (s k) xs)"
    using take_add [of "s k - s 0" "s (Suc k) - s k" "drop (s 0) xs"] by simp
  then show ?case using Suc \<open>s k \<le> s (Suc k)\<close> by auto
qed

text \<open>
  In a container shared by several volumes, the slots handed to the volumes partition the
  slot list: put together in slot order they give the list back, every volume gets at least one
  slot, and the shares differ by at most one slot.
\<close>

theorem SelectVolumeCheckpointPartition_partitions:
  assumes "shared_container_session ctx" and "1 < container_volume_slot_count ctx"
    and "container_volume_slot_count ctx \<le> length bs"
  shows "let block_count = container_volume_slot_count ctx;
             share = (\<lambda>i. SelectVolumeCheckpointPartition (ctx\<lparr>container_volume_slot_index := i\<rparr>) bs)
         in concat (map share [0..<block_count]) = bs \<and>
            (\<forall>i < block_count. share i \<noteq> [] \<and>
               length (share i) \<in> {length bs div block_count, Suc (length bs div block_count)})"
proof -
  let ?c = "container_volume_slot_count ctx" let ?s = "slot_start (length bs) ?c"
  let ?share = "\<lambda>i. SelectVolumeCheckpointPartition (ctx\<lparr>container_volume_slot_index := i\<rparr>) bs"
  have mono: "?s i \<le> ?s (Suc i)" for i by (rule slot_start_mono) simp
  have share: "?share i = take (?s (Suc i) - ?s i) (drop (?s i) bs)" if "i < ?c" for i
    using SelectVolumeCheckpointPartition_shared [of "ctx\<lparr>container_volume_slot_index := i\<rparr>" bs] assms that
    by (simp add: Let_def)
  have "concat (map ?share [0..<?c]) = concat (map (\<lambda>i. take (?s (Suc i) - ?s i) (drop (?s i) bs)) [0..<?c])"
    by (intro arg_cong [of _ _ concat] map_cong) (auto simp: share)
  also have "\<dots> = take (?s ?c - ?s 0) (drop (?s 0) bs)" using concat_slices [of ?s ?c bs] mono by blast
  also have "\<dots> = bs" using slot_start_end [of ?c "length bs"] assms(2) by (simp add: slot_start_def)
  finally have whole: "concat (map ?share [0..<?c]) = bs" .
  have base: "0 < length bs div ?c" using assms(2,3) by (simp add: div_greater_zero_iff)
  have "?share i \<noteq> [] \<and> length (?share i) \<in> {length bs div ?c, Suc (length bs div ?c)}" if "i < ?c" for i
  proof -
    have "?s (Suc i) \<le> length bs"
      using slot_start_mono [of "Suc i" ?c "length bs" ?c] slot_start_end [of ?c "length bs"] that by simp
    then have "length (?share i) = ?s (Suc i) - ?s i" using share [OF that] mono [of i] by simp
    then have "length (?share i) \<in> {length bs div ?c, Suc (length bs div ?c)}" by (simp add: slot_start_Suc)
    then show ?thesis using base by (metis (no_types, lifting) insertE length_greater_0_conv singletonD zero_less_Suc)
  qed
  with whole show ?thesis by (simp add: Let_def)
qed

theorem SelectVolumeCheckpointPartition_partitions_witness:
  "concat (map (\<lambda>i. SelectVolumeCheckpointPartition
     \<lparr>shared_container_session = True, container_volume_slot_count = 3, container_volume_slot_index = i\<rparr>
     [100, 101, 102, 103, 104, 105, 106]) [0..<3]) = [100, 101, 102, 103, 104, 105, 106]"
proof -
  let ?ctx = "\<lparr>shared_container_session = True, container_volume_slot_count = 3, container_volume_slot_index = 0\<rparr>"
  have "shared_container_session ?ctx" "1 < container_volume_slot_count ?ctx"
    "container_volume_slot_count ?ctx \<le> length [100, 101, 102, 103, 104, 105, 106::nat]" by simp_all
  from SelectVolumeCheckpointPartition_partitions [OF this] show ?thesis unfolding Let_def by simp
qed

section \<open>The families of slots\<close>

lemma slot_families_large:
  assumes t: "t = b + 128" "0 < b" "t \<le> u64_max"
  defines "ctx \<equiv> \<lparr>shared_container_session = False, container_volume_slot_count = 1, container_volume_slot_index = 0\<rparr>"
  shows "ResolveObjectMapCheckpointBlockIndices ctx t = [b..<b + 4] @ [b + 66..<b + 66 + 48]"
    and "ResolveSpacemanCheckpointBlockIndices t =
      [b + 4..<b + 4 + 4] @ (if b \<ge> 1632 then [b - 608..<b - 576] else [])"
    and "ResolveInodeCheckpointBlockIndices ctx t =
      [b + 8..<b + 8 + 16] @ [b + 114..<b + 114 + 14] @ (if b \<ge> 1600 then [b - 576..<b - 384] else [])"
    and "ResolveBtreeCheckpointBlockIndices ctx t =
      [b + 24..<b + 24 + 40] @ (if b \<ge> 1600 then [b - 384..<b] else [])"
    and "ResolveReplayCheckpointBlockIndices t = [b + 64..<b + 64 + 2]"
proof -
  note r = append_range_closed [OF t] primary_range_closed [OF t]
  have band: "ResolveNativeCheckpointBandStartBlock t = Some b"
    using t by (simp add: ResolveNativeCheckpointBandStartBlock_Some)
  have sel: "SelectVolumeCheckpointPartition ctx = id"
    by (simp add: fun_eq_iff SelectVolumeCheckpointPartition_def ctx_def)
  have lim: "\<not> b > u64_max - n" if "n \<le> 128" for n using t that by linarith
  note [simp del] = upt_rec_numeral
  show "ResolveObjectMapCheckpointBlockIndices ctx t = [b..<b + 4] @ [b + 66..<b + 66 + 48]"
    using r(1) [of 0 4] r(1) [of 66 48] lim [of 0]
    by (simp add: ResolveObjectMapCheckpointBlockIndices_def band sel layout_constants)
  have "extension_range t b (b - 608) 32 = [b - 608..<b - 576]" if "b \<ge> 1632"
    proof -
    have "{b - 608..<b - 608 + 32} \<subseteq> band_blocks t" using that t(1) by (auto simp: band_blocks_def band_low_def)
    moreover have "b - 608 + 32 = b - 576" "b - 608 + 32 \<le> b" using that by simp_all
    ultimately show ?thesis using extension_range_closed [OF t(1,3), of "b - 608" 32] by simp
  qed
  then show "ResolveSpacemanCheckpointBlockIndices t =
      [b + 4..<b + 4 + 4] @ (if b \<ge> 1632 then [b - 608..<b - 576] else [])"
    using r(2) [of 4 4] lim [of 4]
    by (auto simp: ResolveSpacemanCheckpointBlockIndices_def band layout_constants)
  have ext: "extension_range t b (b - 576) 192 = [b - 576..<b - 384]" if "b \<ge> 1600"
    proof -
    have "{b - 576..<b - 576 + 192} \<subseteq> band_blocks t" using that t(1) by (auto simp: band_blocks_def band_low_def)
    moreover have "b - 576 + 192 = b - 384" "b - 576 + 192 \<le> b" using that by simp_all
    ultimately show ?thesis using extension_range_closed [OF t(1,3), of "b - 576" 192] by simp
  qed
  then show "ResolveInodeCheckpointBlockIndices ctx t =
      [b + 8..<b + 8 + 16] @ [b + 114..<b + 114 + 14] @ (if b \<ge> 1600 then [b - 576..<b - 384] else [])"
    using r(1) [of 8 16] r(1) [of 114 14] lim [of 8]
    by (auto simp: ResolveInodeCheckpointBlockIndices_def band sel layout_constants)
  show "ResolveReplayCheckpointBlockIndices t = [b + 64..<b + 64 + 2]"
    using r(2) [of 64 2] lim [of 64]
    by (simp add: ResolveReplayCheckpointBlockIndices_def band layout_constants)
  have "filter (IsNativeCheckpointBandBlock t) (map (\<lambda>i. add64 (add64 (b - 576) 192) i)
      (takeWhile (\<lambda>i. b - 576 \<le> u64_max - i \<and> \<not> add64 (add64 (b - 576) 192) i \<ge> b) [0..<384])) = [b - 384..<b]"
    if b: "b \<ge> 1600"
  proof -
    have e: "add64 (add64 (b - 576) 192) i = b - 384 + i" if "i < 384" for i
      using b t that by (simp add: add64_exact)
    have w: "takeWhile (\<lambda>i. b - 576 \<le> u64_max - i \<and> \<not> add64 (add64 (b - 576) 192) i \<ge> b) [0..<384] = [0..<384]"
      using b t by (intro takeWhile_eq_all_conv [THEN iffD2]) (auto simp: e)
    have m: "map (\<lambda>i. add64 (add64 (b - 576) 192) i) [0..<384] = map (\<lambda>i. b - 384 + i) [0..<384]"
      by (rule map_cong) (auto simp: e)
    have "\<forall>i < 384. IsNativeCheckpointBandBlock t (b - 384 + i)"
      using b t by (auto simp: IsNativeCheckpointBandBlock_iff band_blocks_def band_low_def)
    then show ?thesis unfolding w m using b by (subst filter_shifted_upt) auto
  qed
  then show "ResolveBtreeCheckpointBlockIndices ctx t =
      [b + 24..<b + 24 + 40] @ (if b \<ge> 1600 then [b - 384..<b] else [])"
    using r(2) [of 24 40] lim [of 24]
    by (auto simp: ResolveBtreeCheckpointBlockIndices_def band sel layout_constants Let_def)
qed

lemma slot_families_mset:
  assumes t: "t = b + 128" "0 < b" "t \<le> u64_max"
  defines "ctx \<equiv> \<lparr>shared_container_session = False, container_volume_slot_count = 1, container_volume_slot_index = 0\<rparr>"
  shows "mset (ResolveObjectMapCheckpointBlockIndices ctx t @ ResolveSpacemanCheckpointBlockIndices t @
     ResolveInodeCheckpointBlockIndices ctx t @ ResolveBtreeCheckpointBlockIndices ctx t @
     ResolveReplayCheckpointBlockIndices t) = mset [band_low t..<t]"
proof -
  have cut: "mset [i..<k] = mset [i..<j] + mset [j..<k]" if "i \<le> j" "j \<le> k" for i j k :: nat
    using that by (metis mset_append upt_add_eq_append le_add_diff_inverse)
  have band: "mset [b..<b + 128] = mset [b..<b + 4] + mset [b + 4..<b + 4 + 4] + mset [b + 8..<b + 8 + 16] +
      mset [b + 24..<b + 24 + 40] + mset [b + 64..<b + 64 + 2] + mset [b + 66..<b + 66 + 48] +
      mset [b + 114..<b + 114 + 14]"
    using cut [of b "b + 4" "b + 128"] cut [of "b + 4" "b + 8" "b + 128"] cut [of "b + 8" "b + 24" "b + 128"]
      cut [of "b + 24" "b + 64" "b + 128"] cut [of "b + 64" "b + 66" "b + 128"] cut [of "b + 66" "b + 114" "b + 128"]
    by (simp add: add.assoc add.commute [of _ b] del: upt_rec_numeral)
  have ext: "mset [b - 576..<b] = mset [b - 576..<b - 384] + mset [b - 384..<b]"
    "mset [b - 608..<b] = mset [b - 608..<b - 576] + mset [b - 576..<b]" by (rule cut; simp)+
  have low: "mset [band_low t..<t] = mset [band_low t..<b] + mset [b..<b + 128]"
    using cut [of "band_low t" b "b + 128"] t by (auto simp: band_low_def)
  have "mset [band_low t..<b] = (if b \<ge> 1632 then mset [b - 608..<b - 576] else {#}) +
      (if b \<ge> 1600 then mset [b - 576..<b - 384] + mset [b - 384..<b] else {#})"
    using ext t by (auto simp: band_low_def)
  then show ?thesis
    unfolding ctx_def slot_families_large [OF t] low band mset_append by (simp add: ac_simps del: upt_rec_numeral)
qed

text \<open>
  C25. The five families of checkpoint slots tile the checkpoint band: in a container of any
  size, no block belongs to two families or twice to one, every slot is a band block, and every
  band block is a slot of some family, so writing one checkpoint never overwrites another.
\<close>

theorem checkpoint_slots_tile_band:
  assumes "total_blocks \<le> u64_max"
  shows "let ctx = \<lparr>shared_container_session = False, container_volume_slot_count = 1, container_volume_slot_index = 0\<rparr>;
             slots = ResolveObjectMapCheckpointBlockIndices ctx total_blocks @
                     ResolveSpacemanCheckpointBlockIndices total_blocks @
                     ResolveInodeCheckpointBlockIndices ctx total_blocks @
                     ResolveBtreeCheckpointBlockIndices ctx total_blocks @
                     ResolveReplayCheckpointBlockIndices total_blocks
         in distinct slots \<and> (\<forall>i. i \<in> set slots \<longleftrightarrow> IsNativeCheckpointBandBlock total_blocks i)"
proof (cases "total_blocks \<le> 128")
  case True
  then have "ResolveNativeCheckpointBandStartBlock total_blocks = None" "band_blocks total_blocks = {}"
    by (simp_all add: ResolveNativeCheckpointBandStartBlock_None band_blocks_def band_low_def)
  then show ?thesis
    by (simp add: ResolveObjectMapCheckpointBlockIndices_def ResolveSpacemanCheckpointBlockIndices_def
        ResolveInodeCheckpointBlockIndices_def ResolveBtreeCheckpointBlockIndices_def
        ResolveReplayCheckpointBlockIndices_def SelectVolumeCheckpointPartition_def
        IsNativeCheckpointBandBlock_iff)
next
  case False
  define b where "b = total_blocks - 128"
  have t: "total_blocks = b + 128" "0 < b" "total_blocks \<le> u64_max" using False assms by (simp_all add: b_def)
  have "band_blocks total_blocks = set [band_low total_blocks..<total_blocks]" by (simp add: band_blocks_def)
  then show ?thesis
    using mset_eq_setD [OF slot_families_mset [OF t]] mset_eq_imp_distinct_iff [OF slot_families_mset [OF t]]
    unfolding Let_def IsNativeCheckpointBandBlock_iff by simp
qed

theorem checkpoint_slots_tile_band_witness:
  "distinct (ResolveSpacemanCheckpointBlockIndices 65536 @ ResolveReplayCheckpointBlockIndices 65536)"
proof -
  have "(65536::nat) \<le> u64_max" by (simp add: u64_max_def)
  from checkpoint_slots_tile_band [OF this] show ?thesis
    unfolding Let_def distinct_append set_append by blast
qed

end
