(* ===== verification/SpacemanLedger.thy ===== *)
theory SpacemanLedger
  imports SpacemanExtents FileExtentAllocation CheckpointLayout
begin

text \<open>
  The allocation ledger of \<^verbatim>\<open>MetadataStore\<close> (\<^verbatim>\<open>src/MetadataStore.cpp\<close>): the
  committed allocations and free extents, the working free list, the allocations and
  deallocations staged by the transaction being built, and the operations that allocate, free
  and stage.  They run on top of the extent allocator, whose policy callbacks are the store's own
  tests for reserved metadata blocks and live allocations.

  Performance counters and trace output are left out.  \<open>can_use_apple_writer\<close> is the answer
  of \<^verbatim>\<open>CanUseAppleTransactionWriter()\<close>; \<open>sanitize_cache_enabled\<close> and
  \<open>slot_index_enabled\<close> are the environment switches of the same names.
\<close>

section \<open>State\<close>

text \<open>The geometry and the blocks of the container's own metadata, fixed when it is loaded.\<close>

record StoreGeometry =
  block_size :: nat
  total_blocks :: nat
  can_use_apple_writer :: bool
  active_checkpoint_map_blocks :: "nat list"
  active_checkpoint_ephemeral_block_ranges :: "(nat \<times> nat) list"
  active_superblock_offset :: nat
  alternate_superblock_offset :: nat
  first_superblock_block :: nat
  current_superblock_map_index :: nat
  first_meta_block :: nat
  current_meta_index :: nat
  next_meta_index :: nat
  superblock_object_block_map :: "(nat \<times> nat) list"
  checkpoint_anchor_block :: nat
  container_omap_object_id :: nat
  spaceman_object_id :: nat

text \<open>
  The ledger; \<open>pending_allocation_index\<close> is a \<^verbatim>\<open>std::map\<close> from addresses to positions
  of \<open>pending_allocations\<close>, kept as its list of entries in key order.
\<close>

record SpacemanLedger =
  geometry :: StoreGeometry
  container_loaded :: bool
  object_map_loaded :: bool
  spaceman_loaded :: bool
  native_write_ready :: bool
  immutable_snapshot_view :: bool
  committed_allocations :: "SpacemanAllocation list"
  committed_free :: "SpacemanAllocation list"
  working_free :: "SpacemanAllocation list"
  pending_allocations :: "SpacemanAllocation list"
  pending_allocation_index :: "(nat \<times> nat) list"
  pending_deallocations :: "SpacemanAllocation list"
  next_ephemeral_extent :: nat
  working_next_ephemeral_extent :: nat
  working_free_sanitized :: bool
  tracking_free_delta :: bool
  untracked_free_delta :: bool
  recovery_required :: bool
  recovery_reason :: string
  commit_path_ready :: bool

definition IsNativeWriteReady :: "SpacemanLedger \<Rightarrow> bool" where
  "IsNativeWriteReady s = (native_write_ready s \<and> container_loaded s \<and> object_map_loaded s \<and> spaceman_loaded s)"

definition MarkRecoveryRequired :: "string \<Rightarrow> SpacemanLedger \<Rightarrow> SpacemanLedger" where
  "MarkRecoveryRequired reason s =
     s\<lparr>recovery_required := True,
       recovery_reason := (if reason = [] then ''RecoveryRequired'' else reason),
       commit_path_ready := False\<rparr>"

section \<open>Reserved metadata\<close>

definition AlignExtentBytes :: "StoreGeometry \<Rightarrow> nat \<Rightarrow> nat" where
  "AlignExtentBytes g n =
     (if n = 0 then 0
      else
        let block = max 1 (block_size g); aligned_bytes = max n block; remainder = aligned_bytes mod block in
        if remainder \<noteq> 0 then
          (if aligned_bytes > u64_max - (block - remainder) then 0 else aligned_bytes + (block - remainder))
        else aligned_bytes)"

definition ResolveObjectBlockIndex :: "StoreGeometry \<Rightarrow> nat \<Rightarrow> nat option" where
  "ResolveObjectBlockIndex g object_or_block =
     (if block_size g = 0 \<or> object_or_block = 0 then None
      else
        let block_index = (case map_of (superblock_object_block_map g) object_or_block of
                             None \<Rightarrow> object_or_block | Some mapped \<Rightarrow> mapped)
        in if block_index = 0 then None
           else if total_blocks g \<noteq> 0 \<and> block_index \<ge> total_blocks g then None
           else if block_index > u64_max div block_size g then None
           else Some block_index)"

definition matches_offset_block :: "StoreGeometry \<Rightarrow> nat \<Rightarrow> nat \<Rightarrow> bool" where
  "matches_offset_block g block_index offset =
     (if offset = 0 \<or> offset mod block_size g \<noteq> 0 then False else offset div block_size g = block_index)"

definition matches_indexed_block :: "nat \<Rightarrow> nat \<Rightarrow> nat \<Rightarrow> bool" where
  "matches_indexed_block first index block_index = (first \<le> u64_max - index \<and> block_index = first + index)"

definition IsReservedMetadataBlock :: "StoreGeometry \<Rightarrow> nat \<Rightarrow> bool \<Rightarrow> bool" where
  "IsReservedMetadataBlock g block_index reserve_private_checkpoint_band =
     (block_index = 0 \<or>
      (total_blocks g \<noteq> 0 \<and> block_index \<ge> total_blocks g) \<or>
      (reserve_private_checkpoint_band \<and> IsNativeCheckpointBandBlock (total_blocks g) block_index) \<or>
      block_index \<in> set (active_checkpoint_map_blocks g) \<or>
      list_ex (\<lambda>(first_block, block_count).
          block_count \<noteq> 0 \<and> block_index \<ge> first_block \<and> block_index - first_block < block_count)
        (active_checkpoint_ephemeral_block_ranges g) \<or>
      (block_size g \<noteq> 0 \<and>
        (matches_offset_block g block_index (active_superblock_offset g) \<or>
         matches_offset_block g block_index (alternate_superblock_offset g))) \<or>
      (first_superblock_block g \<noteq> 0 \<and>
        matches_indexed_block (first_superblock_block g) (current_superblock_map_index g) block_index) \<or>
      (first_meta_block g \<noteq> 0 \<and>
        (matches_indexed_block (first_meta_block g) (current_meta_index g) block_index \<or>
         matches_indexed_block (first_meta_block g) (next_meta_index g) block_index)) \<or>
      list_ex (\<lambda>entry. snd entry = block_index) (superblock_object_block_map g) \<or>
      ResolveObjectBlockIndex g
        (if checkpoint_anchor_block g \<noteq> 0 then checkpoint_anchor_block g else container_omap_object_id g)
        = Some block_index \<or>
      ResolveObjectBlockIndex g (spaceman_object_id g) = Some block_index)"

text \<open>The test both loops below make of a block.\<close>

definition reserved_block :: "StoreGeometry \<Rightarrow> nat \<Rightarrow> bool" where
  "reserved_block g block =
     (let reserve_private_checkpoint_band = \<not> can_use_apple_writer g;
          replay_checkpoint_blocks = (if reserve_private_checkpoint_band
            then ResolveReplayCheckpointBlockIndices (total_blocks g) else [])
      in IsReservedMetadataBlock g block reserve_private_checkpoint_band \<or>
         block \<in> set replay_checkpoint_blocks)"

definition ExtentOverlapsReservedMetadata :: "StoreGeometry \<Rightarrow> nat \<Rightarrow> nat \<Rightarrow> bool" where
  "ExtentOverlapsReservedMetadata g pa n =
     (if pa = 0 \<or> n = 0 then True
      else
        let block_bytes = max 1 (block_size g) in
        if pa mod block_bytes \<noteq> 0 \<or> n mod block_bytes \<noteq> 0 then True
        else if pa > u64_max - n then True
        else
          let first_block = pa div block_bytes; block_count = n div block_bytes in
          if block_count = 0 then True
          else if first_block > u64_max - (block_count - 1) then True
          else list_ex (reserved_block g) [first_block..<first_block + block_count])"

section \<open>Live allocations\<close>

definition overlaps_allocation :: "nat \<Rightarrow> nat \<Rightarrow> SpacemanAllocation \<Rightarrow> bool" where
  "overlaps_allocation pa range_end e =
     (if physical_address e = 0 \<or> bytes e = 0 \<or> physical_address e > u64_max - bytes e then False
      else pa < physical_address e + bytes e \<and> physical_address e < range_end)"

text \<open>The test of one entry of the index; \<^term>\<open>None\<close> is \<^verbatim>\<open>end()\<close>.\<close>

definition overlaps_indexed_allocation ::
  "SpacemanAllocation list \<Rightarrow> nat \<Rightarrow> nat \<Rightarrow> (nat \<times> nat) option \<Rightarrow> bool" where
  "overlaps_indexed_allocation pending pa range_end entry =
     (case entry of
        None \<Rightarrow> False
      | Some (key, index) \<Rightarrow>
          if index \<ge> length pending then True
          else
            let allocation = pending ! index in
            if physical_address allocation \<noteq> key \<or> physical_address allocation = 0 \<or>
               bytes allocation = 0 \<or> physical_address allocation > u64_max - bytes allocation then True
            else pa < physical_address allocation + bytes allocation \<and> physical_address allocation < range_end)"

definition PendingSpacemanAllocationsOverlap :: "SpacemanLedger \<Rightarrow> nat \<Rightarrow> nat \<Rightarrow> bool" where
  "PendingSpacemanAllocationsOverlap s pa n =
     (if pa = 0 \<or> n = 0 \<or> pa > u64_max - n then True
      else if length (pending_allocation_index s) \<noteq> length (pending_allocations s) then True
      else if pending_allocations s = [] then False
      else
        let range_end = pa + n;
            before = takeWhile (\<lambda>entry. fst entry < pa) (pending_allocation_index s);
            from_here = dropWhile (\<lambda>entry. fst entry < pa) (pending_allocation_index s);
            test = overlaps_indexed_allocation (pending_allocations s) pa range_end
        in if test (case from_here of [] \<Rightarrow> None | entry # _ \<Rightarrow> Some entry) then True
           else if before \<noteq> [] then test (Some (last before))
           else False)"

definition ExtentOverlapsLiveAllocation :: "SpacemanLedger \<Rightarrow> nat \<Rightarrow> nat \<Rightarrow> bool" where
  "ExtentOverlapsLiveAllocation s pa n =
     (if pa = 0 \<or> n = 0 \<or> pa > u64_max - n then True
      else list_ex (overlaps_allocation pa (pa + n)) (committed_allocations s) \<or>
           PendingSpacemanAllocationsOverlap s pa n)"

definition ExtentOverlapsEffectiveLiveAllocation :: "SpacemanLedger \<Rightarrow> nat \<Rightarrow> nat \<Rightarrow> bool" where
  "ExtentOverlapsEffectiveLiveAllocation s pa n =
     (if pa = 0 \<or> n = 0 \<or> pa > u64_max - n then True
      else
        let overlaps_effective_allocation = (\<lambda>e. overlaps_allocation pa (pa + n) e \<and>
              \<not> list_ex (\<lambda>d. PhysicalRangeContains (physical_address d) (bytes d) (physical_address e) (bytes e))
                  (pending_deallocations s))
        in list_ex overlaps_effective_allocation (committed_allocations s) \<or>
           list_ex overlaps_effective_allocation (pending_allocations s))"

section \<open>Advancing past unavailable ranges\<close>

function advance_reserved :: "StoreGeometry \<Rightarrow> nat \<Rightarrow> nat \<Rightarrow> nat \<Rightarrow> nat option" where
  "advance_reserved g n required_blocks candidate_block =
     (if candidate_block > u64_max - (required_blocks - 1) then None
      else if total_blocks g \<noteq> 0 \<and>
              (required_blocks > total_blocks g \<or> candidate_block > total_blocks g - required_blocks) then None
      else if candidate_block > u64_max div block_size g then None
      else
        let candidate_address = candidate_block * block_size g in
        if \<not> ExtentOverlapsReservedMetadata g candidate_address n then Some candidate_address
        else case find (reserved_block g) [candidate_block..<candidate_block + required_blocks] of
               None \<Rightarrow> None
             | Some block \<Rightarrow>
                 if block = u64_max then None
                 else if block + 1 \<le> candidate_block then None
                 else advance_reserved g n required_blocks (block + 1))"
  by pat_completeness auto
termination
  by (relation "measure (\<lambda>(g, n, required_blocks, candidate_block). Suc u64_max - candidate_block)")
    (auto simp: find_Some_iff)

declare advance_reserved.simps [simp del]

definition AdvancePastReservedMetadata :: "StoreGeometry \<Rightarrow> nat \<Rightarrow> nat \<Rightarrow> nat option" where
  "AdvancePastReservedMetadata g pa n =
     (if pa = 0 \<or> n = 0 \<or> block_size g = 0 then None
      else if pa mod block_size g \<noteq> 0 \<or> n mod block_size g \<noteq> 0 then None
      else if pa > u64_max - n then None
      else
        let required_blocks = n div block_size g in
        if required_blocks = 0 then None
        else advance_reserved g n required_blocks (pa div block_size g))"

text \<open>The least end of an allocation the candidate range overlaps.\<close>

fun consider_allocations :: "nat \<Rightarrow> nat \<Rightarrow> nat option \<Rightarrow> SpacemanAllocation list \<Rightarrow> nat option" where
  "consider_allocations candidate range_end next_candidate [] = next_candidate"
| "consider_allocations candidate range_end next_candidate (e # es) =
     (if physical_address e = 0 \<or> bytes e = 0 \<or> physical_address e > u64_max - bytes e
      then consider_allocations candidate range_end next_candidate es
      else
        let allocation_end = physical_address e + bytes e in
        consider_allocations candidate range_end
          (if candidate < allocation_end \<and> physical_address e < range_end \<and>
              (case next_candidate of None \<Rightarrow> True | Some x \<Rightarrow> allocation_end < x)
           then Some allocation_end else next_candidate) es)"

function advance_unavailable :: "SpacemanLedger \<Rightarrow> nat \<Rightarrow> nat \<Rightarrow> nat option" where
  "advance_unavailable s n candidate =
     (let g = geometry s in
      if candidate > u64_max - n then None
      else if total_blocks g \<noteq> 0 \<and>
              (total_blocks g > u64_max div block_size g \<or> candidate + n > total_blocks g * block_size g) then None
      else if ExtentOverlapsReservedMetadata g candidate n then
        (case AdvancePastReservedMetadata g candidate n of
           None \<Rightarrow> None
         | Some advanced \<Rightarrow> if advanced \<le> candidate then None else advance_unavailable s n advanced)
      else
        case consider_allocations candidate (candidate + n) None
               (committed_allocations s @ pending_allocations s) of
          None \<Rightarrow> Some candidate
        | Some next_candidate \<Rightarrow>
            if next_candidate \<le> candidate then None else advance_unavailable s n next_candidate)"
  by pat_completeness auto
termination
  by (relation "measure (\<lambda>(s, n, candidate). Suc u64_max - candidate)") (auto simp: Let_def)

declare advance_unavailable.simps [simp del]

definition AdvancePastUnavailableExtent :: "SpacemanLedger \<Rightarrow> nat \<Rightarrow> nat \<Rightarrow> nat option" where
  "AdvancePastUnavailableExtent s pa n =
     (let g = geometry s in
      if pa = 0 \<or> n = 0 \<or> block_size g = 0 then None
      else if pa mod block_size g \<noteq> 0 \<or> n mod block_size g \<noteq> 0 then None
      else advance_unavailable s n pa)"

section \<open>Allocating and freeing\<close>

definition SanitizeWorkingFreeExtents :: "bool \<Rightarrow> SpacemanLedger \<Rightarrow> bool \<times> SpacemanLedger" where
  "SanitizeWorkingFreeExtents sanitize_cache_enabled s =
     (if sanitize_cache_enabled \<and> working_free_sanitized s then (True, s)
      else if working_free s = [] then (True, s\<lparr>working_free_sanitized := True\<rparr>)
      else
        let (ok, live_allocations) = NormalizeSpacemanExtents (committed_allocations s @ pending_allocations s) in
        if \<not> ok then (False, s)
        else
          let (ok, live_allocations) = SubtractExtentsFromAllocations live_allocations (pending_deallocations s) in
          if \<not> ok then (False, s)
          else
            let (ok, free_extents) = SubtractAllocationsFromFreeExtents (working_free s) live_allocations in
            if \<not> ok then (False, s)
            else (True, s\<lparr>working_free := free_extents, working_free_sanitized := True\<rparr>))"

text \<open>The container size handed to the allocator; the outer \<^term>\<open>None\<close> is the early return.\<close>

definition container_limit :: "StoreGeometry \<Rightarrow> nat option option" where
  "container_limit g =
     (if total_blocks g \<noteq> 0 then
        (if block_size g = 0 \<or> total_blocks g > u64_max div block_size g then None
         else Some (Some (total_blocks g * block_size g)))
      else Some None)"

definition store_policy :: "SpacemanLedger \<Rightarrow> nat option \<Rightarrow> AllocationPolicy" where
  "store_policy s limit =
     \<lparr>container_bytes = limit,
      overlaps_unavailable = Some (\<lambda>pa n. ExtentOverlapsReservedMetadata (geometry s) pa n \<or>
                                          ExtentOverlapsLiveAllocation s pa n),
      advance_past_unavailable = Some (AdvancePastUnavailableExtent s)\<rparr>"

definition AllocateExtentFromSanitizedWorkingFreeExtents ::
  "SpacemanLedger \<Rightarrow> nat \<Rightarrow> ContiguousAllocationUndo \<Rightarrow>
   nat option \<times> ContiguousAllocationUndo \<times> SpacemanLedger" where
  "AllocateExtentFromSanitizedWorkingFreeExtents s n undo =
     (if \<not> container_loaded s \<or> \<not> spaceman_loaded s then (None, undo, s)
      else case container_limit (geometry s) of
        None \<Rightarrow> (None, undo, s)
      | Some limit \<Rightarrow>
          let aligned_bytes = AlignExtentBytes (geometry s) n in
          if aligned_bytes = 0 then (None, undo, s)
          else
            let (r, free_extents, next_ephemeral, undo') =
                  AllocateContiguous (working_free s) (working_next_ephemeral_extent s) aligned_bytes
                    (store_policy s limit) undo
            in (r, undo', s\<lparr>working_free := free_extents, working_next_ephemeral_extent := next_ephemeral\<rparr>))"

definition AllocateExtent :: "bool \<Rightarrow> SpacemanLedger \<Rightarrow> nat \<Rightarrow> nat option \<times> SpacemanLedger" where
  "AllocateExtent sanitize_cache_enabled s n =
     (if immutable_snapshot_view s then (None, s)
      else
        let (ok, s') = SanitizeWorkingFreeExtents sanitize_cache_enabled s in
        if \<not> ok then (None, s')
        else let (r, _, s'') = AllocateExtentFromSanitizedWorkingFreeExtents s' n no_undo in (r, s''))"

definition StoreAllocateFileExtents ::
  "bool \<Rightarrow> SpacemanLedger \<Rightarrow> nat \<Rightarrow> FileExtent list option \<times> SpacemanLedger" where
  "StoreAllocateFileExtents sanitize_cache_enabled s logical_size =
     (if \<not> container_loaded s \<or> \<not> spaceman_loaded s then (None, s)
      else if logical_size = 0 then (Some [], s)
      else
        let aligned_total = AlignExtentBytes (geometry s) logical_size in
        if aligned_total = 0 then (None, s)
        else
          let (ok, s') = SanitizeWorkingFreeExtents sanitize_cache_enabled s in
          if \<not> ok then (None, s')
          else case container_limit (geometry s') of
            None \<Rightarrow> (None, s')
          | Some limit \<Rightarrow>
              let (r, free_extents, next_ephemeral) =
                    AllocateFileExtents (working_free s') (working_next_ephemeral_extent s') logical_size
                      aligned_total (max 1 (block_size (geometry s'))) (store_policy s' limit);
                  s'' = s'\<lparr>working_free := free_extents, working_next_ephemeral_extent := next_ephemeral\<rparr>
              in case r of
                   None \<Rightarrow> (None, s'')
                 | Some xs \<Rightarrow> if \<not> HasLogicalExtentCoverage xs logical_size then (None, s'') else (Some xs, s''))"

definition StreamingGrowthReservationBytes :: "StoreGeometry \<Rightarrow> nat \<Rightarrow> nat \<Rightarrow> nat" where
  "StreamingGrowthReservationBytes g current_aligned_bytes required_aligned_bytes =
     (if required_aligned_bytes = 0 then 0
      else
        let block = max 1 (block_size g);
            reservation = max required_aligned_bytes block;
            reservation = (if current_aligned_bytes \<ge> block \<and> current_aligned_bytes \<le> u64_max div 2
                           then max reservation (current_aligned_bytes * 2) else reservation);
            reservation = max reservation (AlignExtentBytes g (64 * 1024));
            reservation = min reservation (AlignExtentBytes g (8 * 1024 * 1024));
            reservation = (if reservation < required_aligned_bytes then required_aligned_bytes else reservation)
        in AlignExtentBytes g reservation)"

definition FreeExtent ::
  "bool \<Rightarrow> SpacemanLedger \<Rightarrow> nat \<Rightarrow> nat \<Rightarrow> AddFreeExtentUndo \<Rightarrow> bool \<times> AddFreeExtentUndo \<times> SpacemanLedger" where
  "FreeExtent sanitize_cache_enabled s pa n undo =
     (if immutable_snapshot_view s then (False, undo, s)
      else if \<not> container_loaded s \<or> \<not> spaceman_loaded s \<or> pa = 0 \<or> n = 0 then (False, undo, s)
      else
        let aligned_bytes = AlignExtentBytes (geometry s) n in
        if aligned_bytes = 0 then (False, undo, s)
        else if pa > u64_max - aligned_bytes then (False, undo, s)
        else if (case container_limit (geometry s) of
                   None \<Rightarrow> True
                 | Some None \<Rightarrow> False
                 | Some (Some limit) \<Rightarrow> pa + aligned_bytes > limit) then (False, undo, s)
        else if ExtentOverlapsReservedMetadata (geometry s) pa aligned_bytes then (False, undo, s)
        else
          let (ok, free_extents, undo') = AddFreeExtent (working_free s) (mk_extent pa aligned_bytes) undo;
              s' = s\<lparr>working_free := free_extents\<rparr>
          in if \<not> ok then (False, undo', s')
             else
               let s' = (if \<not> tracking_free_delta s' then s'\<lparr>untracked_free_delta := True\<rparr> else s') in
               if \<not> ExtentOverlapsEffectiveLiveAllocation s' pa aligned_bytes then (True, undo', s')
               else let (ok, s'') = SanitizeWorkingFreeExtents sanitize_cache_enabled (s'\<lparr>working_free_sanitized := False\<rparr>)
                    in (ok, undo', s''))"

section \<open>Staging\<close>

text \<open>\<^verbatim>\<open>std::map::emplace\<close>: inserts unless the key is present.\<close>

fun map_emplace :: "nat \<Rightarrow> nat \<Rightarrow> (nat \<times> nat) list \<Rightarrow> bool \<times> (nat \<times> nat) list" where
  "map_emplace k v [] = (True, [(k, v)])"
| "map_emplace k v ((k', v') # es) =
     (if k < k' then (True, (k, v) # (k', v') # es)
      else if k = k' then (False, (k', v') # es)
      else (let (inserted, es') = map_emplace k v es in (inserted, (k', v') # es')))"

definition rebuild_index :: "SpacemanAllocation list \<Rightarrow> (nat \<times> nat) list" where
  "rebuild_index allocations =
     fold (\<lambda>i index. snd (map_emplace (physical_address (allocations ! i)) i index)) [0..<length allocations] []"

definition RebuildPendingSpacemanAllocationIndex :: "SpacemanLedger \<Rightarrow> SpacemanLedger" where
  "RebuildPendingSpacemanAllocationIndex s =
     s\<lparr>pending_allocation_index := rebuild_index (pending_allocations s)\<rparr>"

definition FindPendingSpacemanAllocationIndex :: "SpacemanLedger \<Rightarrow> nat \<Rightarrow> nat option" where
  "FindPendingSpacemanAllocationIndex s pa =
     (if length (pending_allocation_index s) \<noteq> length (pending_allocations s) then None
      else case map_of (pending_allocation_index s) pa of
        None \<Rightarrow> None
      | Some index \<Rightarrow>
          if index \<ge> length (pending_allocations s) then None
          else if physical_address (pending_allocations s ! index) \<noteq> pa then None
          else Some index)"

text \<open>The guards both staging operations share; \<^term>\<open>None\<close> where they return false.\<close>

definition stageable_bytes :: "SpacemanLedger \<Rightarrow> nat \<Rightarrow> nat \<Rightarrow> nat option" where
  "stageable_bytes s pa n =
     (if \<not> IsNativeWriteReady s \<or> pa = 0 \<or> n = 0 then None
      else
        let aligned_bytes = AlignExtentBytes (geometry s) n in
        if aligned_bytes = 0 then None
        else if pa > u64_max - aligned_bytes then None
        else if (case container_limit (geometry s) of
                   None \<Rightarrow> True
                 | Some None \<Rightarrow> False
                 | Some (Some limit) \<Rightarrow> pa + aligned_bytes > limit) then None
        else if ExtentOverlapsReservedMetadata (geometry s) pa aligned_bytes then None
        else Some aligned_bytes)"

definition StageSpacemanAllocation :: "SpacemanLedger \<Rightarrow> nat \<Rightarrow> nat \<Rightarrow> bool \<times> SpacemanLedger" where
  "StageSpacemanAllocation s pa n =
     (case stageable_bytes s pa n of
        None \<Rightarrow> (False, s)
      | Some aligned_bytes \<Rightarrow>
          if ExtentOverlapsLiveAllocation s pa aligned_bytes then (False, s)
          else
            let (inserted, index) =
                  map_emplace pa (length (pending_allocations s)) (pending_allocation_index s)
            in if \<not> inserted then (False, RebuildPendingSpacemanAllocationIndex s)
               else (True, s\<lparr>pending_allocations := pending_allocations s @ [mk_extent pa aligned_bytes],
                             pending_allocation_index := index\<rparr>))"

definition StageSpacemanDeallocation :: "SpacemanLedger \<Rightarrow> nat \<Rightarrow> nat \<Rightarrow> bool \<times> SpacemanLedger" where
  "StageSpacemanDeallocation s pa n =
     (case stageable_bytes s pa n of
        None \<Rightarrow> (False, s)
      | Some aligned_bytes \<Rightarrow>
          (True, s\<lparr>pending_deallocations := pending_deallocations s @ [mk_extent pa aligned_bytes]\<rparr>))"

definition ErasePendingSpacemanAllocationAt :: "SpacemanLedger \<Rightarrow> nat \<Rightarrow> SpacemanLedger" where
  "ErasePendingSpacemanAllocationAt s index =
     (if index \<ge> length (pending_allocations s) then s
      else
        let erased_physical_address = physical_address (pending_allocations s ! index);
            erased_index = filter (\<lambda>entry. fst entry \<noteq> erased_physical_address) (pending_allocation_index s)
        in if index + 1 = length (pending_allocations s)
           then s\<lparr>pending_allocations := butlast (pending_allocations s), pending_allocation_index := erased_index\<rparr>
           else s\<lparr>pending_allocations := take index (pending_allocations s) @ drop (index + 1) (pending_allocations s),
                  pending_allocation_index :=
                    map (\<lambda>(key, tracked). (key, if tracked > index then tracked - 1 else tracked)) erased_index\<rparr>)"

definition ResizePendingSpacemanAllocationAt :: "SpacemanLedger \<Rightarrow> nat \<Rightarrow> nat \<Rightarrow> SpacemanLedger" where
  "ResizePendingSpacemanAllocationAt s index n =
     (if index \<ge> length (pending_allocations s) then s
      else s\<lparr>pending_allocations := (pending_allocations s)[index := (pending_allocations s ! index)\<lparr>bytes := n\<rparr>]\<rparr>)"

text \<open>
  Growing the allocation behind a file of one extent in place
  (\<^verbatim>\<open>try_extend_single_pending_file_extent\<close>, its part on the ledger): the range right after
  it is taken from the tail or from the free extent that holds it.  The result is the new
  reservation, which the caller writes to the file's extent.
\<close>

fun consume_free_extent :: "nat \<Rightarrow> nat \<Rightarrow> SpacemanAllocation list \<Rightarrow> SpacemanAllocation list option" where
  "consume_free_extent pa request_end [] = None"
| "consume_free_extent pa request_end (e # es) =
     (if physical_address e > pa \<or> physical_address e > u64_max - bytes e \<or>
         physical_address e + bytes e < request_end
      then map_option ((#) e) (consume_free_extent pa request_end es)
      else
        let free_end = physical_address e + bytes e in
        if physical_address e = pa \<and> free_end = request_end then Some es
        else if physical_address e = pa then Some (mk_extent request_end (free_end - request_end) # es)
        else if free_end = request_end then Some (e\<lparr>bytes := pa - physical_address e\<rparr> # es)
        else Some (e\<lparr>bytes := pa - physical_address e\<rparr> # mk_extent request_end (free_end - request_end) # es))"

definition try_consume_free_extent_for_pending_extension ::
  "SpacemanAllocation list \<Rightarrow> nat \<Rightarrow> nat \<Rightarrow> SpacemanAllocation list option" where
  "try_consume_free_extent_for_pending_extension fs pa n =
     (if pa = 0 \<or> n = 0 then None
      else if pa > u64_max - n then None
      else consume_free_extent pa (pa + n) fs)"

definition extend_pending_allocation ::
  "bool \<Rightarrow> SpacemanLedger \<Rightarrow> nat \<Rightarrow> nat \<Rightarrow> nat \<Rightarrow> nat option \<times> SpacemanLedger" where
  "extend_pending_allocation sanitize_cache_enabled s pa current_aligned required_aligned =
     (let next_reserved = StreamingGrowthReservationBytes (geometry s) current_aligned required_aligned in
      if next_reserved < required_aligned \<or> pa > u64_max - next_reserved then (None, s)
      else if (case container_limit (geometry s) of
                 None \<Rightarrow> True
               | Some None \<Rightarrow> False
               | Some (Some limit) \<Rightarrow> pa + next_reserved > limit) then (None, s)
      else
        let old_end = pa + current_aligned; additional_bytes = next_reserved - current_aligned in
        if additional_bytes = 0 \<or> old_end > u64_max - additional_bytes \<or>
           ExtentOverlapsReservedMetadata (geometry s) old_end additional_bytes \<or>
           ExtentOverlapsLiveAllocation s old_end additional_bytes then (None, s)
        else case FindPendingSpacemanAllocationIndex s pa of
          None \<Rightarrow> (None, s)
        | Some index \<Rightarrow>
            if bytes (pending_allocations s ! index) \<noteq> current_aligned then (None, s)
            else
              let (ok, s') = SanitizeWorkingFreeExtents sanitize_cache_enabled s in
              if \<not> ok then (None, s')
              else if working_next_ephemeral_extent s' = old_end then
                (Some next_reserved,
                 ResizePendingSpacemanAllocationAt
                   (s'\<lparr>working_next_ephemeral_extent := working_next_ephemeral_extent s' + additional_bytes\<rparr>)
                   index next_reserved)
              else case try_consume_free_extent_for_pending_extension (working_free s') old_end additional_bytes of
                None \<Rightarrow> (None, s')
              | Some free_extents \<Rightarrow>
                  (Some next_reserved,
                   ResizePendingSpacemanAllocationAt (s'\<lparr>working_free := free_extents\<rparr>) index next_reserved))"

definition ReleasePendingSpacemanAllocation :: "bool \<Rightarrow> SpacemanLedger \<Rightarrow> nat \<Rightarrow> nat \<Rightarrow> bool \<times> SpacemanLedger" where
  "ReleasePendingSpacemanAllocation sanitize_cache_enabled s pa n =
     (if \<not> IsNativeWriteReady s \<or> pa = 0 \<or> n = 0 then (False, s)
      else
        let aligned_bytes = AlignExtentBytes (geometry s) n in
        if aligned_bytes = 0 then (False, s)
        else case FindPendingSpacemanAllocationIndex s pa of
          None \<Rightarrow> (False, s)
        | Some index \<Rightarrow>
            if bytes (pending_allocations s ! index) \<noteq> aligned_bytes then (False, s)
            else
              let s' = (ErasePendingSpacemanAllocationAt s index)\<lparr>tracking_free_delta := True\<rparr>;
                  undo = \<lparr>valid = False, erase_begin = 0, erased_count = 0, erased_extents = [],
                          inserted_without_erasing = False\<rparr>;
                  (ok, _, s'') = FreeExtent sanitize_cache_enabled s' pa aligned_bytes undo
              in (ok, s''\<lparr>tracking_free_delta := False\<rparr>))"

section \<open>Checkpoint slots\<close>

definition overlaps_linear :: "nat \<Rightarrow> SpacemanAllocation list \<Rightarrow> bool" where
  "overlaps_linear pa extents =
     list_ex (\<lambda>e. \<not> (bytes e = 0 \<or> physical_address e > u64_max - bytes e) \<and>
                  pa \<ge> physical_address e \<and> pa < physical_address e + bytes e) extents"

definition scan_allocations :: "SpacemanLedger \<Rightarrow> nat list \<Rightarrow> bool" where
  "scan_allocations s block_indices =
     list_all (\<lambda>block_index.
        IsNativeCheckpointBandBlock (total_blocks (geometry s)) block_index \<and>
        \<not> block_index > u64_max div block_size (geometry s) \<and>
        \<not> overlaps_linear (block_index * block_size (geometry s)) (committed_allocations s) \<and>
        \<not> overlaps_linear (block_index * block_size (geometry s)) (pending_allocations s)) block_indices"

text \<open>The validation of the index before it is used; \<open>previous\<close> is the end of the last entry.\<close>

fun index_sorted_loop :: "SpacemanAllocation list \<Rightarrow> nat option \<Rightarrow> (nat \<times> nat) list \<Rightarrow> bool" where
  "index_sorted_loop pending previous [] = True"
| "index_sorted_loop pending previous ((key, index) # es) =
     (if index \<ge> length pending then False
      else
        let allocation = pending ! index in
        if physical_address allocation \<noteq> key \<or> physical_address allocation = 0 \<or>
           bytes allocation = 0 \<or> physical_address allocation > u64_max - bytes allocation then False
        else if (case previous of None \<Rightarrow> False | Some previous_end \<Rightarrow> physical_address allocation < previous_end)
        then False
        else index_sorted_loop pending (Some (physical_address allocation + bytes allocation)) es)"

definition sorted_extents_contain :: "SpacemanAllocation list \<Rightarrow> nat \<Rightarrow> bool" where
  "sorted_extents_contain extents pa =
     (let before = takeWhile (\<lambda>e. \<not> pa < physical_address e) extents in
      if before = [] then False else pa < physical_address (last before) + bytes (last before))"

definition pending_index_contains :: "SpacemanLedger \<Rightarrow> nat \<Rightarrow> bool" where
  "pending_index_contains s pa =
     (let before = takeWhile (\<lambda>entry. \<not> pa < fst entry) (pending_allocation_index s) in
      if before = [] then False
      else let allocation = pending_allocations s ! snd (last before) in
           pa < physical_address allocation + bytes allocation)"

definition AreNativeCheckpointBlocksWritable :: "bool \<Rightarrow> SpacemanLedger \<Rightarrow> nat list \<Rightarrow> bool" where
  "AreNativeCheckpointBlocksWritable slot_index_enabled s block_indices =
     (if block_indices = [] \<or> block_size (geometry s) = 0 then False
      else if \<not> slot_index_enabled \<or>
              \<not> SpacemanExtentsAreSortedNonOverlapping (committed_allocations s) \<or>
              length (pending_allocation_index s) \<noteq> length (pending_allocations s)
      then scan_allocations s block_indices
      else if \<not> index_sorted_loop (pending_allocations s) None (pending_allocation_index s)
      then scan_allocations s block_indices
      else
        list_all (\<lambda>block_index.
          IsNativeCheckpointBandBlock (total_blocks (geometry s)) block_index \<and>
          \<not> block_index > u64_max div block_size (geometry s) \<and>
          \<not> sorted_extents_contain (committed_allocations s) (block_index * block_size (geometry s)) \<and>
          \<not> pending_index_contains s (block_index * block_size (geometry s))) block_indices)"

section \<open>Adopting recovered read extents\<close>

text \<open>
  The tail of \<^verbatim>\<open>LoadSpacemanState\<close>: on a raw device opened for writing, the extents of
  the files found by the reader are added to the committed allocations.  \<open>read_extents\<close> lists
  the extents in the order the map is walked; \<open>raw_write\<close> is the test of the device.
\<close>

fun add_read_extents :: "nat \<Rightarrow> FileExtent list list \<Rightarrow> SpacemanAllocation list \<Rightarrow> SpacemanAllocation list option" where
  "add_read_extents block_bytes [] merged = Some merged"
| "add_read_extents block_bytes (xs # xss) merged =
     (case AddConservativeAllocationFromReadExtents xs merged block_bytes of
        None \<Rightarrow> None
      | Some merged' \<Rightarrow> add_read_extents block_bytes xss merged')"

definition ephemeral_after :: "nat \<Rightarrow> SpacemanAllocation list \<Rightarrow> nat" where
  "ephemeral_after next_ephemeral allocations =
     foldl (\<lambda>nxt e. if physical_address e \<le> u64_max - bytes e
                    then max nxt (physical_address e + bytes e) else nxt) next_ephemeral allocations"

definition adopt_read_extents :: "bool \<Rightarrow> FileExtent list list \<Rightarrow> SpacemanLedger \<Rightarrow> bool \<times> SpacemanLedger" where
  "adopt_read_extents raw_write read_extents s =
     (if \<not> (raw_write \<and> read_extents \<noteq> []) then (True, s)
      else case add_read_extents (block_size (geometry s)) read_extents (committed_allocations s) of
        None \<Rightarrow> (False, MarkRecoveryRequired ''RecoveredReadExtentAllocationInvalid'' s)
      | Some merged_allocations \<Rightarrow>
          if length merged_allocations = length (committed_allocations s) then (True, s)
          else
            let s = s\<lparr>committed_allocations := merged_allocations\<rparr>;
                (ok, free_extents) = SubtractAllocationsFromFreeExtents (committed_free s) merged_allocations
            in if \<not> ok then (False, MarkRecoveryRequired ''RecoveredReadExtentFreeLedgerInvalid'' s)
               else
                 let nxt = ephemeral_after (next_ephemeral_extent s) merged_allocations;
                     (ok', working) = SubtractAllocationsFromFreeExtents free_extents merged_allocations;
                     s = s\<lparr>committed_free := free_extents, next_ephemeral_extent := nxt,
                           working_free := working\<rparr>
                 in if \<not> ok' then (False, MarkRecoveryRequired ''RecoveredReadExtentWorkingLedgerInvalid'' s)
                    else (True, s\<lparr>working_next_ephemeral_extent := nxt\<rparr>))"

definition finish_load :: "bool \<Rightarrow> bool \<Rightarrow> FileExtent list list \<Rightarrow> SpacemanLedger \<Rightarrow> bool \<times> SpacemanLedger" where
  "finish_load sanitize_cache_enabled raw_write read_extents s =
     (let (ok, s) = adopt_read_extents raw_write read_extents s in
      if \<not> ok then (False, s)
      else
        let (ok, s) = SanitizeWorkingFreeExtents sanitize_cache_enabled s in
        if \<not> ok then (False, MarkRecoveryRequired ''WorkingFreeExtentSanitizeFailed'' s)
        else let s = s\<lparr>committed_free := working_free s\<rparr> in (spaceman_loaded s, s))"

end
