(* ===== verification/LedgerAllocation.thy ===== *)
theory LedgerAllocation
  imports SpacemanLedger
begin

text \<open>
  Safety of the ledger's allocations.  The overlap tests of the store are shown to be exact on
  the address sets they stand for, its policy is shown to keep the allocator's contract (the
  interpretation \<open>store\<close> of \<open>clean_policy\<close>), and with both every allocation is a clean
  range: in the container, off the live allocations and off the reserved metadata.
\<close>

section \<open>Reserved blocks\<close>

definition block_unit :: "StoreGeometry \<Rightarrow> nat" where
  "block_unit g = max 1 (block_size g)"

lemma block_unit_pos [simp]: "0 < block_unit g" "block_unit g \<noteq> 0"
  by (simp_all add: block_unit_def)

lemma ExtentOverlapsReservedMetadata_iff:
  "\<not> ExtentOverlapsReservedMetadata g a n \<longleftrightarrow>
     0 < a \<and> 0 < n \<and> block_unit g dvd a \<and> block_unit g dvd n \<and> a + n \<le> u64_max \<and>
     (\<forall>b. a \<le> b * block_unit g \<and> b * block_unit g < a + n \<longrightarrow> \<not> reserved_block g b)"
proof -
  let ?u = "block_unit g"
  have u: "0 < ?u" by simp
  have blocks: "(\<forall>b. a \<le> b * ?u \<and> b * ?u < a + n \<longrightarrow> P b) \<longleftrightarrow> (\<forall>b \<in> {a div ?u..<a div ?u + n div ?u}. P b)"
    if d: "?u dvd a" "?u dvd n" for P
  proof -
    obtain k m where km: "a = ?u * k" "n = ?u * m" using d by (auto elim!: dvdE)
    have "a div ?u = k" "n div ?u = m" using u km by simp_all
    moreover have "a \<le> b * ?u \<and> b * ?u < a + n \<longleftrightarrow> k \<le> b \<and> b < k + m" for b
    proof -
      have "a + n = (k + m) * ?u" "a = k * ?u" using km by (simp_all add: algebra_simps)
      then show ?thesis using u by (simp only: mult_le_cancel2 mult_less_cancel2) simp
    qed
    ultimately show ?thesis by auto
  qed
  show ?thesis
  proof (cases "0 < a \<and> 0 < n \<and> ?u dvd a \<and> ?u dvd n \<and> a + n \<le> u64_max")
    case False
    then show ?thesis
      unfolding ExtentOverlapsReservedMetadata_def Let_def block_unit_def [symmetric] dvd_eq_mod_eq_0 by auto
  next
    case True
    then have d: "?u dvd a" "?u dvd n" by simp_all
    have c: "n div ?u \<noteq> 0" using True by (auto elim!: dvdE)
    have f: "\<not> a div ?u > u64_max - (n div ?u - 1)"
      using True div_le_dividend [of a ?u] div_le_dividend [of n ?u] by linarith
    have "\<not> ExtentOverlapsReservedMetadata g a n \<longleftrightarrow>
        (\<forall>b \<in> {a div ?u..<a div ?u + n div ?u}. \<not> reserved_block g b)"
      using True c f not_less [of a "u64_max - n"]
      unfolding ExtentOverlapsReservedMetadata_def Let_def block_unit_def [symmetric] dvd_eq_mod_eq_0 list_ex_iff by auto
    then show ?thesis using True blocks [OF d, of "\<lambda>b. \<not> reserved_block g b"] by simp
  qed
qed

lemma ExtentOverlapsReservedMetadata_sub:
  assumes "\<not> ExtentOverlapsReservedMetadata g a n" and "block_unit g dvd b" and "block_unit g dvd m"
    and "0 < m" and "a \<le> b" and "b + m \<le> a + n"
  shows "\<not> ExtentOverlapsReservedMetadata g b m"
  using assms unfolding ExtentOverlapsReservedMetadata_iff by (meson le_trans less_le_trans)

text \<open>A small container for the concrete instances below.\<close>

definition sample_geometry :: StoreGeometry where
  "sample_geometry = \<lparr>block_size = 4096, total_blocks = 65536, can_use_apple_writer = True,
     active_checkpoint_map_blocks = [1], active_checkpoint_ephemeral_block_ranges = [],
     active_superblock_offset = 0, alternate_superblock_offset = 4096, first_superblock_block = 0,
     current_superblock_map_index = 0, first_meta_block = 0, current_meta_index = 0, next_meta_index = 0,
     superblock_object_block_map = [], checkpoint_anchor_block = 0, container_omap_object_id = 0,
     spaceman_object_id = 2\<rparr>"

definition sample_ledger :: SpacemanLedger where
  "sample_ledger = \<lparr>geometry = sample_geometry, container_loaded = True, object_map_loaded = True,
     spaceman_loaded = True, native_write_ready = True, immutable_snapshot_view = False,
     committed_allocations = [mk_extent 40960 8192], committed_free = [mk_extent 49152 8192],
     working_free = [mk_extent 49152 8192], pending_allocations = [], pending_allocation_index = [],
     pending_deallocations = [], next_ephemeral_extent = 409600, working_next_ephemeral_extent = 409600,
     working_free_sanitized = False, tracking_free_delta = False, untracked_free_delta = False,
     recovery_required = False, recovery_reason = [], commit_path_ready = True\<rparr>"

section \<open>Live allocations\<close>

lemma overlaps_allocation_iff:
  assumes "0 < n"
  shows "overlaps_allocation a (a + n) e \<longleftrightarrow> valid_extent e \<and> ivl a n \<inter> range_of e \<noteq> {}"
proof (cases "valid_extent e")
  case False
  then show ?thesis by (auto simp: overlaps_allocation_def valid_extent_iff)
next
  case True
  then have "0 < bytes e" "\<not> (physical_address e = 0 \<or> bytes e = 0 \<or> physical_address e > u64_max - bytes e)"
    by (auto simp: valid_extent_iff)
  moreover have "ivl a n \<inter> range_of e \<noteq> {} \<longleftrightarrow> a < physical_address e + bytes e \<and> physical_address e < a + n"
    using ivl_disjoint_iff [OF assms, of "bytes e" a "physical_address e"] calculation(1)
    by (auto simp: range_of_def)
  ultimately show ?thesis using True by (simp add: overlaps_allocation_def)
qed

text \<open>The allocations in the order of the index.\<close>

definition indexed :: "SpacemanAllocation list \<Rightarrow> (nat \<times> nat) list \<Rightarrow> SpacemanAllocation list" where
  "indexed pending index = map (\<lambda>entry. pending ! snd entry) index"

definition index_ok :: "SpacemanAllocation list \<Rightarrow> (nat \<times> nat) list \<Rightarrow> bool" where
  "index_ok pending index \<longleftrightarrow> length index = length pending \<and> index_sorted_loop pending None index"

lemma index_sorted_loop_iff:
  "index_sorted_loop pending p index \<longleftrightarrow>
     (\<forall>entry \<in> set index. snd entry < length pending \<and> physical_address (pending ! snd entry) = fst entry) \<and>
     sorted_extents_loop False p (indexed pending index)"
proof (induction index arbitrary: p)
  case Nil
  then show ?case by (simp add: indexed_def)
next
  case (Cons entry index)
  obtain k i where "entry = (k, i)" by fastforce
  then show ?case using Cons [of "Some (physical_address (pending ! i) + bytes (pending ! i))"]
    by (auto simp: indexed_def Let_def split: option.split)
qed

lemma index_okD:
  assumes "index_ok pending index"
  shows "SpacemanExtentsAreSortedNonOverlapping (indexed pending index)"
    and "\<forall>entry \<in> set index. snd entry < length pending \<and> physical_address (pending ! snd entry) = fst entry"
    and "map physical_address (indexed pending index) = map fst index"
  using assms by (auto simp: index_ok_def index_sorted_loop_iff SpacemanExtentsAreSortedNonOverlapping_def indexed_def)

lemma sorted_nonoverlappingD:
  assumes "SpacemanExtentsAreSortedNonOverlapping es"
  shows "\<forall>e \<in> set es. valid_extent e" and "sorted_wrt behind es"
    and "distinct (map physical_address es)" and "sorted (map physical_address es)"
proof -
  show v: "\<forall>e \<in> set es. valid_extent e" and b: "sorted_wrt behind es"
    using assms by (simp_all add: SpacemanExtentsAreSortedNonOverlapping_def sorted_extents_loop_iff)
  have "physical_address x < physical_address y" if "x \<in> set es" "behind x y" for x y
    using that v by (auto simp: behind_def valid_extent_iff)
  then have "sorted_wrt (<) (map physical_address es)"
    unfolding sorted_wrt_map by (intro sorted_wrt_mono_rel [OF _ b]) blast
  then show "distinct (map physical_address es)" "sorted (map physical_address es)"
    using strict_sorted_iff by blast+
qed

lemma indexed_positions:
  assumes "index_ok pending index"
  shows "snd ` set index = {..<length pending}"
proof -
  note d = index_okD [OF assms]
  have "distinct (map fst index)" using sorted_nonoverlappingD(3) [OF d(1)] d(3) by simp
  then have "distinct (map snd index)"
    using d(2) unfolding distinct_map inj_on_def by (metis prod.collapse)
  then have "card (snd ` set index) = length pending"
    using assms by (simp add: index_ok_def distinct_card flip: set_map)
  moreover have "snd ` set index \<subseteq> {..<length pending}" using d(2) by auto
  ultimately show ?thesis by (intro card_subset_eq) auto
qed

lemma indexed_set:
  assumes "index_ok pending index"
  shows "set (indexed pending index) = set pending"
proof -
  have "set (indexed pending index) = (!) pending ` snd ` set index" by (auto simp: indexed_def)
  also have "\<dots> = set pending" unfolding indexed_positions [OF assms] by (auto simp: in_set_conv_nth)
  finally show ?thesis .
qed

lemma last_take: "k \<noteq> 0 \<Longrightarrow> k \<le> length xs \<Longrightarrow> last (take k xs) = xs ! (k - 1)"
  by (cases k) (simp_all add: take_Suc_conv_app_nth)

lemma overlaps_indexed_nth:
  assumes "index_ok pending index" and "i < length index"
  shows "overlaps_indexed_allocation pending a z (Some (index ! i)) \<longleftrightarrow>
     (let e = indexed pending index ! i in a < physical_address e + bytes e \<and> physical_address e < z)"
proof -
  note d = index_okD [OF assms(1)]
  have e: "indexed pending index ! i = pending ! snd (index ! i)" using assms(2) by (simp add: indexed_def)
  have "valid_extent (indexed pending index ! i)"
    using sorted_nonoverlappingD(1) [OF d(1)] assms(2) by (simp add: indexed_def)
  then have "\<not> (physical_address (pending ! snd (index ! i)) = 0 \<or> bytes (pending ! snd (index ! i)) = 0 \<or>
      physical_address (pending ! snd (index ! i)) > u64_max - bytes (pending ! snd (index ! i)))"
    unfolding e by (auto simp: valid_extent_iff)
  moreover have "snd (index ! i) < length pending" "physical_address (pending ! snd (index ! i)) = fst (index ! i)"
    using d(2) nth_mem [OF assms(2)] by auto
  ultimately show ?thesis
    unfolding overlaps_indexed_allocation_def e by (cases "index ! i") (simp add: Let_def)
qed

lemma PendingOverlap_search:
  assumes ok: "index_ok (pending_allocations s) (pending_allocation_index s)"
    and v: "0 < a" "0 < n" "a + n \<le> u64_max"
  shows "PendingSpacemanAllocationsOverlap s a n \<longleftrightarrow>
     RangeOverlapsSorted (indexed (pending_allocations s) (pending_allocation_index s)) (mk_extent a n)"
proof -
  let ?ix = "pending_allocation_index s" let ?es = "indexed (pending_allocations s) ?ix"
  define k where "k = length (takeWhile (\<lambda>entry. fst entry < a) ?ix)"
  have len: "length ?es = length ?ix" "length ?ix = length (pending_allocations s)"
    using ok by (simp_all add: indexed_def index_ok_def)
  note d = index_okD [OF ok] note sd = sorted_nonoverlappingD [OF d(1)]
  have "map physical_address (takeWhile (\<lambda>e. physical_address e < a) ?es) = takeWhile (\<lambda>k. k < a) (map physical_address ?es)"
    by (simp add: takeWhile_map comp_def)
  also have "\<dots> = map fst (takeWhile (\<lambda>entry. fst entry < a) ?ix)" unfolding d(3) by (simp add: takeWhile_map comp_def)
  finally have k: "lower_bound ?es a = k"
    unfolding lower_bound_def k_def by (metis length_map)
  have kl: "k \<le> length ?ix" unfolding k_def by (rule length_takeWhile_le)
  have "PendingSpacemanAllocationsOverlap s a n \<longleftrightarrow>
      (k < length ?ix \<and> overlaps_indexed_allocation (pending_allocations s) a (a + n) (Some (?ix ! k))) \<or>
      (k \<noteq> 0 \<and> overlaps_indexed_allocation (pending_allocations s) a (a + n) (Some (?ix ! (k - 1))))"
  proof (cases "pending_allocations s = []")
    case True
    then show ?thesis using v len kl not_less [of a "u64_max - n"] by (auto simp: PendingSpacemanAllocationsOverlap_def)
  next
    case False
    have before: "takeWhile (\<lambda>entry. fst entry < a) ?ix = take k ?ix" unfolding k_def by (rule takeWhile_eq_take)
    have from_here: "dropWhile (\<lambda>entry. fst entry < a) ?ix = drop k ?ix" unfolding k_def by (rule dropWhile_eq_drop)
    have head: "(case drop k ?ix of [] \<Rightarrow> None | entry # _ \<Rightarrow> Some entry) =
        (if k < length ?ix then Some (?ix ! k) else None)"
      by (cases "k < length ?ix") (simp_all flip: Cons_nth_drop_Suc)
    have tail: "last (take k ?ix) = ?ix ! (k - 1)" if "k \<noteq> 0"
      by (rule last_take [OF that kl])
    have none: "\<not> overlaps_indexed_allocation p a z None" for p z by (simp add: overlaps_indexed_allocation_def)
    have empty: "take k ?ix = [] \<longleftrightarrow> k = 0" using kl by auto
    show ?thesis
      using False v len none tail
      unfolding PendingSpacemanAllocationsOverlap_def Let_def from_here before head empty by auto
  qed
  moreover have "k < length ?ix \<Longrightarrow> a \<le> physical_address (?es ! k) \<and> 0 < bytes (?es ! k)"
    using lower_bound_sorted(2) [OF sd(4), of a k] sd(1) len k by (auto simp: valid_extent_iff)
  moreover have "k \<noteq> 0 \<Longrightarrow> physical_address (?es ! (k - 1)) < a \<and> valid_extent (?es ! (k - 1))"
    using lower_bound_sorted(1) [OF sd(4), of "k - 1" a] sd(1) len k kl by (auto intro: nth_mem)
  ultimately show ?thesis
    using v k kl len overlaps_indexed_nth [OF ok]
    by (auto simp: RangeOverlapsSorted_def Let_def valid_extent_iff)
qed

text \<open>
  The address sets the ledger stands for.  Entries of the committed list that the overlap test
  ignores, because a field is zero or the end runs over, do not count.
\<close>

definition live_space :: "SpacemanLedger \<Rightarrow> nat set" where
  "live_space s = space (filter valid_extent (committed_allocations s @ pending_allocations s))"

definition reserved_space :: "StoreGeometry \<Rightarrow> nat set" where
  "reserved_space g = {x. reserved_block g (x div block_unit g)}"

abbreviation pending_ok :: "SpacemanLedger \<Rightarrow> bool" where
  "pending_ok s \<equiv> index_ok (pending_allocations s) (pending_allocation_index s)"

lemma pending_valid: "pending_ok s \<Longrightarrow> \<forall>e \<in> set (pending_allocations s). valid_extent e"
  using indexed_set index_okD(1) sorted_nonoverlappingD(1) by metis

lemma PendingOverlap_exact:
  assumes "pending_ok s" and "0 < a" and "0 < n" and "a + n \<le> u64_max"
  shows "PendingSpacemanAllocationsOverlap s a n \<longleftrightarrow> ivl a n \<inter> space (pending_allocations s) \<noteq> {}"
proof -
  have "valid_extent (mk_extent a n)" using assms by (simp add: valid_extent_iff)
  then show ?thesis
    using PendingOverlap_search [OF assms] RangeOverlapsSorted_exact [OF index_okD(1) [OF assms(1)]]
      space_cong_set [OF indexed_set [OF assms(1)]] by simp
qed

lemma ExtentOverlapsLiveAllocation_exact:
  assumes "pending_ok s" and "0 < a" and "0 < n" and "a + n \<le> u64_max"
  shows "ExtentOverlapsLiveAllocation s a n \<longleftrightarrow> ivl a n \<inter> live_space s \<noteq> {}"
proof -
  have c: "list_ex (overlaps_allocation a (a + n)) (committed_allocations s) \<longleftrightarrow>
      ivl a n \<inter> space (filter valid_extent (committed_allocations s)) \<noteq> {}"
    using overlaps_allocation_iff [OF assms(3)] by (auto simp: list_ex_iff space_def)
  have p: "filter valid_extent (pending_allocations s) = pending_allocations s"
    using pending_valid [OF assms(1)] by (simp add: filter_id_conv)
  have g: "\<not> (a = 0 \<or> n = 0 \<or> a > u64_max - n)" using assms by auto
  show ?thesis
    using PendingOverlap_exact [OF assms] g c p
    unfolding ExtentOverlapsLiveAllocation_def live_space_def by (auto simp: Int_Un_distrib)
qed


section \<open>The store's policy keeps the allocator's contract\<close>

lemma overlaps_indexed_sub:
  assumes "\<not> overlaps_indexed_allocation pending a z entry" and "a \<le> b" and "y \<le> z"
  shows "\<not> overlaps_indexed_allocation pending b y entry"
  using assms by (auto simp: overlaps_indexed_allocation_def Let_def split: option.splits if_splits)

lemma PendingOverlap_sub:
  assumes free: "\<not> PendingSpacemanAllocationsOverlap s a n" and m: "0 < m" "a \<le> b" "b + m \<le> a + n"
  shows "\<not> PendingSpacemanAllocationsOverlap s b m"
proof -
  let ?ix = "pending_allocation_index s" let ?p = "pending_allocations s"
  have v: "0 < a" "0 < n" "\<not> a > u64_max - n" "length ?ix = length ?p"
    using free by (auto simp: PendingSpacemanAllocationsOverlap_def split: if_splits)
  have b: "0 < b" "\<not> b > u64_max - m" using v m by linarith+
  show ?thesis
  proof (cases "?p = []")
    case True
    then show ?thesis using v(4) b m(1) by (simp add: PendingSpacemanAllocationsOverlap_def)
  next
    case False
    define before rest where br: "before = takeWhile (\<lambda>entry. fst entry < a) ?ix"
      "rest = dropWhile (\<lambda>entry. fst entry < a) ?ix"
    let ?head = "case rest of [] \<Rightarrow> None | entry # _ \<Rightarrow> Some entry"
    have t: "\<not> overlaps_indexed_allocation ?p a (a + n) ?head"
      "before \<noteq> [] \<Longrightarrow> \<not> overlaps_indexed_allocation ?p a (a + n) (Some (last before))"
      using free False v unfolding PendingSpacemanAllocationsOverlap_def Let_def br [symmetric]
      by (auto split: if_splits)
    have far: "\<not> fst (hd rest) < b" if "rest \<noteq> []"
    proof -
      have "a \<le> fst (hd rest)" using hd_dropWhile [of "\<lambda>entry. fst entry < a" ?ix] that by (simp add: br not_less)
      then show ?thesis
        using t(1) that m v by (cases rest) (auto simp: overlaps_indexed_allocation_def Let_def split: if_splits)
    qed
    have near: "\<forall>entry \<in> set before. fst entry < b"
      using m(2) by (auto simp: br dest: set_takeWhileD)
    have ix: "?ix = before @ rest" by (simp add: br)
    have same: "takeWhile (\<lambda>entry. fst entry < b) ?ix = before" "dropWhile (\<lambda>entry. fst entry < b) ?ix = rest"
      unfolding ix using near far by (cases rest; simp add: takeWhile_append2 dropWhile_append2)+
    have "\<not> overlaps_indexed_allocation ?p b (b + m) ?head"
      "before \<noteq> [] \<Longrightarrow> \<not> overlaps_indexed_allocation ?p b (b + m) (Some (last before))"
      using t overlaps_indexed_sub [OF _ m(2,3)] by blast+
    then show ?thesis
      using False v b m(1) unfolding PendingSpacemanAllocationsOverlap_def Let_def same by simp
  qed
qed

lemma ExtentOverlapsLiveAllocation_sub:
  assumes "\<not> ExtentOverlapsLiveAllocation s a n" and "0 < m" "a \<le> b" "b + m \<le> a + n"
  shows "\<not> ExtentOverlapsLiveAllocation s b m"
proof -
  have g: "0 < a" "\<not> a > u64_max - n" "\<not> list_ex (overlaps_allocation a (a + n)) (committed_allocations s)"
    "\<not> PendingSpacemanAllocationsOverlap s a n"
    using assms(1) by (auto simp: ExtentOverlapsLiveAllocation_def split: if_splits)
  have "overlaps_allocation a (a + n) e" if "overlaps_allocation b (b + m) e" for e
    using that assms(2-4) by (auto simp: overlaps_allocation_def split: if_splits)
  then have "\<not> list_ex (overlaps_allocation b (b + m)) (committed_allocations s)"
    using g(3) unfolding list_ex_iff by blast
  moreover have "\<not> (b = 0 \<or> m = 0 \<or> b > u64_max - m)" using g assms(2-4) by linarith
  ultimately show ?thesis
    unfolding ExtentOverlapsLiveAllocation_def using PendingOverlap_sub [OF g(4) assms(2-4)] by simp
qed

interpretation store: clean_policy "block_unit (geometry s)" "store_policy s limit" for s limit
proof
  fix a n b m
  assume o: "\<not> OverlapsUnavailable a n (store_policy s limit)"
    and d: "block_unit (geometry s) dvd b" "block_unit (geometry s) dvd m" and m: "0 < m" "a \<le> b" "b + m \<le> a + n"
  have "\<not> ExtentOverlapsReservedMetadata (geometry s) a n" "\<not> ExtentOverlapsLiveAllocation s a n"
    using o by (simp_all add: OverlapsUnavailable_def store_policy_def)
  then show "\<not> OverlapsUnavailable b m (store_policy s limit)"
    using ExtentOverlapsReservedMetadata_sub [OF _ d m] ExtentOverlapsLiveAllocation_sub [OF _ m]
    by (simp add: OverlapsUnavailable_def store_policy_def)
qed

section \<open>Alignment\<close>

lemma AlignExtentBytes_cases:
  assumes "0 < n"
  obtains (whole) "n \<le> block_unit g" "AlignExtentBytes g n = block_unit g"
  | (multiple) "block_unit g < n" "block_unit g dvd n" "AlignExtentBytes g n = n"
  | (rounded) "block_unit g < n" "n mod block_unit g \<noteq> 0"
      "AlignExtentBytes g n = n + (block_unit g - n mod block_unit g)"
  | (overflow) "block_unit g < n" "n mod block_unit g \<noteq> 0"
      "n > u64_max - (block_unit g - n mod block_unit g)" "AlignExtentBytes g n = 0"
proof -
  define u where "u = block_unit g"
  have u: "0 < u" by (simp add: u_def)
  have A: "AlignExtentBytes g n = (let A = max n u; r = A mod u in
      if r \<noteq> 0 then (if A > u64_max - (u - r) then 0 else A + (u - r)) else A)"
    using assms unfolding AlignExtentBytes_def Let_def u_def block_unit_def by simp
  consider "n \<le> u" | "u < n" "n mod u = 0" | "u < n" "n mod u \<noteq> 0" "n \<le> u64_max - (u - n mod u)"
    | "u < n" "n mod u \<noteq> 0" "n > u64_max - (u - n mod u)" by linarith
  then show ?thesis
  proof cases
    case 1
    then show ?thesis using A whole u by (simp add: u_def max_absorb2)
  next
    case 2
    then show ?thesis using A multiple by (simp add: u_def max_absorb1 dvd_eq_mod_eq_0)
  next
    case 3
    then show ?thesis using A rounded by (simp add: u_def max_absorb1)
  next
    case 4
    then show ?thesis using A overflow by (simp add: u_def max_absorb1)
  qed
qed

lemma round_up_nat:
  fixes n u :: nat
  assumes "0 < u" and "n mod u \<noteq> 0"
  shows "u dvd n + (u - n mod u)" and "u - n mod u < u"
proof -
  have "n mod u < u" using assms(1) by simp
  then have "n + (u - n mod u) = n - n mod u + u" using mod_less_eq_dividend [of n u] by linarith
  then show "u dvd n + (u - n mod u)" using dvd_minus_mod [of u n] by (metis dvd_add dvd_refl)
  show "u - n mod u < u" using assms by simp
qed

lemma AlignExtentBytes_props:
  assumes "AlignExtentBytes g n \<noteq> 0"
  shows "0 < n" and "n \<le> AlignExtentBytes g n" and "block_unit g dvd AlignExtentBytes g n"
    and "AlignExtentBytes g n < n + block_unit g"
proof -
  show n: "0 < n" using assms by (cases n) (simp_all add: AlignExtentBytes_def)
  from n have "n \<le> AlignExtentBytes g n \<and> block_unit g dvd AlignExtentBytes g n \<and>
      AlignExtentBytes g n < n + block_unit g"
  proof (cases rule: AlignExtentBytes_cases [of n g])
    case rounded
    then show ?thesis
      unfolding rounded(3) using round_up_nat [OF block_unit_pos(1) rounded(2)] by (meson add_strict_left_mono le_add1)
  qed (use assms n in simp_all)
  then show "n \<le> AlignExtentBytes g n" "block_unit g dvd AlignExtentBytes g n"
    "AlignExtentBytes g n < n + block_unit g" by blast+
qed

lemma AlignExtentBytes_multiple:
  assumes "0 < n" and "block_unit g dvd n"
  shows "AlignExtentBytes g n = n"
  using assms(1)
proof (cases rule: AlignExtentBytes_cases [of n g])
  case whole
  then show ?thesis using dvd_imp_le [OF assms(2,1)] by simp
next
  case overflow
  have "n mod block_unit g = 0" using assms(2) by simp
  then show ?thesis using overflow(2) by simp
qed (use assms(2) in \<open>simp_all add: dvd_eq_mod_eq_0\<close>)

lemma AlignExtentBytes_small:
  assumes "block_size g \<le> u32_max" and "0 < n" and "n \<le> 8388608"
  shows "AlignExtentBytes g n \<le> u64_max" and "AlignExtentBytes g n \<noteq> 0"
proof -
  have u: "n + block_unit g \<le> u64_max" using assms by (simp add: block_unit_def u32_max_def u64_max_def)
  from assms(2) show nz: "AlignExtentBytes g n \<noteq> 0"
    by (cases rule: AlignExtentBytes_cases [of n g]) (use u assms(2) in linarith)+
  show "AlignExtentBytes g n \<le> u64_max" using AlignExtentBytes_props(4) [OF nz] u by linarith
qed

lemma AlignExtentBytes_mono:
  assumes "AlignExtentBytes g m \<noteq> 0" and "AlignExtentBytes g n \<noteq> 0" and "m \<le> n"
  shows "AlignExtentBytes g m \<le> AlignExtentBytes g n"
proof (rule ccontr)
  assume "\<not> AlignExtentBytes g m \<le> AlignExtentBytes g n"
  then have "AlignExtentBytes g n + block_unit g \<le> AlignExtentBytes g m"
    using AlignExtentBytes_props(3) [OF assms(1)] AlignExtentBytes_props(3) [OF assms(2)]
    by (intro dvd_less_gap) auto
  then show False
    using AlignExtentBytes_props(4) [OF assms(1)] AlignExtentBytes_props(2) [OF assms(2)] assms(3) by linarith
qed

text \<open>
  The reservation for a growing file is a whole number of blocks, at least what is required
  and at least the smallest reservation that fits the cap, and beyond the required size it never
  exceeds the cap of 8 MiB rounded to blocks.
\<close>

theorem StreamingGrowthReservationBytes_bounds:
  assumes "block_size g \<le> u32_max" and "0 < required" and "block_unit g dvd required" and "required \<le> u64_max"
  shows "let r = StreamingGrowthReservationBytes g current required in
     required \<le> r \<and> block_unit g dvd r \<and> AlignExtentBytes g 65536 \<le> r \<and>
     r \<le> max required (AlignExtentBytes g 8388608)"
proof -
  let ?lo = "AlignExtentBytes g 65536" let ?hi = "AlignExtentBytes g 8388608"
  have lo: "?lo \<noteq> 0" and hi: "?hi \<noteq> 0" "?hi \<le> u64_max" using AlignExtentBytes_small [OF assms(1)] by simp_all
  have le: "?lo \<le> ?hi" by (rule AlignExtentBytes_mono [OF lo hi(1)]) simp
  define x where "x = (let m = max required (block_unit g) in
      if current \<ge> block_unit g \<and> current \<le> u64_max div 2 then max m (current * 2) else m)"
  define r where "r = max required (min (max x ?lo) ?hi)"
  have nums: "8 * 1024 * 1024 = (8388608::nat)" "64 * 1024 = (65536::nat)" by simp_all
  have if_max: "(if y < z then z else y) = max z y" for y z :: nat by simp
  have r0: "StreamingGrowthReservationBytes g current required = AlignExtentBytes g r"
    using assms(2)
    unfolding StreamingGrowthReservationBytes_def Let_def x_def r_def block_unit_def [symmetric] nums if_max by simp
  have b: "required \<le> r" "?lo \<le> r" "r \<le> max required ?hi" using le by (auto simp: r_def)
  have m: "block_unit g dvd max required ?hi"
    using assms(3) AlignExtentBytes_props(3) [OF hi(1)] by (simp add: max_def)
  have fit: "r + k \<le> max required ?hi" if "r mod block_unit g \<noteq> 0" "k = block_unit g - r mod block_unit g" for k
  proof -
    have "block_unit g dvd r + k" using round_up_nat(1) [OF block_unit_pos(1) that(1)] that(2) by simp
    moreover have "r \<noteq> max required ?hi" using m that(1) by auto
    ultimately show ?thesis
      using dvd_less_gap [OF _ m, of "r - r mod block_unit g"] b(3) that(2) mod_less_eq_dividend [of r "block_unit g"]
        mod_less_divisor [OF block_unit_pos(1), of r g] dvd_minus_mod [of "block_unit g" r] by linarith
  qed
  have "0 < r" using b(1) assms(2) by simp
  then have "AlignExtentBytes g r \<noteq> 0 \<and> AlignExtentBytes g r \<le> max required ?hi"
  proof (cases rule: AlignExtentBytes_cases [of r g])
    case whole
    then show ?thesis using dvd_imp_le [OF m] assms(2) by simp
  next
    case rounded
    then show ?thesis using fit [OF rounded(2) refl] \<open>0 < r\<close> by linarith
  next
    case overflow
    have "r + (block_unit g - r mod block_unit g) \<le> u64_max"
      using fit [OF overflow(2) refl] hi(2) assms(4) by linarith
    then show ?thesis using overflow(3) by linarith
  qed (use b(3) \<open>0 < r\<close> in simp)
  then show ?thesis
    using AlignExtentBytes_props(2,3) [of g r] b unfolding Let_def r0 by linarith
qed

theorem StreamingGrowthReservationBytes_bounds_witness:
  "12288 \<le> StreamingGrowthReservationBytes sample_geometry 8192 12288"
proof -
  have "block_size sample_geometry \<le> u32_max" "(0::nat) < 12288" "block_unit sample_geometry dvd 12288"
    "(12288::nat) \<le> u64_max"
    by (simp_all add: sample_geometry_def block_unit_def u32_max_def u64_max_def)
  from StreamingGrowthReservationBytes_bounds [OF this] show ?thesis unfolding Let_def by blast
qed

section \<open>Sanitizing the working free list\<close>

text \<open>
  The invariant of the ledger: the working free list is canonical, the index of the staged
  allocations is exact, so that they are disjoint, and the recorded ranges are valid.
\<close>

definition ledger_ok :: "SpacemanLedger \<Rightarrow> bool" where
  "ledger_ok s \<longleftrightarrow> IsSortedAndValid (working_free s) \<and> pending_ok s \<and>
     (\<forall>e \<in> set (committed_allocations s) \<union> set (pending_deallocations s). valid_extent e)"

lemma valid_normalizable: "\<forall>e \<in> set es. valid_extent e \<Longrightarrow> normalizable es \<and> filter counted es = es"
  using valid_extent_counted by (auto simp: normalizable_def filter_id_conv)

lemma SubtractAllocationsFromFreeExtents_canonical:
  assumes "IsSortedAndValid fs" and "\<forall>e \<in> set as. valid_extent e"
  shows "\<exists>out. SubtractAllocationsFromFreeExtents fs as = (True, out) \<and> IsSortedAndValid out \<and>
           space out = space fs - space as"
proof (cases "fs = [] \<or> as = []")
  case True
  then show ?thesis using assms(1) by (auto simp: SubtractAllocationsFromFreeExtents_def)
next
  case False
  have f: "normalizable fs" "filter counted fs = fs"
    using assms(1) by (simp_all add: normalizable_canonical filter_counted_canonical)
  have a: "normalizable as" "filter counted as = as" using valid_normalizable [OF assms(2)] by simp_all
  show ?thesis using SubtractAllocationsFromFreeExtents_ok [OF f(1) a(1)] False f(2) a(2) by simp
qed

lemma Sanitize_computes:
  assumes "ledger_ok s"
  shows "\<exists>fs. SanitizeWorkingFreeExtents False s = (True, s\<lparr>working_free := fs, working_free_sanitized := True\<rparr>) \<and>
     IsSortedAndValid fs \<and>
     space fs = space (working_free s) -
       (space (committed_allocations s @ pending_allocations s) - space (pending_deallocations s))"
proof (cases "working_free s = []")
  case True
  then show ?thesis by (intro exI [of _ "[]"]) (simp add: SanitizeWorkingFreeExtents_def)
next
  case False
  let ?live = "committed_allocations s @ pending_allocations s"
  have v: "\<forall>e \<in> set ?live. valid_extent e" "\<forall>e \<in> set (pending_deallocations s). valid_extent e"
    using assms pending_valid by (auto simp: ledger_ok_def)
  note n = valid_normalizable [OF v(1)] valid_normalizable [OF v(2)]
  obtain live where live: "Normalize ?live = (True, live)" "IsSortedAndValid live" "space live = space ?live"
    using Normalize_ok [of ?live] n(1) by metis
  obtain net where net: "SubtractExtentsFromAllocations live (pending_deallocations s) = (True, net)"
    "IsSortedAndValid net" "space net = space ?live - space (pending_deallocations s)"
    using SubtractExtentsFromAllocations_ok [OF normalizable_canonical [OF live(2)], of "pending_deallocations s"]
      n(2) live(3) filter_counted_canonical [OF live(2)] by auto
  have "\<forall>e \<in> set net. valid_extent e" using net(2) by (simp add: IsSortedAndValid_iff)
  then obtain fs where fs: "SubtractAllocationsFromFreeExtents (working_free s) net = (True, fs)"
    "IsSortedAndValid fs" "space fs = space (working_free s) - space net"
    using SubtractAllocationsFromFreeExtents_canonical assms by (metis ledger_ok_def)
  have "SanitizeWorkingFreeExtents False s = (True, s\<lparr>working_free := fs, working_free_sanitized := True\<rparr>)"
    using False live(1) net(1) fs(1)
    by (simp add: SanitizeWorkingFreeExtents_def NormalizeSpacemanExtents_eq)
  then show ?thesis using fs(2,3) net(3) by blast
qed

text \<open>
  On a well-formed ledger, sanitizing always succeeds and leaves in the working free list
  exactly the addresses that no committed or staged allocation holds, except those a staged
  deallocation gives back.
\<close>

theorem SanitizeWorkingFreeExtents_exact:
  assumes "ledger_ok s"
  shows "\<exists>fs. SanitizeWorkingFreeExtents False s = (True, s\<lparr>working_free := fs, working_free_sanitized := True\<rparr>) \<and>
     IsSortedAndValid fs \<and>
     space fs = space (working_free s) -
       (space (committed_allocations s @ pending_allocations s) - space (pending_deallocations s))"
  using assms by (rule Sanitize_computes)

lemma sample_ledger_ok: "ledger_ok sample_ledger"
  by (simp add: ledger_ok_def sample_ledger_def index_ok_def IsSortedAndValid_def RangeEnd_def u64_max_def valid_extent_iff)

theorem SanitizeWorkingFreeExtents_exact_witness:
  "fst (SanitizeWorkingFreeExtents False sample_ledger)"
  using SanitizeWorkingFreeExtents_exact [OF sample_ledger_ok] by auto

lemma Sanitize_cases:
  assumes "ledger_ok s" and "SanitizeWorkingFreeExtents cached s = (ok, s')"
  shows "ok" and "ledger_ok s'" and "space (working_free s') \<subseteq> space (working_free s)"
    and "\<exists>fs b. s' = s\<lparr>working_free := fs, working_free_sanitized := b\<rparr>"
proof -
  have "ok \<and> ledger_ok s' \<and> space (working_free s') \<subseteq> space (working_free s) \<and>
      (\<exists>fs b. s' = s\<lparr>working_free := fs, working_free_sanitized := b\<rparr>)"
  proof (cases "cached \<and> working_free_sanitized s")
    case True
    then have "ok" "s' = s" using assms(2) by (simp_all add: SanitizeWorkingFreeExtents_def)
    moreover have "s = s\<lparr>working_free := working_free s, working_free_sanitized := working_free_sanitized s\<rparr>" by simp
    ultimately show ?thesis using assms(1) by blast
  next
    case False
    then have "SanitizeWorkingFreeExtents False s = (ok, s')"
      using assms(2) by (auto simp: SanitizeWorkingFreeExtents_def)
    then show ?thesis using Sanitize_computes [OF assms(1)] assms(1) by (auto simp: ledger_ok_def)
  qed
  then show "ok" "ledger_ok s'" "space (working_free s') \<subseteq> space (working_free s)"
    "\<exists>fs b. s' = s\<lparr>working_free := fs, working_free_sanitized := b\<rparr>" by blast+
qed

section \<open>Allocation is safe\<close>

lemma live_space_ok: "ledger_ok s \<Longrightarrow> live_space s = space (committed_allocations s @ pending_allocations s)"
  using pending_valid unfolding live_space_def ledger_ok_def by (metis Un_iff filter_True set_append)

lemma reserved_space_disjoint:
  assumes "\<not> ExtentOverlapsReservedMetadata g a n"
  shows "ivl a n \<inter> reserved_space g = {}"
proof -
  let ?u = "block_unit g"
  have d: "?u dvd a" "?u dvd n" "\<forall>b. a \<le> b * ?u \<and> b * ?u < a + n \<longrightarrow> \<not> reserved_block g b"
    using assms by (simp_all add: ExtentOverlapsReservedMetadata_iff)
  have "\<not> reserved_block g (x div ?u)" if "a \<le> x" "x < a + n" for x
  proof -
    have "a div ?u \<le> x div ?u" using that(1) by (rule div_le_mono)
    then have "a \<le> x div ?u * ?u" using d(1) by (metis dvd_div_mult_self mult_le_mono1)
    moreover have "x div ?u * ?u < a + n" using that(2) div_times_less_eq_dividend [of x ?u] by linarith
    ultimately show ?thesis using d(3) by blast
  qed
  then show ?thesis by (auto simp: reserved_space_def mem_ivl)
qed

text \<open>What it means for a range to be free for the taking.\<close>

definition clean_range :: "SpacemanLedger \<Rightarrow> nat \<Rightarrow> nat \<Rightarrow> bool" where
  "clean_range s a n \<longleftrightarrow> 0 < a \<and> 0 < n \<and> block_unit (geometry s) dvd a \<and> block_unit (geometry s) dvd n \<and>
     a + n \<le> u64_max \<and>
     (total_blocks (geometry s) \<noteq> 0 \<longrightarrow> a + n \<le> total_blocks (geometry s) * block_size (geometry s)) \<and>
     ivl a n \<inter> live_space s = {} \<and> ivl a n \<inter> reserved_space (geometry s) = {}"

lemma store_policy_clean:
  assumes "pending_ok s" and "container_limit (geometry s) = Some limit"
    and "FitsContainer a n (store_policy s limit)" and "\<not> OverlapsUnavailable a n (store_policy s limit)"
  shows "clean_range s a n"
proof -
  have o: "\<not> ExtentOverlapsReservedMetadata (geometry s) a n" "\<not> ExtentOverlapsLiveAllocation s a n"
    using assms(4) by (simp_all add: OverlapsUnavailable_def store_policy_def)
  note f = FitsContainer_D [OF assms(3)]
  have "ivl a n \<inter> live_space s = {}"
    using ExtentOverlapsLiveAllocation_exact [OF assms(1) f(1-3)] o(2) by simp
  moreover have "total_blocks (geometry s) \<noteq> 0 \<longrightarrow> a + n \<le> total_blocks (geometry s) * block_size (geometry s)"
    using assms(2) f(5) by (auto simp: container_limit_def store_policy_def split: if_splits)
  ultimately show ?thesis
    using o(1) f(1-3) reserved_space_disjoint [OF o(1)]
    unfolding clean_range_def ExtentOverlapsReservedMetadata_iff by simp
qed

lemma clean_range_cong:
  "geometry s' = geometry s \<Longrightarrow> live_space s' = live_space s \<Longrightarrow> clean_range s' a n = clean_range s a n"
  by (simp add: clean_range_def)

lemma AllocateFromSanitized_ok:
  assumes ok: "ledger_ok s"
    and r: "AllocateExtentFromSanitizedWorkingFreeExtents s n undo = (r, undo', s')"
  shows "ledger_ok s' \<and> (\<exists>fs x. s' = s\<lparr>working_free := fs, working_next_ephemeral_extent := x\<rparr>) \<and>
    space (working_free s') \<subseteq> space (working_free s) \<and>
    (\<forall>a. r = Some a \<longrightarrow> n \<le> AlignExtentBytes (geometry s) n \<and>
       clean_range s a (AlignExtentBytes (geometry s) n) \<and>
       ivl a (AlignExtentBytes (geometry s) n) \<inter> space (working_free s') = {})"
proof -
  have same: "ledger_ok s \<and> (\<exists>fs x. s = s\<lparr>working_free := fs, working_next_ephemeral_extent := x\<rparr>)"
    using ok by (auto intro!: exI [of _ "working_free s"] exI [of _ "working_next_ephemeral_extent s"])
  let ?m = "AlignExtentBytes (geometry s) n"
  show ?thesis
  proof (cases "container_loaded s \<and> spaceman_loaded s \<and> container_limit (geometry s) \<noteq> None \<and> ?m \<noteq> 0")
    case False
    then have "r = None" "s' = s"
      using r by (auto simp: AllocateExtentFromSanitizedWorkingFreeExtents_def split: option.splits if_splits)
    then show ?thesis using same by simp
  next
    case True
    then obtain limit where limit: "container_limit (geometry s) = Some limit" by auto
    obtain fs x where a: "AllocateContiguous (working_free s) (working_next_ephemeral_extent s) ?m
        (store_policy s limit) undo = (r, fs, x, undo')"
      and s': "s' = s\<lparr>working_free := fs, working_next_ephemeral_extent := x\<rparr>"
      using r True limit by (auto simp: AllocateExtentFromSanitizedWorkingFreeExtents_def Let_def split: prod.splits)
    have p: "pending_ok s" "IsSortedAndValid (working_free s)" using ok by (simp_all add: ledger_ok_def)
    note c = AllocateContiguous_ok [OF p(2) a]
    have "IsSortedAndValid fs" "space fs \<subseteq> space (working_free s)" using c p(2) by (auto split: option.splits)
    moreover have "clean_range s a ?m \<and> ivl a ?m \<inter> space fs = {}" if "r = Some a" for a
      using c that store_policy_clean [OF p(1) limit] by auto
    ultimately show ?thesis
      using s' ok AlignExtentBytes_props(2) [of "geometry s" n] True by (auto simp: ledger_ok_def)
  qed
qed

lemma AllocateExtent_ok:
  assumes ok: "ledger_ok s" and r: "AllocateExtent cached s n = (r, s')"
  shows "ledger_ok s' \<and>
    (\<exists>fs x b. s' = s\<lparr>working_free := fs, working_next_ephemeral_extent := x, working_free_sanitized := b\<rparr>) \<and>
    space (working_free s') \<subseteq> space (working_free s) \<and>
    (\<forall>a. r = Some a \<longrightarrow> n \<le> AlignExtentBytes (geometry s) n \<and>
       clean_range s a (AlignExtentBytes (geometry s) n) \<and>
       ivl a (AlignExtentBytes (geometry s) n) \<inter> space (working_free s') = {})"
proof (cases "immutable_snapshot_view s")
  case True
  then have "r = None" "s' = s" using r by (simp_all add: AllocateExtent_def)
  moreover have "s = s\<lparr>working_free := working_free s,
      working_next_ephemeral_extent := working_next_ephemeral_extent s, working_free_sanitized := working_free_sanitized s\<rparr>"
    by simp
  ultimately show ?thesis using ok by blast
next
  case False
  obtain b s1 where s1: "SanitizeWorkingFreeExtents cached s = (b, s1)" by fastforce
  note c = Sanitize_cases [OF ok s1]
  obtain u where u: "AllocateExtentFromSanitizedWorkingFreeExtents s1 n no_undo = (r, u, s')"
    using r False s1 c(1) by (auto simp: AllocateExtent_def split: prod.splits)
  obtain fs0 b0 where e: "s1 = s\<lparr>working_free := fs0, working_free_sanitized := b0\<rparr>" using c(4) by blast
  then have g: "geometry s1 = geometry s" "live_space s1 = live_space s" by (simp_all add: live_space_def)
  note f = AllocateFromSanitized_ok [OF c(2) u]
  then obtain fs x where "s' = s1\<lparr>working_free := fs, working_next_ephemeral_extent := x\<rparr>" by blast
  then have "s' = s\<lparr>working_free := fs, working_next_ephemeral_extent := x, working_free_sanitized := b0\<rparr>"
    by (simp add: e)
  then show ?thesis using f g c(3) clean_range_cong [OF g] by auto
qed

text \<open>
  C28. A range returned by \<^verbatim>\<open>AllocateExtent\<close> is at least as long as requested and block
  aligned, lies in the container, meets no committed or staged allocation and no reserved
  metadata block, and is gone from the working free list; the ledger stays well formed and
  nothing but the working free list, the tail and the sanitized flag changes.
\<close>

theorem AllocateExtent_safe:
  assumes "ledger_ok s" and "AllocateExtent cached s n = (Some a, s')"
  shows "n \<le> AlignExtentBytes (geometry s) n \<and> clean_range s a (AlignExtentBytes (geometry s) n) \<and>
    ivl a (AlignExtentBytes (geometry s) n) \<inter> space (working_free s') = {} \<and> ledger_ok s' \<and>
    (\<exists>fs x b. s' = s\<lparr>working_free := fs, working_next_ephemeral_extent := x, working_free_sanitized := b\<rparr>)"
  using AllocateExtent_ok [OF assms] by blast

lemmas ledger_eval = sample_ledger_def sample_geometry_def AllocateExtent_def SanitizeWorkingFreeExtents_def
  NormalizeSpacemanExtents_def SubtractExtentsFromAllocations_def SubtractAllocationsFromFreeExtents_def
  subtract_from_def extent_key_def AllocateExtentFromSanitizedWorkingFreeExtents_def container_limit_def
  AlignExtentBytes_def AllocateContiguous_def AllocateContiguousFromFree_def try_free_extent_def RangeEnd_def
  FitsContainer_def OverlapsUnavailable_def store_policy_def ExtentOverlapsReservedMetadata_def
  reserved_block_def IsReservedMetadataBlock_def matches_offset_block_def matches_indexed_block_def
  ResolveObjectBlockIndex_def ExtentOverlapsLiveAllocation_def overlaps_allocation_def
  PendingSpacemanAllocationsOverlap_def u64_max_def Let_def

theorem AllocateExtent_safe_witness:
  "AllocateExtent False sample_ledger 5000 =
     (Some 49152, sample_ledger\<lparr>working_free := [], working_free_sanitized := True\<rparr>) \<and>
   clean_range sample_ledger 49152 8192"
proof -
  have a: "AllocateExtent False sample_ledger 5000 =
     (Some 49152, sample_ledger\<lparr>working_free := [], working_free_sanitized := True\<rparr>)"
    by (simp add: ledger_eval)
  have "AlignExtentBytes (geometry sample_ledger) 5000 = 8192" by (simp add: ledger_eval)
  then show ?thesis using a AllocateExtent_safe [OF sample_ledger_ok a] by simp
qed

lemma StoreAllocateFileExtents_ok:
  assumes ok: "ledger_ok s" and r: "StoreAllocateFileExtents cached s n = (r, s')"
  shows "ledger_ok s' \<and>
    (\<exists>fs x b. s' = s\<lparr>working_free := fs, working_next_ephemeral_extent := x, working_free_sanitized := b\<rparr>) \<and>
    space (working_free s') \<subseteq> space (working_free s) \<and>
    (\<forall>xs. r = Some xs \<longrightarrow> tiles 0 xs n \<and>
       (\<forall>f \<in> set xs. clean_range s (fe_physical_address f) (AlignBytes (fe_bytes f) (block_unit (geometry s)))) \<and>
       sorted_wrt behind (map (footprint (block_unit (geometry s))) xs) \<and>
       space (map (footprint (block_unit (geometry s))) xs) \<inter> space (working_free s') = {})"
proof -
  have self: "s = s\<lparr>working_free := working_free s,
      working_next_ephemeral_extent := working_next_ephemeral_extent s, working_free_sanitized := working_free_sanitized s\<rparr>"
    by simp
  let ?m = "AlignExtentBytes (geometry s) n"
  obtain b s1 where s1: "SanitizeWorkingFreeExtents cached s = (b, s1)" by fastforce
  note c = Sanitize_cases [OF ok s1]
  obtain fs0 b0 where e: "s1 = s\<lparr>working_free := fs0, working_free_sanitized := b0\<rparr>" using c(4) by blast
  then have g: "geometry s1 = geometry s" "live_space s1 = live_space s" by (simp_all add: live_space_def)
  consider (no) "r = None" "s' = s" | (empty) "n = 0" "r = Some []" "s' = s" | (limit) "r = None" "s' = s1"
    | (run) limit where "container_limit (geometry s1) = Some limit"
        "case AllocateFileExtents (working_free s1) (working_next_ephemeral_extent s1) n ?m
           (block_unit (geometry s1)) (store_policy s1 limit) of (q, fs, x) \<Rightarrow>
           s' = s1\<lparr>working_free := fs, working_next_ephemeral_extent := x\<rparr> \<and> (r = None \<or> r = q)"
    using r s1 c(1) g(1) unfolding StoreAllocateFileExtents_def Let_def block_unit_def [symmetric]
    by (auto split: if_splits option.splits prod.splits)
  then show ?thesis
  proof cases
    case no
    then show ?thesis using ok self by blast
  next
    case empty
    moreover have "\<exists>fs x b. s = s\<lparr>working_free := fs, working_next_ephemeral_extent := x, working_free_sanitized := b\<rparr>"
      using self by blast
    ultimately show ?thesis using ok by simp
  next
    case limit
    moreover have "s1 = s\<lparr>working_free := fs0,
        working_next_ephemeral_extent := working_next_ephemeral_extent s, working_free_sanitized := b0\<rparr>" by (simp add: e)
    ultimately show ?thesis using c(2,3) by blast
  next
    case (run limit)
    obtain q fs x where a: "AllocateFileExtents (working_free s1) (working_next_ephemeral_extent s1) n ?m
        (block_unit (geometry s1)) (store_policy s1 limit) = (q, fs, x)" by (metis prod_cases3)
    then have s': "s' = s1\<lparr>working_free := fs, working_next_ephemeral_extent := x\<rparr>" "r = None \<or> r = q"
      using run(2) by simp_all
    have p: "pending_ok s1" "IsSortedAndValid (working_free s1)" using c(2) by (simp_all add: ledger_ok_def)
    have fs: "IsSortedAndValid fs \<and> space fs \<subseteq> space (working_free s1)"
    proof (cases q)
      case None
      then show ?thesis using store.file_extents_failed [OF p(2)] a p(2) by blast
    next
      case (Some xs)
      then show ?thesis using store.file_extents_ok [OF p(2)] a by (fastforce simp: file_allocation_ok_def)
    qed
    have "tiles 0 xs n \<and>
       (\<forall>f \<in> set xs. clean_range s (fe_physical_address f) (AlignBytes (fe_bytes f) (block_unit (geometry s)))) \<and>
       sorted_wrt behind (map (footprint (block_unit (geometry s))) xs) \<and>
       space (map (footprint (block_unit (geometry s))) xs) \<inter> space fs = {}" if "r = Some xs" for xs
    proof -
      have "file_allocation_ok (block_unit (geometry s1)) (store_policy s1 limit) (working_free s1)
          (working_next_ephemeral_extent s1) n xs fs"
        using store.file_extents_ok [OF p(2)] a s'(2) that by blast
      moreover have "clean_range s (fe_physical_address f) (AlignBytes (fe_bytes f) (block_unit (geometry s)))"
        if "clean_run (block_unit (geometry s1)) (store_policy s1 limit) (footprint (block_unit (geometry s1)) f)" for f
        using store_policy_clean [OF p(1) run(1)] that g clean_range_cong [OF g]
        by (simp add: clean_run_def footprint_def)
      ultimately show ?thesis unfolding file_allocation_ok_def g(1) by blast
    qed
    moreover have "ledger_ok s'" using c(2) fs s'(1) by (simp add: ledger_ok_def)
    moreover have "s' = s\<lparr>working_free := fs, working_next_ephemeral_extent := x, working_free_sanitized := b0\<rparr>"
      using s'(1) e by simp
    ultimately show ?thesis using fs c(3) s'(1) by auto
  qed
qed

text \<open>
  The extents \<^verbatim>\<open>AllocateFileExtents\<close> gives a file cover its size without gap or
  overlap; each, rounded to blocks, lies in the container and meets no committed or staged
  allocation and no reserved metadata block; they are pairwise disjoint, in ascending order, and
  gone from the working free list; the ledger stays well formed.
\<close>

lemma StoreAllocateFileExtents_safe:
  assumes "ledger_ok s" and "StoreAllocateFileExtents cached s n = (Some xs, s')"
  shows "tiles 0 xs n \<and>
    (\<forall>f \<in> set xs. clean_range s (fe_physical_address f) (AlignBytes (fe_bytes f) (block_unit (geometry s)))) \<and>
    sorted_wrt behind (map (footprint (block_unit (geometry s))) xs) \<and>
    space (map (footprint (block_unit (geometry s))) xs) \<inter> space (working_free s') = {} \<and> ledger_ok s'"
  using StoreAllocateFileExtents_ok [OF assms] by simp

lemma StoreAllocateFileExtents_safe_witness:
  "tiles 0 [\<lparr>logical_offset = 0, fe_physical_address = 49152, fe_bytes = 5000\<rparr>] 5000 \<and>
   clean_range sample_ledger 49152 8192"
proof -
  have a: "StoreAllocateFileExtents False sample_ledger 5000 =
     (Some [\<lparr>logical_offset = 0, fe_physical_address = 49152, fe_bytes = 5000\<rparr>],
      sample_ledger\<lparr>working_free := [], working_free_sanitized := True\<rparr>)"
    by (simp add: StoreAllocateFileExtents_def AllocateFileExtents_def HasLogicalExtentCoverage_def ledger_eval)
  have "AlignBytes 5000 (block_unit (geometry sample_ledger)) = 8192"
    by (simp add: AlignBytes_def block_unit_def ledger_eval)
  then show ?thesis using StoreAllocateFileExtents_safe [OF sample_ledger_ok a] by simp
qed

end
