(* ===== verification/LedgerStaging.thy ===== *)
theory LedgerStaging
  imports LedgerAllocation
begin

text \<open>
  The operations that stage, grow, erase and release the allocations of a transaction, and
  those that free.  The index of the staged allocations is characterised by the disjointness of
  the ranges, every operation is shown to keep it, and with the allocations of
  \<^verbatim>\<open>LedgerAllocation\<close> any sequence of operations keeps the ledger well formed.
\<close>

section \<open>The index of the staged allocations\<close>

definition pairwise_disjoint :: "SpacemanAllocation list \<Rightarrow> bool" where
  "pairwise_disjoint es \<longleftrightarrow>
     (\<forall>i < length es. \<forall>j < length es. i \<noteq> j \<longrightarrow> range_of (es ! i) \<inter> range_of (es ! j) = {})"

definition index_entries :: "SpacemanAllocation list \<Rightarrow> (nat \<times> nat) list \<Rightarrow> bool" where
  "index_entries pending index \<longleftrightarrow>
     (\<forall>entry \<in> set index. snd entry < length pending \<and> physical_address (pending ! snd entry) = fst entry)"

lemma behind_iff_disjoint:
  assumes "valid_extent a" and "valid_extent b" and "physical_address a < physical_address b"
  shows "behind a b \<longleftrightarrow> range_of a \<inter> range_of b = {}"
  using assms ivl_disjoint_iff [of "bytes a" "bytes b" "physical_address a" "physical_address b"]
  by (auto simp: behind_def range_of_def valid_extent_iff)

text \<open>What the exactness of the index means: keys ascend, and the ranges are valid and disjoint.\<close>

lemma index_ok_iff:
  "index_ok pending index \<longleftrightarrow> length index = length pending \<and> sorted_wrt (<) (map fst index) \<and>
     index_entries pending index \<and> (\<forall>e \<in> set pending. valid_extent e) \<and> pairwise_disjoint pending"
  (is "?l \<longleftrightarrow> ?r")
proof
  assume ok: ?l
  note d = index_okD [OF ok] note sd = sorted_nonoverlappingD [OF d(1)]
  have e: "index_entries pending index" using d(2) by (simp add: index_entries_def)
  have len: "length index = length pending" using ok by (simp add: index_ok_def)
  have srt: "sorted_wrt (<) (map fst index)" using sd(3,4) d(3) by (simp add: strict_sorted_iff)
  have v: "\<forall>e \<in> set pending. valid_extent e" using indexed_set [OF ok] sd(1) by simp
  have dis: "range_of (pending ! snd (index ! a)) \<inter> range_of (pending ! snd (index ! b)) = {}"
    if "a < b" "b < length index" for a b
  proof -
    have "behind (indexed pending index ! a) (indexed pending index ! b)"
      using sorted_wrt_nth_less [OF sd(2) that(1)] that by (simp add: indexed_def)
    then show ?thesis using that by (auto simp: indexed_def behind_def range_of_def mem_ivl)
  qed
  have "pairwise_disjoint pending"
    unfolding pairwise_disjoint_def
  proof (intro allI impI)
    fix i j assume ij: "i < length pending" "j < length pending" "i \<noteq> j"
    have all: "snd ` set index = {..<length pending}" using indexed_positions [OF ok] .
    have find: "\<exists>a < length index. snd (index ! a) = k" if "k < length pending" for k
      using all that by (metis imageE in_set_conv_nth lessThan_iff)
    obtain a where a: "a < length index" "snd (index ! a) = i" using find [OF ij(1)] by blast
    obtain b where b: "b < length index" "snd (index ! b) = j" using find [OF ij(2)] by blast
    have "a \<noteq> b" using a b ij(3) by auto
    then show "range_of (pending ! i) \<inter> range_of (pending ! j) = {}"
      using dis [of a b] dis [of b a] a b by (cases a b rule: linorder_cases) auto
  qed
  then show ?r using len srt e v by blast
next
  assume r: ?r
  then have v: "valid_extent (pending ! snd entry)" "snd entry < length pending" "physical_address (pending ! snd entry) = fst entry"
    if "entry \<in> set index" for entry using that by (auto simp: index_entries_def)
  have "sorted_wrt behind (indexed pending index)"
    unfolding sorted_wrt_iff_nth_less
  proof (intro allI impI)
    fix a b assume ab: "a < b" "b < length (indexed pending index)"
    let ?x = "index ! a" let ?y = "index ! b"
    have m: "?x \<in> set index" "?y \<in> set index" using ab by (simp_all add: indexed_def)
    have lt: "fst ?x < fst ?y"
      using r ab sorted_wrt_nth_less [of "(<)" "map fst index" a b] by (simp add: indexed_def)
    then have "snd ?x \<noteq> snd ?y" using v(3) [OF m(1)] v(3) [OF m(2)] by auto
    then have "range_of (pending ! snd ?x) \<inter> range_of (pending ! snd ?y) = {}"
      using r v(2) [OF m(1)] v(2) [OF m(2)] by (auto simp: pairwise_disjoint_def)
    then show "behind (indexed pending index ! a) (indexed pending index ! b)"
      using behind_iff_disjoint [OF v(1) [OF m(1)] v(1) [OF m(2)]] v(3) [OF m(1)] v(3) [OF m(2)] lt ab
      by (simp add: indexed_def)
  qed
  then show ?l
    using r v unfolding index_ok_def index_sorted_loop_iff sorted_extents_loop_iff
    by (auto simp: index_entries_def indexed_def)
qed

section \<open>Staging and releasing\<close>

lemma map_emplace_fresh:
  "k \<notin> fst ` set es \<Longrightarrow> sorted_wrt (<) (map fst es) \<Longrightarrow>
   \<exists>es'. map_emplace k v es = (True, es') \<and> set es' = insert (k, v) (set es) \<and>
     length es' = Suc (length es) \<and> sorted_wrt (<) (map fst es')"
proof (induction es)
  case Nil
  then show ?case by simp
next
  case (Cons x es)
  obtain k' v' where x: "x = (k', v')" by fastforce
  show ?case
  proof (cases "k < k'")
    case True
    then show ?thesis using Cons.prems x by auto
  next
    case False
    then have lt: "k' < k" using Cons.prems(1) x by auto
    obtain es' where es': "map_emplace k v es = (True, es')" "set es' = insert (k, v) (set es)"
      "length es' = Suc (length es)" "sorted_wrt (<) (map fst es')"
      using Cons.IH Cons.prems by auto
    then have "sorted_wrt (<) (map fst (x # es'))" using Cons.prems(2) x lt by auto
    then show ?thesis using es' x False lt by auto
  qed
qed

lemma index_ok_snoc:
  assumes ok: "index_ok p ix" and e: "valid_extent e" and free: "range_of e \<inter> space p = {}"
  shows "\<exists>ix'. map_emplace (physical_address e) (length p) ix = (True, ix') \<and> index_ok (p @ [e]) ix'"
proof -
  have r: "length ix = length p" "sorted_wrt (<) (map fst ix)" "index_entries p ix"
    "\<forall>e \<in> set p. valid_extent e" "pairwise_disjoint p" using ok unfolding index_ok_iff by blast+
  have "physical_address e \<in> range_of e" using e by (simp add: range_of_def mem_ivl valid_extent_iff)
  then have "\<forall>x \<in> set p. physical_address e \<noteq> physical_address x"
    using free r(4) by (fastforce simp: space_def range_of_def mem_ivl valid_extent_iff)
  then have "physical_address e \<notin> fst ` set ix" using r(3) unfolding index_entries_def by (metis imageE nth_mem)
  from map_emplace_fresh [OF this r(2), of "length p"] obtain ix' where
    ix': "map_emplace (physical_address e) (length p) ix = (True, ix')"
      "set ix' = insert (physical_address e, length p) (set ix)" "length ix' = Suc (length ix)"
      "sorted_wrt (<) (map fst ix')" by blast
  have "index_entries (p @ [e]) ix'"
    using r(3) unfolding index_entries_def ix'(2) by (auto simp: nth_append)
  moreover have "pairwise_disjoint (p @ [e])"
  proof -
    have off: "range_of (p ! i) \<inter> range_of e = {}" if "i < length p" for i
      using free nth_mem [OF that] unfolding space_def by blast
    then show ?thesis
      using r(5) unfolding pairwise_disjoint_def by (auto simp: nth_append less_Suc_eq Int_commute [of "range_of e"])
  qed
  ultimately show ?thesis using ix' r(1,4) e by (auto simp: index_ok_iff)
qed

text \<open>The full invariant: staged allocations also keep off the committed ones.\<close>

definition staged_ok :: "SpacemanLedger \<Rightarrow> bool" where
  "staged_ok s \<longleftrightarrow> ledger_ok s \<and> space (committed_allocations s) \<inter> space (pending_allocations s) = {}"

lemma stageable_bytes_Some:
  assumes "stageable_bytes s a n = Some m"
  shows "m = AlignExtentBytes (geometry s) n" "0 < a" "0 < m" "a + m \<le> u64_max" "valid_extent (mk_extent a m)"
    "\<not> ExtentOverlapsReservedMetadata (geometry s) a m"
    "total_blocks (geometry s) \<noteq> 0 \<longrightarrow> a + m \<le> total_blocks (geometry s) * block_size (geometry s)"
  using assms
  by (auto simp: stageable_bytes_def Let_def valid_extent_iff container_limit_def split: if_splits option.splits)

lemma StageSpacemanAllocation_cases:
  assumes ok: "staged_ok s" and st: "StageSpacemanAllocation s a n = (b, s')"
  obtains (refused) "\<not> b" "s' = s"
  | (staged) m ix where "b" "m = AlignExtentBytes (geometry s) n" "clean_range s a m"
      "s' = s\<lparr>pending_allocations := pending_allocations s @ [mk_extent a m], pending_allocation_index := ix\<rparr>"
      "staged_ok s'"
proof (cases "stageable_bytes s a n")
  case None
  then show ?thesis using st refused by (simp add: StageSpacemanAllocation_def)
next
  case (Some m)
  note m = stageable_bytes_Some [OF Some]
  have p: "pending_ok s" "ledger_ok s" using ok by (simp_all add: staged_ok_def ledger_ok_def)
  show ?thesis
  proof (cases "ExtentOverlapsLiveAllocation s a m")
    case True
    then show ?thesis using st Some refused by (simp add: StageSpacemanAllocation_def)
  next
    case False
    then have live: "ivl a m \<inter> live_space s = {}"
      using ExtentOverlapsLiveAllocation_exact [OF p(1) m(2-4)] by simp
    then have free: "range_of (mk_extent a m) \<inter> space (pending_allocations s) = {}"
      "ivl a m \<inter> space (committed_allocations s) = {}"
      using live_space_ok [OF p(2)] by auto
    obtain ix where ix: "map_emplace a (length (pending_allocations s)) (pending_allocation_index s) = (True, ix)"
      "index_ok (pending_allocations s @ [mk_extent a m]) ix"
      using index_ok_snoc [OF p(1) m(5) free(1)] by auto
    have s': "b" "s' = s\<lparr>pending_allocations := pending_allocations s @ [mk_extent a m], pending_allocation_index := ix\<rparr>"
      using st Some False ix(1) by (simp_all add: StageSpacemanAllocation_def)
    have "staged_ok s'"
      using ok ix(2) free(2) unfolding staged_ok_def ledger_ok_def s'(2) by auto
    moreover have "clean_range s a m"
      using m live reserved_space_disjoint [OF m(6)] unfolding clean_range_def ExtentOverlapsReservedMetadata_iff
      by simp
    ultimately show ?thesis using staged s' m(1) by blast
  qed
qed

lemma StageSpacemanDeallocation_ok:
  assumes "staged_ok s" and "StageSpacemanDeallocation s a n = (b, s')"
  shows "staged_ok s'"
  using assms stageable_bytes_Some(5) [of s a n]
  by (auto simp: StageSpacemanDeallocation_def staged_ok_def ledger_ok_def split: option.splits)

text \<open>Erasing position \<open>i\<close>: the later positions move down by one.\<close>

definition drop_at :: "nat \<Rightarrow> 'a list \<Rightarrow> 'a list" where
  "drop_at i xs = take i xs @ drop (Suc i) xs"

lemma drop_at_nth:
  "i < length xs \<Longrightarrow> j < length xs - 1 \<Longrightarrow> drop_at i xs ! j = xs ! (if j < i then j else Suc j)"
  by (auto simp: drop_at_def nth_append min_def)

lemma drop_at_length [simp]: "i < length xs \<Longrightarrow> length (drop_at i xs) = length xs - 1"
  by (simp add: drop_at_def)

lemma drop_at_set: "set (drop_at i xs) \<subseteq> set xs"
  by (auto simp: drop_at_def dest: in_set_takeD in_set_dropD)

definition shifted :: "nat \<Rightarrow> nat \<Rightarrow> (nat \<times> nat) list \<Rightarrow> (nat \<times> nat) list" where
  "shifted i key ix = map (\<lambda>(k, tracked). (k, if tracked > i then tracked - 1 else tracked))
     (filter (\<lambda>entry. fst entry \<noteq> key) ix)"

lemma shifted_keys: "map fst (shifted i key ix) = filter (\<lambda>k. k \<noteq> key) (map fst ix)"
  by (induction ix) (auto simp: shifted_def)

lemma length_filter_neq: "distinct xs \<Longrightarrow> x \<in> set xs \<Longrightarrow> length (filter (\<lambda>k. k \<noteq> x) xs) = length xs - 1"
proof (induction xs)
  case (Cons a xs)
  show ?case
  proof (cases "a = x")
    case True
    then have "filter (\<lambda>k. k \<noteq> x) xs = xs" using Cons.prems(1) by (intro filter_True) auto
    then show ?thesis using True by simp
  next
    case False
    then show ?thesis using Cons by (cases xs) auto
  qed
qed simp

lemma index_ok_drop_at:
  assumes ok: "index_ok p ix" and i: "i < length p"
  shows "index_ok (drop_at i p) (shifted i (physical_address (p ! i)) ix)"
proof -
  let ?key = "physical_address (p ! i)"
  have r: "length ix = length p" "sorted_wrt (<) (map fst ix)" "index_entries p ix"
    "\<forall>e \<in> set p. valid_extent e" "pairwise_disjoint p" using ok unfolding index_ok_iff by blast+
  have uniq: "entry = (?key, i)" if "entry \<in> set ix" "fst entry = ?key" for entry
  proof -
    have "snd entry < length p" "physical_address (p ! snd entry) = ?key"
      using r(3) that by (auto simp: index_entries_def)
    then have "?key \<in> range_of (p ! snd entry) \<inter> range_of (p ! i)"
      using r(4) nth_mem [OF i] nth_mem [of "snd entry" p] by (auto simp: range_of_def mem_ivl valid_extent_iff)
    then have "\<not> (range_of (p ! snd entry) \<inter> range_of (p ! i) = {})" by blast
    then have "snd entry = i" using r(5) i \<open>snd entry < length p\<close> by (auto simp: pairwise_disjoint_def)
    then show ?thesis using that(2) by (cases entry) simp
  qed
  have "i \<in> snd ` set ix" using indexed_positions [OF ok] i by simp
  then obtain entry where en: "entry \<in> set ix" "snd entry = i" by auto
  then have key: "?key \<in> set (map fst ix)" using r(3) by (auto simp: index_entries_def)
  have "distinct (map fst ix)" using r(2) strict_sorted_iff by blast
  then have "length (filter (\<lambda>k. k \<noteq> ?key) (map fst ix)) = length (map fst ix) - 1"
    using key by (rule length_filter_neq)
  then have len: "length (shifted i ?key ix) = length (drop_at i p)"
    using r(1) i shifted_keys [of i ?key ix] by (metis drop_at_length length_map)
  have "sorted_wrt (<) (map fst (shifted i ?key ix))"
    unfolding shifted_keys using r(2) by (rule sorted_wrt_filter)
  moreover have "index_entries (drop_at i p) (shifted i ?key ix)"
    unfolding index_entries_def
  proof
    fix x assume "x \<in> set (shifted i ?key ix)"
    then obtain k t where kt: "(k, t) \<in> set ix" "k \<noteq> ?key" "x = (k, if t > i then t - 1 else t)"
      by (auto simp: shifted_def)
    then have t: "t < length p" "physical_address (p ! t) = k" using r(3) by (auto simp: index_entries_def)
    then have "t \<noteq> i" using kt(2) by auto
    then have "drop_at i p ! (if t > i then t - 1 else t) = p ! t" "(if t > i then t - 1 else t) < length p - 1"
      using t(1) i by (auto simp: drop_at_nth)
    then show "snd x < length (drop_at i p) \<and> physical_address (drop_at i p ! snd x) = fst x"
      using kt(3) t(2) i by simp
  qed
  moreover have "pairwise_disjoint (drop_at i p)"
    unfolding pairwise_disjoint_def
  proof (intro allI impI)
    fix a b assume ab: "a < length (drop_at i p)" "b < length (drop_at i p)" "a \<noteq> b"
    let ?f = "\<lambda>j. if j < i then j else Suc j"
    have "?f a \<noteq> ?f b" "?f a < length p" "?f b < length p" using ab i by auto
    then show "range_of (drop_at i p ! a) \<inter> range_of (drop_at i p ! b) = {}"
      using r(5) ab i unfolding pairwise_disjoint_def by (simp add: drop_at_nth)
  qed
  ultimately show ?thesis using len r(4) drop_at_set [of i p] unfolding index_ok_iff by blast
qed

lemma Erase_unified:
  assumes ok: "pending_ok s" and i: "i < length (pending_allocations s)"
  shows "ErasePendingSpacemanAllocationAt s i =
    s\<lparr>pending_allocations := drop_at i (pending_allocations s),
      pending_allocation_index := shifted i (physical_address (pending_allocations s ! i)) (pending_allocation_index s)\<rparr>"
proof (cases "i + 1 = length (pending_allocations s)")
  case False
  then show ?thesis using i by (simp add: ErasePendingSpacemanAllocationAt_def drop_at_def shifted_def Let_def)
next
  case True
  have "snd entry \<le> i" if "entry \<in> set (pending_allocation_index s)" for entry
    using index_okD(2) [OF ok] that True by (metis Suc_eq_plus1 less_Suc_eq_le)
  then have "shifted i k (pending_allocation_index s) = filter (\<lambda>entry. fst entry \<noteq> k) (pending_allocation_index s)" for k
    by (force simp: shifted_def intro!: map_idI)
  moreover have "drop_at i (pending_allocations s) = butlast (pending_allocations s)"
    using True by (simp add: drop_at_def butlast_conv_take flip: True)
  ultimately show ?thesis using i True by (simp add: ErasePendingSpacemanAllocationAt_def Let_def)
qed

lemma space_subset: "set xs \<subseteq> set ys \<Longrightarrow> space xs \<subseteq> space ys"
  by (auto simp: space_def)

lemma Erase_ok:
  assumes "staged_ok s"
  shows "staged_ok (ErasePendingSpacemanAllocationAt s i)"
proof (cases "i < length (pending_allocations s)")
  case True
  have p: "pending_ok s" using assms by (simp add: staged_ok_def ledger_ok_def)
  show ?thesis
    using assms index_ok_drop_at [OF p True] space_subset [OF drop_at_set [of i "pending_allocations s"]]
    unfolding Erase_unified [OF p True] staged_ok_def ledger_ok_def by auto
qed (use assms in \<open>simp add: ErasePendingSpacemanAllocationAt_def\<close>)

section \<open>Freeing\<close>

lemma PhysicalRangeContains_subset:
  assumes "PhysicalRangeContains c m a n"
  shows "ivl a n \<subseteq> ivl c m"
  using assms by (auto simp: PhysicalRangeContains_def mem_ivl split: if_splits)

lemma EffectiveLive_clear:
  assumes ok: "ledger_ok s" and v: "0 < a" "0 < n" "a + n \<le> u64_max"
    and clear: "\<not> ExtentOverlapsEffectiveLiveAllocation s a n"
  shows "ivl a n \<inter> (live_space s - space (pending_deallocations s)) = {}"
proof -
  have "range_of e \<inter> ivl a n \<subseteq> space (pending_deallocations s)"
    if e: "e \<in> set (committed_allocations s @ pending_allocations s)" for e
  proof (cases "overlaps_allocation a (a + n) e")
    case True
    have g: "\<not> (a = 0 \<or> n = 0 \<or> a > u64_max - n)" using v by auto
    have "list_ex (\<lambda>d. PhysicalRangeContains (physical_address d) (bytes d) (physical_address e) (bytes e))
        (pending_deallocations s)"
      using clear e True g unfolding ExtentOverlapsEffectiveLiveAllocation_def Let_def list_ex_iff by auto
    then obtain d where "d \<in> set (pending_deallocations s)" "range_of e \<subseteq> range_of d"
      using PhysicalRangeContains_subset unfolding list_ex_iff range_of_def by metis
    then show ?thesis unfolding space_def by blast
  next
    case False
    have "valid_extent e" using e ok pending_valid by (auto simp: ledger_ok_def)
    then show ?thesis using False overlaps_allocation_iff [OF v(2)] by blast
  qed
  then show ?thesis unfolding live_space_ok [OF ok] space_def by blast
qed

lemma FreeExtent_cases:
  assumes ok: "staged_ok s" and f: "FreeExtent cached s a n undo = (b, undo', s')"
  obtains (refused) "\<not> b" "s' = s"
  | (freed) m where "b" "m = AlignExtentBytes (geometry s) n" "0 < m" "n \<le> m" "0 < a"
      "\<not> ExtentOverlapsReservedMetadata (geometry s) a m" "staged_ok s'"
      "space (working_free s') \<inter> ivl a m = ivl a m - (live_space s - space (pending_deallocations s))"
      "space (working_free s') \<subseteq> space (working_free s) \<union> ivl a m"
      "\<exists>fs x y. s' = s\<lparr>working_free := fs, working_free_sanitized := x, untracked_free_delta := y\<rparr>"
proof -
  let ?m = "AlignExtentBytes (geometry s) n"
  have lok: "ledger_ok s" using ok by (simp add: staged_ok_def)
  define go where "go = (\<not> immutable_snapshot_view s \<and> container_loaded s \<and> spaceman_loaded s \<and> a \<noteq> 0 \<and> n \<noteq> 0 \<and>
      ?m \<noteq> 0 \<and> \<not> a > u64_max - ?m \<and>
      \<not> (case container_limit (geometry s) of None \<Rightarrow> True | Some None \<Rightarrow> False | Some (Some limit) \<Rightarrow> a + ?m > limit) \<and>
      \<not> ExtentOverlapsReservedMetadata (geometry s) a ?m)"
  show ?thesis
  proof (cases go)
    case False
    then have "FreeExtent cached s a n undo = (False, undo, s)"
      unfolding go_def FreeExtent_def Let_def by (simp only: de_Morgan_conj not_not) (elim disjE; simp)
    then show ?thesis using f refused by simp
  next
    case True
    then have m: "0 < ?m" "0 < a" "a + ?m \<le> u64_max" "n \<le> ?m"
      "\<not> ExtentOverlapsReservedMetadata (geometry s) a ?m"
      using AlignExtentBytes_props(2) [of "geometry s" n] by (auto simp: go_def)
    have ve: "valid_extent (mk_extent a ?m)" using m by (simp add: valid_extent_iff)
    obtain fs u where add: "AddFreeExtent (working_free s) (mk_extent a ?m) undo = (True, fs, u)"
      "IsSortedAndValid fs" "space fs = space (working_free s) \<union> ivl a ?m"
      using AddFreeExtent_ok [OF _ ve, of "working_free s" undo] lok by (auto simp: ledger_ok_def)
    define s1 where "s1 = s\<lparr>working_free := fs, untracked_free_delta := untracked_free_delta s \<or> \<not> tracking_free_delta s\<rparr>"
    have s1: "ledger_ok s1" "staged_ok s1" "live_space s1 = live_space s" "pending_deallocations s1 = pending_deallocations s"
      using ok add(2) by (simp_all add: s1_def ledger_ok_def staged_ok_def live_space_def)
    have run: "(b, undo', s') = (if \<not> ExtentOverlapsEffectiveLiveAllocation s1 a ?m then (True, u, s1)
        else let (ok, s'') = SanitizeWorkingFreeExtents cached (s1\<lparr>working_free_sanitized := False\<rparr>) in (ok, u, s''))"
    proof -
      have "(if \<not> tracking_free_delta (s\<lparr>working_free := fs\<rparr>) then s\<lparr>working_free := fs, untracked_free_delta := True\<rparr>
          else s\<lparr>working_free := fs\<rparr>) = s1" by (simp add: s1_def)
      then show ?thesis using f [symmetric] True add(1) unfolding go_def FreeExtent_def Let_def by simp
    qed
    show ?thesis
    proof (cases "ExtentOverlapsEffectiveLiveAllocation s1 a ?m")
      case False
      have clear: "ivl a ?m \<inter> (live_space s - space (pending_deallocations s)) = {}"
        using EffectiveLive_clear [OF s1(1) m(2,1,3) False] s1(3,4) by simp
      have s': "b" "s' = s1" using run False by simp_all
      have fs: "working_free s' = fs" unfolding s'(2) by (simp add: s1_def)
      show ?thesis
      proof (rule freed [of ?m])
        show "space (working_free s') \<inter> ivl a ?m = ivl a ?m - (live_space s - space (pending_deallocations s))"
          "space (working_free s') \<subseteq> space (working_free s) \<union> ivl a ?m"
          unfolding fs add(3) using clear by blast+
        have "s' = s\<lparr>working_free := fs, working_free_sanitized := working_free_sanitized s,
            untracked_free_delta := untracked_free_delta s \<or> \<not> tracking_free_delta s\<rparr>" unfolding s'(2) by (simp add: s1_def)
        then show "\<exists>fs x y. s' = s\<lparr>working_free := fs, working_free_sanitized := x, untracked_free_delta := y\<rparr>" by blast
        show "staged_ok s'" using s1(2) s'(2) by simp
      qed (use m s' in simp_all)
    next
      case over: True
      let ?s2 = "s1\<lparr>working_free_sanitized := False\<rparr>"
      have ok2: "ledger_ok ?s2" using s1(1) by (simp add: ledger_ok_def)
      obtain gs where gs: "SanitizeWorkingFreeExtents False ?s2 =
          (True, ?s2\<lparr>working_free := gs, working_free_sanitized := True\<rparr>)" "IsSortedAndValid gs"
        "space gs = space fs - (live_space s - space (pending_deallocations s))"
        using Sanitize_computes [OF ok2] live_space_ok [OF lok] by (auto simp: s1_def)
      have "SanitizeWorkingFreeExtents cached ?s2 = SanitizeWorkingFreeExtents False ?s2"
        by (simp add: SanitizeWorkingFreeExtents_def)
      then have s': "b" "s' = ?s2\<lparr>working_free := gs, working_free_sanitized := True\<rparr>"
        using run over gs(1) by simp_all
      have st: "staged_ok s'" using s1(2) gs(2) unfolding s'(2) by (simp add: staged_ok_def ledger_ok_def)
      have sp: "space (working_free s') \<inter> ivl a ?m = ivl a ?m - (live_space s - space (pending_deallocations s))"
        "space (working_free s') \<subseteq> space (working_free s) \<union> ivl a ?m"
        using gs(3) add(3) s'(2) by auto
      have "s' = s\<lparr>working_free := gs, working_free_sanitized := True,
          untracked_free_delta := untracked_free_delta s \<or> \<not> tracking_free_delta s\<rparr>" unfolding s'(2) s1_def by simp
      then have "\<exists>fs x y. s' = s\<lparr>working_free := fs, working_free_sanitized := x, untracked_free_delta := y\<rparr>" by blast
      then show ?thesis using m s'(1) st sp by (intro freed [of ?m]) simp_all
    qed
  qed
qed

text \<open>
  When \<^verbatim>\<open>FreeExtent\<close> accepts a range, exactly those of its addresses become free that
  are not held by a live allocation the transaction is not also giving back, nothing outside the
  range becomes free, and the ledger stays well formed; when it refuses, nothing changes.
\<close>

theorem FreeExtent_exact:
  assumes "staged_ok s" and "FreeExtent cached s a n undo = (b, undo', s')"
  shows "let m = AlignExtentBytes (geometry s) n in
     if b then space (working_free s') \<inter> ivl a m = ivl a m - (live_space s - space (pending_deallocations s)) \<and>
               space (working_free s') \<subseteq> space (working_free s) \<union> ivl a m \<and> staged_ok s'
     else s' = s"
  using assms by (cases rule: FreeExtent_cases) (simp_all add: Let_def)

theorem FreeExtent_exact_witness:
  "\<exists>u s'. FreeExtent True sample_ledger 61440 4096
       \<lparr>valid = False, erase_begin = 0, erased_count = 0, erased_extents = [], inserted_without_erasing = False\<rparr> =
       (True, u, s') \<and> space (working_free s') \<inter> ivl 61440 4096 =
         ivl 61440 4096 - (live_space sample_ledger - space (pending_deallocations sample_ledger))"
proof -
  let ?undo = "\<lparr>valid = False, erase_begin = 0, erased_count = 0, erased_extents = [], inserted_without_erasing = False\<rparr>"
  have ok: "staged_ok sample_ledger" using sample_ledger_ok by (simp add: staged_ok_def sample_ledger_def)
  obtain b u s' where f: "FreeExtent True sample_ledger 61440 4096 ?undo = (b, u, s')" by (metis prod_cases3)
  have "fst (FreeExtent True sample_ledger 61440 4096 ?undo)"
    by (simp add: FreeExtent_def ExtentOverlapsEffectiveLiveAllocation_def AddFreeExtent_def IsSortedAndValid_def
        lower_bound_def merge_backward.simps merge_forward.simps ledger_eval)
  then have "b" using f by simp
  moreover have "AlignExtentBytes (geometry sample_ledger) 4096 = 4096" by (simp add: ledger_eval)
  ultimately show ?thesis using f FreeExtent_exact [OF ok f] unfolding Let_def by auto
qed

section \<open>Growing and releasing staged allocations\<close>

lemma consume_free_extent_ok:
  assumes "IsSortedAndValid fs" and "0 < n" and "consume_free_extent a (a + n) fs = Some fs'"
  shows "IsSortedAndValid fs' \<and> space fs' = space fs - ivl a n \<and> ivl a n \<subseteq> space fs \<and>
    (\<forall>x \<in> set fs'. \<exists>y \<in> set fs. within y x)"
  using assms
proof (induction fs arbitrary: fs')
  case Nil
  then show ?case by simp
next
  case (Cons e es)
  let ?p = "physical_address e" let ?z = "?p + bytes e"
  have v: "valid_extent e" "IsSortedAndValid es" "\<forall>x \<in> set es. gap e x"
    using Cons.prems(1) by (simp_all add: IsSortedAndValid_Cons)
  have p: "0 < ?p" "0 < bytes e" "\<not> ?p > u64_max - bytes e" "?z \<le> u64_max"
    using v(1) valid_extent_end [OF v(1)] by (auto simp: valid_extent_iff)
  have far: "y \<notin> space es" if "y \<le> ?z" for y
    using v(3) that by (fastforce simp: space_def gap_def range_of_def mem_ivl)
  show ?case
  proof (cases "?p > a \<or> ?z < a + n")
    case True
    then obtain gs where gs: "consume_free_extent a (a + n) es = Some gs" "fs' = e # gs"
      using Cons.prems(3) p(3) by (auto simp: Let_def)
    note ih = Cons.IH [OF v(2) Cons.prems(2) gs(1)]
    have g: "\<forall>x \<in> set gs. gap e x"
    proof
      fix x assume "x \<in> set gs"
      then obtain y where "y \<in> set es" "within y x" using ih by blast
      then show "gap e x" using v(3) within_gap [of e e y x] by auto
    qed
    have "x \<notin> ivl a n" if "x \<in> range_of e" for x
    proof -
      have "x \<le> ?z" using that by (simp add: range_of_def mem_ivl)
      then show ?thesis using far ih by blast
    qed
    then have "range_of e \<inter> ivl a n = {}" by blast
    then show ?thesis using gs(2) ih v(1) g by (auto simp: IsSortedAndValid_Cons)
  next
    case False
    define l where "l = (if ?p = a then [] else [e\<lparr>bytes := a - ?p\<rparr>])"
    define r where "r = (if ?z = a + n then [] else [mk_extent (a + n) (?z - (a + n))])"
    have fs': "fs' = l @ r @ es"
      using Cons.prems(3) False p(3) by (auto simp: Let_def l_def r_def split: if_splits)
    have w: "\<forall>x \<in> set (l @ r). within e x \<and> valid_extent x"
      using False p Cons.prems(2) by (auto simp: l_def r_def within_def valid_extent_iff split: if_splits)
    have "sorted_wrt gap (l @ r)" using False Cons.prems(2) by (auto simp: l_def r_def gap_def)
    then have lr: "IsSortedAndValid (l @ r)" using w by (simp add: IsSortedAndValid_iff)
    have "gap x y" if "x \<in> set (l @ r)" "y \<in> set es" for x y
      using w that v(3) within_gap [of e x y y] by auto
    then have can: "IsSortedAndValid fs'"
      using lr v(2) unfolding fs' append_assoc [symmetric] IsSortedAndValid_append [of "l @ r"] by blast
    have "space (l @ r) = range_of e - ivl a n"
      using False by (auto simp: l_def r_def range_of_def mem_ivl)
    moreover have "ivl a n \<inter> space es = {}" using far False by (fastforce simp: mem_ivl)
    ultimately have "space fs' = space (e # es) - ivl a n" unfolding fs' by auto
    moreover have "ivl a n \<subseteq> space (e # es)" using False by (auto simp: range_of_def mem_ivl)
    moreover have "\<forall>x \<in> set fs'. \<exists>y \<in> set (e # es). within y x"
      using w unfolding fs' by (auto intro: within_refl)
    ultimately show ?thesis using can by blast
  qed
qed

lemma index_ok_update:
  assumes ok: "index_ok p ix" and i: "i < length p" and e: "valid_extent e"
    "physical_address e = physical_address (p ! i)"
    and free: "\<forall>j < length p. j \<noteq> i \<longrightarrow> range_of e \<inter> range_of (p ! j) = {}"
  shows "index_ok (p[i := e]) ix"
proof -
  have r: "length ix = length p" "sorted_wrt (<) (map fst ix)" "index_entries p ix"
    "\<forall>e \<in> set p. valid_extent e" "pairwise_disjoint p" using ok unfolding index_ok_iff by blast+
  have "physical_address (p[i := e] ! j) = physical_address (p ! j)" for j
    using i e(2) by (cases "j = i") auto
  then have "index_entries (p[i := e]) ix" using r(3) by (simp add: index_entries_def)
  moreover have "pairwise_disjoint (p[i := e])"
    unfolding pairwise_disjoint_def
  proof (intro allI impI)
    fix a b assume ab: "a < length (p[i := e])" "b < length (p[i := e])" "a \<noteq> b"
    show "range_of (p[i := e] ! a) \<inter> range_of (p[i := e] ! b) = {}"
      using r(5) free ab i by (cases "a = i"; cases "b = i") (auto simp: pairwise_disjoint_def)
  qed
  moreover have "\<forall>x \<in> set (p[i := e]). valid_extent x" using r(4) e(1) set_update_subset_insert [of p i e] by blast
  ultimately show ?thesis using r(1,2) by (simp add: index_ok_iff)
qed

lemma FindPending_Some:
  "FindPendingSpacemanAllocationIndex s a = Some i \<Longrightarrow>
     i < length (pending_allocations s) \<and> physical_address (pending_allocations s ! i) = a"
  by (auto simp: FindPendingSpacemanAllocationIndex_def split: if_splits option.splits)

lemma Resize_ok:
  assumes ok: "staged_ok s" and i: "i < length (pending_allocations s)"
    and grow: "bytes (pending_allocations s ! i) = m" "m \<le> n" "physical_address (pending_allocations s ! i) = a"
    and fit: "a + n \<le> u64_max" and free: "ivl (a + m) (n - m) \<inter> live_space s = {}"
  shows "staged_ok (ResizePendingSpacemanAllocationAt s i n)"
proof -
  let ?p = "pending_allocations s" let ?e = "(?p ! i)\<lparr>bytes := n\<rparr>"
  have l: "ledger_ok s" "pending_ok s" using ok by (simp_all add: staged_ok_def ledger_ok_def)
  have live: "live_space s = space (committed_allocations s) \<union> space ?p" using live_space_ok [OF l(1)] by simp
  have v: "valid_extent (?p ! i)" using pending_valid [OF l(2)] nth_mem [OF i] by blast
  then have ve: "valid_extent ?e" using grow fit by (auto simp: valid_extent_iff)
  have range: "range_of ?e = range_of (?p ! i) \<union> ivl (a + m) (n - m)"
    using grow by (auto simp: range_of_def mem_ivl)
  have pd: "pairwise_disjoint ?p" using l(2) by (simp add: index_ok_iff)
  have "range_of ?e \<inter> range_of (?p ! j) = {}" if "j < length ?p" "j \<noteq> i" for j
  proof -
    have "range_of (?p ! j) \<subseteq> live_space s" using nth_mem [OF that(1)] unfolding live space_def by blast
    then show ?thesis using pd that i free unfolding range pairwise_disjoint_def by blast
  qed
  then have ix: "index_ok (?p[i := ?e]) (pending_allocation_index s)"
    using index_ok_update [OF l(2) i ve] grow(3) by simp
  have "space (?p[i := ?e]) \<subseteq> space ?p \<union> ivl (a + m) (n - m)"
  proof -
    have "range_of ?e \<subseteq> space ?p \<union> ivl (a + m) (n - m)" using range nth_mem [OF i] unfolding space_def by blast
    then show ?thesis using set_update_subset_insert [of ?p i ?e] unfolding space_def by blast
  qed
  moreover have "ivl (a + m) (n - m) \<inter> space (committed_allocations s) = {}" using free live by blast
  ultimately have "space (committed_allocations s) \<inter> space (?p[i := ?e]) = {}"
    using ok unfolding staged_ok_def by blast
  then show ?thesis
    using ok i ix unfolding staged_ok_def ledger_ok_def ResizePendingSpacemanAllocationAt_def by simp
qed

lemma extend_pending_ok:
  assumes ok: "staged_ok s" and x: "extend_pending_allocation cached s a m required = (r, s')"
  shows "staged_ok s'"
proof -
  let ?n = "StreamingGrowthReservationBytes (geometry s) m required"
  have l: "ledger_ok s" "pending_ok s" using ok by (simp_all add: staged_ok_def ledger_ok_def)
  obtain b s1 where s1: "SanitizeWorkingFreeExtents cached s = (b, s1)" by fastforce
  note c = Sanitize_cases [OF l(1) s1]
  obtain fs0 b0 where e: "s1 = s\<lparr>working_free := fs0, working_free_sanitized := b0\<rparr>" using c(4) by blast
  have st1: "staged_ok s1" using ok c(2) unfolding staged_ok_def e by simp
  have live1: "live_space s1 = live_space s" "pending_allocations s1 = pending_allocations s"
    unfolding e by (simp_all add: live_space_def)
  define go where "go = (\<not> (?n < required \<or> a > u64_max - ?n) \<and>
      \<not> (case container_limit (geometry s) of None \<Rightarrow> True | Some None \<Rightarrow> False | Some (Some limit) \<Rightarrow> a + ?n > limit) \<and>
      \<not> (?n - m = 0 \<or> a + m > u64_max - (?n - m) \<or> ExtentOverlapsReservedMetadata (geometry s) (a + m) (?n - m) \<or>
         ExtentOverlapsLiveAllocation s (a + m) (?n - m)))"
  show ?thesis
  proof (cases "go \<and> (\<exists>i. FindPendingSpacemanAllocationIndex s a = Some i \<and> bytes (pending_allocations s ! i) = m)")
    case False
    then have "s' = s"
      using x unfolding go_def extend_pending_allocation_def Let_def
      by (auto split: if_splits option.splits)
    then show ?thesis using ok by simp
  next
    case True
    then obtain i where i: "FindPendingSpacemanAllocationIndex s a = Some i" "bytes (pending_allocations s ! i) = m"
      and go: go by blast
    note p = FindPending_Some [OF i(1)]
    have bounds: "m < ?n" "a + ?n \<le> u64_max" "0 < a"
    proof -
      have "valid_extent (pending_allocations s ! i)" using pending_valid [OF l(2)] p nth_mem by blast
      then show a: "0 < a" using p by (simp add: valid_extent_iff)
      have "\<not> a > u64_max - ?n" "?n - m \<noteq> 0" using go by (simp_all add: go_def)
      then show "m < ?n" "a + ?n \<le> u64_max" using a by linarith+
    qed
    have free: "ivl (a + m) (?n - m) \<inter> live_space s1 = {}"
      using go ExtentOverlapsLiveAllocation_exact [OF l(2), of "a + m" "?n - m"] bounds live1(1)
      by (auto simp: go_def)
    have resize: "staged_ok (ResizePendingSpacemanAllocationAt t i ?n)"
      if "staged_ok t" "pending_allocations t = pending_allocations s1" "live_space t = live_space s1" for t
      using Resize_ok [OF that(1), of i m ?n a] that p i(2) bounds free live1(2) by simp
    have run: "(r, s') = (if working_next_ephemeral_extent s1 = a + m then
          (Some ?n, ResizePendingSpacemanAllocationAt
             (s1\<lparr>working_next_ephemeral_extent := working_next_ephemeral_extent s1 + (?n - m)\<rparr>) i ?n)
        else case try_consume_free_extent_for_pending_extension (working_free s1) (a + m) (?n - m) of
          None \<Rightarrow> (None, s1)
        | Some fs \<Rightarrow> (Some ?n, ResizePendingSpacemanAllocationAt (s1\<lparr>working_free := fs\<rparr>) i ?n))"
    proof -
      have g: "(?n < required \<or> a > u64_max - ?n) = False"
        "(case container_limit (geometry s) of None \<Rightarrow> True | Some None \<Rightarrow> False | Some (Some limit) \<Rightarrow> a + ?n > limit) = False"
        "(?n - m = 0 \<or> a + m > u64_max - (?n - m) \<or> ExtentOverlapsReservedMetadata (geometry s) (a + m) (?n - m) \<or>
         ExtentOverlapsLiveAllocation s (a + m) (?n - m)) = False"
        using go unfolding go_def by blast+
      show ?thesis
        using x c(1) unfolding extend_pending_allocation_def Let_def g if_False i s1 option.case prod.case by simp
    qed
    show ?thesis
    proof (cases "working_next_ephemeral_extent s1 = a + m")
      case True
      then show ?thesis
        using run resize [of "s1\<lparr>working_next_ephemeral_extent := working_next_ephemeral_extent s1 + (?n - m)\<rparr>"] st1
        by (simp add: staged_ok_def ledger_ok_def live_space_def)
    next
      case False
      show ?thesis
      proof (cases "try_consume_free_extent_for_pending_extension (working_free s1) (a + m) (?n - m)")
        case None
        then show ?thesis using run False st1 by simp
      next
        case (Some fs)
        have canonical: "IsSortedAndValid (working_free s1)" "0 < ?n - m"
          using c(2) bounds(1) by (simp_all add: ledger_ok_def)
        have "consume_free_extent (a + m) (a + m + (?n - m)) (working_free s1) = Some fs"
          using Some unfolding try_consume_free_extent_for_pending_extension_def by (metis option.distinct(1))
        then have "IsSortedAndValid fs" using consume_free_extent_ok [OF canonical] by blast
        then have "staged_ok (s1\<lparr>working_free := fs\<rparr>)" using st1 by (simp add: staged_ok_def ledger_ok_def)
        then show ?thesis
          using run False Some resize [of "s1\<lparr>working_free := fs\<rparr>"] by (simp add: live_space_def)
      qed
    qed
  qed
qed

lemma Release_ok:
  assumes ok: "staged_ok s" and r: "ReleasePendingSpacemanAllocation cached s a n = (b, s')"
  shows "staged_ok s'"
proof -
  let ?undo = "\<lparr>valid = False, erase_begin = 0, erased_count = 0, erased_extents = [], inserted_without_erasing = False\<rparr>"
  let ?m = "AlignExtentBytes (geometry s) n"
  consider "s' = s" | i where "FindPendingSpacemanAllocationIndex s a = Some i"
      "case FreeExtent cached ((ErasePendingSpacemanAllocationAt s i)\<lparr>tracking_free_delta := True\<rparr>) a ?m ?undo of
         (_, _, t) \<Rightarrow> s' = t\<lparr>tracking_free_delta := False\<rparr>"
    using r unfolding ReleasePendingSpacemanAllocation_def Let_def
    by (auto split: if_splits option.splits prod.splits)
  then show ?thesis
  proof cases
    case 1
    then show ?thesis using ok by simp
  next
    case (2 i)
    let ?s1 = "(ErasePendingSpacemanAllocationAt s i)\<lparr>tracking_free_delta := True\<rparr>"
    have s1: "staged_ok ?s1" using Erase_ok [OF ok, of i] by (simp add: staged_ok_def ledger_ok_def)
    obtain q u t where f: "FreeExtent cached ?s1 a ?m ?undo = (q, u, t)" by (metis prod_cases3)
    from s1 f have "staged_ok t" by (cases rule: FreeExtent_cases) (use s1 in simp_all)
    then show ?thesis using 2(2) f by (simp add: staged_ok_def ledger_ok_def)
  qed
qed

section \<open>Sequences of operations\<close>

datatype LedgerOperation =
  OpAllocate nat | OpAllocateFile nat | OpFree nat nat | OpStage nat nat | OpStageDeallocation nat nat
| OpErase nat | OpExtend nat nat nat | OpRelease nat nat | OpSanitize

fun ledger_step :: "bool \<Rightarrow> LedgerOperation \<Rightarrow> SpacemanLedger \<Rightarrow> SpacemanLedger" where
  "ledger_step cached (OpAllocate n) s = snd (AllocateExtent cached s n)"
| "ledger_step cached (OpAllocateFile n) s = snd (StoreAllocateFileExtents cached s n)"
| "ledger_step cached (OpFree a n) s =
     snd (snd (FreeExtent cached s a n \<lparr>valid = False, erase_begin = 0, erased_count = 0, erased_extents = [],
       inserted_without_erasing = False\<rparr>))"
| "ledger_step cached (OpStage a n) s = snd (StageSpacemanAllocation s a n)"
| "ledger_step cached (OpStageDeallocation a n) s = snd (StageSpacemanDeallocation s a n)"
| "ledger_step cached (OpErase i) s = ErasePendingSpacemanAllocationAt s i"
| "ledger_step cached (OpExtend a m required) s = snd (extend_pending_allocation cached s a m required)"
| "ledger_step cached (OpRelease a n) s = snd (ReleasePendingSpacemanAllocation cached s a n)"
| "ledger_step cached OpSanitize s = snd (SanitizeWorkingFreeExtents cached s)"

lemma ledger_step_ok: "staged_ok s \<Longrightarrow> staged_ok (ledger_step cached op s)"
proof (induction cached op s rule: ledger_step.induct)
  case (1 cached n s)
  obtain r s' where r: "AllocateExtent cached s n = (r, s')" by fastforce
  show ?case using AllocateExtent_ok [OF _ r] 1 r by (auto simp: staged_ok_def)
next
  case (2 cached n s)
  obtain r s' where r: "StoreAllocateFileExtents cached s n = (r, s')" by fastforce
  show ?case using StoreAllocateFileExtents_ok [OF _ r] 2 r by (auto simp: staged_ok_def)
next
  case (3 cached a n s)
  obtain b u s' where r: "FreeExtent cached s a n \<lparr>valid = False, erase_begin = 0, erased_count = 0,
      erased_extents = [], inserted_without_erasing = False\<rparr> = (b, u, s')" by (metis prod_cases3)
  from 3 r have "staged_ok s'" by (cases rule: FreeExtent_cases) (use 3 in simp_all)
  then show ?case using r by simp
next
  case (4 cached a n s)
  obtain b s' where r: "StageSpacemanAllocation s a n = (b, s')" by fastforce
  from 4 r have "staged_ok s'" by (cases rule: StageSpacemanAllocation_cases) (use 4 in simp_all)
  then show ?case using r by simp
next
  case (5 cached a n s)
  then show ?case using StageSpacemanDeallocation_ok by (metis ledger_step.simps(5) prod.collapse)
next
  case (6 cached i s)
  then show ?case using Erase_ok by simp
next
  case (7 cached a m required s)
  then show ?case using extend_pending_ok by (metis ledger_step.simps(7) prod.collapse)
next
  case (8 cached a n s)
  then show ?case using Release_ok by (metis ledger_step.simps(8) prod.collapse)
next
  case (9 cached s)
  obtain b s' where r: "SanitizeWorkingFreeExtents cached s = (b, s')" by fastforce
  have "ledger_ok s" using 9 by (simp add: staged_ok_def)
  from Sanitize_cases(2,4) [OF this r] show ?case using 9 r by (auto simp: staged_ok_def)
qed

text \<open>
  C31. Whatever sequence of allocations, releases, stagings, extensions and sanitizations is run
  on a well-formed ledger, accepted or refused, the ledger stays well formed: the working free
  list is canonical, the staged allocations are valid, pairwise disjoint, off the committed
  allocations and exactly indexed.
\<close>

theorem ledger_operations_preserve:
  assumes "staged_ok s"
  shows "staged_ok (fold (ledger_step cached) ops s)"
  using assms by (induction ops arbitrary: s) (simp_all add: ledger_step_ok)

theorem ledger_operations_preserve_witness:
  "staged_ok (fold (ledger_step True) [OpAllocate 5000, OpStage 49152 5000, OpFree 40960 4096,
     OpStageDeallocation 40960 4096, OpExtend 49152 8192 12288, OpRelease 49152 8192] sample_ledger)"
proof -
  have "staged_ok sample_ledger" using sample_ledger_ok by (simp add: staged_ok_def sample_ledger_def)
  then show ?thesis by (rule ledger_operations_preserve)
qed

end
