(* ===== verification/LedgerRecovery.thy ===== *)
theory LedgerRecovery
  imports LedgerAllocation
begin

text \<open>
  The ledger at the edges of a transaction: the choice of writable checkpoint slots, the search
  for the first clean range past an unavailable one, and the adoption of the extents recovered
  by the reader when a raw device is loaded for writing.
\<close>

section \<open>Checkpoint slots\<close>

lemma overlaps_linear_iff:
  assumes "\<forall>e \<in> set es. valid_extent e"
  shows "overlaps_linear a es \<longleftrightarrow> a \<in> space es"
proof -
  have "\<not> (bytes e = 0 \<or> physical_address e > u64_max - bytes e) \<and> physical_address e \<le> a \<and>
      a < physical_address e + bytes e \<longleftrightarrow> a \<in> range_of e" if "e \<in> set es" for e
    using assms that by (auto simp: valid_extent_iff range_of_def mem_ivl)
  then show ?thesis unfolding overlaps_linear_def list_ex_iff space_def by auto
qed

lemma sorted_extents_contain_iff:
  assumes "SpacemanExtentsAreSortedNonOverlapping es"
  shows "sorted_extents_contain es a \<longleftrightarrow> a \<in> space es"
proof -
  note d = sorted_nonoverlappingD [OF assms]
  define k where "k = length (takeWhile (\<lambda>e. \<not> a < physical_address e) es)"
  have kl: "k \<le> length es" unfolding k_def by (rule length_takeWhile_le)
  have tw: "takeWhile (\<lambda>e. \<not> a < physical_address e) es = take k es" unfolding k_def by (rule takeWhile_eq_take)
  have below: "physical_address (es ! i) \<le> a" if "i < k" for i
    using takeWhile_nth_prefix [of i "\<lambda>e. \<not> a < physical_address e" es] that unfolding k_def by simp
  have above: "a < physical_address (es ! i)" if "k \<le> i" "i < length es" for i
  proof -
    have "a < physical_address (es ! k)"
      using nth_length_takeWhile [of "\<lambda>e. \<not> a < physical_address e" es] that unfolding k_def by simp
    also have "\<dots> \<le> physical_address (es ! i)" using sorted_nth_mono [OF d(4) that(1)] that by simp
    finally show ?thesis .
  qed
  have "sorted_extents_contain es a \<longleftrightarrow> k \<noteq> 0 \<and> a < physical_address (es ! (k - 1)) + bytes (es ! (k - 1))"
    using kl last_take [OF _ kl] unfolding sorted_extents_contain_def Let_def tw by auto
  also have "\<dots> \<longleftrightarrow> (\<exists>i < length es. a \<in> range_of (es ! i))"
  proof
    assume k: "k \<noteq> 0 \<and> a < physical_address (es ! (k - 1)) + bytes (es ! (k - 1))"
    then show "\<exists>i < length es. a \<in> range_of (es ! i)"
      using kl below [of "k - 1"] by (intro exI [of _ "k - 1"]) (auto simp: range_of_def mem_ivl)
  next
    assume "\<exists>i < length es. a \<in> range_of (es ! i)"
    then obtain i where i: "i < length es" "physical_address (es ! i) \<le> a" "a < physical_address (es ! i) + bytes (es ! i)"
      by (auto simp: range_of_def mem_ivl)
    then have ik: "i < k" using above [of i] by (meson leD le_less_linear)
    have "i = k - 1"
    proof (rule ccontr)
      assume "i \<noteq> k - 1"
      then have "i < k - 1" "k - 1 < length es" using ik kl by linarith+
      then have "physical_address (es ! i) + bytes (es ! i) \<le> physical_address (es ! (k - 1))"
        using sorted_wrt_nth_less [OF d(2), of i "k - 1"] by (simp add: behind_def)
      then show False using below [of "k - 1"] ik i(3) by linarith
    qed
    then show "k \<noteq> 0 \<and> a < physical_address (es ! (k - 1)) + bytes (es ! (k - 1))" using i ik by auto
  qed
  also have "\<dots> \<longleftrightarrow> a \<in> space es" unfolding space_def UN_iff by (metis in_set_conv_nth)
  finally show ?thesis .
qed

lemma pending_index_contains_iff:
  assumes "pending_ok s"
  shows "pending_index_contains s a \<longleftrightarrow> a \<in> space (pending_allocations s)"
proof -
  let ?ix = "pending_allocation_index s" let ?es = "indexed (pending_allocations s) ?ix"
  define k where "k = length (takeWhile (\<lambda>entry. \<not> a < fst entry) ?ix)"
  note d = index_okD [OF assms]
  have kl: "k \<le> length ?ix" unfolding k_def by (rule length_takeWhile_le)
  have tw: "takeWhile (\<lambda>entry. \<not> a < fst entry) ?ix = take k ?ix" unfolding k_def by (rule takeWhile_eq_take)
  have "map physical_address (takeWhile (\<lambda>e. \<not> a < physical_address e) ?es) =
      map fst (takeWhile (\<lambda>entry. \<not> a < fst entry) ?ix)"
    using takeWhile_map [of "\<lambda>x. \<not> a < x" physical_address ?es] takeWhile_map [of "\<lambda>x. \<not> a < x" fst ?ix] d(3)
    by (simp add: comp_def)
  then have "length (takeWhile (\<lambda>e. \<not> a < physical_address e) ?es) = k" unfolding k_def by (metis length_map)
  then have tw': "takeWhile (\<lambda>e. \<not> a < physical_address e) ?es = take k ?es" by (metis takeWhile_eq_take)
  have len: "length ?es = length ?ix" by (simp add: indexed_def)
  have "pending_index_contains s a \<longleftrightarrow> sorted_extents_contain ?es a"
  proof (cases "k = 0")
    case True
    then show ?thesis unfolding pending_index_contains_def sorted_extents_contain_def Let_def tw tw' by simp
  next
    case False
    then have "last (take k ?es) = pending_allocations s ! snd (last (take k ?ix))"
      using last_take [of k ?es] last_take [of k ?ix] kl len by (simp add: indexed_def)
    then show ?thesis
      using False kl len unfolding pending_index_contains_def sorted_extents_contain_def Let_def tw tw' by auto
  qed
  then show ?thesis
    using sorted_extents_contain_iff [OF d(1)] space_cong_set [OF indexed_set [OF assms]] by simp
qed

text \<open>
  C32. The check that checkpoint slots may be written gives the same answer whether it uses the
  sorted allocations and the index or scans the lists: no slot is written that an allocation
  holds, and the fast path refuses nothing the scan accepts.
\<close>

theorem AreNativeCheckpointBlocksWritable_scan:
  "AreNativeCheckpointBlocksWritable slot_index_enabled s block_indices \<longleftrightarrow>
     block_indices \<noteq> [] \<and> block_size (geometry s) \<noteq> 0 \<and> scan_allocations s block_indices"
proof (cases "SpacemanExtentsAreSortedNonOverlapping (committed_allocations s) \<and> pending_ok s")
  case False
  then show ?thesis by (auto simp: AreNativeCheckpointBlocksWritable_def index_ok_def)
next
  case True
  have v: "\<forall>e \<in> set (committed_allocations s). valid_extent e" "\<forall>e \<in> set (pending_allocations s). valid_extent e"
    using True sorted_nonoverlappingD(1) pending_valid by blast+
  show ?thesis
    using True sorted_extents_contain_iff pending_index_contains_iff [of s] overlaps_linear_iff [OF v(1)]
      overlaps_linear_iff [OF v(2)]
    by (auto simp: AreNativeCheckpointBlocksWritable_def scan_allocations_def index_ok_def)
qed

section \<open>Advancing to the first clean range\<close>

lemma clean_range_not_reserved:
  assumes "clean_range s x n"
  shows "\<not> ExtentOverlapsReservedMetadata (geometry s) x n"
proof -
  let ?u = "block_unit (geometry s)"
  have "\<not> reserved_block (geometry s) b" if "x \<le> b * ?u" "b * ?u < x + n" for b
  proof -
    have "b * ?u \<in> ivl x n" using that by (simp add: mem_ivl)
    then have "b * ?u \<notin> reserved_space (geometry s)" using assms by (auto simp: clean_range_def)
    then show ?thesis by (simp add: reserved_space_def)
  qed
  then show ?thesis using assms unfolding ExtentOverlapsReservedMetadata_iff clean_range_def by blast
qed

lemma advance_reserved_first:
  assumes g: "block_size g = u" "0 < u" "n = r * u" "0 < r" "total_blocks g \<noteq> 0 \<Longrightarrow> total_blocks g * u \<le> u64_max"
  shows "case advance_reserved g n r c of
      Some x \<Rightarrow> c * u \<le> x \<and> u dvd x \<and> \<not> ExtentOverlapsReservedMetadata g x n \<and>
        (\<forall>y. c * u \<le> y \<and> y < x \<longrightarrow> ExtentOverlapsReservedMetadata g y n)
    | None \<Rightarrow> \<forall>y. c * u \<le> y \<and> (total_blocks g \<noteq> 0 \<longrightarrow> y + n \<le> total_blocks g * u) \<longrightarrow>
        ExtentOverlapsReservedMetadata g y n"
proof (induction "Suc u64_max - c" arbitrary: c rule: less_induct)
  case less
  have unit: "block_unit g = u" using g(1,2) by (simp add: block_unit_def)
  have blocked: "ExtentOverlapsReservedMetadata g y n"
    if "reserved_block g b" "c \<le> b" "b < c + r" "c * u \<le> y" "y < (b + 1) * u" for b y
  proof (rule ccontr)
    assume "\<not> ?thesis"
    then have y: "u dvd y" "\<forall>b. y \<le> b * u \<and> b * u < y + n \<longrightarrow> \<not> reserved_block g b"
      unfolding ExtentOverlapsReservedMetadata_iff unit by blast+
    obtain k where k: "y = k * u" using y(1) by (metis dvd_def mult.commute)
    have "c \<le> k" "k < b + 1" using that(4,5) g(2) unfolding k by (simp_all only: mult_le_cancel2 mult_less_cancel2)
    moreover have "y + n = (k + r) * u" unfolding k g(3) by (simp add: add_mult_distrib)
    ultimately have "y \<le> b * u" "b * u < y + n" using k g(2) that(3) by simp_all
    then show False using y(2) that(1) by blast
  qed
  have over: "ExtentOverlapsReservedMetadata g y n" if "y + n > u64_max" for y
    using that unfolding ExtentOverlapsReservedMetadata_def by (auto simp: Let_def)
  show ?case
  proof (cases "c > u64_max - (r - 1) \<or> c > u64_max div u")
    case True
    have "y + n > u64_max" if "c * u \<le> y" for y
    proof -
      have "u64_max < c + r \<or> u64_max < c * u"
        using True by (auto simp: div_less_iff_less_mult [OF g(2)] not_le)
      moreover have "c + r \<le> c * u + n" using g(2,3) by (simp flip: add_mult_distrib)
      ultimately show ?thesis using that by linarith
    qed
    then have "advance_reserved g n r c = None" "\<forall>y. c * u \<le> y \<longrightarrow> ExtentOverlapsReservedMetadata g y n"
      using True over g(1) by (auto simp: advance_reserved.simps [of g n r c])
    then show ?thesis by simp
  next
    case small: False
    show ?thesis
    proof (cases "total_blocks g \<noteq> 0 \<and> (r > total_blocks g \<or> c > total_blocks g - r)")
      case True
      then have "total_blocks g < c + r" by linarith
      then have "total_blocks g * u < c * u + n" using g(2,3) by (simp flip: add_mult_distrib)
      then have "\<not> (y + n \<le> total_blocks g * u)" if "c * u \<le> y" for y using that by linarith
      moreover have "advance_reserved g n r c = None" using True small g(1) by (auto simp: advance_reserved.simps [of g n r c])
      ultimately show ?thesis using True by (simp del: not_le) blast
    next
      case fits: False
      show ?thesis
      proof (cases "ExtentOverlapsReservedMetadata g (c * u) n")
        case False
        then have "advance_reserved g n r c = Some (c * u)"
          using small fits g(1) by (auto simp: advance_reserved.simps [of g n r c])
        then show ?thesis using False by auto
      next
        case True
        show ?thesis
        proof (cases "find (reserved_block g) [c..<c + r]")
          case None
          have "c * u + n > u64_max"
          proof (rule ccontr)
            assume small: "\<not> ?thesis"
            have none: "\<not> reserved_block g b" if "c * u \<le> b * u" "b * u < c * u + n" for b
              using None that g(2,3) unfolding find_None_iff by (simp flip: add_mult_distrib)
            have "0 < c"
            proof (rule ccontr)
              assume "\<not> 0 < c"
              moreover have "reserved_block g 0" by (simp add: reserved_block_def IsReservedMetadataBlock_def Let_def)
              ultimately show False using None g(4) unfolding find_None_iff by auto
            qed
            then have "0 < c * u \<and> 0 < n \<and> u dvd c * u \<and> u dvd n \<and> c * u + n \<le> u64_max"
              using g(2-4) small by simp
            then show False using True none ExtentOverlapsReservedMetadata_iff [of g "c * u" n] unfolding unit by blast
          qed
          then have "ExtentOverlapsReservedMetadata g y n" if "c * u \<le> y" for y using over that by simp
          moreover have "advance_reserved g n r c = None"
            using small fits True None g(1) by (simp add: advance_reserved.simps [of g n r c] Let_def)
          ultimately show ?thesis by simp
        next
          case (Some b)
          then have b: "reserved_block g b" "c \<le> b" "b < c + r" by (auto simp: find_Some_iff)
          note bl = blocked [OF b]
          show ?thesis
          proof (cases "b = u64_max")
            case True
            have "(b + 1) * u > u64_max" using True g(2) by (cases u) auto
            then have "ExtentOverlapsReservedMetadata g y n" if "c * u \<le> y" for y
              using bl [OF that] over [of y] by linarith
            moreover have "advance_reserved g n r c = None"
              using small fits \<open>ExtentOverlapsReservedMetadata g (c * u) n\<close> Some True g(1)
              by (simp add: advance_reserved.simps [of g n r c] Let_def)
            ultimately show ?thesis by simp
          next
            case False
            have eq: "advance_reserved g n r c = advance_reserved g n r (b + 1)"
              using small fits True Some False b(2) g(1) by (subst advance_reserved.simps) (auto simp: Let_def)
            have dec: "Suc u64_max - (b + 1) < Suc u64_max - c" using b(2) small by linarith
            have le: "c * u \<le> (b + 1) * u" using b(2) by (intro mult_le_mono1) simp
            have "ExtentOverlapsReservedMetadata g y n" if "c * u \<le> y" "(b + 1) * u \<le> y \<Longrightarrow> ExtentOverlapsReservedMetadata g y n" for y
              using that bl by (meson not_le)
            then show ?thesis
              using less.hyps [OF dec] le unfolding eq by (auto split: option.splits dest: order_trans)
          qed
        qed
      qed
    qed
  qed
qed

definition candidate_hit :: "nat \<Rightarrow> nat \<Rightarrow> nat option \<Rightarrow> SpacemanAllocation \<Rightarrow> bool" where
  "candidate_hit c z acc e = (valid_extent e \<and> c < physical_address e + bytes e \<and> physical_address e < z \<and>
     (case acc of None \<Rightarrow> True | Some x \<Rightarrow> physical_address e + bytes e < x))"

lemma consider_allocations_step:
  "consider_allocations c z acc (e # es) =
     consider_allocations c z (if candidate_hit c z acc e then Some (physical_address e + bytes e) else acc) es"
proof -
  have "valid_extent e \<longleftrightarrow> \<not> (physical_address e = 0 \<or> bytes e = 0 \<or> physical_address e > u64_max - bytes e)"
    by (auto simp: valid_extent_iff)
  then show ?thesis by (auto simp: candidate_hit_def Let_def)
qed

lemma consider_allocations_spec:
  "consider_allocations c z acc es = None \<Longrightarrow>
     acc = None \<and> (\<forall>e \<in> set es. valid_extent e \<longrightarrow> \<not> (c < physical_address e + bytes e \<and> physical_address e < z))"
  "consider_allocations c z acc es = Some w \<Longrightarrow>
     acc = Some w \<or> (\<exists>e \<in> set es. valid_extent e \<and> c < w \<and> w = physical_address e + bytes e \<and> physical_address e < z)"
proof (induction es arbitrary: acc)
  case Nil
  { case 1 then show ?case by simp }
  { case 2 then show ?case by simp }
next
  case (Cons e es)
  let ?acc = "\<lambda>acc. if candidate_hit c z acc e then Some (physical_address e + bytes e) else acc"
  { case (1 acc)
    from Cons.IH(1) [OF this [unfolded consider_allocations_step]] have "?acc acc = None"
      and rest: "\<forall>e \<in> set es. valid_extent e \<longrightarrow> \<not> (c < physical_address e + bytes e \<and> physical_address e < z)" by auto
    then have "acc = None" "\<not> candidate_hit c z acc e" by (auto split: if_splits)
    then show ?case using rest by (auto simp: candidate_hit_def) }
  { case (2 acc)
    from Cons.IH(2) [OF this [unfolded consider_allocations_step]] show ?case
    proof
      assume "?acc acc = Some w"
      then show ?thesis by (auto simp: candidate_hit_def split: if_splits)
    next
      assume "\<exists>e \<in> set es. valid_extent e \<and> c < w \<and> w = physical_address e + bytes e \<and> physical_address e < z"
      then show ?thesis by auto
    qed }
qed

text \<open>What the search has to give from a candidate on, and one round of it.\<close>

definition first_clean :: "SpacemanLedger \<Rightarrow> nat \<Rightarrow> nat \<Rightarrow> nat option \<Rightarrow> bool" where
  "first_clean s n c found =
     (case found of
        Some x \<Rightarrow> c \<le> x \<and> clean_range s x n \<and> (\<forall>y. c \<le> y \<and> y < x \<longrightarrow> \<not> clean_range s y n)
      | None \<Rightarrow> \<forall>y. c \<le> y \<longrightarrow> \<not> clean_range s y n)"

definition advances :: "SpacemanLedger \<Rightarrow> nat \<Rightarrow> nat \<Rightarrow> nat \<Rightarrow> bool" where
  "advances s n c d \<longleftrightarrow>
     c < d \<and> c \<le> u64_max \<and> block_size (geometry s) dvd d \<and> (\<forall>y. c \<le> y \<and> y < d \<longrightarrow> \<not> clean_range s y n) \<and>
     advance_unavailable s n c = advance_unavailable s n d"

lemma first_clean_skip:
  assumes "c \<le> d" "\<forall>y. c \<le> y \<and> y < d \<longrightarrow> \<not> clean_range s y n" "first_clean s n d found"
  shows "first_clean s n c found"
proof -
  have "\<not> clean_range s y n" if "c \<le> y" "d \<le> y \<Longrightarrow> \<not> clean_range s y n" for y
    using that assms(2) by (meson not_le)
  then show ?thesis using assms(1,3) unfolding first_clean_def by (auto split: option.splits)
qed

lemma advance_round_reserved:
  assumes u: "0 < block_size (geometry s)" "0 < n" "block_size (geometry s) dvd n" "0 < c" "block_size (geometry s) dvd c"
    and t: "total_blocks (geometry s) * block_size (geometry s) \<le> u64_max"
    and run: "\<not> c > u64_max - n" "\<not> (total_blocks (geometry s) \<noteq> 0 \<and>
      (total_blocks (geometry s) > u64_max div block_size (geometry s) \<or> c + n > total_blocks (geometry s) * block_size (geometry s)))"
    and hit: "ExtentOverlapsReservedMetadata (geometry s) c n"
  shows "first_clean s n c (advance_unavailable s n c) \<or> (\<exists>d. advances s n c d)"
proof -
  let ?g = "geometry s" let ?u = "block_size ?g"
  have cu: "c \<le> u64_max" using run(1) by linarith
  obtain k r where kr: "c = k * ?u" "n = r * ?u" using u(3,5) by (metis dvd_def mult.commute)
  have r: "0 < r" using kr(2) u(2) by (cases r) auto
  have adv: "AdvancePastReservedMetadata ?g c n = advance_reserved ?g n r k"
    using u run(1) kr r by (auto simp: AdvancePastReservedMetadata_def Let_def)
  note first = advance_reserved_first [OF refl u(1) kr(2) r, of k]
  show ?thesis
  proof (cases "advance_reserved ?g n r k")
    case None
    then have "advance_unavailable s n c = None"
      using run hit adv by (simp add: advance_unavailable.simps [of s n c] Let_def)
    moreover have "\<not> clean_range s y n" if "c \<le> y" for y
      using first None that clean_range_not_reserved t kr(1) by (auto simp: clean_range_def)
    ultimately show ?thesis by (simp add: first_clean_def)
  next
    case (Some d)
    then have d: "c \<le> d" "?u dvd d" "\<not> ExtentOverlapsReservedMetadata ?g d n"
      "\<forall>y. c \<le> y \<and> y < d \<longrightarrow> ExtentOverlapsReservedMetadata ?g y n" using first t kr(1) by auto
    then have "c < d" using hit by (metis le_neq_implies_less)
    moreover have "advance_unavailable s n c = advance_unavailable s n d"
      using run hit adv Some \<open>c < d\<close> by (subst advance_unavailable.simps) (auto simp: Let_def)
    ultimately show ?thesis using d cu clean_range_not_reserved unfolding advances_def by blast
  qed
qed

lemma advance_round_live:
  assumes u: "0 < block_size (geometry s)" "0 < n" "block_size (geometry s) dvd n" "0 < c" "block_size (geometry s) dvd c"
    and ends: "\<forall>e \<in> set (committed_allocations s @ pending_allocations s). block_size (geometry s) dvd physical_address e + bytes e"
    and run: "\<not> c > u64_max - n" "\<not> (total_blocks (geometry s) \<noteq> 0 \<and>
      (total_blocks (geometry s) > u64_max div block_size (geometry s) \<or> c + n > total_blocks (geometry s) * block_size (geometry s)))"
    and free: "\<not> ExtentOverlapsReservedMetadata (geometry s) c n"
  shows "first_clean s n c (advance_unavailable s n c) \<or> (\<exists>d. advances s n c d)"
proof (cases "consider_allocations c (c + n) None (committed_allocations s @ pending_allocations s)")
  case None
  then have "advance_unavailable s n c = Some c"
    using run free by (simp add: advance_unavailable.simps [of s n c] Let_def)
  moreover have "ivl c n \<inter> live_space s = {}"
    using consider_allocations_spec(1) [OF None]
    unfolding live_space_def space_def range_of_def by (fastforce simp: mem_ivl)
  moreover have "block_unit (geometry s) = block_size (geometry s)" using u(1) by (simp add: block_unit_def)
  ultimately show ?thesis
    using free run u reserved_space_disjoint [OF free]
    unfolding first_clean_def clean_range_def ExtentOverlapsReservedMetadata_iff by auto
next
  case (Some d)
  then obtain e where e: "e \<in> set (committed_allocations s @ pending_allocations s)" "valid_extent e" "c < d"
    "d = physical_address e + bytes e" "physical_address e < c + n" using consider_allocations_spec(2) by blast
  have "\<not> clean_range s y n" if "c \<le> y" "y < d" for y
  proof -
    have "max y (physical_address e) \<in> ivl y n \<inter> range_of e"
      using that e u(2) by (auto simp: range_of_def mem_ivl valid_extent_iff)
    moreover have "range_of e \<subseteq> live_space s" using e(1,2) unfolding live_space_def space_def by auto
    ultimately show ?thesis unfolding clean_range_def by blast
  qed
  moreover have "advance_unavailable s n c = advance_unavailable s n d"
    using run free Some e(3) by (subst advance_unavailable.simps) (auto simp: Let_def)
  moreover have "c \<le> u64_max" using run(1) by linarith
  ultimately show ?thesis using e(1,3,4) ends unfolding advances_def by blast
qed

lemma advance_round:
  assumes "0 < block_size (geometry s)" "0 < n" "block_size (geometry s) dvd n" "0 < c" "block_size (geometry s) dvd c"
    and t: "total_blocks (geometry s) * block_size (geometry s) \<le> u64_max"
    and "\<forall>e \<in> set (committed_allocations s @ pending_allocations s). block_size (geometry s) dvd physical_address e + bytes e"
  shows "first_clean s n c (advance_unavailable s n c) \<or> (\<exists>d. advances s n c d)"
proof -
  let ?u = "block_size (geometry s)" let ?t = "total_blocks (geometry s)"
  consider (over) "c > u64_max - n" | (limit) "\<not> c > u64_max - n" "?t \<noteq> 0" "c + n > ?t * ?u"
    | (run) "\<not> c > u64_max - n" "?t = 0 \<or> c + n \<le> ?t * ?u" by linarith
  then show ?thesis
  proof cases
    case over
    then have "advance_unavailable s n c = None" by (simp add: advance_unavailable.simps [of s n c])
    then show ?thesis using over by (auto simp: first_clean_def clean_range_def)
  next
    case limit
    then have "advance_unavailable s n c = None" by (simp add: advance_unavailable.simps [of s n c] Let_def)
    then show ?thesis using limit by (auto simp: first_clean_def clean_range_def)
  next
    case run
    have "?t \<le> u64_max div ?u" using assms(1) t by (simp add: less_eq_div_iff_mult_less_eq)
    then have "\<not> (?t \<noteq> 0 \<and> (?t > u64_max div ?u \<or> c + n > ?t * ?u))" using run(2) by linarith
    then show ?thesis
      using advance_round_reserved [OF assms(1-5) t run(1)] advance_round_live [OF assms(1-5) assms(7) run(1)] by blast
  qed
qed

text \<open>
  C33. \<^verbatim>\<open>AdvancePastUnavailableExtent\<close> always returns, and finds the first place: the
  address it gives is the least one at or after the start where a range of the wanted size lies
  in the container, off the live allocations and off the reserved blocks; when it gives none,
  and the live allocations end on block boundaries, there is no such place.
\<close>

theorem AdvancePastUnavailableExtent_first:
  assumes "0 < block_size (geometry s)" and "0 < a" and "0 < n"
    and "block_size (geometry s) dvd a" and "block_size (geometry s) dvd n"
    and "total_blocks (geometry s) * block_size (geometry s) \<le> u64_max"
    and "\<forall>e \<in> set (committed_allocations s @ pending_allocations s).
      block_size (geometry s) dvd physical_address e + bytes e"
  shows "case AdvancePastUnavailableExtent s a n of
      Some c \<Rightarrow> a \<le> c \<and> clean_range s c n \<and> (\<forall>x. a \<le> x \<and> x < c \<longrightarrow> \<not> clean_range s x n)
    | None \<Rightarrow> \<forall>x. a \<le> x \<longrightarrow> \<not> clean_range s x n"
proof -
  have start: "AdvancePastUnavailableExtent s a n = advance_unavailable s n a"
    using assms(1-5) by (simp add: AdvancePastUnavailableExtent_def Let_def)
  have "0 < c \<Longrightarrow> block_size (geometry s) dvd c \<Longrightarrow> first_clean s n c (advance_unavailable s n c)" for c
  proof (induction "Suc u64_max - c" arbitrary: c rule: less_induct)
    case less
    show ?case
    proof (cases "\<exists>d. advances s n c d")
      case True
      then obtain d where d: "c < d" "c \<le> u64_max" "block_size (geometry s) dvd d"
        "\<forall>y. c \<le> y \<and> y < d \<longrightarrow> \<not> clean_range s y n" "advance_unavailable s n c = advance_unavailable s n d"
        unfolding advances_def by blast
      have "first_clean s n d (advance_unavailable s n d)" using d(1-3) by (intro less.hyps) auto
      then show ?thesis using first_clean_skip [OF _ d(4)] d(1,5) by simp
    qed (use advance_round [OF assms(1,3,5) less.prems assms(6,7)] in blast)
  qed
  from this [OF assms(2,4)] show ?thesis unfolding start first_clean_def .
qed

theorem AdvancePastUnavailableExtent_first_witness:
  "case AdvancePastUnavailableExtent sample_ledger 40960 4096 of
      Some c \<Rightarrow> 40960 \<le> c \<and> clean_range sample_ledger c 4096 \<and>
        (\<forall>x. 40960 \<le> x \<and> x < c \<longrightarrow> \<not> clean_range sample_ledger x 4096)
    | None \<Rightarrow> \<forall>x. 40960 \<le> x \<longrightarrow> \<not> clean_range sample_ledger x 4096"
  by (rule AdvancePastUnavailableExtent_first) (simp_all add: sample_ledger_def sample_geometry_def u64_max_def)

section \<open>Recovered read extents\<close>

lemma merge_loop_wrapping_eq:
  "\<forall>e \<in> set es. counted e \<longrightarrow> valid_extent e \<Longrightarrow> merge_loop_wrapping merged es = merge_loop merged es"
proof (induction es arbitrary: merged)
  case Nil
  then show ?case by simp
next
  case (Cons e es)
  note IH = Cons.IH
  show ?case
  proof (cases "counted e")
    case False
    then have "physical_address e = 0 \<or> bytes e = 0" by (simp add: counted_def)
    then show ?thesis using Cons by auto
  next
    case True
    then have v: "valid_extent e" using Cons.prems by simp
    then have "physical_address e \<noteq> 0" "bytes e \<noteq> 0" "\<not> physical_address e > u64_max - bytes e"
      "add64 (physical_address e) (bytes e) = physical_address e + bytes e"
      by (auto simp: valid_extent_iff add64_def u64_max_def)
    then show ?thesis using IH Cons.prems by (simp add: Let_def split: list.split)
  qed
qed

lemma aligned_range_covers:
  assumes "aligned_range a n u = Some (b, z)" and "0 < u" and "0 < a"
  shows "b \<le> a" "a + n \<le> z" "z \<le> u64_max" "b < z"
proof -
  let ?m = "(a + n) mod u"
  have m: "?m < u" using assms(2) by simp
  have r: "\<not> u64_max - n < a" "b = a - a mod u" "\<not> z \<le> b" "\<not> (?m \<noteq> 0 \<and> a + n > u64_max - (u - ?m))"
    "z = (if ?m = 0 then a + n else a + n + (u - ?m))"
    using assms(1) unfolding aligned_range_def Let_def by (auto split: if_splits)
  have e: "a + n \<le> u64_max" using r(1) assms(3) by linarith
  show "b \<le> a" using r(2) by simp
  show "a + n \<le> z" using r(5) by simp
  show "b < z" using r(3) by simp
  show "z \<le> u64_max"
  proof (cases "?m = 0")
    case True
    then show ?thesis using r(5) e by simp
  next
    case False
    then have "a + n \<le> u64_max - (u - ?m)" using r(4) by linarith
    then show ?thesis using r(5) False m assms(3) by simp
  qed
qed

lemma conservative_ranges_cover:
  assumes "conservative_ranges u fs = Some rs" and "0 < u"
  shows "(\<forall>r \<in> set rs. valid_extent r) \<and>
    (\<forall>f \<in> set fs. fe_physical_address f \<noteq> 0 \<longrightarrow> ivl (fe_physical_address f) (fe_bytes f) \<subseteq> space rs)"
  using assms(1)
proof (induction fs arbitrary: rs)
  case Nil
  then show ?case by simp
next
  case (Cons f fs)
  show ?case
  proof (cases "fe_physical_address f = 0 \<or> fe_bytes f = 0")
    case True
    then show ?thesis using Cons by (auto simp: ivl_def)
  next
    case False
    then obtain b z rs' where bz: "aligned_range (fe_physical_address f) (fe_bytes f) u = Some (b, z)" "b \<noteq> 0"
      "conservative_ranges u fs = Some rs'" "rs = mk_extent b (z - b) # rs'"
      using Cons.prems by (auto simp: Let_def split: option.splits prod.splits if_splits)
    note al = aligned_range_covers [OF bz(1) assms(2)] False
    have "valid_extent (mk_extent b (z - b))" using al bz(2) by (simp add: valid_extent_iff)
    moreover have "ivl (fe_physical_address f) (fe_bytes f) \<subseteq> range_of (mk_extent b (z - b))"
      using al by (auto simp: range_of_def mem_ivl)
    ultimately show ?thesis using Cons.IH [OF bz(3)] bz(4) by auto
  qed
qed

lemma AddConservative_covers:
  assumes "AddConservativeAllocationFromReadExtents fs as u = Some out" and "\<forall>e \<in> set as. valid_extent e"
  shows "IsSortedAndValid out \<and> space as \<subseteq> space out \<and>
    (\<forall>f \<in> set fs. fe_physical_address f \<noteq> 0 \<longrightarrow> ivl (fe_physical_address f) (fe_bytes f) \<subseteq> space out)"
proof -
  obtain rs where rs: "0 < u" "conservative_ranges u fs = Some rs"
    "merge_loop_wrapping [] (sort_key extent_key (as @ rs)) = Some out"
    using assms(1) by (auto simp: AddConservativeAllocationFromReadExtents_def split: if_splits option.splits)
  note c = conservative_ranges_cover [OF rs(2,1)]
  have v: "\<forall>e \<in> set (as @ rs). valid_extent e" using c assms(2) by auto
  have "NormalizeSpacemanExtents (as @ rs) = (True, out)"
  proof (cases "as @ rs = []")
    case True
    then show ?thesis using rs(3) by (simp add: NormalizeSpacemanExtents_def)
  next
    case False
    have "merge_loop [] (sort_key extent_key (as @ rs)) = Some out"
      using rs(3) merge_loop_wrapping_eq [of "sort_key extent_key (as @ rs)" "[]"] v
      unfolding set_sort by (metis (no_types, lifting))
    then show ?thesis unfolding NormalizeSpacemanExtents_def if_not_P [OF False] Let_def by simp
  qed
  have "IsSortedAndValid out \<and> space out = space (as @ rs)"
  proof -
    have n: "normalizable (as @ rs)" "filter counted (as @ rs) = as @ rs" using valid_normalizable [OF v] by blast+
    from Normalize_ok [OF n(1)] \<open>NormalizeSpacemanExtents (as @ rs) = (True, out)\<close>
    show ?thesis unfolding n(2) NormalizeSpacemanExtents_eq by fastforce
  qed
  then show ?thesis using c by auto
qed

lemma canonical_valid: "IsSortedAndValid es \<Longrightarrow> e \<in> set es \<Longrightarrow> valid_extent e"
  by (simp add: IsSortedAndValid_iff)

lemma add_read_extents_covers:
  "add_read_extents u xss as = Some out \<Longrightarrow> \<forall>e \<in> set as. valid_extent e \<Longrightarrow>
     (\<forall>e \<in> set out. valid_extent e) \<and> space as \<subseteq> space out \<and>
     (\<forall>f \<in> \<Union> (set ` set xss). fe_physical_address f \<noteq> 0 \<longrightarrow> ivl (fe_physical_address f) (fe_bytes f) \<subseteq> space out)"
proof (induction xss arbitrary: as)
  case Nil
  then show ?case by simp
next
  case (Cons xs xss)
  then obtain as' where as': "AddConservativeAllocationFromReadExtents xs as u = Some as'"
    "add_read_extents u xss as' = Some out" by (auto split: option.splits)
  note c = AddConservative_covers [OF as'(1) Cons.prems(2)]
  note d = Cons.IH [OF as'(2)]
  show ?case using c d canonical_valid by (simp add: ball_Un) blast
qed

text \<open>
  When loading a raw device adopts recovered read extents, the ledger it leaves is safe for
  them: every byte of every recovered extent is then in a committed allocation, no earlier
  allocation is lost, none of these bytes is in the committed or working free list, and both
  lists stay canonical.
\<close>

lemma adopt_read_extents_safe:
  assumes "adopt_read_extents raw_write xss s = (True, s')"
    and "length (committed_allocations s') \<noteq> length (committed_allocations s)"
    and "\<forall>e \<in> set (committed_allocations s). valid_extent e" and "IsSortedAndValid (committed_free s)"
    and "f \<in> \<Union> (set ` set xss)" and "fe_physical_address f \<noteq> 0"
  shows "ivl (fe_physical_address f) (fe_bytes f) \<subseteq> space (committed_allocations s') \<and>
    space (committed_allocations s) \<subseteq> space (committed_allocations s') \<and>
    space (committed_allocations s') \<inter> (space (committed_free s') \<union> space (working_free s')) = {} \<and>
    IsSortedAndValid (committed_free s') \<and> IsSortedAndValid (working_free s')"
proof -
  obtain out where out: "add_read_extents (block_size (geometry s)) xss (committed_allocations s) = Some out"
    using assms(1,2) by (auto simp: adopt_read_extents_def split: if_splits option.splits)
  note c = add_read_extents_covers [OF out assms(3)]
  obtain free where free: "SubtractAllocationsFromFreeExtents (committed_free s) out = (True, free)"
    "IsSortedAndValid free" "space free = space (committed_free s) - space out"
    using SubtractAllocationsFromFreeExtents_canonical [OF assms(4)] c by blast
  obtain working where working: "SubtractAllocationsFromFreeExtents free out = (True, working)"
    "IsSortedAndValid working" "space working = space free - space out"
    using SubtractAllocationsFromFreeExtents_canonical [OF free(2)] c by blast
  have "committed_allocations s' = out \<and> committed_free s' = free \<and> working_free s' = working"
    using assms(1,2) out free(1) working(1)
    by (auto simp: adopt_read_extents_def Let_def split: if_splits)
  moreover have "ivl (fe_physical_address f) (fe_bytes f) \<subseteq> space out" using c assms(5,6) by blast
  ultimately show ?thesis using c free(2,3) working(2,3) by auto
qed

lemma adopt_read_extents_safe_witness:
  "ivl 53248 4096 \<subseteq> space (committed_allocations
     (snd (adopt_read_extents True [[\<lparr>logical_offset = 0, fe_physical_address = 53248, fe_bytes = 4096\<rparr>]] sample_ledger)))"
proof -
  let ?f = "\<lparr>logical_offset = 0, fe_physical_address = 53248, fe_bytes = 4096\<rparr>"
  let ?r = "adopt_read_extents True [[?f]] sample_ledger"
  have r: "?r = (True, snd ?r)" "length (committed_allocations (snd ?r)) \<noteq> length (committed_allocations sample_ledger)"
    "\<forall>e \<in> set (committed_allocations sample_ledger). valid_extent e" "IsSortedAndValid (committed_free sample_ledger)"
    "?f \<in> \<Union> (set ` set [[?f]])" "fe_physical_address ?f \<noteq> 0"
    by (simp_all add: adopt_read_extents_def sample_ledger_def sample_geometry_def
        AddConservativeAllocationFromReadExtents_def aligned_range_def extent_key_def
        SubtractAllocationsFromFreeExtents_def subtract_from_def valid_extent_iff Let_def u64_max_def add64_def
        IsSortedAndValid_def RangeEnd_def)
  from adopt_read_extents_safe [OF r] show ?thesis by simp
qed


end
