(* ===== verification/CheckpointFamily.thy ===== *)
theory CheckpointFamily
  imports SpacemanLedger ByteCodec
begin

text \<open>
  The object map and spaceman checkpoints of the private format: their parsers
  (\<^verbatim>\<open>src/ApfsObjectMapStore.cpp\<close>, \<^verbatim>\<open>src/ApfsSpacemanStore.cpp\<close>), the writers
  and loaders of \<^verbatim>\<open>src/MetadataStore.cpp\<close>, and the windows of the checkpoint band
  through which a checkpoint of several blocks is written and read.

  The device is a parameter: \<open>read\<close> stands for \<^verbatim>\<open>device_->Read\<close>, with
  \<^term>\<open>None\<close> where it returns false; the writers return the spans they hand to
  \<^verbatim>\<open>device_->WriteBatch\<close>, or \<^term>\<open>None\<close> where they return false.  The reusable
  serialization buffers, which are cleared before use, the order caches and the counters are left
  out.
\<close>

section \<open>Fields at an offset\<close>

definition kCheckpointHeaderBytes :: nat where "kCheckpointHeaderBytes = 32"
definition kCheckpointChecksumOffset :: nat where "kCheckpointChecksumOffset = 28"

text \<open>
  The readers of \<^verbatim>\<open>MetadataStore\<close> give 0 out of range; those of the parsers are only
  called in range.
\<close>

definition ReadLe32 :: "byte list \<Rightarrow> nat \<Rightarrow> nat" where
  "ReadLe32 buffer offset = (if offset + 4 > length buffer then 0 else le_value (take 4 (drop offset buffer)))"

definition ReadLe64 :: "byte list \<Rightarrow> nat \<Rightarrow> nat" where
  "ReadLe64 buffer offset = (if offset + 8 > length buffer then 0 else le_value (take 8 (drop offset buffer)))"

definition WriteLe32 :: "byte list \<Rightarrow> nat \<Rightarrow> nat \<Rightarrow> byte list" where
  "WriteLe32 buffer offset value =
     (if offset + 4 > length buffer then buffer
      else take offset buffer @ le_bytes 4 value @ drop (offset + 4) buffer)"

definition WriteLe64 :: "byte list \<Rightarrow> nat \<Rightarrow> nat \<Rightarrow> byte list" where
  "WriteLe64 buffer offset value =
     (if offset + 8 > length buffer then buffer
      else take offset buffer @ le_bytes 8 value @ drop (offset + 8) buffer)"

definition ComputeCheckpointChecksum :: "byte list \<Rightarrow> nat \<Rightarrow> nat" where
  "ComputeCheckpointChecksum block payload_bytes =
     (if length block < kCheckpointHeaderBytes \<or> payload_bytes > length block - kCheckpointHeaderBytes then 0
      else
        let hash = UpdateFnv1a fnv_seed (take kCheckpointChecksumOffset block) in
        unat (if payload_bytes > 0
              then UpdateFnv1a hash (take payload_bytes (drop kCheckpointHeaderBytes block)) else hash))"

section \<open>The object map parser\<close>

record ApfsObjectMapEntry =
  om_object_id :: nat
  om_physical_address :: nat
  om_logical_size :: nat
  om_xid :: nat

definition object_map_magic :: "byte list" where
  "object_map_magic = [65, 80, 70, 83, 82, 87, 79, 77, 65, 80, 51, 0]"

fun validate_entries :: "nat set \<Rightarrow> nat set \<Rightarrow> ApfsObjectMapEntry list \<Rightarrow> bool" where
  "validate_entries seen_ids seen_addresses [] = True"
| "validate_entries seen_ids seen_addresses (e # es) =
     (if om_object_id e = 0 then False
      else if om_object_id e \<in> seen_ids then False
      else if (om_physical_address e = 0) \<noteq> (om_logical_size e = 0) then False
      else if om_physical_address e \<noteq> 0 \<and> om_physical_address e \<in> seen_addresses then False
      else if om_xid e = 0 then False
      else validate_entries (insert (om_object_id e) seen_ids)
             (if om_physical_address e \<noteq> 0 then insert (om_physical_address e) seen_addresses
              else seen_addresses) es)"

definition ValidateEntries :: "ApfsObjectMapEntry list \<Rightarrow> bool" where
  "ValidateEntries entries = validate_entries {} {} entries"

fun read_entries :: "byte list \<Rightarrow> nat \<Rightarrow> nat \<Rightarrow> ApfsObjectMapEntry list option" where
  "read_entries block cursor 0 = Some []"
| "read_entries block cursor (Suc n) =
     (if cursor > length block \<or> 32 > length block - cursor then None
      else
        let entry = \<lparr>om_object_id = ReadLe64 block cursor, om_physical_address = ReadLe64 block (cursor + 8),
                     om_logical_size = ReadLe64 block (cursor + 16), om_xid = ReadLe64 block (cursor + 24)\<rparr>
        in map_option ((#) entry) (read_entries block (cursor + 32) n))"

definition ParseObjectMapCheckpointV3 :: "byte list \<Rightarrow> (ApfsObjectMapEntry list \<times> nat) option" where
  "ParseObjectMapCheckpointV3 block =
     (if length block < kCheckpointHeaderBytes then None
      else if take 12 block \<noteq> object_map_magic then None
      else
        let xid = ReadLe64 block 12; entry_count = ReadLe32 block 20; payload_bytes = ReadLe32 block 24;
            required_bytes = kCheckpointHeaderBytes + payload_bytes;
            persisted_checksum = ReadLe32 block kCheckpointChecksumOffset
        in if required_bytes > length block then None
           else if payload_bytes mod 32 \<noteq> 0 then None
           else if payload_bytes div 32 \<noteq> entry_count then None
           else if persisted_checksum \<noteq> 0 \<and> persisted_checksum \<noteq> ComputeCheckpointChecksum block payload_bytes
           then None
           else case read_entries block kCheckpointHeaderBytes entry_count of
                  None \<Rightarrow> None
                | Some entries \<Rightarrow> if ValidateEntries entries then Some (entries, xid) else None)"

section \<open>The spaceman parser\<close>

definition spaceman_magic :: "byte list" where
  "spaceman_magic = [65, 80, 70, 83, 82, 87, 83, 80, 77, 51, 0, 0]"

fun normalized_loop :: "nat option \<Rightarrow> Extent list \<Rightarrow> bool" where
  "normalized_loop previous_end [] = True"
| "normalized_loop previous_end (e # es) =
     (if physical_address e = 0 \<or> bytes e = 0 then False
      else if physical_address e > u64_max - bytes e then False
      else if (case previous_end of None \<Rightarrow> False | Some p \<Rightarrow> physical_address e < p) then False
      else normalized_loop (Some (physical_address e + bytes e)) es)"

definition build_normalized :: "Extent list \<Rightarrow> Extent list option" where
  "build_normalized extents =
     (let normalized = sort_key extent_key extents in
      if normalized_loop None normalized then Some normalized else None)"

text \<open>
  The merge walk over the two sorted lists.  When none of its three tests holds the source goes
  round again with the same indices, so the walk is a partial function.
\<close>

partial_function (option) disjoint_walk :: "Extent list \<Rightarrow> Extent list \<Rightarrow> bool option" where
  "disjoint_walk allocations free_extents =
     (case allocations of
        [] \<Rightarrow> Some True
      | a # as \<Rightarrow>
          (case free_extents of
             [] \<Rightarrow> Some True
           | f # fs \<Rightarrow>
               (let allocation_end = physical_address a + bytes a; free_end = physical_address f + bytes f in
                if allocation_end \<le> physical_address f then disjoint_walk as free_extents
                else if free_end \<le> physical_address a then disjoint_walk allocations fs
                else if physical_address a < free_end \<and> physical_address f < allocation_end then Some False
                else disjoint_walk allocations free_extents)))"

definition ValidateState :: "Extent list \<Rightarrow> Extent list \<Rightarrow> bool option" where
  "ValidateState allocations free_extents =
     (case build_normalized allocations of
        None \<Rightarrow> Some False
      | Some normalized_allocations \<Rightarrow>
          (case build_normalized free_extents of
             None \<Rightarrow> Some False
           | Some normalized_free \<Rightarrow> disjoint_walk normalized_allocations normalized_free))"

fun read_extents :: "byte list \<Rightarrow> nat \<Rightarrow> nat \<Rightarrow> Extent list option" where
  "read_extents block cursor 0 = Some []"
| "read_extents block cursor (Suc n) =
     (if cursor > length block \<or> 16 > length block - cursor then None
      else
        let extent = mk_extent (ReadLe64 block cursor) (ReadLe64 block (cursor + 8)) in
        if physical_address extent \<noteq> 0 \<and> bytes extent \<noteq> 0
        then map_option ((#) extent) (read_extents block (cursor + 16) n) else None)"

text \<open>The outer option is the result of the walk, the inner one the parser's answer.\<close>

definition ParseSpacemanCheckpointV3 :: "byte list \<Rightarrow> (Extent list \<times> Extent list \<times> nat) option option" where
  "ParseSpacemanCheckpointV3 block =
     (if length block < kCheckpointHeaderBytes then Some None
      else if take 12 block \<noteq> spaceman_magic then Some None
      else
        let xid = ReadLe64 block 12; allocation_count = ReadLe32 block 20; free_count = ReadLe32 block 24;
            total_records = allocation_count + free_count;
            payload_bytes = total_records * 16;
            required_bytes = kCheckpointHeaderBytes + payload_bytes;
            persisted_checksum = ReadLe32 block kCheckpointChecksumOffset
        in if total_records > u64_max div 16 then Some None
           else if required_bytes > length block then Some None
           else if persisted_checksum \<noteq> 0 \<and> persisted_checksum \<noteq> ComputeCheckpointChecksum block payload_bytes
           then Some None
           else case read_extents block kCheckpointHeaderBytes allocation_count of
                  None \<Rightarrow> Some None
                | Some allocations \<Rightarrow>
                    (case read_extents block (kCheckpointHeaderBytes + allocation_count * 16) free_count of
                       None \<Rightarrow> Some None
                     | Some free_extents \<Rightarrow>
                         map_option (\<lambda>ok. if ok then Some (allocations, free_extents, xid) else None)
                           (ValidateState allocations free_extents)))"


section \<open>Windows of checkpoint blocks\<close>

definition RotateCheckpointBlocks :: "nat list \<Rightarrow> nat \<Rightarrow> nat list" where
  "RotateCheckpointBlocks block_indices target_xid =
     (if block_indices = [] then []
      else let start = target_xid mod length block_indices in drop start block_indices @ take start block_indices)"

definition SelectChunkedCheckpointBlockWindows :: "nat list \<Rightarrow> nat \<Rightarrow> nat \<Rightarrow> nat list list" where
  "SelectChunkedCheckpointBlockWindows block_indices target_xid required_blocks =
     (if block_indices = [] \<or> required_blocks = 0 \<or> required_blocks > length block_indices then []
      else
        let generation_count = length block_indices div required_blocks in
        if generation_count = 0 then []
        else
          let preferred_generation = target_xid mod generation_count;
              begins = map (\<lambda>offset. (preferred_generation + offset) mod generation_count * required_blocks)
                         [0..<generation_count]
          in map (\<lambda>first. take required_blocks (drop first block_indices))
               (filter (\<lambda>first. \<not> first > length block_indices - required_blocks) begins))"

definition SelectWritableChunkedCheckpointBlocks ::
  "bool \<Rightarrow> SpacemanLedger \<Rightarrow> nat list \<Rightarrow> nat \<Rightarrow> nat \<Rightarrow> nat list" where
  "SelectWritableChunkedCheckpointBlocks slot_index_enabled s block_indices target_xid required_blocks =
     (case find (AreNativeCheckpointBlocksWritable slot_index_enabled s)
             (SelectChunkedCheckpointBlockWindows block_indices target_xid required_blocks) of
        None \<Rightarrow> []
      | Some candidate_blocks \<Rightarrow> candidate_blocks)"

text \<open>
  Runs of consecutive blocks, as the writer and the reader extend them; only the reader tests
  for wrap-around.
\<close>

fun write_run :: "nat \<Rightarrow> nat \<Rightarrow> nat list \<Rightarrow> nat" where
  "write_run first_block run_blocks [] = run_blocks"
| "write_run first_block run_blocks (b # bs) =
     (if b = add64 first_block run_blocks then write_run first_block (run_blocks + 1) bs else run_blocks)"

fun read_run :: "nat \<Rightarrow> nat \<Rightarrow> nat list \<Rightarrow> nat" where
  "read_run first_block run_blocks [] = run_blocks"
| "read_run first_block run_blocks (b # bs) =
     (if first_block \<le> u64_max - run_blocks \<and> b = first_block + run_blocks
      then read_run first_block (run_blocks + 1) bs else run_blocks)"

type_synonym WriteSpan = "nat \<times> byte list"

text \<open>A run that the data does not fill is copied to a buffer of zeros.\<close>

function append_spans :: "nat \<Rightarrow> nat list \<Rightarrow> byte list \<Rightarrow> WriteSpan list option" where
  "append_spans block_bytes [] data = Some []"
| "append_spans block_bytes (b # bs) data =
     (let run_blocks = write_run b 1 bs;
          run_bytes = run_blocks * block_bytes;
          available = take run_bytes data
      in if b = 0 \<or> b > u64_max div block_bytes then None
         else map_option ((#) (b * block_bytes, available @ replicate (run_bytes - length available) 0))
                (append_spans block_bytes (drop (run_blocks - 1) bs) (drop run_bytes data)))"
  by pat_completeness auto
termination by (relation "measure (\<lambda>(_, bs, _). length bs)") auto

definition AppendSelectedChunkedCheckpointWriteSpans ::
  "nat \<Rightarrow> nat list \<Rightarrow> byte list \<Rightarrow> WriteSpan list option" where
  "AppendSelectedChunkedCheckpointWriteSpans block_bytes selected_blocks data =
     (if selected_blocks = [] \<or> block_bytes = 0 then None
      else
        let block_count = (length data + block_bytes - 1) div block_bytes in
        if block_count = 0 \<or> block_count > length selected_blocks then None
        else append_spans block_bytes (take block_count selected_blocks) data)"

definition PadCheckpointWriteDataToBlockBoundary :: "nat \<Rightarrow> byte list \<Rightarrow> byte list option" where
  "PadCheckpointWriteDataToBlockBoundary block_bytes data =
     (if block_bytes = 0 then None
      else if data = [] then None
      else
        let remainder = length data mod block_bytes in
        if remainder = 0 then Some data else Some (data @ replicate (block_bytes - remainder) 0))"

type_synonym device_read = "nat \<Rightarrow> nat \<Rightarrow> byte list option"

function read_window :: "device_read \<Rightarrow> nat \<Rightarrow> nat \<Rightarrow> nat list \<Rightarrow> byte list option" where
  "read_window read block_bytes container_blocks [] = Some []"
| "read_window read block_bytes container_blocks (b # bs) =
     (if b = 0 \<or> b > u64_max div block_bytes then None
      else
        let run_blocks = read_run b 1 bs in
        if run_blocks > u64_max div block_bytes then None
        else if b > u64_max - (run_blocks - 1) then None
        else if container_blocks \<noteq> 0 \<and> b + (run_blocks - 1) \<ge> container_blocks then None
        else
          let run_bytes = run_blocks * block_bytes in
          case read (b * block_bytes) run_bytes of
            None \<Rightarrow> None
          | Some run_data \<Rightarrow>
              if length run_data < run_bytes then None
              else map_option ((@) (take run_bytes run_data))
                     (read_window read block_bytes container_blocks (drop (run_blocks - 1) bs)))"
  by pat_completeness auto
termination by (relation "measure (\<lambda>(_, _, _, bs). length bs)") auto

definition ReadOrderedCheckpointWindowBytes ::
  "device_read \<Rightarrow> nat \<Rightarrow> nat \<Rightarrow> nat list \<Rightarrow> nat \<Rightarrow> byte list" where
  "ReadOrderedCheckpointWindowBytes read block_bytes container_blocks ordered_blocks required_blocks =
     (if block_bytes = 0 \<or> required_blocks = 0 \<or> length ordered_blocks < required_blocks then []
      else if required_blocks > u64_max div block_bytes then []
      else case read_window read block_bytes container_blocks (take required_blocks ordered_blocks) of
             None \<Rightarrow> []
           | Some combined \<Rightarrow> combined)"

text \<open>The test the reader makes of one window; the bytes of the window when it passes.\<close>

definition window_bytes ::
  "device_read \<Rightarrow> nat \<Rightarrow> nat \<Rightarrow> byte list \<Rightarrow> nat \<Rightarrow> nat \<Rightarrow> nat list \<Rightarrow> byte list option" where
  "window_bytes read block_bytes container_blocks magic target_xid required_blocks ordered_blocks =
     (if length ordered_blocks < required_blocks then None
      else
        let combined = ReadOrderedCheckpointWindowBytes read block_bytes container_blocks ordered_blocks required_blocks in
        if length combined < required_blocks * block_bytes then None
        else if take 12 combined \<noteq> magic then None
        else if length combined < 20 \<or> ReadLe64 combined 12 \<noteq> target_xid then None
        else Some combined)"

fun first_window :: "('a \<Rightarrow> byte list option) \<Rightarrow> 'a list \<Rightarrow> byte list option" where
  "first_window f [] = None"
| "first_window f (w # ws) = (case f w of Some combined \<Rightarrow> Some combined | None \<Rightarrow> first_window f ws)"

definition resize_bytes :: "nat \<Rightarrow> byte list \<Rightarrow> byte list" where
  "resize_bytes n bs = take n bs @ replicate (n - length bs) 0"

definition ReadChunkedCheckpointBytes ::
  "device_read \<Rightarrow> nat \<Rightarrow> nat \<Rightarrow> nat list \<Rightarrow> nat \<Rightarrow> byte list \<Rightarrow> nat \<Rightarrow> byte list" where
  "ReadChunkedCheckpointBytes read block_bytes container_blocks block_indices target_xid magic expected_payload_bytes =
     (if block_indices = [] \<or> block_bytes = 0 then []
      else
        let required_bytes = kCheckpointHeaderBytes + expected_payload_bytes;
            required_blocks = (required_bytes + block_bytes - 1) div block_bytes
        in if required_blocks = 0 \<or> required_blocks > length block_indices then []
           else
             let block_orders = SelectChunkedCheckpointBlockWindows block_indices target_xid required_blocks @
                   [RotateCheckpointBlocks block_indices target_xid]
             in case first_window
                       (window_bytes read block_bytes container_blocks magic target_xid required_blocks) block_orders of
                  None \<Rightarrow> []
                | Some combined \<Rightarrow> resize_bytes required_bytes combined)"

section \<open>Writing a checkpoint\<close>

definition HasPhysicalObjectMapping :: "ApfsObjectMapEntry \<Rightarrow> bool" where
  "HasPhysicalObjectMapping update =
     (om_object_id update \<noteq> 0 \<and> om_physical_address update \<noteq> 0 \<and> om_logical_size update \<noteq> 0)"

text \<open>The committed object map is the list of the entries of its hash map.\<close>

definition OrderedCommittedObjectMapEntries ::
  "(nat \<times> ApfsObjectMapEntry) list \<Rightarrow> ApfsObjectMapEntry list" where
  "OrderedCommittedObjectMapEntries committed_object_map =
     map snd (sort_key fst (filter (\<lambda>(object_id, update). HasPhysicalObjectMapping update) committed_object_map))"

fun write_entries :: "byte list \<Rightarrow> nat \<Rightarrow> ApfsObjectMapEntry list \<Rightarrow> byte list" where
  "write_entries block cursor [] = block"
| "write_entries block cursor (e # es) =
     write_entries
       (WriteLe64 (WriteLe64 (WriteLe64 (WriteLe64 block cursor (om_object_id e))
          (cursor + 8) (om_physical_address e)) (cursor + 16) (om_logical_size e)) (cursor + 24) (om_xid e))
       (cursor + 32) es"

fun write_extents :: "byte list \<Rightarrow> nat \<Rightarrow> Extent list \<Rightarrow> byte list" where
  "write_extents block cursor [] = block"
| "write_extents block cursor (e # es) =
     write_extents (WriteLe64 (WriteLe64 block cursor (physical_address e)) (cursor + 8) (bytes e)) (cursor + 16) es"

definition write_magic :: "byte list \<Rightarrow> byte list \<Rightarrow> byte list" where
  "write_magic magic block = magic @ drop (length magic) block"

definition PersistObjectMapCheckpoint ::
  "bool \<Rightarrow> CheckpointContext \<Rightarrow> SpacemanLedger \<Rightarrow> (nat \<times> ApfsObjectMapEntry) list \<Rightarrow> nat \<Rightarrow> WriteSpan list option" where
  "PersistObjectMapCheckpoint slot_index_enabled ctx s committed_object_map target_xid =
     (let unit = block_size (geometry s);
          object_map_blocks = ResolveObjectMapCheckpointBlockIndices ctx (total_blocks (geometry s));
          object_entries = OrderedCommittedObjectMapEntries committed_object_map;
          required_bytes = kCheckpointHeaderBytes + length object_entries * 32
      in if object_map_blocks = [] then None
         else if unit = 0 \<or> length object_map_blocks > u64_max div unit then None
         else if required_bytes > length object_map_blocks * unit \<or> required_bytes < kCheckpointHeaderBytes \<or>
                 required_bytes - kCheckpointHeaderBytes > u32_max then None
         else
           let target_slots = SelectWritableChunkedCheckpointBlocks slot_index_enabled s object_map_blocks target_xid
                 ((required_bytes + unit - 1) div unit)
           in if target_slots = [] then None
              else
                let block = write_magic object_map_magic (replicate required_bytes 0);
                    block = WriteLe64 block 12 target_xid;
                    block = WriteLe32 block 20 (length object_entries);
                    block = write_entries block kCheckpointHeaderBytes object_entries;
                    payload_bytes = length object_entries * 32;
                    block = WriteLe32 block 24 payload_bytes;
                    block = WriteLe32 block kCheckpointChecksumOffset (ComputeCheckpointChecksum block payload_bytes)
                in case PadCheckpointWriteDataToBlockBoundary unit block of
                     None \<Rightarrow> None
                   | Some data \<Rightarrow> AppendSelectedChunkedCheckpointWriteSpans unit target_slots data)"

definition PersistSpacemanCheckpoint :: "bool \<Rightarrow> SpacemanLedger \<Rightarrow> nat \<Rightarrow> WriteSpan list option" where
  "PersistSpacemanCheckpoint slot_index_enabled s target_xid =
     (let unit = block_size (geometry s);
          spaceman_blocks = ResolveSpacemanCheckpointBlockIndices (total_blocks (geometry s));
          canonical = IsCanonicalSpacemanExtents (committed_allocations s) \<and>
                      IsCanonicalSpacemanExtents (committed_free s);
          (allocations_ok, allocations) = (if canonical then (True, committed_allocations s)
                                           else NormalizeSpacemanExtents (committed_allocations s));
          (free_ok, free_extents) = (if canonical then (True, committed_free s)
                                     else NormalizeSpacemanExtents (committed_free s));
          required_entries = length allocations + length free_extents;
          required_bytes = kCheckpointHeaderBytes + required_entries * 16
      in if spaceman_blocks = [] then None
         else if \<not> allocations_ok \<or> \<not> free_ok then None
         else if required_entries > (u64_max - kCheckpointHeaderBytes) div 16 \<or> required_entries > u32_max then None
         else if unit = 0 \<or> length spaceman_blocks > u64_max div unit then None
         else
           let compact_blocks = kNativeInodeCheckpointOffset - kNativeSpacemanCheckpointOffset;
               spaceman_blocks = (if length spaceman_blocks \<ge> compact_blocks \<and> required_bytes \<le> compact_blocks * unit
                                  then take compact_blocks spaceman_blocks else spaceman_blocks)
           in if required_bytes > length spaceman_blocks * unit then None
              else
                let target_slots = SelectWritableChunkedCheckpointBlocks slot_index_enabled s spaceman_blocks
                      target_xid ((required_bytes + unit - 1) div unit)
                in if target_slots = [] then None
                   else
                     let block = write_magic spaceman_magic (replicate required_bytes 0);
                         block = WriteLe64 block 12 target_xid;
                         block = WriteLe32 block 20 (length allocations);
                         block = WriteLe32 block 24 (length free_extents);
                         block = write_extents block kCheckpointHeaderBytes allocations;
                         block = write_extents block (kCheckpointHeaderBytes + length allocations * 16) free_extents;
                         payload_bytes = required_entries * 16;
                         block = WriteLe32 block kCheckpointChecksumOffset (ComputeCheckpointChecksum block payload_bytes)
                     in case PadCheckpointWriteDataToBlockBoundary unit block of
                          None \<Rightarrow> None
                        | Some data \<Rightarrow> AppendSelectedChunkedCheckpointWriteSpans unit target_slots data)"

section \<open>Loading a checkpoint\<close>

text \<open>
  The fields \<^verbatim>\<open>CanLoadNativeCheckpointXid\<close> reads; \<open>raw_device\<close> and
  \<open>requires_canonical\<close> are the answers of \<^verbatim>\<open>IsLikelyRawDevicePath\<close> and
  \<^verbatim>\<open>RequiresCanonicalNonFixtureCommitPath\<close>.
\<close>

record CheckpointLoadContext =
  loaded_superblock_checkpoint_xid :: nat
  replay_checkpoint_load_xid :: "nat option"
  raw_device :: bool
  requires_canonical :: bool

definition CanLoadNativeCheckpointXid :: "CheckpointLoadContext \<Rightarrow> nat \<Rightarrow> bool" where
  "CanLoadNativeCheckpointXid c persisted_xid =
     (if persisted_xid \<le> loaded_superblock_checkpoint_xid c then True
      else case replay_checkpoint_load_xid c of
        Some xid \<Rightarrow> persisted_xid = xid
      | None \<Rightarrow>
          if raw_device c then False
          else if \<not> requires_canonical c \<or> loaded_superblock_checkpoint_xid c = u64_max then False
          else persisted_xid = loaded_superblock_checkpoint_xid c + 1)"

definition ReadBlockByIndexDirect :: "device_read \<Rightarrow> StoreGeometry \<Rightarrow> nat \<Rightarrow> byte list option" where
  "ReadBlockByIndexDirect read g block_index =
     (if block_size g = 0 \<or> block_index = 0 then None
      else if total_blocks g \<noteq> 0 \<and> block_index \<ge> total_blocks g then None
      else if block_index > u64_max div block_size g then None
      else case read (block_index * block_size g) (block_size g) of
             None \<Rightarrow> None
           | Some out_block \<Rightarrow> if length out_block \<ge> block_size g then Some out_block else None)"

definition later_xid :: "nat option \<Rightarrow> nat \<Rightarrow> nat option" where
  "later_xid last_committed_xid persisted_xid =
     (if persisted_xid > 0
      then Some (max (case last_committed_xid of None \<Rightarrow> 0 | Some x \<Rightarrow> x) persisted_xid)
      else last_committed_xid)"

definition object_map_payload :: "device_read \<Rightarrow> CheckpointContext \<Rightarrow> StoreGeometry \<Rightarrow> byte list \<Rightarrow> byte list" where
  "object_map_payload read ctx g block =
     (let persisted_xid_hint = ReadLe64 block 12; persisted_payload_bytes = ReadLe32 block 24 in
      if persisted_payload_bytes > length block - kCheckpointHeaderBytes then
        let payload_block = ReadChunkedCheckpointBytes read (block_size g) (total_blocks g)
              (ResolveObjectMapCheckpointBlockIndices ctx (total_blocks g))
              persisted_xid_hint object_map_magic persisted_payload_bytes
        in if payload_block = [] then
             ReadChunkedCheckpointBytes read (block_size g) (total_blocks g)
               (ResolveLegacyContiguousCheckpointBlocks (ResolveNativeCheckpointBandStartBlock (total_blocks g))
                 kNativeObjectMapCheckpointOffset
                 (kNativeSpacemanCheckpointOffset - kNativeObjectMapCheckpointOffset)
                 (IsNativeCheckpointBandBlock (total_blocks g)))
               persisted_xid_hint object_map_magic persisted_payload_bytes
           else payload_block
      else block)"

text \<open>The new object map and last committed transaction; \<^term>\<open>None\<close> leaves both unchanged.\<close>

definition LoadObjectMapCheckpointBlock ::
  "device_read \<Rightarrow> CheckpointContext \<Rightarrow> CheckpointLoadContext \<Rightarrow> StoreGeometry \<Rightarrow> nat option \<Rightarrow> byte list \<Rightarrow>
     ((nat \<times> ApfsObjectMapEntry) list \<times> nat option) option" where
  "LoadObjectMapCheckpointBlock read ctx c g last_committed_xid block =
     (if length block < kCheckpointHeaderBytes then None
      else
        let payload_block = object_map_payload read ctx g block in
        if payload_block = [] then None
        else case ParseObjectMapCheckpointV3 payload_block of
          None \<Rightarrow> None
        | Some (parsed_entries, persisted_xid) \<Rightarrow>
            if \<not> CanLoadNativeCheckpointXid c persisted_xid then None
            else Some (map (\<lambda>e. (om_object_id e, e)) (filter HasPhysicalObjectMapping parsed_entries),
                       later_xid last_committed_xid persisted_xid))"

text \<open>The loop that copies aligned extents; the second component is what it copied before it stopped.\<close>

fun copy_aligned :: "StoreGeometry \<Rightarrow> Extent list \<Rightarrow> bool \<times> Extent list" where
  "copy_aligned g [] = (True, [])"
| "copy_aligned g (e # es) =
     (let aligned_bytes = AlignExtentBytes g (bytes e) in
      if aligned_bytes = 0 \<or> aligned_bytes \<noteq> bytes e then (False, [])
      else let (ok, rest) = copy_aligned g es in (ok, mk_extent (physical_address e) aligned_bytes # rest))"

definition spaceman_payload :: "device_read \<Rightarrow> StoreGeometry \<Rightarrow> byte list \<Rightarrow> byte list" where
  "spaceman_payload read g block =
     (let persisted_xid_hint = ReadLe64 block 12;
          total_records = ReadLe32 block 20 + ReadLe32 block 24
      in if total_records > u32_max div 16 then []
         else
           let persisted_payload_bytes = total_records * 16 in
           if persisted_payload_bytes > length block - kCheckpointHeaderBytes then
             ReadChunkedCheckpointBytes read (block_size g) (total_blocks g)
               (ResolveSpacemanCheckpointBlockIndices (total_blocks g))
               persisted_xid_hint spaceman_magic persisted_payload_bytes
           else block)"

definition tail_after :: "nat \<Rightarrow> Extent list \<Rightarrow> nat" where
  "tail_after next_ephemeral allocations =
     foldl (\<lambda>nxt e. if add64 (physical_address e) (bytes e) > nxt
                    then add64 (physical_address e) (bytes e) else nxt) next_ephemeral allocations"

text \<open>
  The part of the loader on the ledger; the working copies of the read extents, which it resets,
  are not part of the ledger.  \<^term>\<open>None\<close> is a walk of the parser that does not end.
\<close>

definition LoadSpacemanCheckpointBlock ::
  "device_read \<Rightarrow> CheckpointLoadContext \<Rightarrow> byte list \<Rightarrow> SpacemanLedger \<times> nat option \<Rightarrow>
     (bool \<times> SpacemanLedger \<times> nat option) option" where
  "LoadSpacemanCheckpointBlock read c block st =
     (let (s0, last_committed_xid) = st;
          s = s0\<lparr>working_free_sanitized := False\<rparr>;
          failed = (\<lambda>s. Some (False, s, last_committed_xid))
      in if length block < kCheckpointHeaderBytes then failed s
         else
           let payload_block = spaceman_payload read (geometry s) block in
           if payload_block = [] then failed s
           else case ParseSpacemanCheckpointV3 payload_block of
             None \<Rightarrow> None
           | Some None \<Rightarrow> failed s
           | Some (Some (parsed_allocations, parsed_free, persisted_xid)) \<Rightarrow>
               if \<not> CanLoadNativeCheckpointXid c persisted_xid then failed s
               else
                 let (allocations_ok, allocations) = copy_aligned (geometry s) parsed_allocations;
                     s = s\<lparr>committed_allocations := allocations\<rparr>
                 in if \<not> allocations_ok then failed s
                    else
                      let (free_ok, free_extents) = copy_aligned (geometry s) parsed_free;
                          s = s\<lparr>committed_free := free_extents\<rparr>
                      in if \<not> free_ok then failed s
                         else
                           let (ok, allocations) = NormalizeSpacemanExtents (committed_allocations s);
                               s = s\<lparr>committed_allocations := allocations\<rparr>
                           in if \<not> ok then failed s
                              else
                                let (ok, free_extents) = NormalizeSpacemanExtents (committed_free s);
                                    s = s\<lparr>committed_free := free_extents\<rparr>
                                in if \<not> ok then failed s
                                   else
                                     let nxt = tail_after (next_ephemeral_extent s) (committed_allocations s) in
                                     Some (True, s\<lparr>next_ephemeral_extent := nxt, working_free := committed_free s,
                                                   working_next_ephemeral_extent := nxt\<rparr>,
                                           later_xid last_committed_xid persisted_xid))"

end
