(* ===== verification/CheckpointFamilyCodec.thy ===== *)
theory CheckpointFamilyCodec
  imports CheckpointFamily
begin

text \<open>
  The codecs of the object map and spaceman checkpoints: the validation of a spaceman state is
  exact, the writers serialize a header, a checksum and the records, and the parsers read them
  back, whatever padding follows.
\<close>

section \<open>Validation of the spaceman state\<close>

definition apart :: "Extent \<Rightarrow> Extent \<Rightarrow> bool" where
  "apart a b \<longleftrightarrow> range_of a \<inter> range_of b = {}"

lemma apart_sym: "apart a b \<longleftrightarrow> apart b a"
  by (auto simp: apart_def)

lemma sorted_wrt_apart_mset:
  "mset xs = mset ys \<Longrightarrow> sorted_wrt apart xs \<longleftrightarrow> sorted_wrt apart ys"
proof (induction xs arbitrary: ys)
  case Nil
  then show ?case by simp
next
  case (Cons x xs)
  then have "x \<in> set ys" by (metis list.set_intros(1) set_mset_mset)
  then obtain us vs where ys: "ys = us @ x # vs" by (meson split_list)
  then have m: "mset xs = mset (us @ vs)" using Cons.prems by simp
  then have "set xs = set us \<union> set vs" by (metis set_append set_mset_mset)
  then show ?case
    using Cons.IH [OF m] by (auto simp: ys sorted_wrt_append apart_sym [of _ x])
qed

lemma normalized_loop_eq: "normalized_loop p es \<longleftrightarrow> sorted_extents_loop False p es"
  by (induction es arbitrary: p) (auto split: option.splits)

lemma behind_apart:
  assumes "valid_extent a" "valid_extent b" "physical_address a \<le> physical_address b"
  shows "behind a b \<longleftrightarrow> apart a b"
  using assms ivl_disjoint_iff [of "bytes a" "bytes b" "physical_address a" "physical_address b"]
  by (auto simp: behind_def apart_def range_of_def valid_extent_iff)

lemma build_normalized_iff:
  "build_normalized es = Some ns \<longleftrightarrow>
     ns = sort_key extent_key es \<and> (\<forall>e \<in> set es. valid_extent e) \<and> sorted_wrt apart es"
proof -
  let ?ns = "sort_key extent_key es"
  have "sorted_wrt behind ?ns \<longleftrightarrow> sorted_wrt apart ?ns" if v: "\<forall>e \<in> set ?ns. valid_extent e"
  proof -
    have s: "sorted_wrt (\<lambda>a b. physical_address a \<le> physical_address b) ?ns"
    proof -
      have "sorted (map extent_key ?ns)" by simp
      then show ?thesis unfolding sorted_map
        by (rule sorted_wrt_mono_rel [rotated]) (auto simp: extent_key_def)
    qed
    show ?thesis
    proof
      assume "sorted_wrt behind ?ns"
      then show "sorted_wrt apart ?ns"
        by (rule sorted_wrt_mono_rel [rotated]) (auto simp: behind_def apart_def range_of_def mem_ivl)
    next
      assume a: "sorted_wrt apart ?ns"
      show "sorted_wrt behind ?ns"
        unfolding sorted_wrt_iff_nth_less
      proof (intro allI impI)
        fix i j assume ij: "i < j" "j < length ?ns"
        then have "physical_address (?ns ! i) \<le> physical_address (?ns ! j)" "apart (?ns ! i) (?ns ! j)"
          using s a unfolding sorted_wrt_iff_nth_less by blast+
        moreover have "valid_extent (?ns ! i)" "valid_extent (?ns ! j)"
          using v nth_mem [of i ?ns] nth_mem [of j ?ns] ij by auto
        ultimately show "behind (?ns ! i) (?ns ! j)" using behind_apart by blast
      qed
    qed
  qed
  moreover have "sorted_wrt apart ?ns \<longleftrightarrow> sorted_wrt apart es" by (rule sorted_wrt_apart_mset) simp
  ultimately show ?thesis
    by (auto simp: build_normalized_def normalized_loop_eq sorted_extents_loop_iff Let_def)
qed

lemma disjoint_walk_total:
  assumes "\<forall>e \<in> set as. valid_extent e" "sorted_wrt behind as"
    and "\<forall>e \<in> set fs. valid_extent e" "sorted_wrt behind fs"
  shows "disjoint_walk as fs = Some (space as \<inter> space fs = {})"
  using assms
proof (induction "length as + length fs" arbitrary: as fs rule: less_induct)
  case less
  show ?case
  proof (cases "as = [] \<or> fs = []")
    case True
    then show ?thesis by (subst disjoint_walk.simps) (auto split: list.split)
  next
    case False
    then obtain a as' f fs' where l: "as = a # as'" "fs = f # fs'" by (meson neq_Nil_conv)
    have v: "valid_extent a" "valid_extent f" using less.prems l by auto
    have after: "physical_address f + bytes f \<le> x" if "x \<in> space fs'" for x
      using that less.prems(4) l by (fastforce simp: space_def behind_def range_of_def mem_ivl)
    have after': "physical_address a + bytes a \<le> x" if "x \<in> space as'" for x
      using that less.prems(2) l by (fastforce simp: space_def behind_def range_of_def mem_ivl)
    consider (left) "physical_address a + bytes a \<le> physical_address f"
      | (right) "\<not> physical_address a + bytes a \<le> physical_address f" "physical_address f + bytes f \<le> physical_address a"
      | (hit) "physical_address f < physical_address a + bytes a" "physical_address a < physical_address f + bytes f"
      by linarith
    then show ?thesis
    proof cases
      case left
      then have "disjoint_walk as fs = disjoint_walk as' fs"
        unfolding l by (subst disjoint_walk.simps) (simp add: Let_def)
      moreover have "range_of a \<inter> space fs = {}"
        using left after l(2) by (fastforce simp: range_of_def mem_ivl)
      ultimately show ?thesis using less.hyps [of as' fs] less.prems l by (auto simp: Int_Un_distrib2)
    next
      case right
      then have "disjoint_walk as fs = disjoint_walk as fs'"
        unfolding l by (subst disjoint_walk.simps) (simp add: Let_def)
      moreover have "space as \<inter> range_of f = {}"
        using right after' l(1) by (fastforce simp: range_of_def mem_ivl)
      ultimately show ?thesis using less.hyps [of as fs'] less.prems l by (auto simp: Int_Un_distrib)
    next
      case hit
      then have "disjoint_walk as fs = Some False"
        unfolding l by (subst disjoint_walk.simps) (simp add: Let_def)
      moreover have "max (physical_address a) (physical_address f) \<in> range_of a \<inter> range_of f"
        using hit v by (auto simp: range_of_def mem_ivl valid_extent_iff)
      ultimately show ?thesis using l by auto
    qed
  qed
qed

lemma ValidateState_iff:
  "ValidateState as fs = Some (list_all valid_extent (as @ fs) \<and> sorted_wrt apart (as @ fs))"
proof -
  show ?thesis
  proof (cases "(\<forall>e \<in> set as. valid_extent e) \<and> sorted_wrt apart as \<and> (\<forall>e \<in> set fs. valid_extent e) \<and> sorted_wrt apart fs")
    case False
    then have "build_normalized as = None \<or> build_normalized fs = None"
      by (metis build_normalized_iff not_Some_eq)
    then show ?thesis
      using False unfolding ValidateState_def by (auto simp: sorted_wrt_append list_all_iff split: option.split)
  next
    case True
    let ?as = "sort_key extent_key as" let ?fs = "sort_key extent_key fs"
    have n: "build_normalized as = Some ?as" "build_normalized fs = Some ?fs"
      using True by (simp_all add: build_normalized_iff)
    then have b: "sorted_wrt behind ?as" "sorted_wrt behind ?fs"
      by (auto simp: build_normalized_def normalized_loop_eq sorted_extents_loop_iff Let_def split: if_splits)
    have "ValidateState as fs = Some (space ?as \<inter> space ?fs = {})"
      using disjoint_walk_total [OF _ b(1) _ b(2)] True n by (simp add: ValidateState_def)
    moreover have "space ?as = space as" "space ?fs = space fs" by (simp_all add: space_def)
    moreover have "space as \<inter> space fs = {} \<longleftrightarrow> (\<forall>a \<in> set as. \<forall>f \<in> set fs. apart a f)"
      by (auto simp: space_def apart_def)
    ultimately show ?thesis using True by (auto simp: sorted_wrt_append list_all_iff)
  qed
qed

text \<open>
  C36. \<^verbatim>\<open>ValidateState\<close> always returns, although its walk has a branch without
  progress, and accepts exactly the states in which every extent is valid and no two extents,
  allocated or free, share a byte.
\<close>

theorem ValidateState_exact:
  "ValidateState as fs =
     Some (list_all valid_extent (as @ fs) \<and> sorted_wrt (\<lambda>a b. range_of a \<inter> range_of b = {}) (as @ fs))"
  using ValidateState_iff [of as fs] unfolding apart_def .

section \<open>Serialized blocks\<close>

lemma WriteLe64_at [codec_simps]:
  "length pre = off \<Longrightarrow> length mid = 8 \<Longrightarrow> WriteLe64 (pre @ mid @ post) off v = pre @ le_bytes 8 v @ post"
  by (auto simp: WriteLe64_def)

lemma WriteLe32_at [codec_simps]:
  "length pre = off \<Longrightarrow> length mid = 4 \<Longrightarrow> WriteLe32 (pre @ mid @ post) off v = pre @ le_bytes 4 v @ post"
  by (auto simp: WriteLe32_def)

lemma ReadLe64_at [codec_simps]:
  "length pre = off \<Longrightarrow> v \<le> u64_max \<Longrightarrow> ReadLe64 (pre @ le_bytes 8 v @ post) off = v"
  by (auto simp: ReadLe64_def u64_max_def)

lemma ReadLe32_at [codec_simps]:
  "length pre = off \<Longrightarrow> v \<le> u32_max \<Longrightarrow> ReadLe32 (pre @ le_bytes 4 v @ post) off = v"
  by (auto simp: ReadLe32_def u32_max_def)

definition entry_bytes :: "ApfsObjectMapEntry \<Rightarrow> byte list" where
  "entry_bytes e = le_bytes 8 (om_object_id e) @ le_bytes 8 (om_physical_address e) @
     le_bytes 8 (om_logical_size e) @ le_bytes 8 (om_xid e)"

definition extent_bytes :: "Extent \<Rightarrow> byte list" where
  "extent_bytes e = le_bytes 8 (physical_address e) @ le_bytes 8 (bytes e)"

lemma length_entry_bytes [simp]: "length (entry_bytes e) = 32" by (simp add: entry_bytes_def)
lemma length_extent_bytes [simp]: "length (extent_bytes e) = 16" by (simp add: extent_bytes_def)

lemma length_concat_entries [simp]: "length (concat (map entry_bytes es)) = length es * 32"
  by (induction es) simp_all
lemma length_concat_extents [simp]: "length (concat (map extent_bytes es)) = length es * 16"
  by (induction es) simp_all

definition entry_bounded :: "ApfsObjectMapEntry \<Rightarrow> bool" where
  "entry_bounded e \<longleftrightarrow> om_object_id e \<le> u64_max \<and> om_physical_address e \<le> u64_max \<and>
     om_logical_size e \<le> u64_max \<and> om_xid e \<le> u64_max"

lemma write_entries_zeros:
  "write_entries (pre @ replicate (length es * 32) 0 @ post) (length pre) es = pre @ concat (map entry_bytes es) @ post"
proof (induction es arbitrary: pre)
  case Nil
  then show ?case by simp
next
  case (Cons e es)
  let ?z = "replicate 8 (0::byte)"
  have z: "replicate (length (e # es) * 32) (0::byte) = ?z @ ?z @ ?z @ ?z @ replicate (length es * 32) 0"
    by (simp flip: replicate_add)
  let ?rest = "replicate (length es * 32) 0 @ post"
  have "WriteLe64 (pre @ ?z @ ?z @ ?z @ ?z @ ?rest) (length pre) (om_object_id e) =
      pre @ le_bytes 8 (om_object_id e) @ ?z @ ?z @ ?z @ ?rest"
    by (rule WriteLe64_at) simp_all
  moreover have "WriteLe64 ((pre @ a) @ ?z @ ?z @ ?z @ ?rest) (length pre + 8) v = (pre @ a) @ le_bytes 8 v @ ?z @ ?z @ ?rest"
    if "length a = 8" for a v by (rule WriteLe64_at) (simp_all add: that)
  moreover have "WriteLe64 ((pre @ a @ b) @ ?z @ ?z @ ?rest) (length pre + 16) v = (pre @ a @ b) @ le_bytes 8 v @ ?z @ ?rest"
    if "length a = 8" "length b = 8" for a b v by (rule WriteLe64_at) (simp_all add: that)
  moreover have "WriteLe64 ((pre @ a @ b @ c) @ ?z @ ?rest) (length pre + 24) v = (pre @ a @ b @ c) @ le_bytes 8 v @ ?rest"
    if "length a = 8" "length b = 8" "length c = 8" for a b c v by (rule WriteLe64_at) (simp_all add: that)
  ultimately have "write_entries (pre @ replicate (length (e # es) * 32) 0 @ post) (length pre) (e # es) =
      write_entries ((pre @ entry_bytes e) @ ?rest) (length (pre @ entry_bytes e)) es"
    unfolding z by (simp add: entry_bytes_def)
  then show ?case using Cons.IH [of "pre @ entry_bytes e"] by simp
qed

lemma write_extents_zeros:
  "write_extents (pre @ replicate (length es * 16) 0 @ post) (length pre) es = pre @ concat (map extent_bytes es) @ post"
proof (induction es arbitrary: pre)
  case Nil
  then show ?case by simp
next
  case (Cons e es)
  let ?z = "replicate 8 (0::byte)"
  have z: "replicate (length (e # es) * 16) (0::byte) = ?z @ ?z @ replicate (length es * 16) 0"
    by (simp flip: replicate_add)
  let ?rest = "replicate (length es * 16) 0 @ post"
  have "WriteLe64 (pre @ ?z @ ?z @ ?rest) (length pre) (physical_address e) =
      pre @ le_bytes 8 (physical_address e) @ ?z @ ?rest" by (rule WriteLe64_at) simp_all
  moreover have "WriteLe64 ((pre @ a) @ ?z @ ?rest) (length pre + 8) v = (pre @ a) @ le_bytes 8 v @ ?rest"
    if "length a = 8" for a v by (rule WriteLe64_at) (simp_all add: that)
  ultimately have "write_extents (pre @ replicate (length (e # es) * 16) 0 @ post) (length pre) (e # es) =
      write_extents ((pre @ extent_bytes e) @ ?rest) (length (pre @ extent_bytes e)) es"
    unfolding z by (simp add: extent_bytes_def)
  then show ?case using Cons.IH [of "pre @ extent_bytes e"] by simp
qed

lemma entry_fields:
  fixes pre rest :: "byte list"
  assumes "entry_bounded e"
  defines "all \<equiv> pre @ entry_bytes e @ rest"
  shows "\<lparr>om_object_id = ReadLe64 all (length pre), om_physical_address = ReadLe64 all (length pre + 8),
     om_logical_size = ReadLe64 all (length pre + 16), om_xid = ReadLe64 all (length pre + 24)\<rparr> = e"
proof -
  let ?a = "le_bytes 8 (om_object_id e)" let ?b = "le_bytes 8 (om_physical_address e)" let ?c = "le_bytes 8 (om_logical_size e)"
  have e: "all = pre @ ?a @ ?b @ ?c @ le_bytes 8 (om_xid e) @ rest" by (simp add: all_def entry_bytes_def)
  have b: "om_object_id e \<le> u64_max" "om_physical_address e \<le> u64_max" "om_logical_size e \<le> u64_max" "om_xid e \<le> u64_max"
    using assms(1) by (auto simp: entry_bounded_def)
  have "ReadLe64 all (length pre) = om_object_id e" unfolding e by (rule ReadLe64_at) (simp_all add: b)
  moreover have "ReadLe64 all (length pre + 8) = om_physical_address e"
    unfolding e using ReadLe64_at [of "pre @ ?a" "length pre + 8" "om_physical_address e"] b by simp
  moreover have "ReadLe64 all (length pre + 16) = om_logical_size e"
    unfolding e using ReadLe64_at [of "pre @ ?a @ ?b" "length pre + 16" "om_logical_size e"] b by simp
  moreover have "ReadLe64 all (length pre + 24) = om_xid e"
    unfolding e using ReadLe64_at [of "pre @ ?a @ ?b @ ?c" "length pre + 24" "om_xid e"] b by simp
  ultimately show ?thesis by simp
qed

lemma read_entries_bytes:
  "\<forall>e \<in> set es. entry_bounded e \<Longrightarrow>
     read_entries (pre @ concat (map entry_bytes es) @ post) (length pre) (length es) = Some es"
proof (induction es arbitrary: pre)
  case Nil
  then show ?case by simp
next
  case (Cons e es)
  define all where "all = pre @ entry_bytes e @ concat (map entry_bytes es) @ post"
  note f = entry_fields [of e pre "concat (map entry_bytes es) @ post", folded all_def]
  have "read_entries all (length pre + 32) (length es) = Some es"
    using Cons.IH [of "pre @ entry_bytes e"] Cons.prems by (simp add: all_def)
  moreover have "\<not> (length pre > length all \<or> 32 > length all - length pre)" by (simp add: all_def)
  ultimately have "read_entries all (length pre) (Suc (length es)) = Some (e # es)"
    using Cons.prems f by (simp add: Let_def)
  then show ?case by (simp add: all_def)
qed

lemma extent_fields:
  fixes pre rest :: "byte list"
  assumes "physical_address e \<le> u64_max" and "bytes e \<le> u64_max"
  defines "all \<equiv> pre @ extent_bytes e @ rest"
  shows "mk_extent (ReadLe64 all (length pre)) (ReadLe64 all (length pre + 8)) = e"
proof -
  let ?a = "le_bytes 8 (physical_address e)"
  have e: "all = pre @ ?a @ le_bytes 8 (bytes e) @ rest" by (simp add: all_def extent_bytes_def)
  have "ReadLe64 all (length pre) = physical_address e" unfolding e by (rule ReadLe64_at) (simp_all add: assms)
  moreover have "ReadLe64 all (length pre + 8) = bytes e"
    unfolding e using ReadLe64_at [of "pre @ ?a" "length pre + 8" "bytes e"] assms by simp
  ultimately show ?thesis by simp
qed

lemma read_extents_bytes:
  "\<forall>e \<in> set es. valid_extent e \<Longrightarrow>
     read_extents (pre @ concat (map extent_bytes es) @ post) (length pre) (length es) = Some es"
proof (induction es arbitrary: pre)
  case Nil
  then show ?case by simp
next
  case (Cons e es)
  define all where "all = pre @ extent_bytes e @ concat (map extent_bytes es) @ post"
  have v: "physical_address e \<noteq> 0" "bytes e \<noteq> 0" "physical_address e \<le> u64_max" "bytes e \<le> u64_max"
    using Cons.prems by (auto simp: valid_extent_iff)
  note f = extent_fields [OF v(3,4), of pre "concat (map extent_bytes es) @ post", folded all_def]
  have "read_extents all (length pre + 16) (length es) = Some es"
    using Cons.IH [of "pre @ extent_bytes e"] Cons.prems by (simp add: all_def)
  moreover have "\<not> (length pre > length all \<or> 16 > length all - length pre)" by (simp add: all_def)
  ultimately have "read_extents all (length pre) (Suc (length es)) = Some (e # es)"
    using v unfolding read_extents.simps Let_def f by simp
  then show ?case by (simp add: all_def)
qed

text \<open>The header and the checksum of a block; both families have the same layout.\<close>

definition header_bytes :: "byte list \<Rightarrow> nat \<Rightarrow> nat \<Rightarrow> nat \<Rightarrow> byte list" where
  "header_bytes magic xid m n = magic @ le_bytes 8 xid @ le_bytes 4 m @ le_bytes 4 n"

definition payload_hash :: "byte list \<Rightarrow> byte list \<Rightarrow> nat" where
  "payload_hash header payload = unat (UpdateFnv1a (UpdateFnv1a fnv_seed header) payload)"

definition checkpoint_bytes :: "byte list \<Rightarrow> nat \<Rightarrow> nat \<Rightarrow> nat \<Rightarrow> byte list \<Rightarrow> byte list" where
  "checkpoint_bytes magic xid m n payload =
     header_bytes magic xid m n @ le_bytes 4 (payload_hash (header_bytes magic xid m n) payload) @ payload"

lemma payload_hash_bound: "payload_hash h p \<le> u32_max"
proof -
  have "unat (UpdateFnv1a (UpdateFnv1a fnv_seed h) p) < 2 ^ LENGTH(32)" by (rule unsigned_less)
  then show ?thesis by (simp add: payload_hash_def u32_max_def)
qed

lemma ComputeCheckpointChecksum_bytes:
  assumes "length h = 28" and "length c = 4"
  shows "ComputeCheckpointChecksum (h @ c @ p @ post) (length p) = payload_hash h p"
  using assms by (auto simp: ComputeCheckpointChecksum_def kCheckpointHeaderBytes_def kCheckpointChecksumOffset_def
      payload_hash_def Let_def)

lemma checkpoint_fields:
  assumes "length magic = 12" and "xid \<le> u64_max" and "m \<le> u32_max" and "n \<le> u32_max"
  shows "ReadLe64 (checkpoint_bytes magic xid m n p @ post) 12 = xid"
    and "ReadLe32 (checkpoint_bytes magic xid m n p @ post) 20 = m"
    and "ReadLe32 (checkpoint_bytes magic xid m n p @ post) 24 = n"
    and "ReadLe32 (checkpoint_bytes magic xid m n p @ post) 28 =
      ComputeCheckpointChecksum (checkpoint_bytes magic xid m n p @ post) (length p)"
    and "take 12 (checkpoint_bytes magic xid m n p @ post) = magic"
    and "length (checkpoint_bytes magic xid m n p) = 32 + length p"
proof -
  let ?h = "payload_hash (header_bytes magic xid m n) p"
  let ?rest = "le_bytes 4 ?h @ p @ post"
  have e: "checkpoint_bytes magic xid m n p @ post = magic @ le_bytes 8 xid @ le_bytes 4 m @ le_bytes 4 n @ ?rest"
    by (simp add: checkpoint_bytes_def header_bytes_def)
  show "ReadLe64 (checkpoint_bytes magic xid m n p @ post) 12 = xid"
    unfolding e by (rule ReadLe64_at) (use assms in simp_all)
  have "ReadLe32 ((magic @ le_bytes 8 xid) @ le_bytes 4 m @ le_bytes 4 n @ ?rest) 20 = m"
    by (rule ReadLe32_at) (use assms in simp_all)
  then show "ReadLe32 (checkpoint_bytes magic xid m n p @ post) 20 = m" unfolding e by simp
  have "ReadLe32 ((magic @ le_bytes 8 xid @ le_bytes 4 m) @ le_bytes 4 n @ ?rest) 24 = n"
    by (rule ReadLe32_at) (use assms in simp_all)
  then show "ReadLe32 (checkpoint_bytes magic xid m n p @ post) 24 = n" unfolding e by simp
  have "ReadLe32 ((magic @ le_bytes 8 xid @ le_bytes 4 m @ le_bytes 4 n) @ le_bytes 4 ?h @ p @ post) 28 = ?h"
    by (rule ReadLe32_at) (use assms payload_hash_bound in simp_all)
  moreover have "ComputeCheckpointChecksum (checkpoint_bytes magic xid m n p @ post) (length p) = ?h"
    using ComputeCheckpointChecksum_bytes [of "header_bytes magic xid m n" "le_bytes 4 ?h" p post] assms(1)
    by (simp add: checkpoint_bytes_def header_bytes_def)
  ultimately show "ReadLe32 (checkpoint_bytes magic xid m n p @ post) 28 =
      ComputeCheckpointChecksum (checkpoint_bytes magic xid m n p @ post) (length p)" unfolding e by simp
  show "take 12 (checkpoint_bytes magic xid m n p @ post) = magic" using assms(1) unfolding e by simp
  show "length (checkpoint_bytes magic xid m n p) = 32 + length p"
    using assms(1) by (simp add: checkpoint_bytes_def header_bytes_def)
qed

lemma magic_lengths [simp]: "length object_map_magic = 12" "length spaceman_magic = 12"
  by (simp_all add: object_map_magic_def spaceman_magic_def)

section \<open>Parsing a serialized block\<close>

definition object_map_bytes :: "ApfsObjectMapEntry list \<Rightarrow> nat \<Rightarrow> byte list" where
  "object_map_bytes es xid =
     checkpoint_bytes object_map_magic xid (length es) (length es * 32) (concat (map entry_bytes es))"

definition spaceman_bytes :: "Extent list \<Rightarrow> Extent list \<Rightarrow> nat \<Rightarrow> byte list" where
  "spaceman_bytes as fs xid =
     checkpoint_bytes spaceman_magic xid (length as) (length fs) (concat (map extent_bytes (as @ fs)))"

lemma parse_object_map_bytes:
  assumes "ValidateEntries es" and "\<forall>e \<in> set es. entry_bounded e" and "xid \<le> u64_max" and "length es * 32 \<le> u32_max"
  shows "ParseObjectMapCheckpointV3 (object_map_bytes es xid @ post) = Some (es, xid)"
proof -
  let ?b = "object_map_bytes es xid @ post" let ?p = "concat (map entry_bytes es)"
  have n: "length es \<le> u32_max" using assms(4) by linarith
  note f = checkpoint_fields [OF magic_lengths(1) assms(3) n assms(4), of ?p, folded object_map_bytes_def]
  obtain h where h: "object_map_bytes es xid = h @ ?p" "length h = 32"
  proof
    show "object_map_bytes es xid = (header_bytes object_map_magic xid (length es) (length es * 32) @
        le_bytes 4 (payload_hash (header_bytes object_map_magic xid (length es) (length es * 32)) ?p)) @ ?p"
      by (simp add: object_map_bytes_def checkpoint_bytes_def)
  qed (simp add: header_bytes_def)
  have "read_entries ?b 32 (length es) = Some es"
    using read_entries_bytes [OF assms(2), of h post] h by simp
  then show ?thesis
    using f assms(1) by (simp add: ParseObjectMapCheckpointV3_def kCheckpointHeaderBytes_def
        kCheckpointChecksumOffset_def Let_def)
qed

lemma parse_spaceman_bytes:
  assumes "\<forall>e \<in> set as \<union> set fs. valid_extent e" and "sorted_wrt apart (as @ fs)" and "xid \<le> u64_max"
    and "length as + length fs \<le> u32_max"
  shows "ParseSpacemanCheckpointV3 (spaceman_bytes as fs xid @ post) = Some (Some (as, fs, xid))"
proof -
  let ?b = "spaceman_bytes as fs xid @ post" let ?p = "concat (map extent_bytes (as @ fs))"
  have n: "length as \<le> u32_max" "length fs \<le> u32_max" using assms(4) by linarith+
  note f = checkpoint_fields [OF magic_lengths(2) assms(3) n, of ?p, folded spaceman_bytes_def]
  define h where "h = header_bytes spaceman_magic xid (length as) (length fs) @
      le_bytes 4 (payload_hash (header_bytes spaceman_magic xid (length as) (length fs)) ?p)"
  have h: "spaceman_bytes as fs xid = h @ ?p" "length h = 32"
    by (simp_all add: spaceman_bytes_def checkpoint_bytes_def header_bytes_def h_def)
  have "read_extents ?b 32 (length as) = Some as"
    using read_extents_bytes [of as h "concat (map extent_bytes fs) @ post"] assms(1) h by simp
  moreover have "read_extents ?b (32 + length as * 16) (length fs) = Some fs"
    using read_extents_bytes [of fs "h @ concat (map extent_bytes as)" post] assms(1) h by simp
  moreover have "ValidateState as fs = Some True"
    using ValidateState_iff [of as fs] assms(1,2) by (simp add: list_all_iff)
  moreover have "\<not> length as + length fs > u64_max div 16" using assms(4) by (simp add: u32_max_def u64_max_def)
  moreover have "length ?p = (length as + length fs) * 16" by (simp add: add_mult_distrib)
  ultimately show ?thesis
    using f by (simp add: ParseSpacemanCheckpointV3_def kCheckpointHeaderBytes_def kCheckpointChecksumOffset_def Let_def)
qed

section \<open>What the writers serialize\<close>

lemma object_map_block:
  fixes es :: "ApfsObjectMapEntry list"
  shows "(let block = write_magic object_map_magic (replicate (kCheckpointHeaderBytes + length es * 32) 0);
       block = WriteLe64 block 12 xid;
       block = WriteLe32 block 20 (length es);
       block = write_entries block kCheckpointHeaderBytes es;
       block = WriteLe32 block 24 (length es * 32)
   in WriteLe32 block kCheckpointChecksumOffset (ComputeCheckpointChecksum block (length es * 32)))
   = object_map_bytes es xid"
proof -
  let ?m = object_map_magic let ?z = "\<lambda>n. replicate n (0::byte)" let ?p = "concat (map entry_bytes es)"
  let ?x = "le_bytes 8 xid" let ?n = "le_bytes 4 (length es)" let ?k = "le_bytes 4 (length es * 32)"
  let ?zs = "?z (length es * 32)"
  have z: "write_magic ?m (?z (kCheckpointHeaderBytes + length es * 32)) = ?m @ ?z 8 @ ?z 4 @ ?z 4 @ ?z 4 @ ?zs"
    by (simp add: write_magic_def kCheckpointHeaderBytes_def flip: replicate_add)
  have 1: "WriteLe64 (?m @ ?z 8 @ ?z 4 @ ?z 4 @ ?z 4 @ ?zs) 12 xid = ?m @ ?x @ ?z 4 @ ?z 4 @ ?z 4 @ ?zs"
    by (rule WriteLe64_at) simp_all
  have 2: "WriteLe32 (?m @ ?x @ ?z 4 @ ?z 4 @ ?z 4 @ ?zs) 20 (length es) = ?m @ ?x @ ?n @ ?z 4 @ ?z 4 @ ?zs"
    using WriteLe32_at [of "?m @ ?x" 20 "?z 4" "?z 4 @ ?z 4 @ ?zs"] by simp
  have 3: "write_entries (?m @ ?x @ ?n @ ?z 4 @ ?z 4 @ ?zs) kCheckpointHeaderBytes es = ?m @ ?x @ ?n @ ?z 4 @ ?z 4 @ ?p"
    using write_entries_zeros [of "?m @ ?x @ ?n @ ?z 4 @ ?z 4" es "[]"] by (simp add: kCheckpointHeaderBytes_def)
  have 4: "WriteLe32 (?m @ ?x @ ?n @ ?z 4 @ ?z 4 @ ?p) 24 (length es * 32) = ?m @ ?x @ ?n @ ?k @ ?z 4 @ ?p"
    using WriteLe32_at [of "?m @ ?x @ ?n" 24 "?z 4" "?z 4 @ ?p"] by simp
  let ?h = "header_bytes ?m xid (length es) (length es * 32)"
  have h: "?m @ ?x @ ?n @ ?k @ ?z 4 @ ?p = ?h @ ?z 4 @ ?p" by (simp add: header_bytes_def)
  have "ComputeCheckpointChecksum (?h @ ?z 4 @ ?p) (length es * 32) = payload_hash ?h ?p"
    using ComputeCheckpointChecksum_bytes [of ?h "?z 4" ?p "[]"] by (simp add: header_bytes_def)
  moreover have "WriteLe32 (?h @ ?z 4 @ ?p) 28 v = ?h @ le_bytes 4 v @ ?p" for v
    by (rule WriteLe32_at) (simp_all add: header_bytes_def)
  ultimately show ?thesis
    by (simp only: Let_def z 1 2 3 4 h kCheckpointChecksumOffset_def object_map_bytes_def checkpoint_bytes_def)
qed

lemma spaceman_block:
  fixes as fs :: "Extent list"
  shows "(let block = write_magic spaceman_magic (replicate (kCheckpointHeaderBytes + (length as + length fs) * 16) 0);
       block = WriteLe64 block 12 xid;
       block = WriteLe32 block 20 (length as);
       block = WriteLe32 block 24 (length fs);
       block = write_extents block kCheckpointHeaderBytes as;
       block = write_extents block (kCheckpointHeaderBytes + length as * 16) fs
   in WriteLe32 block kCheckpointChecksumOffset (ComputeCheckpointChecksum block ((length as + length fs) * 16)))
   = spaceman_bytes as fs xid"
proof -
  let ?m = spaceman_magic let ?z = "\<lambda>n. replicate n (0::byte)"
  let ?pa = "concat (map extent_bytes as)" let ?pf = "concat (map extent_bytes fs)"
  let ?x = "le_bytes 8 xid" let ?n = "le_bytes 4 (length as)" let ?k = "le_bytes 4 (length fs)"
  let ?za = "?z (length as * 16)" let ?zf = "?z (length fs * 16)"
  have z: "write_magic ?m (?z (kCheckpointHeaderBytes + (length as + length fs) * 16)) =
      ?m @ ?z 8 @ ?z 4 @ ?z 4 @ ?z 4 @ ?za @ ?zf"
    by (simp add: write_magic_def kCheckpointHeaderBytes_def flip: replicate_add)
  have 1: "WriteLe64 (?m @ ?z 8 @ ?z 4 @ ?z 4 @ ?z 4 @ ?za @ ?zf) 12 xid = ?m @ ?x @ ?z 4 @ ?z 4 @ ?z 4 @ ?za @ ?zf"
    by (rule WriteLe64_at) simp_all
  have 2: "WriteLe32 (?m @ ?x @ ?z 4 @ ?z 4 @ ?z 4 @ ?za @ ?zf) 20 (length as) = ?m @ ?x @ ?n @ ?z 4 @ ?z 4 @ ?za @ ?zf"
    using WriteLe32_at [of "?m @ ?x" 20 "?z 4" "?z 4 @ ?z 4 @ ?za @ ?zf"] by simp
  have 3: "WriteLe32 (?m @ ?x @ ?n @ ?z 4 @ ?z 4 @ ?za @ ?zf) 24 (length fs) = ?m @ ?x @ ?n @ ?k @ ?z 4 @ ?za @ ?zf"
    using WriteLe32_at [of "?m @ ?x @ ?n" 24 "?z 4" "?z 4 @ ?za @ ?zf"] by simp
  have 4: "write_extents (?m @ ?x @ ?n @ ?k @ ?z 4 @ ?za @ ?zf) kCheckpointHeaderBytes as =
      ?m @ ?x @ ?n @ ?k @ ?z 4 @ ?pa @ ?zf"
    using write_extents_zeros [of "?m @ ?x @ ?n @ ?k @ ?z 4" as ?zf] by (simp add: kCheckpointHeaderBytes_def)
  have 5: "write_extents (?m @ ?x @ ?n @ ?k @ ?z 4 @ ?pa @ ?zf) (kCheckpointHeaderBytes + length as * 16) fs =
      ?m @ ?x @ ?n @ ?k @ ?z 4 @ ?pa @ ?pf"
    using write_extents_zeros [of "?m @ ?x @ ?n @ ?k @ ?z 4 @ ?pa" fs "[]"] by (simp add: kCheckpointHeaderBytes_def)
  let ?h = "header_bytes ?m xid (length as) (length fs)"
  have h: "?m @ ?x @ ?n @ ?k @ ?z 4 @ ?pa @ ?pf = ?h @ ?z 4 @ concat (map extent_bytes (as @ fs))"
    by (simp add: header_bytes_def)
  have "ComputeCheckpointChecksum (?h @ ?z 4 @ concat (map extent_bytes (as @ fs))) ((length as + length fs) * 16) =
      payload_hash ?h (concat (map extent_bytes (as @ fs)))"
    using ComputeCheckpointChecksum_bytes [of ?h "?z 4" "concat (map extent_bytes (as @ fs))" "[]"]
    by (simp add: header_bytes_def add_mult_distrib)
  moreover have "WriteLe32 (?h @ ?z 4 @ p) 28 v = ?h @ le_bytes 4 v @ p" for v p
    by (rule WriteLe32_at) (simp_all add: header_bytes_def)
  ultimately show ?thesis
    by (simp only: Let_def z 1 2 3 4 5 h kCheckpointChecksumOffset_def spaceman_bytes_def checkpoint_bytes_def)
qed

end
