(* ===== verification/CheckpointFamilyReload.thy ===== *)
theory CheckpointFamilyReload
  imports CheckpointFamilyCodec LedgerAllocation
begin

text \<open>
  From the writer to the loader: a checkpoint written through a window of the checkpoint band is
  found and loaded again.  The device is a parameter of which the theorems assume only that it
  returns the spans it was given (\<open>holds\<close>).
\<close>

section \<open>Windows\<close>

lemma windows_set:
  assumes "0 < n" and "n \<le> length bs"
  shows "set (SelectChunkedCheckpointBlockWindows bs xid n) = (\<lambda>g. take n (drop (g * n) bs)) ` {..<length bs div n}"
proof -
  let ?g = "length bs div n" let ?p = "xid mod ?g"
  have g: "0 < ?g" using assms by (simp add: div_greater_zero_iff)
  have fits: "\<not> k * n > length bs - n" if "k < ?g" for k
  proof -
    have "(k + 1) * n \<le> ?g * n" using that by (intro mult_le_mono1) simp
    also have "\<dots> \<le> length bs" by simp
    finally show ?thesis by simp
  qed
  have rot: "(\<lambda>offset. (?p + offset) mod ?g) ` {0..<?g} = {..<?g}"
  proof
    show "(\<lambda>offset. (?p + offset) mod ?g) ` {0..<?g} \<subseteq> {..<?g}" using g by auto
    show "{..<?g} \<subseteq> (\<lambda>offset. (?p + offset) mod ?g) ` {0..<?g}"
    proof
      fix k assume k: "k \<in> {..<?g}"
      have "?p < ?g" using g by simp
      have "(?p + (k + (?g - ?p)) mod ?g) mod ?g = (?p + (k + (?g - ?p))) mod ?g" by (simp add: mod_add_right_eq)
      also have "?p + (k + (?g - ?p)) = k + ?g" using \<open>?p < ?g\<close> by simp
      finally have "(?p + (k + (?g - ?p)) mod ?g) mod ?g = k" using k by simp
      then show "k \<in> (\<lambda>offset. (?p + offset) mod ?g) ` {0..<?g}"
        using g by (intro image_eqI [of _ _ "(k + (?g - ?p)) mod ?g"]) auto
    qed
  qed
  have "set (SelectChunkedCheckpointBlockWindows bs xid n) =
      (\<lambda>b. take n (drop b bs)) ` {b \<in> (\<lambda>k. k * n) ` (\<lambda>offset. (?p + offset) mod ?g) ` {0..<?g}. \<not> b > length bs - n}"
    using assms g by (auto simp: SelectChunkedCheckpointBlockWindows_def Let_def image_image)
  also have "\<dots> = (\<lambda>g. take n (drop (g * n) bs)) ` {..<?g}"
    unfolding rot using fits by auto
  finally show ?thesis .
qed

lemma window_props:
  assumes "w \<in> set (SelectChunkedCheckpointBlockWindows bs xid n)"
  shows "0 < n" and "n \<le> length bs" and "length w = n" and "set w \<subseteq> set bs"
proof -
  show n: "0 < n" "n \<le> length bs" using assms by (auto simp: SelectChunkedCheckpointBlockWindows_def split: if_splits)
  then obtain g where g: "g < length bs div n" "w = take n (drop (g * n) bs)" using assms windows_set by auto
  have "(g + 1) * n \<le> length bs div n * n" using g(1) by (intro mult_le_mono1) simp
  also have "\<dots> \<le> length bs" by simp
  finally show "length w = n" using g(2) by simp
  show "set w \<subseteq> set bs" using g(2) by (auto dest: in_set_takeD in_set_dropD)
qed

text \<open>The windows of the first blocks are windows of the whole list.\<close>

lemma windows_take:
  assumes "w \<in> set (SelectChunkedCheckpointBlockWindows (take k bs) xid n)"
  shows "w \<in> set (SelectChunkedCheckpointBlockWindows bs xid' n)"
proof -
  note p = window_props [OF assms]
  obtain g where g: "g < length (take k bs) div n" "w = take n (drop (g * n) (take k bs))"
    using assms windows_set [OF p(1,2)] by auto
  have "(g + 1) * n \<le> length (take k bs) div n * n" using g(1) by (intro mult_le_mono1) simp
  also have "\<dots> \<le> length (take k bs)" by (rule div_times_less_eq_dividend)
  finally have le: "g * n + n \<le> k" "g * n + n \<le> length bs" by simp_all
  then have "w = take n (drop (g * n) bs)" unfolding g(2) by (simp add: drop_take)
  moreover have "g < length bs div n"
    using g(1) div_le_mono [of "length (take k bs)" "length bs" n] by simp
  moreover have "n \<le> length bs" using le by linarith
  ultimately show ?thesis using windows_set [OF p(1)] by blast
qed

lemma read_run_bounds:
  "k \<le> read_run b k bs \<and> read_run b k bs \<le> k + length bs \<and>
     (\<forall>i. k \<le> i \<and> i < read_run b k bs \<longrightarrow> b + i \<in> set bs)"
proof (induction bs arbitrary: k)
  case Nil
  then show ?case by simp
next
  case (Cons c bs)
  show ?case
  proof (cases "b \<le> u64_max - k \<and> c = b + k")
    case False
    then show ?thesis by auto
  next
    case True
    then show ?thesis
      using Cons.IH [of "k + 1"]
      by (auto simp: Suc_le_eq) (metis Suc_leI le_neq_implies_less)+
  qed
qed

lemma write_run_eq:
  "0 \<notin> set bs \<Longrightarrow> \<forall>x \<in> set bs. x \<le> u64_max \<Longrightarrow> 0 < k \<Longrightarrow> b + (k - 1) \<le> u64_max \<Longrightarrow> 0 < b \<Longrightarrow>
     write_run b k bs = read_run b k bs"
proof (induction bs arbitrary: k)
  case Nil
  then show ?case by simp
next
  case (Cons c bs)
  show ?case
  proof (cases "b + k \<le> u64_max")
    case True
    then have "add64 b k = b + k" "b \<le> u64_max - k" by (auto simp: add64_exact)
    then show ?thesis using Cons True by auto
  next
    case False
    then have "b + k = u64_max + 1" using Cons.prems(3,4) by linarith
    then have "add64 b k = 0" by (simp add: add64_def u64_max_def)
    moreover have "\<not> b \<le> u64_max - k" using False Cons.prems(4,5) by linarith
    ultimately show ?thesis using Cons.prems(1) by auto
  qed
qed

text \<open>
  A device that holds what was written: every part of every span reads back as its bytes.
\<close>

definition holds :: "device_read \<Rightarrow> WriteSpan list \<Rightarrow> bool" where
  "holds read spans \<longleftrightarrow> (\<forall>(offset, data) \<in> set spans. \<forall>i n. i + n \<le> length data \<longrightarrow>
     read (offset + i) n = Some (take n (drop i data)))"

definition band_window :: "nat \<Rightarrow> nat \<Rightarrow> nat list \<Rightarrow> bool" where
  "band_window u t w \<longleftrightarrow> w \<noteq> [] \<and> 0 < u \<and> length w * u \<le> u64_max \<and>
     (\<forall>b \<in> set w. 0 < b \<and> b \<le> u64_max div u \<and> (t \<noteq> 0 \<longrightarrow> b < t))"

lemma read_window_written:
  assumes "append_spans u w data = Some spans" and "length data = length w * u" and "0 < u"
    and "length w * u \<le> u64_max" and "\<forall>b \<in> set w. 0 < b \<and> b \<le> u64_max div u \<and> (t \<noteq> 0 \<longrightarrow> b < t)"
    and "holds read spans"
  shows "read_window read u t w = Some data"
  using assms
proof (induction u w data arbitrary: spans rule: append_spans.induct)
  case (1 u data)
  then show ?case by simp
next
  case (2 u b bs data)
  let ?r = "read_run b 1 bs"
  have le: "x \<le> u64_max" if "x \<in> set (b # bs)" for x
    using "2.prems"(5) that div_le_dividend [of u64_max u] order_trans by blast
  have run: "write_run b 1 bs = ?r"
    using "2.prems"(5) le by (intro write_run_eq) auto
  note rb = read_run_bounds [of 1 b bs]
  have r: "1 \<le> ?r" "?r \<le> length (b # bs)" "b + (?r - 1) \<in> set (b # bs)"
  proof -
    show "1 \<le> ?r" "?r \<le> length (b # bs)" using rb by auto
    show "b + (?r - 1) \<in> set (b # bs)"
    proof (cases "?r = 1")
      case True
      then show ?thesis by simp
    next
      case False
      then have "1 \<le> ?r - 1" "?r - 1 < ?r" using rb by linarith+
      then have "b + (?r - 1) \<in> set bs" using rb by blast
      then show ?thesis by (simp only: list.set) blast
    qed
  qed
  have bytes: "?r * u \<le> length data" using r(2) "2.prems"(2) by (simp only: mult_le_mono1)
  obtain rest where rest: "append_spans u (drop (?r - 1) bs) (drop (?r * u) data) = Some rest"
    "spans = (b * u, take (?r * u) data) # rest"
    using "2.prems"(1) run bytes by (auto simp: Let_def split: if_splits)
  have here: "read (b * u) (?r * u) = Some (take (?r * u) data)"
  proof -
    have "\<forall>i n. i + n \<le> length (take (?r * u) data) \<longrightarrow> read (b * u + i) n = Some (take n (drop i (take (?r * u) data)))"
      using "2.prems"(6) rest(2) by (auto simp: holds_def)
    from this [rule_format, of 0 "?r * u"] show ?thesis using bytes by simp
  qed
  have "read_window read u t (drop (?r - 1) bs) = Some (drop (?r * u) data)"
  proof (rule "2.IH" [OF refl refl refl, unfolded run, OF _ rest(1)])
    show "\<not> (b = 0 \<or> u64_max div u < b)" using "2.prems"(5) by auto
    have l: "length (drop (?r - 1) bs) = length (b # bs) - ?r" using r(1) by simp
    show "length (drop (?r * u) data) = length (drop (?r - 1) bs) * u"
      unfolding l using "2.prems"(2) by (simp only: length_drop diff_mult_distrib)
    show "length (drop (?r - 1) bs) * u \<le> u64_max"
      by (rule order_trans [OF mult_le_mono1 "2.prems"(4)]) simp
    show "\<forall>b \<in> set (drop (?r - 1) bs). 0 < b \<and> b \<le> u64_max div u \<and> (t \<noteq> 0 \<longrightarrow> b < t)"
      using "2.prems"(5) by (auto dest: in_set_dropD)
    show "holds read rest" using "2.prems"(6) rest(2) by (simp add: holds_def)
  qed (rule "2.prems"(3))
  moreover have "\<not> ?r > u64_max div u"
  proof -
    have "?r * u \<le> u64_max" using bytes "2.prems"(2,4) by linarith
    then show ?thesis using "2.prems"(3) by (simp add: less_eq_div_iff_mult_less_eq not_less)
  qed
  moreover have "b + (?r - 1) \<le> u64_max" "t \<noteq> 0 \<Longrightarrow> b + (?r - 1) < t"
    using r(3) "2.prems"(5) le by blast+
  moreover have "\<not> (b = 0 \<or> b > u64_max div u)" using "2.prems"(5) by auto
  ultimately show ?case using here bytes by (auto simp: Let_def)
qed

lemma first_window_unique:
  assumes "w \<in> set ws" and "f w = Some d" and "\<forall>w' \<in> set ws. w' \<noteq> w \<longrightarrow> f w' = None"
  shows "first_window f (ws @ rest) = Some d"
  using assms by (induction ws) (auto split: option.split)

section \<open>Written checkpoints are found again\<close>

lemma writable_window:
  assumes "w = SelectWritableChunkedCheckpointBlocks flag s bs xid n" and "w \<noteq> []"
    and "length bs \<le> u64_max div block_size (geometry s)"
  shows "w \<in> set (SelectChunkedCheckpointBlockWindows bs xid n)"
    and "band_window (block_size (geometry s)) (total_blocks (geometry s)) w"
proof -
  have f: "find (AreNativeCheckpointBlocksWritable flag s) (SelectChunkedCheckpointBlockWindows bs xid n) = Some w"
    using assms(1,2) by (auto simp: SelectWritableChunkedCheckpointBlocks_def split: option.splits)
  then show m: "w \<in> set (SelectChunkedCheckpointBlockWindows bs xid n)"
    by (auto simp: find_Some_iff)
  have "AreNativeCheckpointBlocksWritable flag s w" using f by (auto simp: find_Some_iff)
  then have u: "0 < block_size (geometry s)"
    and b: "\<forall>b \<in> set w. IsNativeCheckpointBandBlock (total_blocks (geometry s)) b \<and> b \<le> u64_max div block_size (geometry s)"
    by (auto simp: AreNativeCheckpointBlocksWritable_def scan_allocations_def list_all_iff not_less split: if_splits)
  have "0 < b \<and> b < total_blocks (geometry s)" if "IsNativeCheckpointBandBlock (total_blocks (geometry s)) b" for b
    using that by (auto simp: IsNativeCheckpointBandBlock_iff band_blocks_def band_low_def split: if_splits)
  moreover have "length w * block_size (geometry s) \<le> u64_max"
  proof -
    have "length w \<le> u64_max div block_size (geometry s)" using window_props [OF m] assms(3) by linarith
    then show ?thesis using u by (simp add: less_eq_div_iff_mult_less_eq)
  qed
  ultimately show "band_window (block_size (geometry s)) (total_blocks (geometry s)) w"
    using u b assms(2) by (auto simp: band_window_def)
qed

definition pad_to :: "nat \<Rightarrow> byte list \<Rightarrow> byte list" where
  "pad_to u data = data @ replicate ((length data + u - 1) div u * u - length data) 0"

lemma length_pad_to: "0 < u \<Longrightarrow> length (pad_to u data) = (length data + u - 1) div u * u"
proof -
  assume u: "0 < u"
  have "length data + u - 1 < (length data + u - 1) div u * u + u"
    using u dividend_less_div_times [of u "length data + u - 1"] by (simp add: add.commute)
  then show ?thesis using u by (simp add: pad_to_def)
qed

lemma ceil_div:
  fixes q r u :: nat
  assumes "r < u"
  shows "(q * u + r + u - 1) div u = (if r = 0 then q else q + 1)"
  using assms by (intro div_nat_eqI) (auto simp: algebra_simps)

lemma Pad_eq:
  assumes "0 < u" and "data \<noteq> []"
  shows "PadCheckpointWriteDataToBlockBoundary u data = Some (pad_to u data)"
proof -
  define q r where "q = length data div u" and "r = length data mod u"
  have n: "length data = q * u + r" "r < u" using assms(1) by (simp_all add: q_def r_def)
  have "(length data + u - 1) div u * u - length data = (if r = 0 then 0 else u - r)"
    unfolding n(1) ceil_div [OF n(2)] by (auto simp: algebra_simps)
  then show ?thesis
    using assms unfolding PadCheckpointWriteDataToBlockBoundary_def pad_to_def Let_def r_def [symmetric] by simp
qed

lemma first_span:
  assumes "append_spans u (b # bs) data = Some spans" and "u \<le> length data" and "holds read spans"
  shows "read (b * u) u = Some (take u data)"
proof -
  let ?r = "write_run b 1 bs"
  have "k \<le> write_run b k bs" for k by (induction bs arbitrary: k) (auto intro: Suc_leD)
  then have r: "u \<le> ?r * u" by (metis mult_le_mono1 mult_1)
  let ?d = "take (?r * u) data @ replicate (?r * u - length (take (?r * u) data)) 0"
  obtain rest where "spans = (b * u, ?d) # rest"
    using assms(1) unfolding append_spans.simps Let_def by (auto simp only: split: if_splits)
  then have m: "(b * u, ?d) \<in> set spans" by simp
  have l: "u \<le> length ?d" using r by simp
  have "\<forall>i n. i + n \<le> length ?d \<longrightarrow> read (b * u + i) n = Some (take n (drop i ?d))"
    using assms(3) m unfolding holds_def by blast
  from this [rule_format, of 0 u] l have "read (b * u) u = Some (take u ?d)" by simp
  moreover have "take u ?d = take u data" using r assms(2) by simp
  ultimately show ?thesis by simp
qed

lemma checkpoint_found:
  assumes win: "w \<in> set (SelectChunkedCheckpointBlockWindows bs x n)" "band_window u t w"
    and n: "n = (length data + u - 1) div u"
    and spans: "AppendSelectedChunkedCheckpointWriteSpans u w (pad_to u data) = Some spans" "holds read spans"
    and data: "data = checkpoint_bytes magic x m k p" "length magic = 12" "x \<le> u64_max" "m \<le> u32_max" "k \<le> u32_max"
    and other: "\<forall>w' \<in> set (SelectChunkedCheckpointBlockWindows bs x n). w' \<noteq> w \<longrightarrow>
      window_bytes read u t magic x n w' = None"
  shows "ReadChunkedCheckpointBytes read u t bs x magic (length p) = data"
    and "read (hd w * u) u = Some (take u (pad_to u data))"
proof -
  have u: "0 < u" and wb: "length w * u \<le> u64_max" "w \<noteq> []"
    "\<forall>b \<in> set w. 0 < b \<and> b \<le> u64_max div u \<and> (t \<noteq> 0 \<longrightarrow> b < t)" using win(2) by (auto simp: band_window_def)
  note p = window_props [OF win(1)]
  note fields = checkpoint_fields [OF data(2-5), of p, folded data(1)]
  define padded where "padded = pad_to u data"
  have pre: "padded = data @ replicate (n * u - length data) 0" by (simp add: padded_def pad_to_def n)
  have len: "length padded = n * u" using length_pad_to [OF u] n by (simp add: padded_def)
  have "(n * u + u - 1) div u = n" using ceil_div [of 0 u n] u by simp
  then have sp: "append_spans u w padded = Some spans"
    using spans(1) p(1,3) u wb(2) len unfolding AppendSelectedChunkedCheckpointWriteSpans_def padded_def [symmetric]
    by (simp add: Let_def)
  have "read_window read u t w = Some padded"
    by (rule read_window_written [OF sp _ u wb(1,3) spans(2)]) (simp add: len p(3))
  then have ord: "ReadOrderedCheckpointWindowBytes read u t w n = padded"
    using u p(1,3) wb(1) by (simp add: ReadOrderedCheckpointWindowBytes_def div_less_iff_less_mult)
  have "n * u \<ge> length data" using len pre by (metis length_append le_add1)
  then have "window_bytes read u t magic x n w = Some padded"
    using ord len p(3) fields unfolding window_bytes_def Let_def pre by simp
  from first_window_unique [where f = "window_bytes read u t magic x n", OF win(1) this other]
  have "first_window (window_bytes read u t magic x n)
      (SelectChunkedCheckpointBlockWindows bs x n @ [RotateCheckpointBlocks bs x]) = Some padded" .
  moreover have "bs \<noteq> []" using p(1,2) by auto
  moreover have "resize_bytes (length data) padded = data" by (simp add: resize_bytes_def pre)
  moreover have "kCheckpointHeaderBytes + length p = length data" using fields(6) by (simp add: kCheckpointHeaderBytes_def)
  ultimately show "ReadChunkedCheckpointBytes read u t bs x magic (length p) = data"
    using u p(1,2) n by (simp add: ReadChunkedCheckpointBytes_def Let_def)
  obtain b ws where w: "w = b # ws" using wb(2) by (cases w) auto
  have "u \<le> length padded" using len p(1) by simp
  then show "read (hd w * u) u = Some (take u (pad_to u data))"
    using first_span [OF sp [unfolded w] _ spans(2)] w by (simp add: padded_def)
qed

lemma ReadLe_take:
  "off + 8 \<le> u \<Longrightarrow> ReadLe64 (take u bs) off = ReadLe64 bs off"
  "off + 4 \<le> u \<Longrightarrow> ReadLe32 (take u bs) off = ReadLe32 bs off"
  by (auto simp: ReadLe64_def ReadLe32_def drop_take min_def)

lemma band_window_block:
  assumes "band_window (block_size g) (total_blocks g) w" and "read (hd w * block_size g) (block_size g) = Some block"
    and "length block = block_size g"
  shows "ReadBlockByIndexDirect read g (hd w) = Some block"
proof -
  have "hd w \<in> set w" using assms(1) by (simp add: band_window_def)
  then have "0 < hd w" "hd w \<le> u64_max div block_size g" "total_blocks g \<noteq> 0 \<Longrightarrow> hd w < total_blocks g" "0 < block_size g"
    using assms(1) by (auto simp: band_window_def)
  then show ?thesis using assms(2,3) by (auto simp: ReadBlockByIndexDirect_def)
qed

text \<open>
  The slots a writer selects, and the assumption that no other window of the family holds a
  checkpoint with the same magic and transaction.
\<close>

definition object_map_slots ::
  "bool \<Rightarrow> CheckpointContext \<Rightarrow> SpacemanLedger \<Rightarrow> (nat \<times> ApfsObjectMapEntry) list \<Rightarrow> nat \<Rightarrow> nat list" where
  "object_map_slots flag ctx s om xid =
     SelectWritableChunkedCheckpointBlocks flag s (ResolveObjectMapCheckpointBlockIndices ctx (total_blocks (geometry s))) xid
       ((32 + length (OrderedCommittedObjectMapEntries om) * 32 + block_size (geometry s) - 1) div block_size (geometry s))"

definition sole_window ::
  "device_read \<Rightarrow> StoreGeometry \<Rightarrow> byte list \<Rightarrow> nat list \<Rightarrow> nat \<Rightarrow> nat list \<Rightarrow> bool" where
  "sole_window read g magic bs xid w \<longleftrightarrow>
     (\<forall>w' \<in> set (SelectChunkedCheckpointBlockWindows bs xid (length w)). w' \<noteq> w \<longrightarrow>
        window_bytes read (block_size g) (total_blocks g) magic xid (length w) w' = None)"

lemma PersistObjectMapCheckpoint_spans:
  assumes "PersistObjectMapCheckpoint flag ctx s om xid = Some spans"
  shows "let es = OrderedCommittedObjectMapEntries om; w = object_map_slots flag ctx s om xid;
       u = block_size (geometry s); bs = ResolveObjectMapCheckpointBlockIndices ctx (total_blocks (geometry s))
     in w \<noteq> [] \<and> length bs \<le> u64_max div u \<and> length es * 32 \<le> u32_max \<and> 0 < u \<and>
        AppendSelectedChunkedCheckpointWriteSpans u w (pad_to u (object_map_bytes es xid)) = Some spans"
proof -
  let ?es = "OrderedCommittedObjectMapEntries om" let ?u = "block_size (geometry s)"
  let ?d = "object_map_bytes ?es xid" let ?w = "object_map_slots flag ctx s om xid"
  let ?bs = "ResolveObjectMapCheckpointBlockIndices ctx (total_blocks (geometry s))"
  have g: "?bs \<noteq> []" "\<not> (?u = 0 \<or> length ?bs > u64_max div ?u)" "length ?es * 32 \<le> u32_max" "?w \<noteq> []"
    "(case PadCheckpointWriteDataToBlockBoundary ?u ?d of None \<Rightarrow> None
      | Some data \<Rightarrow> AppendSelectedChunkedCheckpointWriteSpans ?u ?w data) = Some spans"
    using assms object_map_block [of ?es xid]
    unfolding PersistObjectMapCheckpoint_def object_map_slots_def Let_def kCheckpointHeaderBytes_def
    by (auto simp only: add_diff_cancel_left' not_less split: if_splits)
  have "?d \<noteq> []" by (simp add: object_map_bytes_def checkpoint_bytes_def header_bytes_def object_map_magic_def)
  then have "PadCheckpointWriteDataToBlockBoundary ?u ?d = Some (pad_to ?u ?d)" using Pad_eq g(2) by blast
  then show ?thesis using g by (simp add: Let_def)
qed

text \<open>
  The bytes a loader works on, when the window was written: the first block if it holds the whole
  checkpoint, else the bytes read through the windows.
\<close>

lemma loaded_block:
  assumes "data = checkpoint_bytes magic x m k p" and "length magic = 12" "x \<le> u64_max" "m \<le> u32_max" "k \<le> u32_max"
    and "32 \<le> u" and "block = take u (pad_to u data)"
  shows "length block = u" and "ReadLe64 block 12 = x" and "ReadLe32 block 20 = m" and "ReadLe32 block 24 = k"
    and "\<not> length p > u - 32 \<Longrightarrow> \<exists>post. block = data @ post"
proof -
  note f = checkpoint_fields [OF assms(2-5), of p, folded assms(1)]
  have pre: "pad_to u data = data @ replicate ((length data + u - 1) div u * u - length data) 0" by (simp add: pad_to_def)
  have "1 \<le> (length data + u - 1) div u" using assms(6) f(6) by (simp add: Suc_le_eq div_greater_zero_iff)
  then have "u \<le> (length data + u - 1) div u * u" by (metis mult_le_mono1 mult_1)
  then show "length block = u" using assms(6,7) length_pad_to [of u data] by simp
  show "ReadLe64 block 12 = x" "ReadLe32 block 20 = m" "ReadLe32 block 24 = k"
    using f(1-3) assms(6) unfolding assms(7) pre by (simp_all add: ReadLe_take del: take_append)
  show "\<exists>post. block = data @ post" if "\<not> length p > u - 32"
    using that assms(6) f(6) unfolding assms(7) pre by auto
qed

lemma loaded_header:
  assumes "data = checkpoint_bytes magic x m k p" and "length magic = 12" "x \<le> u64_max" "m \<le> u32_max" "k \<le> u32_max"
    and "32 \<le> u" and "block = take u (pad_to u data)"
  shows "take 12 block = magic" and "ReadLe32 block 28 = ComputeCheckpointChecksum data (length p)"
proof -
  note f = checkpoint_fields [OF assms(2-5), of p, folded assms(1)]
  have pre: "pad_to u data = data @ replicate ((length data + u - 1) div u * u - length data) 0" by (simp add: pad_to_def)
  show "take 12 block = magic"
    using f(5) assms(6) unfolding assms(7) pre by (simp add: min_def del: take_append)
  have "ReadLe32 (data @ replicate ((length data + u - 1) div u * u - length data) 0) 28 = ReadLe32 data 28"
    using f(6) by (simp add: ReadLe32_def)
  then show "ReadLe32 block 28 = ComputeCheckpointChecksum data (length p)"
    using f(4) [of "[]"] assms(6) unfolding assms(7) pre by (simp add: ReadLe_take del: take_append)
qed

text \<open>
  A written checkpoint as a loader sees it: the first block of its window, with the fields of its
  header, and the bytes read through the windows.
\<close>

lemma checkpoint_reread:
  assumes "w \<in> set (SelectChunkedCheckpointBlockWindows bs x ((length data + block_size g - 1) div block_size g))"
    and "band_window (block_size g) (total_blocks g) w"
    and "AppendSelectedChunkedCheckpointWriteSpans (block_size g) w (pad_to (block_size g) data) = Some spans" "holds read spans"
    and "sole_window read g magic bs x w"
    and data: "data = checkpoint_bytes magic x m k p" "length magic = 12" "x \<le> u64_max" "m \<le> u32_max" "k \<le> u32_max"
    and "32 \<le> block_size g"
  obtains block where "ReadBlockByIndexDirect read g (hd w) = Some block" "length block = block_size g"
    "take 12 block = magic" "ReadLe64 block 12 = x" "ReadLe32 block 20 = m" "ReadLe32 block 24 = k"
    "ReadLe32 block 28 = ComputeCheckpointChecksum data (length p)"
    "\<not> length p > block_size g - 32 \<longrightarrow> (\<exists>post. block = data @ post)"
    "ReadChunkedCheckpointBytes read (block_size g) (total_blocks g) bs x magic (length p) = data"
proof
  let ?u = "block_size g" let ?block = "take ?u (pad_to ?u data)"
  have "length w = (length data + ?u - 1) div ?u" using window_props(3) [OF assms(1)] by simp
  with assms(5) have other: "\<forall>w' \<in> set (SelectChunkedCheckpointBlockWindows bs x ((length data + ?u - 1) div ?u)). w' \<noteq> w \<longrightarrow>
      window_bytes read ?u (total_blocks g) magic x ((length data + ?u - 1) div ?u) w' = None"
    by (simp only: sole_window_def)
  note found = checkpoint_found [OF assms(1,2) refl assms(3,4) data other]
  note lb = loaded_block [OF data assms(11) refl]
  show "ReadBlockByIndexDirect read g (hd w) = Some ?block"
    using band_window_block [OF assms(2)] found(2) lb(1) by simp
  show "\<not> length p > ?u - 32 \<longrightarrow> (\<exists>post. ?block = data @ post)" using lb(5) by blast
  show "ReadChunkedCheckpointBytes read ?u (total_blocks g) bs x magic (length p) = data" by (rule found(1))
qed (rule loaded_block [OF data assms(11) refl] loaded_header [OF data assms(11) refl], assumption?)+

lemma checkpoint_bytes_nonempty: "length magic = 12 \<Longrightarrow> checkpoint_bytes magic x m k p @ post \<noteq> []"
  by (auto simp: checkpoint_bytes_def header_bytes_def)

text \<open>
  C37. An object map checkpoint that was written is loaded again: when the device holds the spans
  handed to it and no other window carries a checkpoint of this transaction, the first block of
  the selected slots loads exactly the mapped entries of the committed object map, in order,
  whether they fit in one block or are read back through the chunked windows.
\<close>

theorem object_map_checkpoint_reloads:
  assumes "PersistObjectMapCheckpoint flag ctx s om xid = Some spans" and "holds read spans"
    and "sole_window read (geometry s) object_map_magic
      (ResolveObjectMapCheckpointBlockIndices ctx (total_blocks (geometry s))) xid (object_map_slots flag ctx s om xid)"
    and "\<forall>(key, e) \<in> set om. key = om_object_id e \<and> entry_bounded e"
    and "ValidateEntries (OrderedCommittedObjectMapEntries om)"
    and "xid \<le> u64_max" and "CanLoadNativeCheckpointXid c xid" and "32 \<le> block_size (geometry s)"
  shows "\<exists>block. ReadBlockByIndexDirect read (geometry s) (hd (object_map_slots flag ctx s om xid)) = Some block \<and>
    LoadObjectMapCheckpointBlock read ctx c (geometry s) last_xid block =
      Some (sort_key fst (filter (\<lambda>(object_id, update). HasPhysicalObjectMapping update) om), later_xid last_xid xid)"
proof -
  let ?es = "OrderedCommittedObjectMapEntries om" let ?g = "geometry s" let ?u = "block_size ?g"
  let ?w = "object_map_slots flag ctx s om xid" let ?d = "object_map_bytes ?es xid"
  let ?bs = "ResolveObjectMapCheckpointBlockIndices ctx (total_blocks ?g)" let ?p = "concat (map entry_bytes ?es)"
  have p: "?w \<noteq> []" "length ?bs \<le> u64_max div ?u" "length ?es * 32 \<le> u32_max" "0 < ?u"
    "AppendSelectedChunkedCheckpointWriteSpans ?u ?w (pad_to ?u ?d) = Some spans"
    using PersistObjectMapCheckpoint_spans [OF assms(1)] by (simp_all add: Let_def)
  have n: "length ?es \<le> u32_max" using p(3) by linarith
  note fields = checkpoint_fields [OF magic_lengths(1) assms(6) n p(3), of ?p, folded object_map_bytes_def]
  have dl: "length ?d = 32 + length ?es * 32" using fields(6) by simp
  note win = writable_window [OF object_map_slots_def p(1,2), folded dl]
  obtain block where b: "ReadBlockByIndexDirect read ?g (hd ?w) = Some block" "length block = ?u"
    "ReadLe64 block 12 = xid" "ReadLe32 block 24 = length ?es * 32"
    "\<not> length ?p > ?u - 32 \<longrightarrow> (\<exists>post. block = ?d @ post)"
    "ReadChunkedCheckpointBytes read ?u (total_blocks ?g) ?bs xid object_map_magic (length ?p) = ?d"
    by (rule checkpoint_reread [OF win p(5) assms(2,3) object_map_bytes_def magic_lengths(1) assms(6) n p(3) assms(8)])
  have payload: "\<exists>post. object_map_payload read ctx ?g block = ?d @ post"
    using b by (auto simp: object_map_payload_def Let_def kCheckpointHeaderBytes_def
        object_map_bytes_def checkpoint_bytes_nonempty [of _ _ _ _ _ "[]", simplified] intro: exI [of _ "[]"])
  have bounded: "\<forall>e \<in> set ?es. entry_bounded e \<and> HasPhysicalObjectMapping e"
    using assms(4) by (auto simp: OrderedCommittedObjectMapEntries_def)
  obtain post where post: "object_map_payload read ctx ?g block = ?d @ post" using payload by blast
  have "ParseObjectMapCheckpointV3 (?d @ post) = Some (?es, xid)"
    using parse_object_map_bytes [OF assms(5) _ assms(6) p(3)] bounded by simp
  moreover have "?d @ post \<noteq> []" unfolding object_map_bytes_def by (rule checkpoint_bytes_nonempty) simp
  moreover have "map (\<lambda>e. (om_object_id e, e)) (filter HasPhysicalObjectMapping ?es) =
      sort_key fst (filter (\<lambda>(object_id, update). HasPhysicalObjectMapping update) om)"
  proof -
    have "filter HasPhysicalObjectMapping ?es = ?es" using bounded by (simp add: filter_id_conv)
    moreover have "map (\<lambda>e. (om_object_id e, e)) (map snd xs) = xs" if "set xs \<subseteq> set om" for xs
    proof -
      have "((\<lambda>e. (om_object_id e, e)) \<circ> snd) x = x" if "x \<in> set xs" for x
      proof -
        obtain k e where "x = (k, e)" by fastforce
        then show ?thesis using that \<open>set xs \<subseteq> set om\<close> assms(4) by fastforce
      qed
      then show ?thesis by (simp only: map_map map_idI)
    qed
    ultimately show ?thesis by (simp add: OrderedCommittedObjectMapEntries_def)
  qed
  ultimately have "LoadObjectMapCheckpointBlock read ctx c ?g last_xid block =
      Some (sort_key fst (filter (\<lambda>(object_id, update). HasPhysicalObjectMapping update) om), later_xid last_xid xid)"
    using b(2) assms(7,8) by (simp add: LoadObjectMapCheckpointBlock_def post kCheckpointHeaderBytes_def)
  then show ?thesis using b(1) by blast
qed

section \<open>The spaceman checkpoint\<close>

definition spaceman_slot_list :: "SpacemanLedger \<Rightarrow> nat list" where
  "spaceman_slot_list s =
     (let bs = ResolveSpacemanCheckpointBlockIndices (total_blocks (geometry s)) in
      if 4 \<le> length bs \<and>
         32 + (length (committed_allocations s) + length (committed_free s)) * 16 \<le> 4 * block_size (geometry s)
      then take 4 bs else bs)"

definition spaceman_slots :: "bool \<Rightarrow> SpacemanLedger \<Rightarrow> nat \<Rightarrow> nat list" where
  "spaceman_slots flag s xid =
     SelectWritableChunkedCheckpointBlocks flag s (spaceman_slot_list s) xid
       ((32 + (length (committed_allocations s) + length (committed_free s)) * 16 + block_size (geometry s) - 1)
          div block_size (geometry s))"

lemma PersistSpacemanCheckpoint_spans:
  assumes "PersistSpacemanCheckpoint flag s xid = Some spans"
    and "IsCanonicalSpacemanExtents (committed_allocations s)" and "IsCanonicalSpacemanExtents (committed_free s)"
  shows "let w = spaceman_slots flag s xid; u = block_size (geometry s);
       bs = ResolveSpacemanCheckpointBlockIndices (total_blocks (geometry s));
       d = spaceman_bytes (committed_allocations s) (committed_free s) xid
     in w \<noteq> [] \<and> length bs \<le> u64_max div u \<and> 0 < u \<and>
        length (committed_allocations s) + length (committed_free s) \<le> u32_max \<and>
        AppendSelectedChunkedCheckpointWriteSpans u w (pad_to u d) = Some spans"
proof -
  let ?as = "committed_allocations s" let ?fs = "committed_free s" let ?u = "block_size (geometry s)"
  let ?d = "spaceman_bytes ?as ?fs xid" let ?w = "spaceman_slots flag s xid"
  let ?bs = "ResolveSpacemanCheckpointBlockIndices (total_blocks (geometry s))"
  have compact: "kNativeInodeCheckpointOffset - kNativeSpacemanCheckpointOffset = 4" by (simp add: layout_constants)
  have g: "?bs \<noteq> []" "\<not> length ?as + length ?fs > u32_max" "\<not> (?u = 0 \<or> length ?bs > u64_max div ?u)" "?w \<noteq> []"
    "(case PadCheckpointWriteDataToBlockBoundary ?u ?d of None \<Rightarrow> None
      | Some data \<Rightarrow> AppendSelectedChunkedCheckpointWriteSpans ?u ?w data) = Some spans"
    using assms(1) spaceman_block [of ?as ?fs xid]
    unfolding PersistSpacemanCheckpoint_def spaceman_slots_def spaceman_slot_list_def Let_def
      kCheckpointHeaderBytes_def compact if_P [OF conjI [OF assms(2,3)]] prod.case
    by (auto simp only: de_Morgan_disj split: if_splits)
  have "?d \<noteq> []" by (simp add: spaceman_bytes_def checkpoint_bytes_def header_bytes_def spaceman_magic_def)
  then have "PadCheckpointWriteDataToBlockBoundary ?u ?d = Some (pad_to ?u ?d)" using Pad_eq g(3) by blast
  then show ?thesis using g by (simp add: Let_def)
qed

lemma copy_aligned_id:
  assumes "\<forall>e \<in> set es. valid_extent e \<and> block_unit g dvd bytes e"
  shows "copy_aligned g es = (True, es)"
  using assms
proof (induction es)
  case Nil
  then show ?case by simp
next
  case (Cons e es)
  have "AlignExtentBytes g (bytes e) = bytes e" "0 < bytes e"
  proof -
    show "0 < bytes e" using Cons.prems by (simp add: valid_extent_iff)
    then have "max (bytes e) (block_unit g) = bytes e" "bytes e mod block_unit g = 0"
      using Cons.prems by (auto simp: dvd_imp_le)
    then show "AlignExtentBytes g (bytes e) = bytes e"
      using \<open>0 < bytes e\<close> unfolding AlignExtentBytes_def block_unit_def [symmetric] Let_def by simp
  qed
  then show ?case using Cons by (simp add: Let_def)
qed

lemma NormalizeSpacemanExtents_canonical:
  "IsSortedAndValid es \<Longrightarrow> NormalizeSpacemanExtents es = (True, es)"
  using Normalize_ok [of es] canonical_unique [of _ es]
  by (auto simp: NormalizeSpacemanExtents_eq normalizable_canonical filter_counted_canonical)

lemma tail_after_bound:
  assumes "\<forall>e \<in> set es. valid_extent e"
  shows "\<forall>x \<in> space es. x < tail_after z es" and "z \<le> tail_after z es"
proof -
  have "(\<forall>x \<in> space es. x < tail_after z es) \<and> z \<le> tail_after z es"
    using assms
  proof (induction es arbitrary: z)
    case Nil
    then show ?case by (simp add: tail_after_def)
  next
    case (Cons e es)
    let ?stop = "physical_address e + bytes e"
    have "add64 (physical_address e) (bytes e) = ?stop" using Cons.prems valid_extent_end [of e] by (simp add: add64_exact)
    then have t: "tail_after z (e # es) = tail_after (if ?stop > z then ?stop else z) es" by (simp add: tail_after_def)
    note IH = Cons.IH [of "if ?stop > z then ?stop else z"]
    show ?case using IH Cons.prems unfolding t by (fastforce simp: range_of_def mem_ivl split: if_splits)
  qed
  then show "\<forall>x \<in> space es. x < tail_after z es" "z \<le> tail_after z es" by blast+
qed

text \<open>
  A spaceman checkpoint that was written is loaded again: from a canonical ledger whose
  allocations and free extents are block sized and disjoint, the first block of the selected
  slots loads, into any ledger of the same container, the same committed allocations and free
  extents, a working free list equal to them and a tail beyond every allocation.
\<close>

lemma spaceman_checkpoint_reloads:
  assumes "PersistSpacemanCheckpoint flag s xid = Some spans" and "holds read spans"
    and "sole_window read (geometry s) spaceman_magic
      (ResolveSpacemanCheckpointBlockIndices (total_blocks (geometry s))) xid (spaceman_slots flag s xid)"
    and "IsSortedAndValid (committed_allocations s)" and "IsSortedAndValid (committed_free s)"
    and "space (committed_allocations s) \<inter> space (committed_free s) = {}"
    and "\<forall>e \<in> set (committed_allocations s @ committed_free s). block_unit (geometry s) dvd bytes e"
    and "length (committed_allocations s) + length (committed_free s) \<le> u32_max div 16"
    and "xid \<le> u64_max" and "CanLoadNativeCheckpointXid c xid" and "32 \<le> block_size (geometry s)"
    and "geometry s0 = geometry s"
  shows "\<exists>block s'. ReadBlockByIndexDirect read (geometry s) (hd (spaceman_slots flag s xid)) = Some block \<and>
    LoadSpacemanCheckpointBlock read c block (s0, last_xid) = Some (True, s', later_xid last_xid xid) \<and>
    committed_allocations s' = committed_allocations s \<and> committed_free s' = committed_free s \<and>
    working_free s' = committed_free s \<and>
    (\<forall>x \<in> space (committed_allocations s). x < working_next_ephemeral_extent s')"
proof -
  let ?as = "committed_allocations s" let ?fs = "committed_free s" let ?g = "geometry s" let ?u = "block_size ?g"
  let ?w = "spaceman_slots flag s xid" let ?d = "spaceman_bytes ?as ?fs xid"
  let ?bs = "ResolveSpacemanCheckpointBlockIndices (total_blocks ?g)" let ?p = "concat (map extent_bytes (?as @ ?fs))"
  have canonical: "IsCanonicalSpacemanExtents ?as" "IsCanonicalSpacemanExtents ?fs"
    using assms(4,5) by (simp_all add: IsCanonical_iff)
  have p: "?w \<noteq> []" "length ?bs \<le> u64_max div ?u" "0 < ?u" "length ?as + length ?fs \<le> u32_max"
    "AppendSelectedChunkedCheckpointWriteSpans ?u ?w (pad_to ?u ?d) = Some spans"
    using PersistSpacemanCheckpoint_spans [OF assms(1) canonical] by (simp_all add: Let_def)
  have n: "length ?as \<le> u32_max" "length ?fs \<le> u32_max" using p(4) by linarith+
  note fields = checkpoint_fields [OF magic_lengths(2) assms(9) n, of ?p, folded spaceman_bytes_def]
  have dl: "length ?d = 32 + (length ?as + length ?fs) * 16" using fields(6) by simp
  have list: "length (spaceman_slot_list s) \<le> u64_max div ?u"
    using p(2) by (auto simp: spaceman_slot_list_def Let_def)
  note win = writable_window [OF spaceman_slots_def p(1) list]
  have "?w \<in> set (SelectChunkedCheckpointBlockWindows ?bs xid ((32 + (length ?as + length ?fs) * 16 + ?u - 1) div ?u))"
    using win(1) windows_take [of ?w 4 ?bs xid _ xid] by (auto simp: spaceman_slot_list_def Let_def split: if_splits)
  then have member: "?w \<in> set (SelectChunkedCheckpointBlockWindows ?bs xid ((length ?d + ?u - 1) div ?u))"
    using dl by simp
  obtain block where b: "ReadBlockByIndexDirect read ?g (hd ?w) = Some block" "length block = ?u"
    "ReadLe64 block 12 = xid" "ReadLe32 block 20 = length ?as" "ReadLe32 block 24 = length ?fs"
    "\<not> length ?p > ?u - 32 \<longrightarrow> (\<exists>post. block = ?d @ post)"
    "ReadChunkedCheckpointBytes read ?u (total_blocks ?g) ?bs xid spaceman_magic (length ?p) = ?d"
    by (rule checkpoint_reread [OF member win(2) p(5) assms(2,3) spaceman_bytes_def magic_lengths(2) assms(9) n assms(11)])
  have pl: "length ?p = (length ?as + length ?fs) * 16" by (simp add: add_mult_distrib)
  have "\<exists>post. spaceman_payload read ?g block = ?d @ post"
    using b(2-) assms(8) unfolding pl
    by (cases "(length ?as + length ?fs) * 16 > ?u - 32")
      (auto simp: spaceman_payload_def Let_def kCheckpointHeaderBytes_def intro: exI [of _ "[]"])
  then obtain post where post: "spaceman_payload read ?g block = ?d @ post" by blast
  have v: "\<forall>e \<in> set ?as \<union> set ?fs. valid_extent e" using assms(4,5) by (auto simp: IsSortedAndValid_iff)
  have parsed: "ParseSpacemanCheckpointV3 (?d @ post) = Some (Some (?as, ?fs, xid))"
  proof (rule parse_spaceman_bytes [OF v _ assms(9) p(4)])
    have "sorted_wrt apart es" if "IsSortedAndValid es" for es
      using that unfolding IsSortedAndValid_iff
      by (auto elim!: sorted_wrt_mono_rel [rotated] simp: gap_def apart_def range_of_def mem_ivl)
    then show "sorted_wrt apart (?as @ ?fs)"
      using assms(4-6) by (auto simp: sorted_wrt_append apart_def space_def)
  qed
  have "?d @ post \<noteq> []" unfolding spaceman_bytes_def by (rule checkpoint_bytes_nonempty) simp
  moreover have "copy_aligned ?g ?as = (True, ?as)" "copy_aligned ?g ?fs = (True, ?fs)"
    using v assms(7) by (auto intro!: copy_aligned_id)
  moreover note NormalizeSpacemanExtents_canonical [OF assms(4)] NormalizeSpacemanExtents_canonical [OF assms(5)]
  ultimately obtain s' where s': "LoadSpacemanCheckpointBlock read c block (s0, last_xid) = Some (True, s', later_xid last_xid xid)"
    "committed_allocations s' = ?as" "committed_free s' = ?fs" "working_free s' = ?fs"
    "working_next_ephemeral_extent s' = tail_after (next_ephemeral_extent s0) ?as"
    using b(2) assms(10-12) post parsed
    by (simp add: LoadSpacemanCheckpointBlock_def Let_def kCheckpointHeaderBytes_def)
  then show ?thesis using b(1) tail_after_bound(1) [of ?as] v by auto
qed

section \<open>A small container\<close>

text \<open>A device that holds exactly the given spans; reads outside them fail.\<close>

definition image_device :: "WriteSpan list \<Rightarrow> device_read" where
  "image_device spans offset n =
     (case find (\<lambda>(start, data). start \<le> offset \<and> offset + n \<le> start + length data) spans of
        None \<Rightarrow> None
      | Some (start, data) \<Rightarrow> Some (take n (drop (offset - start) data)))"

lemma image_device_holds: "holds (image_device [span]) [span]"
  by (auto simp: holds_def image_device_def)

definition small_ledger :: SpacemanLedger where
  "small_ledger = sample_ledger\<lparr>geometry := sample_geometry\<lparr>block_size := 32, total_blocks := 200\<rparr>,
     committed_allocations := [mk_extent 320 64], committed_free := [mk_extent 640 64]\<rparr>"

definition small_context :: CheckpointContext where
  "small_context = \<lparr>shared_container_session = True, container_volume_slot_count = 13, container_volume_slot_index = 0\<rparr>"

definition small_load :: CheckpointLoadContext where
  "small_load = \<lparr>loaded_superblock_checkpoint_xid = 6, replay_checkpoint_load_xid = None, raw_device = False,
     requires_canonical = True\<rparr>"

definition small_entry :: ApfsObjectMapEntry where
  "small_entry = \<lparr>om_object_id = 9, om_physical_address = 320, om_logical_size = 64, om_xid = 5\<rparr>"

lemma small_geometry: "block_size (geometry small_ledger) = 32" "total_blocks (geometry small_ledger) = 200"
  by (simp_all add: small_ledger_def sample_ledger_def)

lemma small_slots:
  "ResolveObjectMapCheckpointBlockIndices small_context 200 = [72, 73, 74, 75]"
  "ResolveSpacemanCheckpointBlockIndices 200 = [76, 77, 78, 79]"
proof -
  have t: "(200::nat) = 72 + 128" "(0::nat) < 72" "(200::nat) \<le> u64_max" by (simp_all add: u64_max_def)
  have "ResolveNativeCheckpointBandStartBlock 200 = Some 72" by (simp add: ResolveNativeCheckpointBandStartBlock_Some)
  moreover have "append_range 200 72 0 4 = [72, 73, 74, 75]" "append_range 200 72 66 48 = [138..<186]"
    using append_range_closed [OF t, of 0 4] append_range_closed [OF t, of 66 48] by (simp_all add: upt_rec_numeral)
  ultimately show "ResolveObjectMapCheckpointBlockIndices small_context 200 = [72, 73, 74, 75]"
    by (simp add: ResolveObjectMapCheckpointBlockIndices_def SelectVolumeCheckpointPartition_def small_context_def
        layout_constants u64_max_def Let_def)
  show "ResolveSpacemanCheckpointBlockIndices 200 = [76, 77, 78, 79]"
    using slot_families_large(2) [OF t] by (simp add: upt_rec_numeral)
qed

lemma small_windows:
  "SelectChunkedCheckpointBlockWindows [a, b, c, d] 7 2 = [[c, d], [a, b]]"
proof -
  have "length [a, b, c, d] = 4" "[0..<2] = [0, Suc 0]" by (simp_all add: numeral_2_eq_2)
  then show ?thesis
    unfolding SelectChunkedCheckpointBlockWindows_def Let_def by (simp del: list.size)
qed

lemma small_writable:
  assumes "set bs \<subseteq> {72..<80}" and "bs \<noteq> []"
  shows "AreNativeCheckpointBlocksWritable False small_ledger bs"
proof -
  have "IsNativeCheckpointBandBlock 200 b \<and> \<not> b > u64_max div 32 \<and> \<not> overlaps_linear (b * 32) [mk_extent 320 64] \<and>
      \<not> overlaps_linear (b * 32) []" if "b \<in> set bs" for b
    using assms(1) that
    by (force simp: IsNativeCheckpointBandBlock_iff band_blocks_def band_low_def overlaps_linear_def u64_max_def)
  then show ?thesis
    using assms(2) by (simp add: AreNativeCheckpointBlocksWritable_def scan_allocations_def list_all_iff
        small_ledger_def sample_ledger_def sample_geometry_def)
qed

lemma small_window_other:
  assumes "b * 32 < start \<or> start + 64 \<le> b * 32" and "length data = 64"
  shows "window_bytes (image_device [(start, data)]) 32 200 magic 7 2 [b, Suc b] = None"
  using assms
  by (auto simp: window_bytes_def ReadOrderedCheckpointWindowBytes_def image_device_def u64_max_def Let_def)

lemma AppendSelected_pair:
  assumes "length data = 64" and "0 < b" and "b < 200"
  shows "AppendSelectedChunkedCheckpointWriteSpans 32 [b, Suc b] (pad_to 32 data) = Some [(b * 32, data)]"
  using assms by (simp add: AppendSelectedChunkedCheckpointWriteSpans_def pad_to_def add64_def u64_max_def Let_def)

lemma small_object_map:
  "PersistObjectMapCheckpoint False small_context small_ledger [(9, small_entry)] 7 =
     Some [(2368, object_map_bytes [small_entry] 7)]"
  "object_map_slots False small_context small_ledger [(9, small_entry)] 7 = [74, 75]"
proof -
  have o: "OrderedCommittedObjectMapEntries [(9, small_entry)] = [small_entry]"
    by (simp add: OrderedCommittedObjectMapEntries_def HasPhysicalObjectMapping_def small_entry_def)
  have sel: "SelectWritableChunkedCheckpointBlocks False small_ledger [72, 73, 74, 75] 7 2 = [74, 75]"
    by (simp add: SelectWritableChunkedCheckpointBlocks_def small_windows small_writable)
  then show "object_map_slots False small_context small_ledger [(9, small_entry)] 7 = [74, 75]"
    by (simp add: object_map_slots_def o small_geometry small_slots)
  have l: "length (object_map_bytes [small_entry] 7) = 64"
    by (simp add: object_map_bytes_def checkpoint_bytes_def header_bytes_def)
  have "PadCheckpointWriteDataToBlockBoundary 32 (object_map_bytes [small_entry] 7) =
      Some (pad_to 32 (object_map_bytes [small_entry] 7))" using l by (intro Pad_eq) auto
  then show "PersistObjectMapCheckpoint False small_context small_ledger [(9, small_entry)] 7 =
     Some [(2368, object_map_bytes [small_entry] 7)]"
    using object_map_block [of "[small_entry]" 7] AppendSelected_pair [OF l, of 74] sel
    by (simp add: PersistObjectMapCheckpoint_def o small_geometry small_slots Let_def kCheckpointHeaderBytes_def
        u64_max_def u32_max_def)
qed

theorem object_map_checkpoint_reloads_witness:
  "\<exists>block. LoadObjectMapCheckpointBlock (image_device [(2368, object_map_bytes [small_entry] 7)]) small_context small_load
      (geometry small_ledger) (Some 6) block = Some ([(9, small_entry)], Some 7)"
proof -
  let ?om = "[(9, small_entry)]" let ?spans = "[(2368, object_map_bytes [small_entry] 7)]"
  have l: "length (object_map_bytes [small_entry] 7) = 64"
    by (simp add: object_map_bytes_def checkpoint_bytes_def header_bytes_def)
  have o: "OrderedCommittedObjectMapEntries ?om = [small_entry]"
    by (simp add: OrderedCommittedObjectMapEntries_def HasPhysicalObjectMapping_def small_entry_def)
  have sole: "sole_window (image_device ?spans) (geometry small_ledger) object_map_magic
      (ResolveObjectMapCheckpointBlockIndices small_context (total_blocks (geometry small_ledger))) 7
      (object_map_slots False small_context small_ledger ?om 7)"
    using small_window_other [of 72 2368 "object_map_bytes [small_entry] 7"] l
    by (simp add: sole_window_def small_object_map(2) small_geometry small_slots small_windows flip: numeral_2_eq_2)
  have "\<forall>(key, e) \<in> set ?om. key = om_object_id e \<and> entry_bounded e" "ValidateEntries (OrderedCommittedObjectMapEntries ?om)"
    "(7::nat) \<le> u64_max" "CanLoadNativeCheckpointXid small_load 7" "32 \<le> block_size (geometry small_ledger)"
    unfolding o by (simp_all add: small_entry_def entry_bounded_def ValidateEntries_def CanLoadNativeCheckpointXid_def small_load_def
        small_geometry u64_max_def)
  from object_map_checkpoint_reloads [OF small_object_map(1) image_device_holds sole this]
  obtain block where "LoadObjectMapCheckpointBlock (image_device ?spans) small_context small_load (geometry small_ledger)
      (Some 6) block = Some (sort_key fst (filter (\<lambda>(object_id, update). HasPhysicalObjectMapping update) ?om),
        later_xid (Some 6) 7)" by blast
  then show ?thesis by (auto simp: later_xid_def HasPhysicalObjectMapping_def small_entry_def)
qed

lemma small_spaceman:
  "PersistSpacemanCheckpoint False small_ledger 7 =
     Some [(2496, spaceman_bytes [mk_extent 320 64] [mk_extent 640 64] 7)]"
  "spaceman_slots False small_ledger 7 = [78, 79]"
proof -
  have c: "committed_allocations small_ledger = [mk_extent 320 64]" "committed_free small_ledger = [mk_extent 640 64]"
    by (simp_all add: small_ledger_def)
  have sel: "SelectWritableChunkedCheckpointBlocks False small_ledger [76, 77, 78, 79] 7 2 = [78, 79]"
    by (simp add: SelectWritableChunkedCheckpointBlocks_def small_windows small_writable)
  then show "spaceman_slots False small_ledger 7 = [78, 79]"
    by (simp add: spaceman_slots_def spaceman_slot_list_def c small_geometry small_slots)
  have l: "length (spaceman_bytes [mk_extent 320 64] [mk_extent 640 64] 7) = 64"
    by (simp add: spaceman_bytes_def checkpoint_bytes_def header_bytes_def)
  have "PadCheckpointWriteDataToBlockBoundary 32 (spaceman_bytes [mk_extent 320 64] [mk_extent 640 64] 7) =
      Some (pad_to 32 (spaceman_bytes [mk_extent 320 64] [mk_extent 640 64] 7))" using l by (intro Pad_eq) auto
  then show "PersistSpacemanCheckpoint False small_ledger 7 =
     Some [(2496, spaceman_bytes [mk_extent 320 64] [mk_extent 640 64] 7)]"
    using spaceman_block [of "[mk_extent 320 64]" "[mk_extent 640 64]" 7] AppendSelected_pair [OF l, of 78] sel
    by (simp add: PersistSpacemanCheckpoint_def c small_geometry small_slots Let_def kCheckpointHeaderBytes_def
        IsCanonicalSpacemanExtents_def layout_constants u64_max_def u32_max_def)
qed

lemma spaceman_checkpoint_reloads_witness:
  "\<exists>block s'. LoadSpacemanCheckpointBlock (image_device [(2496, spaceman_bytes [mk_extent 320 64] [mk_extent 640 64] 7)])
      small_load block (small_ledger, None) = Some (True, s', Some 7) \<and> working_free s' = [mk_extent 640 64]"
proof -
  let ?spans = "[(2496, spaceman_bytes [mk_extent 320 64] [mk_extent 640 64] 7)]"
  have c: "committed_allocations small_ledger = [mk_extent 320 64]" "committed_free small_ledger = [mk_extent 640 64]"
    by (simp_all add: small_ledger_def)
  have l: "length (spaceman_bytes [mk_extent 320 64] [mk_extent 640 64] 7) = 64"
    by (simp add: spaceman_bytes_def checkpoint_bytes_def header_bytes_def)
  have sole: "sole_window (image_device ?spans) (geometry small_ledger) spaceman_magic
      (ResolveSpacemanCheckpointBlockIndices (total_blocks (geometry small_ledger))) 7 (spaceman_slots False small_ledger 7)"
    using small_window_other [of 76 2496 "spaceman_bytes [mk_extent 320 64] [mk_extent 640 64] 7"] l
    by (simp add: sole_window_def small_spaceman(2) small_geometry small_slots small_windows flip: numeral_2_eq_2)
  have "IsSortedAndValid (committed_allocations small_ledger)" "IsSortedAndValid (committed_free small_ledger)"
    "space (committed_allocations small_ledger) \<inter> space (committed_free small_ledger) = {}"
    "\<forall>e \<in> set (committed_allocations small_ledger @ committed_free small_ledger). block_unit (geometry small_ledger) dvd bytes e"
    "length (committed_allocations small_ledger) + length (committed_free small_ledger) \<le> u32_max div 16"
    "(7::nat) \<le> u64_max" "CanLoadNativeCheckpointXid small_load 7" "32 \<le> block_size (geometry small_ledger)"
    by (simp_all add: c IsSortedAndValid_def RangeEnd_def range_of_def ivl_def block_unit_def small_geometry
        CanLoadNativeCheckpointXid_def small_load_def u64_max_def u32_max_def)
  from spaceman_checkpoint_reloads [OF small_spaceman(1) image_device_holds sole this refl, of None]
  show ?thesis by (auto simp: c later_xid_def)
qed

end
