(* ===== verification/SharedSpace.thy ===== *)
theory SharedSpace
  imports Prelude
begin

text \<open>
  The accounting of the space shared by the volumes of a container
  (\<^verbatim>\<open>src/ApfsSharedSpace.cpp\<close>): \<^verbatim>\<open>TryProjectAppleSharedSpace\<close> checks the counters
  of a checkpoint and projects, for each volume, what it may still use without cutting into the
  reserves of its siblings or exceeding its quota.  The records hold the fields of
  \<^verbatim>\<open>AppleCheckpointView\<close> (\<^verbatim>\<open>include/ApfsFormat.h\<close>) the function reads.
\<close>

unbundle bit_operations_syntax

section \<open>Data\<close>

record AppleSpacemanDeviceView =
  dv_block_count :: nat
  dv_chunk_count :: nat
  dv_cib_count :: nat
  dv_cab_count :: nat
  dv_free_count :: nat

record VolumeSuperblock =
  vs_object_id :: nat
  vs_xid :: nat
  vs_header_object_id :: nat
  vs_header_xid :: nat
  vs_reserve_block_count :: nat
  vs_quota_block_count :: nat
  vs_allocated_block_count :: nat

record SharedCheckpoint =
  nx_uuid_hex :: string
  nx_xid :: nat
  nx_block_count :: nat
  nx_block_size :: nat
  nx_spaceman_oid :: nat
  nx_fs_oids :: "nat list"
  checkpoint_map_blocks :: "nat list"
  sm_object_id :: nat
  sm_xid :: nat
  main_device :: AppleSpacemanDeviceView
  tier2_device :: AppleSpacemanDeviceView
  cp_volumes :: "VolumeSuperblock list"

datatype SharedSpaceError =
    SharedSpaceCheckpointInvalid
  | SharedSpaceMultiStoreUnsupported
  | SharedSpaceVolumeSetInvalid
  | SharedSpaceByteOverflow
  | SharedSpaceVolumeIdentityInvalid
  | SharedSpaceVolumeCountersInvalid
  | SharedSpaceReserveOverflow
  | SharedSpaceReservesExceedFree

record ApfsSpaceAmount =
  sa_blocks :: nat
  sa_bytes :: nat

text \<open>The two members the projection never fills, snapshots and purgeable bytes, are left out.\<close>

record ApfsVolumeSpaceProjection =
  vp_object_id :: nat
  vp_allocated :: ApfsSpaceAmount
  vp_reserve :: "ApfsSpaceAmount option"
  vp_quota :: "ApfsSpaceAmount option"
  vp_sibling_reserve_remaining :: ApfsSpaceAmount
  vp_available :: ApfsSpaceAmount

record ApfsSharedSpaceProjection =
  sp_container_uuid_hex :: string
  sp_checkpoint_xid :: nat
  sp_allocation_unit_bytes :: nat
  sp_total :: ApfsSpaceAmount
  sp_free :: ApfsSpaceAmount
  sp_used :: ApfsSpaceAmount
  sp_volumes :: "ApfsVolumeSpaceProjection list"

section \<open>The projection\<close>

definition amount :: "nat \<Rightarrow> nat \<Rightarrow> ApfsSpaceAmount option" where
  "amount unit blocks =
     (if blocks > u64_max div unit then None else Some \<lparr>sa_blocks = blocks, sa_bytes = blocks * unit\<rparr>)"

definition unmet :: "VolumeSuperblock \<Rightarrow> nat" where
  "unmet v = (if vs_reserve_block_count v > vs_allocated_block_count v
              then vs_reserve_block_count v - vs_allocated_block_count v else 0)"

text \<open>The first loop, over the volumes with the object ids the superblock lists.\<close>

fun sum_unmet ::
  "SharedCheckpoint \<Rightarrow> nat \<Rightarrow> nat set \<Rightarrow> nat \<Rightarrow> (VolumeSuperblock \<times> nat) list \<Rightarrow> SharedSpaceError + nat" where
  "sum_unmet cp used oids unmet_reserves [] = Inr unmet_reserves"
| "sum_unmet cp used oids unmet_reserves ((v, fs_oid) # vs) =
     (if vs_object_id v = 0 \<or> vs_object_id v \<noteq> fs_oid \<or> vs_object_id v \<in> oids \<or> vs_xid v = 0 \<or>
         vs_xid v > nx_xid cp \<or> vs_header_object_id v \<noteq> vs_object_id v \<or> vs_header_xid v \<noteq> vs_xid v
      then Inl SharedSpaceVolumeIdentityInvalid
      else if vs_allocated_block_count v > used \<or> vs_reserve_block_count v > nx_block_count cp \<or>
              (vs_quota_block_count v \<noteq> 0 \<and> vs_reserve_block_count v > vs_quota_block_count v)
      then Inl SharedSpaceVolumeCountersInvalid
      else if unmet v > u64_max - unmet_reserves then Inl SharedSpaceReserveOverflow
      else sum_unmet cp used (insert (vs_object_id v) oids) (unmet_reserves + unmet v) vs)"

definition optional_amount :: "nat \<Rightarrow> nat \<Rightarrow> ApfsSpaceAmount option option" where
  "optional_amount unit blocks = (if blocks \<noteq> 0 then map_option Some (amount unit blocks) else Some None)"

definition project_volume :: "nat \<Rightarrow> nat \<Rightarrow> nat \<Rightarrow> VolumeSuperblock \<Rightarrow> ApfsVolumeSpaceProjection option" where
  "project_volume unit free unmet_reserves v =
     (let siblings = unmet_reserves - unmet v;
          available = free - siblings;
          remaining = (if vs_quota_block_count v > vs_allocated_block_count v
                       then vs_quota_block_count v - vs_allocated_block_count v else 0);
          available = (if vs_quota_block_count v \<noteq> 0 then min available remaining else available)
      in case optional_amount unit (vs_quota_block_count v) of
           None \<Rightarrow> None
         | Some quota \<Rightarrow>
             (case optional_amount unit (vs_reserve_block_count v) of
                None \<Rightarrow> None
              | Some reserve \<Rightarrow>
                  (case (amount unit (vs_allocated_block_count v), amount unit siblings, amount unit available) of
                     (Some a, Some sib, Some av) \<Rightarrow>
                       Some \<lparr>vp_object_id = vs_object_id v, vp_allocated = a, vp_reserve = reserve, vp_quota = quota,
                             vp_sibling_reserve_remaining = sib, vp_available = av\<rparr>
                   | _ \<Rightarrow> None)))"

fun project_volumes ::
  "nat \<Rightarrow> nat \<Rightarrow> nat \<Rightarrow> VolumeSuperblock list \<Rightarrow> ApfsVolumeSpaceProjection list option" where
  "project_volumes unit free unmet_reserves [] = Some []"
| "project_volumes unit free unmet_reserves (v # vs) =
     (case project_volume unit free unmet_reserves v of
        None \<Rightarrow> None
      | Some p \<Rightarrow> map_option ((#) p) (project_volumes unit free unmet_reserves vs))"

definition TryProjectAppleSharedSpace :: "SharedCheckpoint \<Rightarrow> SharedSpaceError + ApfsSharedSpaceProjection" where
  "TryProjectAppleSharedSpace cp =
     (let device = main_device cp; tier2 = tier2_device cp; unit = nx_block_size cp in
      if length (nx_uuid_hex cp) \<noteq> 32 \<or> nx_xid cp = 0 \<or> nx_block_count cp = 0 \<or>
         unit < 4096 \<or> unit > 65536 \<or> unit AND (unit - 1) \<noteq> 0 \<or> checkpoint_map_blocks cp = [] \<or>
         nx_spaceman_oid cp = 0 \<or> sm_object_id cp \<noteq> nx_spaceman_oid cp \<or> sm_xid cp \<noteq> nx_xid cp \<or>
         dv_block_count device \<noteq> nx_block_count cp \<or> dv_free_count device > dv_block_count device
      then Inl SharedSpaceCheckpointInvalid
      else if dv_block_count tier2 \<noteq> 0 \<or> dv_chunk_count tier2 \<noteq> 0 \<or> dv_free_count tier2 \<noteq> 0 \<or>
              dv_cib_count tier2 \<noteq> 0 \<or> dv_cab_count tier2 \<noteq> 0
      then Inl SharedSpaceMultiStoreUnsupported
      else if cp_volumes cp = [] \<or> length (cp_volumes cp) \<noteq> length (nx_fs_oids cp)
      then Inl SharedSpaceVolumeSetInvalid
      else case (amount unit (nx_block_count cp), amount unit (dv_free_count device),
                 amount unit (nx_block_count cp - dv_free_count device)) of
        (Some total_amount, Some free_amount, Some used_amount) \<Rightarrow>
          (case sum_unmet cp (sa_blocks used_amount) {} 0 (zip (cp_volumes cp) (nx_fs_oids cp)) of
             Inl e \<Rightarrow> Inl e
           | Inr unmet_reserves \<Rightarrow>
               if unmet_reserves > dv_free_count device then Inl SharedSpaceReservesExceedFree
               else case project_volumes unit (dv_free_count device) unmet_reserves (cp_volumes cp) of
                      None \<Rightarrow> Inl SharedSpaceByteOverflow
                    | Some volumes \<Rightarrow>
                        Inr \<lparr>sp_container_uuid_hex = nx_uuid_hex cp, sp_checkpoint_xid = nx_xid cp,
                             sp_allocation_unit_bytes = unit, sp_total = total_amount, sp_free = free_amount, sp_used = used_amount,
                             sp_volumes = volumes\<rparr>)
      | _ \<Rightarrow> Inl SharedSpaceByteOverflow)"

section \<open>What the projection promises\<close>

definition amount_ok :: "nat \<Rightarrow> ApfsSpaceAmount \<Rightarrow> bool" where
  "amount_ok unit a \<longleftrightarrow> sa_bytes a = sa_blocks a * unit \<and> sa_bytes a \<le> u64_max"

lemma amount_Some: "0 < unit \<Longrightarrow> amount unit b = Some a \<longleftrightarrow> sa_blocks a = b \<and> amount_ok unit a"
proof -
  assume u: "0 < unit"
  have "b > u64_max div unit \<longleftrightarrow> b * unit > u64_max" using u by (simp add: div_less_iff_less_mult)
  then show ?thesis by (cases a) (auto simp: amount_def amount_ok_def)
qed

lemma sum_unmet_total:
  "sum_unmet cp used oids k vs = Inr r \<Longrightarrow>
     r = k + sum_list (map (unmet \<circ> fst) vs) \<and> (\<forall>v \<in> set vs. vs_allocated_block_count (fst v) \<le> used)"
proof (induction vs arbitrary: oids k)
  case Nil
  then show ?case by simp
next
  case (Cons x vs)
  obtain v fs where x: "x = (v, fs)" by fastforce
  have "sum_unmet cp used (insert (vs_object_id v) oids) (k + unmet v) vs = Inr r"
    "vs_allocated_block_count v \<le> used"
    using Cons.prems unfolding x by (auto split: if_splits)
  then show ?case using Cons.IH [of "insert (vs_object_id v) oids" "k + unmet v"] unfolding x by simp
qed

lemma project_volumes_nth:
  "project_volumes unit free u vs = Some ps \<Longrightarrow> length ps = length vs \<and>
     (\<forall>i < length vs. project_volume unit free u (vs ! i) = Some (ps ! i))"
proof (induction vs arbitrary: ps)
  case Nil
  then show ?case by simp
next
  case (Cons v vs)
  then obtain p ps' where p: "project_volume unit free u v = Some p" "project_volumes unit free u vs = Some ps'"
    "ps = p # ps'" by (auto split: option.splits)
  show ?case using Cons.IH [OF p(2)] p(1,3) by (auto simp: nth_Cons split: nat.split)
qed

lemma project_volume_amounts:
  assumes "project_volume unit free u v = Some p" and "0 < unit" and "unmet v \<le> u" and "u \<le> free"
  shows "vp_object_id p = vs_object_id v \<and> amount_ok unit (vp_available p) \<and> amount_ok unit (vp_allocated p) \<and>
    sa_blocks (vp_allocated p) = vs_allocated_block_count v \<and>
    sa_blocks (vp_available p) + (u - unmet v) \<le> free \<and>
    (vs_quota_block_count v \<noteq> 0 \<longrightarrow>
       sa_blocks (vp_available p) + vs_allocated_block_count v \<le>
         max (vs_quota_block_count v) (vs_allocated_block_count v)) \<and>
    (vs_quota_block_count v = 0 \<longrightarrow> sa_blocks (vp_available p) + (u - unmet v) = free)"
proof -
  let ?av = "if vs_quota_block_count v \<noteq> 0
    then min (free - (u - unmet v)) (if vs_quota_block_count v > vs_allocated_block_count v
                       then vs_quota_block_count v - vs_allocated_block_count v else 0)
    else free - (u - unmet v)"
  obtain a av where r: "amount unit (vs_allocated_block_count v) = Some a" "amount unit ?av = Some av"
    "vp_object_id p = vs_object_id v" "vp_allocated p = a" "vp_available p = av"
    using assms(1) unfolding project_volume_def Let_def by (auto split: option.splits prod.splits)
  have av: "sa_blocks av = ?av" "amount_ok unit av" "sa_blocks a = vs_allocated_block_count v" "amount_ok unit a"
    using r(1,2) unfolding amount_Some [OF assms(2)] by auto
  show ?thesis using av r(3-5) assms(3,4) by (auto simp: min_def max_def)
qed


definition sample_shared :: SharedCheckpoint where
  "sample_shared = \<lparr>nx_uuid_hex = replicate 32 CHR ''0'', nx_xid = 9, nx_block_count = 1000, nx_block_size = 4096,
     nx_spaceman_oid = 5, nx_fs_oids = [11, 12], checkpoint_map_blocks = [1], sm_object_id = 5, sm_xid = 9,
     main_device = \<lparr>dv_block_count = 1000, dv_chunk_count = 1, dv_cib_count = 1, dv_cab_count = 0, dv_free_count = 400\<rparr>,
     tier2_device = \<lparr>dv_block_count = 0, dv_chunk_count = 0, dv_cib_count = 0, dv_cab_count = 0, dv_free_count = 0\<rparr>,
     cp_volumes = [\<lparr>vs_object_id = 11, vs_xid = 9, vs_header_object_id = 11, vs_header_xid = 9,
         vs_reserve_block_count = 300, vs_quota_block_count = 0, vs_allocated_block_count = 200\<rparr>,
       \<lparr>vs_object_id = 12, vs_xid = 8, vs_header_object_id = 12, vs_header_xid = 8,
         vs_reserve_block_count = 0, vs_quota_block_count = 500, vs_allocated_block_count = 350\<rparr>]\<rparr>"


end
