(* ===== verification/StandardMountLocks.thy ===== *)
theory StandardMountLocks
  imports ByteCodec
begin

text \<open>
  The byte-range locks of the standard mount
  (\<^verbatim>\<open>src-native/ApfsAccess.FsHost/src/NativeStandardLocks.h\<close>): a table of locks, each of
  one open handle on a range of one stream of an inode.  The host admits a read or a write only
  through \<^verbatim>\<open>AllowsIo\<close>.  The operations are requests of a step relation, and the
  exclusion the table promises is an invariant of its reachable states.
\<close>

section \<open>The lock table\<close>

datatype LockAdmission = Allowed | Invalid | Conflict | NotLocked | Exhausted

record Lock =
  lk_owner :: nat
  lk_inode :: nat
  lk_offset :: nat
  lk_length :: nat
  lk_stream :: "wchar list"
  lk_exclusive :: bool

definition int64_max :: nat where
  "int64_max = 9223372036854775807"

definition Fits :: "nat \<Rightarrow> nat \<Rightarrow> bool" where
  "Fits offset n = (offset \<le> int64_max \<and> n \<noteq> 0 \<and> n \<le> int64_max - offset)"

definition Overlap :: "Lock \<Rightarrow> nat \<Rightarrow> nat \<Rightarrow> bool" where
  "Overlap lock offset n =
     (lk_offset lock < add64 offset n \<and> offset < add64 (lk_offset lock) (lk_length lock))"

definition Acquire ::
  "Lock list \<Rightarrow> nat \<Rightarrow> nat \<Rightarrow> wchar list \<Rightarrow> nat \<Rightarrow> nat \<Rightarrow> bool \<Rightarrow> LockAdmission \<times> Lock list" where
  "Acquire locks owner inode stream offset n exclusive =
     (if owner = 0 \<or> inode = 0 \<or> \<not> Fits offset n then (Invalid, locks)
      else if list_ex (\<lambda>lock. lk_inode lock = inode \<and> lk_stream lock = stream \<and> Overlap lock offset n \<and>
                (exclusive \<or> lk_exclusive lock \<and> lk_owner lock \<noteq> owner)) locks then (Conflict, locks)
      else if length locks \<ge> 8192 then (Exhausted, locks)
      else (Allowed, locks @ [\<lparr>lk_owner = owner, lk_inode = inode, lk_offset = offset, lk_length = n,
                               lk_stream = stream, lk_exclusive = exclusive\<rparr>]))"

fun erase_first :: "('a \<Rightarrow> bool) \<Rightarrow> 'a list \<Rightarrow> 'a list" where
  "erase_first P [] = []"
| "erase_first P (x # xs) = (if P x then xs else x # erase_first P xs)"

definition Release :: "Lock list \<Rightarrow> nat \<Rightarrow> nat \<Rightarrow> nat \<Rightarrow> LockAdmission \<times> Lock list" where
  "Release locks owner offset n =
     (if owner = 0 \<or> \<not> Fits offset n then (Invalid, locks)
      else
        let matches = (\<lambda>lock. lk_owner lock = owner \<and> lk_offset lock = offset \<and> lk_length lock = n) in
        if \<not> list_ex matches locks then (NotLocked, locks) else (Allowed, erase_first matches locks))"

definition Cleanup :: "Lock list \<Rightarrow> nat \<Rightarrow> Lock list" where
  "Cleanup locks owner = filter (\<lambda>lock. lk_owner lock \<noteq> owner) locks"

definition AllowsIo :: "Lock list \<Rightarrow> nat \<Rightarrow> nat \<Rightarrow> wchar list \<Rightarrow> nat \<Rightarrow> nat \<Rightarrow> bool \<Rightarrow> bool" where
  "AllowsIo locks owner inode stream offset n write =
     (if n = 0 then offset \<le> int64_max
      else if owner = 0 \<or> inode = 0 \<or> \<not> Fits offset n then False
      else \<not> list_ex (\<lambda>lock. lk_inode lock = inode \<and> lk_stream lock = stream \<and> Overlap lock offset n \<and>
                (if write then \<not> lk_exclusive lock \<or> lk_owner lock \<noteq> owner
                 else lk_exclusive lock \<and> lk_owner lock \<noteq> owner)) locks)"

section \<open>Reachable tables\<close>

inductive lock_step :: "Lock list \<Rightarrow> Lock list \<Rightarrow> bool" where
  acquire: "Acquire locks owner inode stream offset n exclusive = (r, locks') \<Longrightarrow> lock_step locks locks'"
| release: "Release locks owner offset n = (r, locks') \<Longrightarrow> lock_step locks locks'"
| cleanup: "Cleanup locks owner = locks' \<Longrightarrow> lock_step locks locks'"

inductive reachable_locks :: "Lock list \<Rightarrow> bool" where
  empty: "reachable_locks []"
| step: "reachable_locks locks \<Longrightarrow> lock_step locks locks' \<Longrightarrow> reachable_locks locks'"

inductive_cases lock_stepE [elim]: "lock_step locks locks'"

definition lock_bytes :: "Lock \<Rightarrow> nat set" where
  "lock_bytes lock = ivl (lk_offset lock) (lk_length lock)"

definition same_file :: "Lock \<Rightarrow> Lock \<Rightarrow> bool" where
  "same_file a b \<longleftrightarrow> lk_inode a = lk_inode b \<and> lk_stream a = lk_stream b"

text \<open>Two locks may share a byte only when both are shared or one owner holds both.\<close>

definition compatible :: "Lock \<Rightarrow> Lock \<Rightarrow> bool" where
  "compatible a b \<longleftrightarrow> (same_file a b \<and> lock_bytes a \<inter> lock_bytes b \<noteq> {} \<and> (lk_exclusive a \<or> lk_exclusive b) \<longrightarrow>
     lk_owner a = lk_owner b)"

definition table_ok :: "Lock list \<Rightarrow> bool" where
  "table_ok locks \<longleftrightarrow> length locks \<le> 8192 \<and>
     (\<forall>lock \<in> set locks. lk_owner lock \<noteq> 0 \<and> lk_inode lock \<noteq> 0 \<and> Fits (lk_offset lock) (lk_length lock)) \<and>
     sorted_wrt compatible locks"

lemma Overlap_iff:
  assumes "Fits (lk_offset lock) (lk_length lock)" and "Fits offset n"
  shows "Overlap lock offset n \<longleftrightarrow> lock_bytes lock \<inter> ivl offset n \<noteq> {}"
proof -
  have e: "add64 offset n = offset + n" "add64 (lk_offset lock) (lk_length lock) = lk_offset lock + lk_length lock"
    using assms by (auto intro!: add64_exact simp: Fits_def int64_max_def u64_max_def)
  have "0 < lk_length lock" "0 < n" using assms by (simp_all add: Fits_def)
  from ivl_disjoint_iff [OF this, of "lk_offset lock" offset]
  show ?thesis unfolding Overlap_def e lock_bytes_def by linarith
qed

lemma erase_first_subseq:
  "set (erase_first P xs) \<subseteq> set xs" "length (erase_first P xs) \<le> length xs"
  "sorted_wrt R xs \<Longrightarrow> sorted_wrt R (erase_first P xs)"
proof -
  show s: "set (erase_first P xs) \<subseteq> set xs" for xs by (induction xs) auto
  show "length (erase_first P xs) \<le> length xs" by (induction xs) auto
  show "sorted_wrt R xs \<Longrightarrow> sorted_wrt R (erase_first P xs)" proof (induction xs)
    case (Cons x xs)
    then show ?case using s [of xs] by auto
  qed simp
qed

lemma table_ok_sub:
  assumes "table_ok xs" and "set ys \<subseteq> set xs" and "length ys \<le> length xs" and "sorted_wrt compatible ys"
  shows "table_ok ys"
  using assms by (auto simp: table_ok_def)

lemma table_ok_acquire:
  assumes "table_ok locks" and "Acquire locks owner inode stream offset n exclusive = (r, locks')"
  shows "table_ok locks'"
proof (cases "locks' = locks")
  case True
  then show ?thesis using assms(1) by simp
next
  case False
  let ?l = "\<lparr>lk_owner = owner, lk_inode = inode, lk_offset = offset, lk_length = n,
    lk_stream = stream, lk_exclusive = exclusive\<rparr>"
  have g: "owner \<noteq> 0" "inode \<noteq> 0" "Fits offset n" "length locks < 8192" "locks' = locks @ [?l]"
    "\<forall>lock \<in> set locks. \<not> (lk_inode lock = inode \<and> lk_stream lock = stream \<and> Overlap lock offset n \<and>
       (exclusive \<or> lk_exclusive lock \<and> lk_owner lock \<noteq> owner))"
    using False assms(2) by (auto simp: Acquire_def list_ex_iff split: if_splits)
  have "compatible lock ?l" if "lock \<in> set locks" for lock
  proof -
    have "Fits (lk_offset lock) (lk_length lock)" using assms(1) that by (simp add: table_ok_def)
    then show ?thesis
      using g(3,6) that Overlap_iff [of lock offset n] by (auto simp: compatible_def same_file_def lock_bytes_def)
  qed
  then show ?thesis using assms(1) g(1-5) by (auto simp: table_ok_def sorted_wrt_append)
qed

lemma table_ok_step: "lock_step locks locks' \<Longrightarrow> table_ok locks \<Longrightarrow> table_ok locks'"
proof (induction rule: lock_step.induct)
  case (acquire locks owner inode stream offset n exclusive r locks')
  then show ?case by (blast intro: table_ok_acquire)
next
  case (release locks owner offset n r locks')
  have "locks' = locks \<or> (\<exists>P. locks' = erase_first P locks)"
    using release.hyps by (auto simp: Release_def Let_def split: if_splits)
  then show ?case using release.prems erase_first_subseq table_ok_sub by (metis table_ok_def)
next
  case (cleanup locks owner locks')
  then show ?case by (auto simp: Cleanup_def table_ok_def intro: sorted_wrt_filter order_trans [OF length_filter_le])
qed

lemma reachable_table_ok: "reachable_locks locks \<Longrightarrow> table_ok locks"
  by (induction rule: reachable_locks.induct) (simp add: table_ok_def, blast intro: table_ok_step)

lemma table_ok_pair:
  assumes "table_ok locks" and "a \<in> set locks" and "b \<in> set locks" and "lk_owner a \<noteq> lk_owner b"
    and "same_file a b" and "lock_bytes a \<inter> lock_bytes b \<noteq> {}"
  shows "\<not> lk_exclusive a \<and> \<not> lk_exclusive b"
proof -
  obtain i j where ij: "i < length locks" "j < length locks" "a = locks ! i" "b = locks ! j"
    using assms(2,3) by (metis in_set_conv_nth)
  have "i \<noteq> j" using ij assms(4) by auto
  then have "compatible a b \<or> compatible b a"
    using ij assms(1) unfolding table_ok_def sorted_wrt_iff_nth_less by (metis nat_neq_iff)
  then show ?thesis using assms(4-6) by (auto simp: compatible_def same_file_def)
qed

text \<open>
  C39. In every reachable lock table, whatever sequence of acquire, release and cleanup requests
  led to it: locks of different handles on a common byte are both shared; a handle that is admitted
  to write holds every lock on the bytes it writes, exclusively; one that is admitted to read
  meets no exclusive lock of another; and the table has at most 8192 locks.
\<close>

theorem range_locks_exclude:
  assumes "reachable_locks locks" and "a \<in> set locks" and "b \<in> set locks"
    and "0 < n" and "AllowsIo locks owner inode stream offset n write"
  shows "length locks \<le> 8192 \<and>
    (lk_owner a \<noteq> lk_owner b \<and> same_file a b \<and> lock_bytes a \<inter> lock_bytes b \<noteq> {} \<longrightarrow>
       \<not> lk_exclusive a \<and> \<not> lk_exclusive b) \<and>
    (lk_inode a = inode \<and> lk_stream a = stream \<and> lock_bytes a \<inter> ivl offset n \<noteq> {} \<longrightarrow>
       (if write then lk_exclusive a \<and> lk_owner a = owner else lk_exclusive a \<longrightarrow> lk_owner a = owner))"
proof -
  have ok: "table_ok locks" using assms(1) by (rule reachable_table_ok)
  have "Fits offset n" using assms(4,5) by (auto simp: AllowsIo_def split: if_splits)
  moreover have "Fits (lk_offset a) (lk_length a)" using ok assms(2) by (simp add: table_ok_def)
  ultimately have "Overlap a offset n \<longleftrightarrow> lock_bytes a \<inter> ivl offset n \<noteq> {}" using Overlap_iff by blast
  moreover have "\<not> (lk_inode a = inode \<and> lk_stream a = stream \<and> Overlap a offset n \<and>
      (if write then \<not> lk_exclusive a \<or> lk_owner a \<noteq> owner else lk_exclusive a \<and> lk_owner a \<noteq> owner))"
    using assms(2,4,5) unfolding AllowsIo_def list_ex_iff by (auto split: if_splits)
  ultimately show ?thesis using table_ok_pair [OF ok assms(2,3)] ok by (auto simp: table_ok_def split: if_splits)
qed

definition sample_lock :: Lock where
  "sample_lock = \<lparr>lk_owner = 3, lk_inode = 20, lk_offset = 0, lk_length = 100, lk_stream = [], lk_exclusive = True\<rparr>"

theorem range_locks_exclude_witness:
  "AllowsIo [sample_lock] 3 20 [] 50 10 True \<and> \<not> AllowsIo [sample_lock] 4 20 [] 50 10 False \<and> lk_owner sample_lock = 3"
proof -
  have "Acquire [] 3 20 [] 0 100 True = (Allowed, [sample_lock])"
    by (simp add: Acquire_def Fits_def int64_max_def sample_lock_def)
  then have "reachable_locks [sample_lock]" by (meson reachable_locks.intros lock_step.acquire)
  moreover have io: "AllowsIo [sample_lock] 3 20 [] 50 10 True" "\<not> AllowsIo [sample_lock] 4 20 [] 50 10 False"
    by (simp_all add: AllowsIo_def Fits_def int64_max_def Overlap_def add64_def sample_lock_def)
  moreover have "sample_lock \<in> set [sample_lock]" "(0::nat) < 10" by simp_all
  ultimately have "lk_inode sample_lock = 20 \<and> lk_stream sample_lock = [] \<and> lock_bytes sample_lock \<inter> ivl 50 10 \<noteq> {} \<longrightarrow>
      lk_exclusive sample_lock \<and> lk_owner sample_lock = 3"
    using range_locks_exclude [of "[sample_lock]" sample_lock sample_lock 10 3 20 "[]" 50 True] by simp
  then show ?thesis using io by (simp add: sample_lock_def)
qed

end
