(* ===== verification/BtreeTable.thy ===== *)
theory BtreeTable
  imports BtreeMutationCodec "HOL-Library.AList" "HOL-Library.List_Lexorder"
begin

text \<open>
  The committed B-tree records of \<^verbatim>\<open>src/MetadataStore.cpp\<close>: a vector of records sorted by key
  with two hash maps beside it, the position of each key and the key of each inode.  Four routines
  work on it: \<^verbatim>\<open>CanonicalizeBtreeRecords\<close> computes the table of a list of records from scratch,
  \<^verbatim>\<open>ApplyBtreeRecordDeltas\<close> and \<^verbatim>\<open>ApplyBtreeRecordDeltasWithRestoreLog\<close> apply pending records
  in place, and \<^verbatim>\<open>RestoreBtreeRecordDeltas\<close> undoes the latter from its log.

  Hash maps are association lists.  A key blob is the key's bytes.  The callers of
  \<^verbatim>\<open>erase_by_key\<close> pass a reference to the key stored in the inode map; the model passes its
  value.
\<close>

section \<open>Records and keys\<close>

type_synonym key_blob = "byte list"
type_synonym key_index = "(key_blob \<times> nat) list"
type_synonym inode_keys = "(nat \<times> key_blob) list"

definition DecodeBtreeInodeObjectIdFromKey :: "BtreeRecord \<Rightarrow> nat option" where
  "DecodeBtreeInodeObjectIdFromKey r =
     (if record_kind r \<noteq> InodeKind \<or> length (record_key r) \<noteq> 17 then None
      else let object_id = le_value (take 8 (drop 9 (record_key r))) in
           if object_id = 0 then None else Some object_id)"

text \<open>The test each routine makes of a record before it uses it.\<close>

definition key_prefix_ok :: "BtreeRecord \<Rightarrow> bool" where
  "key_prefix_ok r = (record_key r \<noteq> [] \<and> unat (hd (record_key r)) = kind_value (record_kind r))"

definition sort_records :: "BtreeRecord list \<Rightarrow> BtreeRecord list" where
  "sort_records rs = sort_key (\<lambda>r. map unat (record_key r)) rs"

section \<open>From scratch\<close>

definition canonicalize_step ::
  "BtreeRecord \<Rightarrow> (key_blob \<times> BtreeRecord) list \<times> inode_keys \<Rightarrow> (key_blob \<times> BtreeRecord) list \<times> inode_keys" where
  "canonicalize_step r st =
     (let (latest_by_key, inode_key_by_object_id) = st; key = record_key r in
      if key = [] then st
      else if record_kind r = InodeKind then
        (if length key \<noteq> 17 then st
         else
           let object_id = le_value (take 8 (drop 9 key)) in
           if object_id = 0 then st
           else
             let latest_by_key = (case map_of inode_key_by_object_id object_id of
                     None \<Rightarrow> latest_by_key
                   | Some previous_key \<Rightarrow> AList.delete previous_key latest_by_key)
             in if record_tombstone r
                then (AList.delete key latest_by_key, AList.delete object_id inode_key_by_object_id)
                else (AList.update key r latest_by_key, AList.update object_id key inode_key_by_object_id))
      else if record_tombstone r then (AList.delete key latest_by_key, inode_key_by_object_id)
      else (AList.update key r latest_by_key, inode_key_by_object_id))"

definition CanonicalizeBtreeRecords :: "BtreeRecord list \<Rightarrow> BtreeRecord list" where
  "CanonicalizeBtreeRecords records =
     sort_records (map snd (fst (fold canonicalize_step records ([], []))))"

section \<open>In place\<close>

record BtreeTable =
  target :: "BtreeRecord list"
  index_by_key :: key_index
  inode_key_by_object_id :: inode_keys

text \<open>
  The loop that indexes a vector, with the flag it returns; a \<^verbatim>\<open>return false\<close> leaves the maps
  as they are then.  \<open>check_prefix\<close> is the test of the kind, which the rebuild after sorting
  leaves out.
\<close>

fun index_records :: "bool \<Rightarrow> nat \<Rightarrow> BtreeRecord list \<Rightarrow> key_index \<times> inode_keys \<Rightarrow> bool \<times> key_index \<times> inode_keys" where
  "index_records check_prefix i [] st = (True, st)"
| "index_records check_prefix i (r # rs) (index, inode_keys) =
     (if record_key r = [] \<or> check_prefix \<and> \<not> key_prefix_ok r then (False, index, inode_keys)
      else if record_kind r = InodeKind then
        (case DecodeBtreeInodeObjectIdFromKey r of
           None \<Rightarrow> (False, index, inode_keys)
         | Some object_id \<Rightarrow>
             index_records check_prefix (i + 1) rs
               (AList.update (record_key r) i index, AList.update object_id (record_key r) inode_keys))
      else index_records check_prefix (i + 1) rs (AList.update (record_key r) i index, inode_keys))"

text \<open>
  Erasing moves the last record into the gap.  \<open>drop_inode\<close> distinguishes the routines with a
  restore log, which also forget the erased inode's key.
\<close>

definition erase_by_key :: "bool \<Rightarrow> key_blob \<Rightarrow> BtreeTable \<Rightarrow> bool \<times> BtreeTable" where
  "erase_by_key drop_inode key t =
     (case map_of (index_by_key t) key of
        None \<Rightarrow> (False, t)
      | Some removed_index \<Rightarrow>
          if removed_index \<ge> length (target t) then (False, t)
          else
            let last_index = length (target t) - 1;
                removed = target t ! removed_index;
                t' = (if removed_index \<noteq> last_index then
                        let moved = target t ! last_index;
                            t1 = t\<lparr>target := (target t)[removed_index := moved]\<rparr>;
                            moved_key = record_key moved
                        in if moved_key \<noteq> [] then
                             let t2 = t1\<lparr>index_by_key := AList.update moved_key removed_index (index_by_key t1)\<rparr>
                             in if record_kind moved = InodeKind then
                                  (case DecodeBtreeInodeObjectIdFromKey moved of
                                     None \<Rightarrow> t2
                                   | Some moved_object_id \<Rightarrow>
                                       t2\<lparr>inode_key_by_object_id :=
                                            AList.update moved_object_id moved_key (inode_key_by_object_id t2)\<rparr>)
                                else t2
                           else t1
                      else t);
                t'' = (if drop_inode \<and> record_kind removed = InodeKind then
                         (case DecodeBtreeInodeObjectIdFromKey removed of
                            None \<Rightarrow> t'
                          | Some removed_object_id \<Rightarrow>
                              t'\<lparr>inode_key_by_object_id := AList.delete removed_object_id (inode_key_by_object_id t')\<rparr>)
                       else t')
            in (True, t''\<lparr>target := butlast (target t''), index_by_key := AList.delete key (index_by_key t'')\<rparr>))"

text \<open>The flag says that the vector grew and has to be sorted again.\<close>

definition upsert_record :: "key_blob \<Rightarrow> BtreeRecord \<Rightarrow> BtreeTable \<Rightarrow> bool \<times> BtreeTable" where
  "upsert_record key r t =
     (case map_of (index_by_key t) key of
        Some i \<Rightarrow>
          if i < length (target t) then (False, t\<lparr>target := (target t)[i := r]\<rparr>)
          else (True, t\<lparr>index_by_key := AList.update key (length (target t)) (index_by_key t), target := target t @ [r]\<rparr>)
      | None \<Rightarrow>
          (True, t\<lparr>index_by_key := AList.update key (length (target t)) (index_by_key t), target := target t @ [r]\<rparr>))"

definition set_inode_key :: "nat \<Rightarrow> key_blob \<Rightarrow> BtreeTable \<Rightarrow> BtreeTable" where
  "set_inode_key object_id key t =
     t\<lparr>inode_key_by_object_id := AList.update object_id key (inode_key_by_object_id t)\<rparr>"

definition drop_inode_key :: "nat \<Rightarrow> BtreeTable \<Rightarrow> BtreeTable" where
  "drop_inode_key object_id t = t\<lparr>inode_key_by_object_id := AList.delete object_id (inode_key_by_object_id t)\<rparr>"

definition apply_record :: "BtreeRecord \<Rightarrow> BtreeTable \<Rightarrow> BtreeTable option" where
  "apply_record r t =
     (let key = record_key r in
      if \<not> key_prefix_ok r then None
      else if record_kind r = InodeKind then
        (case DecodeBtreeInodeObjectIdFromKey r of
           None \<Rightarrow> None
         | Some object_id \<Rightarrow>
             let t = (case map_of (inode_key_by_object_id t) object_id of
                        None \<Rightarrow> t
                      | Some previous_key \<Rightarrow>
                          if previous_key \<noteq> key
                          then drop_inode_key object_id (snd (erase_by_key False previous_key t)) else t)
             in if record_tombstone r then Some (drop_inode_key object_id (snd (erase_by_key False key t)))
                else Some (set_inode_key object_id key (snd (upsert_record key r t))))
      else if record_tombstone r then Some (snd (erase_by_key False key t))
      else Some (snd (upsert_record key r t)))"

fun apply_records :: "BtreeRecord list \<Rightarrow> BtreeTable \<Rightarrow> BtreeTable option" where
  "apply_records [] t = Some t"
| "apply_records (r # rs) t = (case apply_record r t of None \<Rightarrow> None | Some t' \<Rightarrow> apply_records rs t')"

text \<open>
  The only caller passes a copy of the committed vector and gives it up on failure, which is
  \<^term>\<open>None\<close> here.
\<close>

definition ApplyBtreeRecordDeltas :: "BtreeRecord list \<Rightarrow> BtreeRecord list \<Rightarrow> BtreeRecord list option" where
  "ApplyBtreeRecordDeltas records pending =
     (let (indexed, index, inode_keys) = index_records True 0 records ([], []) in
      if \<not> indexed then None
      else map_option (\<lambda>t. sort_records (target t))
             (apply_records pending
               \<lparr>target = records, index_by_key = index, inode_key_by_object_id = inode_keys\<rparr>))"

section \<open>With a restore log\<close>

type_synonym restore_log = "(key_blob \<times> BtreeRecord option) list"

record LoggedTable =
  table :: BtreeTable
  restored_keys :: "key_blob list"
  restore_log :: restore_log
  needs_sorted_index_rebuild :: bool

definition remember_restore :: "key_blob \<Rightarrow> LoggedTable \<Rightarrow> LoggedTable" where
  "remember_restore key l =
     (if key \<in> set (restored_keys l) then l
      else l\<lparr>restored_keys := key # restored_keys l,
             restore_log := restore_log l @
               [(key, case map_of (index_by_key (table l)) key of
                        None \<Rightarrow> None
                      | Some i \<Rightarrow> if i \<ge> length (target (table l)) then None else Some (target (table l) ! i))]\<rparr>)"

definition logged_erase :: "key_blob \<Rightarrow> LoggedTable \<Rightarrow> LoggedTable" where
  "logged_erase key l =
     (let l = remember_restore key l; (erased, t) = erase_by_key True key (table l) in
      l\<lparr>table := t, needs_sorted_index_rebuild := needs_sorted_index_rebuild l \<or> erased\<rparr>)"

definition logged_upsert :: "key_blob \<Rightarrow> BtreeRecord \<Rightarrow> LoggedTable \<Rightarrow> LoggedTable" where
  "logged_upsert key r l =
     (let l = remember_restore key l; (grown, t) = upsert_record key r (table l) in
      l\<lparr>table := t, needs_sorted_index_rebuild := needs_sorted_index_rebuild l \<or> grown\<rparr>)"

definition logged_inode :: "(BtreeTable \<Rightarrow> BtreeTable) \<Rightarrow> LoggedTable \<Rightarrow> LoggedTable" where
  "logged_inode f l = l\<lparr>table := f (table l)\<rparr>"

text \<open>
  A record that is not valid ends the loop and the routine with \<^verbatim>\<open>false\<close>; what was done up to
  then stays done, and its log is what the caller rolls back with.
\<close>

definition apply_logged :: "BtreeRecord \<Rightarrow> LoggedTable \<Rightarrow> bool \<times> LoggedTable" where
  "apply_logged r l =
     (let key = record_key r in
      if \<not> key_prefix_ok r then (False, l)
      else if record_kind r = InodeKind then
        (case DecodeBtreeInodeObjectIdFromKey r of
           None \<Rightarrow> (False, l)
         | Some object_id \<Rightarrow>
             let l = (case map_of (inode_key_by_object_id (table l)) object_id of
                        None \<Rightarrow> l
                      | Some previous_key \<Rightarrow>
                          if previous_key \<noteq> key
                          then logged_inode (drop_inode_key object_id) (logged_erase previous_key l) else l)
             in if record_tombstone r then (True, logged_inode (drop_inode_key object_id) (logged_erase key l))
                else (True, logged_inode (set_inode_key object_id key) (logged_upsert key r l)))
      else if record_tombstone r then (True, logged_erase key l)
      else (True, logged_upsert key r l))"

fun apply_all_logged :: "BtreeRecord list \<Rightarrow> LoggedTable \<Rightarrow> bool \<times> LoggedTable" where
  "apply_all_logged [] l = (True, l)"
| "apply_all_logged (r # rs) l =
     (let (ok, l') = apply_logged r l in if ok then apply_all_logged rs l' else (False, l'))"

definition rebuild_table :: "bool \<Rightarrow> BtreeTable \<Rightarrow> bool \<times> BtreeTable" where
  "rebuild_table needs_rebuild t =
     (if \<not> needs_rebuild then (True, t)
      else
        let sorted = sort_records (target t);
            (ok, index, inode_keys) = index_records False 0 sorted ([], [])
        in (ok, \<lparr>target = sorted, index_by_key = index, inode_key_by_object_id = inode_keys\<rparr>))"

definition ApplyBtreeRecordDeltasWithRestoreLog ::
  "BtreeTable \<Rightarrow> BtreeRecord list \<Rightarrow> bool \<times> BtreeTable \<times> restore_log" where
  "ApplyBtreeRecordDeltasWithRestoreLog t pending =
     (if length (index_by_key t) \<noteq> length (target t) then (False, t, [])
      else
        let (ok, l) = apply_all_logged pending
               \<lparr>table = t, restored_keys = [], restore_log = [], needs_sorted_index_rebuild = False\<rparr>
        in if \<not> ok then (False, table l, restore_log l)
           else let (ok, t') = rebuild_table (needs_sorted_index_rebuild l) (table l) in (ok, t', restore_log l))"

definition restore_entry :: "key_blob \<times> BtreeRecord option \<Rightarrow> bool \<times> BtreeTable \<Rightarrow> bool \<times> BtreeTable" where
  "restore_entry entry st =
     (let (rebuild, t) = st; (key, previous) = entry in
      case previous of
        Some r \<Rightarrow>
          let (grown, t) = upsert_record key r t;
              t = (if record_kind r = InodeKind then
                     (case DecodeBtreeInodeObjectIdFromKey r of
                        None \<Rightarrow> t
                      | Some object_id \<Rightarrow> set_inode_key object_id key t)
                   else t)
          in (rebuild \<or> grown, t)
      | None \<Rightarrow> let (erased, t) = erase_by_key True key t in (rebuild \<or> erased, t))"

definition RestoreBtreeRecordDeltas :: "BtreeTable \<Rightarrow> restore_log \<Rightarrow> bool \<times> BtreeTable" where
  "RestoreBtreeRecordDeltas t rlog =
     (if length (index_by_key t) \<noteq> length (target t) then (False, t)
      else let (rebuild, t') = foldr restore_entry rlog (False, t) in rebuild_table rebuild t')"

section \<open>The committed index\<close>

text \<open>Unlike the other loops this one stops at a key that is already there.\<close>

fun rebuild_committed_index :: "nat \<Rightarrow> BtreeRecord list \<Rightarrow> key_index \<times> inode_keys \<Rightarrow> bool \<times> key_index \<times> inode_keys" where
  "rebuild_committed_index i [] st = (True, st)"
| "rebuild_committed_index i (r # rs) (index, inode_keys) =
     (if \<not> key_prefix_ok r then (False, index, inode_keys)
      else
        case (if record_kind r = InodeKind
              then map_option (\<lambda>object_id. AList.update object_id (record_key r) inode_keys)
                     (DecodeBtreeInodeObjectIdFromKey r)
              else Some inode_keys) of
          None \<Rightarrow> (False, index, inode_keys)
        | Some inode_keys \<Rightarrow>
            if map_of index (record_key r) \<noteq> None then (False, index, inode_keys)
            else rebuild_committed_index (i + 1) rs (AList.update (record_key r) i index, inode_keys))"

definition RebuildCommittedBtreeIndex :: "BtreeRecord list \<Rightarrow> bool \<times> BtreeTable" where
  "RebuildCommittedBtreeIndex records =
     (let (ok, index, inode_keys) = rebuild_committed_index 0 records ([], []) in
      (ok, \<lparr>target = records, index_by_key = index, inode_key_by_object_id = inode_keys\<rparr>))"

end
