(* ===== verification/BtreeTableSteps.thy ===== *)
theory BtreeTableSteps
  imports BtreeTable "HOL-Library.Multiset"
begin

text \<open>
  What one record does to a table: the contents of a table as a map from keys to records, the
  invariant of the two maps beside the vector, and each operation as an equation on the contents.
\<close>

section \<open>Specification: the last record of an identity\<close>

text \<open>
  Two keys have the same identity when they are equal or are keys of one inode.  The value of
  a key after a sequence of records is decided by the last record with that key's identity.
\<close>

definition key_inode :: "key_blob \<Rightarrow> nat option" where
  "key_inode k = (if k = [] \<or> unat (hd k) \<noteq> 1 \<or> length k \<noteq> 17 \<or> le_value (take 8 (drop 9 k)) = 0 then None
                  else Some (le_value (take 8 (drop 9 k))))"

definition same_identity :: "key_blob \<Rightarrow> key_blob \<Rightarrow> bool" where
  "same_identity k k' = (k = k' \<or> key_inode k \<noteq> None \<and> key_inode k = key_inode k')"

definition put_record :: "BtreeRecord \<Rightarrow> (key_blob \<rightharpoonup> BtreeRecord) \<Rightarrow> (key_blob \<rightharpoonup> BtreeRecord)" where
  "put_record r T = (\<lambda>k. if same_identity (record_key r) k
                         then if record_tombstone r \<or> k \<noteq> record_key r then None else Some r
                         else T k)"

definition latest_record :: "BtreeRecord list \<Rightarrow> key_blob \<rightharpoonup> BtreeRecord" where
  "latest_record rs k =
     (case find (\<lambda>r. same_identity (record_key r) k) (rev rs) of
        None \<Rightarrow> None
      | Some r \<Rightarrow> if record_tombstone r \<or> k \<noteq> record_key r then None else Some r)"

definition record_ok :: "BtreeRecord \<Rightarrow> bool" where
  "record_ok r = (key_prefix_ok r \<and> (record_kind r = InodeKind \<longrightarrow> DecodeBtreeInodeObjectIdFromKey r \<noteq> None))"

definition keyed :: "BtreeRecord list \<Rightarrow> (key_blob \<times> BtreeRecord) list" where
  "keyed rs = map (\<lambda>r. (record_key r, r)) rs"

definition records_view :: "BtreeRecord list \<Rightarrow> key_blob \<rightharpoonup> BtreeRecord" where
  "records_view rs = map_of (keyed rs)"

lemma kind_value_inode: "kind_value kd = Suc 0 \<longleftrightarrow> kd = InodeKind"
  by (cases kd) auto

lemma DecodeBtreeInodeObjectIdFromKey_key:
  "record_ok r \<Longrightarrow> DecodeBtreeInodeObjectIdFromKey r = key_inode (record_key r)"
  by (auto simp: record_ok_def key_prefix_ok_def key_inode_def DecodeBtreeInodeObjectIdFromKey_def
      Let_def kind_value_inode)

lemma record_ok_inode: "record_ok r \<Longrightarrow> record_kind r = InodeKind \<longleftrightarrow> key_inode (record_key r) \<noteq> None"
  using DecodeBtreeInodeObjectIdFromKey_key [of r]
  by (auto simp: record_ok_def) (auto simp: DecodeBtreeInodeObjectIdFromKey_def split: if_splits)

lemma record_ok_key: "record_ok r \<Longrightarrow> record_key r \<noteq> []"
  by (simp add: record_ok_def key_prefix_ok_def)

lemma same_identity_refl [simp]: "same_identity k k"
  by (simp add: same_identity_def)

lemma latest_record_snoc: "latest_record (rs @ [r]) = put_record r (latest_record rs)"
  by (auto simp: latest_record_def put_record_def fun_eq_iff)

lemma fold_put_record: "fold put_record rs (latest_record rs0) = latest_record (rs0 @ rs)"
  by (induction rs arbitrary: rs0) (simp_all add: latest_record_snoc [symmetric])

lemma latest_record_fold: "latest_record rs = fold put_record rs Map.empty"
  using fold_put_record [of rs "[]"] by (simp add: latest_record_def [of "[]", abs_def])

lemma put_record_other:
  "key_inode (record_key r) = None \<Longrightarrow>
     put_record r T = (if record_tombstone r then T(record_key r := None) else T(record_key r \<mapsto> r))"
  by (auto simp: put_record_def same_identity_def fun_eq_iff)

section \<open>Lists with distinct keys\<close>

lemma map_eqI:
  assumes "\<And>x y. f x = Some y \<longleftrightarrow> g x = Some y" shows "f = g"
proof
  fix x show "f x = g x" using assms [of x "the (f x)"] assms [of x "the (g x)"] by (cases "f x"; cases "g x") simp_all
qed

lemma records_view_Some:
  "distinct (map record_key rs) \<Longrightarrow> records_view rs k = Some r \<longleftrightarrow> r \<in> set rs \<and> record_key r = k"
  by (induction rs) (auto simp: records_view_def keyed_def image_iff split: if_splits)

lemma records_view_None: "records_view rs k = None \<longleftrightarrow> k \<notin> record_key ` set rs"
  by (auto simp: records_view_def keyed_def map_of_eq_None_iff image_image)

lemma records_view_append:
  "record_key r \<notin> record_key ` set rs \<Longrightarrow> records_view (rs @ [r]) = (records_view rs)(record_key r \<mapsto> r)"
  by (induction rs) (auto simp: records_view_def keyed_def fun_eq_iff)

lemma records_view_cong:
  assumes "distinct (map record_key rs)" "distinct (map record_key rs')" "set rs' = set rs"
  shows "records_view rs' = records_view rs"
  by (rule map_eqI) (use assms in \<open>simp add: records_view_Some\<close>)

text \<open>A key-sorted list without repeated keys is determined by its view.\<close>

abbreviation key_order :: "BtreeRecord \<Rightarrow> nat list" where
  "key_order r \<equiv> map unat (record_key r)"

lemma key_order_inj: "key_order r = key_order r' \<longleftrightarrow> record_key r = record_key r'"
proof -
  have "inj (unat :: byte \<Rightarrow> nat)" by (simp add: inj_def word_unat_eq_iff)
  then show ?thesis by (simp add: inj_map_eq_map)
qed

lemma sorted_view_unique:
  assumes d: "distinct (map record_key rs)" "distinct (map record_key rs')"
      and s: "sorted (map key_order rs)" "sorted (map key_order rs')"
      and v: "records_view rs = records_view rs'"
  shows "rs = rs'"
proof -
  have "r \<in> set rs \<longleftrightarrow> r \<in> set rs'" for r
    using records_view_Some [OF d(1), of "record_key r" r] records_view_Some [OF d(2), of "record_key r" r] v by simp
  then have st: "set rs = set rs'" by blast
  have "inj_on key_order (set rs)"
    using d(1) by (auto simp: inj_on_def distinct_map key_order_inj)
  moreover have "distinct rs" "distinct rs'" using d by (simp_all add: distinct_map)
  ultimately have "distinct (map key_order rs)" "distinct (map key_order rs')"
    by (auto simp: distinct_map st)
  moreover have "set (map key_order rs) = set (map key_order rs')" by (simp add: st)
  ultimately have "map key_order rs = map key_order rs'"
    using s by (intro sorted_distinct_set_unique)
  with \<open>inj_on key_order (set rs)\<close> st show ?thesis
    using inj_on_map_eq_map [of key_order rs rs'] by simp
qed

lemma sort_records_keys:
  "mset (sort_records rs) = mset rs" "set (sort_records rs) = set rs"
  "sorted (map key_order (sort_records rs))"
  "distinct (map record_key (sort_records rs)) = distinct (map record_key rs)"
proof -
  show m: "mset (sort_records rs) = mset rs" by (simp add: sort_records_def)
  show "set (sort_records rs) = set rs" by (simp add: sort_records_def)
  show "sorted (map key_order (sort_records rs))" by (simp add: sort_records_def)
  have "mset (map record_key (sort_records rs)) = mset (map record_key rs)"
    using m by simp
  then show "distinct (map record_key (sort_records rs)) = distinct (map record_key rs)"
    by (metis mset_eq_imp_distinct_iff)
qed

lemma sort_records_view:
  "distinct (map record_key rs) \<Longrightarrow> records_view (sort_records rs) = records_view rs"
  by (rule records_view_cong) (simp_all add: sort_records_keys)

section \<open>The inode map\<close>

definition inodes_exact :: "(nat \<rightharpoonup> key_blob) \<Rightarrow> key_blob set \<Rightarrow> bool" where
  "inodes_exact m D = (\<forall>i k. m i = Some k \<longleftrightarrow> k \<in> D \<and> key_inode k = Some i)"

lemma inodes_exactD: "inodes_exact m D \<Longrightarrow> m i = Some k \<longleftrightarrow> k \<in> D \<and> key_inode k = Some i"
  by (simp add: inodes_exact_def)

lemma inodes_exact_other:
  assumes "inodes_exact m D" "key_inode k = None"
  shows "inodes_exact m (D - {k})" "inodes_exact m (insert k D)"
  using assms by (auto simp: inodes_exact_def)

lemma inodes_exact_drop:
  assumes "inodes_exact m D" "key_inode k = Some i" "m i \<in> {None, Some k}"
  shows "inodes_exact (m(i := None)) (D - {k})"
proof -
  have "k' \<in> D \<Longrightarrow> key_inode k' = Some i \<Longrightarrow> k' = k" for k'
    using inodes_exactD [OF assms(1), of i k'] assms(3) by auto
  then show ?thesis
    using inodes_exactD [OF assms(1)] assms(2) by (auto simp: inodes_exact_def)
qed

lemma inodes_exact_set:
  assumes "inodes_exact m D" "key_inode k = Some i" "m i \<in> {None, Some k}"
  shows "inodes_exact (m(i \<mapsto> k)) (insert k D)"
proof -
  have "k' \<in> D \<Longrightarrow> key_inode k' = Some i \<Longrightarrow> k' = k" for k'
    using inodes_exactD [OF assms(1), of i k'] assms(3) by auto
  then show ?thesis
    using inodes_exactD [OF assms(1)] assms(2) by (auto simp: inodes_exact_def)
qed

lemma put_record_inode:
  assumes "inodes_exact m (dom T)" "key_inode (record_key r) = Some i"
  shows "put_record r T =
     (let T' = (case m i of None \<Rightarrow> T | Some k \<Rightarrow> T(k := None))
      in if record_tombstone r then T'(record_key r := None) else T'(record_key r \<mapsto> r))"
proof
  fix k
  have eq: "m i = Some k' \<longleftrightarrow> T k' \<noteq> None \<and> key_inode k' = Some i" for k'
    using inodes_exactD [OF assms(1)] by auto
  show "put_record r T k =
     (let T' = (case m i of None \<Rightarrow> T | Some k \<Rightarrow> T(k := None))
      in if record_tombstone r then T'(record_key r := None) else T'(record_key r \<mapsto> r)) k"
    using eq [of k] assms(2)
    by (cases "m i"; cases "T k") (auto simp: put_record_def same_identity_def Let_def)
qed

section \<open>The invariant of a table\<close>

definition index_exact :: "key_index \<Rightarrow> key_blob list \<Rightarrow> bool" where
  "index_exact ix ks = (distinct ks \<and> distinct (map fst ix) \<and>
     (\<forall>k i. map_of ix k = Some i \<longleftrightarrow> i < length ks \<and> ks ! i = k))"

definition index_ok :: "BtreeTable \<Rightarrow> bool" where
  "index_ok t = (list_all record_ok (target t) \<and> index_exact (index_by_key t) (map record_key (target t)))"

definition table_view :: "BtreeTable \<Rightarrow> key_blob \<rightharpoonup> BtreeRecord" where
  "table_view t = records_view (target t)"

definition table_ok :: "BtreeTable \<Rightarrow> bool" where
  "table_ok t = (index_ok t \<and> distinct (map fst (inode_key_by_object_id t)) \<and>
                 inodes_exact (map_of (inode_key_by_object_id t)) (dom (table_view t)))"

lemma index_exactD: "index_exact ix ks \<Longrightarrow> map_of ix k = Some i \<longleftrightarrow> i < length ks \<and> ks ! i = k"
  by (simp add: index_exact_def)

lemma index_exact_None: "index_exact ix ks \<Longrightarrow> map_of ix k = None \<longleftrightarrow> k \<notin> set ks"
  using index_exactD [of ix ks k] by (auto simp: in_set_conv_nth simp flip: not_Some_eq)

lemma index_exact_length:
  assumes "index_exact ix ks" shows "length ix = length ks"
proof -
  have "fst ` set ix = set ks"
    using index_exact_None [OF assms] by (auto simp: map_of_eq_None_iff)
  then show ?thesis
    using assms distinct_card [of "map fst ix"] distinct_card [of ks] by (simp add: index_exact_def)
qed

lemma index_exact_append:
  assumes "index_exact ix ks" "k \<notin> set ks"
  shows "index_exact (AList.update k (length ks) ix) (ks @ [k])"
  using assms index_exactD [OF assms(1)] nth_mem [of _ ks]
  by (auto simp: index_exact_def AList.update_conv' AList.distinct_update nth_append less_Suc_eq)

text \<open>Removing a position by moving the last element into it.\<close>

definition swap_remove :: "nat \<Rightarrow> 'a list \<Rightarrow> 'a list" where
  "swap_remove i xs = butlast (xs[i := last xs])"

lemma length_swap_remove [simp]: "length (swap_remove i xs) = length xs - 1"
  by (simp add: swap_remove_def)

lemma nth_swap_remove:
  "j < length xs - 1 \<Longrightarrow> swap_remove i xs ! j = (if j = i then last xs else xs ! j)"
  by (auto simp: swap_remove_def nth_butlast nth_list_update)

lemma map_swap_remove: "i < length xs \<Longrightarrow> map f (swap_remove i xs) = swap_remove i (map f xs)"
  by (cases xs rule: rev_cases) (auto simp: swap_remove_def map_butlast map_update last_map)

lemma mset_swap_remove:
  assumes "i < length xs" shows "mset (swap_remove i xs) = mset xs - {#xs ! i#}"
proof (cases xs rule: rev_cases)
  case (snoc ys y)
  show ?thesis
  proof (cases "i = length ys")
    case False
    then have "i < length ys" using assms snoc by simp
    then show ?thesis
      by (simp add: swap_remove_def snoc list_update_append butlast_append nth_append mset_update)
  qed (simp add: swap_remove_def snoc)
qed (use assms in simp)

lemma swap_remove_distinct:
  assumes "i < length xs" "distinct xs"
  shows "distinct (swap_remove i xs)" "set (swap_remove i xs) = set xs - {xs ! i}"
proof -
  have m: "mset (swap_remove i xs) + {#xs ! i#} = mset xs"
    using assms by (simp add: mset_swap_remove)
  then have "mset (xs ! i # swap_remove i xs) = mset xs" by simp
  then have "distinct (xs ! i # swap_remove i xs)" "set (xs ! i # swap_remove i xs) = set xs"
    using assms(2) by (metis mset_eq_imp_distinct_iff, metis mset_eq_setD)
  then show "distinct (swap_remove i xs)" "set (swap_remove i xs) = set xs - {xs ! i}" by auto
qed

lemma index_exact_swap_remove:
  assumes "index_exact ix ks" "i < length ks"
  shows "index_exact (AList.delete (ks ! i)
            (if i \<noteq> length ks - 1 then AList.update (last ks) i ix else ix)) (swap_remove i ks)"
proof -
  have d: "distinct ks" "distinct (map fst ix)" and ne: "ks \<noteq> []"
    using assms by (auto simp: index_exact_def)
  have l: "last ks = ks ! (length ks - 1)" using ne by (simp add: last_conv_nth)
  have uniq: "a < length ks \<Longrightarrow> b < length ks \<Longrightarrow> ks ! a = ks ! b \<longleftrightarrow> a = b" for a b
    using d(1) by (simp add: nth_eq_iff_index_eq)
  have "map_of (AList.delete (ks ! i) (if i \<noteq> length ks - 1 then AList.update (last ks) i ix else ix)) k = Some j
      \<longleftrightarrow> j < length (swap_remove i ks) \<and> swap_remove i ks ! j = k" for k j
    using index_exactD [OF assms(1), of k j] uniq [of i j] uniq [of i "length ks - 1"]
      uniq [of j "length ks - 1"] assms(2) ne
    by (auto simp: AList.delete_conv' AList.update_conv' nth_swap_remove l)
  then show ?thesis
    using swap_remove_distinct [OF assms(2) d(1)] d(2)
    by (simp add: index_exact_def AList.distinct_delete AList.distinct_update)
qed

section \<open>Single operations\<close>

lemma index_ok_simps:
  assumes "index_ok t"
  shows "list_all record_ok (target t)" "distinct (map record_key (target t))"
        "index_exact (index_by_key t) (map record_key (target t))"
  using assms by (auto simp: index_ok_def index_exact_def)

lemma index_ok_view:
  assumes "index_ok t"
  shows "map_of (index_by_key t) k = Some i \<Longrightarrow> i < length (target t) \<and> table_view t k = Some (target t ! i) \<and> record_key (target t ! i) = k"
    and "map_of (index_by_key t) k = None \<longleftrightarrow> table_view t k = None"
  using index_exactD [OF index_ok_simps(3) [OF assms], of k i]
    index_exact_None [OF index_ok_simps(3) [OF assms], of k] index_ok_simps(2) [OF assms]
  by (auto simp: table_view_def records_view_Some records_view_None)

lemma table_view_ok:
  "index_ok t \<Longrightarrow> table_view t k = Some r \<Longrightarrow> record_ok r \<and> record_key r = k"
  using index_ok_simps(1,2) [of t] by (auto simp: table_view_def records_view_Some list_all_iff)

lemma list_update_last: "xs \<noteq> [] \<Longrightarrow> xs[length xs - 1 := last xs] = xs"
  by (simp add: last_conv_nth)

text \<open>Erasing a key that is there.\<close>

lemma erase_by_key_fields:
  fixes d k t
  assumes ok: "index_ok t" and i: "map_of (index_by_key t) k = Some i"
  defines "t' \<equiv> snd (erase_by_key d k t)"
  shows "fst (erase_by_key d k t)"
    and "target t' = swap_remove i (target t)"
    and "index_by_key t' = AList.delete k
           (if i \<noteq> length (target t) - 1 then AList.update (record_key (last (target t))) i (index_by_key t) else index_by_key t)"
    and "inode_key_by_object_id t' =
           (let m = (if i \<noteq> length (target t) - 1
                     then case key_inode (record_key (last (target t))) of None \<Rightarrow> inode_key_by_object_id t
                          | Some j \<Rightarrow> AList.update j (record_key (last (target t))) (inode_key_by_object_id t)
                     else inode_key_by_object_id t)
            in case key_inode k of None \<Rightarrow> m | Some j \<Rightarrow> if d then AList.delete j m else m)"
proof -
  have lt: "i < length (target t)" and key: "record_key (target t ! i) = k"
    using index_ok_view(1) [OF ok i] by auto
  then have ne: "target t \<noteq> []" by auto
  have rok: "record_ok (target t ! j)" if "j < length (target t)" for j
    using index_ok_simps(1) [OF ok] that by (simp add: list_all_length)
  have last: "last (target t) = target t ! (length (target t) - 1)" "record_ok (last (target t))"
    using ne rok [of "length (target t) - 1"] by (auto simp: last_conv_nth)
  note facts = i lt key last rok [OF lt] record_ok_key [OF last(2)] t'_def
    DecodeBtreeInodeObjectIdFromKey_key record_ok_inode
  show "fst (erase_by_key d k t)" using lt by (simp add: erase_by_key_def i Let_def)
  have up: "(target t)[i := target t ! (length (target t) - Suc 0)] = target t" if "i = length (target t) - Suc 0"
    using that by simp
  show "target t' = swap_remove i (target t)"
    "index_by_key t' = AList.delete k
           (if i \<noteq> length (target t) - 1 then AList.update (record_key (last (target t))) i (index_by_key t) else index_by_key t)"
    "inode_key_by_object_id t' =
           (let m = (if i \<noteq> length (target t) - 1
                     then case key_inode (record_key (last (target t))) of None \<Rightarrow> inode_key_by_object_id t
                          | Some j \<Rightarrow> AList.update j (record_key (last (target t))) (inode_key_by_object_id t)
                     else inode_key_by_object_id t)
            in case key_inode k of None \<Rightarrow> m | Some j \<Rightarrow> if d then AList.delete j m else m)"
    using facts
    by (auto simp: erase_by_key_def Let_def swap_remove_def up split: option.splits)
qed

lemma erase_by_key_absent:
  "index_ok t \<Longrightarrow> table_view t k = None \<Longrightarrow> erase_by_key d k t = (False, t)"
  using index_ok_view(2) [of t k] by (simp add: erase_by_key_def)

lemma erase_by_key_index:
  assumes ok: "index_ok t"
  shows "index_ok (snd (erase_by_key d k t))"
    and "table_view (snd (erase_by_key d k t)) = (table_view t)(k := None)"
    and "fst (erase_by_key d k t) \<longleftrightarrow> table_view t k \<noteq> None"
    and "\<not> fst (erase_by_key d k t) \<Longrightarrow> snd (erase_by_key d k t) = t"
proof -
  let ?t = "snd (erase_by_key d k t)"
  have "index_ok ?t \<and> table_view ?t = (table_view t)(k := None) \<and> fst (erase_by_key d k t) = (table_view t k \<noteq> None)
      \<and> (fst (erase_by_key d k t) \<or> ?t = t)"
  proof (cases "map_of (index_by_key t) k")
    case None
    then have "table_view t k = None" using index_ok_view(2) [OF ok] by simp
    then show ?thesis using erase_by_key_absent [OF ok] ok by (auto simp: fun_upd_idem)
  next
    case (Some i)
    note f = erase_by_key_fields [OF ok Some, of d]
    have i: "i < length (target t)" "record_key (target t ! i) = k" "table_view t k = Some (target t ! i)"
      using index_ok_view(1) [OF ok Some] by auto
    then have "target t \<noteq> []" by auto
    then have lk: "last (map record_key (target t)) = record_key (last (target t))" by (simp add: last_map)
    have ks: "map record_key (target ?t) = swap_remove i (map record_key (target t))"
      by (simp add: f(2) map_swap_remove i)
    have ix: "index_exact (index_by_key ?t) (map record_key (target ?t))"
      using index_exact_swap_remove [OF index_ok_simps(3) [OF ok], of i] i lk
      by (simp add: ks f(3) if_distrib cong: if_cong)
    have dt: "distinct (target t)" using index_ok_simps(2) [OF ok] by (simp add: distinct_map)
    have st: "set (target ?t) = set (target t) - {target t ! i}"
      unfolding f(2) by (rule swap_remove_distinct(2) [OF i(1) dt])
    have ok': "index_ok ?t"
      using ix st index_ok_simps(1) [OF ok] by (auto simp: index_ok_def list_all_iff)
    have "table_view ?t k' = Some r \<longleftrightarrow> ((table_view t)(k := None)) k' = Some r" for k' r
      using index_ok_simps(2) [OF ok] index_ok_simps(2) [OF ok'] i(1,2)
      by (auto simp: table_view_def records_view_Some st distinct_map inj_on_def)
    then have "table_view ?t = (table_view t)(k := None)"
      by (rule map_eqI)
    then show ?thesis using ok' f(1) i(3) by auto
  qed
  then show "index_ok ?t" "table_view ?t = (table_view t)(k := None)"
     "fst (erase_by_key d k t) \<longleftrightarrow> table_view t k \<noteq> None"
     "\<not> fst (erase_by_key d k t) \<Longrightarrow> ?t = t" by auto
qed

text \<open>
  The inode map of an erase: unchanged without \<open>drop_inode\<close>, and without the erased inode
  otherwise.  The key written for the moved record is the one that is there.
\<close>

lemma erase_by_key_inodes:
  assumes ok: "table_ok t"
  shows "map_of (inode_key_by_object_id (snd (erase_by_key d k t))) =
    (case key_inode k of None \<Rightarrow> map_of (inode_key_by_object_id t)
     | Some j \<Rightarrow> if d \<and> table_view t k \<noteq> None then (map_of (inode_key_by_object_id t))(j := None)
                 else map_of (inode_key_by_object_id t))"
    and "distinct (map fst (inode_key_by_object_id (snd (erase_by_key d k t))))"
proof -
  have ix: "index_ok t" and di: "distinct (map fst (inode_key_by_object_id t))"
    and ex: "inodes_exact (map_of (inode_key_by_object_id t)) (dom (table_view t))"
    using ok by (auto simp: table_ok_def)
  let ?m = "inode_key_by_object_id (snd (erase_by_key d k t))"
  have "map_of ?m = (case key_inode k of None \<Rightarrow> map_of (inode_key_by_object_id t)
     | Some j \<Rightarrow> if d \<and> table_view t k \<noteq> None then (map_of (inode_key_by_object_id t))(j := None)
                 else map_of (inode_key_by_object_id t)) \<and> distinct (map fst ?m)"
  proof (cases "map_of (index_by_key t) k")
    case None
    then have "table_view t k = None" using index_ok_view(2) [OF ix] by simp
    then show ?thesis using erase_by_key_absent [OF ix] di by (simp split: option.split)
  next
    case (Some i)
    have i: "i < length (target t)" "table_view t k = Some (target t ! i)"
      using index_ok_view(1) [OF ix Some] by auto
    let ?l = "last (target t)"
    have "?l \<in> set (target t)" using i(1) by (intro last_in_set) auto
    then have "table_view t (record_key ?l) = Some ?l"
      using index_ok_simps(2) [OF ix] by (simp add: table_view_def records_view_Some)
    then have moved: "key_inode (record_key ?l) = Some j \<Longrightarrow>
        (map_of (inode_key_by_object_id t))(j \<mapsto> record_key ?l) = map_of (inode_key_by_object_id t)" for j
      using inodes_exactD [OF ex, of j "record_key ?l"] by (simp add: fun_upd_idem domI)
    show ?thesis
      unfolding erase_by_key_fields(4) [OF ix Some]
      using di moved i(2)
      by (auto simp: Let_def AList.update_conv' AList.delete_conv' AList.distinct_update AList.distinct_delete
          split: option.split)
  qed
  then show "map_of ?m = (case key_inode k of None \<Rightarrow> map_of (inode_key_by_object_id t)
     | Some j \<Rightarrow> if d \<and> table_view t k \<noteq> None then (map_of (inode_key_by_object_id t))(j := None)
                 else map_of (inode_key_by_object_id t))" "distinct (map fst ?m)" by auto
qed

text \<open>Storing a record under its key.\<close>

lemma upsert_record_index:
  assumes ok: "index_ok t" and r: "record_ok r"
  defines "t' \<equiv> snd (upsert_record (record_key r) r t)"
  shows "index_ok t'"
    and "table_view t' = (table_view t)(record_key r \<mapsto> r)"
    and "inode_key_by_object_id t' = inode_key_by_object_id t"
    and "fst (upsert_record (record_key r) r t) \<longleftrightarrow> table_view t (record_key r) = None"
    and "\<not> fst (upsert_record (record_key r) r t) \<Longrightarrow>
           map record_key (target t') = map record_key (target t) \<and> index_by_key t' = index_by_key t"
proof -
  let ?k = "record_key r"
  show "inode_key_by_object_id t' = inode_key_by_object_id t"
    by (auto simp: t'_def upsert_record_def split: option.split)
  have "index_ok t' \<and> table_view t' = (table_view t)(?k \<mapsto> r)
      \<and> fst (upsert_record ?k r t) = (table_view t ?k = None)
      \<and> (fst (upsert_record ?k r t) \<or> map record_key (target t') = map record_key (target t) \<and> index_by_key t' = index_by_key t)"
  proof (cases "map_of (index_by_key t) ?k")
    case None
    then have n: "table_view t ?k = None" using index_ok_view(2) [OF ok] by simp
    then have nk: "?k \<notin> record_key ` set (target t)" by (simp add: table_view_def records_view_None)
    have t': "target t' = target t @ [r]" "index_by_key t' = AList.update ?k (length (target t)) (index_by_key t)"
      "fst (upsert_record ?k r t)"
      using None by (simp_all add: t'_def upsert_record_def)
    have "index_ok t'"
      using index_exact_append [OF index_ok_simps(3) [OF ok], of ?k] nk index_ok_simps(1) [OF ok] r
      by (simp add: index_ok_def t')
    moreover have "table_view t' = (table_view t)(?k \<mapsto> r)"
      using nk by (simp add: table_view_def t' records_view_append)
    ultimately show ?thesis using t'(3) n by simp
  next
    case (Some i)
    have i: "i < length (target t)" "record_key (target t ! i) = ?k" "table_view t ?k = Some (target t ! i)"
      using index_ok_view(1) [OF ok Some] by auto
    have t': "target t' = (target t)[i := r]" "index_by_key t' = index_by_key t" "\<not> fst (upsert_record ?k r t)"
      using Some i by (simp_all add: t'_def upsert_record_def)
    have ks: "map record_key (target t') = map record_key (target t)"
      using list_update_id [of "map record_key (target t)" i] i(1,2) by (simp add: t' map_update)
    have ok': "index_ok t'"
      using index_ok_simps(1,3) [OF ok] r set_update_subset_insert [of "target t" i r]
      by (auto simp: index_ok_def ks t'(2)) (auto simp: t'(1) list_all_iff)
    have dt: "distinct (target t)" using index_ok_simps(2) [OF ok] by (simp add: distinct_map)
    have st: "set (target t') = insert r (set (target t) - {target t ! i})"
      unfolding t'(1) using i(1) dt by (rule set_update_distinct [rotated])
    have "table_view t' k' = Some r' \<longleftrightarrow> ((table_view t)(?k \<mapsto> r)) k' = Some r'" for k' r'
      using index_ok_simps(2) [OF ok] index_ok_simps(2) [OF ok'] i(1,2)
      by (auto simp: table_view_def records_view_Some st distinct_map inj_on_def)
    then have "table_view t' = (table_view t)(?k \<mapsto> r)"
      by (rule map_eqI)
    then show ?thesis using ok' ks t' i(3) by simp
  qed
  then show "index_ok t'" "table_view t' = (table_view t)(?k \<mapsto> r)"
     "fst (upsert_record ?k r t) \<longleftrightarrow> table_view t ?k = None"
     "\<not> fst (upsert_record ?k r t) \<Longrightarrow>
           map record_key (target t') = map record_key (target t) \<and> index_by_key t' = index_by_key t" by auto
qed

section \<open>One pending record\<close>

lemma table_ok_simps:
  assumes "table_ok t"
  shows "index_ok t" "distinct (map fst (inode_key_by_object_id t))"
    "inodes_exact (map_of (inode_key_by_object_id t)) (dom (table_view t))"
  using assms by (auto simp: table_ok_def)

lemma inode_key_simps [simp]:
  "target (set_inode_key j k t) = target t" "index_by_key (set_inode_key j k t) = index_by_key t"
  "target (drop_inode_key j t) = target t" "index_by_key (drop_inode_key j t) = index_by_key t"
  "table_view (set_inode_key j k t) = table_view t" "table_view (drop_inode_key j t) = table_view t"
  "index_ok (set_inode_key j k t) = index_ok t" "index_ok (drop_inode_key j t) = index_ok t"
  "map_of (inode_key_by_object_id (set_inode_key j k t)) = (map_of (inode_key_by_object_id t))(j \<mapsto> k)"
  "map_of (inode_key_by_object_id (drop_inode_key j t)) = (map_of (inode_key_by_object_id t))(j := None)"
  by (simp_all add: set_inode_key_def drop_inode_key_def table_view_def index_ok_def
      AList.update_conv' AList.delete_conv')

text \<open>Erasing a key and forgetting its inode, and storing a record with its inode, keep the table exact.\<close>

lemma erase_inode_ok:
  assumes ok: "table_ok t" and k: "key_inode k = Some j"
      and m: "map_of (inode_key_by_object_id t) j \<in> {None, Some k}"
  shows "table_ok (drop_inode_key j (snd (erase_by_key d k t)))"
proof -
  note e = erase_by_key_index [OF table_ok_simps(1) [OF ok], of d k] erase_by_key_inodes [OF ok, of d k]
  have "(map_of (inode_key_by_object_id (snd (erase_by_key d k t))))(j := None) = (map_of (inode_key_by_object_id t))(j := None)"
    by (simp add: e(5) k)
  then show ?thesis
    using inodes_exact_drop [OF table_ok_simps(3) [OF ok] k m] e(1,2,6)
    by (simp add: table_ok_def) (simp add: drop_inode_key_def AList.distinct_delete)
qed

lemma erase_other_ok:
  assumes ok: "table_ok t" and k: "key_inode k = None"
  shows "table_ok (snd (erase_by_key d k t))"
proof -
  note e = erase_by_key_index [OF table_ok_simps(1) [OF ok], of d k] erase_by_key_inodes [OF ok, of d k]
  show ?thesis
    using inodes_exact_other(1) [OF table_ok_simps(3) [OF ok] k] e(1,2,5,6) k
    by (simp add: table_ok_def)
qed

lemma upsert_inode_ok:
  assumes ok: "table_ok t" and r: "record_ok r" and k: "key_inode (record_key r) = Some j"
      and m: "map_of (inode_key_by_object_id t) j \<in> {None, Some (record_key r)}"
  shows "table_ok (set_inode_key j (record_key r) (snd (upsert_record (record_key r) r t)))"
proof -
  note u = upsert_record_index [OF table_ok_simps(1) [OF ok] r]
  show ?thesis
    using inodes_exact_set [OF table_ok_simps(3) [OF ok] k m] table_ok_simps(2) [OF ok] u(1,2,3)
    by (simp add: table_ok_def) (simp add: set_inode_key_def AList.distinct_update)
qed

lemma upsert_other_ok:
  assumes ok: "table_ok t" and r: "record_ok r" and k: "key_inode (record_key r) = None"
  shows "table_ok (snd (upsert_record (record_key r) r t))"
proof -
  note u = upsert_record_index [OF table_ok_simps(1) [OF ok] r]
  show ?thesis
    using inodes_exact_other(2) [OF table_ok_simps(3) [OF ok] k] table_ok_simps(2) [OF ok] u(1,2,3)
    by (simp add: table_ok_def)
qed

text \<open>
  Both routines treat a record in the same steps: forget the inode's previous key, then erase
  or store.  \<open>d\<close> is the \<open>drop_inode\<close> flag.
\<close>

definition retire_previous :: "bool \<Rightarrow> nat \<Rightarrow> key_blob \<Rightarrow> BtreeTable \<Rightarrow> BtreeTable" where
  "retire_previous d j key t =
     (case map_of (inode_key_by_object_id t) j of
        None \<Rightarrow> t
      | Some previous_key \<Rightarrow>
          if previous_key \<noteq> key then drop_inode_key j (snd (erase_by_key d previous_key t)) else t)"

definition step_table :: "bool \<Rightarrow> BtreeRecord \<Rightarrow> BtreeTable \<Rightarrow> BtreeTable" where
  "step_table d r t =
     (case key_inode (record_key r) of
        Some j \<Rightarrow>
          let t = retire_previous d j (record_key r) t in
          if record_tombstone r then drop_inode_key j (snd (erase_by_key d (record_key r) t))
          else set_inode_key j (record_key r) (snd (upsert_record (record_key r) r t))
      | None \<Rightarrow> if record_tombstone r then snd (erase_by_key d (record_key r) t)
                else snd (upsert_record (record_key r) r t))"

lemma retire_previous_ok:
  assumes ok: "table_ok t" and k: "key_inode k = Some j"
  shows "table_ok (retire_previous d j k t)"
    and "map_of (inode_key_by_object_id (retire_previous d j k t)) j \<in> {None, Some k}"
    and "table_view (retire_previous d j k t) =
           (case map_of (inode_key_by_object_id t) j of None \<Rightarrow> table_view t
            | Some k' \<Rightarrow> if k' \<noteq> k then (table_view t)(k' := None) else table_view t)"
proof -
  have "table_ok (retire_previous d j k t) \<and> map_of (inode_key_by_object_id (retire_previous d j k t)) j \<in> {None, Some k}
     \<and> table_view (retire_previous d j k t) =
           (case map_of (inode_key_by_object_id t) j of None \<Rightarrow> table_view t
            | Some k' \<Rightarrow> if k' \<noteq> k then (table_view t)(k' := None) else table_view t)"
  proof (cases "map_of (inode_key_by_object_id t) j")
    case None then show ?thesis using ok by (simp add: retire_previous_def)
  next
    case (Some p)
    then have "key_inode p = Some j" using inodes_exactD [OF table_ok_simps(3) [OF ok], of j p] by simp
    then show ?thesis
      using Some ok erase_inode_ok [OF ok, of p j d] erase_by_key_index(2) [OF table_ok_simps(1) [OF ok], of d p]
      by (simp add: retire_previous_def)
  qed
  then show "table_ok (retire_previous d j k t)"
    and "map_of (inode_key_by_object_id (retire_previous d j k t)) j \<in> {None, Some k}"
    and "table_view (retire_previous d j k t) =
           (case map_of (inode_key_by_object_id t) j of None \<Rightarrow> table_view t
            | Some k' \<Rightarrow> if k' \<noteq> k then (table_view t)(k' := None) else table_view t)" by auto
qed

lemma step_table_ok:
  assumes ok: "table_ok t" and r: "record_ok r"
  shows "table_ok (step_table d r t)" and "table_view (step_table d r t) = put_record r (table_view t)"
proof -
  have "table_ok (step_table d r t) \<and> table_view (step_table d r t) = put_record r (table_view t)"
  proof (cases "key_inode (record_key r)")
    case None
    then show ?thesis
      using erase_other_ok [OF ok None, of d] upsert_other_ok [OF ok r None] put_record_other [OF None]
        erase_by_key_index(2) [OF table_ok_simps(1) [OF ok]] upsert_record_index(2) [OF table_ok_simps(1) [OF ok] r]
      by (simp add: step_table_def)
  next
    case (Some j)
    note p = retire_previous_ok [OF ok Some, of d]
    have "table_ok (step_table d r t)"
      using erase_inode_ok [OF p(1) Some p(2), of d] upsert_inode_ok [OF p(1) r Some p(2)] Some
      by (simp add: step_table_def Let_def)
    moreover have "table_view (step_table d r t) = put_record r (table_view t)"
      unfolding put_record_inode [OF table_ok_simps(3) [OF ok] Some]
      using Some erase_by_key_index(2) [OF table_ok_simps(1) [OF p(1)]]
        upsert_record_index(2) [OF table_ok_simps(1) [OF p(1)] r] p(3)
      by (auto simp: step_table_def Let_def split: option.split)
    ultimately show ?thesis ..
  qed
  then show "table_ok (step_table d r t)" "table_view (step_table d r t) = put_record r (table_view t)" by auto
qed

lemma apply_record_step:
  "apply_record r t = (if record_ok r then Some (step_table False r t) else None)"
proof (cases "record_ok r")
  case True
  then show ?thesis
    using record_ok_inode [OF True] DecodeBtreeInodeObjectIdFromKey_key [OF True]
    by (auto simp: apply_record_def step_table_def retire_previous_def Let_def record_ok_def split: option.splits)
next
  case False
  then show ?thesis by (auto simp: apply_record_def record_ok_def Let_def)
qed

lemma apply_records_steps:
  "apply_records rs t = (if list_all record_ok rs then Some (fold (step_table False) rs t) else None)"
  by (induction rs arbitrary: t) (auto simp: apply_record_step)

lemma fold_step_table_ok:
  assumes "table_ok t" "list_all record_ok rs"
  shows "table_ok (fold (step_table d) rs t)"
    and "table_view (fold (step_table d) rs t) = fold put_record rs (table_view t)"
  using assms by (induction rs arbitrary: t) (simp_all add: step_table_ok)

end
