(* ===== verification/BtreeTableCommit.thy ===== *)
theory BtreeTableCommit
  imports BtreeTableSteps
begin

text \<open>
  The whole routines on a table: canonical form, in-place application with and without a
  restore log, and undoing from the log.
\<close>

section \<open>Indexing a vector\<close>

text \<open>
  The records a committed vector may hold: valid ones that are not tombstones, in key order,
  no key twice and no inode under two keys.
\<close>

definition committed_records :: "BtreeRecord list \<Rightarrow> bool" where
  "committed_records rs =
     (list_all (\<lambda>r. record_ok r \<and> \<not> record_tombstone r) rs \<and> sorted (map key_order rs) \<and>
      distinct (map record_key rs) \<and> distinct (List.map_filter (\<lambda>r. key_inode (record_key r)) rs))"

abbreviation note_inode :: "BtreeRecord \<Rightarrow> inode_keys \<Rightarrow> inode_keys" where
  "note_inode r \<equiv> (case key_inode (record_key r) of None \<Rightarrow> id | Some j \<Rightarrow> AList.update j (record_key r))"

lemma index_records_index:
  assumes "list_all record_ok rs" "index_exact ix ks" "distinct (ks @ map record_key rs)"
  shows "\<exists>ix' m'. index_records b (length ks) rs (ix, m) = (True, ix', m') \<and> index_exact ix' (ks @ map record_key rs)
           \<and> m' = fold note_inode rs m"
  using assms
proof (induction rs arbitrary: ix ks m)
  case (Cons r rs)
  have r: "record_ok r" using Cons.prems by simp
  have "index_exact (AList.update (record_key r) (length ks) ix) (ks @ [record_key r])"
    using Cons.prems by (intro index_exact_append) auto
  then have IH: "\<exists>ix' m'. index_records b (length (ks @ [record_key r])) rs (AList.update (record_key r) (length ks) ix, m1) = (True, ix', m')
      \<and> index_exact ix' ((ks @ [record_key r]) @ map record_key rs)
      \<and> m' = fold note_inode rs m1" for m1
    using Cons.prems by (intro Cons.IH) auto
  show ?case
    using IH [of m] IH [of "AList.update (the (key_inode (record_key r))) (record_key r) m"]
      record_ok_inode [OF r] DecodeBtreeInodeObjectIdFromKey_key [OF r] record_ok_key [OF r] r
    by (auto simp: record_ok_def)
qed simp

lemma fold_inode_keys:
  assumes "distinct (List.map_filter (\<lambda>r. key_inode (record_key r)) rs)" "distinct (map fst m)"
      "inodes_exact (map_of m) D" "\<And>r j. r \<in> set rs \<Longrightarrow> key_inode (record_key r) = Some j \<Longrightarrow> map_of m j = None"
  shows "inodes_exact (map_of (fold note_inode rs m))
           (D \<union> record_key ` set rs)
     \<and> distinct (map fst (fold note_inode rs m))"
  using assms
proof (induction rs arbitrary: m D)
  case (Cons r rs)
  show ?case
  proof (cases "key_inode (record_key r)")
    case None
    have "inodes_exact (map_of m) (insert (record_key r) D)"
      using Cons.prems(3) None by (rule inodes_exact_other(2))
    moreover have "map_of m j' = None" if "r' \<in> set rs" "key_inode (record_key r') = Some j'" for r' j'
      using Cons.prems(4) [of r' j'] that by simp
    ultimately show ?thesis
      using Cons.IH [of m "insert (record_key r) D"] Cons.prems(1,2) None
      by (simp add: List.map_filter_simps)
  next
    case (Some j)
    let ?m = "AList.update j (record_key r) m"
    have "inodes_exact (map_of ?m) (insert (record_key r) D)"
      using inodes_exact_set [OF Cons.prems(3) Some] Cons.prems(4) [of r j] Some by (simp add: AList.update_conv')
    moreover have "map_of ?m j' = None" if "r' \<in> set rs" "key_inode (record_key r') = Some j'" for r' j'
      using Cons.prems(1,4) that Some by (force simp: List.map_filter_simps AList.update_conv' List.map_filter_def)
    ultimately show ?thesis
      using Cons.IH [of ?m "insert (record_key r) D"] Cons.prems(1,2) Some
      by (simp add: List.map_filter_simps AList.distinct_update)
  qed
qed simp

definition uniquely_keyed :: "BtreeRecord list \<Rightarrow> bool" where
  "uniquely_keyed rs = (list_all record_ok rs \<and> distinct (map record_key rs) \<and>
     distinct (List.map_filter (\<lambda>r. key_inode (record_key r)) rs))"

lemma index_records_ok:
  assumes "uniquely_keyed rs"
  shows "\<exists>ix m. index_records b 0 rs ([], []) = (True, ix, m) \<and>
     table_ok \<lparr>target = rs, index_by_key = ix, inode_key_by_object_id = m\<rparr>"
proof -
  have "index_exact [] []" by (simp add: index_exact_def)
  then obtain ix m where *: "index_records b 0 rs ([], []) = (True, ix, m)" "index_exact ix (map record_key rs)"
     "m = fold note_inode rs []"
    using index_records_index [of rs "[]" "[]" b "[]"] assms by (auto simp: uniquely_keyed_def)
  have "inodes_exact (map_of []) {}" by (simp add: inodes_exact_def)
  then have "inodes_exact (map_of m) (record_key ` set rs) \<and> distinct (map fst m)"
    using fold_inode_keys [of rs "[]" "{}"] assms *(3) by (simp add: uniquely_keyed_def)
  moreover have "dom (records_view rs) = record_key ` set rs"
    using records_view_None [of rs] by (auto simp: dom_def simp flip: not_None_eq)
  ultimately show ?thesis
    using * assms by (auto simp: table_ok_def index_ok_def table_view_def uniquely_keyed_def)
qed

lemma table_ok_uniquely_keyed:
  assumes "table_ok t" shows "uniquely_keyed (target t)"
proof -
  have ix: "index_ok t" and ex: "inodes_exact (map_of (inode_key_by_object_id t)) (dom (table_view t))"
    using assms by (auto simp: table_ok_def)
  have k: "record_key r = record_key r'" if "r \<in> set (target t)" "r' \<in> set (target t)"
     "key_inode (record_key r) = Some j" "key_inode (record_key r') = Some j" for r r' j
  proof -
    have "record_key r \<in> dom (table_view t)" "record_key r' \<in> dom (table_view t)"
      using that records_view_None [of "target t"] by (auto simp: table_view_def)
    then show ?thesis using that inodes_exactD [OF ex, of j] by (metis option.inject)
  qed
  have "distinct (List.map_filter (\<lambda>r. key_inode (record_key r)) rs)"
    if "set rs \<subseteq> set (target t)" "distinct (map record_key rs)" for rs
    using that
  proof (induction rs)
    case (Cons r rs)
    show ?case
    proof (cases "key_inode (record_key r)")
      case (Some j)
      have "j \<notin> set (List.map_filter (\<lambda>r. key_inode (record_key r)) rs)"
      proof
        assume "j \<in> set (List.map_filter (\<lambda>r. key_inode (record_key r)) rs)"
        then obtain r' where "r' \<in> set rs" "key_inode (record_key r') = Some j"
          by (auto simp: List.map_filter_def)
        then have "record_key r' = record_key r" using k [of r' r j] Cons.prems Some by auto
        then show False using Cons.prems(2) \<open>r' \<in> set rs\<close> by (metis distinct.simps(2) image_eqI list.set_map list.simps(9))
      qed
      then show ?thesis using Cons Some by (simp add: List.map_filter_simps)
    qed (use Cons in \<open>simp add: List.map_filter_simps\<close>)
  qed (simp add: List.map_filter_simps)
  then show ?thesis using index_ok_simps(1,2) [OF ix] by (simp add: uniquely_keyed_def)
qed

section \<open>Canonical form\<close>

definition canonical_state :: "(key_blob \<times> BtreeRecord) list \<times> inode_keys \<Rightarrow> bool" where
  "canonical_state st = (distinct (map fst (fst st)) \<and>
     list_all (\<lambda>(k, r). record_key r = k \<and> record_ok r \<and> \<not> record_tombstone r) (fst st) \<and>
     distinct (map fst (snd st)) \<and> inodes_exact (map_of (snd st)) (dom (map_of (fst st))))"

lemma list_all_delete: "list_all P xs \<Longrightarrow> list_all P (AList.delete k xs)"
  by (auto simp: AList.delete_eq list_all_iff)

lemma list_all_update: "list_all P xs \<Longrightarrow> P (k, v) \<Longrightarrow> list_all P (AList.update k v xs)"
  by (induction xs) auto

lemma canonicalize_step_ok:
  assumes st: "canonical_state st" and r: "record_ok r"
  shows "canonical_state (canonicalize_step r st)"
    and "map_of (fst (canonicalize_step r st)) = put_record r (map_of (fst st))"
proof -
  obtain l m where lm: "st = (l, m)" by (cases st)
  have s: "distinct (map fst l)" "distinct (map fst m)" "inodes_exact (map_of m) (dom (map_of l))"
    "list_all (\<lambda>(k, r). record_key r = k \<and> record_ok r \<and> \<not> record_tombstone r) l"
    using st by (auto simp: canonical_state_def lm)
  note al = AList.update_conv' AList.delete_conv' AList.distinct_update AList.distinct_delete list_all_update list_all_delete
  have "canonical_state (canonicalize_step r st) \<and> map_of (fst (canonicalize_step r st)) = put_record r (map_of (fst st))"
  proof (cases "key_inode (record_key r)")
    case None
    then have "record_kind r \<noteq> InodeKind" "record_key r \<noteq> []"
      using record_ok_inode [OF r] record_ok_key [OF r] by auto
    then show ?thesis
      using s r inodes_exact_other [OF s(3) None] put_record_other [OF None]
      by (auto simp: canonicalize_step_def lm canonical_state_def Let_def al)
  next
    case (Some j)
    have k: "record_kind r = InodeKind" "record_key r \<noteq> []" "length (record_key r) = 17"
      "le_value (take 8 (drop 9 (record_key r))) = j" "j \<noteq> 0"
      using record_ok_inode [OF r] record_ok_key [OF r] Some by (auto simp: key_inode_def split: if_splits)
    define l' where "l' = (case map_of m j of None \<Rightarrow> l | Some previous_key \<Rightarrow> AList.delete previous_key l)"
    have step: "canonicalize_step r st =
        (if record_tombstone r then (AList.delete (record_key r) l', AList.delete j m)
         else (AList.update (record_key r) r l', AList.update j (record_key r) m))"
      using k by (simp add: canonicalize_step_def lm Let_def l'_def split: option.split)
    have l': "map_of l' = (case map_of m j of None \<Rightarrow> map_of l | Some k \<Rightarrow> (map_of l)(k := None))"
      "distinct (map fst l')" "list_all (\<lambda>(k, r). record_key r = k \<and> record_ok r \<and> \<not> record_tombstone r) l'"
      using s by (auto simp: l'_def al split: option.split)
    have gone: "inodes_exact ((map_of m)(j := None)) (dom (map_of l'))"
    proof (cases "map_of m j")
      case None
      then have "(map_of m)(j := None) = map_of m" by (simp add: fun_upd_idem)
      then show ?thesis using s(3) None by (simp add: l'(1))
    next
      case (Some p)
      then have "key_inode p = Some j" using inodes_exactD [OF s(3), of j p] by simp
      then show ?thesis using inodes_exact_drop [OF s(3), of p j] Some by (simp add: l'(1))
    qed
    have "canonical_state (canonicalize_step r st)"
      using inodes_exact_drop [OF gone Some] inodes_exact_set [OF gone Some] s(2) l'(2,3) r
      by (auto simp: step canonical_state_def al)
    moreover have "map_of (fst (canonicalize_step r st)) = put_record r (map_of (fst st))"
      by (simp add: step [unfolded lm] put_record_inode [OF s(3) Some] lm Let_def l'(1) al)
    ultimately show ?thesis ..
  qed
  then show "canonical_state (canonicalize_step r st)"
    and "map_of (fst (canonicalize_step r st)) = put_record r (map_of (fst st))" by auto
qed

lemma fold_canonicalize_step:
  assumes "canonical_state st" "list_all record_ok rs"
  shows "canonical_state (fold canonicalize_step rs st)"
    and "map_of (fst (fold canonicalize_step rs st)) = fold put_record rs (map_of (fst st))"
  using assms by (induction rs arbitrary: st) (simp_all add: canonicalize_step_ok)

lemma canonical_state_records:
  assumes "canonical_state st"
  shows "keyed (map snd (fst st)) = fst st"
    and "list_all (\<lambda>r. record_ok r \<and> \<not> record_tombstone r) (map snd (fst st))"
    and "distinct (map record_key (map snd (fst st)))"
proof -
  have "record_key (snd p) = fst p" if "p \<in> set (fst st)" for p
    using assms that by (auto simp: canonical_state_def list_all_iff)
  then have e: "map (\<lambda>p. record_key (snd p)) (fst st) = map fst (fst st)"
     "map (\<lambda>p. (record_key (snd p), snd p)) (fst st) = fst st"
    by (auto intro!: map_idI)
  then show "keyed (map snd (fst st)) = fst st" by (simp add: keyed_def o_def)
  show "distinct (map record_key (map snd (fst st)))"
    using assms unfolding map_map o_def e(1) by (simp add: canonical_state_def)
  show "list_all (\<lambda>r. record_ok r \<and> \<not> record_tombstone r) (map snd (fst st))"
    using assms by (auto simp: canonical_state_def list_all_iff)
qed

lemma CanonicalizeBtreeRecords_facts:
  assumes "list_all record_ok rs"
  shows "records_view (CanonicalizeBtreeRecords rs) = latest_record rs"
    and "list_all (\<lambda>r. record_ok r \<and> \<not> record_tombstone r) (CanonicalizeBtreeRecords rs)"
    and "distinct (map record_key (CanonicalizeBtreeRecords rs))"
    and "sorted (map key_order (CanonicalizeBtreeRecords rs))"
proof -
  let ?st = "fold canonicalize_step rs ([], [])"
  have "canonical_state ([], [])" by (simp add: canonical_state_def inodes_exact_def)
  from fold_canonicalize_step [OF this assms] have st: "canonical_state ?st" "map_of (fst ?st) = latest_record rs"
    by (simp_all add: latest_record_fold)
  note c = canonical_state_records [OF st(1)]
  show "records_view (CanonicalizeBtreeRecords rs) = latest_record rs"
    using c(1,3) st(2) by (simp add: CanonicalizeBtreeRecords_def sort_records_view) (simp add: records_view_def)
  show "list_all (\<lambda>r. record_ok r \<and> \<not> record_tombstone r) (CanonicalizeBtreeRecords rs)"
    using c(2) by (simp add: CanonicalizeBtreeRecords_def list_all_iff sort_records_keys)
  show "distinct (map record_key (CanonicalizeBtreeRecords rs))"
    using c(3) by (simp add: CanonicalizeBtreeRecords_def sort_records_keys)
  show "sorted (map key_order (CanonicalizeBtreeRecords rs))"
    by (simp add: CanonicalizeBtreeRecords_def sort_records_keys)
qed

text \<open>The records of a committed vector are their own last records.\<close>

lemma latest_record_committed:
  assumes "uniquely_keyed rs" "list_all (\<lambda>r. \<not> record_tombstone r) rs"
  shows "latest_record rs = records_view rs"
  using assms
proof (induction rs rule: rev_induct)
  case (snoc r rs)
  let ?k = "record_key r"
  have u: "uniquely_keyed rs" and r: "\<not> record_tombstone r" "record_ok r" "?k \<notin> record_key ` set rs"
    and k: "\<forall>r'\<in>set rs. key_inode ?k \<noteq> None \<longrightarrow> key_inode (record_key r') \<noteq> key_inode ?k"
    using snoc.prems by (auto simp: uniquely_keyed_def List.map_filter_def image_iff dest!: spec)
  have "put_record r (records_view rs) = (records_view rs)(?k \<mapsto> r)"
  proof
    fix k'
    show "put_record r (records_view rs) k' = ((records_view rs)(?k \<mapsto> r)) k'"
      using k r records_view_None [of rs k'] by (auto simp: put_record_def same_identity_def image_iff)
  qed
  then show ?case
    using snoc u r by (simp add: latest_record_snoc records_view_append)
qed (simp add: latest_record_def records_view_def keyed_def fun_eq_iff)

lemma fold_put_committed:
  assumes "uniquely_keyed rs" "list_all (\<lambda>r. \<not> record_tombstone r) rs"
  shows "fold put_record pending (records_view rs) = latest_record (rs @ pending)"
  by (simp add: latest_record_committed [OF assms, symmetric] fold_put_record)

text \<open>A sorted vector with the right view is the canonical form.\<close>

lemma canonical_records_unique:
  assumes "list_all record_ok rs" "distinct (map record_key rs')" "sorted (map key_order rs')"
      "records_view rs' = latest_record rs"
  shows "rs' = CanonicalizeBtreeRecords rs"
  using sorted_view_unique [OF assms(2) CanonicalizeBtreeRecords_facts(3) [OF assms(1)] assms(3)
      CanonicalizeBtreeRecords_facts(4) [OF assms(1)]] CanonicalizeBtreeRecords_facts(1) [OF assms(1)] assms(4)
  by simp

lemma ApplyBtreeRecordDeltas_eq:
  assumes u: "uniquely_keyed records" and n: "list_all (\<lambda>r. \<not> record_tombstone r) records"
  shows "ApplyBtreeRecordDeltas records pending =
     (if list_all record_ok pending then Some (CanonicalizeBtreeRecords (records @ pending)) else None)"
proof -
  obtain ix m where ix: "index_records True 0 records ([], []) = (True, ix, m)"
    and ok: "table_ok \<lparr>target = records, index_by_key = ix, inode_key_by_object_id = m\<rparr>"
    using index_records_ok [OF u, of True] by blast
  let ?t = "\<lparr>target = records, index_by_key = ix, inode_key_by_object_id = m\<rparr>"
  let ?t' = "fold (step_table False) pending ?t"
  show ?thesis
  proof (cases "list_all record_ok pending")
    case True
    note f = fold_step_table_ok [OF ok True, of False]
    have d: "distinct (map record_key (target ?t'))" using f(1) by (auto simp: table_ok_def intro: index_ok_simps)
    have v: "records_view (target ?t') = latest_record (records @ pending)"
      using f(2) by (simp add: table_view_def fold_put_committed [OF u n])
    have "sort_records (target ?t') = CanonicalizeBtreeRecords (records @ pending)"
      using True u d by (intro canonical_records_unique)
        (simp_all add: sort_records_keys sort_records_view v uniquely_keyed_def)
    then show ?thesis using True by (simp add: ApplyBtreeRecordDeltas_def ix apply_records_steps)
  qed (simp add: ApplyBtreeRecordDeltas_def ix apply_records_steps)
qed

section \<open>The restore log\<close>

text \<open>
  What the log says while records are applied to a table with contents \<open>T\<close> and keys \<open>ks\<close>: the
  first contents of every key in it, and every other key is unchanged.
\<close>

definition log_ok :: "(key_blob \<rightharpoonup> BtreeRecord) \<Rightarrow> key_blob list \<Rightarrow> LoggedTable \<Rightarrow> bool" where
  "log_ok T ks l = (index_ok (table l) \<and> distinct (map fst (restore_log l)) \<and>
     set (restored_keys l) = fst ` set (restore_log l) \<and>
     (\<forall>k p. (k, p) \<in> set (restore_log l) \<longrightarrow> p = T k) \<and>
     (\<forall>k. k \<notin> fst ` set (restore_log l) \<longrightarrow> table_view (table l) k = T k) \<and>
     (\<not> needs_sorted_index_rebuild l \<longrightarrow> map record_key (target (table l)) = ks))"

lemma remember_restore_ok:
  assumes "log_ok T ks l"
  shows "log_ok T ks (remember_restore k l)" and "k \<in> fst ` set (restore_log (remember_restore k l))"
    and "table (remember_restore k l) = table l"
    and "needs_sorted_index_rebuild (remember_restore k l) = needs_sorted_index_rebuild l"
proof -
  have ix: "index_ok (table l)" using assms by (simp add: log_ok_def)
  have v: "(case map_of (index_by_key (table l)) k of None \<Rightarrow> None
      | Some i \<Rightarrow> if i \<ge> length (target (table l)) then None else Some (target (table l) ! i)) = table_view (table l) k"
    using index_ok_view(1) [OF ix, of k] index_ok_view(2) [OF ix, of k] by (auto split: option.split)
  then show "log_ok T ks (remember_restore k l)" "k \<in> fst ` set (restore_log (remember_restore k l))"
    using assms by (auto simp: remember_restore_def v log_ok_def)
  show "table (remember_restore k l) = table l"
    "needs_sorted_index_rebuild (remember_restore k l) = needs_sorted_index_rebuild l"
    by (simp_all add: remember_restore_def)
qed

lemma logged_erase_ok:
  assumes "log_ok T ks l" shows "log_ok T ks (logged_erase k l)"
proof -
  note r = remember_restore_ok [OF assms, of k]
  have ix: "index_ok (table l)" using assms by (simp add: log_ok_def)
  show ?thesis
    using r(1,2) erase_by_key_index [OF ix, of True k]
    by (auto simp: logged_erase_def Let_def r(3,4) split_def log_ok_def)
qed

lemma logged_upsert_ok:
  assumes "log_ok T ks l" "record_ok r" shows "log_ok T ks (logged_upsert (record_key r) r l)"
proof -
  note m = remember_restore_ok [OF assms(1), of "record_key r"]
  have ix: "index_ok (table l)" using assms by (simp add: log_ok_def)
  show ?thesis
    using m(1,2) upsert_record_index(1,2,4,5) [OF ix assms(2)]
    by (auto simp: logged_upsert_def Let_def m(3,4) split_def log_ok_def)
qed

lemma logged_inode_ok:
  "log_ok T ks l \<Longrightarrow> log_ok T ks (logged_inode (set_inode_key j k) l)"
  "log_ok T ks l \<Longrightarrow> log_ok T ks (logged_inode (drop_inode_key j) l)"
  by (simp_all add: log_ok_def logged_inode_def)

lemma logged_tables:
  "log_ok T ks l \<Longrightarrow> table (logged_erase k l) = snd (erase_by_key True k (table l))"
  "log_ok T ks l \<Longrightarrow> table (logged_upsert k r l) = snd (upsert_record k r (table l))"
  "table (logged_inode f l) = f (table l)"
  using remember_restore_ok(3) [of T ks l k]
  by (simp_all add: logged_erase_def logged_upsert_def logged_inode_def Let_def split_def)

lemma apply_logged_step:
  assumes l: "log_ok T ks l" and r: "record_ok r"
  shows "\<exists>l'. apply_logged r l = (True, l') \<and> log_ok T ks l' \<and> table l' = step_table True r (table l)"
proof (cases "key_inode (record_key r)")
  case None
  then have "record_kind r \<noteq> InodeKind" using record_ok_inode [OF r] by simp
  then show ?thesis
    using None r l logged_erase_ok [OF l] logged_upsert_ok [OF l r] logged_tables(1,2) [OF l]
    by (auto simp: apply_logged_def step_table_def record_ok_def Let_def)
next
  case (Some j)
  then have j: "record_kind r = InodeKind" "DecodeBtreeInodeObjectIdFromKey r = Some j"
    using record_ok_inode [OF r] DecodeBtreeInodeObjectIdFromKey_key [OF r] by auto
  define l1 where "l1 = (case map_of (inode_key_by_object_id (table l)) j of None \<Rightarrow> l
      | Some previous_key \<Rightarrow> if previous_key \<noteq> record_key r
          then logged_inode (drop_inode_key j) (logged_erase previous_key l) else l)"
  have l1: "log_ok T ks l1" "table l1 = retire_previous True j (record_key r) (table l)"
    using l by (auto simp: l1_def retire_previous_def logged_tables(1,2) [OF l] logged_tables(3)
        intro!: logged_inode_ok logged_erase_ok split: option.split)
  have "apply_logged r l = (True, if record_tombstone r then logged_inode (drop_inode_key j) (logged_erase (record_key r) l1)
      else logged_inode (set_inode_key j (record_key r)) (logged_upsert (record_key r) r l1))"
    using r j by (simp add: apply_logged_def Let_def record_ok_def flip: l1_def)
  then show ?thesis
    using Some l1 r by (auto simp: step_table_def Let_def logged_tables(1,2) [OF l1(1)] logged_tables(3)
        intro!: logged_inode_ok logged_erase_ok logged_upsert_ok)
qed

lemma apply_logged_invalid: "\<not> record_ok r \<Longrightarrow> apply_logged r l = (False, l)"
  by (auto simp: apply_logged_def record_ok_def Let_def)

lemma apply_all_logged_ok:
  assumes "log_ok T ks l" "table_ok (table l)"
  shows "\<exists>l'. apply_all_logged rs l = (list_all record_ok rs, l') \<and> log_ok T ks l' \<and> table_ok (table l') \<and>
           (list_all record_ok rs \<longrightarrow> table_view (table l') = fold put_record rs (table_view (table l)))"
  using assms
proof (induction rs arbitrary: l)
  case (Cons r rs)
  show ?case
  proof (cases "record_ok r")
    case True
    obtain l' where l': "apply_logged r l = (True, l')" "log_ok T ks l'" "table l' = step_table True r (table l)"
      using apply_logged_step [OF Cons.prems(1) True] by blast
    have "table_ok (table l')" "table_view (table l') = put_record r (table_view (table l))"
      using step_table_ok [OF Cons.prems(2) True] by (simp_all add: l'(3))
    then show ?thesis using Cons.IH [OF l'(2)] True l'(1) by auto
  qed (use Cons.prems in \<open>simp add: apply_logged_invalid\<close>)
qed simp

section \<open>Sorting and indexing again\<close>

lemma uniquely_keyed_mset:
  assumes "mset rs = mset rs'" shows "uniquely_keyed rs = uniquely_keyed rs'"
proof -
  have "mset (map record_key rs) = mset (map record_key rs')" using assms by simp
  then have "distinct (map record_key rs) = distinct (map record_key rs')" by (rule mset_eq_imp_distinct_iff)
  moreover have "mset (List.map_filter (\<lambda>r. key_inode (record_key r)) rs) =
      mset (List.map_filter (\<lambda>r. key_inode (record_key r)) rs')"
    using assms by (simp add: List.map_filter_def mset_filter)
  moreover have "set rs = set rs'" using assms by (rule mset_eq_setD)
  ultimately show ?thesis
    by (simp add: uniquely_keyed_def list_all_iff mset_eq_imp_distinct_iff [of "List.map_filter _ rs"])
qed

lemma rebuild_table_ok:
  assumes "uniquely_keyed (target t)" "\<not> b \<Longrightarrow> table_ok t"
  shows "\<exists>t'. rebuild_table b t = (True, t') \<and> table_ok t' \<and> table_view t' = table_view t \<and>
     (b \<longrightarrow> sorted (map key_order (target t'))) \<and> (\<not> b \<longrightarrow> t' = t)"
proof (cases b)
  case True
  have "uniquely_keyed (sort_records (target t))"
    using assms(1) uniquely_keyed_mset [OF sort_records_keys(1)] by simp
  from index_records_ok [OF this, of False] obtain ix m where
    ix: "index_records False 0 (sort_records (target t)) ([], []) = (True, ix, m)"
     "table_ok \<lparr>target = sort_records (target t), index_by_key = ix, inode_key_by_object_id = m\<rparr>"
    by blast
  have "records_view (sort_records (target t)) = records_view (target t)"
    using assms(1) by (intro sort_records_view) (simp add: uniquely_keyed_def)
  then show ?thesis
    using True ix by (simp add: rebuild_table_def Let_def table_view_def sort_records_keys)
qed (use assms in \<open>simp add: rebuild_table_def\<close>)

section \<open>The routine with a log\<close>

text \<open>The committed records and their index, as the metadata store keeps them between commits.\<close>

definition committed_table :: "BtreeTable \<Rightarrow> bool" where
  "committed_table t = (table_ok t \<and> list_all (\<lambda>r. \<not> record_tombstone r) (target t) \<and> sorted (map key_order (target t)))"

lemma sorted_keys_cong:
  assumes "map record_key rs = map record_key rs'" shows "map key_order rs = map key_order rs'"
  using arg_cong [OF assms, of "map (map unat)"] by (simp add: o_def)

lemma put_record_no_tombstone:
  assumes "\<forall>k r. T k = Some r \<longrightarrow> \<not> record_tombstone r" "put_record r' T k = Some r"
  shows "\<not> record_tombstone r"
  using assms by (auto simp: put_record_def split: if_splits)

lemma fold_put_no_tombstone:
  "\<forall>k r. T k = Some r \<longrightarrow> \<not> record_tombstone r \<Longrightarrow> fold put_record rs T k = Some r \<Longrightarrow> \<not> record_tombstone r"
proof (induction rs arbitrary: T)
  case (Cons r' rs)
  show ?case
    by (rule Cons.IH [of "put_record r' T"]) (use Cons.prems put_record_no_tombstone [of T r'] in auto)
qed auto

lemma WithRestoreLog_ok:
  assumes t: "table_ok t"
  shows "\<exists>t' rlog. ApplyBtreeRecordDeltasWithRestoreLog t pending = (list_all record_ok pending, t', rlog) \<and>
      table_ok t' \<and> distinct (map fst rlog) \<and>
      (\<forall>k p. (k, p) \<in> set rlog \<longrightarrow> p = table_view t k) \<and>
      (\<forall>k. k \<notin> fst ` set rlog \<longrightarrow> table_view t' k = table_view t k) \<and>
      (list_all record_ok pending \<longrightarrow> table_view t' = fold put_record pending (table_view t) \<and>
        (sorted (map key_order (target t)) \<longrightarrow> sorted (map key_order (target t'))))"
proof -
  let ?l0 = "\<lparr>table = t, restored_keys = [], restore_log = [], needs_sorted_index_rebuild = False\<rparr>"
  have ix: "index_ok t" using t by (simp add: table_ok_def)
  have len: "length (index_by_key t) = length (target t)"
    using index_exact_length [OF index_ok_simps(3) [OF ix]] by simp
  have "log_ok (table_view t) (map record_key (target t)) ?l0" using ix by (simp add: log_ok_def)
  then obtain l where l: "apply_all_logged pending ?l0 = (list_all record_ok pending, l)"
      "log_ok (table_view t) (map record_key (target t)) l" "table_ok (table l)"
      "list_all record_ok pending \<longrightarrow> table_view (table l) = fold put_record pending (table_view t)"
    using apply_all_logged_ok [of "table_view t" "map record_key (target t)" ?l0 pending] t by auto
  obtain t' where t': "rebuild_table (needs_sorted_index_rebuild l) (table l) = (True, t')" "table_ok t'"
      "table_view t' = table_view (table l)"
      "needs_sorted_index_rebuild l \<longrightarrow> sorted (map key_order (target t'))"
      "\<not> needs_sorted_index_rebuild l \<longrightarrow> t' = table l"
    using rebuild_table_ok [OF table_ok_uniquely_keyed [OF l(3)] l(3)] by blast
  show ?thesis
  proof (cases "list_all record_ok pending")
    case True
    have "sorted (map key_order (target t))  \<longrightarrow> sorted (map key_order (target t'))"
      using t'(4,5) l(2) sorted_keys_cong [of "target t'" "target t"] by (auto simp: log_ok_def)
    then show ?thesis
      using True len l t' by (simp add: ApplyBtreeRecordDeltasWithRestoreLog_def) (auto simp: log_ok_def)
  next
    case False
    then show ?thesis
      using len l by (simp add: ApplyBtreeRecordDeltasWithRestoreLog_def) (auto simp: log_ok_def)
  qed
qed

section \<open>Undoing from the log\<close>

text \<open>
  A table that is undone entry by entry: each entry writes the contents of one key back.  With
  the first contents of every changed key in the log, undoing all of it gives the first
  contents of the table.
\<close>

locale undo_table =
  fixes invar :: "'t \<Rightarrow> bool"
    and view :: "'t \<Rightarrow> 'k \<Rightarrow> 'v option"
    and undo :: "'k \<times> 'v option \<Rightarrow> 't \<Rightarrow> 't"
    and valid :: "'k \<Rightarrow> 'v option \<Rightarrow> bool"
  assumes undo_invar: "invar t \<Longrightarrow> valid k p \<Longrightarrow> invar (undo (k, p) t)"
    and undo_view: "invar t \<Longrightarrow> valid k p \<Longrightarrow> view (undo (k, p) t) = (view t)(k := p)"
begin

lemma undo_all:
  assumes "invar t" "distinct (map fst rlog)" "\<And>k p. (k, p) \<in> set rlog \<Longrightarrow> valid k p"
  shows "invar (foldr undo rlog t) \<and>
     view (foldr undo rlog t) = (\<lambda>k. case map_of rlog k of None \<Rightarrow> view t k | Some p \<Rightarrow> p)"
  using assms(2,3)
proof (induction rlog)
  case (Cons e rlog)
  obtain k p where e: "e = (k, p)" by (cases e)
  have "valid k p" using Cons.prems(2) by (simp add: e)
  then show ?case using Cons undo_invar undo_view by (auto simp: e)
qed (use assms(1) in simp)

lemma undo_all_restores:
  assumes "invar t" "distinct (map fst rlog)" "\<And>k p. (k, p) \<in> set rlog \<Longrightarrow> valid k p"
    and log: "\<And>k p. (k, p) \<in> set rlog \<Longrightarrow> p = T k"
    and rest: "\<And>k. k \<notin> fst ` set rlog \<Longrightarrow> view t k = T k"
  shows "view (foldr undo rlog t) = T"
proof
  fix k
  have "view (foldr undo rlog t) k = (case map_of rlog k of None \<Rightarrow> view t k | Some p \<Rightarrow> p)"
    using undo_all [OF assms(1-3)] by simp
  also have "\<dots> = T k"
    using log rest [of k] map_of_SomeD [of rlog k] by (auto simp: map_of_eq_None_iff split: option.split)
  finally show "view (foldr undo rlog t) k = T k" .
qed

end

definition restoring_ok :: "key_blob list \<Rightarrow> bool \<times> BtreeTable \<Rightarrow> bool" where
  "restoring_ok ks st = (index_ok (snd st) \<and>
     (\<not> fst st \<longrightarrow> table_ok (snd st) \<and> map record_key (target (snd st)) = ks))"

lemma restore_entry_ok:
  assumes st: "restoring_ok ks st" and p: "\<And>r. p = Some r \<Longrightarrow> record_ok r \<and> record_key r = k"
  shows "restoring_ok ks (restore_entry (k, p) st)"
    and "table_view (snd (restore_entry (k, p) st)) = (table_view (snd st))(k := p)"
proof -
  obtain b t where bt: "st = (b, t)" by (cases st)
  have ix: "index_ok t" and ok: "\<not> b \<longrightarrow> table_ok t \<and> map record_key (target t) = ks"
    using st by (auto simp: restoring_ok_def bt)
  have "restoring_ok ks (restore_entry (k, p) st) \<and>
    table_view (snd (restore_entry (k, p) st)) = (table_view (snd st))(k := p)"
  proof (cases p)
    case None
    have "restore_entry (k, p) st = (b \<or> fst (erase_by_key True k t), snd (erase_by_key True k t))"
      by (simp add: restore_entry_def bt None split_def Let_def)
    then show ?thesis
      using erase_by_key_index [OF ix, of True k] ok by (auto simp: restoring_ok_def bt None)
  next
    case (Some r)
    have r: "record_ok r" "record_key r = k" using p [OF Some] by auto
    let ?u = "upsert_record k r t"
    let ?t = "case key_inode k of None \<Rightarrow> snd ?u | Some j \<Rightarrow> set_inode_key j k (snd ?u)"
    have e: "restore_entry (k, p) st = (b \<or> fst ?u, ?t)"
      using record_ok_inode [OF r(1)] DecodeBtreeInodeObjectIdFromKey_key [OF r(1)] r(2)
      by (auto simp: restore_entry_def bt Some split_def Let_def split: option.split)
    note u = upsert_record_index [OF ix r(1), unfolded r(2)]
    have v: "index_ok ?t" "table_view ?t = (table_view t)(k \<mapsto> r)" "target ?t = target (snd ?u)"
      using u(1,2) by (auto split: option.split)
    have "table_ok ?t \<and> map record_key (target ?t) = ks" if "\<not> b" "\<not> fst ?u"
    proof -
      have t: "table_ok t" "map record_key (target t) = ks" using ok that by auto
      have "table_view t k \<noteq> None" using u(4) that by simp
      then have "map_of (inode_key_by_object_id t) j = Some k" if "key_inode k = Some j" for j
        using inodes_exactD [OF table_ok_simps(3) [OF t(1)], of j k] that by auto
      then have "table_ok ?t"
        using upsert_inode_ok [OF t(1) r(1)] upsert_other_ok [OF t(1) r(1)] r(2) by (auto split: option.split)
      then show ?thesis using u(5) that t(2) v(3) by simp
    qed
    then show ?thesis using v(1,2) by (simp add: restoring_ok_def e) (simp add: Some bt)
  qed
  then show "restoring_ok ks (restore_entry (k, p) st)"
    "table_view (snd (restore_entry (k, p) st)) = (table_view (snd st))(k := p)" by auto
qed

interpretation restore: undo_table "restoring_ok ks" "\<lambda>st. table_view (snd st)" restore_entry
    "\<lambda>k p. \<forall>r. p = Some r \<longrightarrow> record_ok r \<and> record_key r = k" for ks
  by unfold_locales (simp_all add: restore_entry_ok)

lemma same_view_uniquely_keyed:
  assumes "table_ok t0" "index_ok t" "table_view t = table_view t0"
  shows "uniquely_keyed (target t)"
proof -
  have d: "distinct (map record_key (target t))" "distinct (map record_key (target t0))"
    using assms by (auto simp: table_ok_def intro: index_ok_simps)
  have "r \<in> set (target t) \<longleftrightarrow> r \<in> set (target t0)" for r
    using records_view_Some [OF d(1), of "record_key r" r] records_view_Some [OF d(2), of "record_key r" r] assms(3)
    by (simp add: table_view_def)
  then have "mset (target t) = mset (target t0)"
    using d by (intro set_eq_iff_mset_eq_distinct [THEN iffD1]) (auto simp: distinct_map)
  then show ?thesis using uniquely_keyed_mset table_ok_uniquely_keyed [OF assms(1)] by blast
qed

lemma Restore_ok:
  assumes t: "table_ok t" and t': "table_ok t'" and d: "distinct (map fst rlog)"
    and log: "\<forall>k p. (k, p) \<in> set rlog \<longrightarrow> p = table_view t k"
    and rest: "\<forall>k. k \<notin> fst ` set rlog \<longrightarrow> table_view t' k = table_view t k"
  shows "\<exists>t''. RestoreBtreeRecordDeltas t' rlog = (True, t'') \<and> table_ok t'' \<and> table_view t'' = table_view t \<and>
     (sorted (map key_order (target t')) \<longrightarrow> sorted (map key_order (target t'')))"
proof -
  have len: "length (index_by_key t') = length (target t')"
    using index_exact_length [OF index_ok_simps(3) [OF table_ok_simps(1) [OF t']]] by simp
  have 0: "restoring_ok (map record_key (target t')) (False, t')" using t' by (simp add: restoring_ok_def table_ok_simps)
  have ok: "record_ok r \<and> record_key r = k" if "(k, Some r) \<in> set rlog" for k r
    using log that table_view_ok [OF table_ok_simps(1) [OF t], of k r] by auto
  obtain b u where bu: "foldr restore_entry rlog (False, t') = (b, u)" by fastforce
  have valid: "\<forall>r. p = Some r \<longrightarrow> record_ok r \<and> record_key r = k" if "(k, p) \<in> set rlog" for k p
    using ok that by auto
  have f: "restoring_ok (map record_key (target t')) (b, u)"
    using restore.undo_all [OF 0 d valid] by (simp add: bu)
  have v: "table_view u = table_view t"
    using restore.undo_all_restores [OF 0 d valid, of "table_view t"] log rest by (simp add: bu)
  have "uniquely_keyed (target u)"
    using same_view_uniquely_keyed [OF t _ v] f by (simp add: restoring_ok_def)
  from rebuild_table_ok [OF this, of b] f obtain t'' where
    t'': "rebuild_table b u = (True, t'')" "table_ok t''" "table_view t'' = table_view u"
      "b \<longrightarrow> sorted (map key_order (target t''))" "\<not> b \<longrightarrow> t'' = u"
    by (auto simp: restoring_ok_def)
  have "sorted (map key_order (target t')) \<longrightarrow> sorted (map key_order (target t''))"
    using t''(4,5) f sorted_keys_cong [of "target u" "target t'"] by (auto simp: restoring_ok_def)
  then show ?thesis using t'' v len by (simp add: RestoreBtreeRecordDeltas_def bu)
qed

lemma committed_table_unique:
  assumes "table_ok t" "table_ok t'" "table_view t = table_view t'"
     "sorted (map key_order (target t))" "sorted (map key_order (target t'))"
  shows "target t = target t'"
  using assms by (intro sorted_view_unique)
    (auto simp: table_ok_def table_view_def intro: index_ok_simps)

text \<open>Two tables with the same records and maps with the same entries.\<close>

definition same_table :: "BtreeTable \<Rightarrow> BtreeTable \<Rightarrow> bool" where
  "same_table t t' = (target t = target t' \<and> map_of (index_by_key t) = map_of (index_by_key t') \<and>
     map_of (inode_key_by_object_id t) = map_of (inode_key_by_object_id t'))"

lemma table_ok_same:
  assumes "table_ok t" "table_ok t'" "target t = target t'"
  shows "same_table t t'"
proof -
  have "map_of (index_by_key t) = map_of (index_by_key t')"
    using index_exactD [OF index_ok_simps(3) [OF table_ok_simps(1) [OF assms(1)]]]
      index_exactD [OF index_ok_simps(3) [OF table_ok_simps(1) [OF assms(2)]]] assms(3)
    by (intro map_eqI) simp
  moreover have "table_view t = table_view t'" using assms(3) by (simp add: table_view_def)
  then have "map_of (inode_key_by_object_id t) = map_of (inode_key_by_object_id t')"
    using inodes_exactD [OF table_ok_simps(3) [OF assms(1)]] inodes_exactD [OF table_ok_simps(3) [OF assms(2)]]
    by (intro map_eqI) simp
  ultimately show ?thesis using assms(3) by (simp add: same_table_def)
qed


section \<open>The committed index\<close>

lemma rebuild_index_eq:
  assumes "list_all record_ok rs" "distinct (map record_key rs)" "\<And>r. r \<in> set rs \<Longrightarrow> map_of (fst st) (record_key r) = None"
  shows "rebuild_committed_index i rs st = index_records True i rs st"
  using assms
proof (induction rs arbitrary: i st)
  case (Cons r rs)
  obtain ix m where st: "st = (ix, m)" by (cases st)
  have IH: "rebuild_committed_index (Suc i) rs (AList.update (record_key r) i ix, m') = index_records True (Suc i) rs (AList.update (record_key r) i ix, m')" for m'
    using Cons.prems by (intro Cons.IH) (auto simp: st AList.update_conv' image_iff)
  have "map_of ix (record_key r) = None" using Cons.prems(3) [of r] by (simp add: st)
  then show ?case
    using Cons.prems(1) IH by (auto simp: st record_ok_def key_prefix_ok_def split: option.splits)
qed simp

lemma RebuildCommittedBtreeIndex_ok:
  assumes "committed_records rs"
  shows "\<exists>t. RebuildCommittedBtreeIndex rs = (True, t) \<and> committed_table t \<and> target t = rs"
proof -
  have u: "uniquely_keyed rs" using assms by (auto simp: committed_records_def uniquely_keyed_def list_all_iff)
  have "rebuild_committed_index 0 rs ([], []) = index_records True 0 rs ([], [])"
    using u by (intro rebuild_index_eq) (auto simp: uniquely_keyed_def)
  then show ?thesis
    using index_records_ok [OF u, of True] assms
    by (auto simp: RebuildCommittedBtreeIndex_def committed_table_def committed_records_def list_all_iff)
qed

lemma CanonicalizeBtreeRecords_committed:
  assumes "committed_records rs" shows "CanonicalizeBtreeRecords rs = rs"
proof -
  have u: "uniquely_keyed rs" and n: "list_all (\<lambda>r. \<not> record_tombstone r) rs"
    and s: "sorted (map key_order rs)" "distinct (map record_key rs)" "list_all record_ok rs"
    using assms by (auto simp: committed_records_def uniquely_keyed_def list_all_iff)
  have "records_view rs = latest_record rs" using fold_put_committed [OF u n, of "[]"] by simp
  then show ?thesis using canonical_records_unique [OF s(3,2,1)] by simp
qed

section \<open>Properties\<close>

text \<open>
  Canonicalizing refines its specification: for valid records, the record found under a key
  in the result is the last record of the key's identity, unless that one is a tombstone or
  moved the inode to another key.
\<close>

lemma CanonicalizeBtreeRecords_latest:
  assumes "list_all record_ok records"
  shows "records_view (CanonicalizeBtreeRecords records) = latest_record records"
  using assms by (rule CanonicalizeBtreeRecords_facts(1))

definition example_record :: "bool \<Rightarrow> byte \<Rightarrow> byte \<Rightarrow> BtreeRecord" where
  "example_record tombstone name value =
     \<lparr>record_kind = DirectoryEntryKind, record_tombstone = tombstone, record_key = [2, name], record_value = [value]\<rparr>"

definition example_inode :: "byte \<Rightarrow> byte \<Rightarrow> BtreeRecord" where
  "example_inode parent object =
     \<lparr>record_kind = InodeKind, record_tombstone = False,
      record_key = [1, parent, 0, 0, 0, 0, 0, 0, 0, object, 0, 0, 0, 0, 0, 0, 0], record_value = []\<rparr>"

lemma CanonicalizeBtreeRecords_latest_witness:
  "records_view (CanonicalizeBtreeRecords [example_inode 2 7, example_record False 5 1, example_inode 3 7]) =
     latest_record [example_inode 2 7, example_record False 5 1, example_inode 3 7]"
  by (rule CanonicalizeBtreeRecords_latest) code_simp

text \<open>
  C4. Applying pending records in place gives the canonical form of all records, old ones
  first, and fails exactly when a pending record is not valid.
\<close>

theorem ApplyBtreeRecordDeltas_canonical:
  assumes "committed_records records"
  shows "ApplyBtreeRecordDeltas records pending =
     (if list_all record_ok pending then Some (CanonicalizeBtreeRecords (records @ pending)) else None)"
  by (rule ApplyBtreeRecordDeltas_eq)
    (use assms in \<open>auto simp: committed_records_def uniquely_keyed_def list_all_iff\<close>)

theorem ApplyBtreeRecordDeltas_canonical_witness:
  "ApplyBtreeRecordDeltas [example_inode 2 7, example_record False 5 1] [example_inode 3 7, example_record True 5 0] =
     Some (CanonicalizeBtreeRecords [example_inode 2 7, example_record False 5 1, example_inode 3 7, example_record True 5 0])"
proof -
  have "committed_records [example_inode 2 7, example_record False 5 1]" by code_simp
  moreover have "list_all record_ok [example_inode 3 7, example_record True 5 0]" by code_simp
  ultimately show ?thesis using ApplyBtreeRecordDeltas_canonical by simp
qed

lemma committed_table_records: "committed_table t \<Longrightarrow> committed_records (target t)"
  using table_ok_uniquely_keyed [of t]
  by (auto simp: committed_table_def committed_records_def uniquely_keyed_def list_all_iff)

lemma committed_table_view_no_tombstone:
  "committed_table t \<Longrightarrow> \<forall>k r. table_view t k = Some r \<longrightarrow> \<not> record_tombstone r"
  using index_ok_simps(2) [of t] by (auto simp: committed_table_def table_ok_def table_view_def records_view_Some list_all_iff)

definition example_table :: BtreeTable where
  "example_table = snd (RebuildCommittedBtreeIndex [example_record False 5 1, example_record False 6 2])"

lemma example_table_committed: "committed_table example_table"
proof -
  have "committed_records [example_record False 5 1, example_record False 6 2]" by code_simp
  from RebuildCommittedBtreeIndex_ok [OF this] show ?thesis by (auto simp: example_table_def)
qed

lemma ApplyBtreeRecordDeltasWithRestoreLog_commits:
  assumes t: "committed_table t" and p: "list_all record_ok pending"
  shows "committed_table (fst (snd (ApplyBtreeRecordDeltasWithRestoreLog t pending)))"
proof -
  have ok: "table_ok t" "sorted (map key_order (target t))" using t by (auto simp: committed_table_def)
  obtain t' rlog where a: "ApplyBtreeRecordDeltasWithRestoreLog t pending = (list_all record_ok pending, t', rlog)"
     "table_ok t'" "table_view t' = fold put_record pending (table_view t)" "sorted (map key_order (target t'))"
    using WithRestoreLog_ok [OF ok(1), of pending] p ok(2) by blast
  have "\<not> record_tombstone r" if "r \<in> set (target t')" for r
  proof (rule fold_put_no_tombstone [OF committed_table_view_no_tombstone [OF t]])
    have "table_view t' (record_key r) = Some r"
      using that index_ok_simps(2) [OF table_ok_simps(1) [OF a(2)]] by (simp add: table_view_def records_view_Some)
    then show "fold put_record pending (table_view t) (record_key r) = Some r" by (simp add: a(3))
  qed
  then show ?thesis using a by (simp add: committed_table_def list_all_iff)
qed



text \<open>
  The routine with a restore log computes the same vector as canonicalizing.
\<close>

lemma ApplyBtreeRecordDeltasWithRestoreLog_canonical:
  assumes t: "committed_table t"
  shows "\<exists>t' rlog. ApplyBtreeRecordDeltasWithRestoreLog t pending = (list_all record_ok pending, t', rlog) \<and>
     (list_all record_ok pending \<longrightarrow> target t' = CanonicalizeBtreeRecords (target t @ pending))"
proof -
  have ok: "table_ok t" "sorted (map key_order (target t))" "list_all (\<lambda>r. \<not> record_tombstone r) (target t)"
    using t by (auto simp: committed_table_def)
  note u = table_ok_uniquely_keyed [OF ok(1)]
  obtain t' rlog where a: "ApplyBtreeRecordDeltasWithRestoreLog t pending = (list_all record_ok pending, t', rlog)"
     "table_ok t'" "list_all record_ok pending \<longrightarrow> table_view t' = fold put_record pending (table_view t) \<and>
        sorted (map key_order (target t'))"
    using WithRestoreLog_ok [OF ok(1), of pending] ok(2) by blast
  have "target t' = CanonicalizeBtreeRecords (target t @ pending)" if p: "list_all record_ok pending"
    using p u a(3) fold_put_committed [OF u ok(3), of pending] index_ok_simps(2) [OF table_ok_simps(1) [OF a(2)]]
    by (intro canonical_records_unique) (simp_all add: uniquely_keyed_def table_view_def)
  then show ?thesis using a(1) by blast
qed



text \<open>
  Also after a failure, which leaves the records applied so far in place, restoring gives
  back the contents of the table with exact maps.
\<close>

lemma RestoreBtreeRecordDeltas_contents:
  assumes t: "committed_table t" and a: "ApplyBtreeRecordDeltasWithRestoreLog t pending = (ok, t', rlog)"
  shows "\<exists>t''. RestoreBtreeRecordDeltas t' rlog = (True, t'') \<and> table_ok t'' \<and> table_view t'' = table_view t"
proof -
  have ok: "table_ok t" using t by (auto simp: committed_table_def)
  have "table_ok t'" "distinct (map fst rlog)" "\<forall>k p. (k, p) \<in> set rlog \<longrightarrow> p = table_view t k"
     "\<forall>k. k \<notin> fst ` set rlog \<longrightarrow> table_view t' k = table_view t k"
    using WithRestoreLog_ok [OF ok, of pending] a by auto
  from Restore_ok [OF ok this] show ?thesis by blast
qed


end
