(* ===== verification/BtreeCheckpoint.thy ===== *)
theory BtreeCheckpoint
  imports CheckpointFamilyReload BtreeTableCommit VolumeTreeProjection
begin

text \<open>
  The B-tree checkpoint of \<^verbatim>\<open>src/MetadataStore.cpp\<close>: its writer, its loader, and the way of a
  commit of B-tree records from the table through the checkpoint band back to the table.

  Left out are the reusable serialization buffer and the allocation of the vector of loaded records,
  which may throw for a count that the payload cannot hold.
\<close>

section \<open>Writing the records\<close>

definition btree_magic :: "byte list" where
  "btree_magic = [65, 80, 70, 83, 82, 87, 66, 84, 82, 53, 0, 0]"

definition kRecordHeaderBytes :: nat where "kRecordHeaderBytes = 16"

text \<open>\<^verbatim>\<open>std::memcpy\<close> into the block, at an offset where the bytes fit.\<close>

definition copy_bytes :: "byte list \<Rightarrow> nat \<Rightarrow> byte list \<Rightarrow> byte list" where
  "copy_bytes block offset data = take offset block @ data @ drop (offset + length data) block"

fun append_records :: "byte list \<Rightarrow> BtreeRecord list \<Rightarrow> byte list option" where
  "append_records block [] = Some block"
| "append_records block (r # rs) =
     (if length (record_key r) > u32_max \<or> length (record_value r) > u32_max \<or>
         length block > u64_max - kRecordHeaderBytes - length (record_key r) - length (record_value r) then None
      else
        let cursor = length block;
            block = resize_bytes (cursor + kRecordHeaderBytes + length (record_key r) + length (record_value r)) block;
            block = WriteLe32 block cursor (kind_value (record_kind r));
            block = WriteLe32 block (cursor + 4) (if record_tombstone r then 1 else 0);
            block = WriteLe32 block (cursor + 8) (length (record_key r));
            block = WriteLe32 block (cursor + 12) (length (record_value r));
            payload_cursor = cursor + kRecordHeaderBytes;
            (block, payload_cursor) =
              (if record_key r \<noteq> []
               then (copy_bytes block payload_cursor (record_key r), payload_cursor + length (record_key r))
               else (block, payload_cursor));
            block = (if record_value r \<noteq> [] then copy_bytes block payload_cursor (record_value r) else block)
        in append_records block rs)"

definition PersistBtreeCheckpoint ::
  "bool \<Rightarrow> CheckpointContext \<Rightarrow> SpacemanLedger \<Rightarrow> BtreeRecord list \<Rightarrow> nat \<Rightarrow> WriteSpan list option" where
  "PersistBtreeCheckpoint slot_index_enabled ctx s committed_btree_records target_xid =
     (let unit = block_size (geometry s);
          btree_blocks = ResolveBtreeCheckpointBlockIndices ctx (total_blocks (geometry s))
      in if btree_blocks = [] then None
         else if unit = 0 \<or> length btree_blocks > u64_max div unit then None
         else
           let checkpoint_capacity = length btree_blocks * unit;
               block = write_magic btree_magic (replicate kCheckpointHeaderBytes 0);
               block = WriteLe64 block 12 target_xid
           in if length committed_btree_records > u32_max then None
              else case append_records (WriteLe32 block 20 (length committed_btree_records)) committed_btree_records of
                None \<Rightarrow> None
              | Some block \<Rightarrow>
                  let required_bytes = length block in
                  if required_bytes > checkpoint_capacity \<or> required_bytes < kCheckpointHeaderBytes \<or>
                     required_bytes - kCheckpointHeaderBytes > u32_max then None
                  else
                    let target_slots = SelectWritableChunkedCheckpointBlocks slot_index_enabled s btree_blocks target_xid
                          ((required_bytes + unit - 1) div unit)
                    in if target_slots = [] then None
                       else
                         let payload_bytes = required_bytes - kCheckpointHeaderBytes;
                             block = WriteLe32 block 24 payload_bytes;
                             block = WriteLe32 block kCheckpointChecksumOffset (ComputeCheckpointChecksum block payload_bytes)
                         in case PadCheckpointWriteDataToBlockBoundary unit block of
                              None \<Rightarrow> None
                            | Some data \<Rightarrow> AppendSelectedChunkedCheckpointWriteSpans unit target_slots data)"

section \<open>Loading the records\<close>

fun kind_of_value :: "nat \<Rightarrow> BtreeRecordKind option" where
  "kind_of_value v =
     (if v = 1 then Some InodeKind else if v = 2 then Some DirectoryEntryKind
      else if v = 3 then Some FileExtentKind else None)"

text \<open>The records and the cursor behind the last one.\<close>

fun read_btree_records :: "byte list \<Rightarrow> nat \<Rightarrow> nat \<Rightarrow> (BtreeRecord list \<times> nat) option" where
  "read_btree_records payload_block cursor 0 = Some ([], cursor)"
| "read_btree_records payload_block cursor (Suc n) =
     (if cursor > length payload_block \<or> kRecordHeaderBytes > length payload_block - cursor then None
      else
        let kind = ReadLe32 payload_block cursor;
            tombstone_flag = ReadLe32 payload_block (cursor + 4);
            key_length = ReadLe32 payload_block (cursor + 8);
            value_length = ReadLe32 payload_block (cursor + 12);
            cursor = cursor + kRecordHeaderBytes
        in case kind_of_value kind of
             None \<Rightarrow> None
           | Some k \<Rightarrow>
               let required_payload = key_length + value_length in
               if required_payload > u64_max - cursor then None
               else if required_payload > length payload_block - cursor then None
               else
                 let r = \<lparr>record_kind = k, record_tombstone = (tombstone_flag \<noteq> 0),
                          record_key = take key_length (drop cursor payload_block),
                          record_value = take value_length (drop (cursor + key_length) payload_block)\<rparr>
                 in map_option (apfst ((#) r)) (read_btree_records payload_block (cursor + key_length + value_length) n))"

definition btree_payload :: "device_read \<Rightarrow> CheckpointContext \<Rightarrow> StoreGeometry \<Rightarrow> byte list \<Rightarrow> byte list" where
  "btree_payload read ctx g block =
     (let persisted_xid = ReadLe64 block 12; persisted_payload_bytes = ReadLe32 block 24 in
      if persisted_payload_bytes > length block - kCheckpointHeaderBytes then
        let payload_block = ReadChunkedCheckpointBytes read (block_size g) (total_blocks g)
              (ResolveBtreeCheckpointBlockIndices ctx (total_blocks g)) persisted_xid btree_magic persisted_payload_bytes
        in if payload_block = [] then
             ReadChunkedCheckpointBytes read (block_size g) (total_blocks g)
               (ResolveLegacyContiguousCheckpointBlocks (ResolveNativeCheckpointBandStartBlock (total_blocks g))
                 kNativeBtreeCheckpointOffset (kNativeReplayCheckpointOffset - kNativeBtreeCheckpointOffset)
                 (IsNativeCheckpointBandBlock (total_blocks g)))
               persisted_xid btree_magic persisted_payload_bytes
           else payload_block
      else block)"

text \<open>The members the loader changes.\<close>

record BtreeLoadState =
  committed_btree :: BtreeTable
  legacy_fixture_fallback_used :: bool
  last_committed_xid :: "nat option"

text \<open>
  \<open>allow_fixture_fallback\<close> is the answer of \<^verbatim>\<open>IsLegacyFixtureFallbackAllowedForCurrentContext\<close>.
  A loader that fails late has already replaced the records and the index.
\<close>

definition LoadBtreeCheckpointBlock ::
  "device_read \<Rightarrow> CheckpointContext \<Rightarrow> CheckpointLoadContext \<Rightarrow> StoreGeometry \<Rightarrow> bool \<Rightarrow> byte list \<Rightarrow>
     BtreeLoadState \<Rightarrow> bool \<times> BtreeLoadState" where
  "LoadBtreeCheckpointBlock read ctx c g allow_fixture_fallback block st =
     (if length block < kCheckpointHeaderBytes then (False, st)
      else if take 12 block \<noteq> btree_magic then (False, st)
      else
        let persisted_xid = ReadLe64 block 12 in
        if \<not> CanLoadNativeCheckpointXid c persisted_xid then (False, st)
        else
          let record_count = ReadLe32 block 20;
              persisted_payload_bytes = ReadLe32 block 24;
              persisted_checksum = ReadLe32 block kCheckpointChecksumOffset;
              payload_block = btree_payload read ctx g block
          in if payload_block = [] then (False, st)
             else case read_btree_records payload_block kCheckpointHeaderBytes record_count of
               None \<Rightarrow> (False, st)
             | Some (loaded_records, cursor) \<Rightarrow>
                 let payload_bytes = cursor - kCheckpointHeaderBytes in
                 if persisted_payload_bytes \<noteq> 0 \<and> persisted_payload_bytes \<noteq> payload_bytes mod (u32_max + 1)
                 then (False, st)
                 else if persisted_checksum \<noteq> 0 \<and>
                         ComputeCheckpointChecksum payload_block payload_bytes \<noteq> persisted_checksum
                 then (False, st)
                 else
                   let (ok, table) = RebuildCommittedBtreeIndex (CanonicalizeBtreeRecords loaded_records);
                       st = st\<lparr>committed_btree := table\<rparr>
                   in if \<not> ok then (False, st)
                      else
                        let projected = (case TryProjectFromBtreeRecords (target table) [] of
                              Inl _ \<Rightarrow> False | Inr _ \<Rightarrow> True)
                        in if \<not> projected \<and> \<not> allow_fixture_fallback then (False, st)
                           else
                             let st = (if projected then st else st\<lparr>legacy_fixture_fallback_used := True\<rparr>) in
                             (True, st\<lparr>last_committed_xid := later_xid (last_committed_xid st) persisted_xid\<rparr>))"

section \<open>Bytes of the records\<close>

definition record_bytes :: "BtreeRecord \<Rightarrow> byte list" where
  "record_bytes r = le_bytes 4 (kind_value (record_kind r)) @ le_bytes 4 (if record_tombstone r then 1 else 0) @
     le_bytes 4 (length (record_key r)) @ le_bytes 4 (length (record_value r)) @ record_key r @ record_value r"

definition record_fits :: "BtreeRecord \<Rightarrow> bool" where
  "record_fits r \<longleftrightarrow> length (record_key r) \<le> u32_max \<and> length (record_value r) \<le> u32_max"

definition btree_bytes :: "BtreeRecord list \<Rightarrow> nat \<Rightarrow> byte list" where
  "btree_bytes rs xid =
     checkpoint_bytes btree_magic xid (length rs) (length (concat (map record_bytes rs))) (concat (map record_bytes rs))"

lemma length_record_bytes: "length (record_bytes r) = 16 + length (record_key r) + length (record_value r)"
  by (simp add: record_bytes_def)

lemma btree_magic_length [simp]: "length btree_magic = 12" by (simp add: btree_magic_def)

lemma append_record_bytes:
  "copy_bytes (pre @ h @ replicate (length k + n) 0) (length pre + length h) k = pre @ h @ k @ replicate n 0"
  by (simp add: copy_bytes_def replicate_add)

lemma append_records_step:
  assumes "record_fits r" and "length block + length (record_bytes r) \<le> u64_max"
  shows "append_records block (r # rs) = append_records (block @ record_bytes r) rs"
proof -
  let ?z = "\<lambda>n. replicate n (0::byte)" let ?k = "record_key r" let ?v = "record_value r"
  let ?rest = "?z (length ?k + length ?v)"
  have z: "resize_bytes (length block + kRecordHeaderBytes + length ?k + length ?v) block =
      block @ ?z 4 @ ?z 4 @ ?z 4 @ ?z 4 @ ?rest"
    by (simp add: resize_bytes_def kRecordHeaderBytes_def flip: replicate_add)
  have 1: "WriteLe32 (block @ ?z 4 @ ?z 4 @ ?z 4 @ ?z 4 @ ?rest) (length block) a =
      block @ le_bytes 4 a @ ?z 4 @ ?z 4 @ ?z 4 @ ?rest" for a
    by (rule WriteLe32_at) simp_all
  have 2: "WriteLe32 (block @ le_bytes 4 a @ ?z 4 @ ?z 4 @ ?z 4 @ ?rest) (length block + 4) b =
      block @ le_bytes 4 a @ le_bytes 4 b @ ?z 4 @ ?z 4 @ ?rest" for a b
    using WriteLe32_at [of "block @ le_bytes 4 a" "length block + 4" "?z 4" "?z 4 @ ?z 4 @ ?rest"] by simp
  have 3: "WriteLe32 (block @ le_bytes 4 a @ le_bytes 4 b @ ?z 4 @ ?z 4 @ ?rest) (length block + 8) c =
      block @ le_bytes 4 a @ le_bytes 4 b @ le_bytes 4 c @ ?z 4 @ ?rest" for a b c
    using WriteLe32_at [of "block @ le_bytes 4 a @ le_bytes 4 b" "length block + 8" "?z 4" "?z 4 @ ?rest"] by simp
  have 4: "WriteLe32 (block @ le_bytes 4 a @ le_bytes 4 b @ le_bytes 4 c @ ?z 4 @ ?rest) (length block + 12) d =
      block @ le_bytes 4 a @ le_bytes 4 b @ le_bytes 4 c @ le_bytes 4 d @ ?rest" for a b c d
    using WriteLe32_at [of "block @ le_bytes 4 a @ le_bytes 4 b @ le_bytes 4 c" "length block + 12" "?z 4" ?rest] by simp
  let ?h = "le_bytes 4 (kind_value (record_kind r)) @ le_bytes 4 (if record_tombstone r then 1 else 0) @
      le_bytes 4 (length ?k) @ le_bytes 4 (length ?v)"
  have 5: "copy_bytes (block @ ?h @ ?rest) (length block + 16) ?k = block @ ?h @ ?k @ ?z (length ?v)"
    using append_record_bytes [of block ?h ?k "length ?v"] by (simp split del: if_split)
  have 6: "copy_bytes (block @ ?h @ ?k @ ?z (length ?v)) (length block + 16 + length ?k) ?v = block @ record_bytes r"
    using append_record_bytes [of block "?h @ ?k" ?v 0] by (simp add: record_bytes_def add.assoc split del: if_split)
  have "\<not> (length ?k > u32_max \<or> length ?v > u32_max \<or>
      length block > u64_max - kRecordHeaderBytes - length ?k - length ?v)"
    using assms by (simp add: record_fits_def length_record_bytes kRecordHeaderBytes_def)
  then show ?thesis
    using 5 6 unfolding append_records.simps Let_def z 1 2 3 4
    by (cases "?k = []"; cases "?v = []") (simp_all add: kRecordHeaderBytes_def record_bytes_def)
qed

lemma append_records_eq:
  "list_all record_fits rs \<Longrightarrow> length block + length (concat (map record_bytes rs)) \<le> u64_max \<Longrightarrow>
     append_records block rs = Some (block @ concat (map record_bytes rs))"
  by (induction rs arbitrary: block) (simp_all add: append_records_step del: append_records.simps(2))

lemma append_records_Some:
  "append_records block rs = Some block' \<Longrightarrow> length block \<le> u64_max \<Longrightarrow>
     block' = block @ concat (map record_bytes rs) \<and> list_all record_fits rs"
proof (induction rs arbitrary: block)
  case (Cons r rs)
  have fits: "record_fits r" and room: "length block + length (record_bytes r) \<le> u64_max"
  proof -
    have g: "\<not> (length (record_key r) > u32_max \<or> length (record_value r) > u32_max \<or>
        length block > u64_max - kRecordHeaderBytes - length (record_key r) - length (record_value r))"
      using Cons.prems(1) by (auto split: if_splits)
    then show "record_fits r" by (simp add: record_fits_def)
    show "length block + length (record_bytes r) \<le> u64_max"
      using g unfolding length_record_bytes kRecordHeaderBytes_def u32_max_def u64_max_def by linarith
  qed
  then show ?case
    using Cons.IH [of "block @ record_bytes r"] Cons.prems(1) append_records_step [of r block rs] by simp
qed simp

lemma kind_of_value_kind [simp]: "kind_of_value (kind_value k) = Some k"
  by (cases k) simp_all

lemma kind_value_bound: "kind_value k \<le> u32_max"
  by (cases k) (simp_all add: u32_max_def)

declare kind_of_value.simps [simp del]

lemma record_fields:
  fixes pre rest :: "byte list"
  assumes "record_fits r"
  defines "all \<equiv> pre @ record_bytes r @ rest"
  shows "ReadLe32 all (length pre) = kind_value (record_kind r)"
    and "ReadLe32 all (length pre + 4) = (if record_tombstone r then 1 else 0)"
    and "ReadLe32 all (length pre + 8) = length (record_key r)"
    and "ReadLe32 all (length pre + 12) = length (record_value r)"
    and "drop (length pre + 16) all = record_key r @ record_value r @ rest"
    and "drop (length pre + 16 + length (record_key r)) all = record_value r @ rest"
    and "length all = length pre + 16 + (length (record_key r) + length (record_value r)) + length rest"
proof -
  let ?k = "record_key r" let ?v = "record_value r" let ?t = "if record_tombstone r then 1 else 0 :: nat"
  let ?a = "le_bytes 4 (kind_value (record_kind r))" let ?b = "le_bytes 4 ?t"
  let ?c = "le_bytes 4 (length ?k)" let ?d = "le_bytes 4 (length ?v)"
  have fits: "length ?k \<le> u32_max" "length ?v \<le> u32_max" using assms(1) by (auto simp: record_fits_def)
  have e: "all = pre @ ?a @ ?b @ ?c @ ?d @ ?k @ ?v @ rest" by (simp add: all_def record_bytes_def)
  show "ReadLe32 all (length pre) = kind_value (record_kind r)"
    unfolding e by (rule ReadLe32_at) (simp_all add: kind_value_bound)
  show "ReadLe32 all (length pre + 4) = ?t"
    unfolding e using ReadLe32_at [of "pre @ ?a" "length pre + 4" ?t] by (simp add: u32_max_def)
  show "ReadLe32 all (length pre + 8) = length ?k"
    unfolding e using ReadLe32_at [of "pre @ ?a @ ?b" "length pre + 8" "length ?k"] fits by (simp split del: if_split)
  show "ReadLe32 all (length pre + 12) = length ?v"
    unfolding e using ReadLe32_at [of "pre @ ?a @ ?b @ ?c" "length pre + 12" "length ?v"] fits by (simp split del: if_split)
  show k: "drop (length pre + 16) all = ?k @ ?v @ rest" unfolding e by (simp split del: if_split)
  show "drop (length pre + 16 + length ?k) all = ?v @ rest"
    using arg_cong [OF k, of "drop (length ?k)"] by (simp only: drop_drop add.commute [of "length ?k"]) simp
  show "length all = length pre + 16 + (length ?k + length ?v) + length rest"
    unfolding e by (simp split del: if_split)
qed

lemma read_btree_records_bytes:
  assumes "list_all record_fits rs" and "length pre + length (concat (map record_bytes rs)) \<le> u64_max"
  shows "read_btree_records (pre @ concat (map record_bytes rs) @ post) (length pre) (length rs) =
     Some (rs, length pre + length (concat (map record_bytes rs)))"
  using assms
proof (induction rs arbitrary: pre)
  case Nil
  then show ?case by simp
next
  case (Cons r rs)
  let ?k = "record_key r" let ?v = "record_value r" let ?t = "if record_tombstone r then 1 else 0 :: nat"
  let ?rest = "concat (map record_bytes rs) @ post"
  define all where "all = pre @ record_bytes r @ ?rest"
  have "record_fits r" using Cons.prems(1) by simp
  note f = record_fields [OF this, of pre ?rest, folded all_def]
  have IH: "read_btree_records all (length pre + 16 + length ?k + length ?v) (length rs) =
      Some (rs, length pre + length (concat (map record_bytes (r # rs))))"
    using Cons.IH [of "pre @ record_bytes r"] Cons.prems by (simp add: all_def length_record_bytes add.assoc)
  have room: "\<not> length ?k + length ?v > u64_max - (length pre + 16)"
    using Cons.prems(2) by (simp add: length_record_bytes)
  have "\<lparr>record_kind = record_kind r, record_tombstone = (?t \<noteq> 0), record_key = ?k, record_value = ?v\<rparr> = r" by simp
  then have "read_btree_records all (length pre) (Suc (length rs)) =
      Some (r # rs, length pre + length (concat (map record_bytes (r # rs))))"
    using f(7) room unfolding read_btree_records.simps kRecordHeaderBytes_def Let_def f(1-6) IH
    by (simp only: kind_of_value_kind option.case) simp
  then show ?case by (simp add: all_def)
qed

lemma btree_block:
  "(let block = WriteLe32 (header @ replicate 4 0 @ replicate 4 0 @ payload) 24 n in
     WriteLe32 block kCheckpointChecksumOffset (ComputeCheckpointChecksum block (length payload))) =
   header @ le_bytes 4 n @ le_bytes 4 (payload_hash (header @ le_bytes 4 n) payload) @ payload"
  if "length header = 24"
proof -
  have 1: "WriteLe32 (header @ replicate 4 0 @ replicate 4 0 @ payload) 24 n = (header @ le_bytes 4 n) @ replicate 4 0 @ payload"
    using WriteLe32_at [of header 24 "replicate 4 0" "replicate 4 0 @ payload" n] that by simp
  have 2: "ComputeCheckpointChecksum ((header @ le_bytes 4 n) @ replicate 4 0 @ payload) (length payload) =
      payload_hash (header @ le_bytes 4 n) payload"
    using ComputeCheckpointChecksum_bytes [of "header @ le_bytes 4 n" "replicate 4 0" payload "[]"] that by simp
  have "WriteLe32 ((header @ le_bytes 4 n) @ replicate 4 0 @ payload) 28 v = (header @ le_bytes 4 n) @ le_bytes 4 v @ payload" for v
    by (rule WriteLe32_at) (simp_all add: that)
  then show ?thesis unfolding Let_def 1 2 kCheckpointChecksumOffset_def by simp
qed

definition btree_slots :: "bool \<Rightarrow> CheckpointContext \<Rightarrow> SpacemanLedger \<Rightarrow> BtreeRecord list \<Rightarrow> nat \<Rightarrow> nat list" where
  "btree_slots flag ctx s rs xid =
     SelectWritableChunkedCheckpointBlocks flag s (ResolveBtreeCheckpointBlockIndices ctx (total_blocks (geometry s))) xid
       ((32 + length (concat (map record_bytes rs)) + block_size (geometry s) - 1) div block_size (geometry s))"

lemma btree_header:
  "WriteLe32 (WriteLe64 (write_magic btree_magic (replicate kCheckpointHeaderBytes 0)) 12 xid) 20 n =
     (btree_magic @ le_bytes 8 xid @ le_bytes 4 n) @ replicate 4 0 @ replicate 4 0"
proof -
  let ?z = "\<lambda>n. replicate n (0::byte)"
  have z: "write_magic btree_magic (?z kCheckpointHeaderBytes) = btree_magic @ ?z 8 @ ?z 4 @ ?z 4 @ ?z 4"
    by (simp add: write_magic_def kCheckpointHeaderBytes_def flip: replicate_add)
  have 1: "WriteLe64 (btree_magic @ ?z 8 @ ?z 4 @ ?z 4 @ ?z 4) 12 xid = btree_magic @ le_bytes 8 xid @ ?z 4 @ ?z 4 @ ?z 4"
    by (rule WriteLe64_at) simp_all
  show ?thesis
    unfolding z 1 using WriteLe32_at [of "btree_magic @ le_bytes 8 xid" 20 "?z 4" "?z 4 @ ?z 4" n] by simp
qed

lemma PersistBtreeCheckpoint_spans:
  assumes "PersistBtreeCheckpoint flag ctx s rs xid = Some spans"
  shows "let w = btree_slots flag ctx s rs xid; u = block_size (geometry s); p = concat (map record_bytes rs);
       bs = ResolveBtreeCheckpointBlockIndices ctx (total_blocks (geometry s))
     in w \<noteq> [] \<and> length bs \<le> u64_max div u \<and> 0 < u \<and> length rs \<le> u32_max \<and> length p \<le> u32_max \<and>
        list_all record_fits rs \<and>
        AppendSelectedChunkedCheckpointWriteSpans u w (pad_to u (btree_bytes rs xid)) = Some spans"
proof -
  let ?w = "btree_slots flag ctx s rs xid" let ?u = "block_size (geometry s)" let ?p = "concat (map record_bytes rs)"
  let ?bs = "ResolveBtreeCheckpointBlockIndices ctx (total_blocks (geometry s))"
  let ?h = "btree_magic @ le_bytes 8 xid @ le_bytes 4 (length rs)" let ?d = "btree_bytes rs xid"
  obtain block where block: "append_records (?h @ replicate 4 0 @ replicate 4 0) rs = Some block"
    using assms unfolding PersistBtreeCheckpoint_def Let_def btree_header
    by (auto split: if_splits option.splits)
  have b: "block = (?h @ replicate 4 0 @ replicate 4 0) @ ?p \<and> list_all record_fits rs"
    using append_records_Some [OF block] by (simp add: u64_max_def)
  have len: "length block = 32 + length ?p" using b by simp
  have d: "(let block = WriteLe32 (?h @ replicate 4 0 @ replicate 4 0 @ ?p) 24 (length ?p) in
     WriteLe32 block kCheckpointChecksumOffset (ComputeCheckpointChecksum block (length ?p))) = ?d"
    by (subst btree_block) (simp_all add: btree_bytes_def checkpoint_bytes_def header_bytes_def)
  have block': "block = ?h @ replicate 4 0 @ replicate 4 0 @ ?p" using b by simp
  have g: "?bs \<noteq> []" "\<not> (?u = 0 \<or> length ?bs > u64_max div ?u)" "\<not> length rs > u32_max" "\<not> length ?p > u32_max" "?w \<noteq> []"
    "(case PadCheckpointWriteDataToBlockBoundary ?u ?d of None \<Rightarrow> None
      | Some data \<Rightarrow> AppendSelectedChunkedCheckpointWriteSpans ?u ?w data) = Some spans"
    using assms d unfolding PersistBtreeCheckpoint_def Let_def btree_header block option.case
    unfolding len btree_slots_def kCheckpointHeaderBytes_def add_diff_cancel_left'
    unfolding block'
    by (auto simp only: split: if_splits)
  have "?d \<noteq> []" unfolding btree_bytes_def using checkpoint_bytes_nonempty [of btree_magic _ _ _ _ "[]"] by simp
  then have "PadCheckpointWriteDataToBlockBoundary ?u ?d = Some (pad_to ?u ?d)" using Pad_eq g(2) by blast
  then show ?thesis using g b by (simp add: Let_def)
qed

lemma btree_checkpoint_read_back:
  assumes "PersistBtreeCheckpoint flag ctx s rs xid = Some spans" and "holds read spans"
    and "sole_window read (geometry s) btree_magic
      (ResolveBtreeCheckpointBlockIndices ctx (total_blocks (geometry s))) xid (btree_slots flag ctx s rs xid)"
    and "committed_records rs" and "xid \<le> u64_max" and "CanLoadNativeCheckpointXid c xid" and "32 \<le> block_size (geometry s)"
    and "(\<exists>projection. TryProjectFromBtreeRecords rs [] = Inr projection) \<or> allow"
  shows "\<exists>block st'. ReadBlockByIndexDirect read (geometry s) (hd (btree_slots flag ctx s rs xid)) = Some block \<and>
    LoadBtreeCheckpointBlock read ctx c (geometry s) allow block st = (True, st') \<and>
    committed_table (committed_btree st') \<and> target (committed_btree st') = rs \<and>
    last_committed_xid st' = later_xid (last_committed_xid st) xid"
proof -
  let ?g = "geometry s" let ?u = "block_size ?g" let ?w = "btree_slots flag ctx s rs xid"
  let ?d = "btree_bytes rs xid" let ?p = "concat (map record_bytes rs)"
  let ?bs = "ResolveBtreeCheckpointBlockIndices ctx (total_blocks ?g)"
  have p: "?w \<noteq> []" "length ?bs \<le> u64_max div ?u" "length rs \<le> u32_max" "length ?p \<le> u32_max" "list_all record_fits rs"
    "AppendSelectedChunkedCheckpointWriteSpans ?u ?w (pad_to ?u ?d) = Some spans"
    using PersistBtreeCheckpoint_spans [OF assms(1)] by (simp_all add: Let_def)
  note f = checkpoint_fields [OF btree_magic_length assms(5) p(3,4), of ?p, folded btree_bytes_def]
  note win = writable_window [OF btree_slots_def p(1,2), folded f(6)]
  obtain block where b: "ReadBlockByIndexDirect read ?g (hd ?w) = Some block" "length block = ?u"
    "take 12 block = btree_magic" "ReadLe64 block 12 = xid" "ReadLe32 block 20 = length rs" "ReadLe32 block 24 = length ?p"
    "ReadLe32 block 28 = ComputeCheckpointChecksum ?d (length ?p)"
    "\<not> length ?p > ?u - 32 \<longrightarrow> (\<exists>post. block = ?d @ post)"
    "ReadChunkedCheckpointBytes read ?u (total_blocks ?g) ?bs xid btree_magic (length ?p) = ?d"
    by (rule checkpoint_reread [OF win p(6) assms(2,3) btree_bytes_def btree_magic_length assms(5) p(3,4) assms(7)])
  obtain h where h: "?d = h @ ?p" "length h = 32"
    by (rule that [of "take 32 ?d"]) (simp_all add: btree_bytes_def checkpoint_bytes_def header_bytes_def)
  have d: "?d \<noteq> []" using h by auto
  then have "btree_payload read ctx ?g block = (if length ?p > ?u - 32 then ?d else block)"
    using b(2,4,6,9) by (simp add: btree_payload_def kCheckpointHeaderBytes_def Let_def)
  then obtain post where post: "btree_payload read ctx ?g block = ?d @ post" using b(8) by (auto split: if_splits)
  have "read_btree_records (?d @ post) 32 (length rs) = Some (rs, 32 + length ?p)"
    using read_btree_records_bytes [OF p(5), of h post] p(4) h by (simp add: u32_max_def u64_max_def)
  moreover have "ComputeCheckpointChecksum (?d @ post) (length ?p) = ComputeCheckpointChecksum ?d (length ?p)"
    using f(4) [of post] f(4) [of "[]"] f(6) by (simp add: ReadLe32_def)
  moreover obtain t where t: "RebuildCommittedBtreeIndex rs = (True, t)" "committed_table t" "target t = rs"
    using RebuildCommittedBtreeIndex_ok [OF assms(4)] by blast
  moreover have "length ?p mod (u32_max + 1) = length ?p" using p(4) by simp
  ultimately show ?thesis
    using b(1-7) assms(6-8) d CanonicalizeBtreeRecords_committed [OF assms(4)] post
    by (auto simp: LoadBtreeCheckpointBlock_def Let_def kCheckpointHeaderBytes_def kCheckpointChecksumOffset_def
        split: sum.split)
qed

text \<open>
  C38. A commit of B-tree records survives a restart: after pending records were applied to a
  committed table and the result was written as a B-tree checkpoint, the first block of the selected
  slots loads the same records in the same order with exact maps, whether they fit in one block or
  are read back through the chunked windows.  Under every key the loaded table has the last record of
  the key's identity among the old and the pending ones.  The device holds the spans handed to it, no
  other window carries a checkpoint of this transaction, and the tree is consistent.
\<close>

theorem btree_commit_reloads:
  assumes "committed_table t" and "list_all record_ok pending"
    and "ApplyBtreeRecordDeltasWithRestoreLog t pending = (True, t', rlog)"
    and "PersistBtreeCheckpoint flag ctx s (target t') xid = Some spans" and "holds read spans"
    and "sole_window read (geometry s) btree_magic (ResolveBtreeCheckpointBlockIndices ctx (total_blocks (geometry s)))
      xid (btree_slots flag ctx s (target t') xid)"
    and "xid \<le> u64_max" and "CanLoadNativeCheckpointXid c xid" and "32 \<le> block_size (geometry s)"
    and "consistent_tree (target t') []"
  shows "\<exists>block st'. ReadBlockByIndexDirect read (geometry s) (hd (btree_slots flag ctx s (target t') xid)) = Some block \<and>
    LoadBtreeCheckpointBlock read ctx c (geometry s) allow block st = (True, st') \<and>
    committed_table (committed_btree st') \<and> target (committed_btree st') = target t' \<and>
    table_view (committed_btree st') = latest_record (target t @ pending) \<and>
    last_committed_xid st' = later_xid (last_committed_xid st) xid"
proof -
  note cm = assms(1) [unfolded committed_table_def]
  obtain a: "table_ok t'" "table_view t' = fold put_record pending (table_view t)" "sorted (map key_order (target t'))"
    using WithRestoreLog_ok [of t pending] cm assms(2,3) by auto
  have t': "committed_table t'"
    using ApplyBtreeRecordDeltasWithRestoreLog_commits [OF assms(1,2)] assms(3) by simp
  obtain block st' where b: "ReadBlockByIndexDirect read (geometry s) (hd (btree_slots flag ctx s (target t') xid)) = Some block"
    "LoadBtreeCheckpointBlock read ctx c (geometry s) allow block st = (True, st')"
    "committed_table (committed_btree st')" "target (committed_btree st') = target t'"
    "last_committed_xid st' = later_xid (last_committed_xid st) xid"
    using btree_checkpoint_read_back [OF assms(4-6) committed_table_records [OF t'] assms(7-9), of allow st] assms(10)
      TryProject_consistent by blast
  moreover have "table_view (committed_btree st') = latest_record (target t @ pending)"
    using a(2) b(4) fold_put_committed [OF table_ok_uniquely_keyed, of t pending] cm by (simp add: table_view_def)
  ultimately show ?thesis by blast
qed

section \<open>A small tree\<close>

definition tree_ledger :: SpacemanLedger where
  "tree_ledger = small_ledger\<lparr>geometry := (geometry small_ledger)\<lparr>block_size := 80\<rparr>\<rparr>"

definition tree_records :: "BtreeRecord list" where
  "tree_records = [EncodeInodeRecord 16 2 [97] False 0 0 0 9 False, EncodeDirectoryRecord 2 [97] 16 9 False]"

definition empty_tree :: BtreeLoadState where
  "empty_tree = \<lparr>committed_btree = \<lparr>target = [], index_by_key = [], inode_key_by_object_id = []\<rparr>,
     legacy_fixture_fallback_used = False, last_committed_xid = None\<rparr>"

lemma tree_geometry: "block_size (geometry tree_ledger) = 80" "total_blocks (geometry tree_ledger) = 200"
  by (simp_all add: tree_ledger_def small_geometry)

lemma tree_slots: "ResolveBtreeCheckpointBlockIndices small_context 200 = [96, 97, 98, 99]"
proof -
  have t: "(200::nat) = 72 + 128" "(0::nat) < 72" "(200::nat) \<le> u64_max" by (simp_all add: u64_max_def)
  have "ResolveNativeCheckpointBandStartBlock 200 = Some 72" by (simp add: ResolveNativeCheckpointBandStartBlock_Some)
  moreover have "primary_range 200 96 40 = [96..<136]" using primary_range_closed [OF t, of 24 40] by simp
  ultimately show ?thesis
    by (simp add: ResolveBtreeCheckpointBlockIndices_def SelectVolumeCheckpointPartition_def small_context_def
        layout_constants u64_max_def Let_def upt_rec_numeral)
qed

lemma kinds [simp]: "record_kind (EncodeInodeRecord a b c d e f g h i) = InodeKind"
  "record_kind (EncodeDirectoryRecord b c a h i) = DirectoryEntryKind"
  by (simp_all add: EncodeInodeRecord_def EncodeDirectoryRecord_def Let_def)

lemma tree_decoded:
  "DecodeBtreeInodeRecord (EncodeInodeRecord 16 2 [97] False 0 0 0 9 False) =
    Some \<lparr>di_object_id = 16, di_parent_object_id = 2, di_xid = 9, di_is_directory = False, di_logical_size = 0,
      di_data_physical_address = 0, di_timestamp_utc = 0, di_name = [97]\<rparr>"
  "DecodeBtreeDirectoryRecord (EncodeDirectoryRecord 2 [97] 16 9 False) =
    Some \<lparr>dd_parent_object_id = 2, dd_entry_name = [97], dd_child_object_id = 16, dd_xid = 9\<rparr>"
  using decode_inode_encoded [of 16 2 "[97]" False 0 0 0 9 False] decode_directory_encoded [of 2 "[97]" 16 9 False]
  by (auto simp: decode_record_def u64_max_def u32_max_def)

lemma tree_consistent: "consistent_tree tree_records []"
proof -
  have "committed_records tree_records" by code_simp
  then have "distinct (map record_key tree_records)" by (simp add: committed_records_def)
  moreover have "\<forall>r \<in> set tree_records. IsValidKindPrefix r \<and> \<not> record_tombstone r \<and> record_value r \<noteq> []" by code_simp
  ultimately show ?thesis
    using tree_decoded
    by (simp add: consistent_tree_def record_accepted_def tree_records_def decode_record_def tree_inodes_def tree_entries_def
        tree_extents_def extents_of_def map_filter_simps inode_data_ok_def extent_size_def entry_ok_def is_primary_link_def
        primary_entries_def)
qed

lemma tree_sizes:
  "length (record_key (EncodeInodeRecord 16 2 [97] False 0 0 0 9 False)) = 17"
  "length (record_value (EncodeInodeRecord 16 2 [97] False 0 0 0 9 False)) = 34"
  "length (record_key (EncodeDirectoryRecord 2 [97] 16 9 False)) = 15"
  "length (record_value (EncodeDirectoryRecord 2 [97] 16 9 False)) = 17"
  by code_simp+

lemma tree_payload: "length (concat (map record_bytes tree_records)) = 115" "list_all record_fits tree_records"
  by (simp_all add: tree_records_def length_record_bytes tree_sizes record_fits_def u32_max_def)

lemma tree_window: "btree_slots False small_context tree_ledger tree_records 7 = [98, 99]"
proof -
  have "AreNativeCheckpointBlocksWritable False tree_ledger [98, 99]"
    by (simp add: AreNativeCheckpointBlocksWritable_def scan_allocations_def tree_ledger_def small_ledger_def sample_ledger_def
        sample_geometry_def IsNativeCheckpointBandBlock_iff band_blocks_def band_low_def overlaps_linear_def u64_max_def)
  then show ?thesis
    by (simp add: btree_slots_def tree_payload tree_geometry tree_slots SelectWritableChunkedCheckpointBlocks_def small_windows)
qed

lemma tree_persisted:
  "PersistBtreeCheckpoint False small_context tree_ledger tree_records 7 =
     Some [(7840, pad_to 80 (btree_bytes tree_records 7))]"
proof -
  let ?p = "concat (map record_bytes tree_records)"
  have l: "length (btree_bytes tree_records 7) = 147"
    using tree_payload by (simp add: btree_bytes_def checkpoint_bytes_def header_bytes_def)
  have pl: "length (pad_to 80 (btree_bytes tree_records 7)) = 160" by (simp add: pad_to_def l)
  have "AppendSelectedChunkedCheckpointWriteSpans 80 [98, 99] (pad_to 80 (btree_bytes tree_records 7)) =
      Some [(7840, pad_to 80 (btree_bytes tree_records 7))]"
    using pl by (simp add: AppendSelectedChunkedCheckpointWriteSpans_def add64_def u64_max_def Let_def)
  moreover have "PadCheckpointWriteDataToBlockBoundary 80 (btree_bytes tree_records 7) =
      Some (pad_to 80 (btree_bytes tree_records 7))" using l by (intro Pad_eq) auto
  moreover have "append_records ((btree_magic @ le_bytes 8 7 @ le_bytes 4 (length tree_records)) @ replicate 4 0 @ replicate 4 0)
      tree_records = Some ((btree_magic @ le_bytes 8 7 @ le_bytes 4 (length tree_records)) @ replicate 4 0 @ replicate 4 0 @ ?p)"
    using append_records_eq [OF tree_payload(2)] tree_payload(1) by (simp add: u64_max_def)
  moreover have "length tree_records = 2" by (simp add: tree_records_def)
  moreover have "(let block = WriteLe32 ((btree_magic @ le_bytes 8 7 @ le_bytes 4 2) @ replicate 4 0 @ replicate 4 0 @ ?p) 24 115 in
     WriteLe32 block kCheckpointChecksumOffset (ComputeCheckpointChecksum block 115)) = btree_bytes tree_records 7"
    using btree_block [of "btree_magic @ le_bytes 8 7 @ le_bytes 4 2" ?p 115] tree_payload(1) \<open>length tree_records = 2\<close>
    by (simp add: btree_bytes_def checkpoint_bytes_def header_bytes_def)
  ultimately show ?thesis
    using tree_window [unfolded btree_slots_def]
    unfolding PersistBtreeCheckpoint_def Let_def btree_header tree_geometry tree_slots
    by (simp add: tree_payload u64_max_def u32_max_def kCheckpointHeaderBytes_def)
qed

theorem btree_commit_reloads_witness:
  "\<exists>block st'. LoadBtreeCheckpointBlock (image_device [(7840, pad_to 80 (btree_bytes tree_records 7))]) small_context small_load
      (geometry tree_ledger) False block empty_tree = (True, st') \<and>
    target (committed_btree st') = tree_records \<and> last_committed_xid st' = Some 7"
proof -
  let ?span = "(7840, pad_to 80 (btree_bytes tree_records 7))" let ?t = "committed_btree empty_tree"
  have t: "?t = snd (RebuildCommittedBtreeIndex [])"
    by (simp add: empty_tree_def RebuildCommittedBtreeIndex_def)
  have ct: "committed_table ?t" "target ?t = []"
    using RebuildCommittedBtreeIndex_ok [of "[]"] unfolding t by (auto simp: committed_records_def map_filter_simps)
  have ok: "list_all record_ok tree_records" "committed_records tree_records" by code_simp+
  obtain t' rlog where a: "ApplyBtreeRecordDeltasWithRestoreLog ?t tree_records = (True, t', rlog)"
    "target t' = tree_records"
    using ApplyBtreeRecordDeltasWithRestoreLog_canonical [OF ct(1), of tree_records] ok CanonicalizeBtreeRecords_committed
    by (auto simp: ct(2))
  have "window_bytes (image_device [?span]) 80 200 btree_magic 7 2 [96, 97] = None"
    by (auto simp: window_bytes_def ReadOrderedCheckpointWindowBytes_def image_device_def u64_max_def Let_def)
  then have sole: "sole_window (image_device [?span]) (geometry tree_ledger) btree_magic
      (ResolveBtreeCheckpointBlockIndices small_context (total_blocks (geometry tree_ledger))) 7
      (btree_slots False small_context tree_ledger (target t') 7)"
    by (simp add: sole_window_def a(2) tree_window tree_geometry tree_slots small_windows flip: numeral_2_eq_2)
  have "(7::nat) \<le> u64_max" "CanLoadNativeCheckpointXid small_load 7" "32 \<le> block_size (geometry tree_ledger)"
    by (simp_all add: CanLoadNativeCheckpointXid_def small_load_def tree_geometry u64_max_def)
  from btree_commit_reloads [OF ct(1) ok(1) a(1) tree_persisted [folded a(2)] image_device_holds [of ?span, folded a(2)]
      sole [folded a(2)] this, of False empty_tree] tree_consistent
  show ?thesis by (auto simp: a(2) empty_tree_def later_xid_def)
qed

end
