(* ===== verification/CommitBlob.thy ===== *)
theory CommitBlob
  imports BtreeCheckpoint
begin

text \<open>
  The commit blob of \<^verbatim>\<open>src/MetadataStore.cpp\<close>: the pending changes of a commit, written to an extent of
  their own before the checkpoints.  \<^verbatim>\<open>BuildCommitBlob\<close> serializes them,
  \<^verbatim>\<open>ValidateReplayCommitBlobCandidate\<close> tests a blob before the commit goes on, and
  \<^verbatim>\<open>ReplayOrRecover\<close> parses it after a crash.  The reader's tests are those of both functions; they
  differ in their order and in the test for overlaps, which only the validation has.

  Left out are the telemetry members, the reuse of the serialization buffer and the catch of an
  allocation that throws.
\<close>

section \<open>Layout\<close>

definition kCommitBlobBaseHeaderBytes :: nat where "kCommitBlobBaseHeaderBytes = 13 + 8 + 8 + 4 + 4 + 4 + 4 + 4"
definition kCommitBlobChecksumOffset :: nat where "kCommitBlobChecksumOffset = kCommitBlobBaseHeaderBytes"
definition kCommitBlobIdentityOffset :: nat where "kCommitBlobIdentityOffset = kCommitBlobChecksumOffset + 4"
definition kCommitBlobIdentityHexBytes :: nat where "kCommitBlobIdentityHexBytes = 32"
definition kCommitBlobIdentityBytes :: nat where "kCommitBlobIdentityBytes = 8 + 2 * kCommitBlobIdentityHexBytes"
definition kCommitBlobPayloadOffsetV3 :: nat where "kCommitBlobPayloadOffsetV3 = kCommitBlobIdentityOffset"
definition kCommitBlobPayloadOffsetV4 :: nat where
  "kCommitBlobPayloadOffsetV4 = kCommitBlobIdentityOffset + kCommitBlobIdentityBytes"

lemmas blob_offsets = kCommitBlobBaseHeaderBytes_def kCommitBlobChecksumOffset_def kCommitBlobIdentityOffset_def
  kCommitBlobIdentityHexBytes_def kCommitBlobIdentityBytes_def kCommitBlobPayloadOffsetV3_def kCommitBlobPayloadOffsetV4_def

datatype CommitBlobMagicKind = CanonicalV4 | CanonicalV3 | ScaffoldV4 | ScaffoldV3 | ScaffoldV2

fun blob_magic :: "CommitBlobMagicKind \<Rightarrow> byte list" where
  "blob_magic CanonicalV4 = [65, 80, 70, 83, 82, 87, 67, 65, 78, 79, 78, 52, 0]"
| "blob_magic CanonicalV3 = [65, 80, 70, 83, 82, 87, 67, 65, 78, 79, 78, 51, 0]"
| "blob_magic ScaffoldV4 = [65, 80, 70, 83, 82, 87, 83, 67, 65, 70, 70, 52, 0]"
| "blob_magic ScaffoldV3 = [65, 80, 70, 83, 82, 87, 83, 67, 65, 70, 70, 51, 0]"
| "blob_magic ScaffoldV2 = [65, 80, 70, 83, 82, 87, 83, 67, 65, 70, 70, 50, 0]"

text \<open>
  The context of a session; \<open>fixture_image\<close> is the answer of \<^verbatim>\<open>IsFixtureImagePath\<close> on the device path.
\<close>

record CommitContext =
  shared_session :: bool
  volume_object_id :: nat
  container_uuid_hex :: "byte list"
  volume_uuid_hex :: "byte list"
  fixture_image :: bool
  allow_legacy_scaffold_for_fixtures :: bool
  legacy_fallback_used :: bool

definition IsLegacyFixtureFallbackAllowedForCurrentContext :: "CommitContext \<Rightarrow> bool" where
  "IsLegacyFixtureFallbackAllowedForCurrentContext ctx = (allow_legacy_scaffold_for_fixtures ctx \<and> fixture_image ctx)"

definition RequiresCanonicalNonFixtureCommitPath :: "CommitContext \<Rightarrow> bool" where
  "RequiresCanonicalNonFixtureCommitPath ctx = (if fixture_image ctx then False else True)"

definition ShouldAcceptScaffoldCommitBlobForCurrentContext :: "CommitContext \<Rightarrow> bool" where
  "ShouldAcceptScaffoldCommitBlobForCurrentContext ctx =
     (if \<not> fixture_image ctx then False
      else if \<not> IsLegacyFixtureFallbackAllowedForCurrentContext ctx then False
      else legacy_fallback_used ctx \<or> fixture_image ctx)"

definition ShouldUseScaffoldCommitBlobForCurrentContext :: "CommitContext \<Rightarrow> bool" where
  "ShouldUseScaffoldCommitBlobForCurrentContext ctx =
     (if \<not> fixture_image ctx then False
      else IsLegacyFixtureFallbackAllowedForCurrentContext ctx \<and> legacy_fallback_used ctx)"

lemmas scaffold_policy = IsLegacyFixtureFallbackAllowedForCurrentContext_def RequiresCanonicalNonFixtureCommitPath_def
  ShouldAcceptScaffoldCommitBlobForCurrentContext_def ShouldUseScaffoldCommitBlobForCurrentContext_def

text \<open>What a commit has pending; \<open>pending_mutation_count\<close> is \<^verbatim>\<open>pending_mutations_.size()\<close>.\<close>

record PendingCommit =
  pending_mutation_count :: nat
  pending_object_map_updates :: "ApfsObjectMapEntry list"
  pending_spaceman_allocations :: "Extent list"
  pending_spaceman_deallocations :: "Extent list"
  pending_btree_records :: "BtreeRecord list"

definition IsLowerHexIdentity :: "byte list \<Rightarrow> bool" where
  "IsLowerHexIdentity value \<longleftrightarrow> length value = kCommitBlobIdentityHexBytes \<and>
     list_all (\<lambda>ch. 48 \<le> unat ch \<and> unat ch \<le> 57 \<or> 97 \<le> unat ch \<and> unat ch \<le> 102) value"

section \<open>Building a blob\<close>

definition checked_add_size :: "nat \<Rightarrow> nat \<Rightarrow> nat option" where
  "checked_add_size lhs rhs = (if lhs > u64_max - rhs then None else Some (lhs + rhs))"

definition checked_multiply_size :: "nat \<Rightarrow> nat \<Rightarrow> nat option" where
  "checked_multiply_size lhs rhs = (if lhs \<noteq> 0 \<and> rhs > u64_max div lhs then None else Some (lhs * rhs))"

fun reserve_records :: "nat \<Rightarrow> BtreeRecord list \<Rightarrow> nat option" where
  "reserve_records reserve_bytes [] = Some reserve_bytes"
| "reserve_records reserve_bytes (r # rs) =
     do { record_bytes \<leftarrow> checked_add_size 16 (length (record_key r));
          record_bytes \<leftarrow> checked_add_size record_bytes (length (record_value r));
          reserve_bytes \<leftarrow> checked_add_size reserve_bytes record_bytes;
          reserve_records reserve_bytes rs }"

definition align_blob_reserve :: "nat \<Rightarrow> nat \<Rightarrow> nat option" where
  "align_blob_reserve unit n =
     (if unit = 0 then None
      else
        let remainder = n mod unit in
        if remainder = 0 then Some n
        else let padding = unit - remainder in if n > u64_max - padding then None else Some (n + padding))"

text \<open>The size without and with the padding; \<^term>\<open>None\<close> where \<^verbatim>\<open>precise_reserve\<close> is false.\<close>

definition precise_reserve :: "nat \<Rightarrow> nat \<Rightarrow> PendingCommit \<Rightarrow> (nat \<times> nat) option" where
  "precise_reserve unit payload_offset pc =
     do { object_map_bytes \<leftarrow> checked_multiply_size (length (pending_object_map_updates pc)) 32;
          reserve_bytes \<leftarrow> checked_add_size payload_offset object_map_bytes;
          allocation_bytes \<leftarrow> checked_multiply_size (length (pending_spaceman_allocations pc)) 16;
          reserve_bytes \<leftarrow> checked_add_size reserve_bytes allocation_bytes;
          deallocation_bytes \<leftarrow> checked_multiply_size (length (pending_spaceman_deallocations pc)) 16;
          reserve_bytes \<leftarrow> checked_add_size reserve_bytes deallocation_bytes;
          unpadded_blob_bytes \<leftarrow> reserve_records reserve_bytes (pending_btree_records pc);
          aligned_reserve \<leftarrow> align_blob_reserve unit unpadded_blob_bytes;
          Some (unpadded_blob_bytes, max aligned_reserve unit) }"

text \<open>
  The writes of the direct fill, on the blob and the cursor.  Their tests subtract from the size of
  the blob, which wraps around for a field that is longer than the blob.
\<close>

type_synonym fill = "byte list \<times> nat"

definition size_minus :: "byte list \<Rightarrow> nat \<Rightarrow> nat" where
  "size_minus blob n = (if n \<le> length blob then length blob - n else u64_max + 1 + length blob - n)"

definition write_u32 :: "nat \<Rightarrow> fill \<Rightarrow> fill option" where
  "write_u32 value st =
     (let (blob, cursor) = st in
      if cursor > size_minus blob 4 then None else Some (WriteLe32 blob cursor value, cursor + 4))"

definition write_u64 :: "nat \<Rightarrow> fill \<Rightarrow> fill option" where
  "write_u64 value st =
     (let (blob, cursor) = st in
      if cursor > size_minus blob 8 then None else Some (WriteLe64 blob cursor value, cursor + 8))"

definition write_bytes :: "byte list \<Rightarrow> fill \<Rightarrow> fill option" where
  "write_bytes data st =
     (let (blob, cursor) = st in
      if data = [] then Some st
      else if cursor > size_minus blob (length data) then None
      else Some (copy_bytes blob cursor data, cursor + length data))"

fun write_each :: "('a \<Rightarrow> fill \<Rightarrow> fill option) \<Rightarrow> 'a list \<Rightarrow> fill \<Rightarrow> fill option" where
  "write_each f [] st = Some st"
| "write_each f (x # xs) st = do { st \<leftarrow> f x st; write_each f xs st }"

definition write_update :: "ApfsObjectMapEntry \<Rightarrow> fill \<Rightarrow> fill option" where
  "write_update u st =
     do { st \<leftarrow> write_u64 (om_object_id u) st; st \<leftarrow> write_u64 (om_physical_address u) st;
          st \<leftarrow> write_u64 (om_logical_size u) st; write_u64 (om_xid u) st }"

definition write_extent :: "Extent \<Rightarrow> fill \<Rightarrow> fill option" where
  "write_extent e st = do { st \<leftarrow> write_u64 (physical_address e) st; write_u64 (bytes e) st }"

definition write_record :: "BtreeRecord \<Rightarrow> fill \<Rightarrow> fill option" where
  "write_record r st =
     (if length (record_key r) > u32_max \<or> length (record_value r) > u32_max then None
      else do { st \<leftarrow> write_u32 (kind_value (record_kind r)) st;
                st \<leftarrow> write_u32 (if record_tombstone r then 1 else 0) st;
                st \<leftarrow> write_u32 (length (record_key r)) st;
                st \<leftarrow> write_u32 (length (record_value r)) st;
                st \<leftarrow> write_bytes (record_key r) st;
                write_bytes (record_value r) st })"

definition write_header ::
  "CommitContext \<Rightarrow> byte list \<Rightarrow> nat \<Rightarrow> nat \<Rightarrow> PendingCommit \<Rightarrow> byte list \<Rightarrow> byte list" where
  "write_header ctx magic source_xid target_xid pc blob =
     (let blob = write_magic magic blob;
          blob = WriteLe64 blob 13 source_xid;
          blob = WriteLe64 blob 21 target_xid;
          blob = WriteLe32 blob 29 (pending_mutation_count pc);
          blob = WriteLe32 blob 33 (length (pending_object_map_updates pc));
          blob = WriteLe32 blob 37 (length (pending_spaceman_allocations pc));
          blob = WriteLe32 blob 41 (length (pending_spaceman_deallocations pc));
          blob = WriteLe32 blob 45 (length (pending_btree_records pc))
      in if shared_session ctx then
           let blob = WriteLe64 blob kCommitBlobIdentityOffset (volume_object_id ctx);
               blob = copy_bytes blob (kCommitBlobIdentityOffset + 8) (container_uuid_hex ctx)
           in copy_bytes blob (kCommitBlobIdentityOffset + 8 + kCommitBlobIdentityHexBytes) (volume_uuid_hex ctx)
         else blob)"

definition blob_checksum :: "byte list \<Rightarrow> nat \<Rightarrow> nat" where
  "blob_checksum blob payload_bytes =
     unat (UpdateFnv1a fnv_seed (take payload_bytes (drop kCommitBlobIdentityOffset blob)))"

definition direct_fill ::
  "CommitContext \<Rightarrow> byte list \<Rightarrow> nat \<Rightarrow> nat \<Rightarrow> nat \<Rightarrow> PendingCommit \<Rightarrow> nat \<Rightarrow> nat \<Rightarrow> byte list option" where
  "direct_fill ctx magic payload_offset source_xid target_xid pc unpadded_blob_bytes reserve_bytes =
     (if reserve_bytes < payload_offset then None
      else
        let blob = write_header ctx magic source_xid target_xid pc (replicate reserve_bytes 0) in
        do { st \<leftarrow> write_each write_update (pending_object_map_updates pc) (blob, payload_offset);
             st \<leftarrow> write_each write_extent (pending_spaceman_allocations pc) st;
             st \<leftarrow> write_each write_extent (pending_spaceman_deallocations pc) st;
             (blob, cursor) \<leftarrow> write_each write_record (pending_btree_records pc) st;
             if cursor \<noteq> unpadded_blob_bytes \<or> cursor < payload_offset then None
             else Some (WriteLe32 blob kCommitBlobChecksumOffset
                         (blob_checksum blob (cursor - kCommitBlobIdentityOffset))) })"

text \<open>
  The fallback appends.  It is reached with a block size of 0 or sizes beyond
  \<^verbatim>\<open>std::size_t\<close>; the source then divides by the block size, which is not 0 in a loaded container.
\<close>

definition append_update :: "byte list \<Rightarrow> ApfsObjectMapEntry \<Rightarrow> byte list" where
  "append_update blob u =
     AppendLe64 (AppendLe64 (AppendLe64 (AppendLe64 blob (om_object_id u)) (om_physical_address u)) (om_logical_size u)) (om_xid u)"

definition append_extent :: "byte list \<Rightarrow> Extent \<Rightarrow> byte list" where
  "append_extent blob e = AppendLe64 (AppendLe64 blob (physical_address e)) (bytes e)"

definition append_record :: "byte list \<Rightarrow> BtreeRecord \<Rightarrow> byte list" where
  "append_record blob r =
     AppendLe32 (AppendLe32 (AppendLe32 (AppendLe32 blob (kind_value (record_kind r)))
       (if record_tombstone r then 1 else 0)) (length (record_key r))) (length (record_value r)) @
     record_key r @ record_value r"

definition append_fill ::
  "CommitContext \<Rightarrow> byte list \<Rightarrow> nat \<Rightarrow> nat \<Rightarrow> nat \<Rightarrow> nat \<Rightarrow> PendingCommit \<Rightarrow> byte list option" where
  "append_fill ctx magic payload_offset unit source_xid target_xid pc =
     (let blob = AppendLe64 (AppendLe64 magic source_xid) target_xid;
          blob = AppendLe32 blob (pending_mutation_count pc);
          blob = AppendLe32 blob (length (pending_object_map_updates pc));
          blob = AppendLe32 blob (length (pending_spaceman_allocations pc));
          blob = AppendLe32 blob (length (pending_spaceman_deallocations pc));
          blob = AppendLe32 blob (length (pending_btree_records pc));
          blob = AppendLe32 blob 0;
          blob = (if shared_session ctx
                  then AppendLe64 blob (volume_object_id ctx) @ take kCommitBlobIdentityHexBytes (container_uuid_hex ctx) @
                         take kCommitBlobIdentityHexBytes (volume_uuid_hex ctx)
                  else blob);
          blob = foldl append_update blob (pending_object_map_updates pc);
          blob = foldl append_extent blob (pending_spaceman_allocations pc);
          blob = foldl append_extent blob (pending_spaceman_deallocations pc);
          blob = foldl append_record blob (pending_btree_records pc)
      in if length blob < payload_offset then None
         else
           let blob = WriteLe32 blob kCommitBlobChecksumOffset (blob_checksum blob (length blob - kCommitBlobIdentityOffset));
               remainder = length blob mod unit
           in Some (if remainder \<noteq> 0 then blob @ replicate (unit - remainder) 0 else blob))"

definition built_kind :: "CommitContext \<Rightarrow> CommitBlobMagicKind" where
  "built_kind ctx =
     (if shared_session ctx then (if ShouldUseScaffoldCommitBlobForCurrentContext ctx then ScaffoldV4 else CanonicalV4)
      else (if ShouldUseScaffoldCommitBlobForCurrentContext ctx then ScaffoldV3 else CanonicalV3))"

definition BuildCommitBlob :: "CommitContext \<Rightarrow> SpacemanLedger \<Rightarrow> nat \<Rightarrow> nat \<Rightarrow> PendingCommit \<Rightarrow> byte list option" where
  "BuildCommitBlob ctx s checkpoint_xid target_xid pc =
     (if \<not> IsNativeWriteReady s then None
      else if shared_session ctx \<and> (volume_object_id ctx = 0 \<or> \<not> IsLowerHexIdentity (container_uuid_hex ctx) \<or>
                \<not> IsLowerHexIdentity (volume_uuid_hex ctx)) then None
      else
        let payload_offset = (if shared_session ctx then kCommitBlobPayloadOffsetV4 else kCommitBlobPayloadOffsetV3);
            unit = block_size (geometry s);
            magic = blob_magic (built_kind ctx)
        in case precise_reserve unit payload_offset pc of
             Some (unpadded_blob_bytes, reserve_bytes) \<Rightarrow>
               direct_fill ctx magic payload_offset checkpoint_xid target_xid pc unpadded_blob_bytes reserve_bytes
           | None \<Rightarrow> append_fill ctx magic payload_offset unit checkpoint_xid target_xid pc)"

section \<open>Where a blob may be\<close>

definition ValidateCommitBlobLocation :: "StoreGeometry \<Rightarrow> nat \<Rightarrow> nat \<Rightarrow> bool" where
  "ValidateCommitBlobLocation g pa n =
     (if pa = 0 \<or> n < 64 \<or> n > 16 * 1024 * 1024 then False
      else
        let aligned_bytes = AlignExtentBytes g n in
        if aligned_bytes = 0 \<or> aligned_bytes \<noteq> n \<or> pa > u64_max - aligned_bytes then False
        else
          let block_bytes = max 1 (block_size g) in
          if pa mod block_bytes \<noteq> 0 \<or> aligned_bytes mod block_bytes \<noteq> 0 then False
          else if total_blocks g \<noteq> 0 \<and>
                  (block_size g = 0 \<or> total_blocks g > u64_max div block_size g \<or>
                   pa + aligned_bytes > total_blocks g * block_size g) then False
          else \<not> ExtentOverlapsReservedMetadata g pa aligned_bytes)"

section \<open>Reading a blob\<close>

definition detected_magic :: "byte list \<Rightarrow> CommitBlobMagicKind option" where
  "detected_magic commit_blob =
     find (\<lambda>kind. take 13 commit_blob = blob_magic kind) [CanonicalV4, CanonicalV3, ScaffoldV4, ScaffoldV3, ScaffoldV2]"

definition canonical_kind :: "CommitBlobMagicKind \<Rightarrow> bool" where
  "canonical_kind kind \<longleftrightarrow> kind = CanonicalV4 \<or> kind = CanonicalV3"

definition identity_bound :: "CommitBlobMagicKind \<Rightarrow> bool" where
  "identity_bound kind \<longleftrightarrow> kind = CanonicalV4 \<or> kind = ScaffoldV4"

definition has_checksum :: "CommitBlobMagicKind \<Rightarrow> bool" where
  "has_checksum kind \<longleftrightarrow> kind \<noteq> ScaffoldV2"

definition commit_blob_header_bytes :: "CommitBlobMagicKind \<Rightarrow> nat" where
  "commit_blob_header_bytes kind =
     (if identity_bound kind then kCommitBlobPayloadOffsetV4
      else if has_checksum kind then kCommitBlobPayloadOffsetV3
      else kCommitBlobBaseHeaderBytes)"

text \<open>The two tests of the kind, and the test of the volume a blob belongs to.\<close>

definition kind_refused :: "CommitContext \<Rightarrow> CommitBlobMagicKind \<Rightarrow> bool" where
  "kind_refused ctx kind \<longleftrightarrow>
     RequiresCanonicalNonFixtureCommitPath ctx \<and> \<not> canonical_kind kind \<or> \<not> canonical_kind kind \<and> \<not> ShouldAcceptScaffoldCommitBlobForCurrentContext ctx"

definition identity_ok :: "CommitContext \<Rightarrow> CommitBlobMagicKind \<Rightarrow> byte list \<Rightarrow> bool" where
  "identity_ok ctx kind commit_blob =
     (if identity_bound kind then
        let read_identity = (\<lambda>offset. take kCommitBlobIdentityHexBytes (drop offset commit_blob)) in
        shared_session ctx \<and> ReadLe64 commit_blob kCommitBlobIdentityOffset = volume_object_id ctx \<and>
        read_identity (kCommitBlobIdentityOffset + 8) = container_uuid_hex ctx \<and>
        read_identity (kCommitBlobIdentityOffset + 8 + kCommitBlobIdentityHexBytes) = volume_uuid_hex ctx
      else \<not> shared_session ctx)"

text \<open>
  The counts of a blob.  The products and sums of the smallest payload they need fit in 64 bits,
  since the counts have 32, so that the checked arithmetic of the source never fails.
\<close>

definition counts_ok :: "byte list \<Rightarrow> bool" where
  "counts_ok commit_blob \<longleftrightarrow>
     (let mutation_count = ReadLe32 commit_blob 29;
          mutation_component_total = ReadLe32 commit_blob 33 + ReadLe32 commit_blob 37 + ReadLe32 commit_blob 41 +
            ReadLe32 commit_blob 45
      in \<not> (mutation_count = 0 \<or> mutation_component_total = 0 \<or> mutation_count > mutation_component_total))"

definition minimum_payload_bytes :: "byte list \<Rightarrow> nat" where
  "minimum_payload_bytes commit_blob =
     ReadLe32 commit_blob 33 * 32 + ReadLe32 commit_blob 37 * 16 + ReadLe32 commit_blob 41 * 16 + ReadLe32 commit_blob 45 * 17"

fun read_updates :: "byte list \<Rightarrow> nat \<Rightarrow> nat set \<Rightarrow> nat \<Rightarrow> nat \<Rightarrow> ApfsObjectMapEntry list option" where
  "read_updates commit_blob target_xid seen cursor 0 = Some []"
| "read_updates commit_blob target_xid seen cursor (Suc n) =
     (if cursor > length commit_blob \<or> 32 > length commit_blob - cursor then None
      else
        let update = \<lparr>om_object_id = ReadLe64 commit_blob cursor, om_physical_address = ReadLe64 commit_blob (cursor + 8),
                      om_logical_size = ReadLe64 commit_blob (cursor + 16), om_xid = ReadLe64 commit_blob (cursor + 24)\<rparr>
        in if om_object_id update = 0 \<or> om_xid update \<noteq> target_xid \<or>
              (om_physical_address update = 0) \<noteq> (om_logical_size update = 0) then None
           else if om_object_id update \<in> seen then None
           else map_option ((#) update)
                  (read_updates commit_blob target_xid (insert (om_object_id update) seen) (cursor + 32) n))"

fun read_blob_extents :: "(Extent \<Rightarrow> bool) \<Rightarrow> byte list \<Rightarrow> nat \<Rightarrow> nat \<Rightarrow> Extent list option" where
  "read_blob_extents ok commit_blob cursor 0 = Some []"
| "read_blob_extents ok commit_blob cursor (Suc n) =
     (if cursor > length commit_blob \<or> 16 > length commit_blob - cursor then None
      else
        let extent = mk_extent (ReadLe64 commit_blob cursor) (ReadLe64 commit_blob (cursor + 8)) in
        if physical_address extent = 0 \<or> bytes extent = 0 then None
        else if \<not> ok extent then None
        else map_option ((#) extent) (read_blob_extents ok commit_blob (cursor + 16) n))"

definition deallocation_ok :: "StoreGeometry \<Rightarrow> Extent \<Rightarrow> bool" where
  "deallocation_ok g e \<longleftrightarrow>
     (let aligned_bytes = AlignExtentBytes g (bytes e) in \<not> (aligned_bytes = 0 \<or> aligned_bytes \<noteq> bytes e))"

definition allocation_ok :: "StoreGeometry \<Rightarrow> Extent \<Rightarrow> bool" where
  "allocation_ok g e \<longleftrightarrow>
     (let aligned_bytes = AlignExtentBytes g (bytes e) in
      \<not> (aligned_bytes = 0 \<or> aligned_bytes \<noteq> bytes e \<or> ExtentOverlapsReservedMetadata g (physical_address e) (bytes e)))"

text \<open>The records and the cursor behind them; unlike a checkpoint a blob has no record with an empty or foreign key.\<close>

fun read_blob_records :: "byte list \<Rightarrow> nat \<Rightarrow> nat \<Rightarrow> (BtreeRecord list \<times> nat) option" where
  "read_blob_records commit_blob cursor 0 = Some ([], cursor)"
| "read_blob_records commit_blob cursor (Suc n) =
     (if cursor > length commit_blob \<or> 16 > length commit_blob - cursor then None
      else
        let kind = ReadLe32 commit_blob cursor;
            tombstone_flag = ReadLe32 commit_blob (cursor + 4);
            key_size = ReadLe32 commit_blob (cursor + 8);
            value_size = ReadLe32 commit_blob (cursor + 12);
            cursor = cursor + 16
        in case kind_of_value kind of
             None \<Rightarrow> None
           | Some k \<Rightarrow>
               if tombstone_flag > 1 then None
               else
                 let payload_size = key_size + value_size in
                 if payload_size > u64_max - cursor \<or> cursor + payload_size > length commit_blob then None
                 else
                   let r = \<lparr>record_kind = k, record_tombstone = (tombstone_flag \<noteq> 0),
                            record_key = take key_size (drop cursor commit_blob),
                            record_value = take value_size (drop (cursor + key_size) commit_blob)\<rparr>
                   in if record_key r = [] then None
                      else if unat (hd (record_key r)) \<noteq> kind then None
                      else map_option (apfst ((#) r)) (read_blob_records commit_blob (cursor + payload_size) n))"

text \<open>The four loops in a row.\<close>

definition read_components ::
  "StoreGeometry \<Rightarrow> byte list \<Rightarrow> nat \<Rightarrow> nat \<Rightarrow>
     (ApfsObjectMapEntry list \<times> Extent list \<times> Extent list \<times> BtreeRecord list \<times> nat) option" where
  "read_components g commit_blob target_xid cursor =
     do { updates \<leftarrow> read_updates commit_blob target_xid {} cursor (ReadLe32 commit_blob 33);
          cursor \<leftarrow> Some (cursor + ReadLe32 commit_blob 33 * 32);
          allocations \<leftarrow> read_blob_extents (allocation_ok g) commit_blob cursor (ReadLe32 commit_blob 37);
          cursor \<leftarrow> Some (cursor + ReadLe32 commit_blob 37 * 16);
          deallocations \<leftarrow> read_blob_extents (deallocation_ok g) commit_blob cursor (ReadLe32 commit_blob 41);
          cursor \<leftarrow> Some (cursor + ReadLe32 commit_blob 41 * 16);
          (records, cursor) \<leftarrow> read_blob_records commit_blob cursor (ReadLe32 commit_blob 45);
          Some (updates, allocations, deallocations, records, cursor) }"

definition checksum_ok :: "CommitBlobMagicKind \<Rightarrow> byte list \<Rightarrow> nat \<Rightarrow> bool" where
  "checksum_ok kind commit_blob cursor \<longleftrightarrow>
     (has_checksum kind \<longrightarrow>
        ReadLe32 commit_blob kCommitBlobChecksumOffset = blob_checksum commit_blob (cursor - kCommitBlobIdentityOffset))"

definition zero_tail :: "byte list \<Rightarrow> nat \<Rightarrow> bool" where
  "zero_tail commit_blob cursor \<longleftrightarrow> \<not> cursor > length commit_blob \<and> list_all (\<lambda>b. b = 0) (drop cursor commit_blob)"

section \<open>Validation\<close>

text \<open>
  The walk over the sorted allocations and deallocations: an extent that is both allocated and
  released is passed over.  As in the walk over a spaceman state, no progress is made when none of
  the tests holds.
\<close>

partial_function (option) release_walk :: "Extent list \<Rightarrow> Extent list \<Rightarrow> bool option" where
  "release_walk allocations deallocations =
     (case allocations of
        [] \<Rightarrow> Some True
      | a # as \<Rightarrow>
          (case deallocations of
             [] \<Rightarrow> Some True
           | d # ds \<Rightarrow>
               (let allocation_end = physical_address a + bytes a; deallocation_end = physical_address d + bytes d in
                if allocation_end \<le> physical_address d then release_walk as deallocations
                else if deallocation_end \<le> physical_address a then release_walk allocations ds
                else if physical_address a = physical_address d \<and> bytes a = bytes d then release_walk as ds
                else if physical_address a < deallocation_end \<and> physical_address d < allocation_end then Some False
                else release_walk allocations deallocations)))"

text \<open>The test for overlaps sorts its extents and is the one of the spaceman parser.\<close>

definition overlap_free :: "Extent list \<Rightarrow> Extent list \<Rightarrow> bool option" where
  "overlap_free allocations deallocations =
     (case build_normalized allocations of
        None \<Rightarrow> Some False
      | Some as \<Rightarrow>
          (case build_normalized deallocations of
             None \<Rightarrow> Some False
           | Some ds \<Rightarrow> release_walk as ds))"

definition validate_blob :: "CommitContext \<Rightarrow> StoreGeometry \<Rightarrow> byte list \<Rightarrow> nat \<Rightarrow> nat \<Rightarrow> bool option" where
  "validate_blob ctx g commit_blob expected_source_xid expected_target_xid =
     (if length commit_blob < kCommitBlobBaseHeaderBytes then Some False
      else case detected_magic commit_blob of
        None \<Rightarrow> Some False
      | Some kind \<Rightarrow>
          if kind_refused ctx kind then Some False
          else if length commit_blob < commit_blob_header_bytes kind then Some False
          else if ReadLe64 commit_blob 13 \<noteq> expected_source_xid \<or> ReadLe64 commit_blob 21 \<noteq> expected_target_xid then Some False
          else if \<not> identity_ok ctx kind commit_blob then Some False
          else if \<not> counts_ok commit_blob then Some False
          else if minimum_payload_bytes commit_blob > length commit_blob - commit_blob_header_bytes kind then Some False
          else case read_components g commit_blob expected_target_xid (commit_blob_header_bytes kind) of
            None \<Rightarrow> Some False
          | Some (updates, allocations, deallocations, records, cursor) \<Rightarrow>
              map_option (\<lambda>apart. apart \<and> checksum_ok kind commit_blob cursor \<and> zero_tail commit_blob cursor)
                (overlap_free allocations deallocations))"

text \<open>\<^term>\<open>None\<close> is a walk that does not end.\<close>

definition ValidateReplayCommitBlobCandidate ::
  "device_read \<Rightarrow> CommitContext \<Rightarrow> StoreGeometry \<Rightarrow> nat \<Rightarrow> nat \<Rightarrow> nat \<Rightarrow> nat \<Rightarrow> bool option" where
  "ValidateReplayCommitBlobCandidate read ctx g pa n expected_source_xid expected_target_xid =
     (if \<not> ValidateCommitBlobLocation g pa n then Some False
      else case read pa n of
        None \<Rightarrow> Some False
      | Some commit_blob \<Rightarrow>
          if length commit_blob < n then Some False
          else validate_blob ctx g commit_blob expected_source_xid expected_target_xid)"

section \<open>Replay\<close>

datatype ReplayError =
    ReplayXidWindowInvalid | ReplayCommitBlobInvalid | ReplayCommitBlobReadFailed | ScaffoldCommitBlobActive

record ParsedCommit =
  parsed_object_map_updates :: "ApfsObjectMapEntry list"
  parsed_spaceman_allocations :: "Extent list"
  parsed_spaceman_deallocations :: "Extent list"
  parsed_btree_records :: "BtreeRecord list"

definition parse_blob :: "CommitContext \<Rightarrow> StoreGeometry \<Rightarrow> byte list \<Rightarrow> nat \<Rightarrow> nat \<Rightarrow> ReplayError + ParsedCommit" where
  "parse_blob ctx g commit_blob on_disk_checkpoint_xid committed_xid =
     (if length commit_blob < kCommitBlobBaseHeaderBytes then Inl ReplayCommitBlobInvalid
      else case detected_magic commit_blob of
        None \<Rightarrow> Inl ReplayCommitBlobInvalid
      | Some kind \<Rightarrow>
          if kind_refused ctx kind then Inl ScaffoldCommitBlobActive
          else if length commit_blob < commit_blob_header_bytes kind then Inl ReplayCommitBlobInvalid
          else
            let target_xid = ReadLe64 commit_blob 21 in
            if \<not> counts_ok commit_blob then Inl ReplayCommitBlobInvalid
            else if ReadLe64 commit_blob 13 \<noteq> on_disk_checkpoint_xid \<or> target_xid \<noteq> committed_xid
            then Inl ReplayCommitBlobInvalid
            else if \<not> identity_ok ctx kind commit_blob then Inl ReplayCommitBlobInvalid
            else if minimum_payload_bytes commit_blob > length commit_blob - commit_blob_header_bytes kind
            then Inl ReplayCommitBlobInvalid
            else case read_components g commit_blob target_xid (commit_blob_header_bytes kind) of
              None \<Rightarrow> Inl ReplayCommitBlobInvalid
            | Some (updates, allocations, deallocations, records, cursor) \<Rightarrow>
                if \<not> checksum_ok kind commit_blob cursor then Inl ReplayCommitBlobInvalid
                else if \<not> zero_tail commit_blob cursor then Inl ReplayCommitBlobInvalid
                else Inr \<lparr>parsed_object_map_updates = updates, parsed_spaceman_allocations = allocations,
                         parsed_spaceman_deallocations = deallocations, parsed_btree_records = records\<rparr>)"

text \<open>
  The part of \<^verbatim>\<open>ReplayOrRecover\<close> between the tests of the recovery state and
  \<^verbatim>\<open>VerifyIntegrity\<close>: the window of transactions, reading the blob and parsing it.
\<close>

definition replay_commit_blob ::
  "device_read \<Rightarrow> CommitContext \<Rightarrow> StoreGeometry \<Rightarrow> nat \<Rightarrow> nat \<Rightarrow> nat \<Rightarrow> nat \<Rightarrow> ReplayError + ParsedCommit" where
  "replay_commit_blob read ctx g on_disk_checkpoint_xid committed_xid pa n =
     (if committed_xid \<le> on_disk_checkpoint_xid then Inl ReplayXidWindowInvalid
      else if committed_xid - on_disk_checkpoint_xid \<noteq> 1 then Inl ReplayXidWindowInvalid
      else if \<not> ValidateCommitBlobLocation g pa n then Inl ReplayCommitBlobInvalid
      else case read pa n of
        None \<Rightarrow> Inl ReplayCommitBlobReadFailed
      | Some commit_blob \<Rightarrow>
          if length commit_blob < n then Inl ReplayCommitBlobReadFailed
          else parse_blob ctx g commit_blob on_disk_checkpoint_xid committed_xid)"

end
