(* ===== verification/CommitBlobBuild.thy ===== *)
theory CommitBlobBuild
  imports CommitBlob
begin

text \<open>
  The bytes of a commit blob, and that the two ways to fill one, in place into a zeroed buffer of the
  computed size and by appending, write the same bytes.
\<close>

section \<open>The bytes of a blob\<close>

definition blob_identity :: "CommitContext \<Rightarrow> byte list" where
  "blob_identity ctx =
     (if shared_session ctx then le_bytes 8 (volume_object_id ctx) @ container_uuid_hex ctx @ volume_uuid_hex ctx else [])"

definition blob_counts :: "nat \<Rightarrow> nat \<Rightarrow> PendingCommit \<Rightarrow> byte list" where
  "blob_counts source_xid target_xid pc =
     le_bytes 8 source_xid @ le_bytes 8 target_xid @ le_bytes 4 (pending_mutation_count pc) @
     le_bytes 4 (length (pending_object_map_updates pc)) @ le_bytes 4 (length (pending_spaceman_allocations pc)) @
     le_bytes 4 (length (pending_spaceman_deallocations pc)) @ le_bytes 4 (length (pending_btree_records pc))"

definition blob_payload :: "PendingCommit \<Rightarrow> byte list" where
  "blob_payload pc =
     concat (map entry_bytes (pending_object_map_updates pc)) @
     concat (map extent_bytes (pending_spaceman_allocations pc)) @
     concat (map extent_bytes (pending_spaceman_deallocations pc)) @
     concat (map record_bytes (pending_btree_records pc))"

definition blob_bytes :: "CommitContext \<Rightarrow> nat \<Rightarrow> nat \<Rightarrow> PendingCommit \<Rightarrow> byte list" where
  "blob_bytes ctx source_xid target_xid pc =
     blob_magic (built_kind ctx) @ blob_counts source_xid target_xid pc @
     le_bytes 4 (unat (UpdateFnv1a fnv_seed (blob_identity ctx @ blob_payload pc))) @ blob_identity ctx @ blob_payload pc"

definition identity_sized :: "CommitContext \<Rightarrow> bool" where
  "identity_sized ctx \<longleftrightarrow> (shared_session ctx \<longrightarrow> length (container_uuid_hex ctx) = 32 \<and> length (volume_uuid_hex ctx) = 32)"

definition built_offset :: "CommitContext \<Rightarrow> nat" where
  "built_offset ctx = (if shared_session ctx then kCommitBlobPayloadOffsetV4 else kCommitBlobPayloadOffsetV3)"

lemma length_blob_magic [simp]: "length (blob_magic kind) = 13" by (cases kind) simp_all

lemma length_blob_counts [simp]: "length (blob_counts a b pc) = 36" by (simp add: blob_counts_def)

lemma length_blob_identity: "identity_sized ctx \<Longrightarrow> length (blob_identity ctx) = built_offset ctx - 53"
  by (auto simp: identity_sized_def blob_identity_def built_offset_def blob_offsets)

lemma built_offset_cases: "built_offset ctx = 53 \<or> built_offset ctx = 125"
  by (auto simp: built_offset_def blob_offsets)

lemma length_blob_payload:
  "length (blob_payload pc) = length (pending_object_map_updates pc) * 32 + length (pending_spaceman_allocations pc) * 16 +
     length (pending_spaceman_deallocations pc) * 16 + length (concat (map record_bytes (pending_btree_records pc)))"
  by (simp add: blob_payload_def)

lemma length_blob_bytes:
  "identity_sized ctx \<Longrightarrow> length (blob_bytes ctx a b pc) = built_offset ctx + length (blob_payload pc)"
  using built_offset_cases [of ctx] by (auto simp: blob_bytes_def length_blob_identity)

section \<open>The two ways to fill a blob\<close>

text \<open>A write that puts given bytes where zeros are, and moves the cursor behind them.\<close>

definition emits :: "(fill \<Rightarrow> fill option) \<Rightarrow> byte list \<Rightarrow> bool" where
  "emits f bs \<longleftrightarrow> (\<forall>pre n. f (pre @ replicate (length bs + n) 0, length pre) =
     Some (pre @ bs @ replicate n 0, length pre + length bs))"

named_theorems emits_intros

lemma emits_u32 [emits_intros]: "emits (write_u32 v) (le_bytes 4 v)"
  using WriteLe32_at [of _ _ "replicate 4 0"]
  by (auto simp: emits_def write_u32_def size_minus_def replicate_add)

lemma emits_u64 [emits_intros]: "emits (write_u64 v) (le_bytes 8 v)"
  using WriteLe64_at [of _ _ "replicate 8 0"]
  by (auto simp: emits_def write_u64_def size_minus_def replicate_add)

lemma emits_bytes [emits_intros]: "emits (write_bytes data) data"
  using append_record_bytes [of _ "[]" data] by (auto simp: emits_def write_bytes_def size_minus_def)

lemma emits_bind:
  assumes "emits f a" and "emits g b" shows "emits (\<lambda>st. do { st \<leftarrow> f st; g st }) (a @ b)"
  unfolding emits_def
proof (intro allI)
  fix pre :: "byte list" and n
  have "f (pre @ replicate (length (a @ b) + n) 0, length pre) =
      Some (pre @ a @ replicate (length b + n) 0, length pre + length a)"
    using assms(1) unfolding emits_def by (metis add.assoc length_append)
  moreover have "g ((pre @ a) @ replicate (length b + n) 0, length (pre @ a)) =
      Some ((pre @ a) @ b @ replicate n 0, length (pre @ a) + length b)"
    using assms(2) unfolding emits_def by blast
  ultimately show "(do { st \<leftarrow> f (pre @ replicate (length (a @ b) + n) 0, length pre); g st }) =
      Some (pre @ (a @ b) @ replicate n 0, length pre + length (a @ b))"
    by simp
qed

lemma emits_each:
  assumes "\<forall>x \<in> set xs. emits (f x) (bs x)" shows "emits (write_each f xs) (concat (map bs xs))"
  using assms
proof (induction xs)
  case Nil
  then show ?case by (simp add: emits_def)
next
  case (Cons x xs)
  then have "emits (\<lambda>st. do { st \<leftarrow> f x st; write_each f xs st }) (bs x @ concat (map bs xs))"
    by (intro emits_bind) auto
  then show ?case by (simp add: emits_def)
qed

lemma emits_update: "emits (write_update u) (entry_bytes u)"
  unfolding write_update_def entry_bytes_def by (intro emits_bind emits_intros)

lemma emits_extent: "emits (write_extent e) (extent_bytes e)"
  unfolding write_extent_def extent_bytes_def by (intro emits_bind emits_intros)

lemma emits_record: "record_fits r \<Longrightarrow> emits (write_record r) (record_bytes r)"
proof -
  assume "record_fits r"
  then have "write_record r = (\<lambda>st. do { st \<leftarrow> write_u32 (kind_value (record_kind r)) st;
                st \<leftarrow> write_u32 (if record_tombstone r then 1 else 0) st;
                st \<leftarrow> write_u32 (length (record_key r)) st;
                st \<leftarrow> write_u32 (length (record_value r)) st;
                st \<leftarrow> write_bytes (record_key r) st;
                write_bytes (record_value r) st })"
    by (auto simp: write_record_def record_fits_def)
  then show ?thesis unfolding record_bytes_def by (simp only:) (intro emits_bind emits_intros)
qed

lemma emits_payload:
  assumes "list_all record_fits (pending_btree_records pc)"
  shows "emits (\<lambda>st. do { st \<leftarrow> write_each write_update (pending_object_map_updates pc) st;
             st \<leftarrow> write_each write_extent (pending_spaceman_allocations pc) st;
             st \<leftarrow> write_each write_extent (pending_spaceman_deallocations pc) st;
             write_each write_record (pending_btree_records pc) st }) (blob_payload pc)"
  unfolding blob_payload_def
  using assms by (intro emits_bind emits_each ballI emits_update emits_extent emits_record) (auto simp: list_all_iff)

text \<open>A record the direct fill refuses.\<close>

lemma write_each_record_Some:
  "write_each write_record rs st = Some st' \<Longrightarrow> list_all record_fits rs"
proof (induction rs arbitrary: st)
  case (Cons r rs)
  then obtain st1 where 1: "write_record r st = Some st1" "write_each write_record rs st1 = Some st'"
    by (auto simp: bind_eq_Some_conv)
  then show ?case using Cons.IH [OF 1(2)] by (auto simp: write_record_def record_fits_def split: if_splits)
qed simp

lemma write_counts:
  fixes pc
  defines "m \<equiv> pending_mutation_count pc" and "a \<equiv> length (pending_object_map_updates pc)"
    and "b \<equiv> length (pending_spaceman_allocations pc)" and "c \<equiv> length (pending_spaceman_deallocations pc)"
    and "d \<equiv> length (pending_btree_records pc)"
  assumes "length magic = 13"
  shows "WriteLe32 (WriteLe32 (WriteLe32 (WriteLe32 (WriteLe32 (WriteLe64 (WriteLe64
     (magic @ replicate 36 0 @ rest) 13 src) 21 tgt) 29 m) 33 a) 37 b) 41 c) 45 d =
     magic @ blob_counts src tgt pc @ rest"
proof -
  let ?z = "\<lambda>n. replicate n (0::byte)" let ?s = "le_bytes 8 src" let ?t = "le_bytes 8 tgt"
  have z: "?z 36 = ?z 8 @ ?z 8 @ ?z 4 @ ?z 4 @ ?z 4 @ ?z 4 @ ?z 4" by (simp flip: replicate_add)
  have 1: "WriteLe64 (magic @ ?z 8 @ q) 13 v = magic @ le_bytes 8 v @ q" for q v
    by (rule WriteLe64_at) (simp_all add: assms)
  have 2: "WriteLe64 (magic @ ?s @ ?z 8 @ q) 21 v = magic @ ?s @ le_bytes 8 v @ q" for q v
    using WriteLe64_at [of "magic @ ?s" 21 "?z 8" q v] assms by simp
  have 3: "WriteLe32 (magic @ ?s @ ?t @ ?z 4 @ q) 29 v = magic @ ?s @ ?t @ le_bytes 4 v @ q" for q v
    using WriteLe32_at [of "magic @ ?s @ ?t" 29 "?z 4" q v] assms by simp
  have 4: "WriteLe32 (magic @ ?s @ ?t @ le_bytes 4 m @ ?z 4 @ q) 33 v = magic @ ?s @ ?t @ le_bytes 4 m @ le_bytes 4 v @ q" for q v
    using WriteLe32_at [of "magic @ ?s @ ?t @ le_bytes 4 m" 33 "?z 4" q v] assms by simp
  have 5: "WriteLe32 (magic @ ?s @ ?t @ le_bytes 4 m @ le_bytes 4 a @ ?z 4 @ q) 37 v =
      magic @ ?s @ ?t @ le_bytes 4 m @ le_bytes 4 a @ le_bytes 4 v @ q" for q v
    using WriteLe32_at [of "magic @ ?s @ ?t @ le_bytes 4 m @ le_bytes 4 a" 37 "?z 4" q v] assms by simp
  have 6: "WriteLe32 (magic @ ?s @ ?t @ le_bytes 4 m @ le_bytes 4 a @ le_bytes 4 b @ ?z 4 @ q) 41 v =
      magic @ ?s @ ?t @ le_bytes 4 m @ le_bytes 4 a @ le_bytes 4 b @ le_bytes 4 v @ q" for q v
    using WriteLe32_at [of "magic @ ?s @ ?t @ le_bytes 4 m @ le_bytes 4 a @ le_bytes 4 b" 41 "?z 4" q v] assms by simp
  have 7: "WriteLe32 (magic @ ?s @ ?t @ le_bytes 4 m @ le_bytes 4 a @ le_bytes 4 b @ le_bytes 4 c @ ?z 4 @ q) 45 v =
      magic @ ?s @ ?t @ le_bytes 4 m @ le_bytes 4 a @ le_bytes 4 b @ le_bytes 4 c @ le_bytes 4 v @ q" for q v
    using WriteLe32_at [of "magic @ ?s @ ?t @ le_bytes 4 m @ le_bytes 4 a @ le_bytes 4 b @ le_bytes 4 c" 45 "?z 4" q v] assms by simp
  show ?thesis
    unfolding z append_assoc 1 2 3 4 5 6 7 blob_counts_def assms(1-5) [symmetric] ..
qed

lemma write_identity:
  assumes "length pre = o1" and "o2 = o1 + 8" and "o3 = o2 + 32" and "length c = 32" and "length v = 32"
  shows "copy_bytes (copy_bytes (WriteLe64 (pre @ replicate (72 + n) 0) o1 i) o2 c) o3 v =
     pre @ (le_bytes 8 i @ c @ v) @ replicate n 0"
proof -
  have z: "replicate (72 + n) (0::byte) = replicate 8 0 @ replicate (64 + n) 0" by (simp flip: replicate_add)
  have 1: "WriteLe64 (pre @ replicate (72 + n) 0) o1 i = pre @ le_bytes 8 i @ replicate (64 + n) 0"
    unfolding z by (rule WriteLe64_at) (simp_all add: assms)
  have 2: "copy_bytes (pre @ le_bytes 8 i @ replicate (64 + n) 0) o2 c = pre @ le_bytes 8 i @ c @ replicate (32 + n) 0"
    using append_record_bytes [of pre "le_bytes 8 i" c "32 + n"] assms by simp
  have 3: "copy_bytes (pre @ le_bytes 8 i @ c @ replicate (32 + n) 0) o3 v = pre @ le_bytes 8 i @ c @ v @ replicate n 0"
    using append_record_bytes [of pre "le_bytes 8 i @ c" v n] assms by (simp add: add.assoc)
  show ?thesis unfolding 1 2 3 by simp
qed

lemma write_header_eq:
  assumes "identity_sized ctx" and "built_offset ctx \<le> reserve"
  shows "write_header ctx (blob_magic kind) src tgt pc (replicate reserve 0) =
     blob_magic kind @ blob_counts src tgt pc @ replicate 4 0 @ blob_identity ctx @ replicate (reserve - built_offset ctx) 0"
proof -
  let ?n = "reserve - built_offset ctx"
  define rest where "rest = replicate 4 (0::byte) @ replicate (built_offset ctx - 53) 0 @ replicate ?n 0"
  have z: "write_magic (blob_magic kind) (replicate reserve 0) = blob_magic kind @ replicate 36 0 @ rest"
    using assms(2) built_offset_cases [of ctx] by (auto simp: write_magic_def rest_def simp flip: replicate_add)
  show ?thesis
  proof (cases "shared_session ctx")
    case False
    then have "rest = replicate 4 0 @ blob_identity ctx @ replicate ?n 0"
      by (simp add: rest_def blob_identity_def built_offset_def blob_offsets)
    then show ?thesis
      using False by (simp only: write_header_def Let_def z write_counts [OF length_blob_magic] if_False append_assoc)
  next
    case True
    have r: "blob_magic kind @ blob_counts src tgt pc @ rest =
        (blob_magic kind @ blob_counts src tgt pc @ replicate 4 0) @ replicate (72 + ?n) 0"
      using True by (simp add: rest_def built_offset_def blob_offsets flip: replicate_add)
    have sized: "length (container_uuid_hex ctx) = 32" "length (volume_uuid_hex ctx) = 32"
      using True assms(1) by (simp_all add: identity_sized_def)
    have o: "kCommitBlobIdentityOffset = 53" "(53::nat) + 8 = 61" "61 + kCommitBlobIdentityHexBytes = 93"
      by (simp_all add: blob_offsets)
    show ?thesis
      unfolding write_header_def Let_def z write_counts [OF length_blob_magic] if_P [OF True] o r
      by (subst write_identity) (simp_all add: sized blob_identity_def True)
  qed
qed

lemma checked_multiply_size_Some: "checked_multiply_size a k = Some c \<Longrightarrow> c = a * k"
  by (simp add: checked_multiply_size_def split: if_splits)

lemma checked_add_size_Some: "checked_add_size a b = Some c \<Longrightarrow> c = a + b"
  by (simp add: checked_add_size_def split: if_splits)

lemma reserve_records_Some:
  "reserve_records n rs = Some m \<Longrightarrow> m = n + length (concat (map record_bytes rs))"
proof (induction rs arbitrary: n)
  case (Cons r rs)
  then obtain a b c where "checked_add_size 16 (length (record_key r)) = Some a" "checked_add_size a (length (record_value r)) = Some b"
      "checked_add_size n b = Some c" "reserve_records c rs = Some m"
    by (auto simp: bind_eq_Some_conv)
  then show ?case using Cons.IH [of c] by (auto dest!: checked_add_size_Some simp: length_record_bytes)
qed simp

lemma align_blob_reserve_Some:
  assumes "align_blob_reserve u n = Some m" shows "0 < u" and "m = (n + u - 1) div u * u"
proof -
  show u: "0 < u" using assms by (auto simp: align_blob_reserve_def split: if_splits)
  define q r where "q = n div u" and "r = n mod u"
  have n: "n = q * u + r" "r < u" using u by (simp_all add: q_def r_def)
  have "m = n + (if r = 0 then 0 else u - r)"
    using assms by (auto simp: align_blob_reserve_def Let_def r_def split: if_splits)
  then show "m = (n + u - 1) div u * u" unfolding n(1) ceil_div [OF n(2)] using n(2) by (auto simp: algebra_simps)
qed

lemma precise_reserve_Some:
  assumes "precise_reserve u (built_offset ctx) pc = Some (n, m)"
  shows "0 < u" and "n = built_offset ctx + length (blob_payload pc)" and "m = (n + u - 1) div u * u"
proof -
  obtain a b c d e f k where s: "checked_multiply_size (length (pending_object_map_updates pc)) 32 = Some a"
      "checked_add_size (built_offset ctx) a = Some b" "checked_multiply_size (length (pending_spaceman_allocations pc)) 16 = Some c"
      "checked_add_size b c = Some d" "checked_multiply_size (length (pending_spaceman_deallocations pc)) 16 = Some e"
      "checked_add_size d e = Some f" "reserve_records f (pending_btree_records pc) = Some n" "align_blob_reserve u n = Some k"
      "m = max k u"
    using assms by (auto simp: precise_reserve_def bind_eq_Some_conv)
  show "0 < u" using align_blob_reserve_Some [OF s(8)] by blast
  show n: "n = built_offset ctx + length (blob_payload pc)"
    using s(1-7) by (auto dest!: checked_add_size_Some checked_multiply_size_Some reserve_records_Some simp: length_blob_payload)
  have "1 \<le> (n + u - 1) div u" using n built_offset_cases [of ctx] \<open>0 < u\<close> by (auto simp: Suc_le_eq div_greater_zero_iff)
  then have "u \<le> (n + u - 1) div u * u" by (metis mult_le_mono1 mult_1)
  then show "m = (n + u - 1) div u * u" using s(9) align_blob_reserve_Some(2) [OF s(8)] by simp
qed

lemma put_checksum:
  assumes "length pre = 49"
  shows "WriteLe32 (pre @ replicate 4 0 @ body @ rest) kCommitBlobChecksumOffset
      (blob_checksum (pre @ replicate 4 0 @ body @ rest) (length body)) =
    pre @ le_bytes 4 (unat (UpdateFnv1a fnv_seed body)) @ body @ rest"
proof -
  have "blob_checksum (pre @ replicate 4 0 @ body @ rest) (length body) = unat (UpdateFnv1a fnv_seed body)"
    using assms by (simp add: blob_checksum_def blob_offsets)
  moreover have "WriteLe32 (pre @ replicate 4 0 @ body @ rest) 49 v = pre @ le_bytes 4 v @ body @ rest" for v
    by (rule WriteLe32_at) (simp_all add: assms)
  ultimately show ?thesis by (simp add: blob_offsets)
qed

lemma direct_fill_eq:
  assumes "identity_sized ctx" and "list_all record_fits (pending_btree_records pc)"
    and n: "n = built_offset ctx + length (blob_payload pc)" and "n \<le> m"
  shows "direct_fill ctx (blob_magic (built_kind ctx)) (built_offset ctx) src tgt pc n m =
    Some (blob_bytes ctx src tgt pc @ replicate (m - n) 0)"
proof -
  let ?pre = "blob_magic (built_kind ctx) @ blob_counts src tgt pc" let ?id = "blob_identity ctx" let ?p = "blob_payload pc"
  let ?h = "?pre @ replicate 4 0 @ ?id"
  have l: "length ?h = built_offset ctx"
    using built_offset_cases [of ctx] by (auto simp: length_blob_identity [OF assms(1)])
  have le: "built_offset ctx \<le> m" "m - built_offset ctx = length ?p + (m - n)" using assms(3,4) by simp_all
  have h: "write_header ctx (blob_magic (built_kind ctx)) src tgt pc (replicate m 0) = ?h @ replicate (length ?p + (m - n)) 0"
    using write_header_eq [OF assms(1) le(1), of "built_kind ctx" src tgt pc] unfolding le(2) by simp
  have "do { st \<leftarrow> write_each write_update (pending_object_map_updates pc) (?h @ replicate (length ?p + (m - n)) 0, built_offset ctx);
             st \<leftarrow> write_each write_extent (pending_spaceman_allocations pc) st;
             st \<leftarrow> write_each write_extent (pending_spaceman_deallocations pc) st;
             write_each write_record (pending_btree_records pc) st } = Some (?h @ ?p @ replicate (m - n) 0, n)"
    using emits_payload [OF assms(2)] unfolding emits_def n by (metis l)
  then obtain s1 s2 s3 where s: "write_each write_update (pending_object_map_updates pc) (?h @ replicate (length ?p + (m - n)) 0, built_offset ctx) = Some s1"
      "write_each write_extent (pending_spaceman_allocations pc) s1 = Some s2"
      "write_each write_extent (pending_spaceman_deallocations pc) s2 = Some s3"
      "write_each write_record (pending_btree_records pc) s3 = Some (?h @ ?p @ replicate (m - n) 0, n)"
    by (auto simp: bind_eq_Some_conv)
  have "n - kCommitBlobIdentityOffset = length (?id @ ?p)"
    using built_offset_cases [of ctx] by (auto simp: n length_blob_identity [OF assms(1)] blob_offsets)
  then have "WriteLe32 (?h @ ?p @ replicate (m - n) 0) kCommitBlobChecksumOffset
      (blob_checksum (?h @ ?p @ replicate (m - n) 0) (n - kCommitBlobIdentityOffset)) =
      blob_bytes ctx src tgt pc @ replicate (m - n) 0"
    using put_checksum [of ?pre "?id @ ?p" "replicate (m - n) 0"] by (simp add: blob_bytes_def)
  then show ?thesis
    unfolding direct_fill_def Let_def h s Option.bind.bind_lunit prod.case using le(1) n by simp
qed

lemma foldl_appends:
  "foldl append_update blob us = blob @ concat (map entry_bytes us)"
  "foldl append_extent blob es = blob @ concat (map extent_bytes es)"
  "foldl append_record blob rs = blob @ concat (map record_bytes rs)"
proof -
  show "foldl append_update blob us = blob @ concat (map entry_bytes us)"
    by (induction us arbitrary: blob) (simp_all add: append_update_def entry_bytes_def AppendLe64_def)
  show "foldl append_extent blob es = blob @ concat (map extent_bytes es)"
    by (induction es arbitrary: blob) (simp_all add: append_extent_def extent_bytes_def AppendLe64_def)
  show "foldl append_record blob rs = blob @ concat (map record_bytes rs)"
    by (induction rs arbitrary: blob) (simp_all add: append_record_def record_bytes_def AppendLe32_def)
qed

lemma pad_to_mod:
  assumes "0 < u"
  shows "pad_to u data = (if length data mod u \<noteq> 0 then data @ replicate (u - length data mod u) 0 else data)"
proof -
  define q r where "q = length data div u" and "r = length data mod u"
  have n: "length data = q * u + r" "r < u" using assms(1) by (simp_all add: q_def r_def)
  have "(length data + u - 1) div u * u - length data = (if r = 0 then 0 else u - r)"
    unfolding n(1) ceil_div [OF n(2)] by (auto simp: algebra_simps)
  then show ?thesis unfolding pad_to_def r_def [symmetric] by simp
qed

lemma append_fill_eq:
  assumes "identity_sized ctx" and "0 < u"
  shows "append_fill ctx (blob_magic (built_kind ctx)) (built_offset ctx) u src tgt pc =
    Some (pad_to u (blob_bytes ctx src tgt pc))"
proof -
  let ?pre = "blob_magic (built_kind ctx) @ blob_counts src tgt pc" let ?id = "blob_identity ctx" let ?p = "blob_payload pc"
  have t: "take kCommitBlobIdentityHexBytes (container_uuid_hex ctx) = container_uuid_hex ctx"
    "take kCommitBlobIdentityHexBytes (volume_uuid_hex ctx) = volume_uuid_hex ctx" if "shared_session ctx"
    using assms(1) that by (simp_all add: identity_sized_def blob_offsets)
  let ?b = "?pre @ replicate 4 0 @ (?id @ ?p) @ []"
  have z: "le_bytes 4 0 = replicate 4 0" by code_simp
  have b: "append_fill ctx (blob_magic (built_kind ctx)) (built_offset ctx) u src tgt pc =
      (if length ?b < built_offset ctx then None
       else let blob = WriteLe32 ?b kCommitBlobChecksumOffset (blob_checksum ?b (length ?b - kCommitBlobIdentityOffset));
               remainder = length blob mod u
           in Some (if remainder \<noteq> 0 then blob @ replicate (u - remainder) 0 else blob))"
  proof (cases "shared_session ctx")
    case True
    show ?thesis
      unfolding append_fill_def Let_def foldl_appends AppendLe64_def AppendLe32_def blob_counts_def blob_identity_def
        blob_payload_def z if_P [OF True] t [OF True] by (simp only: append_assoc append_Nil2)
  next
    case False
    show ?thesis
      unfolding append_fill_def Let_def foldl_appends AppendLe64_def AppendLe32_def blob_counts_def blob_identity_def
        blob_payload_def z if_not_P [OF False] by (simp only: append_assoc append_Nil2 append_Nil)
  qed
  have "length ?b - kCommitBlobIdentityOffset = length (?id @ ?p)" by (simp add: blob_offsets)
  moreover have "\<not> length ?b < built_offset ctx"
    using built_offset_cases [of ctx] by (auto simp: length_blob_identity [OF assms(1)])
  moreover have "WriteLe32 ?b kCommitBlobChecksumOffset (blob_checksum ?b (length (?id @ ?p))) = blob_bytes ctx src tgt pc"
    using put_checksum [of ?pre "?id @ ?p" "[]"] by (simp add: blob_bytes_def)
  ultimately show ?thesis unfolding b using pad_to_mod [OF assms(2)] by (simp add: Let_def)
qed

lemma pad_to_alt: "0 < u \<Longrightarrow> length data = n \<Longrightarrow> data @ replicate ((n + u - 1) div u * u - n) 0 = pad_to u data"
  by (simp add: pad_to_def)

lemma ceil_ge: "0 < u \<Longrightarrow> (n::nat) \<le> (n + u - 1) div u * u"
  using length_pad_to [of u "replicate n (0::byte)"] by (simp add: pad_to_def)

lemma direct_fill_append_fill:
  assumes "identity_sized ctx" and "list_all record_fits (pending_btree_records pc)"
    and "precise_reserve u (built_offset ctx) pc = Some (n, m)"
  shows "direct_fill ctx (blob_magic (built_kind ctx)) (built_offset ctx) src tgt pc n m =
    append_fill ctx (blob_magic (built_kind ctx)) (built_offset ctx) u src tgt pc"
proof -
  note r = precise_reserve_Some [OF assms(3)]
  have "n \<le> m" using ceil_ge [OF r(1)] r(3) by simp
  then show ?thesis
    using direct_fill_eq [OF assms(1,2) r(2)] append_fill_eq [OF assms(1) r(1)]
      pad_to_alt [OF r(1), of "blob_bytes ctx src tgt pc" n] length_blob_bytes [OF assms(1)] r(2,3) by simp
qed

lemma BuildCommitBlob_bytes:
  assumes "BuildCommitBlob ctx s src tgt pc = Some blob" and "0 < block_size (geometry s)"
  shows "identity_sized ctx" and "blob = pad_to (block_size (geometry s)) (blob_bytes ctx src tgt pc)"
proof -
  show sized: "identity_sized ctx"
    using assms(1) by (auto simp: BuildCommitBlob_def IsLowerHexIdentity_def identity_sized_def blob_offsets split: if_splits)
  note af = append_fill_eq [OF sized assms(2)]
  have b: "(case precise_reserve (block_size (geometry s)) (built_offset ctx) pc of
             Some (n, m) \<Rightarrow> direct_fill ctx (blob_magic (built_kind ctx)) (built_offset ctx) src tgt pc n m
           | None \<Rightarrow> append_fill ctx (blob_magic (built_kind ctx)) (built_offset ctx) (block_size (geometry s)) src tgt pc) = Some blob"
    using assms(1) unfolding BuildCommitBlob_def Let_def built_offset_def [symmetric] by (simp split: if_splits)
  show "blob = pad_to (block_size (geometry s)) (blob_bytes ctx src tgt pc)"
  proof (cases "precise_reserve (block_size (geometry s)) (built_offset ctx) pc")
    case None
    then show ?thesis using b af by simp
  next
    case (Some p)
    obtain n m where p: "p = (n, m)" by fastforce
    then have d: "direct_fill ctx (blob_magic (built_kind ctx)) (built_offset ctx) src tgt pc n m = Some blob"
      using b Some by simp
    then have "list_all record_fits (pending_btree_records pc)"
      by (auto simp: direct_fill_def Let_def bind_eq_Some_conv split: if_splits dest: write_each_record_Some)
    then show ?thesis using direct_fill_append_fill [OF sized] Some p d af by fastforce
  qed
qed

end
