(* ===== verification/CommitBlobReplay.thy ===== *)
theory CommitBlobReplay
  imports CommitBlobBuild
begin

text \<open>
  Reading a commit blob: the parser gives the pending changes of a built blob back, and what the
  validation accepts the parser accepts.
\<close>

section \<open>Reading a blob back\<close>

definition update_ok :: "nat \<Rightarrow> ApfsObjectMapEntry \<Rightarrow> bool" where
  "update_ok target_xid u \<longleftrightarrow> entry_bounded u \<and> om_object_id u \<noteq> 0 \<and> om_xid u = target_xid \<and>
     (om_physical_address u = 0 \<longleftrightarrow> om_logical_size u = 0)"

lemma read_updates_bytes:
  assumes "\<forall>u \<in> set us. update_ok t u" and "distinct (map om_object_id us)" and "om_object_id ` set us \<inter> seen = {}"
  shows "read_updates (pre @ concat (map entry_bytes us) @ post) t seen (length pre) (length us) = Some us"
  using assms
proof (induction us arbitrary: pre seen)
  case Nil
  then show ?case by simp
next
  case (Cons u us)
  define all where "all = pre @ entry_bytes u @ concat (map entry_bytes us) @ post"
  have u: "update_ok t u" using Cons.prems by simp
  then have f: "\<lparr>om_object_id = ReadLe64 all (length pre), om_physical_address = ReadLe64 all (length pre + 8),
     om_logical_size = ReadLe64 all (length pre + 16), om_xid = ReadLe64 all (length pre + 24)\<rparr> = u"
    unfolding all_def by (intro entry_fields) (simp add: update_ok_def)
  have "read_updates ((pre @ entry_bytes u) @ concat (map entry_bytes us) @ post) t (insert (om_object_id u) seen)
      (length (pre @ entry_bytes u)) (length us) = Some us"
    using Cons.prems by (intro Cons.IH) auto
  then have "read_updates all t (insert (om_object_id u) seen) (length pre + 32) (length us) = Some us" by (simp add: all_def)
  moreover have "\<not> (length pre > length all \<or> 32 > length all - length pre)" by (simp add: all_def)
  ultimately have "read_updates all t seen (length pre) (Suc (length us)) = Some (u # us)"
    using u Cons.prems(3) unfolding read_updates.simps Let_def f by (auto simp: update_ok_def)
  then show ?case by (simp add: all_def)
qed

lemma read_blob_extents_bytes:
  assumes "\<forall>e \<in> set es. ok e \<and> physical_address e \<noteq> 0 \<and> bytes e \<noteq> 0 \<and> physical_address e \<le> u64_max \<and> bytes e \<le> u64_max"
  shows "read_blob_extents ok (pre @ concat (map extent_bytes es) @ post) (length pre) (length es) = Some es"
  using assms
proof (induction es arbitrary: pre)
  case Nil
  then show ?case by simp
next
  case (Cons e es)
  define all where "all = pre @ extent_bytes e @ concat (map extent_bytes es) @ post"
  have f: "mk_extent (ReadLe64 all (length pre)) (ReadLe64 all (length pre + 8)) = e"
    unfolding all_def using Cons.prems by (intro extent_fields) auto
  have "read_blob_extents ok all (length pre + 16) (length es) = Some es"
    using Cons.IH [of "pre @ extent_bytes e"] Cons.prems by (simp add: all_def)
  moreover have "\<not> (length pre > length all \<or> 16 > length all - length pre)" by (simp add: all_def)
  ultimately have "read_blob_extents ok all (length pre) (Suc (length es)) = Some (e # es)"
    using Cons.prems unfolding read_blob_extents.simps Let_def f by simp
  then show ?case by (simp add: all_def)
qed

lemma read_blob_records_bytes:
  assumes "list_all (\<lambda>r. record_fits r \<and> key_prefix_ok r) rs" and "length pre + length (concat (map record_bytes rs)) \<le> u64_max"
  shows "read_blob_records (pre @ concat (map record_bytes rs) @ post) (length pre) (length rs) =
     Some (rs, length pre + length (concat (map record_bytes rs)))"
  using assms
proof (induction rs arbitrary: pre)
  case Nil
  then show ?case by simp
next
  case (Cons r rs)
  let ?k = "record_key r" let ?v = "record_value r" let ?t = "if record_tombstone r then 1 else 0 :: nat"
  let ?rest = "concat (map record_bytes rs) @ post"
  define all where "all = pre @ record_bytes r @ ?rest"
  have r: "record_fits r" "?k \<noteq> []" "unat (hd ?k) = kind_value (record_kind r)"
    using Cons.prems(1) by (auto simp: key_prefix_ok_def)
  note f = record_fields [OF r(1), of pre ?rest, folded all_def]
  have IH: "read_blob_records all (length pre + 16 + (length ?k + length ?v)) (length rs) =
      Some (rs, length pre + length (concat (map record_bytes (r # rs))))"
    using Cons.IH [of "pre @ record_bytes r"] Cons.prems by (simp add: all_def length_record_bytes add.assoc)
  have room: "\<not> (length ?k + length ?v > u64_max - (length pre + 16) \<or> length pre + 16 + (length ?k + length ?v) > length all)"
    using Cons.prems(2) by (simp add: f(7) length_record_bytes)
  have "\<lparr>record_kind = record_kind r, record_tombstone = (?t \<noteq> 0), record_key = ?k, record_value = ?v\<rparr> = r" "\<not> ?t > 1" by simp_all
  then have "read_blob_records all (length pre) (Suc (length rs)) =
      Some (r # rs, length pre + length (concat (map record_bytes (r # rs))))"
    using f(7) room r(2,3) unfolding read_blob_records.simps Let_def f(1-6) IH
    by (simp only: kind_of_value_kind option.case) simp
  then show ?case by (simp add: all_def)
qed

lemma built_kind_facts:
  "\<not> kind_refused ctx (built_kind ctx)" "identity_bound (built_kind ctx) \<longleftrightarrow> shared_session ctx" "has_checksum (built_kind ctx)"
  "commit_blob_header_bytes (built_kind ctx) = built_offset ctx"
  by (auto simp: kind_refused_def canonical_kind_def identity_bound_def has_checksum_def built_kind_def scaffold_policy
      commit_blob_header_bytes_def built_offset_def)

lemma detected_magic_kind: "take 13 blob = blob_magic kind \<Longrightarrow> detected_magic blob = Some kind"
  by (cases kind) (simp_all add: detected_magic_def)

text \<open>What the pending changes of a commit satisfy, for the transaction they belong to.\<close>

definition pending_ok :: "StoreGeometry \<Rightarrow> nat \<Rightarrow> PendingCommit \<Rightarrow> bool" where
  "pending_ok g target_xid pc \<longleftrightarrow>
     0 < pending_mutation_count pc \<and>
     pending_mutation_count pc \<le> length (pending_object_map_updates pc) + length (pending_spaceman_allocations pc) +
       length (pending_spaceman_deallocations pc) + length (pending_btree_records pc) \<and>
     (\<forall>u \<in> set (pending_object_map_updates pc). update_ok target_xid u) \<and>
     distinct (map om_object_id (pending_object_map_updates pc)) \<and>
     (\<forall>e \<in> set (pending_spaceman_allocations pc). valid_extent e \<and> allocation_ok g e) \<and>
     (\<forall>e \<in> set (pending_spaceman_deallocations pc). valid_extent e \<and> deallocation_ok g e) \<and>
     list_all (\<lambda>r. record_fits r \<and> key_prefix_ok r) (pending_btree_records pc)"

lemma records_min: "list_all key_prefix_ok rs \<Longrightarrow> length rs * 17 \<le> length (concat (map record_bytes rs))"
proof (induction rs)
  case (Cons r rs)
  then have "record_key r \<noteq> []" by (simp add: key_prefix_ok_def)
  then show ?case using Cons by (cases "record_key r") (simp_all add: length_record_bytes)
qed simp

definition built_blob :: "CommitContext \<Rightarrow> StoreGeometry \<Rightarrow> nat \<Rightarrow> nat \<Rightarrow> PendingCommit \<Rightarrow> nat \<Rightarrow> byte list \<Rightarrow> bool" where
  "built_blob ctx g src tgt pc k blob \<longleftrightarrow> identity_sized ctx \<and> pending_ok g tgt pc \<and> src \<le> u64_max \<and> tgt \<le> u64_max \<and>
     volume_object_id ctx \<le> u64_max \<and> length (blob_bytes ctx src tgt pc) \<le> u32_max \<and>
     blob = blob_bytes ctx src tgt pc @ replicate k 0"

lemma built_blob_parts:
  assumes "built_blob ctx g src tgt pc k blob"
  shows "identity_sized ctx" and "pending_ok g tgt pc" and "src \<le> u64_max" and "tgt \<le> u64_max"
    and "volume_object_id ctx \<le> u64_max" and "length (blob_bytes ctx src tgt pc) \<le> u32_max"
    and "blob = blob_magic (built_kind ctx) @ blob_counts src tgt pc @
     le_bytes 4 (unat (UpdateFnv1a fnv_seed (blob_identity ctx @ blob_payload pc))) @ blob_identity ctx @ blob_payload pc @ replicate k 0"
    and "length blob = built_offset ctx + length (blob_payload pc) + k"
  using assms length_blob_bytes [of ctx src tgt pc] by (auto simp: built_blob_def blob_bytes_def)

lemma built_blob_sizes:
  assumes b: "built_blob ctx g src tgt pc k blob"
  shows "length (pending_object_map_updates pc) * 32 + length (pending_spaceman_allocations pc) * 16 +
     length (pending_spaceman_deallocations pc) * 16 + length (pending_btree_records pc) * 17 \<le> length (blob_payload pc)"
  "built_offset ctx + length (blob_payload pc) \<le> u32_max" "pending_mutation_count pc \<le> u32_max"
proof -
  have "list_all key_prefix_ok (pending_btree_records pc)" using built_blob_parts(2) [OF b] by (auto simp: pending_ok_def list_all_iff)
  then show 1: "length (pending_object_map_updates pc) * 32 + length (pending_spaceman_allocations pc) * 16 +
     length (pending_spaceman_deallocations pc) * 16 + length (pending_btree_records pc) * 17 \<le> length (blob_payload pc)"
    using records_min by (simp add: length_blob_payload)
  show 2: "built_offset ctx + length (blob_payload pc) \<le> u32_max" using built_blob_parts(6) [OF b] length_blob_bytes [OF built_blob_parts(1) [OF b]] by simp
  show "pending_mutation_count pc \<le> u32_max" using 1 2 built_blob_parts(2) [OF b] unfolding pending_ok_def by linarith
qed

lemma built_blob_fields:
  assumes b: "built_blob ctx g src tgt pc k blob"
  shows "ReadLe64 blob 13 = src" "ReadLe64 blob 21 = tgt" "ReadLe32 blob 29 = pending_mutation_count pc"
  "ReadLe32 blob 33 = length (pending_object_map_updates pc)" "ReadLe32 blob 37 = length (pending_spaceman_allocations pc)"
  "ReadLe32 blob 41 = length (pending_spaceman_deallocations pc)" "ReadLe32 blob 45 = length (pending_btree_records pc)"
proof -
  let ?m = "blob_magic (built_kind ctx)"
  let ?s = "le_bytes 8 src" let ?t = "le_bytes 8 tgt" let ?n = "le_bytes 4 (pending_mutation_count pc)"
  let ?a = "le_bytes 4 (length (pending_object_map_updates pc))" let ?b = "le_bytes 4 (length (pending_spaceman_allocations pc))"
  let ?c = "le_bytes 4 (length (pending_spaceman_deallocations pc))" let ?d = "le_bytes 4 (length (pending_btree_records pc))"
  obtain rest where e: "blob = ?m @ ?s @ ?t @ ?n @ ?a @ ?b @ ?c @ ?d @ rest" by (simp add: built_blob_parts(7) [OF b] blob_counts_def)
  have n: "length (pending_object_map_updates pc) \<le> u32_max" "length (pending_spaceman_allocations pc) \<le> u32_max"
    "length (pending_spaceman_deallocations pc) \<le> u32_max" "length (pending_btree_records pc) \<le> u32_max"
    using built_blob_sizes(1,2) [OF b] by linarith+
  show "ReadLe64 blob 13 = src" unfolding e by (rule ReadLe64_at) (simp_all add: built_blob_parts(3-5) [OF b])
  show "ReadLe64 blob 21 = tgt" unfolding e using ReadLe64_at [of "?m @ ?s" 21 tgt] built_blob_parts(4) [OF b] by simp
  show "ReadLe32 blob 29 = pending_mutation_count pc" unfolding e using ReadLe32_at [of "?m @ ?s @ ?t" 29] built_blob_sizes(3) [OF b] by simp
  show "ReadLe32 blob 33 = length (pending_object_map_updates pc)"
    unfolding e using ReadLe32_at [of "?m @ ?s @ ?t @ ?n" 33] n(1) by simp
  show "ReadLe32 blob 37 = length (pending_spaceman_allocations pc)"
    unfolding e using ReadLe32_at [of "?m @ ?s @ ?t @ ?n @ ?a" 37] n(2) by simp
  show "ReadLe32 blob 41 = length (pending_spaceman_deallocations pc)"
    unfolding e using ReadLe32_at [of "?m @ ?s @ ?t @ ?n @ ?a @ ?b" 41] n(3) by simp
  show "ReadLe32 blob 45 = length (pending_btree_records pc)"
    unfolding e using ReadLe32_at [of "?m @ ?s @ ?t @ ?n @ ?a @ ?b @ ?c" 45] n(4) by simp
qed

lemma built_blob_header:
  assumes b: "built_blob ctx g src tgt pc k blob"
  shows "detected_magic blob = Some (built_kind ctx)" "length blob = built_offset ctx + length (blob_payload pc) + k"
  "identity_ok ctx (built_kind ctx) blob" "counts_ok blob"
  "\<not> minimum_payload_bytes blob > length blob - built_offset ctx"
proof -
  show "detected_magic blob = Some (built_kind ctx)" by (rule detected_magic_kind) (simp add: built_blob_parts(7) [OF b])
  show l: "length blob = built_offset ctx + length (blob_payload pc) + k" by (simp add: built_blob_parts(8) [OF b] length_blob_bytes [OF built_blob_parts(1) [OF b]])
  show "identity_ok ctx (built_kind ctx) blob"
  proof (cases "shared_session ctx")
    case False
    then show ?thesis by (simp add: identity_ok_def built_kind_facts)
  next
    case True
    let ?c = "le_bytes 4 (unat (UpdateFnv1a fnv_seed (blob_identity ctx @ blob_payload pc)))"
    let ?h = "blob_magic (built_kind ctx) @ blob_counts src tgt pc @ ?c" let ?i = "le_bytes 8 (volume_object_id ctx)"
    have e: "blob = ?h @ ?i @ container_uuid_hex ctx @ volume_uuid_hex ctx @ blob_payload pc @ replicate k 0"
      using True by (simp add: built_blob_parts(7) [OF b] blob_identity_def)
    have s: "length (container_uuid_hex ctx) = 32" "length (volume_uuid_hex ctx) = 32" using built_blob_parts(1) [OF b] True by (simp_all add: identity_sized_def)
    have "ReadLe64 blob 53 = volume_object_id ctx" unfolding e by (rule ReadLe64_at) (simp_all add: built_blob_parts(3-5) [OF b])
    moreover have "take 32 (drop 61 blob) = container_uuid_hex ctx" "take 32 (drop 93 blob) = volume_uuid_hex ctx"
      unfolding e by (simp_all add: s)
    ultimately show ?thesis using True by (simp add: identity_ok_def built_kind_facts blob_offsets)
  qed
  show "counts_ok blob" using built_blob_parts(2) [OF b] by (auto simp: counts_ok_def built_blob_fields [OF b] pending_ok_def Let_def)
  show "\<not> minimum_payload_bytes blob > length blob - built_offset ctx"
    using built_blob_sizes(1) [OF b] by (simp add: minimum_payload_bytes_def built_blob_fields [OF b] l)
qed

lemma built_blob_components:
  assumes b: "built_blob ctx g src tgt pc k blob"
  shows "read_components g blob tgt (built_offset ctx) =
     Some (pending_object_map_updates pc, pending_spaceman_allocations pc, pending_spaceman_deallocations pc,
       pending_btree_records pc, built_offset ctx + length (blob_payload pc))"
proof -
  let ?us = "pending_object_map_updates pc" let ?as = "pending_spaceman_allocations pc"
  let ?ds = "pending_spaceman_deallocations pc" let ?rs = "pending_btree_records pc"
  define h where "h = blob_magic (built_kind ctx) @ blob_counts src tgt pc @
     le_bytes 4 (unat (UpdateFnv1a fnv_seed (blob_identity ctx @ blob_payload pc))) @ blob_identity ctx"
  have e: "blob = h @ concat (map entry_bytes ?us) @ concat (map extent_bytes ?as) @ concat (map extent_bytes ?ds) @
      concat (map record_bytes ?rs) @ replicate k 0"
    by (simp add: built_blob_parts(7) [OF b] h_def blob_payload_def)
  have h: "length h = built_offset ctx"
    using built_offset_cases [of ctx] by (auto simp: h_def length_blob_identity [OF built_blob_parts(1) [OF b]])
  have v: "physical_address e \<noteq> 0 \<and> bytes e \<noteq> 0 \<and> physical_address e \<le> u64_max \<and> bytes e \<le> u64_max" if "valid_extent e" for e
    using that by (auto simp: valid_extent_iff)
  have "read_updates blob tgt {} (built_offset ctx) (length ?us) = Some ?us"
    using read_updates_bytes [of ?us tgt "{}" h] built_blob_parts(2) [OF b] unfolding e h [symmetric] pending_ok_def by simp
  moreover have "read_blob_extents (allocation_ok g) blob (built_offset ctx + length ?us * 32) (length ?as) = Some ?as"
    using read_blob_extents_bytes [of ?as "allocation_ok g" "h @ concat (map entry_bytes ?us)"] built_blob_parts(2) [OF b] v
    unfolding e h [symmetric] pending_ok_def by simp
  moreover have "read_blob_extents (deallocation_ok g) blob (built_offset ctx + length ?us * 32 + length ?as * 16) (length ?ds) = Some ?ds"
    using read_blob_extents_bytes [of ?ds "deallocation_ok g" "h @ concat (map entry_bytes ?us) @ concat (map extent_bytes ?as)"] built_blob_parts(2) [OF b] v
    unfolding e h [symmetric] pending_ok_def by (simp add: add.assoc)
  moreover have "read_blob_records blob (built_offset ctx + length ?us * 32 + length ?as * 16 + length ?ds * 16) (length ?rs) =
      Some (?rs, built_offset ctx + length (blob_payload pc))"
    using read_blob_records_bytes [of ?rs "h @ concat (map entry_bytes ?us) @ concat (map extent_bytes ?as) @
        concat (map extent_bytes ?ds)" "replicate k 0"] built_blob_parts(2) [OF b] built_blob_sizes(2) [OF b]
    unfolding e pending_ok_def length_blob_payload by (simp add: h add.assoc u32_max_def u64_max_def)
  ultimately show ?thesis by (simp add: read_components_def built_blob_fields [OF b])
qed

lemma built_blob_checks:
  assumes b: "built_blob ctx g src tgt pc k blob"
  shows "checksum_ok (built_kind ctx) blob (built_offset ctx + length (blob_payload pc))"
  "zero_tail blob (built_offset ctx + length (blob_payload pc))"
proof -
  let ?i = "blob_identity ctx" let ?p = "blob_payload pc" let ?h = "blob_magic (built_kind ctx) @ blob_counts src tgt pc"
  let ?c = "UpdateFnv1a fnv_seed (?i @ ?p)"
  have e: "blob = ?h @ le_bytes 4 (unat ?c) @ (?i @ ?p) @ replicate k 0" by (simp add: built_blob_parts(7) [OF b])
  have bound: "unat ?c \<le> u32_max"
    using payload_hash_bound [of "[]" "?i @ ?p"] by (simp add: payload_hash_def )
  have "ReadLe32 blob 49 = unat ?c" unfolding e by (rule ReadLe32_at) (use bound in simp_all)
  moreover have "built_offset ctx + length ?p - 53 = length (?i @ ?p)"
    using built_offset_cases [of ctx] by (auto simp: length_blob_identity [OF built_blob_parts(1) [OF b]])
  moreover have "blob_checksum blob (length (?i @ ?p)) = unat ?c" by (simp add: blob_checksum_def blob_offsets built_blob_parts(7) [OF b])
  ultimately show "checksum_ok (built_kind ctx) blob (built_offset ctx + length ?p)"
    by (simp add: checksum_ok_def blob_offsets)
  show "zero_tail blob (built_offset ctx + length ?p)"
    using length_blob_bytes [OF built_blob_parts(1) [OF b], of src tgt pc] by (simp add: zero_tail_def list_all_iff b [unfolded built_blob_def] built_blob_parts(8) [OF b])
qed

lemma built_blob_parsed:
  assumes b: "built_blob ctx g src tgt pc k blob"
  shows "parse_blob ctx g blob src tgt =
     Inr \<lparr>parsed_object_map_updates = pending_object_map_updates pc, parsed_spaceman_allocations = pending_spaceman_allocations pc,
          parsed_spaceman_deallocations = pending_spaceman_deallocations pc, parsed_btree_records = pending_btree_records pc\<rparr>"
  using built_blob_header [OF b] built_offset_cases [of ctx] built_blob_components [OF b] built_blob_checks [OF b]
  by (auto simp: parse_blob_def built_kind_facts built_blob_fields [OF b] Let_def blob_offsets)

lemma built_blob_validated:
  assumes b: "built_blob ctx g src tgt pc k blob"
  shows "validate_blob ctx g blob src tgt = overlap_free (pending_spaceman_allocations pc) (pending_spaceman_deallocations pc)"
  using built_blob_header [OF b] built_offset_cases [of ctx] built_blob_components [OF b] built_blob_checks [OF b]
  by (auto simp: validate_blob_def built_kind_facts built_blob_fields [OF b] Let_def blob_offsets option.map_ident)

section \<open>What validation accepts\<close>

lemma behind_apart_dir: "behind a b \<Longrightarrow> apart a b"
  by (auto simp: behind_def apart_def range_of_def mem_ivl)

lemma extent_eq_iff: "physical_address a = physical_address b \<and> bytes a = bytes b \<longleftrightarrow> a = (b :: Extent)"
  by (cases a; cases b) auto

lemma release_walk_total:
  assumes "\<forall>e \<in> set as. valid_extent e" "sorted_wrt behind as"
    and "\<forall>e \<in> set ds. valid_extent e" "sorted_wrt behind ds"
  shows "release_walk as ds = Some (\<forall>a \<in> set as. \<forall>d \<in> set ds. apart a d \<or> a = d)"
  using assms
proof (induction "length as + length ds" arbitrary: as ds rule: less_induct)
  case less
  show ?case
  proof (cases "as = [] \<or> ds = []")
    case True
    then show ?thesis by (subst release_walk.simps) (auto split: list.split)
  next
    case False
    then obtain a as' d ds' where l: "as = a # as'" "ds = d # ds'" by (meson neq_Nil_conv)
    have v: "valid_extent a" "valid_extent d" using less.prems l by auto
    have da: "apart d d'" "behind d d'" if "d' \<in> set ds'" for d' using that less.prems(4) l behind_apart_dir by auto
    have aa: "apart a a'" "behind a a'" if "a' \<in> set as'" for a' using that less.prems(2) l behind_apart_dir by auto
    have sorted: "sorted_wrt behind as'" "sorted_wrt behind ds'" using less.prems(2,4) l by simp_all
    consider (left) "physical_address a + bytes a \<le> physical_address d"
      | (right) "\<not> physical_address a + bytes a \<le> physical_address d" "physical_address d + bytes d \<le> physical_address a"
      | (same) "a = d" "\<not> physical_address a + bytes a \<le> physical_address d"
      | (hit) "a \<noteq> d" "physical_address d < physical_address a + bytes a" "physical_address a < physical_address d + bytes d"
      by linarith
    then show ?thesis
    proof cases
      case left
      then have "release_walk as ds = release_walk as' ds" unfolding l by (subst release_walk.simps) (simp add: Let_def)
      moreover have "apart a d'" if "d' \<in> set ds" for d'
        using that left da l(2) by (fastforce simp: apart_def range_of_def mem_ivl behind_def)
      ultimately show ?thesis using less.hyps [of as' ds] less.prems l sorted by auto
    next
      case right
      then have "release_walk as ds = release_walk as ds'" unfolding l by (subst release_walk.simps) (simp add: Let_def)
      moreover have "apart a' d" if "a' \<in> set as" for a'
        using that right aa l(1) by (fastforce simp: apart_def range_of_def mem_ivl behind_def)
      ultimately show ?thesis using less.hyps [of as ds'] less.prems l sorted by auto
    next
      case same
      have "\<not> physical_address d + bytes d \<le> physical_address a" using same by simp
      then have "release_walk as ds = release_walk as' ds'"
        unfolding l using same by (subst release_walk.simps) (simp add: Let_def)
      then show ?thesis
        using less.hyps [of as' ds'] less.prems l sorted same(1) da(1) aa(1) apart_sym by auto
    next
      case hit
      then have "release_walk as ds = Some False"
        unfolding l using extent_eq_iff [of a d] by (subst release_walk.simps) (auto simp: Let_def)
      moreover have "max (physical_address a) (physical_address d) \<in> range_of a \<inter> range_of d"
        using hit v by (auto simp: range_of_def mem_ivl valid_extent_iff)
      then have "\<not> apart a d" by (auto simp: apart_def)
      ultimately show ?thesis using hit(1) l by auto
    qed
  qed
qed

lemma overlap_free_iff:
  "overlap_free as ds = Some (list_all valid_extent (as @ ds) \<and> sorted_wrt apart as \<and> sorted_wrt apart ds \<and>
     (\<forall>a \<in> set as. \<forall>d \<in> set ds. apart a d \<or> a = d))"
proof (cases "(\<forall>e \<in> set as. valid_extent e) \<and> sorted_wrt apart as \<and> (\<forall>e \<in> set ds. valid_extent e) \<and> sorted_wrt apart ds")
  case False
  then have "build_normalized as = None \<or> build_normalized ds = None"
    by (metis build_normalized_iff not_Some_eq)
  then show ?thesis using False unfolding overlap_free_def by (auto simp: list_all_iff split: option.split)
next
  case True
  then have n: "build_normalized as = Some (sort_key extent_key as)" "build_normalized ds = Some (sort_key extent_key ds)"
    by (simp_all add: build_normalized_iff)
  then have b: "sorted_wrt behind (sort_key extent_key as)" "sorted_wrt behind (sort_key extent_key ds)"
    by (auto simp: build_normalized_def normalized_loop_eq sorted_extents_loop_iff Let_def split: if_splits)
  show ?thesis
    using release_walk_total [OF _ b(1) _ b(2)] True n by (auto simp: overlap_free_def list_all_iff)
qed

lemma validate_blob_parses:
  assumes "validate_blob ctx g blob src tgt = Some True"
  shows "\<exists>parsed. parse_blob ctx g blob src tgt = Inr parsed \<and>
    overlap_free (parsed_spaceman_allocations parsed) (parsed_spaceman_deallocations parsed) = Some True"
proof -
  obtain kind where k: "detected_magic blob = Some kind" "\<not> length blob < kCommitBlobBaseHeaderBytes" "\<not> kind_refused ctx kind"
      "\<not> length blob < commit_blob_header_bytes kind" "ReadLe64 blob 13 = src" "ReadLe64 blob 21 = tgt" "identity_ok ctx kind blob"
      "counts_ok blob" "\<not> minimum_payload_bytes blob > length blob - commit_blob_header_bytes kind"
    using assms by (auto simp: validate_blob_def split: if_splits option.splits)
  obtain us as ds rs cursor where c: "read_components g blob tgt (commit_blob_header_bytes kind) = Some (us, as, ds, rs, cursor)"
      "overlap_free as ds = Some True" "checksum_ok kind blob cursor" "zero_tail blob cursor"
    using assms k by (auto simp: validate_blob_def split: option.splits prod.splits)
  show ?thesis using k c by (simp add: parse_blob_def Let_def)
qed

end
