(* ===== verification/ReplayCheckpoint.thy ===== *)
theory ReplayCheckpoint
  imports CommitBlobReplay
begin

text \<open>
  The replay checkpoint of \<^verbatim>\<open>src/MetadataStore.cpp\<close>, which names the commit blob of the transaction that
  is being committed, and the recovery of a commit that was interrupted after it was written.
\<close>

section \<open>Writing and loading\<close>

definition replay_magic_v1 :: "byte list" where "replay_magic_v1 = [65, 80, 70, 83, 82, 87, 82, 80, 76, 49, 0, 0]"
definition replay_magic_v2 :: "byte list" where "replay_magic_v2 = [65, 80, 70, 83, 82, 87, 82, 80, 76, 50, 0, 0]"

definition kReplayPayloadBytesV1 :: nat where "kReplayPayloadBytesV1 = 24"
definition kIdentityHexBytes :: nat where "kIdentityHexBytes = 32"
definition kReplayPayloadBytesV2 :: nat where "kReplayPayloadBytesV2 = kReplayPayloadBytesV1 + 8 + 2 * kIdentityHexBytes"

lemmas replay_sizes = kReplayPayloadBytesV1_def kIdentityHexBytes_def kReplayPayloadBytesV2_def

text \<open>
  The block that is written, in the slot of the transaction.  A queued write and a direct write have
  the same tests and the same span.  The validation of the blob always ends (\<open>validation_ends\<close> below), so
  that only its answer matters here.
\<close>

definition replay_block :: "CommitContext \<Rightarrow> nat \<Rightarrow> nat \<Rightarrow> nat \<Rightarrow> nat \<Rightarrow> byte list" where
  "replay_block ctx unit target_xid blob_address blob_size =
     (let payload_bytes = (if shared_session ctx then kReplayPayloadBytesV2 else kReplayPayloadBytesV1);
          block = write_magic (if shared_session ctx then replay_magic_v2 else replay_magic_v1) (replicate unit 0);
          block = WriteLe64 block 12 target_xid;
          block = WriteLe32 block 20 (if shared_session ctx then 2 else 1);
          block = WriteLe32 block 24 payload_bytes;
          block = WriteLe64 block kCheckpointHeaderBytes (target_xid - 1);
          block = WriteLe64 block (kCheckpointHeaderBytes + 8) blob_address;
          block = WriteLe64 block (kCheckpointHeaderBytes + 16) blob_size;
          block = (if shared_session ctx then
                     let block = WriteLe64 block (kCheckpointHeaderBytes + 24) (volume_object_id ctx);
                         block = copy_bytes block (kCheckpointHeaderBytes + 32) (container_uuid_hex ctx)
                     in copy_bytes block (kCheckpointHeaderBytes + 64) (volume_uuid_hex ctx)
                   else block)
      in WriteLe32 block kCheckpointChecksumOffset (ComputeCheckpointChecksum block payload_bytes))"

definition replay_slot :: "SpacemanLedger \<Rightarrow> nat \<Rightarrow> nat" where
  "replay_slot s target_xid =
     (let replay_blocks = ResolveReplayCheckpointBlockIndices (total_blocks (geometry s))
      in replay_blocks ! (target_xid mod length replay_blocks))"

definition PersistReplayCheckpoint ::
  "bool \<Rightarrow> device_read \<Rightarrow> CommitContext \<Rightarrow> SpacemanLedger \<Rightarrow> nat option \<Rightarrow> nat option \<Rightarrow> nat \<Rightarrow> bool \<Rightarrow> WriteSpan list option" where
  "PersistReplayCheckpoint slot_index_enabled read ctx s last_commit_blob_address last_commit_blob_bytes target_xid validate =
     (let g = geometry s;
          replay_blocks = ResolveReplayCheckpointBlockIndices (total_blocks g)
      in if replay_blocks = [] \<or> \<not> AreNativeCheckpointBlocksWritable slot_index_enabled s replay_blocks \<or> target_xid = 0 then None
         else case (last_commit_blob_address, last_commit_blob_bytes) of
           (Some pa, Some n) \<Rightarrow>
             if pa = 0 \<or> n = 0 \<or> \<not> ValidateCommitBlobLocation g pa n then None
             else if validate \<and>
                     ValidateReplayCommitBlobCandidate read ctx g pa n (target_xid - 1) target_xid \<noteq> Some True then None
             else
               let payload_bytes = (if shared_session ctx then kReplayPayloadBytesV2 else kReplayPayloadBytesV1);
                   target_slot = replay_slot s target_xid
               in if shared_session ctx \<and> (volume_object_id ctx = 0 \<or>
                       length (container_uuid_hex ctx) \<noteq> kIdentityHexBytes \<or> length (volume_uuid_hex ctx) \<noteq> kIdentityHexBytes) then None
                  else if kCheckpointHeaderBytes + payload_bytes > block_size g then None
                  else if block_size g = 0 \<or> target_slot = 0 \<or> target_slot > u64_max div block_size g \<or>
                          total_blocks g \<noteq> 0 \<and> target_slot \<ge> total_blocks g then None
                  else Some [(target_slot * block_size g, replay_block ctx (block_size g) target_xid pa n)]
         | _ \<Rightarrow> None)"

text \<open>Target and source transaction, address and size of the blob.\<close>

definition LoadReplayCheckpointBlock :: "CommitContext \<Rightarrow> StoreGeometry \<Rightarrow> byte list \<Rightarrow> (nat \<times> nat \<times> nat \<times> nat) option" where
  "LoadReplayCheckpointBlock ctx g block =
     (if length block < kCheckpointHeaderBytes + kReplayPayloadBytesV1 then None
      else
        let bound = (take 12 block = replay_magic_v2) in
        if \<not> bound \<and> take 12 block \<noteq> replay_magic_v1 then None
        else
          let persisted_xid = ReadLe64 block 12;
              persisted_version = ReadLe32 block 20;
              persisted_payload_bytes = ReadLe32 block 24;
              persisted_checksum = ReadLe32 block kCheckpointChecksumOffset;
              expected_version = (if bound then 2 else 1);
              expected_payload_bytes = (if bound then kReplayPayloadBytesV2 else kReplayPayloadBytesV1)
          in if persisted_xid = 0 \<or> persisted_version \<noteq> expected_version then None
             else if persisted_payload_bytes \<noteq> expected_payload_bytes \<or>
                     length block < kCheckpointHeaderBytes + expected_payload_bytes then None
             else if persisted_checksum = 0 \<or> ComputeCheckpointChecksum block persisted_payload_bytes \<noteq> persisted_checksum then None
             else if \<not> list_all (\<lambda>b. b = 0) (drop (kCheckpointHeaderBytes + expected_payload_bytes) block) then None
             else
               let source_xid = ReadLe64 block kCheckpointHeaderBytes;
                   commit_blob_address = ReadLe64 block (kCheckpointHeaderBytes + 8);
                   commit_blob_bytes = ReadLe64 block (kCheckpointHeaderBytes + 16)
               in if bound \<and> (\<not> shared_session ctx \<or> volume_object_id ctx = 0 \<or>
                       ReadLe64 block (kCheckpointHeaderBytes + 24) \<noteq> volume_object_id ctx \<or>
                       take kIdentityHexBytes (drop (kCheckpointHeaderBytes + 32) block) \<noteq> container_uuid_hex ctx \<or>
                       take kIdentityHexBytes (drop (kCheckpointHeaderBytes + 64) block) \<noteq> volume_uuid_hex ctx) then None
                  else if \<not> bound \<and> shared_session ctx then None
                  else if source_xid \<ge> persisted_xid \<or> source_xid + 1 \<noteq> persisted_xid then None
                  else if \<not> ValidateCommitBlobLocation g commit_blob_address commit_blob_bytes then None
                  else Some (persisted_xid, source_xid, commit_blob_address, commit_blob_bytes))"

section \<open>A replay checkpoint is found again\<close>

definition replay_magic :: "CommitContext \<Rightarrow> byte list" where
  "replay_magic ctx = (if shared_session ctx then replay_magic_v2 else replay_magic_v1)"

definition replay_version :: "CommitContext \<Rightarrow> nat" where "replay_version ctx = (if shared_session ctx then 2 else 1)"

definition replay_payload :: "CommitContext \<Rightarrow> nat \<Rightarrow> nat \<Rightarrow> nat \<Rightarrow> byte list" where
  "replay_payload ctx target_xid pa n = le_bytes 8 (target_xid - 1) @ le_bytes 8 pa @ le_bytes 8 n @ blob_identity ctx"

lemma replay_magic_length [simp]: "length (replay_magic ctx) = 12"
  by (simp add: replay_magic_def replay_magic_v1_def replay_magic_v2_def)

lemma replay_payload_length:
  "identity_sized ctx \<Longrightarrow> length (replay_payload ctx t pa n) = (if shared_session ctx then kReplayPayloadBytesV2 else kReplayPayloadBytesV1)"
  by (auto simp: replay_payload_def blob_identity_def identity_sized_def replay_sizes)

lemma write_replay_fields:
  assumes "length magic = 12"
  shows "WriteLe64 (WriteLe64 (WriteLe64 (WriteLe32 (WriteLe32 (WriteLe64 (magic @ replicate 44 0 @ rest) 12 t) 20 v) 24 l) 32 s) 40 a) 48 n =
     magic @ le_bytes 8 t @ le_bytes 4 v @ le_bytes 4 l @ replicate 4 0 @ le_bytes 8 s @ le_bytes 8 a @ le_bytes 8 n @ rest"
proof -
  let ?z = "\<lambda>n. replicate n (0::byte)" let ?x = "le_bytes 8 t" let ?w = "le_bytes 4 v" let ?l = "le_bytes 4 l"
  have z: "?z 44 = ?z 8 @ ?z 4 @ ?z 4 @ ?z 4 @ ?z 8 @ ?z 8 @ ?z 8" by (simp flip: replicate_add)
  have 1: "WriteLe64 (magic @ ?z 8 @ q) 12 t = magic @ ?x @ q" for q by (rule WriteLe64_at) (simp_all add: assms)
  have 2: "WriteLe32 (magic @ ?x @ ?z 4 @ q) 20 v = magic @ ?x @ ?w @ q" for q
    using WriteLe32_at [of "magic @ ?x" 20 "?z 4" q v] assms by simp
  have 3: "WriteLe32 (magic @ ?x @ ?w @ ?z 4 @ q) 24 l = magic @ ?x @ ?w @ ?l @ q" for q
    using WriteLe32_at [of "magic @ ?x @ ?w" 24 "?z 4" q l] assms by simp
  have 4: "WriteLe64 (magic @ ?x @ ?w @ ?l @ ?z 4 @ ?z 8 @ q) 32 s = magic @ ?x @ ?w @ ?l @ ?z 4 @ le_bytes 8 s @ q" for q
    using WriteLe64_at [of "magic @ ?x @ ?w @ ?l @ ?z 4" 32 "?z 8" q s] assms by simp
  have 5: "WriteLe64 (magic @ ?x @ ?w @ ?l @ ?z 4 @ le_bytes 8 s @ ?z 8 @ q) 40 a =
      magic @ ?x @ ?w @ ?l @ ?z 4 @ le_bytes 8 s @ le_bytes 8 a @ q" for q
    using WriteLe64_at [of "magic @ ?x @ ?w @ ?l @ ?z 4 @ le_bytes 8 s" 40 "?z 8" q a] assms by simp
  have 6: "WriteLe64 (magic @ ?x @ ?w @ ?l @ ?z 4 @ le_bytes 8 s @ le_bytes 8 a @ ?z 8 @ q) 48 n =
      magic @ ?x @ ?w @ ?l @ ?z 4 @ le_bytes 8 s @ le_bytes 8 a @ le_bytes 8 n @ q" for q
    using WriteLe64_at [of "magic @ ?x @ ?w @ ?l @ ?z 4 @ le_bytes 8 s @ le_bytes 8 a" 48 "?z 8" q n] assms by simp
  show ?thesis unfolding z append_assoc 1 2 3 4 5 6 ..
qed

lemma replay_block_eq:
  assumes "identity_sized ctx" and "32 + length (replay_payload ctx t pa n) \<le> u"
  shows "replay_block ctx u t pa n =
    checkpoint_bytes (replay_magic ctx) t (replay_version ctx) (length (replay_payload ctx t pa n)) (replay_payload ctx t pa n) @
      replicate (u - 32 - length (replay_payload ctx t pa n)) 0"
proof -
  let ?p = "replay_payload ctx t pa n" let ?m = "replay_magic ctx"
  define r where "r = u - 32 - length ?p"
  define h where "h = ?m @ le_bytes 8 t @ le_bytes 4 (replay_version ctx) @ le_bytes 4 (length ?p) @ replicate 4 0"
  let ?i = "blob_identity ctx" let ?q = "h @ le_bytes 8 (t - 1) @ le_bytes 8 pa @ le_bytes 8 n"
  have u: "u = 12 + (44 + (length ?i + r))" using assms(2) by (simp add: replay_payload_def r_def)
  have z: "write_magic ?m (replicate u 0) = ?m @ replicate 44 0 @ replicate (length ?i + r) 0"
    by (subst u) (simp add: write_magic_def flip: replicate_add)
  have id: "(if shared_session ctx
      then copy_bytes (copy_bytes (WriteLe64 (?q @ replicate (length ?i + r) 0) 56 (volume_object_id ctx)) 64 (container_uuid_hex ctx)) 96
        (volume_uuid_hex ctx)
      else ?q @ replicate (length ?i + r) 0) = h @ ?p @ replicate r 0"
  proof (cases "shared_session ctx")
    case True
    then have sized: "length (container_uuid_hex ctx) = 32" "length (volume_uuid_hex ctx) = 32" "length ?i = 72"
      using assms(1) by (simp_all add: identity_sized_def blob_identity_def)
    have "length ?q = 56" by (simp add: h_def)
    from write_identity [OF this _ _ sized(1,2), of 64 96 r "volume_object_id ctx"] show ?thesis
      using True sized(3) by (simp add: replay_payload_def blob_identity_def)
  qed (simp add: replay_payload_def blob_identity_def)
  let ?g = "header_bytes ?m t (replay_version ctx) (length ?p)"
  have e: "h @ ?p @ replicate r 0 = ?g @ replicate 4 0 @ ?p @ replicate r 0" by (simp add: h_def header_bytes_def)
  have 7: "ComputeCheckpointChecksum (?g @ replicate 4 0 @ ?p @ replicate r 0) (length ?p) = payload_hash ?g ?p"
    by (rule ComputeCheckpointChecksum_bytes) (simp_all add: header_bytes_def)
  have 8: "WriteLe32 (?g @ replicate 4 0 @ ?p @ replicate r 0) 28 v = ?g @ le_bytes 4 v @ ?p @ replicate r 0" for v
    by (rule WriteLe32_at) (simp_all add: header_bytes_def)
  have o: "kCheckpointHeaderBytes = 32" "(32::nat) + 8 = 40" "(32::nat) + 16 = 48" "(32::nat) + 24 = 56" "(32::nat) + 32 = 64"
    "(32::nat) + 64 = 96" "kCheckpointChecksumOffset = 28" by (simp_all add: kCheckpointHeaderBytes_def kCheckpointChecksumOffset_def)
  have q: "?m @ le_bytes 8 t @ le_bytes 4 (replay_version ctx) @ le_bytes 4 (length ?p) @ replicate 4 0 @ le_bytes 8 (t - 1) @
      le_bytes 8 pa @ le_bytes 8 n @ x = ?q @ x" for x by (simp add: h_def)
  show ?thesis
    unfolding replay_block_def Let_def replay_payload_length [OF assms(1), of t pa n, symmetric]
      replay_magic_def [symmetric] replay_version_def [symmetric] o z write_replay_fields [OF replay_magic_length] q id
    unfolding e 7 8 by (simp add: checkpoint_bytes_def r_def)
qed

lemma location_bounds:
  assumes "ValidateCommitBlobLocation g pa n"
  shows "pa \<noteq> 0" and "64 \<le> n" and "n \<le> 16777216" and "pa \<le> u64_max"
  using assms by (auto simp: ValidateCommitBlobLocation_def Let_def split: if_splits)

text \<open>The validation of a blob always ends, although its walk has a branch without progress.\<close>

lemma validation_ends: "ValidateReplayCommitBlobCandidate read ctx g pa n src tgt \<noteq> None"
  using overlap_free_iff
  by (auto simp: ValidateReplayCommitBlobCandidate_def validate_blob_def split: option.splits prod.splits)

definition replay_checksum :: "CommitContext \<Rightarrow> nat \<Rightarrow> nat \<Rightarrow> nat \<Rightarrow> nat" where
  "replay_checksum ctx t pa n =
     (let p = replay_payload ctx t pa n in payload_hash (header_bytes (replay_magic ctx) t (replay_version ctx) (length p)) p)"

lemma LoadReplay_written:
  assumes sized: "identity_sized ctx" and vol: "shared_session ctx \<longrightarrow> volume_object_id ctx \<noteq> 0" "volume_object_id ctx \<le> u64_max"
    and fits: "32 + length (replay_payload ctx t pa n) \<le> u" and t: "0 < t" "t \<le> u64_max"
    and loc: "ValidateCommitBlobLocation g pa n"
  shows "LoadReplayCheckpointBlock ctx g (replay_block ctx u t pa n) =
    (if replay_checksum ctx t pa n = 0 then None else Some (t, t - 1, pa, n))"
proof -
  let ?p = "replay_payload ctx t pa n" let ?z = "replicate (u - 32 - length ?p) (0::byte)"
  define block where "block = replay_block ctx u t pa n"
  have e: "block = checkpoint_bytes (replay_magic ctx) t (replay_version ctx) (length ?p) ?p @ ?z"
    unfolding block_def by (rule replay_block_eq [OF sized fits])
  have pl: "length ?p = (if shared_session ctx then 96 else 24)" using replay_payload_length [OF sized] by (simp add: replay_sizes)
  have b: "replay_version ctx \<le> u32_max" "length ?p \<le> u32_max" by (simp_all add: replay_version_def pl u32_max_def)
  note f0 = checkpoint_fields [OF replay_magic_length [of ctx] t(2) b, where p = ?p]
  note f = f0(1-5) [where post = ?z, folded e] f0(6)
  have sum: "ReadLe32 block 28 = replay_checksum ctx t pa n"
    using f(4) ComputeCheckpointChecksum_bytes [of "header_bytes (replay_magic ctx) t (replay_version ctx) (length ?p)" _ ?p ?z]
    unfolding e by (simp add: checkpoint_bytes_def replay_checksum_def Let_def header_bytes_def)
  define h where "h = header_bytes (replay_magic ctx) t (replay_version ctx) (length ?p) @ le_bytes 4 (replay_checksum ctx t pa n)"
  have h: "length h = 32" by (simp add: h_def header_bytes_def)
  have e2: "block = h @ le_bytes 8 (t - 1) @ le_bytes 8 pa @ le_bytes 8 n @ blob_identity ctx @ ?z"
    by (simp add: e checkpoint_bytes_def h_def replay_checksum_def replay_payload_def Let_def)
  have l: "length block = u" using f(6) fits unfolding e by simp
  have r: "ReadLe64 block 32 = t - 1" "ReadLe64 block 40 = pa" "ReadLe64 block 48 = n"
  proof -
    show "ReadLe64 block 32 = t - 1" unfolding e2 by (rule ReadLe64_at) (use h t in simp_all)
    show "ReadLe64 block 40 = pa" unfolding e2 using ReadLe64_at [of "h @ le_bytes 8 (t - 1)" 40 pa] h location_bounds(4) [OF loc] by simp
    show "ReadLe64 block 48 = n"
      unfolding e2 using ReadLe64_at [of "h @ le_bytes 8 (t - 1) @ le_bytes 8 pa" 48 n] h location_bounds(3) [OF loc]
      by (simp add: u64_max_def)
  qed
  have tail: "list_all (\<lambda>b. b = 0) (drop (32 + length ?p) block)" using f(6) by (simp add: e list_all_iff)
  have id: "ReadLe64 block 56 = volume_object_id ctx" "take 32 (drop 64 block) = container_uuid_hex ctx"
    "take 32 (drop 96 block) = volume_uuid_hex ctx" if s: "shared_session ctx"
  proof -
    let ?q = "h @ le_bytes 8 (t - 1) @ le_bytes 8 pa @ le_bytes 8 n"
    have e3: "block = ?q @ le_bytes 8 (volume_object_id ctx) @ container_uuid_hex ctx @ volume_uuid_hex ctx @ ?z"
      using s by (simp add: e2 blob_identity_def)
    show "ReadLe64 block 56 = volume_object_id ctx" unfolding e3 by (rule ReadLe64_at) (use h vol in simp_all)
    show "take 32 (drop 64 block) = container_uuid_hex ctx" "take 32 (drop 96 block) = volume_uuid_hex ctx"
      using s sized h by (simp_all add: e3 identity_sized_def)
  qed
  have tt: "\<not> t \<le> t - Suc 0" using t by simp
  have m: "replay_magic_v1 \<noteq> replay_magic_v2" by (simp add: replay_magic_v1_def replay_magic_v2_def)
  show ?thesis
    unfolding block_def [symmetric] using l fits pl f(1-5) sum r tail id vol(1) loc t tt m
    by (cases "shared_session ctx")
      (simp_all add: LoadReplayCheckpointBlock_def Let_def replay_magic_def replay_version_def kCheckpointHeaderBytes_def
        kCheckpointChecksumOffset_def replay_sizes)
qed

lemma PersistReplayCheckpoint_spans:
  assumes "PersistReplayCheckpoint flag read ctx s (Some pa) (Some n) t validate = Some spans"
  shows "spans = [(replay_slot s t * block_size (geometry s), replay_block ctx (block_size (geometry s)) t pa n)]"
    and "0 < t" and "ValidateCommitBlobLocation (geometry s) pa n" and "identity_sized ctx"
    and "shared_session ctx \<longrightarrow> volume_object_id ctx \<noteq> 0"
    and "32 + length (replay_payload ctx t pa n) \<le> block_size (geometry s)"
    and "replay_slot s t \<noteq> 0" and "replay_slot s t \<le> u64_max div block_size (geometry s)"
    and "total_blocks (geometry s) \<noteq> 0 \<longrightarrow> replay_slot s t < total_blocks (geometry s)"
    and "validate \<Longrightarrow> ValidateReplayCommitBlobCandidate read ctx (geometry s) pa n (t - 1) t = Some True"
proof -
  note d = assms [unfolded PersistReplayCheckpoint_def Let_def prod.case option.case]
  show "spans = [(replay_slot s t * block_size (geometry s), replay_block ctx (block_size (geometry s)) t pa n)]"
    "0 < t" "ValidateCommitBlobLocation (geometry s) pa n" "shared_session ctx \<longrightarrow> volume_object_id ctx \<noteq> 0"
    "replay_slot s t \<noteq> 0" "replay_slot s t \<le> u64_max div block_size (geometry s)"
    "total_blocks (geometry s) \<noteq> 0 \<longrightarrow> replay_slot s t < total_blocks (geometry s)"
    using d by (auto simp: not_less split: if_splits)
  show "validate \<Longrightarrow> ValidateReplayCommitBlobCandidate read ctx (geometry s) pa n (t - 1) t = Some True"
    using d by (auto split: if_splits)
  show sized: "identity_sized ctx" using d by (auto simp: identity_sized_def replay_sizes split: if_splits)
  show "32 + length (replay_payload ctx t pa n) \<le> block_size (geometry s)"
    unfolding replay_payload_length [OF sized] using d by (auto simp: kCheckpointHeaderBytes_def not_less split: if_splits)
qed

lemma replay_block_length:
  assumes "identity_sized ctx" and "32 + length (replay_payload ctx t pa n) \<le> u"
  shows "length (replay_block ctx u t pa n) = u"
  using assms(2) replay_block_eq [OF assms] by (simp add: checkpoint_bytes_def header_bytes_def)

lemma replay_checkpoint_read_back:
  assumes "PersistReplayCheckpoint flag read' ctx s (Some pa) (Some n) t validate = Some spans" and "holds read spans"
    and "t \<le> u64_max" and "volume_object_id ctx \<le> u64_max"
  shows "\<exists>block. ReadBlockByIndexDirect read (geometry s) (replay_slot s t) = Some block \<and>
    LoadReplayCheckpointBlock ctx (geometry s) block = (if replay_checksum ctx t pa n = 0 then None else Some (t, t - 1, pa, n))"
proof -
  note p = PersistReplayCheckpoint_spans [OF assms(1)]
  let ?u = "block_size (geometry s)" let ?b = "replay_block ctx ?u t pa n"
  have l: "length ?b = ?u" by (rule replay_block_length [OF p(4,6)])
  have "read (replay_slot s t * ?u) ?u = Some ?b"
  proof -
    have "\<forall>i k. i + k \<le> length ?b \<longrightarrow> read (replay_slot s t * ?u + i) k = Some (take k (drop i ?b))"
      using assms(2) p(1) by (simp add: holds_def)
    from this [rule_format, of 0 ?u] show ?thesis using l by simp
  qed
  moreover have "0 < ?u" using p(6) by linarith
  ultimately have "ReadBlockByIndexDirect read (geometry s) (replay_slot s t) = Some ?b"
    using p(7-9) l by (auto simp: ReadBlockByIndexDirect_def)
  then show ?thesis using LoadReplay_written [OF p(4,5) assms(4) p(6,2) assms(3) p(3)] by blast
qed

section \<open>A small commit\<close>

definition replay_ledger :: SpacemanLedger where
  "replay_ledger = small_ledger\<lparr>geometry := (geometry small_ledger)\<lparr>block_size := 256\<rparr>\<rparr>"

definition small_commit :: PendingCommit where
  "small_commit = \<lparr>pending_mutation_count = 2,
     pending_object_map_updates = [\<lparr>om_object_id = 16, om_physical_address = 2560, om_logical_size = 5, om_xid = 7\<rparr>],
     pending_spaceman_allocations = [mk_extent 2560 256], pending_spaceman_deallocations = [mk_extent 3072 256],
     pending_btree_records = [example_record False 5 1]\<rparr>"

definition small_commit_context :: CommitContext where
  "small_commit_context = \<lparr>shared_session = True, volume_object_id = 9, container_uuid_hex = replicate 32 97,
     volume_uuid_hex = replicate 32 98, fixture_image = False,
     allow_legacy_scaffold_for_fixtures = False, legacy_fallback_used = False\<rparr>"

definition small_blob :: "byte list" where
  "small_blob = pad_to 256 (blob_bytes small_commit_context 6 7 small_commit)"

lemma replay_geometry: "block_size (geometry replay_ledger) = 256" "total_blocks (geometry replay_ledger) = 200"
  by (simp_all add: replay_ledger_def small_geometry)

lemma small_commit_sized: "identity_sized small_commit_context" "built_offset small_commit_context = 125"
  by (simp_all add: identity_sized_def small_commit_context_def built_offset_def blob_offsets)

lemma small_commit_built: "BuildCommitBlob small_commit_context replay_ledger 6 7 small_commit = Some small_blob"
proof -
  have r: "precise_reserve 256 125 small_commit = Some (208, 256)"
    by (simp add: precise_reserve_def small_commit_def example_record_def checked_multiply_size_def checked_add_size_def
        align_blob_reserve_def u64_max_def)
  have "list_all record_fits (pending_btree_records small_commit)"
    by (simp add: small_commit_def example_record_def record_fits_def u32_max_def)
  then have "direct_fill small_commit_context (blob_magic (built_kind small_commit_context)) 125 6 7 small_commit 208 256 = Some small_blob"
    using direct_fill_append_fill [OF small_commit_sized(1), of small_commit 256 208 256] append_fill_eq [OF small_commit_sized(1), of 256] r
    unfolding small_commit_sized(2) small_blob_def by simp
  moreover have "IsLowerHexIdentity (container_uuid_hex small_commit_context)" "IsLowerHexIdentity (volume_uuid_hex small_commit_context)"
    by code_simp+
  moreover have "(if shared_session small_commit_context then kCommitBlobPayloadOffsetV4 else kCommitBlobPayloadOffsetV3) = 125"
    by (simp add: small_commit_context_def blob_offsets)
  moreover have "IsNativeWriteReady replay_ledger"
    by (simp add: IsNativeWriteReady_def replay_ledger_def small_ledger_def sample_ledger_def)
  moreover have "volume_object_id small_commit_context \<noteq> 0" by (simp add: small_commit_context_def)
  ultimately show ?thesis using r by (simp only: BuildCommitBlob_def Let_def replay_geometry) simp
qed

lemma small_blob_length: "length small_blob = 256"
proof -
  have "length (blob_bytes small_commit_context 6 7 small_commit) = 208"
    unfolding length_blob_bytes [OF small_commit_sized(1)]
    by (simp add: small_commit_sized length_blob_payload small_commit_def length_record_bytes example_record_def)
  then show ?thesis by (simp add: small_blob_def length_pad_to)
qed

lemma replay_ledger_free: "\<not> ExtentOverlapsReservedMetadata (geometry replay_ledger) (b * 256) 256" if "b \<in> {10, 12, 20}"
  using that
  by (auto simp: replay_ledger_def small_ledger_def sample_ledger_def sample_geometry_def ExtentOverlapsReservedMetadata_def
      reserved_block_def IsReservedMetadataBlock_def matches_offset_block_def ResolveObjectBlockIndex_def u64_max_def Let_def)

lemma small_location: "ValidateCommitBlobLocation (geometry replay_ledger) 5120 256"
  using replay_ledger_free [of 20]
  by (simp add: ValidateCommitBlobLocation_def replay_geometry AlignExtentBytes_def u64_max_def Let_def)

lemma small_commit_ok: "pending_ok (geometry replay_ledger) 7 small_commit"
proof -
  have "allocation_ok (geometry replay_ledger) (mk_extent 2560 256)" "deallocation_ok (geometry replay_ledger) (mk_extent 3072 256)"
    using replay_ledger_free [of 10]
    by (simp_all add: allocation_ok_def deallocation_ok_def replay_geometry AlignExtentBytes_def Let_def)
  then show ?thesis
    by (simp add: pending_ok_def small_commit_def update_ok_def entry_bounded_def valid_extent_iff example_record_def record_fits_def
        key_prefix_ok_def u64_max_def u32_max_def)
qed

lemma small_replay_slots: "ResolveReplayCheckpointBlockIndices 200 = [136, 137]" "replay_slot replay_ledger 7 = 137"
proof -
  have t: "(200::nat) = 72 + 128" "(0::nat) < 72" "(200::nat) \<le> u64_max" by (simp_all add: u64_max_def)
  show r: "ResolveReplayCheckpointBlockIndices 200 = [136, 137]"
    using slot_families_large(5) [OF t] by (simp add: upt_rec_numeral)
  have "(7::nat) mod length [136, 137::nat] = 1" by code_simp
  then show "replay_slot replay_ledger 7 = 137" unfolding replay_slot_def replay_geometry r Let_def by simp
qed

lemma small_replay_persisted:
  "PersistReplayCheckpoint False (\<lambda>_ _. None) small_commit_context replay_ledger (Some 5120) (Some 256) 7 False =
     Some [(35072, replay_block small_commit_context 256 7 5120 256)]"
proof -
  have "AreNativeCheckpointBlocksWritable False replay_ledger [136, 137]"
    by (simp add: AreNativeCheckpointBlocksWritable_def scan_allocations_def replay_ledger_def small_ledger_def sample_ledger_def
        sample_geometry_def IsNativeCheckpointBandBlock_iff band_blocks_def band_low_def overlaps_linear_def u64_max_def)
  then show ?thesis
    by (simp add: PersistReplayCheckpoint_def replay_geometry small_replay_slots small_location Let_def replay_sizes
        kCheckpointHeaderBytes_def small_commit_context_def u64_max_def)
qed


lemma image_device_pair:
  assumes "fst a + length (snd a) \<le> fst b"
  shows "holds (image_device [a, b]) [a, b]"
  using assms by (cases a; cases b) (auto simp: holds_def image_device_def)

section \<open>Recovery of an interrupted commit\<close>

text \<open>
  C22. An interrupted commit is recovered.  The pending changes were serialized and written, and the
  replay checkpoint of the next transaction was written after them; the device holds both.  After a
  restart the block in the slot of the transaction gives the address of the blob, unless its checksum
  happens to be 0, which the loader takes for a missing one; and the blob at that address is parsed
  to exactly the pending object map updates, allocations, deallocations and B-tree records.
\<close>

theorem interrupted_commit_recovered:
  assumes "BuildCommitBlob ctx s xid (xid + 1) pc = Some blob"
    and "pending_ok (geometry s) (xid + 1) pc" and "xid < u64_max" and "volume_object_id ctx \<le> u64_max"
    and "PersistReplayCheckpoint flag read' ctx s (Some pa) (Some (length blob)) (xid + 1) validate = Some spans"
    and "holds read ((pa, blob) # spans)"
  shows "\<exists>block. ReadBlockByIndexDirect read (geometry s) (replay_slot s (xid + 1)) = Some block \<and>
    LoadReplayCheckpointBlock ctx (geometry s) block =
      (if replay_checksum ctx (xid + 1) pa (length blob) = 0 then None else Some (xid + 1, xid, pa, length blob)) \<and>
    replay_commit_blob read ctx (geometry s) xid (xid + 1) pa (length blob) =
      Inr \<lparr>parsed_object_map_updates = pending_object_map_updates pc, parsed_spaceman_allocations = pending_spaceman_allocations pc,
           parsed_spaceman_deallocations = pending_spaceman_deallocations pc, parsed_btree_records = pending_btree_records pc\<rparr>"
proof -
  let ?g = "geometry s" let ?u = "block_size ?g"
  note p = PersistReplayCheckpoint_spans [OF assms(5)]
  have u: "0 < ?u" using p(6) by linarith
  note b = BuildCommitBlob_bytes [OF assms(1) u]
  have blob: "blob = blob_bytes ctx xid (xid + 1) pc @ replicate (length blob - length (blob_bytes ctx xid (xid + 1) pc)) 0"
    using b(2) by (simp add: pad_to_def)
  have "length (blob_bytes ctx xid (xid + 1) pc) \<le> length blob" using blob by (metis length_append le_add1)
  then have "built_blob ctx ?g xid (xid + 1) pc (length blob - length (blob_bytes ctx xid (xid + 1) pc)) blob"
    using b(1) assms(2-4) location_bounds(3) [OF p(3)] blob by (simp add: built_blob_def u32_max_def)
  note parsed = built_blob_parsed [OF this]
  have "read pa (length blob) = Some blob"
  proof -
    have "\<forall>i k. i + k \<le> length blob \<longrightarrow> read (pa + i) k = Some (take k (drop i blob))" using assms(6) by (simp add: holds_def)
    from this [rule_format, of 0 "length blob"] show ?thesis by simp
  qed
  then have "replay_commit_blob read ctx ?g xid (xid + 1) pa (length blob) = parse_blob ctx ?g blob xid (xid + 1)"
    using p(3) by (simp add: replay_commit_blob_def)
  moreover have "holds read spans" using assms(6) by (simp add: holds_def)
  ultimately show ?thesis
    using replay_checkpoint_read_back [OF assms(5) _ _ assms(4), of read] assms(3) parsed
    by (simp only: add_diff_cancel_right') (auto simp del: One_nat_def)
qed


theorem interrupted_commit_recovered_witness:
  "replay_commit_blob (image_device [(5120, small_blob), (35072, replay_block small_commit_context 256 7 5120 256)])
      small_commit_context (geometry replay_ledger) 6 7 5120 256 =
    Inr \<lparr>parsed_object_map_updates = pending_object_map_updates small_commit,
         parsed_spaceman_allocations = [mk_extent 2560 256], parsed_spaceman_deallocations = [mk_extent 3072 256],
         parsed_btree_records = [example_record False 5 1]\<rparr>"
proof -
  have s: "(6::nat) + 1 = 7" "(6::nat) < u64_max" "volume_object_id small_commit_context \<le> u64_max"
    by (simp_all add: u64_max_def small_commit_context_def)
  have h: "holds (image_device [(5120, small_blob), (35072, replay_block small_commit_context 256 7 5120 256)])
      ((5120, small_blob) # [(35072, replay_block small_commit_context 256 7 5120 256)])"
    by (rule image_device_pair) (simp add: small_blob_length)
  show ?thesis
    using interrupted_commit_recovered [of small_commit_context replay_ledger 6 small_commit small_blob, unfolded s(1) small_blob_length,
        OF small_commit_built small_commit_ok s(2,3) small_replay_persisted h]
    by (auto simp: small_commit_def)
qed


text \<open>
  C34. What validation accepts can be replayed: a blob of any content that passes the test before a
  commit goes on is parsed after a crash with the same transactions, its extents are valid, no two
  allocations and no two deallocations share a byte, and an allocation and a deallocation that do are
  the same extent.
\<close>

theorem validated_blob_replays:
  assumes "ValidateReplayCommitBlobCandidate read ctx g pa n xid (xid + 1) = Some True"
  shows "\<exists>parsed. replay_commit_blob read ctx g xid (xid + 1) pa n = Inr parsed \<and>
    list_all valid_extent (parsed_spaceman_allocations parsed @ parsed_spaceman_deallocations parsed) \<and>
    sorted_wrt (\<lambda>a b. range_of a \<inter> range_of b = {}) (parsed_spaceman_allocations parsed) \<and>
    sorted_wrt (\<lambda>a b. range_of a \<inter> range_of b = {}) (parsed_spaceman_deallocations parsed) \<and>
    (\<forall>a \<in> set (parsed_spaceman_allocations parsed). \<forall>d \<in> set (parsed_spaceman_deallocations parsed).
       range_of a \<inter> range_of d = {} \<or> a = d)"
proof -
  obtain blob where b: "ValidateCommitBlobLocation g pa n" "read pa n = Some blob" "\<not> length blob < n"
      "validate_blob ctx g blob xid (xid + 1) = Some True"
    using assms by (auto simp: ValidateReplayCommitBlobCandidate_def split: if_splits option.splits)
  obtain parsed where p: "parse_blob ctx g blob xid (xid + 1) = Inr parsed"
      "overlap_free (parsed_spaceman_allocations parsed) (parsed_spaceman_deallocations parsed) = Some True"
    using validate_blob_parses [OF b(4)] by blast
  then show ?thesis using b overlap_free_iff unfolding replay_commit_blob_def apart_def by auto
qed

theorem validated_blob_replays_witness:
  "\<exists>parsed. replay_commit_blob (image_device [(5120, small_blob)]) small_commit_context (geometry replay_ledger) 6 7 5120 256 = Inr parsed"
proof -
  have blob: "small_blob = blob_bytes small_commit_context 6 7 small_commit @ replicate 48 0"
  proof -
    have "length (blob_bytes small_commit_context 6 7 small_commit) = 208"
      unfolding length_blob_bytes [OF small_commit_sized(1)]
      by (simp add: small_commit_sized length_blob_payload small_commit_def length_record_bytes example_record_def)
    then show ?thesis by (simp add: small_blob_def pad_to_def)
  qed
  then have "length (blob_bytes small_commit_context 6 7 small_commit) \<le> 256" using small_blob_length by (metis length_append le_add1)
  then have "built_blob small_commit_context (geometry replay_ledger) 6 7 small_commit 48 small_blob"
    using small_commit_sized small_commit_ok blob
    by (simp add: built_blob_def u64_max_def u32_max_def) (simp add: small_commit_context_def)
  then have "validate_blob small_commit_context (geometry replay_ledger) small_blob 6 7 = Some True"
    using built_blob_validated by (auto simp: overlap_free_iff small_commit_def valid_extent_iff apart_def range_of_def ivl_def u64_max_def)
  moreover have "image_device [(5120, small_blob)] 5120 256 = Some small_blob" by (simp add: image_device_def small_blob_length)
  ultimately have "ValidateReplayCommitBlobCandidate (image_device [(5120, small_blob)]) small_commit_context
      (geometry replay_ledger) 5120 256 6 (6 + 1) = Some True"
    using small_location by (simp add: ValidateReplayCommitBlobCandidate_def small_blob_length)
  from validated_blob_replays [OF this] show ?thesis by auto
qed

end
