(* ===== verification/SuperblockSwitch.thy ===== *)
theory SuperblockSwitch
  imports CheckpointFamilyReload
begin

text \<open>
  The last step of a commit in \<^verbatim>\<open>src/MetadataStore.cpp\<close>: the superblock with the new transaction is written
  over the one that is not active, with the object checksum of the format.
\<close>

section \<open>The object checksum\<close>

definition kModulus :: nat where "kModulus = u32_max"

fun sum_words :: "nat \<times> nat \<Rightarrow> byte list \<Rightarrow> nat \<times> nat" where
  "sum_words (sum1, sum2) (b0 # b1 # b2 # b3 # bs) =
     (let sum1 = (sum1 + le_value [b0, b1, b2, b3]) mod kModulus; sum2 = (sum2 + sum1) mod kModulus
      in sum_words (sum1, sum2) bs)"
| "sum_words sums bs = sums"

definition ComputeApfsObjectChecksum :: "byte list \<Rightarrow> nat option" where
  "ComputeApfsObjectChecksum block =
     (if length block < 8 + 4 \<or> (length block - 8) mod 4 \<noteq> 0 then None
      else
        let (sum1, sum2) = sum_words (0, 0) (drop 8 block);
            low = kModulus - (sum1 + sum2) mod kModulus;
            high = kModulus - (sum1 + low) mod kModulus
        in Some (high * 2 ^ 32 + low))"

section \<open>Switching superblocks\<close>

definition kSuperblockBytes :: nat where "kSuperblockBytes = 1392"
definition kMagicOffset :: nat where "kMagicOffset = 32"
definition kBlockSizeOffset :: nat where "kBlockSizeOffset = 36"
definition kCheckpointXidOffset :: nat where "kCheckpointXidOffset = 16"
definition kNxsbMagic :: nat where "kNxsbMagic = 1112758350"

text \<open>The members the switch reads and changes.\<close>

record SuperblockState =
  sb_block_size :: nat
  sb_total_blocks :: nat
  sb_container_loaded :: bool
  active_offset :: nat
  alternate_offset :: nat
  active_bytes :: "byte list"

definition resolve_target_offset :: "SuperblockState \<Rightarrow> nat option" where
  "resolve_target_offset st =
     (let candidate = alternate_offset st;
          candidate = (if candidate = active_offset st
                       then (if active_offset st = 0 then sb_block_size st else 0) else candidate)
      in if candidate > u64_max - kSuperblockBytes then None
         else if sb_total_blocks st \<noteq> 0 \<and>
                 (sb_total_blocks st > u64_max div sb_block_size st \<or>
                  candidate + kSuperblockBytes > sb_total_blocks st * sb_block_size st) then None
         else Some candidate)"

text \<open>The bytes the new superblock is made from, and where they come from.\<close>

definition superblock_source :: "device_read \<Rightarrow> SuperblockState \<Rightarrow> (nat \<times> byte list) option" where
  "superblock_source read st =
     (let from = (\<lambda>offset. case read offset (sb_block_size st) of
            None \<Rightarrow> None
          | Some superblock \<Rightarrow> if length superblock < kSuperblockBytes then None else Some (offset, superblock))
      in if length (active_bytes st) \<ge> sb_block_size st then Some (active_offset st, active_bytes st)
         else case from (active_offset st) of
           Some s \<Rightarrow> Some s
         | None \<Rightarrow> from 0)"

text \<open>
  The answer, the new state and the span handed to the device.  \<open>stage_allowed\<close> is the answer of
  \<^verbatim>\<open>AllowCommitStage\<close> and \<open>written\<close> that of \<^verbatim>\<open>device_->Write\<close>.
\<close>

definition PersistCheckpointSuperblock ::
  "device_read \<Rightarrow> bool \<Rightarrow> bool \<Rightarrow> nat \<Rightarrow> SuperblockState \<Rightarrow> bool \<times> SuperblockState \<times> WriteSpan option" where
  "PersistCheckpointSuperblock read stage_allowed written target_xid st =
     (if \<not> sb_container_loaded st then (False, st, None)
      else case resolve_target_offset st of
        None \<Rightarrow> (False, st, None)
      | Some target_offset \<Rightarrow>
          (case superblock_source read st of
             None \<Rightarrow> (False, st, None)
           | Some (source_offset, superblock) \<Rightarrow>
               let superblock = take (sb_block_size st) superblock in
               if ReadLe32 superblock kMagicOffset \<noteq> kNxsbMagic then (False, st, None)
               else if ReadLe32 superblock kBlockSizeOffset \<noteq> sb_block_size st then (False, st, None)
               else if \<not> stage_allowed then (False, st, None)
               else
                 let superblock = WriteLe64 superblock kCheckpointXidOffset target_xid in
                 case ComputeApfsObjectChecksum superblock of
                   None \<Rightarrow> (False, st, None)
                 | Some checksum \<Rightarrow>
                     let superblock = WriteLe64 superblock 0 checksum in
                     if \<not> written then (False, st, Some (target_offset, superblock))
                     else (True, st\<lparr>active_offset := target_offset, alternate_offset := source_offset,
                                    active_bytes := superblock\<rparr>, Some (target_offset, superblock))))"

definition verify_superblock_checkpoint_roundtrip :: "device_read \<Rightarrow> nat \<Rightarrow> SuperblockState \<Rightarrow> bool" where
  "verify_superblock_checkpoint_roundtrip read target_xid st =
     (if \<not> sb_container_loaded st \<or> sb_block_size st = 0 then False
      else if active_offset st > u64_max - kSuperblockBytes then False
      else case read (active_offset st) kSuperblockBytes of
        None \<Rightarrow> False
      | Some superblock \<Rightarrow>
          \<not> length superblock < kSuperblockBytes \<and>
          ReadLe32 superblock kMagicOffset = kNxsbMagic \<and> ReadLe32 superblock kBlockSizeOffset = sb_block_size st \<and>
          ReadLe64 superblock kCheckpointXidOffset = target_xid)"

section \<open>What a switch does\<close>

text \<open>Superblocks start at block boundaries, and the cached bytes are a superblock of one block.\<close>

definition superblocks_aligned :: "SuperblockState \<Rightarrow> bool" where
  "superblocks_aligned st \<longleftrightarrow> 0 < sb_block_size st \<and> sb_block_size st dvd active_offset st \<and> sb_block_size st dvd alternate_offset st"

lemma resolve_target_other:
  assumes "superblocks_aligned st" and "resolve_target_offset st = Some target"
  shows "sb_block_size st dvd target" and "target \<noteq> active_offset st" and "target \<le> u64_max - kSuperblockBytes"
  using assms by (auto simp: superblocks_aligned_def resolve_target_offset_def Let_def split: if_splits)

lemma aligned_apart:
  fixes a b u :: nat
  assumes "u dvd a" "u dvd b" "a \<noteq> b" shows "a + u \<le> b \<or> b + u \<le> a"
proof -
  obtain i j where ij: "a = u * i" "b = u * j" using assms(1,2) by (auto simp: dvd_def)
  then consider "i < j" | "j < i" using assms(3) by fastforce
  then show ?thesis
  proof cases
    case 1
    then have "u * (i + 1) \<le> u * j" by (intro mult_le_mono2) simp
    then show ?thesis using ij by (simp add: algebra_simps)
  next
    case 2
    then have "u * (j + 1) \<le> u * i" by (intro mult_le_mono2) simp
    then show ?thesis using ij by (simp add: algebra_simps)
  qed
qed

lemma superblock_source_cases:
  "superblock_source read st = Some (src, superblock) \<Longrightarrow> src = active_offset st \<or> src = 0"
  by (auto simp: superblock_source_def Let_def split: if_splits option.splits)

lemma WriteLe64_other:
  assumes "off + 8 \<le> length b"
  shows "length (WriteLe64 b off v) = length b"
    and "k + 4 \<le> off \<or> off + 8 \<le> k \<Longrightarrow> ReadLe32 (WriteLe64 b off v) k = ReadLe32 b k"
    and "k + 8 \<le> off \<or> off + 8 \<le> k \<Longrightarrow> ReadLe64 (WriteLe64 b off v) k = ReadLe64 b k"
    and "v \<le> u64_max \<Longrightarrow> ReadLe64 (WriteLe64 b off v) off = v"
proof -
  have e: "WriteLe64 b off v = take off b @ le_bytes 8 v @ drop (off + 8) b" using assms by (simp add: WriteLe64_def)
  show l: "length (WriteLe64 b off v) = length b" using assms by (simp add: e)
  have d: "take n (drop k (WriteLe64 b off v)) = take n (drop k b)" if "k + n \<le> off \<or> off + 8 \<le> k" for k n
    using that
  proof
    assume "k + n \<le> off"
    moreover from this have "take n (drop k (take off b)) = take n (drop k b)" by (simp add: drop_take)
    moreover have "length (take off b) = off" using assms by simp
    ultimately show ?thesis unfolding e by simp
  next
    assume k: "off + 8 \<le> k"
    then have "drop k (WriteLe64 b off v) = drop (k - off - 8) (drop (off + 8) b)" using assms by (simp add: e)
    then show ?thesis using k by simp
  qed
  show "ReadLe32 (WriteLe64 b off v) k = ReadLe32 b k" if "k + 4 \<le> off \<or> off + 8 \<le> k"
    using d [OF that] l by (simp add: ReadLe32_def)
  show "ReadLe64 (WriteLe64 b off v) k = ReadLe64 b k" if "k + 8 \<le> off \<or> off + 8 \<le> k"
    using d [OF that] l by (simp add: ReadLe64_def)
  show "ReadLe64 (WriteLe64 b off v) off = v" if "v \<le> u64_max"
    using that assms ReadLe64_at [of "take off b" off v] by (simp add: e)
qed


lemma checksum_bound: "ComputeApfsObjectChecksum b = Some c \<Longrightarrow> c \<le> u64_max"
  by (auto simp: ComputeApfsObjectChecksum_def kModulus_def u32_max_def u64_max_def Let_def split: if_splits prod.splits)

lemma checksum_field:
  assumes "8 \<le> length b" shows "ComputeApfsObjectChecksum (WriteLe64 b 0 v) = ComputeApfsObjectChecksum b"
proof -
  have "drop 8 (WriteLe64 b 0 v) = drop 8 b" using assms by (simp add: WriteLe64_def)
  then show ?thesis using WriteLe64_other(1) [of 0 b v] assms by (simp add: ComputeApfsObjectChecksum_def)
qed

lemma superblock_source_length:
  assumes "superblock_source read st = Some (src, sb)" and "kSuperblockBytes \<le> sb_block_size st"
  shows "kSuperblockBytes \<le> length (take (sb_block_size st) sb)"
  using assms by (auto simp: superblock_source_def Let_def split: if_splits option.splits)

lemma switch_written:
  assumes "PersistCheckpointSuperblock read stage written xid st = (ok, st', Some (off, data))"
    and "kSuperblockBytes \<le> sb_block_size st" and "xid \<le> u64_max"
  shows "resolve_target_offset st = Some off" and "length data \<le> sb_block_size st" and "kSuperblockBytes \<le> length data"
    and "ReadLe32 data kMagicOffset = kNxsbMagic" and "ReadLe32 data kBlockSizeOffset = sb_block_size st"
    and "ReadLe64 data kCheckpointXidOffset = xid" and "ComputeApfsObjectChecksum data = Some (ReadLe64 data 0)"
    and "ok \<longleftrightarrow> written" and "sb_container_loaded st"
    and "\<exists>src. (src = active_offset st \<or> src = 0) \<and>
      st' = (if ok then st\<lparr>active_offset := off, alternate_offset := src, active_bytes := data\<rparr> else st)"
proof -
  obtain off' where r: "resolve_target_offset st = Some off'" and loaded: "sb_container_loaded st"
    using assms(1) by (cases "resolve_target_offset st") (auto simp: PersistCheckpointSuperblock_def split: if_splits)
  obtain src sb where s: "superblock_source read st = Some (src, sb)"
    using assms(1) r loaded by (cases "superblock_source read st") (auto simp: PersistCheckpointSuperblock_def)
  note a = assms(1) [unfolded PersistCheckpointSuperblock_def r s option.case prod.case Let_def]
  obtain c where c: "ComputeApfsObjectChecksum (WriteLe64 (take (sb_block_size st) sb) kCheckpointXidOffset xid) = Some c"
    using a by (cases "ComputeApfsObjectChecksum (WriteLe64 (take (sb_block_size st) sb) kCheckpointXidOffset xid)")
      (auto split: if_splits)
  note a = a [unfolded c option.case]
  have w: "resolve_target_offset st = Some off" "superblock_source read st = Some (src, sb)"
      "ReadLe32 (take (sb_block_size st) sb) kMagicOffset = kNxsbMagic"
      "ReadLe32 (take (sb_block_size st) sb) kBlockSizeOffset = sb_block_size st"
      "ComputeApfsObjectChecksum (WriteLe64 (take (sb_block_size st) sb) kCheckpointXidOffset xid) = Some c"
      "data = WriteLe64 (WriteLe64 (take (sb_block_size st) sb) kCheckpointXidOffset xid) 0 c"
      "ok \<longleftrightarrow> written" "sb_container_loaded st"
      "st' = (if ok then st\<lparr>active_offset := off, alternate_offset := src, active_bytes := data\<rparr> else st)"
    using a r s c loaded by (auto split: if_splits)
  define b where "b = take (sb_block_size st) sb"
  have l: "kSuperblockBytes \<le> length b" unfolding b_def by (rule superblock_source_length [OF w(2) assms(2)])
  define b1 where "b1 = WriteLe64 b kCheckpointXidOffset xid"
  have d: "data = WriteLe64 b1 0 c" "ComputeApfsObjectChecksum b1 = Some c" using w(5,6) by (simp_all add: b1_def b_def)
  have "kCheckpointXidOffset + 8 \<le> length b" using l by (simp add: kSuperblockBytes_def kCheckpointXidOffset_def)
  note b1 = WriteLe64_other [OF this, where v = xid, folded b1_def]
  have "0 + 8 \<le> length b1" using l b1(1) by (simp add: kSuperblockBytes_def)
  note b2 = WriteLe64_other [OF this, where v = c, folded d(1)]
  show "resolve_target_offset st = Some off" "ok \<longleftrightarrow> written" "sb_container_loaded st" by (fact w)+
  show "length data \<le> sb_block_size st" using b2(1) b1(1) by (simp add: b_def)
  show "kSuperblockBytes \<le> length data" using b2(1) b1(1) l by simp
  show "ReadLe32 data kMagicOffset = kNxsbMagic"
    using b2(2) [of kMagicOffset] b1(2) [of kMagicOffset] w(3) by (simp add: b_def kMagicOffset_def kCheckpointXidOffset_def)
  show "ReadLe32 data kBlockSizeOffset = sb_block_size st"
    using b2(2) [of kBlockSizeOffset] b1(2) [of kBlockSizeOffset] w(4) by (simp add: b_def kBlockSizeOffset_def kCheckpointXidOffset_def)
  show "ReadLe64 data kCheckpointXidOffset = xid"
    using b2(3) [of kCheckpointXidOffset] b1(4) assms(3) by (simp add: kCheckpointXidOffset_def)
  show "ComputeApfsObjectChecksum data = Some (ReadLe64 data 0)"
    using checksum_field [of b1 c] d b2(4) checksum_bound l b1(1) by (simp add: kSuperblockBytes_def)
  show "\<exists>src. (src = active_offset st \<or> src = 0) \<and>
      st' = (if ok then st\<lparr>active_offset := off, alternate_offset := src, active_bytes := data\<rparr> else st)"
    using superblock_source_cases [OF w(2)] w(9) by blast
qed

lemma switch_silent:
  "PersistCheckpointSuperblock read stage written xid st = (ok, st', None) \<Longrightarrow> \<not> ok \<and> st' = st"
  by (auto simp: PersistCheckpointSuperblock_def Let_def split: if_splits option.splits)

text \<open>
  C27. Switching superblocks: wherever the two superblocks are on block boundaries, the write of the
  new one never touches the active one, whose bytes stay for a crash during the write; it carries
  its own checksum.  A switch that fails leaves the state as it was; after one that succeeds the new
  superblock is the active one and passes the verification that reads it back.
\<close>

theorem superblock_switch_safe:
  assumes "superblocks_aligned st" and "kSuperblockBytes \<le> sb_block_size st" and "xid \<le> u64_max"
    and "PersistCheckpointSuperblock read stage written xid st = (ok, st', span)"
  shows "superblocks_aligned st' \<and> (\<not> ok \<longrightarrow> st' = st) \<and>
    (\<forall>(off, data) \<in> set_option span.
       {off..<off + length data} \<inter> {active_offset st..<active_offset st + sb_block_size st} = {} \<and>
       ComputeApfsObjectChecksum data = Some (ReadLe64 data 0)) \<and>
    (ok \<longrightarrow> (\<exists>data. span = Some (active_offset st', data) \<and>
       (\<forall>read'. holds read' [(active_offset st', data)] \<longrightarrow> verify_superblock_checkpoint_roundtrip read' xid st')))"
proof (cases span)
  case None
  then show ?thesis using switch_silent [of read stage written xid st ok st'] assms by auto
next
  case (Some p)
  obtain off data where p: "p = (off, data)" by fastforce
  note w = switch_written [OF assms(4) [unfolded Some p] assms(2,3)]
  note t = resolve_target_other [OF assms(1) w(1)]
  have al: "sb_block_size st dvd active_offset st" "0 < sb_block_size st" using assms(1) by (auto simp: superblocks_aligned_def)
  have apart: "{off..<off + length data} \<inter> {active_offset st..<active_offset st + sb_block_size st} = {}"
    using aligned_apart [OF t(1) al(1) t(2)] w(2) by auto
  obtain src where st': "src = active_offset st \<or> src = 0"
    "st' = (if ok then st\<lparr>active_offset := off, alternate_offset := src, active_bytes := data\<rparr> else st)" using w(10) by blast
  have "superblocks_aligned st'" using st' assms(1) t(1) by (auto simp: superblocks_aligned_def)
  moreover have "verify_superblock_checkpoint_roundtrip read' xid st'" if ok: "ok" and h: "holds read' [(off, data)]" for read'
  proof -
    have "\<forall>i n. i + n \<le> length data \<longrightarrow> read' (off + i) n = Some (take n (drop i data))" using h by (simp add: holds_def)
    from this [rule_format, of 0 kSuperblockBytes] have "read' off kSuperblockBytes = Some (take kSuperblockBytes data)"
      using w(3) by simp
    moreover have "ReadLe32 (take kSuperblockBytes data) kMagicOffset = kNxsbMagic"
      "ReadLe32 (take kSuperblockBytes data) kBlockSizeOffset = sb_block_size st"
      "ReadLe64 (take kSuperblockBytes data) kCheckpointXidOffset = xid"
      using w(4-6) by (simp_all add: ReadLe_take kMagicOffset_def kBlockSizeOffset_def kCheckpointXidOffset_def kSuperblockBytes_def)
    ultimately show ?thesis
      using ok w(3,9) t(3) al(2) by (simp add: verify_superblock_checkpoint_roundtrip_def st'(2))
  qed
  ultimately show ?thesis using Some p apart w(7) st'(2) by auto
qed

definition first_superblock :: "byte list" where
  "first_superblock = replicate 16 0 @ le_bytes 8 6 @ replicate 8 0 @ le_bytes 4 kNxsbMagic @ le_bytes 4 2048 @ replicate 2008 0"

definition two_superblocks :: SuperblockState where
  "two_superblocks = \<lparr>sb_block_size = 2048, sb_total_blocks = 100, sb_container_loaded = True, active_offset = 0,
     alternate_offset = 0, active_bytes = first_superblock\<rparr>"

theorem superblock_switch_safe_witness:
  "\<exists>st' data. PersistCheckpointSuperblock (\<lambda>_ _. None) True True 7 two_superblocks = (True, st', Some (2048, data)) \<and>
     active_offset st' = 2048 \<and> alternate_offset st' = 0 \<and>
     verify_superblock_checkpoint_roundtrip (image_device [(2048, data)]) 7 st'"
proof -
  have l: "length first_superblock = 2048" by (simp add: first_superblock_def)
  have r: "resolve_target_offset two_superblocks = Some 2048"
    by (simp add: resolve_target_offset_def two_superblocks_def kSuperblockBytes_def u64_max_def)
  have s: "superblock_source (\<lambda>_ _. None) two_superblocks = Some (0, first_superblock)"
    using l by (simp add: superblock_source_def two_superblocks_def)
  have f: "ReadLe32 first_superblock kMagicOffset = kNxsbMagic" "ReadLe32 first_superblock kBlockSizeOffset = 2048"
  proof -
    have "ReadLe32 ((replicate 16 0 @ le_bytes 8 6 @ replicate 8 0) @ le_bytes 4 kNxsbMagic @ le_bytes 4 2048 @ replicate 2008 0) 32 = kNxsbMagic"
      by (rule ReadLe32_at) (simp_all add: kNxsbMagic_def u32_max_def)
    then show "ReadLe32 first_superblock kMagicOffset = kNxsbMagic" by (simp add: first_superblock_def kMagicOffset_def)
    have "ReadLe32 ((replicate 16 0 @ le_bytes 8 6 @ replicate 8 0 @ le_bytes 4 kNxsbMagic) @ le_bytes 4 2048 @ replicate 2008 0) 36 = 2048"
      by (rule ReadLe32_at) (simp_all add: u32_max_def)
    then show "ReadLe32 first_superblock kBlockSizeOffset = 2048" by (simp add: first_superblock_def kBlockSizeOffset_def)
  qed
  let ?b = "WriteLe64 first_superblock kCheckpointXidOffset 7"
  have "length ?b = 2048" using WriteLe64_other(1) [of kCheckpointXidOffset first_superblock] l by (simp add: kCheckpointXidOffset_def)
  then have "ComputeApfsObjectChecksum ?b \<noteq> None" by (simp add: ComputeApfsObjectChecksum_def Let_def split: prod.split)
  then obtain c where c: "ComputeApfsObjectChecksum ?b = Some c" by blast
  have p: "PersistCheckpointSuperblock (\<lambda>_ _. None) True True 7 two_superblocks =
      (True, two_superblocks\<lparr>active_offset := 2048, alternate_offset := 0, active_bytes := WriteLe64 ?b 0 c\<rparr>, Some (2048, WriteLe64 ?b 0 c))"
    using r s f c l by (simp add: PersistCheckpointSuperblock_def Let_def) (simp add: two_superblocks_def Let_def)
  have a: "superblocks_aligned two_superblocks" "kSuperblockBytes \<le> sb_block_size two_superblocks" "(7::nat) \<le> u64_max"
    by (simp_all add: superblocks_aligned_def two_superblocks_def kSuperblockBytes_def u64_max_def)
  from superblock_switch_safe [OF a p] p show ?thesis using image_device_holds by auto
qed

end
