(* ===== verification/InodeMetadataPatchCodec.thy ===== *)
theory InodeMetadataPatchCodec
  imports ByteCodec
begin

text \<open>
  The inode metadata patch of \<^verbatim>\<open>include/InodeMetadataPatch.h\<close>: the inline payload of a
  \<^verbatim>\<open>SetInodeMetadata\<close> log record.  A field that the mask does not name has to be zero, and
  decoding encodes again and compares, so a patch has one encoding.
\<close>

record InodeMetadataPatch =
  patch_mask :: nat
  patch_owner :: nat
  patch_group :: nat
  patch_bsd_flags :: nat
  patch_mode :: nat
  create_time_utc :: nat
  modification_time_utc :: nat
  change_time_utc :: nat
  access_time_utc :: nat

text \<open>The bit numbers of the fields of the mask.\<close>

definition owner_field :: nat where "owner_field = 0"
definition group_field :: nat where "group_field = 1"
definition mode_field :: nat where "mode_field = 2"
definition create_time_field :: nat where "create_time_field = 3"
definition modification_time_field :: nat where "modification_time_field = 4"
definition change_time_field :: nat where "change_time_field = 5"
definition access_time_field :: nat where "access_time_field = 6"
definition bsd_flags_field :: nat where "bsd_flags_field = 7"

lemmas patch_field_defs = owner_field_def group_field_def mode_field_def create_time_field_def
  modification_time_field_def change_time_field_def access_time_field_def bsd_flags_field_def

definition UnixEpochTicks :: nat where "UnixEpochTicks = 116444736000000000"
definition MaxTime :: nat where "MaxTime = UnixEpochTicks + u64_max div 100"

definition time_valid :: "InodeMetadataPatch \<Rightarrow> nat \<Rightarrow> nat \<Rightarrow> bool" where
  "time_valid patch field v =
     (if bit (patch_mask patch) field then v \<ge> UnixEpochTicks \<and> v \<le> MaxTime else v = 0)"

definition patch_valid :: "InodeMetadataPatch \<Rightarrow> bool" where
  "patch_valid patch =
     (\<not> (patch_mask patch = 0 \<or> patch_mask patch > 255 \<or>
         (\<not> bit (patch_mask patch) owner_field \<and> patch_owner patch \<noteq> 0) \<or>
         (\<not> bit (patch_mask patch) group_field \<and> patch_group patch \<noteq> 0) \<or>
         (\<not> bit (patch_mask patch) mode_field \<and> patch_mode patch \<noteq> 0) \<or> patch_mode patch > 4095 \<or>
         (\<not> bit (patch_mask patch) bsd_flags_field \<and> patch_bsd_flags patch \<noteq> 0) \<or>
         \<not> time_valid patch create_time_field (create_time_utc patch) \<or>
         \<not> time_valid patch modification_time_field (modification_time_utc patch) \<or>
         \<not> time_valid patch change_time_field (change_time_utc patch) \<or>
         \<not> time_valid patch access_time_field (access_time_utc patch)))"

definition EncodeInodeMetadataPatch :: "InodeMetadataPatch \<Rightarrow> byte list option" where
  "EncodeInodeMetadataPatch patch =
     (if \<not> patch_valid patch then None
      else
        let has_bsd_flags = bit (patch_mask patch) bsd_flags_field in
        Some ([73, 77, 68, if has_bsd_flags then 2 else 1] @ le_bytes 4 (patch_mask patch) @
              le_bytes 4 (patch_owner patch) @ le_bytes 4 (patch_group patch) @ le_bytes 2 (patch_mode patch) @
              [0, 0] @ le_bytes 8 (create_time_utc patch) @ le_bytes 8 (modification_time_utc patch) @
              le_bytes 8 (change_time_utc patch) @ le_bytes 8 (access_time_utc patch) @
              (if has_bsd_flags then le_bytes 4 (patch_bsd_flags patch) else [])))"

definition patch_get :: "byte list \<Rightarrow> nat \<Rightarrow> nat \<Rightarrow> nat" where
  "patch_get bytes offset n = le_value (take n (drop offset bytes))"

definition DecodeInodeMetadataPatch :: "byte list \<Rightarrow> InodeMetadataPatch option" where
  "DecodeInodeMetadataPatch bytes =
     (if (length bytes \<noteq> 52 \<and> length bytes \<noteq> 56) \<or> bytes ! 0 \<noteq> 73 \<or> bytes ! 1 \<noteq> 77 \<or> bytes ! 2 \<noteq> 68 \<or>
         bytes ! 18 \<noteq> 0 \<or> bytes ! 19 \<noteq> 0
      then None
      else
        let is_v1 = (bytes ! 3 = 1 \<and> length bytes = 52);
            is_v2 = (bytes ! 3 = 2 \<and> length bytes = 56)
        in if \<not> is_v1 \<and> \<not> is_v2 then None
           else
             let patch = \<lparr>patch_mask = patch_get bytes 4 4, patch_owner = patch_get bytes 8 4,
                          patch_group = patch_get bytes 12 4,
                          patch_bsd_flags = (if is_v2 then patch_get bytes 52 4 else 0),
                          patch_mode = patch_get bytes 16 2, create_time_utc = patch_get bytes 20 8,
                          modification_time_utc = patch_get bytes 28 8, change_time_utc = patch_get bytes 36 8,
                          access_time_utc = patch_get bytes 44 8\<rparr>
             in if EncodeInodeMetadataPatch patch = Some bytes then Some patch else None)"

section \<open>Round trip\<close>

definition patch_sized :: "InodeMetadataPatch \<Rightarrow> bool" where
  "patch_sized patch = (patch_owner patch \<le> u32_max \<and> patch_group patch \<le> u32_max \<and> patch_bsd_flags patch \<le> u32_max)"

lemma patch_get_skip [codec_simps]: "k \<le> n \<Longrightarrow> patch_get (le_bytes k v @ xs) n c = patch_get xs (n - k) c"
  by (simp add: patch_get_def)

lemma patch_get_here [codec_simps]: "patch_get (le_bytes c v @ xs) 0 c = v mod 256 ^ c" "patch_get (le_bytes c v) 0 c = v mod 256 ^ c"
  by (simp_all add: patch_get_def)

lemma patch_get_Cons [codec_simps]: "patch_get (b # xs) n c = (if n = 0 then le_value (take c (b # xs)) else patch_get xs (n - 1) c)"
  by (cases n) (simp_all add: patch_get_def)

lemma patch_times:
  assumes "time_valid patch field v" shows "v mod 18446744073709551616 = v"
  using assms by (auto simp: time_valid_def MaxTime_def UnixEpochTicks_def u64_max_def split: if_splits)

lemma DecodeInodeMetadataPatch_fields:
  assumes e: "EncodeInodeMetadataPatch patch = Some bytes" and s: "patch_sized patch"
  shows "DecodeInodeMetadataPatch bytes = Some patch"
proof -
  have v: "patch_valid patch" using e by (auto simp: EncodeInodeMetadataPatch_def split: if_splits)
  let ?x = "bit (patch_mask patch) bsd_flags_field"
  have b: "bytes = [73, 77, 68, if ?x then 2 else 1] @ le_bytes 4 (patch_mask patch) @
              le_bytes 4 (patch_owner patch) @ le_bytes 4 (patch_group patch) @ le_bytes 2 (patch_mode patch) @
              [0, 0] @ le_bytes 8 (create_time_utc patch) @ le_bytes 8 (modification_time_utc patch) @
              le_bytes 8 (change_time_utc patch) @ le_bytes 8 (access_time_utc patch) @
              (if ?x then le_bytes 4 (patch_bsd_flags patch) else [])"
    using e v by (simp add: EncodeInodeMetadataPatch_def Let_def)
  have small: "patch_mask patch mod 4294967296 = patch_mask patch" "patch_owner patch mod 4294967296 = patch_owner patch"
    "patch_group patch mod 4294967296 = patch_group patch" "patch_mode patch mod 65536 = patch_mode patch"
    "patch_bsd_flags patch mod 4294967296 = patch_bsd_flags patch"
    using s v by (simp_all add: patch_sized_def patch_valid_def u32_max_def)
  have times: "create_time_utc patch mod 18446744073709551616 = create_time_utc patch"
    "modification_time_utc patch mod 18446744073709551616 = modification_time_utc patch"
    "change_time_utc patch mod 18446744073709551616 = change_time_utc patch"
    "access_time_utc patch mod 18446744073709551616 = access_time_utc patch"
    using v patch_times by (auto simp: patch_valid_def)
  have flags: "\<not> ?x \<Longrightarrow> patch_bsd_flags patch = 0" using v by (auto simp: patch_valid_def)
  have fields: "patch_get bytes 4 4 = patch_mask patch" "patch_get bytes 8 4 = patch_owner patch"
    "patch_get bytes 12 4 = patch_group patch" "patch_get bytes 16 2 = patch_mode patch"
    "patch_get bytes 20 8 = create_time_utc patch" "patch_get bytes 28 8 = modification_time_utc patch"
    "patch_get bytes 36 8 = change_time_utc patch" "patch_get bytes 44 8 = access_time_utc patch"
    "?x \<Longrightarrow> patch_get bytes 52 4 = patch_bsd_flags patch"
    unfolding b by (simp_all add: codec_simps small times)
  have heads: "length bytes = (if ?x then 56 else 52)" "bytes ! 0 = 73" "bytes ! 1 = 77" "bytes ! 2 = 68"
    "bytes ! 3 = (if ?x then 2 else 1)" "bytes ! 18 = 0" "bytes ! 19 = 0"
    unfolding b by (simp_all add: nth_append)
  have eta: "\<lparr>patch_mask = patch_mask patch, patch_owner = patch_owner patch, patch_group = patch_group patch,
      patch_bsd_flags = n, patch_mode = patch_mode patch,
      create_time_utc = create_time_utc patch, modification_time_utc = modification_time_utc patch,
      change_time_utc = change_time_utc patch, access_time_utc = access_time_utc patch\<rparr> = patch"
    if "n = patch_bsd_flags patch" for n
    using that by simp
  show ?thesis
    by (cases ?x) (use heads fields flags e in \<open>simp_all add: DecodeInodeMetadataPatch_def Let_def eta\<close>)
qed

lemma DecodeInodeMetadataPatch_canonical:
  "DecodeInodeMetadataPatch bytes = Some patch \<Longrightarrow> EncodeInodeMetadataPatch patch = Some bytes"
  by (auto simp: DecodeInodeMetadataPatch_def Let_def split: if_splits)

lemma DecodeInodeMetadataPatch_length: "DecodeInodeMetadataPatch bytes = Some patch \<Longrightarrow> length bytes \<in> {52, 56}"
  by (auto simp: DecodeInodeMetadataPatch_def Let_def split: if_splits)

end
