(* ===== verification/WriteAheadLog.thy ===== *)
theory WriteAheadLog
  imports InodeMetadataPatchCodec
begin

text \<open>
  The write-ahead log of \<^verbatim>\<open>src/WriteAheadLog.cpp\<close> in its ordinary (unencrypted) form: the frame
  of a record, the reader with its torn-tail rule, appending a batch, what compaction keeps and
  the intent file that makes compaction recoverable.

  Strings are byte lists.  A C++ enumeration holds any value of its underlying type, so an
  operation or state read from disk that is no enumerator is \<open>UnknownOperation\<close> or
  \<open>UnknownState\<close>.  SHA-256 and the UTF-8 test are Windows services and the decoders of the
  native payloads are other files; they are the record \<open>WalPlatform\<close> that the definitions take
  as an argument.  File handles, leases and path checks enter as their outcomes.
\<close>

section \<open>Records\<close>

datatype OperationKind =
    OpCreateFile | OpCreateDirectory | OpWrite | OpSetFileSize | OpRename | OpDelete | OpSetBasicInfo
  | OpSetSymbolicLinkTarget | OpRemoveSymbolicLinkTarget | OpSetExtendedAttribute
  | OpRemoveExtendedAttribute | OpSetInodeMetadata | OpSetAllocationSize
  | OpRestoreDirectoryFromSymbolicLink | OpRewriteCompressedContent | OpCloneFile | OpRenameVolume
  | OpCreateSnapshot | OpDeleteSnapshot | OpRepairVolumeFileCount | OpSetVolumeQuotaReserve
  | OpHardLink | OpNativeSparse | OpCloneRange | OpTransactionMarker | OpCompactionIndex
  | OpDurabilityWatermark | UnknownOperation nat

fun operation_value :: "OperationKind \<Rightarrow> nat" where
  "operation_value OpCreateFile = 1"
| "operation_value OpCreateDirectory = 2"
| "operation_value OpWrite = 3"
| "operation_value OpSetFileSize = 4"
| "operation_value OpRename = 5"
| "operation_value OpDelete = 6"
| "operation_value OpSetBasicInfo = 7"
| "operation_value OpSetSymbolicLinkTarget = 8"
| "operation_value OpRemoveSymbolicLinkTarget = 9"
| "operation_value OpSetExtendedAttribute = 10"
| "operation_value OpRemoveExtendedAttribute = 11"
| "operation_value OpSetInodeMetadata = 12"
| "operation_value OpSetAllocationSize = 13"
| "operation_value OpRestoreDirectoryFromSymbolicLink = 14"
| "operation_value OpRewriteCompressedContent = 15"
| "operation_value OpCloneFile = 16"
| "operation_value OpRenameVolume = 17"
| "operation_value OpCreateSnapshot = 18"
| "operation_value OpDeleteSnapshot = 19"
| "operation_value OpRepairVolumeFileCount = 24"
| "operation_value OpSetVolumeQuotaReserve = 20"
| "operation_value OpHardLink = 21"
| "operation_value OpNativeSparse = 22"
| "operation_value OpCloneRange = 23"
| "operation_value OpTransactionMarker = 100"
| "operation_value OpCompactionIndex = 101"
| "operation_value OpDurabilityWatermark = 102"
| "operation_value (UnknownOperation n) = n"

definition known_operations :: "OperationKind list" where
  "known_operations =
     [OpCreateFile, OpCreateDirectory, OpWrite, OpSetFileSize, OpRename, OpDelete, OpSetBasicInfo,
      OpSetSymbolicLinkTarget, OpRemoveSymbolicLinkTarget, OpSetExtendedAttribute,
      OpRemoveExtendedAttribute, OpSetInodeMetadata, OpSetAllocationSize,
      OpRestoreDirectoryFromSymbolicLink, OpRewriteCompressedContent, OpCloneFile, OpRenameVolume,
      OpCreateSnapshot, OpDeleteSnapshot, OpRepairVolumeFileCount, OpSetVolumeQuotaReserve,
      OpHardLink, OpNativeSparse, OpCloneRange, OpTransactionMarker, OpCompactionIndex,
      OpDurabilityWatermark]"

definition operation_of :: "nat \<Rightarrow> OperationKind" where
  "operation_of n = (case find (\<lambda>op. operation_value op = n) known_operations of
                       Some op \<Rightarrow> op | None \<Rightarrow> UnknownOperation n)"

definition IsKnownOperation :: "OperationKind \<Rightarrow> bool" where
  "IsKnownOperation op = (op \<in> set known_operations)"

datatype RecordState =
  Prepared | ApfsApplied | Checkpointed | Cleaned | Accepted | PublishArmed | CleanupArmed | UnknownState nat

fun state_value :: "RecordState \<Rightarrow> nat" where
  "state_value Prepared = 1"
| "state_value ApfsApplied = 2"
| "state_value Checkpointed = 3"
| "state_value Cleaned = 4"
| "state_value Accepted = 5"
| "state_value PublishArmed = 6"
| "state_value CleanupArmed = 7"
| "state_value (UnknownState n) = n"

definition state_of :: "nat \<Rightarrow> RecordState" where
  "state_of n = (case find (\<lambda>s. state_value s = n)
                        [Prepared, ApfsApplied, Checkpointed, Cleaned, Accepted, PublishArmed, CleanupArmed] of
                   Some s \<Rightarrow> s | None \<Rightarrow> UnknownState n)"

record UnlinkOutcome =
  unlink_object_id :: nat
  generation_before :: nat
  generation_after :: nat
  unlink_parent_object_id :: nat
  links_before :: nat
  links_after :: nat
  unlink_path_utf8 :: "byte list"

record WalRecord =
  wal_volume_identity :: "byte list"
  wal_transaction_id :: nat
  wal_sequence :: nat
  wal_operation :: OperationKind
  wal_state :: RecordState
  wal_object_id :: nat
  wal_parent_object_id :: nat
  payload_spool_id :: nat
  payload_offset :: nat
  payload_length :: nat
  logical_offset :: nat
  logical_length :: nat
  wal_flags :: nat
  payload_sha256 :: "byte list"
  inline_payload :: "byte list"
  path_utf8 :: "byte list"
  secondary_path_utf8 :: "byte list"
  unlink_outcome :: "UnlinkOutcome option"

definition kWalMagic :: nat where "kWalMagic = 0x574C4141"
definition kLegacyVersion :: nat where "kLegacyVersion = 1"
definition kInlinePayloadVersion :: nat where "kInlinePayloadVersion = 2"
definition kUnlinkOutcomeVersion :: nat where "kUnlinkOutcomeVersion = 3"
definition kLegacyHeaderSize :: nat where "kLegacyHeaderSize = 148"
definition kInlinePayloadHeaderSize :: nat where "kInlinePayloadHeaderSize = 152"
definition kUnlinkOutcomeHeaderSize :: nat where "kUnlinkOutcomeHeaderSize = 192"
definition kMaxRecordBytes :: nat where "kMaxRecordBytes = 67108864"
definition MaxInlinePayloadBytes :: nat where "MaxInlinePayloadBytes = 1048576"
definition MaxExtendedAttributeNameBytes :: nat where "MaxExtendedAttributeNameBytes = 821"
definition PayloadHashSize :: nat where "PayloadHashSize = 32"

section \<open>Consistency of a record\<close>

text \<open>
  What the log calls elsewhere: \<open>sha256\<close> is \<^verbatim>\<open>BCryptHash\<close> (\<open>None\<close> when it fails), \<open>utf8_valid\<close> is
  \<^verbatim>\<open>MultiByteToWideChar\<close> with \<^verbatim>\<open>MB_ERR_INVALID_CHARS\<close>, and a decoder returns the fields the log
  compares.
\<close>

record WalPlatform =
  sha256 :: "byte list \<Rightarrow> byte list option"
  utf8_valid :: "byte list \<Rightarrow> bool"
  clone_range_consistent :: "WalRecord \<Rightarrow> bool"
  sparse_consistent :: "WalRecord \<Rightarrow> bool"
  hard_link_consistent :: "WalRecord \<Rightarrow> bool"
  snapshot_intent :: "byte list \<Rightarrow> (bool \<times> nat \<times> nat \<times> byte list option) option"
  count_repair :: "byte list \<Rightarrow> (byte list \<times> nat \<times> nat) option"
  quota_reserve :: "byte list \<Rightarrow> (nat \<times> nat) option"
  volume_rename :: "byte list \<Rightarrow> (nat \<times> nat) option"
  clone_proof :: "byte list \<Rightarrow> (nat \<times> nat) option"
  compression_rewrite :: "byte list \<Rightarrow> (nat \<times> nat) option"

definition IsStrictUtf8 :: "WalPlatform \<Rightarrow> byte list \<Rightarrow> bool" where
  "IsStrictUtf8 pf v = (v \<noteq> [] \<and> length v \<le> 2147483647 \<and> utf8_valid pf v)"

definition payload_hash_matches :: "WalPlatform \<Rightarrow> WalRecord \<Rightarrow> bool" where
  "payload_hash_matches pf r = (sha256 pf (inline_payload r) = Some (payload_sha256 r))"

definition no_payload_reference :: "WalRecord \<Rightarrow> bool" where
  "no_payload_reference r =
     (wal_flags r = 0 \<and> unlink_outcome r = None \<and> logical_offset r = 0 \<and> logical_length r = 0 \<and>
      payload_offset r = 0 \<and> payload_spool_id r = 0)"

text \<open>The native operations on the volume itself: their path is the root.\<close>

definition volume_operation_consistent :: "WalPlatform \<Rightarrow> WalRecord \<Rightarrow> nat \<Rightarrow> nat \<Rightarrow> bool" where
  "volume_operation_consistent pf r volume checkpoint =
     (wal_object_id r = volume \<and> wal_parent_object_id r = add64 checkpoint 1 \<and>
      payload_length r = length (inline_payload r) \<and> path_utf8 r = [92] \<and>
      secondary_path_utf8 r = [] \<and> no_payload_reference r \<and> payload_hash_matches pf r)"

definition InlinePayloadIsConsistentImpl :: "WalPlatform \<Rightarrow> WalRecord \<Rightarrow> bool" where
  "InlinePayloadIsConsistentImpl pf r =
     (let op = wal_operation r; payload = inline_payload r in
      if op = OpCloneRange then
        clone_range_consistent pf r \<and> IsStrictUtf8 pf (path_utf8 r) \<and> IsStrictUtf8 pf (secondary_path_utf8 r)
      else if op = OpNativeSparse then sparse_consistent pf r \<and> IsStrictUtf8 pf (path_utf8 r)
      else if op = OpHardLink then
        hard_link_consistent pf r \<and> IsStrictUtf8 pf (path_utf8 r) \<and> IsStrictUtf8 pf (secondary_path_utf8 r)
      else if op = OpCreateSnapshot \<or> op = OpDeleteSnapshot then
        (case snapshot_intent pf payload of
           None \<Rightarrow> False
         | Some (create, volume_oid, checkpoint_xid, raw_identity) \<Rightarrow>
             (case raw_identity of None \<Rightarrow> True | Some i \<Rightarrow> wal_volume_identity r = i) \<and>
             create = (op = OpCreateSnapshot) \<and> volume_operation_consistent pf r volume_oid checkpoint_xid)
      else if op = OpRepairVolumeFileCount then
        (case count_repair pf payload of
           None \<Rightarrow> False
         | Some (i, volume, checkpoint) \<Rightarrow>
             wal_volume_identity r = i \<and> volume_operation_consistent pf r volume checkpoint)
      else if op = OpSetVolumeQuotaReserve then
        (case quota_reserve pf payload of
           None \<Rightarrow> False | Some (volume, checkpoint) \<Rightarrow> volume_operation_consistent pf r volume checkpoint)
      else if op = OpRenameVolume then
        (case volume_rename pf payload of
           None \<Rightarrow> False | Some (volume, checkpoint) \<Rightarrow> volume_operation_consistent pf r volume checkpoint)
      else if op = OpCloneFile then
        (case clone_proof pf payload of
           None \<Rightarrow> False
         | Some (tgt, checkpoint) \<Rightarrow>
             wal_object_id r = tgt \<and> wal_parent_object_id r = add64 checkpoint 1 \<and>
             payload_length r = length payload \<and>
             IsStrictUtf8 pf (path_utf8 r) \<and> IsStrictUtf8 pf (secondary_path_utf8 r) \<and>
             0 \<notin> set (path_utf8 r) \<and> 0 \<notin> set (secondary_path_utf8 r) \<and>
             path_utf8 r \<noteq> secondary_path_utf8 r \<and> no_payload_reference r \<and> payload_hash_matches pf r)
      else if op = OpRewriteCompressedContent then
        (case compression_rewrite pf payload of
           None \<Rightarrow> False
         | Some (object, generation) \<Rightarrow>
             wal_object_id r = object \<and> wal_parent_object_id r = generation \<and>
             payload_length r = length payload \<and>
             path_utf8 r \<noteq> [] \<and> IsStrictUtf8 pf (path_utf8 r) \<and> 0 \<notin> set (path_utf8 r) \<and>
             secondary_path_utf8 r = [] \<and> no_payload_reference r \<and> payload_hash_matches pf r)
      else if op = OpSetInodeMetadata then
        payload_length r = length payload \<and> DecodeInodeMetadataPatch payload \<noteq> None \<and> payload_hash_matches pf r
      else if op = OpSetExtendedAttribute then
        length payload \<le> MaxInlinePayloadBytes \<and> payload_length r = length payload \<and> payload_hash_matches pf r
      else if payload = [] then True
      else length payload \<le> MaxInlinePayloadBytes \<and> op = OpWrite \<and> payload_length r = length payload \<and>
           logical_length r = length payload \<and> payload_hash_matches pf r)"

definition zero_hash :: "WalRecord \<Rightarrow> bool" where
  "zero_hash r = list_all (\<lambda>b. b = 0) (payload_sha256 r)"

definition ExtendedAttributeMutationIsConsistentImpl :: "WalPlatform \<Rightarrow> WalRecord \<Rightarrow> bool" where
  "ExtendedAttributeMutationIsConsistentImpl pf r =
     (let is_set = (wal_operation r = OpSetExtendedAttribute);
          is_remove = (wal_operation r = OpRemoveExtendedAttribute) in
      if \<not> is_set \<and> \<not> is_remove then True
      else
        let has_valid_name = (secondary_path_utf8 r \<noteq> [] \<and>
              length (secondary_path_utf8 r) \<le> MaxExtendedAttributeNameBytes \<and>
              0 \<notin> set (secondary_path_utf8 r) \<and> IsStrictUtf8 pf (secondary_path_utf8 r));
            has_valid_identity = (wal_object_id r \<noteq> 0 \<and> wal_parent_object_id r \<noteq> 0 \<and> path_utf8 r \<noteq> [] \<and>
              0 \<notin> set (path_utf8 r) \<and> IsStrictUtf8 pf (path_utf8 r))
        in if \<not> has_valid_name \<or> \<not> has_valid_identity \<or> unlink_outcome r \<noteq> None \<or> wal_flags r \<noteq> 0 \<or>
              payload_spool_id r \<noteq> 0 \<or> payload_offset r \<noteq> 0 \<or> logical_offset r \<noteq> 0 \<or> logical_length r \<noteq> 0
           then False
           else if is_set then InlinePayloadIsConsistentImpl pf r
           else payload_length r = 0 \<and> inline_payload r = [] \<and> zero_hash r)"

definition AllocationSizeMutationIsConsistentImpl :: "WalPlatform \<Rightarrow> WalRecord \<Rightarrow> bool" where
  "AllocationSizeMutationIsConsistentImpl pf r =
     (if wal_operation r \<noteq> OpSetAllocationSize then True
      else wal_object_id r \<noteq> 0 \<and> wal_parent_object_id r \<noteq> 0 \<and> logical_length r \<le> 9223372036854775807 \<and>
           path_utf8 r \<noteq> [] \<and> IsStrictUtf8 pf (path_utf8 r) \<and> 0 \<notin> set (path_utf8 r) \<and>
           secondary_path_utf8 r = [] \<and> unlink_outcome r = None \<and> wal_flags r = 0 \<and> logical_offset r = 0 \<and>
           payload_spool_id r = 0 \<and> payload_offset r = 0 \<and> payload_length r = 0 \<and> inline_payload r = [] \<and>
           zero_hash r)"

definition DirectoryRestoreMutationIsConsistentImpl :: "WalPlatform \<Rightarrow> WalRecord \<Rightarrow> bool" where
  "DirectoryRestoreMutationIsConsistentImpl pf r =
     (if wal_operation r \<noteq> OpRestoreDirectoryFromSymbolicLink then True
      else wal_object_id r \<noteq> 0 \<and> wal_parent_object_id r \<noteq> 0 \<and>
           IsStrictUtf8 pf (path_utf8 r) \<and> 0 \<notin> set (path_utf8 r) \<and> secondary_path_utf8 r = [] \<and>
           unlink_outcome r = None \<and> wal_flags r = 0 \<and> logical_offset r = 0 \<and> logical_length r = 0 \<and>
           payload_spool_id r = 0 \<and> payload_offset r = 0 \<and> payload_length r = 0 \<and> inline_payload r = [] \<and>
           zero_hash r)"

definition InodeMetadataMutationIsConsistentImpl :: "WalPlatform \<Rightarrow> WalRecord \<Rightarrow> bool" where
  "InodeMetadataMutationIsConsistentImpl pf r =
     (if wal_operation r \<noteq> OpSetInodeMetadata then True
      else wal_object_id r \<noteq> 0 \<and> wal_parent_object_id r \<noteq> 0 \<and>
           IsStrictUtf8 pf (path_utf8 r) \<and> 0 \<notin> set (path_utf8 r) \<and> secondary_path_utf8 r = [] \<and>
           unlink_outcome r = None \<and> wal_flags r = 0 \<and> payload_spool_id r = 0 \<and> payload_offset r = 0 \<and>
           logical_offset r = 0 \<and> logical_length r = 0 \<and> InlinePayloadIsConsistentImpl pf r)"

definition UnlinkOutcomeIsConsistentImpl :: "WalRecord \<Rightarrow> bool" where
  "UnlinkOutcomeIsConsistentImpl r =
     (case unlink_outcome r of
        None \<Rightarrow> True
      | Some outcome \<Rightarrow>
          wal_operation r = OpDelete \<and> unlink_object_id outcome \<noteq> 0 \<and> unlink_object_id outcome = wal_object_id r \<and>
          generation_before outcome \<noteq> 0 \<and> generation_before outcome = wal_parent_object_id r \<and>
          generation_after outcome \<ge> generation_before outcome \<and> unlink_parent_object_id outcome \<noteq> 0 \<and>
          links_before outcome \<noteq> 0 \<and> links_after outcome = links_before outcome - 1 \<and>
          unlink_path_utf8 outcome = path_utf8 r \<and> length (unlink_path_utf8 outcome) > 1 \<and>
          length (unlink_path_utf8 outcome) \<le> 65536 \<and> hd (unlink_path_utf8 outcome) = 92 \<and>
          0 \<notin> set (unlink_path_utf8 outcome) \<and>
          secondary_path_utf8 r = [] \<and> inline_payload r = [] \<and> wal_flags r = 0 \<and>
          payload_spool_id r = 0 \<and> payload_offset r = 0 \<and> payload_length r = 0 \<and>
          logical_offset r = 0 \<and> logical_length r = 0 \<and> zero_hash r)"

definition record_consistent :: "WalPlatform \<Rightarrow> WalRecord \<Rightarrow> bool" where
  "record_consistent pf r =
     (InlinePayloadIsConsistentImpl pf r \<and> ExtendedAttributeMutationIsConsistentImpl pf r \<and>
      InodeMetadataMutationIsConsistentImpl pf r \<and> AllocationSizeMutationIsConsistentImpl pf r \<and>
      DirectoryRestoreMutationIsConsistentImpl pf r \<and> UnlinkOutcomeIsConsistentImpl r)"

section \<open>Frames\<close>

definition ReadU32At :: "byte list \<Rightarrow> nat \<Rightarrow> nat" where
  "ReadU32At buffer offset = le_value (take 4 (drop offset buffer))"

definition ReadU16At :: "byte list \<Rightarrow> nat \<Rightarrow> nat" where
  "ReadU16At buffer offset = le_value (take 2 (drop offset buffer))"

definition ReadU64At :: "byte list \<Rightarrow> nat \<Rightarrow> nat" where
  "ReadU64At buffer offset = le_value (take 8 (drop offset buffer))"

definition StoreU32 :: "byte list \<Rightarrow> nat \<Rightarrow> nat \<Rightarrow> byte list" where
  "StoreU32 buffer offset v = take offset buffer @ le_bytes 4 v @ drop (offset + 4) buffer"

text \<open>FNV-1a of the frame with the four bytes of the checksum read as zero.\<close>

definition ChecksumRecord :: "byte list \<Rightarrow> nat" where
  "ChecksumRecord buffer =
     unat (UpdateFnv1a fnv_seed
       (if length buffer \<ge> 16 then take 12 buffer @ [0, 0, 0, 0] @ drop 16 buffer else buffer))"

definition inline_only_operations :: "OperationKind list" where
  "inline_only_operations =
     [OpRewriteCompressedContent, OpCloneFile, OpHardLink, OpNativeSparse, OpCloneRange,
      OpSetVolumeQuotaReserve, OpRenameVolume, OpCreateSnapshot, OpDeleteSnapshot, OpRepairVolumeFileCount]"

definition frame_version :: "WalRecord \<Rightarrow> nat \<Rightarrow> nat" where
  "frame_version r version_override =
     (if version_override = 0
      then if unlink_outcome r \<noteq> None then kUnlinkOutcomeVersion
           else if wal_operation r = OpSetExtendedAttribute \<or> inline_payload r \<noteq> [] then kInlinePayloadVersion
           else kLegacyVersion
      else version_override)"

definition encode_refused :: "WalPlatform \<Rightarrow> WalRecord \<Rightarrow> nat \<Rightarrow> bool" where
  "encode_refused pf r version =
     (let op = wal_operation r in
      (op = OpSetExtendedAttribute \<and> version \<noteq> kInlinePayloadVersion) \<or>
      (op \<in> set inline_only_operations \<and> version \<noteq> kInlinePayloadVersion) \<or>
      (op = OpRemoveExtendedAttribute \<and> version \<noteq> kLegacyVersion) \<or>
      (inline_payload r \<noteq> [] \<and> version \<noteq> kInlinePayloadVersion) \<or>
      ((unlink_outcome r \<noteq> None) \<noteq> (version = kUnlinkOutcomeVersion)) \<or>
      \<not> InodeMetadataMutationIsConsistentImpl pf r \<or> \<not> AllocationSizeMutationIsConsistentImpl pf r \<or>
      \<not> DirectoryRestoreMutationIsConsistentImpl pf r \<or> \<not> InlinePayloadIsConsistentImpl pf r \<or>
      \<not> ExtendedAttributeMutationIsConsistentImpl pf r \<or> \<not> UnlinkOutcomeIsConsistentImpl r)"

definition header_size_of :: "nat \<Rightarrow> nat" where
  "header_size_of version =
     (if version = kUnlinkOutcomeVersion then kUnlinkOutcomeHeaderSize
      else if version = kInlinePayloadVersion then kInlinePayloadHeaderSize
      else kLegacyHeaderSize)"

definition wal_record_size :: "WalRecord \<Rightarrow> nat \<Rightarrow> nat" where
  "wal_record_size r header_size =
     header_size + length (path_utf8 r) + length (secondary_path_utf8 r) +
     length (wal_volume_identity r) + length (inline_payload r) +
     (case unlink_outcome r of None \<Rightarrow> 0 | Some outcome \<Rightarrow> length (unlink_path_utf8 outcome))"

text \<open>The frame before its checksum is stored.\<close>

definition wal_buffer :: "WalRecord \<Rightarrow> nat \<Rightarrow> nat \<Rightarrow> nat \<Rightarrow> byte list" where
  "wal_buffer r version header_size record_size =
     (let buffer = AppendU32 [] kWalMagic;
          buffer = AppendU16 buffer version;
          buffer = AppendU16 buffer header_size;
          buffer = AppendU32 buffer record_size;
          buffer = AppendU32 buffer 0;
          buffer = AppendU64 buffer (wal_transaction_id r);
          buffer = AppendU64 buffer (wal_sequence r);
          buffer = AppendU32 buffer (operation_value (wal_operation r));
          buffer = AppendU32 buffer (state_value (wal_state r));
          buffer = AppendU64 buffer (wal_object_id r);
          buffer = AppendU64 buffer (wal_parent_object_id r);
          buffer = AppendU64 buffer (payload_spool_id r);
          buffer = AppendU64 buffer (payload_offset r);
          buffer = AppendU64 buffer (payload_length r);
          buffer = AppendU64 buffer (logical_offset r);
          buffer = AppendU64 buffer (logical_length r);
          buffer = AppendU64 buffer (wal_flags r);
          buffer = AppendU32 buffer (length (path_utf8 r));
          buffer = AppendU32 buffer (length (secondary_path_utf8 r));
          buffer = AppendU32 buffer (length (wal_volume_identity r));
          buffer = (if version = kInlinePayloadVersion then AppendU32 buffer (length (inline_payload r))
                    else case unlink_outcome r of
                      None \<Rightarrow> buffer
                    | Some outcome \<Rightarrow>
                        let buffer = AppendU64 buffer (unlink_object_id outcome);
                            buffer = AppendU64 buffer (generation_before outcome);
                            buffer = AppendU64 buffer (generation_after outcome);
                            buffer = AppendU64 buffer (unlink_parent_object_id outcome);
                            buffer = AppendU32 buffer (links_before outcome);
                            buffer = AppendU32 buffer (links_after outcome)
                        in AppendU32 buffer (length (unlink_path_utf8 outcome)));
          buffer = buffer @ payload_sha256 r;
          buffer = buffer @ path_utf8 r;
          buffer = buffer @ secondary_path_utf8 r;
          buffer = buffer @ wal_volume_identity r;
          buffer = (if inline_payload r \<noteq> [] then buffer @ inline_payload r else buffer)
      in case unlink_outcome r of None \<Rightarrow> buffer | Some outcome \<Rightarrow> buffer @ unlink_path_utf8 outcome)"

definition EncodeWalRecord :: "WalPlatform \<Rightarrow> WalRecord \<Rightarrow> nat \<Rightarrow> byte list option" where
  "EncodeWalRecord pf r version_override =
     (let version = frame_version r version_override in
      if encode_refused pf r version then None
      else
        let header_size = header_size_of version;
            record_size = wal_record_size r header_size
        in if record_size > u32_max then None
           else
             let buffer = wal_buffer r version header_size record_size
             in Some (StoreU32 buffer 12 (ChecksumRecord buffer)))"

definition EncodeForTest :: "WalPlatform \<Rightarrow> WalRecord \<Rightarrow> byte list" where
  "EncodeForTest pf r = (case EncodeWalRecord pf r 0 of None \<Rightarrow> [] | Some bytes \<Rightarrow> bytes)"

datatype ReadStatus = ReadOk | IoError | Corrupt | ChecksumMismatch | VersionMismatch | VolumeMismatch | ResourceLimit

text \<open>Decoding returns the status it fails with, or the record.\<close>

definition DecodeRecord :: "WalPlatform \<Rightarrow> byte list \<Rightarrow> nat \<Rightarrow> byte list \<Rightarrow> ReadStatus + WalRecord" where
  "DecodeRecord pf bytes version expected_volume_identity =
     (if ChecksumRecord bytes \<noteq> ReadU32At bytes 12 then Inl ChecksumMismatch
      else
        let path_length = ReadU32At bytes 104;
            secondary_path_length = ReadU32At bytes 108;
            volume_identity_length = ReadU32At bytes 112;
            inline_payload_length = (if version = kInlinePayloadVersion then ReadU32At bytes 116 else 0);
            unlink_path_length = (if version = kUnlinkOutcomeVersion then ReadU32At bytes 156 else 0);
            cursor = (if version = kInlinePayloadVersion then 120 else if version = kUnlinkOutcomeVersion then 160 else 116)
        in if inline_payload_length > MaxInlinePayloadBytes then Inl Corrupt
           else if cursor + PayloadHashSize > length bytes then Inl Corrupt
           else
             let hash = take PayloadHashSize (drop cursor bytes);
                 cursor = cursor + PayloadHashSize;
                 variable_bytes = path_length + secondary_path_length + volume_identity_length +
                   inline_payload_length + unlink_path_length
             in if variable_bytes > length bytes \<or> cursor + variable_bytes \<noteq> length bytes then Inl Corrupt
                else
                  let path = take path_length (drop cursor bytes);
                      cursor = cursor + path_length;
                      secondary_path = take secondary_path_length (drop cursor bytes);
                      cursor = cursor + secondary_path_length;
                      volume_identity = take volume_identity_length (drop cursor bytes);
                      cursor = cursor + volume_identity_length;
                      payload = take inline_payload_length (drop cursor bytes);
                      cursor = cursor + inline_payload_length;
                      outcome = (if version = kUnlinkOutcomeVersion then
                          Some \<lparr>unlink_object_id = ReadU64At bytes 116, generation_before = ReadU64At bytes 124,
                                generation_after = ReadU64At bytes 132, unlink_parent_object_id = ReadU64At bytes 140,
                                links_before = ReadU32At bytes 148, links_after = ReadU32At bytes 152,
                                unlink_path_utf8 = take unlink_path_length (drop cursor bytes)\<rparr>
                        else None);
                      r = \<lparr>wal_volume_identity = volume_identity, wal_transaction_id = ReadU64At bytes 16,
                           wal_sequence = ReadU64At bytes 24, wal_operation = operation_of (ReadU32At bytes 32),
                           wal_state = state_of (ReadU32At bytes 36), wal_object_id = ReadU64At bytes 40,
                           wal_parent_object_id = ReadU64At bytes 48, payload_spool_id = ReadU64At bytes 56,
                           payload_offset = ReadU64At bytes 64, payload_length = ReadU64At bytes 72,
                           logical_offset = ReadU64At bytes 80, logical_length = ReadU64At bytes 88,
                           wal_flags = ReadU64At bytes 96, payload_sha256 = hash, inline_payload = payload,
                           path_utf8 = path, secondary_path_utf8 = secondary_path, unlink_outcome = outcome\<rparr>;
                      op = wal_operation r;
                      extended_attribute_version_is_valid =
                        ((op \<noteq> OpSetExtendedAttribute \<or> version = kInlinePayloadVersion) \<and>
                         (op \<noteq> OpRemoveExtendedAttribute \<or> version = kLegacyVersion))
                  in if \<not> IsKnownOperation op \<or> \<not> extended_attribute_version_is_valid \<or>
                        (op \<in> set inline_only_operations \<and> version \<noteq> kInlinePayloadVersion) \<or>
                        (op = OpSetInodeMetadata \<and> version \<noteq> kInlinePayloadVersion) \<or>
                        \<not> record_consistent pf r
                     then Inl Corrupt
                     else if expected_volume_identity \<noteq> [] \<and> wal_volume_identity r \<noteq> expected_volume_identity
                     then Inl VolumeMismatch
                     else Inr r)"

section \<open>Reading a log\<close>

text \<open>The first bytes of an encrypted log; a shorter prefix of them counts too.\<close>

definition protected_magic :: "byte list" where
  "protected_magic = [228, 65, 80, 70, 83, 87, 65, 76]"

definition IsProtectedWalPrefix :: "byte list \<Rightarrow> bool" where
  "IsProtectedWalPrefix bytes =
     (let prefix = min (length protected_magic) (length bytes) in
      prefix \<noteq> 0 \<and> take prefix bytes = take prefix protected_magic)"

definition DecodeWalFrameHeader :: "byte list \<Rightarrow> ReadStatus + (nat \<times> nat)" where
  "DecodeWalFrameHeader bytes =
     (if length bytes < 12 \<or> ReadU32At bytes 0 \<noteq> kWalMagic then Inl Corrupt
      else
        let version = ReadU16At bytes 4 in
        if version \<noteq> kLegacyVersion \<and> version \<noteq> kInlinePayloadVersion \<and> version \<noteq> kUnlinkOutcomeVersion
        then Inl VersionMismatch
        else
          let expected = header_size_of version;
              frame_bytes = ReadU32At bytes 8
          in if ReadU16At bytes 6 = expected \<and> frame_bytes \<ge> expected \<and> frame_bytes \<le> kMaxRecordBytes
             then Inr (version, frame_bytes) else Inl Corrupt)"

record WalReadLimits =
  limit_bytes :: nat
  limit_records :: nat

record ReadResult =
  read_status :: ReadStatus
  recovered_torn_tail :: bool
  read_records :: "WalRecord list"

lemma DecodeWalFrameHeader_bytes:
  "DecodeWalFrameHeader bytes = Inr (version, n) \<Longrightarrow> kLegacyHeaderSize \<le> n"
  by (auto simp: DecodeWalFrameHeader_def Let_def header_size_of_def kUnlinkOutcomeHeaderSize_def kInlinePayloadHeaderSize_def
      kLegacyHeaderSize_def split: if_splits)

text \<open>
  The loop over the frames, on the bytes from the cursor on.  The second result is the length of
  the complete prefix, \<^term>\<open>None\<close> where the source leaves it alone.
\<close>

function decode_frames ::
  "WalPlatform \<Rightarrow> byte list \<Rightarrow> nat \<Rightarrow> nat \<Rightarrow> WalRecord list \<Rightarrow> byte list \<Rightarrow> ReadResult \<times> nat option" where
  "decode_frames pf identity max_records cursor records bytes =
     (if bytes = [] then (\<lparr>read_status = ReadOk, recovered_torn_tail = False, read_records = records\<rparr>, Some cursor)
      else if IsProtectedWalPrefix bytes then
        (\<lparr>read_status = VersionMismatch, recovered_torn_tail = False, read_records = []\<rparr>, None)
      else if length records \<ge> max_records then
        (\<lparr>read_status = ResourceLimit, recovered_torn_tail = False, read_records = []\<rparr>, None)
      else if length bytes < kLegacyHeaderSize then
        (\<lparr>read_status = ReadOk, recovered_torn_tail = True, read_records = records\<rparr>, Some cursor)
      else case DecodeWalFrameHeader (take 12 bytes) of
          Inl status \<Rightarrow> (\<lparr>read_status = status, recovered_torn_tail = False, read_records = records\<rparr>, None)
        | Inr (version, frame_bytes) \<Rightarrow>
            if length bytes < frame_bytes then
              (\<lparr>read_status = ReadOk, recovered_torn_tail = True, read_records = records\<rparr>, Some cursor)
            else case DecodeRecord pf (take frame_bytes bytes) version identity of
                Inl status \<Rightarrow> (\<lparr>read_status = status, recovered_torn_tail = False, read_records = records\<rparr>, None)
              | Inr r \<Rightarrow> decode_frames pf identity max_records (cursor + frame_bytes) (records @ [r]) (drop frame_bytes bytes))"
  by pat_completeness auto

termination
  by (relation "measure (\<lambda>(pf, identity, max_records, cursor, records, bytes). length bytes)")
     (auto dest!: DecodeWalFrameHeader_bytes simp: kLegacyHeaderSize_def)

declare decode_frames.simps [simp del]

definition DecodeWalBytes ::
  "WalPlatform \<Rightarrow> byte list \<Rightarrow> byte list \<Rightarrow> WalReadLimits \<Rightarrow> nat option \<Rightarrow> ReadResult \<times> nat" where
  "DecodeWalBytes pf bytes identity limits evidence_record_count =
     (if length bytes > limit_bytes limits then
        (\<lparr>read_status = ResourceLimit, recovered_torn_tail = False, read_records = []\<rparr>, 0)
      else if (case evidence_record_count of None \<Rightarrow> False | Some n \<Rightarrow> n > limit_records limits) then
        (\<lparr>read_status = ResourceLimit, recovered_torn_tail = False, read_records = []\<rparr>, 0)
      else
        let max_records = (case evidence_record_count of None \<Rightarrow> limit_records limits | Some n \<Rightarrow> n);
            (result, prefix) = decode_frames pf identity max_records 0 [] bytes
        in case prefix of
             None \<Rightarrow> (result, 0)
           | Some p \<Rightarrow>
               if \<not> recovered_torn_tail result \<and>
                  (case evidence_record_count of None \<Rightarrow> False | Some n \<Rightarrow> length (read_records result) \<noteq> n)
               then (\<lparr>read_status = Corrupt, recovered_torn_tail = False, read_records = []\<rparr>, 0)
               else (result, p))"

text \<open>The file of the log (\<^term>\<open>None\<close> when there is none) and the outcome of the calls to the system.\<close>

record WalReadIo =
  namespace_settled :: bool
  read_failed :: bool
  truncate_ok :: bool

definition default_limits :: WalReadLimits where
  "default_limits = \<lparr>limit_bytes = u64_max, limit_records = u64_max\<rparr>"

definition ReadAllInternal ::
  "WalPlatform \<Rightarrow> WalReadIo \<Rightarrow> byte list option \<Rightarrow> byte list \<Rightarrow> bool \<Rightarrow> WalReadLimits \<Rightarrow>
     ReadResult \<times> nat \<times> byte list option" where
  "ReadAllInternal pf io wal_file identity repair_torn_tail limits =
     (if \<not> namespace_settled io then
        (\<lparr>read_status = IoError, recovered_torn_tail = False, read_records = []\<rparr>, 0, wal_file)
      else case wal_file of
        None \<Rightarrow> (\<lparr>read_status = ReadOk, recovered_torn_tail = False, read_records = []\<rparr>, 0, wal_file)
      | Some bytes \<Rightarrow>
          if length bytes > limit_bytes limits then
            (\<lparr>read_status = ResourceLimit, recovered_torn_tail = False, read_records = []\<rparr>, 0, wal_file)
          else if read_failed io then
            (\<lparr>read_status = IoError, recovered_torn_tail = False, read_records = []\<rparr>, 0, wal_file)
          else
            let (result, prefix) = DecodeWalBytes pf bytes identity limits None in
            if recovered_torn_tail result \<and> repair_torn_tail then
              if truncate_ok io then (result, prefix, Some (take prefix bytes))
              else (result\<lparr>read_status := IoError\<rparr>, prefix, wal_file)
            else (result, prefix, wal_file))"

section \<open>Appending\<close>

datatype AppendResult = AppendSucceeded | AppendRejectedBeforeWrite | AppendBytesMayHavePersisted

text \<open>
  The system's part in an append: the directory and the size of the file, the handle and the
  lease, how many bytes reached the file when
  \<^verbatim>\<open>WriteFile\<close> fell short (\<^term>\<open>None\<close> when it wrote them all), and the flush.
\<close>

record WalAppendIo =
  directory_ready :: bool
  handle_ready :: bool
  lease_generation :: nat
  short_write :: "nat option"
  flush_ok :: bool

record WalOptions =
  has_path :: bool
  option_volume_identity :: "byte list"
  max_bytes :: nat

definition lease_refused :: "WalAppendIo \<Rightarrow> nat \<Rightarrow> bool" where
  "lease_refused io expected_writer_generation =
     (expected_writer_generation \<noteq> 0 \<and> lease_generation io \<noteq> expected_writer_generation)"

definition writable_record :: "WalOptions \<Rightarrow> WalRecord \<Rightarrow> WalRecord option" where
  "writable_record opts r =
     (if wal_volume_identity r = [] then Some (r\<lparr>wal_volume_identity := option_volume_identity opts\<rparr>)
      else if wal_volume_identity r \<noteq> option_volume_identity opts then None
      else Some r)"

text \<open>\<^term>\<open>None\<close> when a record of the batch is refused; nothing is written then.\<close>

fun encode_batch :: "WalPlatform \<Rightarrow> WalOptions \<Rightarrow> WalRecord list \<Rightarrow> byte list option" where
  "encode_batch pf opts [] = Some []"
| "encode_batch pf opts (r # rs) =
     (case writable_record opts r of
        None \<Rightarrow> None
      | Some w \<Rightarrow>
          if EncodeForTest pf w = [] then None
          else map_option (\<lambda>encoded_rest. EncodeForTest pf w @ encoded_rest) (encode_batch pf opts rs))"

definition AppendEncoded :: "WalAppendIo \<Rightarrow> byte list \<Rightarrow> byte list \<Rightarrow> AppendResult \<times> byte list" where
  "AppendEncoded io encoded wal_bytes =
     (if \<not> handle_ready io then (AppendRejectedBeforeWrite, wal_bytes)
      else case short_write io of
        None \<Rightarrow> (AppendSucceeded, wal_bytes @ encoded)
      | Some n \<Rightarrow> (if n = 0 then AppendRejectedBeforeWrite else AppendBytesMayHavePersisted, wal_bytes @ take n encoded))"

definition finish_append :: "WalAppendIo \<Rightarrow> bool \<Rightarrow> AppendResult \<times> byte list \<Rightarrow> AppendResult \<times> byte list" where
  "finish_append io durable_flush res =
     (if fst res = AppendSucceeded \<and> durable_flush \<and> \<not> flush_ok io
      then (AppendBytesMayHavePersisted, snd res) else res)"

definition AppendBatchWithResult ::
  "WalPlatform \<Rightarrow> WalOptions \<Rightarrow> WalAppendIo \<Rightarrow> WalRecord list \<Rightarrow> bool \<Rightarrow> nat \<Rightarrow> byte list \<Rightarrow> AppendResult \<times> byte list" where
  "AppendBatchWithResult pf opts io records durable_flush expected_writer_generation wal_bytes =
     (if records = [] \<or> \<not> has_path opts then (AppendSucceeded, wal_bytes)
      else if lease_refused io expected_writer_generation \<or> \<not> directory_ready io
      then (AppendRejectedBeforeWrite, wal_bytes)
      else case encode_batch pf opts records of
          None \<Rightarrow> (AppendRejectedBeforeWrite, wal_bytes)
        | Some encoded_batch \<Rightarrow>
            if max_bytes opts > 0 \<and>
               (length wal_bytes > max_bytes opts \<or> length encoded_batch > max_bytes opts - length wal_bytes)
            then (AppendRejectedBeforeWrite, wal_bytes)
            else finish_append io durable_flush (AppendEncoded io encoded_batch wal_bytes))"

definition AppendWithResult ::
  "WalPlatform \<Rightarrow> WalOptions \<Rightarrow> WalAppendIo \<Rightarrow> WalRecord \<Rightarrow> bool \<Rightarrow> nat \<Rightarrow> byte list \<Rightarrow> AppendResult \<times> byte list" where
  "AppendWithResult pf opts io r durable_flush expected_writer_generation wal_bytes =
     (if \<not> has_path opts then (AppendSucceeded, wal_bytes)
      else if lease_refused io expected_writer_generation \<or> \<not> directory_ready io
      then (AppendRejectedBeforeWrite, wal_bytes)
      else case writable_record opts r of
          None \<Rightarrow> (AppendRejectedBeforeWrite, wal_bytes)
        | Some w \<Rightarrow>
            let encoded = EncodeForTest pf w in
            if encoded = [] then (AppendRejectedBeforeWrite, wal_bytes)
            else if max_bytes opts > 0 \<and> add64 (length wal_bytes) (length encoded) > max_bytes opts
            then (AppendRejectedBeforeWrite, wal_bytes)
            else finish_append io durable_flush (AppendEncoded io encoded wal_bytes))"

section \<open>Compaction\<close>

text \<open>The records the compacted file holds, with the index record that ends them.\<close>

definition compaction_index :: "byte list \<Rightarrow> nat \<Rightarrow> WalRecord" where
  "compaction_index volume_identity minimum_sequence_to_keep =
     \<lparr>wal_volume_identity = volume_identity, wal_transaction_id = 0, wal_sequence = minimum_sequence_to_keep,
      wal_operation = OpCompactionIndex, wal_state = Cleaned, wal_object_id = 0, wal_parent_object_id = 0,
      payload_spool_id = 0, payload_offset = 0, payload_length = 0, logical_offset = 0, logical_length = 0,
      wal_flags = 0, payload_sha256 = replicate 32 0, inline_payload = [], path_utf8 = [],
      secondary_path_utf8 = [], unlink_outcome = None\<rparr>"

definition compaction_kept :: "bool \<Rightarrow> byte list \<Rightarrow> nat \<Rightarrow> WalRecord list \<Rightarrow> WalRecord list" where
  "compaction_kept has_predecessor volume_identity minimum_sequence_to_keep records =
     filter (\<lambda>r. (wal_sequence r \<ge> minimum_sequence_to_keep \<and>
                    (\<not> has_predecessor \<or> wal_operation r \<noteq> OpCompactionIndex)) \<or>
                 (\<not> has_predecessor \<and> wal_operation r = OpCompactionIndex)) records @
     [compaction_index volume_identity minimum_sequence_to_keep]"

text \<open>The bytes written to the replacement file; \<^term>\<open>None\<close> when a record does not encode.\<close>

fun WriteWalRecordsDurably :: "WalPlatform \<Rightarrow> WalRecord list \<Rightarrow> byte list option" where
  "WriteWalRecordsDurably pf [] = Some []"
| "WriteWalRecordsDurably pf (r # rs) =
     (if EncodeForTest pf r = [] then None
      else map_option (\<lambda>rest. EncodeForTest pf r @ rest) (WriteWalRecordsDurably pf rs))"

section \<open>The compaction intent file\<close>

definition kCompactionIntentTag :: "byte list" where
  "kCompactionIntentTag = map (\<lambda>c. word_of_nat (of_char c)) ''apfsaccess-wal-compaction-intent-v1''"

definition IsStrictCompactionIntentRecord :: "WalRecord \<Rightarrow> byte list \<Rightarrow> bool" where
  "IsStrictCompactionIntentRecord r expected_volume_identity =
     (wal_volume_identity r = expected_volume_identity \<and> wal_transaction_id r = 0 \<and> wal_sequence r = 0 \<and>
      wal_operation r = OpCompactionIndex \<and>
      (wal_state r = Prepared \<or> wal_state r = PublishArmed \<or> wal_state r = Checkpointed \<or>
       wal_state r = CleanupArmed \<or> wal_state r = Cleaned) \<and>
      wal_parent_object_id r \<le> u32_max \<and> payload_spool_id r = 0 \<and> payload_offset r = 0 \<and>
      payload_length r = 0 \<and> (wal_state r = Prepared \<or> logical_offset r \<noteq> 0) \<and> logical_length r = 0 \<and>
      (wal_flags r = 0 \<or> wal_state r = Cleaned \<and> wal_flags r = 1) \<and>
      zero_hash r \<and> inline_payload r = [] \<and> path_utf8 r = kCompactionIntentTag \<and> secondary_path_utf8 r = [])"

definition IsValidCompactionIntentTransition :: "WalRecord \<Rightarrow> WalRecord \<Rightarrow> bool" where
  "IsValidCompactionIntentTransition previous nxt =
     (if wal_volume_identity previous \<noteq> wal_volume_identity nxt \<or> wal_object_id previous \<noteq> wal_object_id nxt \<or>
         wal_parent_object_id previous \<noteq> wal_parent_object_id nxt \<or> logical_offset previous \<noteq> logical_offset nxt
      then False
      else if wal_state previous = Prepared then wal_state nxt = PublishArmed \<or> wal_state nxt = Checkpointed
      else if wal_state previous = PublishArmed then wal_state nxt = Checkpointed
      else if wal_state previous = Checkpointed then wal_state nxt = CleanupArmed \<and> wal_flags nxt = 0
      else if wal_state previous = CleanupArmed then wal_state nxt = Cleaned \<and> wal_flags nxt = 0
      else wal_state previous = Cleaned \<and> wal_flags previous = 0 \<and> wal_state nxt = Cleaned \<and> wal_flags nxt = 1)"

definition IsStrictCompactionIntentHistory :: "WalRecord list \<Rightarrow> byte list \<Rightarrow> bool" where
  "IsStrictCompactionIntentHistory records identity =
     (records \<noteq> [] \<and> list_all (\<lambda>i. IsStrictCompactionIntentRecord (records ! i) identity \<and>
        (i = 0 \<or> IsValidCompactionIntentTransition (records ! (i - 1)) (records ! i))) [0..<length records])"

definition compaction_intent :: "byte list \<Rightarrow> nat \<Rightarrow> nat \<Rightarrow> RecordState \<Rightarrow> nat \<Rightarrow> bool \<Rightarrow> WalRecord" where
  "compaction_intent volume_identity volume_serial file_id st replacement_file_id namespace_durable =
     \<lparr>wal_volume_identity = volume_identity, wal_transaction_id = 0, wal_sequence = 0,
      wal_operation = OpCompactionIndex, wal_state = st, wal_object_id = file_id,
      wal_parent_object_id = volume_serial, payload_spool_id = 0, payload_offset = 0, payload_length = 0,
      logical_offset = replacement_file_id, logical_length = 0,
      wal_flags = (if namespace_durable then 1 else 0), payload_sha256 = replicate 32 0, inline_payload = [],
      path_utf8 = kCompactionIntentTag, secondary_path_utf8 = [], unlink_outcome = None\<rparr>"

text \<open>
  The latest intent of an intent file; \<^term>\<open>None\<close> is a refusal.  A torn tail is cut off and the
  file read again.
\<close>

definition ReadLatestCompactionIntent :: "WalPlatform \<Rightarrow> byte list \<Rightarrow> bool \<Rightarrow> byte list \<Rightarrow> (WalRecord \<times> byte list) option" where
  "ReadLatestCompactionIntent pf identity truncates bytes =
     (let (read, complete_prefix_bytes) = DecodeWalBytes pf bytes identity default_limits None in
      if read_status read \<noteq> ReadOk \<or> \<not> IsStrictCompactionIntentHistory (read_records read) identity then None
      else if recovered_torn_tail read then
        if \<not> truncates then None
        else
          let bytes = take complete_prefix_bytes bytes;
              (read, _) = DecodeWalBytes pf bytes identity default_limits None
          in if read_status read \<noteq> ReadOk \<or> recovered_torn_tail read \<or>
                \<not> IsStrictCompactionIntentHistory (read_records read) identity
             then None else Some (last (read_records read), bytes)
      else Some (last (read_records read), bytes))"

text \<open>
  Persisting an intent: into a fresh file, or at the end of the one that is there.  The result is
  the new file; \<^term>\<open>None\<close> is a refusal that writes nothing.
\<close>

definition PersistCompactionIntent ::
  "WalPlatform \<Rightarrow> byte list \<Rightarrow> nat \<Rightarrow> nat \<Rightarrow> RecordState \<Rightarrow> nat \<Rightarrow> bool \<Rightarrow> byte list option \<Rightarrow> byte list option" where
  "PersistCompactionIntent pf identity volume_serial file_id st replacement_file_id namespace_durable intent_file =
     (if namespace_durable \<and> st \<noteq> Cleaned then None
      else
        let intent = compaction_intent identity volume_serial file_id st replacement_file_id namespace_durable;
            encoded = EncodeForTest pf intent
        in if encoded = [] then None
           else case intent_file of
               None \<Rightarrow> Some encoded
             | Some bytes \<Rightarrow>
                 (case ReadLatestCompactionIntent pf identity True bytes of
                    None \<Rightarrow> None
                  | Some (previous, bytes) \<Rightarrow>
                      if wal_volume_identity previous = wal_volume_identity intent \<and>
                         wal_object_id previous = wal_object_id intent \<and>
                         wal_parent_object_id previous = wal_parent_object_id intent \<and>
                         logical_offset previous = logical_offset intent \<and>
                         wal_state previous = wal_state intent \<and> wal_flags previous = wal_flags intent
                      then Some bytes
                      else if \<not> IsValidCompactionIntentTransition previous intent then None
                      else Some (bytes @ encoded)))"

end
