(* ===== verification/WriteAheadLogCodec.thy ===== *)
theory WriteAheadLogCodec
  imports WriteAheadLog
begin

text \<open>
  The frames of the log: the bytes \<^verbatim>\<open>EncodeWalRecord\<close> writes have the shape of a header and
  a body, decoding such a frame gives its record back, and the reader's loop on a cut of a log finds
  the complete frames.
\<close>

section \<open>Reading fields of a concatenation\<close>

named_theorems wal_read \<open>fixed-offset reads of a concatenation of encoded fields\<close>

lemma ReadU16At_skip [wal_read]: "k \<le> n \<Longrightarrow> ReadU16At (le_bytes k v @ xs) n = ReadU16At xs (n - k)"
  by (simp add: ReadU16At_def)

lemma ReadU32At_skip [wal_read]: "k \<le> n \<Longrightarrow> ReadU32At (le_bytes k v @ xs) n = ReadU32At xs (n - k)"
  by (simp add: ReadU32At_def)

lemma ReadU64At_skip [wal_read]: "k \<le> n \<Longrightarrow> ReadU64At (le_bytes k v @ xs) n = ReadU64At xs (n - k)"
  by (simp add: ReadU64At_def)

lemma ReadAt_here [wal_read]:
  "ReadU16At (le_bytes 2 v @ xs) 0 = v mod 65536"
  "ReadU32At (le_bytes 4 v @ xs) 0 = v mod 4294967296"
  "ReadU64At (le_bytes 8 v @ xs) 0 = v mod 18446744073709551616"
  by (simp_all add: ReadU16At_def ReadU32At_def ReadU64At_def)

lemma drop_le_bytes [wal_read]: "k \<le> n \<Longrightarrow> drop n (le_bytes k v @ xs) = drop (n - k) xs"
  by simp

section \<open>The shape of a frame\<close>

definition wal_tail :: "WalRecord \<Rightarrow> byte list" where
  "wal_tail r = payload_sha256 r @ path_utf8 r @ secondary_path_utf8 r @ wal_volume_identity r @ inline_payload r @
     (case unlink_outcome r of None \<Rightarrow> [] | Some outcome \<Rightarrow> unlink_path_utf8 outcome)"

definition wal_extension :: "WalRecord \<Rightarrow> nat \<Rightarrow> byte list" where
  "wal_extension r version =
     (if version = kInlinePayloadVersion then le_bytes 4 (length (inline_payload r))
      else case unlink_outcome r of
        None \<Rightarrow> []
      | Some outcome \<Rightarrow>
          le_bytes 8 (unlink_object_id outcome) @ le_bytes 8 (generation_before outcome) @
          le_bytes 8 (generation_after outcome) @ le_bytes 8 (unlink_parent_object_id outcome) @
          le_bytes 4 (links_before outcome) @ le_bytes 4 (links_after outcome) @
          le_bytes 4 (length (unlink_path_utf8 outcome)))"

definition wal_body :: "WalRecord \<Rightarrow> nat \<Rightarrow> byte list" where
  "wal_body r version =
     le_bytes 8 (wal_transaction_id r) @ le_bytes 8 (wal_sequence r) @
     le_bytes 4 (operation_value (wal_operation r)) @ le_bytes 4 (state_value (wal_state r)) @
     le_bytes 8 (wal_object_id r) @ le_bytes 8 (wal_parent_object_id r) @ le_bytes 8 (payload_spool_id r) @
     le_bytes 8 (payload_offset r) @ le_bytes 8 (payload_length r) @ le_bytes 8 (logical_offset r) @
     le_bytes 8 (logical_length r) @ le_bytes 8 (wal_flags r) @ le_bytes 4 (length (path_utf8 r)) @
     le_bytes 4 (length (secondary_path_utf8 r)) @ le_bytes 4 (length (wal_volume_identity r)) @
     wal_extension r version @ wal_tail r"

definition wal_frame :: "nat \<Rightarrow> nat \<Rightarrow> nat \<Rightarrow> byte list \<Rightarrow> byte list" where
  "wal_frame version frame_size checksum body =
     le_bytes 4 kWalMagic @ le_bytes 2 version @ le_bytes 2 (header_size_of version) @ le_bytes 4 frame_size @
     le_bytes 4 checksum @ body"

lemma length_wal_frame [simp]: "length (wal_frame v n c body) = 16 + length body"
  by (simp add: wal_frame_def)

lemma wal_frame_reads [simp]:
  "ReadU32At (wal_frame v n c body) 0 = kWalMagic" "ReadU16At (wal_frame v n c body) 4 = v mod 65536"
  "ReadU16At (wal_frame v n c body) 6 = header_size_of v" "ReadU32At (wal_frame v n c body) 8 = n mod 4294967296"
  "ReadU32At (wal_frame v n c body) 12 = c mod 4294967296"
  by (simp_all add: wal_frame_def wal_read header_size_of_def kWalMagic_def kUnlinkOutcomeHeaderSize_def
      kInlinePayloadHeaderSize_def kLegacyHeaderSize_def)

lemma drop_wal_frame [simp]: "16 \<le> n \<Longrightarrow> drop n (wal_frame v s c body) = drop (n - 16) body"
  by (simp add: wal_frame_def wal_read)

lemma ReadAt_wal_frame [wal_read]:
  "16 \<le> n \<Longrightarrow> ReadU32At (wal_frame v s c body) n = ReadU32At body (n - 16)"
  "16 \<le> n \<Longrightarrow> ReadU64At (wal_frame v s c body) n = ReadU64At body (n - 16)"
  by (simp_all add: ReadU32At_def ReadU64At_def)

lemma ChecksumRecord_frame: "ChecksumRecord (wal_frame v s c body) = ChecksumRecord (wal_frame v s 0 body)"
  by (simp add: ChecksumRecord_def) (simp add: wal_frame_def)

lemma StoreU32_frame: "StoreU32 (wal_frame v s 0 body) 12 c = wal_frame v s c body"
  by (simp add: StoreU32_def) (simp add: wal_frame_def)

lemma ChecksumRecord_less: "ChecksumRecord bs < 4294967296"
proof -
  have "unat w < 4294967296" for w :: "32 word"
    using unsigned_less [of w, where 'a = nat] by simp
  then show ?thesis by (simp add: ChecksumRecord_def)
qed

lemma wal_tail_length: "length (wal_tail r) = length (payload_sha256 r) + length (path_utf8 r) + length (secondary_path_utf8 r) +
   length (wal_volume_identity r) + length (inline_payload r) +
   (case unlink_outcome r of None \<Rightarrow> 0 | Some outcome \<Rightarrow> length (unlink_path_utf8 outcome))"
  by (simp add: wal_tail_def split: option.split)

lemma version_cases:
  "kUnlinkOutcomeVersion \<noteq> kInlinePayloadVersion" "kUnlinkOutcomeVersion \<noteq> kLegacyVersion" "kInlinePayloadVersion \<noteq> kLegacyVersion"
  "kInlinePayloadVersion \<noteq> kUnlinkOutcomeVersion" "kLegacyVersion \<noteq> kUnlinkOutcomeVersion" "kLegacyVersion \<noteq> kInlinePayloadVersion"
  by (simp_all add: kUnlinkOutcomeVersion_def kInlinePayloadVersion_def kLegacyVersion_def)

lemma wal_buffer_frame:
  "wal_buffer r v (header_size_of v) n = wal_frame v n 0 (wal_body r v)"
  by (simp add: wal_buffer_def wal_frame_def wal_body_def wal_extension_def wal_tail_def Let_def
      AppendU16_def AppendU32_def AppendU64_def split: option.split)

lemma wal_body_length:
  assumes "length (payload_sha256 r) = 32" "(unlink_outcome r \<noteq> None) = (v = kUnlinkOutcomeVersion)"
    "inline_payload r \<noteq> [] \<longrightarrow> v = kInlinePayloadVersion"
  shows "16 + length (wal_body r v) = wal_record_size r (header_size_of v)"
  using assms
  by (cases "unlink_outcome r") (auto simp: wal_body_def wal_extension_def wal_tail_def wal_record_size_def
      header_size_of_def version_cases kUnlinkOutcomeHeaderSize_def kInlinePayloadHeaderSize_def kLegacyHeaderSize_def)

text \<open>What an encoded record is.\<close>

definition encoded_version :: "WalRecord \<Rightarrow> nat \<Rightarrow> bool" where
  "encoded_version r v =
     ((wal_operation r = OpSetExtendedAttribute \<or> wal_operation r \<in> set inline_only_operations \<or> inline_payload r \<noteq> []
         \<longrightarrow> v = kInlinePayloadVersion) \<and>
      (wal_operation r = OpRemoveExtendedAttribute \<longrightarrow> v = kLegacyVersion) \<and>
      ((unlink_outcome r \<noteq> None) = (v = kUnlinkOutcomeVersion)))"

lemma EncodeWalRecord_shape:
  assumes e: "EncodeWalRecord pf r vo = Some bytes" and h: "length (payload_sha256 r) = 32"
  shows "record_consistent pf r \<and> encoded_version r (frame_version r vo) \<and> length bytes \<le> u32_max \<and>
     bytes = wal_frame (frame_version r vo) (length bytes) (ChecksumRecord bytes) (wal_body r (frame_version r vo))"
proof -
  let ?v = "frame_version r vo"
  let ?n = "wal_record_size r (header_size_of ?v)"
  have g: "\<not> encode_refused pf r ?v" and n: "?n \<le> u32_max"
    and b: "bytes = StoreU32 (wal_frame ?v ?n 0 (wal_body r ?v)) 12 (ChecksumRecord (wal_frame ?v ?n 0 (wal_body r ?v)))"
    using e by (auto simp: EncodeWalRecord_def Let_def wal_buffer_frame split: if_splits)
  have ok: "record_consistent pf r" "encoded_version r ?v"
    using g by (auto simp: encode_refused_def record_consistent_def encoded_version_def Let_def)
  have b': "bytes = wal_frame ?v ?n (ChecksumRecord (wal_frame ?v ?n 0 (wal_body r ?v))) (wal_body r ?v)"
    using b by (simp add: StoreU32_frame)
  have "length bytes = 16 + length (wal_body r ?v)" unfolding b' by simp
  also have "\<dots> = ?n" using wal_body_length [OF h, of ?v] ok(2) by (simp add: encoded_version_def)
  finally have len: "length bytes = ?n" .
  have "ChecksumRecord bytes = ChecksumRecord (wal_frame ?v ?n 0 (wal_body r ?v))"
    unfolding b' by (rule ChecksumRecord_frame)
  then show ?thesis using ok n len b' by simp
qed

section \<open>Encoding and decoding a record\<close>

text \<open>The values the fields of a C++ record can have.\<close>

definition outcome_ok :: "UnlinkOutcome \<Rightarrow> bool" where
  "outcome_ok outcome =
     (unlink_object_id outcome \<le> u64_max \<and> generation_before outcome \<le> u64_max \<and> generation_after outcome \<le> u64_max \<and>
      unlink_parent_object_id outcome \<le> u64_max \<and> links_before outcome \<le> u32_max \<and> links_after outcome \<le> u32_max)"

definition wal_record_ok :: "WalRecord \<Rightarrow> bool" where
  "wal_record_ok r =
     (wal_transaction_id r \<le> u64_max \<and> wal_sequence r \<le> u64_max \<and> IsKnownOperation (wal_operation r) \<and>
      state_value (wal_state r) \<le> u32_max \<and> state_of (state_value (wal_state r)) = wal_state r \<and>
      wal_object_id r \<le> u64_max \<and> wal_parent_object_id r \<le> u64_max \<and> payload_spool_id r \<le> u64_max \<and>
      payload_offset r \<le> u64_max \<and> payload_length r \<le> u64_max \<and> logical_offset r \<le> u64_max \<and>
      logical_length r \<le> u64_max \<and> wal_flags r \<le> u64_max \<and> length (payload_sha256 r) = 32 \<and>
      length (inline_payload r) \<le> MaxInlinePayloadBytes \<and>
      (case unlink_outcome r of None \<Rightarrow> True | Some outcome \<Rightarrow> outcome_ok outcome))"

lemma operation_of_value: "IsKnownOperation op \<Longrightarrow> operation_of (operation_value op) = op"
  by (cases op) (simp_all add: IsKnownOperation_def operation_of_def known_operations_def)

lemma operation_value_less: "IsKnownOperation op \<Longrightarrow> operation_value op < 4294967296"
  by (cases op) (simp_all add: IsKnownOperation_def known_operations_def)

lemma mod_u64: "n \<le> u64_max \<Longrightarrow> n mod 18446744073709551616 = n"
  by (simp add: u64_max_def)

lemma mod_u32: "n \<le> u32_max \<Longrightarrow> n mod 4294967296 = n"
  by (simp add: u32_max_def)

lemma wal_body_reads:
  assumes "wal_record_ok r"
  shows "ReadU64At (wal_body r v) 0 = wal_transaction_id r" "ReadU64At (wal_body r v) 8 = wal_sequence r"
    "operation_of (ReadU32At (wal_body r v) 16) = wal_operation r" "state_of (ReadU32At (wal_body r v) 20) = wal_state r"
    "ReadU64At (wal_body r v) 24 = wal_object_id r" "ReadU64At (wal_body r v) 32 = wal_parent_object_id r"
    "ReadU64At (wal_body r v) 40 = payload_spool_id r" "ReadU64At (wal_body r v) 48 = payload_offset r"
    "ReadU64At (wal_body r v) 56 = payload_length r" "ReadU64At (wal_body r v) 64 = logical_offset r"
    "ReadU64At (wal_body r v) 72 = logical_length r" "ReadU64At (wal_body r v) 80 = wal_flags r"
    "ReadU32At (wal_body r v) 88 = length (path_utf8 r) mod 4294967296"
    "ReadU32At (wal_body r v) 92 = length (secondary_path_utf8 r) mod 4294967296"
    "ReadU32At (wal_body r v) 96 = length (wal_volume_identity r) mod 4294967296"
    "100 \<le> n \<Longrightarrow> drop n (wal_body r v) = drop (n - 100) (wal_extension r v @ wal_tail r)"
  using assms
  by (simp_all add: wal_record_ok_def wal_body_def wal_read mod_u64 mod_u32 operation_of_value operation_value_less)

lemma wal_body_extension_reads:
  assumes "wal_record_ok r" "100 \<le> n"
  shows "ReadU32At (wal_body r v) n = ReadU32At (wal_extension r v @ wal_tail r) (n - 100)"
    "ReadU64At (wal_body r v) n = ReadU64At (wal_extension r v @ wal_tail r) (n - 100)"
  using wal_body_reads(16) [OF assms] by (simp_all add: ReadU32At_def ReadU64At_def)

lemma DecodeRecord_frame:
  assumes ok: "wal_record_ok r" and c: "record_consistent pf r" and v: "encoded_version r v"
    and vv: "v \<in> {kLegacyVersion, kInlinePayloadVersion, kUnlinkOutcomeVersion}"
    and frame: "bytes = wal_frame v (length bytes) (ChecksumRecord bytes) (wal_body r v)"
    and inode: "wal_operation r = OpSetInodeMetadata \<Longrightarrow> v = kInlinePayloadVersion"
    and small: "length bytes \<le> u32_max"
    and identity: "identity = [] \<or> identity = wal_volume_identity r"
  shows "DecodeRecord pf bytes v identity = Inr r"
proof -
  let ?b = "wal_frame v (length bytes) (ChecksumRecord bytes) (wal_body r v)"
  have sum: "ReadU32At bytes 12 = ChecksumRecord bytes"
    by (subst frame) (simp add: ChecksumRecord_less)
  have len: "length bytes = 16 + length (wal_body r v)" by (subst frame) simp
  have hash: "length (payload_sha256 r) = 32" using ok by (simp add: wal_record_ok_def)
  have n: "length bytes = wal_record_size r (header_size_of v)"
    using len wal_body_length [OF hash, of v] v by (simp add: encoded_version_def)
  note reads = wal_body_reads [OF ok] wal_body_extension_reads [OF ok]
  have dr: "drop k bytes = drop (k - 16) (wal_body r v)" if "16 \<le> k" for k
    using that by (subst frame) simp
  have r32: "ReadU32At bytes k = ReadU32At (wal_body r v) (k - 16)" and r64: "ReadU64At bytes k = ReadU64At (wal_body r v) (k - 16)"
    if "16 \<le> k" for k using dr [OF that] by (simp_all add: ReadU32At_def ReadU64At_def)
  have lens: "length (path_utf8 r) \<le> u32_max" "length (secondary_path_utf8 r) \<le> u32_max"
     "length (wal_volume_identity r) \<le> u32_max" "length (inline_payload r) \<le> u32_max"
     "\<And>u. unlink_outcome r = Some u \<Longrightarrow> length (unlink_path_utf8 u) \<le> u32_max"
    using small n by (auto simp: wal_record_size_def)
  let ?E = "wal_extension r v"
  have tail: "drop (116 + length ?E) bytes = wal_tail r" by (simp add: dr reads)
  have drops: "drop (116 + length ?E + k) bytes = drop k (wal_tail r)" for k
    using tail by (simp add: add.commute flip: drop_drop)
  have nE: "length bytes = 116 + length ?E + length (wal_tail r)"
    using len by (simp add: wal_body_def)
  have tail_len: "length (wal_tail r) = 32 + length (path_utf8 r) + length (secondary_path_utf8 r) +
      length (wal_volume_identity r) + length (inline_payload r) +
      (case unlink_outcome r of None \<Rightarrow> 0 | Some u \<Rightarrow> length (unlink_path_utf8 u))"
    using hash by (simp add: wal_tail_length)
  have E: "length ?E = (if v = kInlinePayloadVersion then 4 else if v = kUnlinkOutcomeVersion then 44 else 0)"
    using v by (auto simp: wal_extension_def encoded_version_def version_cases split: option.split)
  have inl: "(if v = kInlinePayloadVersion then ReadU32At bytes 116 else 0) = length (inline_payload r)"
    using v lens(4) by (auto simp: r32 reads wal_extension_def wal_read mod_u32 encoded_version_def)
  have unl: "(if v = kUnlinkOutcomeVersion then ReadU32At bytes 156 else 0) =
      (case unlink_outcome r of None \<Rightarrow> 0 | Some u \<Rightarrow> length (unlink_path_utf8 u))"
    using v lens(5) by (auto simp: r32 reads wal_extension_def wal_read mod_u32 encoded_version_def version_cases split: option.split)
  define c where "c = 116 + length ?E"
  have cur: "(if v = kInlinePayloadVersion then 120 else if v = kUnlinkOutcomeVersion then 160 else 116) = c"
    by (simp add: c_def E)
  have cdrop: "drop (c + k) bytes = drop k (wal_tail r)" "drop c bytes = wal_tail r" for k
    using drops tail by (simp_all add: c_def)
  have parts: "take PayloadHashSize (drop c bytes) = payload_sha256 r"
    "take (length (path_utf8 r)) (drop (c + PayloadHashSize) bytes) = path_utf8 r"
    "take (length (secondary_path_utf8 r)) (drop (c + PayloadHashSize + length (path_utf8 r)) bytes) = secondary_path_utf8 r"
    "take (length (wal_volume_identity r))
       (drop (c + PayloadHashSize + length (path_utf8 r) + length (secondary_path_utf8 r)) bytes) = wal_volume_identity r"
    "take (length (inline_payload r))
       (drop (c + PayloadHashSize + length (path_utf8 r) + length (secondary_path_utf8 r) + length (wal_volume_identity r)) bytes) =
       inline_payload r"
    "drop (c + PayloadHashSize + length (path_utf8 r) + length (secondary_path_utf8 r) + length (wal_volume_identity r) +
        length (inline_payload r)) bytes = (case unlink_outcome r of None \<Rightarrow> [] | Some u \<Rightarrow> unlink_path_utf8 u)"
    by (simp_all add: add.assoc cdrop wal_tail_def hash PayloadHashSize_def)
  have outcome: "(if v = kUnlinkOutcomeVersion then
        Some \<lparr>unlink_object_id = ReadU64At bytes 116, generation_before = ReadU64At bytes 124,
              generation_after = ReadU64At bytes 132, unlink_parent_object_id = ReadU64At bytes 140,
              links_before = ReadU32At bytes 148, links_after = ReadU32At bytes 152,
              unlink_path_utf8 = take (case unlink_outcome r of None \<Rightarrow> 0 | Some u \<Rightarrow> length (unlink_path_utf8 u))
                (case unlink_outcome r of None \<Rightarrow> [] | Some u \<Rightarrow> unlink_path_utf8 u)\<rparr>
      else None) = unlink_outcome r"
    using v ok by (auto simp: r32 r64 reads wal_extension_def wal_read mod_u32 mod_u64 encoded_version_def version_cases
        wal_record_ok_def outcome_ok_def split: option.split)
  have lengths: "ReadU32At bytes 104 = length (path_utf8 r)" "ReadU32At bytes 108 = length (secondary_path_utf8 r)"
    "ReadU32At bytes 112 = length (wal_volume_identity r)"
    using lens by (simp_all add: r32 reads mod_u32)
  have fields: "ReadU64At bytes 16 = wal_transaction_id r" "ReadU64At bytes 24 = wal_sequence r"
    "operation_of (ReadU32At bytes 32) = wal_operation r" "state_of (ReadU32At bytes 36) = wal_state r"
    "ReadU64At bytes 40 = wal_object_id r" "ReadU64At bytes 48 = wal_parent_object_id r"
    "ReadU64At bytes 56 = payload_spool_id r" "ReadU64At bytes 64 = payload_offset r"
    "ReadU64At bytes 72 = payload_length r" "ReadU64At bytes 80 = logical_offset r"
    "ReadU64At bytes 88 = logical_length r" "ReadU64At bytes 96 = wal_flags r"
    by (simp_all add: r32 r64 reads)
  have fits: "length (inline_payload r) \<le> MaxInlinePayloadBytes" "IsKnownOperation (wal_operation r)"
    using ok by (auto simp: wal_record_ok_def)
  have total_len: "length bytes = c + PayloadHashSize + (length (path_utf8 r) + length (secondary_path_utf8 r) +
      length (wal_volume_identity r) + length (inline_payload r) +
      (case unlink_outcome r of None \<Rightarrow> 0 | Some u \<Rightarrow> length (unlink_path_utf8 u)))"
    using nE tail_len by (simp add: c_def PayloadHashSize_def)
  have guards: "wal_operation r \<noteq> OpSetExtendedAttribute \<or> v = kInlinePayloadVersion"
     "wal_operation r \<noteq> OpRemoveExtendedAttribute \<or> v = kLegacyVersion"
     "\<not> (wal_operation r \<in> set inline_only_operations \<and> v \<noteq> kInlinePayloadVersion)"
     "\<not> (wal_operation r = OpSetInodeMetadata \<and> v \<noteq> kInlinePayloadVersion)"
    using v inode by (auto simp: encoded_version_def)
  have eta: "\<lparr>wal_volume_identity = wal_volume_identity r, wal_transaction_id = wal_transaction_id r,
      wal_sequence = wal_sequence r, wal_operation = wal_operation r, wal_state = wal_state r,
      wal_object_id = wal_object_id r, wal_parent_object_id = wal_parent_object_id r,
      payload_spool_id = payload_spool_id r, payload_offset = payload_offset r, payload_length = payload_length r,
      logical_offset = logical_offset r, logical_length = logical_length r, wal_flags = wal_flags r,
      payload_sha256 = payload_sha256 r, inline_payload = inline_payload r, path_utf8 = path_utf8 r,
      secondary_path_utf8 = secondary_path_utf8 r, unlink_outcome = unlink_outcome r\<rparr> = r" by simp
  show ?thesis
    unfolding DecodeRecord_def Let_def sum lengths inl unl cur fields parts outcome eta
    using fits guards c identity total_len by auto
qed

lemma frame_version_auto: "frame_version r 0 \<in> {kLegacyVersion, kInlinePayloadVersion, kUnlinkOutcomeVersion}"
  by (simp add: frame_version_def)

lemma inode_metadata_version:
  assumes "record_consistent pf r" "wal_operation r = OpSetInodeMetadata"
  shows "frame_version r 0 = kInlinePayloadVersion"
proof -
  have "DecodeInodeMetadataPatch (inline_payload r) \<noteq> None" "unlink_outcome r = None"
    using assms by (auto simp: record_consistent_def InlinePayloadIsConsistentImpl_def
        InodeMetadataMutationIsConsistentImpl_def Let_def)
  then have "inline_payload r \<noteq> []" using DecodeInodeMetadataPatch_length [of "inline_payload r"] by force
  then show ?thesis using \<open>unlink_outcome r = None\<close> by (simp add: frame_version_def)
qed

text \<open>A record the log can hold: it encodes, within the limits of the reader.\<close>

definition loggable :: "WalPlatform \<Rightarrow> byte list \<Rightarrow> WalRecord \<Rightarrow> bool" where
  "loggable pf identity r =
     (wal_record_ok r \<and> EncodeWalRecord pf r 0 \<noteq> None \<and> length (EncodeForTest pf r) \<le> kMaxRecordBytes \<and>
      (identity = [] \<or> identity = wal_volume_identity r))"

lemma loggable_frame:
  assumes "loggable pf identity r"
  shows "EncodeForTest pf r = wal_frame (frame_version r 0) (length (EncodeForTest pf r))
            (ChecksumRecord (EncodeForTest pf r)) (wal_body r (frame_version r 0))"
    and "DecodeRecord pf (EncodeForTest pf r) (frame_version r 0) identity = Inr r"
    and "header_size_of (frame_version r 0) \<le> length (EncodeForTest pf r)"
    and "length (EncodeForTest pf r) \<le> kMaxRecordBytes"
proof -
  obtain bytes where e: "EncodeWalRecord pf r 0 = Some bytes" and b: "EncodeForTest pf r = bytes"
    using assms by (auto simp: loggable_def EncodeForTest_def)
  have ok: "wal_record_ok r" "length (payload_sha256 r) = 32" "identity = [] \<or> identity = wal_volume_identity r"
    using assms by (auto simp: loggable_def wal_record_ok_def)
  note s = EncodeWalRecord_shape [OF e ok(2)]
  show "EncodeForTest pf r = wal_frame (frame_version r 0) (length (EncodeForTest pf r))
            (ChecksumRecord (EncodeForTest pf r)) (wal_body r (frame_version r 0))"
    using s b by simp
  show "DecodeRecord pf (EncodeForTest pf r) (frame_version r 0) identity = Inr r"
    unfolding b using s inode_metadata_version [of pf r] ok frame_version_auto [of r] by (intro DecodeRecord_frame) auto
  have "length bytes = 16 + length (wal_body r (frame_version r 0))" using s by (metis length_wal_frame)
  then show "header_size_of (frame_version r 0) \<le> length (EncodeForTest pf r)"
    using wal_body_length [OF ok(2), of "frame_version r 0"] s unfolding b
    by (simp add: encoded_version_def wal_record_size_def)
  show "length (EncodeForTest pf r) \<le> kMaxRecordBytes" using assms by (simp add: loggable_def)
qed

section \<open>A log and its prefixes\<close>

lemma header_size_bounds: "148 \<le> header_size_of v" "kLegacyHeaderSize = 148"
  by (simp_all add: header_size_of_def kUnlinkOutcomeHeaderSize_def kInlinePayloadHeaderSize_def kLegacyHeaderSize_def)

lemma take_wal_frame: "16 \<le> n \<Longrightarrow> take n (wal_frame v s c body) = wal_frame v s c (take (n - 16) body)"
  by (simp add: wal_frame_def)

lemma DecodeWalFrameHeader_prefix:
  assumes l: "loggable pf identity r" and n: "16 \<le> n"
  shows "DecodeWalFrameHeader (take 12 (take n (EncodeForTest pf r) @ rest)) = Inr (frame_version r 0, length (EncodeForTest pf r))"
proof -
  let ?v = "frame_version r 0" and ?f = "EncodeForTest pf r"
  note f = loggable_frame [OF l]
  have len: "length ?f \<le> 67108864" "16 \<le> length ?f"
    using f(3,4) header_size_bounds(1) [of ?v] by (simp_all add: kMaxRecordBytes_def)
  have v: "?v mod 65536 = ?v" using frame_version_auto [of r]
    by (auto simp: kLegacyVersion_def kInlinePayloadVersion_def kUnlinkOutcomeVersion_def)
  have h: "header_size_of ?v mod 65536 = header_size_of ?v"
    by (simp add: header_size_of_def kUnlinkOutcomeHeaderSize_def kInlinePayloadHeaderSize_def kLegacyHeaderSize_def)
  have "take 12 (take n ?f @ rest) = take 12 ?f" using n len by (simp add: min_def)
  also have "\<dots> = le_bytes 4 kWalMagic @ le_bytes 2 ?v @ le_bytes 2 (header_size_of ?v) @ le_bytes 4 (length ?f)"
    by (subst f(1)) (simp add: wal_frame_def)
  finally have t: "take 12 (take n ?f @ rest) = \<dots>" .
  have reads: "ReadU32At (le_bytes 4 kWalMagic @ le_bytes 2 ?v @ le_bytes 2 (header_size_of ?v) @ le_bytes 4 (length ?f)) 0 = kWalMagic"
    "ReadU16At (le_bytes 4 kWalMagic @ le_bytes 2 ?v @ le_bytes 2 (header_size_of ?v) @ le_bytes 4 (length ?f)) 4 = ?v"
    "ReadU16At (le_bytes 4 kWalMagic @ le_bytes 2 ?v @ le_bytes 2 (header_size_of ?v) @ le_bytes 4 (length ?f)) 6 = header_size_of ?v"
    "ReadU32At (le_bytes 4 kWalMagic @ le_bytes 2 ?v @ le_bytes 2 (header_size_of ?v) @ le_bytes 4 (length ?f)) 8 = length ?f"
    using v h len by (simp_all add: wal_read kWalMagic_def) (simp add: ReadU32At_def)
  show ?thesis
    unfolding t DecodeWalFrameHeader_def using reads frame_version_auto [of r] f(3,4) by (auto simp: Let_def)
qed

lemma magic_bytes: "le_bytes 4 kWalMagic = [65, 65, 76, 87]"
proof -
  have "(4::nat) = Suc (Suc (Suc (Suc 0)))" by simp
  then show ?thesis by (simp only: le_bytes.simps kWalMagic_def) simp
qed

lemma not_protected:
  assumes l: "loggable pf identity r" and n: "0 < n"
  shows "\<not> IsProtectedWalPrefix (take n (EncodeForTest pf r) @ rest)"
proof -
  note f = loggable_frame [OF l]
  have "EncodeForTest pf r \<noteq> []" using f(3) header_size_bounds(1) [of "frame_version r 0"] by auto
  moreover have "hd (EncodeForTest pf r) = 65" by (subst f(1)) (simp add: wal_frame_def magic_bytes)
  ultimately obtain ys where "take n (EncodeForTest pf r) @ rest = 65 # ys"
    using n by (cases "EncodeForTest pf r"; cases n) auto
  then show ?thesis by (auto simp: IsProtectedWalPrefix_def protected_magic_def Let_def min_def take_Cons')
qed


text \<open>
  Reading the first \<open>n\<close> bytes of a log: the records whose frames are complete, and a torn tail
  when \<open>n\<close> falls inside a frame.
\<close>

fun complete_frames :: "WalPlatform \<Rightarrow> nat \<Rightarrow> WalRecord list \<Rightarrow> WalRecord list" where
  "complete_frames pf n [] = []"
| "complete_frames pf n (r # rs) =
     (if length (EncodeForTest pf r) \<le> n then r # complete_frames pf (n - length (EncodeForTest pf r)) rs else [])"

definition log_bytes :: "WalPlatform \<Rightarrow> WalRecord list \<Rightarrow> byte list" where
  "log_bytes pf rs = concat (map (EncodeForTest pf) rs)"

lemma log_bytes_simps [simp]:
  "log_bytes pf [] = []" "log_bytes pf (r # rs) = EncodeForTest pf r @ log_bytes pf rs"
  "log_bytes pf (rs @ rs') = log_bytes pf rs @ log_bytes pf rs'"
  by (simp_all add: log_bytes_def)

lemma decode_frames_prefix:
  assumes "list_all (loggable pf identity) rs" "length acc + length rs \<le> max_records" "n \<le> length (log_bytes pf rs)"
  shows "decode_frames pf identity max_records cursor acc (take n (log_bytes pf rs)) =
    (let whole = complete_frames pf n rs; m = length (log_bytes pf whole) in
     (\<lparr>read_status = ReadOk, recovered_torn_tail = (m < n), read_records = acc @ whole\<rparr>, Some (cursor + m)))"
  using assms
proof (induction rs arbitrary: n acc cursor)
  case Nil
  then show ?case by (subst decode_frames.simps) simp
next
  case (Cons r rs)
  let ?f = "EncodeForTest pf r"
  have l: "loggable pf identity r" and ls: "list_all (loggable pf identity) rs" using Cons.prems by auto
  note f = loggable_frame [OF l]
  have f148: "148 \<le> length ?f" using f(3) header_size_bounds(1) [of "frame_version r 0"] by simp
  show ?case
  proof (cases "n = 0")
    case True
    have "length ?f > 0" using f148 by linarith
    then show ?thesis using True by (subst decode_frames.simps) (auto simp: Let_def)
  next
    case n0: False
    define B where "B = take n (?f @ log_bytes pf rs)"
    have bytes: "B = take n ?f @ take (n - length ?f) (log_bytes pf rs)" by (simp add: B_def)
    have np: "\<not> IsProtectedWalPrefix B" unfolding bytes using not_protected [OF l] n0 by simp
    have ne: "B \<noteq> []" using n0 f148 by (auto simp: B_def)
    have lim: "\<not> max_records \<le> length acc" using Cons.prems(2) by simp
    have len: "length B = n" using Cons.prems(3) by (simp add: B_def)
    have goal: "take n (log_bytes pf (r # rs)) = B" by (simp add: B_def)
    show ?thesis
    proof (cases "length ?f \<le> n")
      case False
      then have "complete_frames pf n (r # rs) = []" by simp
      moreover have "decode_frames pf identity max_records cursor acc B =
          (\<lparr>read_status = ReadOk, recovered_torn_tail = True, read_records = acc\<rparr>, Some cursor)"
      proof (cases "n < 148")
        case True
        then show ?thesis using ne np lim len by (subst decode_frames.simps) (simp add: header_size_bounds)
      next
        case n148: False
        then have "DecodeWalFrameHeader (take 12 B) = Inr (frame_version r 0, length ?f)"
          unfolding bytes using DecodeWalFrameHeader_prefix [OF l, of n] by simp
        then show ?thesis using ne np lim len n148 False by (subst decode_frames.simps) (simp add: header_size_bounds)
      qed
      ultimately show ?thesis unfolding goal using n0 by (simp add: Let_def)
    next
      case True
      have h: "DecodeWalFrameHeader (take 12 B) = Inr (frame_version r 0, length ?f)"
        unfolding bytes using DecodeWalFrameHeader_prefix [OF l, of n] True f148 by simp
      have t: "take (length ?f) B = ?f" "drop (length ?f) B = take (n - length ?f) (log_bytes pf rs)"
        using True by (simp_all add: B_def)
      have "decode_frames pf identity max_records cursor acc B =
          decode_frames pf identity max_records (cursor + length ?f) (acc @ [r]) (take (n - length ?f) (log_bytes pf rs))"
        using ne np lim len h t f(2) True f148 by (subst decode_frames.simps) (simp add: header_size_bounds)
      also have "\<dots> = (let whole = complete_frames pf (n - length ?f) rs; m = length (log_bytes pf whole) in
          (\<lparr>read_status = ReadOk, recovered_torn_tail = (m < n - length ?f), read_records = (acc @ [r]) @ whole\<rparr>,
           Some (cursor + length ?f + m)))"
        using Cons.prems by (intro Cons.IH [OF ls]) auto
      finally show ?thesis unfolding goal using True by (simp add: Let_def less_diff_conv add.commute add.assoc)
    qed
  qed
qed

lemma complete_frames_prefix: "\<exists>k. complete_frames pf n rs = take k rs"
proof (induction rs arbitrary: n)
  case (Cons r rs)
  obtain k where "complete_frames pf (n - length (EncodeForTest pf r)) rs = take k rs" using Cons.IH by blast
  then have "complete_frames pf n (r # rs) = (if length (EncodeForTest pf r) \<le> n then take (Suc k) (r # rs) else take 0 (r # rs))"
    by simp
  then show ?case by metis
qed simp

lemma complete_frames_append:
  "length (log_bytes pf rs) \<le> n \<Longrightarrow>
     complete_frames pf n (rs @ rs') = rs @ complete_frames pf (n - length (log_bytes pf rs)) rs'"
  by (induction rs arbitrary: n) auto

lemma complete_frames_all: "complete_frames pf (length (log_bytes pf rs)) rs = rs"
  by (induction rs) auto

lemma log_bytes_complete: "length (log_bytes pf (complete_frames pf n rs)) \<le> n"
proof (induction rs arbitrary: n)
  case (Cons r rs)
  show ?case using Cons [of "n - length (EncodeForTest pf r)"] by auto
qed simp

end
