(* ===== verification/WriteAheadLogRecovery.thy ===== *)
theory WriteAheadLogRecovery
  imports WriteAheadLogCodec "HOL-Library.Sublist"
begin

text \<open>
  Appending to the log and reading it after a crash: what a cut of a log reads as, what a repairing
  read leaves, and the runs of appends, failures and repairs of a log over its life.
\<close>

section \<open>Properties of the log\<close>

lemma DecodeWalBytes_prefix:
  assumes rs: "list_all (loggable pf identity) rs" and n: "n \<le> length (log_bytes pf rs)"
    and lim: "n \<le> limit_bytes limits" "length rs \<le> limit_records limits"
  shows "DecodeWalBytes pf (take n (log_bytes pf rs)) identity limits None =
    (\<lparr>read_status = ReadOk,
      recovered_torn_tail = (length (log_bytes pf (complete_frames pf n rs)) < n),
      read_records = complete_frames pf n rs\<rparr>, length (log_bytes pf (complete_frames pf n rs)))"
proof -
  have "decode_frames pf identity (limit_records limits) 0 [] (take n (log_bytes pf rs)) =
    (\<lparr>read_status = ReadOk, recovered_torn_tail = (length (log_bytes pf (complete_frames pf n rs)) < n),
      read_records = complete_frames pf n rs\<rparr>, Some (length (log_bytes pf (complete_frames pf n rs))))"
    using decode_frames_prefix [OF rs, of "[]" "limit_records limits" n 0] lim n by (simp add: Let_def)
  then show ?thesis using n lim by (simp add: DecodeWalBytes_def Let_def)
qed

lemma complete_frames_loggable:
  "list_all P rs \<Longrightarrow> list_all P (complete_frames pf n rs)"
  using complete_frames_prefix [of pf n rs] by (metis in_set_takeD list_all_iff)

lemma log_prefix: "take (length (log_bytes pf (complete_frames pf n rs))) (log_bytes pf rs) = log_bytes pf (complete_frames pf n rs)"
proof -
  obtain k where k: "complete_frames pf n rs = take k rs" using complete_frames_prefix by blast
  have "log_bytes pf rs = log_bytes pf (take k rs) @ log_bytes pf (drop k rs)"
    by (metis append_take_drop_id log_bytes_simps(3))
  then show ?thesis by (simp add: k)
qed

text \<open>Appending, in terms of the records.\<close>

definition stamped :: "WalOptions \<Rightarrow> WalRecord \<Rightarrow> WalRecord" where
  "stamped opts r = (if wal_volume_identity r = [] then r\<lparr>wal_volume_identity := option_volume_identity opts\<rparr> else r)"

lemma writable_stamped: "writable_record opts r = Some w \<Longrightarrow> w = stamped opts r"
  by (auto simp: writable_record_def stamped_def split: if_splits)

lemma encode_batch_log: "encode_batch pf opts rs = Some bytes \<Longrightarrow> bytes = log_bytes pf (map (stamped opts) rs)"
  by (induction rs arbitrary: bytes) (auto dest!: writable_stamped split: option.splits if_splits)

lemma AppendBatch_file:
  assumes "has_path opts" "records \<noteq> []"
  shows "\<exists>n. snd (AppendBatchWithResult pf opts io records d g wal_bytes) =
        wal_bytes @ take n (log_bytes pf (map (stamped opts) records)) \<and>
      (fst (AppendBatchWithResult pf opts io records d g wal_bytes) = AppendSucceeded \<longrightarrow>
         n = length (log_bytes pf (map (stamped opts) records))) \<and>
      (fst (AppendBatchWithResult pf opts io records d g wal_bytes) = AppendRejectedBeforeWrite \<longrightarrow> n = 0)"
proof (cases "encode_batch pf opts records")
  case None
  then show ?thesis using assms by (intro exI [of _ 0]) (simp add: AppendBatchWithResult_def)
next
  case (Some encoded)
  note e = encode_batch_log [OF Some]
  let ?n = "if \<not> (lease_refused io g \<or> \<not> directory_ready io) \<and>
       \<not> (max_bytes opts > 0 \<and> (length wal_bytes > max_bytes opts \<or> length encoded > max_bytes opts - length wal_bytes)) \<and>
       handle_ready io then case short_write io of None \<Rightarrow> length encoded | Some n \<Rightarrow> n else 0"
  show ?thesis
    using assms Some e
    by (intro exI [of _ ?n])
       (auto simp: AppendBatchWithResult_def AppendEncoded_def finish_append_def split: option.split)
qed

text \<open>Flipping a byte of a frame.\<close>

lemma le_value_inj: "length xs = length ys \<Longrightarrow> le_value xs = le_value ys \<longleftrightarrow> xs = ys"
  by (metis le_bytes_le_value)

lemma zeroed_update:
  assumes "length bs \<ge> 16" "i < length bs"
  shows "take 12 (bs[i := b]) @ [0, 0, 0, 0] @ drop 16 (bs[i := b]) =
     (if 12 \<le> i \<and> i < 16 then take 12 bs @ [0, 0, 0, 0] @ drop 16 bs
      else (take 12 bs @ [0, 0, 0, 0] @ drop 16 bs)[i := b])"
proof (rule nth_equalityI)
  fix j assume "j < length (take 12 (bs[i := b]) @ [0, 0, 0, 0] @ drop 16 (bs[i := b]))"
  then have j: "j < length bs" using assms by auto
  have z: "(take 12 cs @ [0, 0, 0, 0] @ drop 16 cs) ! j = (if 12 \<le> j \<and> j < 16 then 0 else cs ! j)"
    if "length cs = length bs" for cs
    using that j assms by (auto simp: nth_append nth_Cons')
  show "(take 12 (bs[i := b]) @ [0, 0, 0, 0] @ drop 16 (bs[i := b])) ! j =
     (if 12 \<le> i \<and> i < 16 then take 12 bs @ [0, 0, 0, 0] @ drop 16 bs
      else (take 12 bs @ [0, 0, 0, 0] @ drop 16 bs)[i := b]) ! j"
    using z [of bs] z [of "bs[i := b]"] assms j by (auto simp: nth_list_update)
qed (use assms in auto)

lemma checksum_flip:
  assumes len: "16 \<le> length bs" and sum: "ChecksumRecord bs = ReadU32At bs 12" and i: "i < length bs" and b: "b \<noteq> bs ! i"
  shows "ChecksumRecord (bs[i := b]) \<noteq> ReadU32At (bs[i := b]) 12"
proof (cases "12 \<le> i \<and> i < 16")
  case True
  have "ChecksumRecord (bs[i := b]) = ChecksumRecord bs"
    using True len zeroed_update [OF len i, of b] by (simp add: ChecksumRecord_def)
  moreover have "take 4 (drop 12 (bs[i := b])) \<noteq> take 4 (drop 12 bs)"
  proof
    assume "take 4 (drop 12 (bs[i := b])) = take 4 (drop 12 bs)"
    then have "take 4 (drop 12 (bs[i := b])) ! (i - 12) = take 4 (drop 12 bs) ! (i - 12)" by simp
    moreover have "i - 12 < 4" "12 + (i - 12) = i" using True by auto
    ultimately show False using i b len by simp
  qed
  then have "ReadU32At (bs[i := b]) 12 \<noteq> ReadU32At bs 12"
    unfolding ReadU32At_def using le_value_inj [of "take 4 (drop 12 (bs[i := b]))" "take 4 (drop 12 bs)"] by simp
  ultimately show ?thesis using sum by simp
next
  case False
  let ?z = "take 12 bs @ [0, 0, 0, 0] @ drop 16 bs"
  have z: "?z ! i = bs ! i" "i < length ?z" using False i len by (auto simp: nth_append nth_Cons')
  have "UpdateFnv1a fnv_seed (?z[i := b]) \<noteq> UpdateFnv1a fnv_seed ?z"
    using UpdateFnv1a_update [of i ?z b fnv_seed] z b by simp
  then have "ChecksumRecord (bs[i := b]) \<noteq> ChecksumRecord bs"
    using False len zeroed_update [OF len i, of b] by (simp add: ChecksumRecord_def word_unat_eq_iff)
  moreover have "ReadU32At (bs[i := b]) 12 = ReadU32At bs 12"
    using False by (auto simp: ReadU32At_def drop_update_swap take_update_swap list_update_beyond)
  ultimately show ?thesis using sum by simp
qed

lemma loggableI:
  assumes ok: "wal_record_ok r" and e: "\<not> encode_refused pf r (frame_version r 0)"
    and n: "wal_record_size r (header_size_of (frame_version r 0)) \<le> kMaxRecordBytes"
    and i: "identity = [] \<or> identity = wal_volume_identity r"
  shows "loggable pf identity r"
proof -
  let ?v = "frame_version r 0" and ?n = "wal_record_size r (header_size_of (frame_version r 0))"
  have "?n \<le> u32_max" using n by (simp add: kMaxRecordBytes_def u32_max_def)
  then have enc: "EncodeWalRecord pf r 0 =
      Some (wal_frame ?v ?n (ChecksumRecord (wal_frame ?v ?n 0 (wal_body r ?v))) (wal_body r ?v))"
    using e by (simp add: EncodeWalRecord_def Let_def wal_buffer_frame StoreU32_frame)
  have "encoded_version r ?v" using e by (auto simp: encode_refused_def encoded_version_def Let_def)
  then have "16 + length (wal_body r ?v) = ?n"
    using ok by (intro wal_body_length) (auto simp: encoded_version_def wal_record_ok_def)
  then show ?thesis using ok enc n i by (simp add: loggable_def EncodeForTest_def)
qed

definition example_platform :: WalPlatform where
  "example_platform =
     \<lparr>sha256 = (\<lambda>bytes. Some (replicate 32 (word_of_nat (length bytes)))), utf8_valid = (\<lambda>bytes. True),
      clone_range_consistent = (\<lambda>r. False), sparse_consistent = (\<lambda>r. False), hard_link_consistent = (\<lambda>r. False),
      snapshot_intent = (\<lambda>bytes. None), count_repair = (\<lambda>bytes. None), quota_reserve = (\<lambda>bytes. None),
      volume_rename = (\<lambda>bytes. None), clone_proof = (\<lambda>bytes. None), compression_rewrite = (\<lambda>bytes. None)\<rparr>"

definition example_write :: "nat \<Rightarrow> byte list \<Rightarrow> WalRecord" where
  "example_write sequence payload =
     \<lparr>wal_volume_identity = [118], wal_transaction_id = 1, wal_sequence = sequence, wal_operation = OpWrite,
      wal_state = Prepared, wal_object_id = 17, wal_parent_object_id = 2, payload_spool_id = 0, payload_offset = 0,
      payload_length = length payload, logical_offset = 0, logical_length = length payload, wal_flags = 0,
      payload_sha256 = replicate 32 (word_of_nat (length payload)), inline_payload = payload, path_utf8 = [92, 97],
      secondary_path_utf8 = [], unlink_outcome = None\<rparr>"

lemma example_write_loggable:
  assumes "sequence \<le> u64_max" "length payload \<le> 1048576"
  shows "loggable example_platform [118] (example_write sequence payload)"
proof (rule loggableI)
  show "wal_record_ok (example_write sequence payload)"
    using assms by (simp add: wal_record_ok_def example_write_def IsKnownOperation_def known_operations_def state_of_def
        MaxInlinePayloadBytes_def u64_max_def u32_max_def)
  show "\<not> encode_refused example_platform (example_write sequence payload) (frame_version (example_write sequence payload) 0)"
    using assms
    by (simp add: encode_refused_def frame_version_def example_write_def Let_def inline_only_operations_def version_cases
        InodeMetadataMutationIsConsistentImpl_def AllocationSizeMutationIsConsistentImpl_def
        DirectoryRestoreMutationIsConsistentImpl_def InlinePayloadIsConsistentImpl_def
        ExtendedAttributeMutationIsConsistentImpl_def UnlinkOutcomeIsConsistentImpl_def payload_hash_matches_def
        example_platform_def MaxInlinePayloadBytes_def)
  show "wal_record_size (example_write sequence payload) (header_size_of (frame_version (example_write sequence payload) 0)) \<le> kMaxRecordBytes"
    using assms by (simp add: wal_record_size_def frame_version_def example_write_def header_size_of_def version_cases
        kMaxRecordBytes_def kInlinePayloadHeaderSize_def kLegacyHeaderSize_def)
  show "[118] = [] \<or> [118] = wal_volume_identity (example_write sequence payload)" by (simp add: example_write_def)
qed

text \<open>
  Round trip of a frame: decoding the frame of a record that the log accepts gives the
  record back.
\<close>

lemma DecodeRecord_EncodeForTest:
  assumes "loggable pf identity r"
  shows "DecodeRecord pf (EncodeForTest pf r) (frame_version r 0) identity = Inr r"
  using loggable_frame(2) [OF assms] .

lemma DecodeRecord_EncodeForTest_witness:
  "DecodeRecord example_platform (EncodeForTest example_platform (example_write 3 [1, 2]))
     (frame_version (example_write 3 [1, 2]) 0) [118] = Inr (example_write 3 [1, 2])"
  by (rule DecodeRecord_EncodeForTest) (rule example_write_loggable; simp add: u64_max_def)

text \<open>
  C8. A torn log: the first \<open>n\<close> bytes of a log, wherever a crash cut it, read without error as the
  records whose frames are complete; the tail is reported torn exactly when bytes are left over,
  and the reported prefix is the bytes of those records.
\<close>

theorem DecodeWalBytes_torn:
  assumes "list_all (loggable pf identity) rs" and "n \<le> length (log_bytes pf rs)"
    and "n \<le> limit_bytes limits" and "length rs \<le> limit_records limits"
  shows "DecodeWalBytes pf (take n (log_bytes pf rs)) identity limits None =
    (\<lparr>read_status = ReadOk,
      recovered_torn_tail = (length (log_bytes pf (complete_frames pf n rs)) < n),
      read_records = complete_frames pf n rs\<rparr>, length (log_bytes pf (complete_frames pf n rs)))"
  using assms by (rule DecodeWalBytes_prefix)

theorem DecodeWalBytes_torn_witness:
  "DecodeWalBytes example_platform (take 160 (log_bytes example_platform [example_write 3 [1, 2], example_write 4 []])) [118]
     \<lparr>limit_bytes = 4096, limit_records = 8\<rparr> None =
    (\<lparr>read_status = ReadOk,
      recovered_torn_tail =
        (length (log_bytes example_platform (complete_frames example_platform 160 [example_write 3 [1, 2], example_write 4 []])) < 160),
      read_records = complete_frames example_platform 160 [example_write 3 [1, 2], example_write 4 []]\<rparr>,
     length (log_bytes example_platform (complete_frames example_platform 160 [example_write 3 [1, 2], example_write 4 []])))"
proof (rule DecodeWalBytes_torn)
  show l: "list_all (loggable example_platform [118]) [example_write 3 [1, 2], example_write 4 []]"
    by (simp add: example_write_loggable u64_max_def)
  have "148 \<le> length (EncodeForTest example_platform (example_write s p))" if "s \<le> u64_max" "length p \<le> 1048576" for s p
    using loggable_frame(3) [OF example_write_loggable [OF that]] header_size_bounds(1) by (rule order_trans [rotated])
  from this [of 3 "[1, 2]"] this [of 4 "[]"]
  show "160 \<le> length (log_bytes example_platform [example_write 3 [1, 2], example_write 4 []])"
    by (simp add: u64_max_def)
qed simp_all

text \<open>
  Crash and repair: reading with repair cuts a torn log back to a log, the one of the
  complete records.
\<close>

lemma ReadAllInternal_repairs:
  assumes rs: "list_all (loggable pf identity) rs" and n: "n \<le> length (log_bytes pf rs)"
    and lim: "n \<le> limit_bytes limits" "length rs \<le> limit_records limits"
    and io: "namespace_settled io" "\<not> read_failed io" "truncate_ok io"
  shows "snd (snd (ReadAllInternal pf io (Some (take n (log_bytes pf rs))) identity True limits)) =
     Some (log_bytes pf (complete_frames pf n rs))"
proof -
  let ?m = "length (log_bytes pf (complete_frames pf n rs))"
  have m: "?m \<le> n" by (rule log_bytes_complete)
  have "take n (log_bytes pf rs) = log_bytes pf (complete_frames pf n rs)" if "\<not> ?m < n"
    using log_prefix [of pf n rs] m that by simp
  then show ?thesis
    using DecodeWalBytes_prefix [OF rs n lim] io lim n m log_prefix [of pf n rs]
    by (auto simp: ReadAllInternal_def min_absorb1)
qed

text \<open>
  Appending a batch, whatever the system does: the log reads afterwards without error as the
  old records followed by a prefix of the batch, all of it when the append reports success and
  none of it when it reports a rejection.
\<close>

lemma AppendBatchWithResult_log:
  assumes rs: "list_all (loggable pf identity) rs" and batch: "list_all (\<lambda>r. loggable pf identity (stamped opts r)) records"
    and p: "has_path opts" "records \<noteq> []"
    and lim: "length (log_bytes pf (rs @ map (stamped opts) records)) \<le> limit_bytes limits" "length rs + length records \<le> limit_records limits"
    and res: "AppendBatchWithResult pf opts io records durable g (log_bytes pf rs) = (result, wal_bytes)"
  shows "\<exists>k torn m. DecodeWalBytes pf wal_bytes identity limits None =
        (\<lparr>read_status = ReadOk, recovered_torn_tail = torn, read_records = rs @ take k (map (stamped opts) records)\<rparr>, m) \<and>
      (result = AppendSucceeded \<longrightarrow> k = length records \<and> \<not> torn) \<and>
      (result = AppendRejectedBeforeWrite \<longrightarrow> k = 0 \<and> \<not> torn)"
proof -
  let ?new = "map (stamped opts) records" and ?all = "rs @ map (stamped opts) records"
  obtain n where n: "wal_bytes = log_bytes pf rs @ take n (log_bytes pf ?new)"
      "result = AppendSucceeded \<longrightarrow> n = length (log_bytes pf ?new)" "result = AppendRejectedBeforeWrite \<longrightarrow> n = 0"
    using AppendBatch_file [OF p, of pf io durable g "log_bytes pf rs"] res by auto
  define n' where "n' = min n (length (log_bytes pf ?new))"
  let ?k = "length (log_bytes pf rs) + n'"
  have w: "wal_bytes = take ?k (log_bytes pf ?all)"
    using n(1) by (simp add: n'_def min_def take_all)
  have ok: "list_all (loggable pf identity) ?all" using rs batch by (auto simp: list_all_iff)
  have kb: "?k \<le> length (log_bytes pf ?all)" by (simp add: n'_def)
  have "?k \<le> limit_bytes limits" using kb lim(1) by simp
  then have D: "DecodeWalBytes pf wal_bytes identity limits None =
    (\<lparr>read_status = ReadOk,
      recovered_torn_tail = (length (log_bytes pf (complete_frames pf ?k ?all)) < ?k),
      read_records = complete_frames pf ?k ?all\<rparr>, length (log_bytes pf (complete_frames pf ?k ?all)))"
    unfolding w using lim(2) by (intro DecodeWalBytes_prefix [OF ok kb]) auto
  have cf: "complete_frames pf ?k ?all = rs @ complete_frames pf n' ?new"
    using complete_frames_append [of pf rs ?k ?new] by simp
  obtain k where k: "complete_frames pf n' ?new = take k ?new" using complete_frames_prefix by blast
  have empty: "complete_frames pf 0 ?new = []"
  proof (cases records)
    case (Cons r rs')
    have "header_size_of (frame_version (stamped opts r) 0) \<le> length (EncodeForTest pf (stamped opts r))"
      using loggable_frame(3) [of pf identity "stamped opts r"] batch Cons by simp
    then show ?thesis using header_size_bounds(1) [of "frame_version (stamped opts r) 0"] Cons by auto
  qed simp
  have "result = AppendSucceeded \<Longrightarrow> complete_frames pf n' ?new = ?new"
    using n(2) complete_frames_all [of pf ?new] by (simp add: n'_def)
  moreover have "result = AppendRejectedBeforeWrite \<Longrightarrow> n' = 0" using n(3) by (simp add: n'_def)
  moreover have "n' = length (log_bytes pf ?new)" if "result = AppendSucceeded" using n(2) that by (simp add: n'_def)
  ultimately have "complete_frames pf n' ?new = take (length records) ?new \<and> length (log_bytes pf ?new) = n'"
       if "result = AppendSucceeded"
    using that by simp
  moreover have "complete_frames pf n' ?new = take 0 ?new \<and> n' = 0" if "result = AppendRejectedBeforeWrite"
    using that \<open>result = AppendRejectedBeforeWrite \<Longrightarrow> n' = 0\<close> empty by simp
  ultimately show ?thesis
    using D k unfolding cf
    by (cases result) (auto intro: exI [of _ "length records"] exI [of _ "0 :: nat"] exI [of _ k])
qed

section \<open>Runs of a log\<close>

text \<open>
  What the reader promises its clients: of a log cut at any byte it finds a prefix of the records,
  all of them when the cut is at the end of a record.
\<close>

locale torn_log =
  fixes encoded_log :: "'r list \<Rightarrow> 'b list" and whole :: "nat \<Rightarrow> 'r list \<Rightarrow> 'r list"
  assumes encoded_append: "encoded_log (rs @ rs') = encoded_log rs @ encoded_log rs'"
    and whole_prefix: "prefix (whole n rs) rs"
    and whole_append: "length (encoded_log rs) \<le> n \<Longrightarrow> whole n (rs @ rs') = rs @ whole (n - length (encoded_log rs)) rs'"
    and whole_fits: "length (encoded_log (whole n rs)) \<le> n"
begin

lemma whole_all: "whole (length (encoded_log rs)) rs = rs"
  using whole_append [of rs "length (encoded_log rs)" "[]"] whole_prefix [of 0 "[]"] by simp

lemma take_whole: "take (length (encoded_log (whole n rs))) (encoded_log rs) = encoded_log (whole n rs)"
proof -
  obtain zs where zs: "rs = whole n rs @ zs" using whole_prefix [of n rs] by (auto elim: prefixE)
  have "encoded_log rs = encoded_log (whole n rs) @ encoded_log zs" by (subst zs) (rule encoded_append)
  then show ?thesis by simp
qed

lemma repaired: "take (length (encoded_log (whole n rs))) (take n (encoded_log rs)) = encoded_log (whole n rs)"
  using take_whole [of n rs] whole_fits [of n rs] by (simp add: min_def)

lemma doubtful_append:
  "\<exists>m \<le> length (encoded_log (rs @ rs')). encoded_log rs @ take n (encoded_log rs') = take m (encoded_log (rs @ rs')) \<and>
     prefix rs (whole m (rs @ rs'))"
proof -
  let ?m = "length (encoded_log rs) + min n (length (encoded_log rs'))"
  have "encoded_log rs @ take n (encoded_log rs') = take ?m (encoded_log (rs @ rs'))"
    by (simp add: encoded_append min_def)
  moreover have "?m \<le> length (encoded_log (rs @ rs'))" by (simp add: encoded_append)
  moreover have "prefix rs (whole ?m (rs @ rs'))" by (simp add: whole_append)
  ultimately show ?thesis by blast
qed

end

interpretation wal: torn_log "log_bytes pf" "complete_frames pf" for pf
proof
  show "prefix (complete_frames pf n rs) rs" for n rs
    using complete_frames_prefix [of pf n rs] take_is_prefix by force
qed (simp_all add: complete_frames_append log_bytes_complete)

text \<open>
  A log over its life: batches are appended, an append may be torn or in doubt, and reading with
  repair cuts the log back.  After an append in doubt the transaction manager
  (\<^verbatim>\<open>src/TransactionManager.cpp\<close>, 2202-2213 and 2284-2292) refuses to append until it has read
  the log again; the flag says that nothing is in doubt.  The first list holds the records of the
  appends that reported success.
\<close>

inductive wal_run :: "WalPlatform \<Rightarrow> byte list \<Rightarrow> WalOptions \<Rightarrow> WalRecord list \<Rightarrow> byte list \<Rightarrow> bool \<Rightarrow> bool"
  for pf identity opts where
  run_start: "wal_run pf identity opts [] [] True"
| run_append: "wal_run pf identity opts acknowledged wal_bytes True \<Longrightarrow>
    list_all (\<lambda>r. loggable pf identity (stamped opts r)) records \<Longrightarrow>
    AppendBatchWithResult pf opts io records durable_flush g wal_bytes = (result, wal_bytes') \<Longrightarrow>
    wal_run pf identity opts
      (if result = AppendSucceeded then acknowledged @ map (stamped opts) records else acknowledged)
      wal_bytes' (result \<noteq> AppendBytesMayHavePersisted)"
| run_read: "wal_run pf identity opts acknowledged wal_bytes settled \<Longrightarrow>
    ReadAllInternal pf read_io (Some wal_bytes) identity True default_limits = (result, p, Some wal_bytes') \<Longrightarrow>
    wal_run pf identity opts acknowledged wal_bytes' (settled \<or> read_status result = ReadOk)"

text \<open>The invariant: the file is a cut of a log whose complete records contain what was acknowledged.\<close>

definition log_cut :: "WalPlatform \<Rightarrow> byte list \<Rightarrow> WalRecord list \<Rightarrow> byte list \<Rightarrow> WalRecord list \<Rightarrow> nat \<Rightarrow> bool" where
  "log_cut pf identity acknowledged wal_bytes rs n \<longleftrightarrow>
     list_all (loggable pf identity) rs \<and> n \<le> length (log_bytes pf rs) \<and> wal_bytes = take n (log_bytes pf rs) \<and>
     subseq acknowledged (complete_frames pf n rs)"

lemma log_cut_whole:
  assumes "list_all (loggable pf identity) rs" "subseq acknowledged rs"
  shows "log_cut pf identity acknowledged (log_bytes pf rs) rs (length (log_bytes pf rs))"
  using assms by (simp add: log_cut_def wal.whole_all)

lemma count_frames:
  assumes "list_all (loggable pf identity) rs"
  shows "148 * length rs \<le> length (log_bytes pf rs)"
  using assms
proof (induction rs)
  case (Cons r rs)
  have "header_size_of (frame_version r 0) \<le> length (EncodeForTest pf r)"
    using loggable_frame(3) [of pf identity r] Cons.prems by simp
  then show ?case using Cons header_size_bounds(1) [of "frame_version r 0"] by auto
qed simp

text \<open>Only the frames up to the first incomplete one matter to a cut.\<close>

lemma log_cut_short:
  assumes "list_all (loggable pf identity) rs" "n \<le> length (log_bytes pf rs)"
  shows "\<exists>rs'. list_all (loggable pf identity) rs' \<and> n \<le> length (log_bytes pf rs') \<and>
     take n (log_bytes pf rs') = take n (log_bytes pf rs) \<and>
     complete_frames pf n rs' = complete_frames pf n rs \<and> length rs' \<le> Suc (length (complete_frames pf n rs))"
  using assms
proof (induction rs arbitrary: n)
  case (Cons r rs)
  let ?f = "EncodeForTest pf r"
  show ?case
  proof (cases "length ?f \<le> n")
    case True
    then have "n - length ?f \<le> length (log_bytes pf rs)" using Cons.prems by simp
    from Cons.IH [OF _ this] Cons.prems obtain rs' where
      "list_all (loggable pf identity) rs'" "n - length ?f \<le> length (log_bytes pf rs')"
      "take (n - length ?f) (log_bytes pf rs') = take (n - length ?f) (log_bytes pf rs)"
      "complete_frames pf (n - length ?f) rs' = complete_frames pf (n - length ?f) rs"
      "length rs' \<le> Suc (length (complete_frames pf (n - length ?f) rs))"
      by auto
    then show ?thesis using True Cons.prems by (intro exI [of _ "r # rs'"]) auto
  next
    case False
    then show ?thesis using Cons.prems by (intro exI [of _ "[r]"]) auto
  qed
qed (auto intro: exI [of _ "[]"])

lemma log_cut_read:
  assumes cut: "log_cut pf identity acknowledged wal_bytes rs n" and size: "length wal_bytes \<le> u64_max"
  shows "DecodeWalBytes pf wal_bytes identity default_limits None =
    (\<lparr>read_status = ReadOk, recovered_torn_tail = (length (log_bytes pf (complete_frames pf n rs)) < n),
      read_records = complete_frames pf n rs\<rparr>, length (log_bytes pf (complete_frames pf n rs)))"
proof -
  have c: "list_all (loggable pf identity) rs" "n \<le> length (log_bytes pf rs)" "wal_bytes = take n (log_bytes pf rs)"
    using cut by (auto simp: log_cut_def)
  have n: "n \<le> u64_max" using size c by simp
  obtain rs' where rs': "list_all (loggable pf identity) rs'" "n \<le> length (log_bytes pf rs')"
     "take n (log_bytes pf rs') = take n (log_bytes pf rs)"
     "complete_frames pf n rs' = complete_frames pf n rs" "length rs' \<le> Suc (length (complete_frames pf n rs))"
    using log_cut_short [OF c(1,2)] by blast
  have "148 * length (complete_frames pf n rs) \<le> n"
    using count_frames [OF complete_frames_loggable [OF c(1)], of pf n] log_bytes_complete [of pf n rs] by linarith
  then have "length rs' \<le> u64_max" using rs'(5) n by (simp add: u64_max_def)
  then show ?thesis
    using DecodeWalBytes_prefix [OF rs'(1,2), of default_limits] n rs'(3,4) c(3) by (simp add: default_limits_def)
qed

lemma log_cut_append:
  assumes rs: "list_all (loggable pf identity) rs" "subseq acknowledged rs"
    and batch: "list_all (\<lambda>r. loggable pf identity (stamped opts r)) records" and p: "has_path opts"
    and res: "AppendBatchWithResult pf opts io records durable_flush g (log_bytes pf rs) = (result, wal_bytes)"
  shows "\<exists>rs' n. log_cut pf identity
       (if result = AppendSucceeded then acknowledged @ map (stamped opts) records else acknowledged) wal_bytes rs' n \<and>
     (result \<noteq> AppendBytesMayHavePersisted \<longrightarrow> n = length (log_bytes pf rs'))"
proof (cases "records = []")
  case True
  then show ?thesis using res log_cut_whole [OF rs] by (auto simp: AppendBatchWithResult_def)
next
  case False
  let ?new = "map (stamped opts) records"
  have ok: "list_all (loggable pf identity) (rs @ ?new)" using rs batch by (auto simp: list_all_iff)
  obtain n where n: "wal_bytes = log_bytes pf rs @ take n (log_bytes pf ?new)"
      "result = AppendSucceeded \<longrightarrow> n = length (log_bytes pf ?new)" "result = AppendRejectedBeforeWrite \<longrightarrow> n = 0"
    using AppendBatch_file [OF p False, of pf io durable_flush g "log_bytes pf rs"] res by auto
  show ?thesis
  proof (cases result)
    case AppendSucceeded
    have "log_cut pf identity (acknowledged @ ?new) (log_bytes pf (rs @ ?new)) (rs @ ?new) (length (log_bytes pf (rs @ ?new)))"
      using ok rs(2) by (intro log_cut_whole) (auto intro: list_emb_append_mono)
    then show ?thesis using n AppendSucceeded by (auto simp del: log_bytes_simps simp flip: log_bytes_simps(3))
  next
    case AppendRejectedBeforeWrite
    then show ?thesis using n log_cut_whole [OF rs] by auto
  next
    case AppendBytesMayHavePersisted
    obtain m where m: "m \<le> length (log_bytes pf (rs @ ?new))" "wal_bytes = take m (log_bytes pf (rs @ ?new))"
      "prefix rs (complete_frames pf m (rs @ ?new))"
      using wal.doubtful_append [of pf rs ?new n] n(1) by auto
    have "subseq acknowledged (complete_frames pf m (rs @ ?new))"
      using rs(2) m(3) by (meson prefix_imp_subseq subseq_order.order_trans)
    then have "log_cut pf identity acknowledged wal_bytes (rs @ ?new) m" unfolding log_cut_def using ok m by blast
    then show ?thesis using AppendBytesMayHavePersisted by auto
  qed
qed

lemma log_cut_repair:
  assumes cut: "log_cut pf identity acknowledged wal_bytes rs n"
    and r: "ReadAllInternal pf read_io (Some wal_bytes) identity True default_limits = (result, p, Some wal_bytes')"
  shows "wal_bytes' = wal_bytes \<and> (read_status result = ReadOk \<longrightarrow> n = length (log_bytes pf (complete_frames pf n rs))) \<or>
     wal_bytes' = log_bytes pf (complete_frames pf n rs)"
proof (cases "length wal_bytes \<le> u64_max")
  case True
  note D = log_cut_read [OF cut True]
  have w: "wal_bytes = take n (log_bytes pf rs)" "n \<le> length (log_bytes pf rs)" using cut by (auto simp: log_cut_def)
  show ?thesis
    using r D wal.repaired [of pf n rs] w(1) log_bytes_complete [of pf n rs]
    by (auto simp: ReadAllInternal_def split: if_splits)
next
  case False
  then show ?thesis using r by (auto simp: ReadAllInternal_def default_limits_def split: if_splits)
qed

lemma wal_run_cut:
  assumes "wal_run pf identity opts acknowledged wal_bytes settled" "has_path opts"
  shows "\<exists>rs n. log_cut pf identity acknowledged wal_bytes rs n \<and> (settled \<longrightarrow> n = length (log_bytes pf rs))"
  using assms
proof (induction rule: wal_run.induct)
  case run_start
  show ?case using log_cut_whole [of pf identity "[]" "[]"] by (auto intro!: exI [of _ "[]"])
next
  case (run_append acknowledged wal_bytes records io durable_flush g result wal_bytes')
  then obtain rs n where c: "log_cut pf identity acknowledged wal_bytes rs n" "n = length (log_bytes pf rs)" by blast
  then have "list_all (loggable pf identity) rs" "subseq acknowledged rs" "wal_bytes = log_bytes pf rs"
    by (auto simp: log_cut_def wal.whole_all)
  then show ?case using log_cut_append [of pf identity rs acknowledged opts records] run_append by blast
next
  case (run_read acknowledged wal_bytes settled read_io result p wal_bytes')
  then obtain rs n where c: "log_cut pf identity acknowledged wal_bytes rs n" "settled \<longrightarrow> n = length (log_bytes pf rs)" by blast
  have w: "log_cut pf identity acknowledged (log_bytes pf (complete_frames pf n rs)) (complete_frames pf n rs)
      (length (log_bytes pf (complete_frames pf n rs)))"
    using c(1) by (intro log_cut_whole) (auto simp: log_cut_def complete_frames_loggable)
  have t: "wal_bytes = log_bytes pf (complete_frames pf n rs)" if "n = length (log_bytes pf (complete_frames pf n rs))"
    using that c(1) wal.take_whole [of pf n rs] by (auto simp: log_cut_def)
  from log_cut_repair [OF c(1) run_read(2)] show ?case
    using c w t by metis
qed

text \<open>
  C7. Durability: however appends, torn and doubtful ones included, and repairing reads follow
  one another, the log reads without error, every record of an append that reported success is
  read back in order, and nothing is torn when nothing is in doubt.
\<close>

theorem acknowledged_records_survive:
  assumes "wal_run pf identity opts acknowledged wal_bytes settled" and "has_path opts"
    and "length wal_bytes \<le> u64_max"
  shows "\<exists>rs torn m. DecodeWalBytes pf wal_bytes identity default_limits None =
        (\<lparr>read_status = ReadOk, recovered_torn_tail = torn, read_records = rs\<rparr>, m) \<and>
      subseq acknowledged rs \<and> (settled \<longrightarrow> \<not> torn)"
proof -
  obtain rs n where c: "log_cut pf identity acknowledged wal_bytes rs n" "settled \<longrightarrow> n = length (log_bytes pf rs)"
    using wal_run_cut [OF assms(1,2)] by blast
  then show ?thesis using log_cut_read [OF c(1) assms(3)] by (auto simp: log_cut_def wal.whole_all)
qed

definition example_options :: WalOptions where
  "example_options = \<lparr>has_path = True, option_volume_identity = [118], max_bytes = 0\<rparr>"

text \<open>The second write stops after twenty bytes.\<close>

definition example_io :: "nat option \<Rightarrow> WalAppendIo" where
  "example_io written = \<lparr>directory_ready = True, handle_ready = True, lease_generation = 1, short_write = written, flush_ok = True\<rparr>"

lemma stamped_example [simp]: "stamped example_options (example_write s p) = example_write s p"
  by (simp add: stamped_def example_write_def)

lemma encode_batch_example:
  assumes "s \<le> u64_max" "length p \<le> 1048576"
  shows "encode_batch example_platform example_options [example_write s p] = Some (log_bytes example_platform [example_write s p])"
proof -
  have "EncodeForTest example_platform (example_write s p) \<noteq> []"
    using loggable_frame(3) [OF example_write_loggable [OF assms]] header_size_bounds(1) [of "frame_version (example_write s p) 0"]
    by force
  then show ?thesis by (auto simp: writable_record_def example_options_def example_write_def)
qed

lemma append_example:
  assumes "s \<le> u64_max"
  shows "AppendBatchWithResult example_platform example_options (example_io None) [example_write s []] True 1 wal_bytes =
     (AppendSucceeded, wal_bytes @ log_bytes example_platform [example_write s []])"
  and "AppendBatchWithResult example_platform example_options (example_io (Some 20)) [example_write s []] True 1 wal_bytes =
     (AppendBytesMayHavePersisted, wal_bytes @ take 20 (log_bytes example_platform [example_write s []]))"
  using encode_batch_example [OF assms, of "[]"]
  by (simp_all add: AppendBatchWithResult_def AppendEncoded_def finish_append_def lease_refused_def example_io_def
      example_options_def)

lemma example_run:
  "wal_run example_platform [118] example_options [example_write 1 [], example_write 2 []]
     (log_bytes example_platform [example_write 1 [], example_write 2 []] @ take 20 (log_bytes example_platform [example_write 3 []])) False"
proof -
  let ?run = "wal_run example_platform [118] example_options"
  have l: "list_all (\<lambda>r. loggable example_platform [118] (stamped example_options r)) [example_write s []]" if "s \<le> u64_max" for s
    using that by (simp add: example_write_loggable)
  have "?run [example_write 1 []] (log_bytes example_platform [example_write 1 []]) True"
    using run_append [OF run_start l append_example(1), of 1] by (simp add: u64_max_def)
  from run_append [OF this l append_example(1), of 2]
  have "?run [example_write 1 [], example_write 2 []] (log_bytes example_platform [example_write 1 [], example_write 2 []]) True"
    by (simp add: u64_max_def)
  from run_append [OF this l append_example(2), of 3]
  show ?thesis by (simp add: u64_max_def)
qed

theorem acknowledged_records_survive_witness:
  "\<exists>rs torn m. DecodeWalBytes example_platform
       (log_bytes example_platform [example_write 1 [], example_write 2 []] @ take 20 (log_bytes example_platform [example_write 3 []]))
       [118] default_limits None =
        (\<lparr>read_status = ReadOk, recovered_torn_tail = torn, read_records = rs\<rparr>, m) \<and>
      subseq [example_write 1 [], example_write 2 []] rs \<and> (False \<longrightarrow> \<not> torn)"
proof (rule acknowledged_records_survive [OF example_run])
  have l: "length (EncodeForTest example_platform (example_write s [])) \<le> 67108864" if "s \<le> u64_max" for s
    using loggable_frame(4) [OF example_write_loggable [OF that, of "[]"]] by (simp add: kMaxRecordBytes_def)
  from l [of 1] l [of 2] l [of 3]
  show "length (log_bytes example_platform [example_write 1 [], example_write 2 []] @ take 20 (log_bytes example_platform [example_write 3 []])) \<le> u64_max"
    by (simp add: u64_max_def)
qed (simp add: example_options_def)

end
