(* ===== verification/WriteAheadLogCompaction.thy ===== *)
theory WriteAheadLogCompaction
  imports WriteAheadLogRecovery
begin

text \<open>
  Corruption and compaction of the log: a changed byte is found, the compacted file reads back as
  what was kept, and the intent file of a compaction only moves forward.
\<close>



section \<open>Compaction\<close>

lemma WriteWalRecordsDurably_log:
  "list_all (loggable pf identity) rs \<Longrightarrow> WriteWalRecordsDurably pf rs = Some (log_bytes pf rs)"
proof (induction rs)
  case (Cons r rs)
  have "header_size_of (frame_version r 0) \<le> length (EncodeForTest pf r)"
    using loggable_frame(3) [of pf identity r] Cons.prems by simp
  then show ?case using Cons header_size_bounds(1) [of "frame_version r 0"] by auto
qed simp

lemma compaction_index_loggable:
  assumes "floor \<le> u64_max" "length identity \<le> 1048576"
  shows "loggable pf identity (compaction_index identity floor)"
proof (rule loggableI)
  show "wal_record_ok (compaction_index identity floor)"
    using assms by (simp add: wal_record_ok_def compaction_index_def IsKnownOperation_def known_operations_def state_of_def
        u32_max_def)
  show "\<not> encode_refused pf (compaction_index identity floor) (frame_version (compaction_index identity floor) 0)"
    by (simp add: encode_refused_def frame_version_def compaction_index_def Let_def inline_only_operations_def version_cases
        InodeMetadataMutationIsConsistentImpl_def AllocationSizeMutationIsConsistentImpl_def
        DirectoryRestoreMutationIsConsistentImpl_def InlinePayloadIsConsistentImpl_def
        ExtendedAttributeMutationIsConsistentImpl_def UnlinkOutcomeIsConsistentImpl_def)
  show "wal_record_size (compaction_index identity floor)
      (header_size_of (frame_version (compaction_index identity floor) 0)) \<le> kMaxRecordBytes"
    using assms by (simp add: wal_record_size_def frame_version_def compaction_index_def header_size_of_def version_cases
        kMaxRecordBytes_def kLegacyHeaderSize_def)
qed (simp add: compaction_index_def)

text \<open>
  Compaction: the replacement file reads back as what was kept, and what was kept is every
  record from the floor on, the earlier index records and the new one.
\<close>

lemma compacted_log_reads_back:
  assumes rs: "list_all (loggable pf identity) records" and f: "floor \<le> u64_max" "length identity \<le> 1048576"
    and lim: "length (log_bytes pf (compaction_kept False identity floor records)) \<le> limit_bytes limits"
      "length records < limit_records limits"
  shows "\<exists>bytes. WriteWalRecordsDurably pf (compaction_kept False identity floor records) = Some bytes \<and>
     DecodeWalBytes pf bytes identity limits None =
       (\<lparr>read_status = ReadOk, recovered_torn_tail = False,
         read_records = filter (\<lambda>r. floor \<le> wal_sequence r \<or> wal_operation r = OpCompactionIndex) records @
           [compaction_index identity floor]\<rparr>, length bytes)"
proof -
  let ?kept = "compaction_kept False identity floor records"
  have kept: "?kept = filter (\<lambda>r. floor \<le> wal_sequence r \<or> wal_operation r = OpCompactionIndex) records @
      [compaction_index identity floor]"
    by (auto simp: compaction_kept_def intro: filter_cong)
  have ok: "list_all (loggable pf identity) ?kept"
    using rs compaction_index_loggable [OF f] by (auto simp: kept list_all_iff)
  have "length ?kept \<le> Suc (length records)" by (simp add: kept)
  then have "length ?kept \<le> limit_records limits" using lim(2) by linarith
  then have "DecodeWalBytes pf (log_bytes pf ?kept) identity limits None =
      (\<lparr>read_status = ReadOk, recovered_torn_tail = False, read_records = ?kept\<rparr>, length (log_bytes pf ?kept))"
    using DecodeWalBytes_prefix [OF ok order_refl lim(1)] by (simp add: complete_frames_all)
  then show ?thesis using WriteWalRecordsDurably_log [OF ok] by (simp flip: kept)
qed

lemma compacted_log_reads_back_witness:
  "\<exists>bytes. WriteWalRecordsDurably example_platform
        (compaction_kept False [118] 2 [example_write 1 [], example_write 2 [7], example_write 3 []]) = Some bytes \<and>
     DecodeWalBytes example_platform bytes [118] default_limits None =
       (\<lparr>read_status = ReadOk, recovered_torn_tail = False,
         read_records = filter (\<lambda>r. 2 \<le> wal_sequence r \<or> wal_operation r = OpCompactionIndex)
             [example_write 1 [], example_write 2 [7], example_write 3 []] @ [compaction_index [118] 2]\<rparr>, length bytes)"
proof (rule compacted_log_reads_back)
  show l: "list_all (loggable example_platform [118]) [example_write 1 [], example_write 2 [7], example_write 3 []]"
    by (simp add: example_write_loggable u64_max_def)
  have "loggable example_platform [118] (compaction_index [118] 2)" by (rule compaction_index_loggable) (simp_all add: u64_max_def)
  with l have "length (EncodeForTest example_platform r) \<le> kMaxRecordBytes"
    if "r \<in> {example_write 2 [7], example_write 3 [], compaction_index [118] 2}" for r
    using that loggable_frame(4) by auto
  from this [of "example_write 2 [7]"] this [of "example_write 3 []"] this [of "compaction_index [118] 2"]
  show "length (log_bytes example_platform
      (compaction_kept False [118] 2 [example_write 1 [], example_write 2 [7], example_write 3 []])) \<le> limit_bytes default_limits"
    by (simp add: compaction_kept_def example_write_def default_limits_def u64_max_def kMaxRecordBytes_def)
qed (simp_all add: default_limits_def u64_max_def)

section \<open>Intents\<close>

text \<open>How far a compaction has come.\<close>

definition intent_rank :: "WalRecord \<Rightarrow> nat" where
  "intent_rank r = (case wal_state r of
       Prepared \<Rightarrow> 0 | PublishArmed \<Rightarrow> 1 | Checkpointed \<Rightarrow> 2 | CleanupArmed \<Rightarrow> 3
     | Cleaned \<Rightarrow> if wal_flags r = 0 then 4 else 5 | _ \<Rightarrow> 6)"

lemma intent_rank_bound: "IsStrictCompactionIntentRecord r identity \<Longrightarrow> intent_rank r \<le> 5"
  by (auto simp: IsStrictCompactionIntentRecord_def intent_rank_def)

lemma intent_rank_increases:
  assumes "IsStrictCompactionIntentRecord r identity" "IsStrictCompactionIntentRecord r' identity"
    "IsValidCompactionIntentTransition r r'"
  shows "intent_rank r < intent_rank r'"
  using assms
  by (auto simp: IsStrictCompactionIntentRecord_def IsValidCompactionIntentTransition_def intent_rank_def split: if_splits)

lemma strict_history_nth:
  assumes "IsStrictCompactionIntentHistory records identity" "i < length records"
  shows "IsStrictCompactionIntentRecord (records ! i) identity"
    and "i \<noteq> 0 \<Longrightarrow> IsValidCompactionIntentTransition (records ! (i - 1)) (records ! i)"
  using assms by (auto simp: IsStrictCompactionIntentHistory_def list_all_iff dest!: bspec [of _ _ i])

lemma strict_history_rank:
  assumes h: "IsStrictCompactionIntentHistory records identity"
  shows "i < length records \<Longrightarrow> i \<le> intent_rank (records ! i)"
proof (induction i)
  case (Suc i)
  have "intent_rank (records ! i) < intent_rank (records ! Suc i)"
    using strict_history_nth [OF h] Suc.prems strict_history_nth(2) [OF h, of "Suc i"]
    by (intro intent_rank_increases) auto
  then show ?case using Suc by simp
qed simp

lemma strict_history_append:
  assumes h: "IsStrictCompactionIntentHistory records identity" and r: "IsStrictCompactionIntentRecord r identity"
    and t: "IsValidCompactionIntentTransition (last records) r"
  shows "IsStrictCompactionIntentHistory (records @ [r]) identity"
  using assms by (auto simp: IsStrictCompactionIntentHistory_def list_all_iff nth_append last_conv_nth)

lemma strict_history_six:
  assumes h: "IsStrictCompactionIntentHistory records identity"
  shows "length records \<le> 6"
proof -
  have "records \<noteq> []" using h by (simp add: IsStrictCompactionIntentHistory_def)
  then have "length records - 1 < length records" by simp
  then show ?thesis
    using strict_history_rank [OF h] intent_rank_bound [OF strict_history_nth(1) [OF h]] by fastforce
qed

text \<open>
  A compaction makes at most six entries in its intent file: the history of a valid file
  only ever moves forward.
\<close>

lemma IsStrictCompactionIntentHistory_length:
  assumes "IsStrictCompactionIntentHistory records identity"
  shows "length records \<le> 6"
  using assms by (rule strict_history_six)


lemma strict_history_prefix:
  assumes "IsStrictCompactionIntentHistory records identity" "take k records \<noteq> []"
  shows "IsStrictCompactionIntentHistory (take k records) identity"
proof -
  have "IsValidCompactionIntentTransition (records ! (i - 1)) (records ! i)" if "i < length records" "i \<noteq> 0" for i
    using strict_history_nth(2) [OF assms(1)] that by simp
  then show ?thesis
    using assms(2) strict_history_nth(1) [OF assms(1)]
    by (fastforce simp: IsStrictCompactionIntentHistory_def list_all_iff)
qed

lemma compaction_intent_strict:
  assumes "volume_serial \<le> u32_max" "st = Prepared \<or> replacement_file_id \<noteq> 0"
    "st \<in> {Prepared, PublishArmed, Checkpointed, CleanupArmed, Cleaned}" "\<not> (namespace_durable \<and> st \<noteq> Cleaned)"
  shows "IsStrictCompactionIntentRecord
     (compaction_intent identity volume_serial file_id st replacement_file_id namespace_durable) identity"
  using assms by (auto simp: IsStrictCompactionIntentRecord_def compaction_intent_def zero_hash_def list_all_iff)

lemma compaction_intent_loggable:
  assumes "volume_serial \<le> u32_max" "file_id \<le> u64_max" "replacement_file_id \<le> u64_max" "length identity \<le> 1048576"
    "st \<in> {Prepared, PublishArmed, Checkpointed, CleanupArmed, Cleaned}"
  shows "loggable pf identity (compaction_intent identity volume_serial file_id st replacement_file_id namespace_durable)"
    (is "loggable pf identity ?r")
proof (rule loggableI)
  show "wal_record_ok ?r"
    using assms by (auto simp: wal_record_ok_def compaction_intent_def IsKnownOperation_def known_operations_def state_of_def
        u32_max_def u64_max_def)
  show "\<not> encode_refused pf ?r (frame_version ?r 0)"
    by (simp add: encode_refused_def frame_version_def compaction_intent_def Let_def inline_only_operations_def version_cases
        InodeMetadataMutationIsConsistentImpl_def AllocationSizeMutationIsConsistentImpl_def
        DirectoryRestoreMutationIsConsistentImpl_def InlinePayloadIsConsistentImpl_def
        ExtendedAttributeMutationIsConsistentImpl_def UnlinkOutcomeIsConsistentImpl_def)
  show "wal_record_size ?r (header_size_of (frame_version ?r 0)) \<le> kMaxRecordBytes"
    using assms by (simp add: wal_record_size_def frame_version_def compaction_intent_def header_size_of_def version_cases
        kMaxRecordBytes_def kLegacyHeaderSize_def kCompactionIntentTag_def)
qed (simp add: compaction_intent_def)

lemma ReadLatestCompactionIntent_torn:
  assumes rs: "list_all (loggable pf identity) rs" and h: "IsStrictCompactionIntentHistory rs identity"
    and n: "n \<le> length (log_bytes pf rs)" "n \<le> u64_max"
    and r: "ReadLatestCompactionIntent pf identity truncates (take n (log_bytes pf rs)) = Some (r, bytes)"
  shows "bytes = log_bytes pf (complete_frames pf n rs) \<and> r = last (complete_frames pf n rs) \<and>
     IsStrictCompactionIntentHistory (complete_frames pf n rs) identity"
proof -
  let ?whole = "complete_frames pf n rs"
  have six: "length rs \<le> 6" using h by (rule strict_history_six)
  have lim: "n \<le> limit_bytes default_limits" "length rs \<le> limit_records default_limits"
    using n(2) six by (simp_all add: default_limits_def u64_max_def)
  note D = DecodeWalBytes_prefix [OF rs n(1) lim]
  have m: "length (log_bytes pf ?whole) \<le> n" by (rule log_bytes_complete)
  have t: "take (length (log_bytes pf ?whole)) (take n (log_bytes pf rs)) = log_bytes pf ?whole"
    using log_prefix [of pf n rs] m by (simp add: min_def)
  have "length ?whole \<le> length rs" using complete_frames_prefix [of pf n rs] by auto
  then have "length ?whole \<le> limit_records default_limits" "length (log_bytes pf ?whole) \<le> limit_bytes default_limits"
    using lim m by linarith+
  then have D': "DecodeWalBytes pf (log_bytes pf ?whole) identity default_limits None =
      (\<lparr>read_status = ReadOk, recovered_torn_tail = False, read_records = ?whole\<rparr>, length (log_bytes pf ?whole))"
    using DecodeWalBytes_prefix [OF complete_frames_loggable [OF rs, of pf n] order_refl, of default_limits]
    by (simp add: complete_frames_all)
  show ?thesis
  proof (cases "length (log_bytes pf ?whole) < n")
    case True
    then show ?thesis using r D D' t by (auto simp: ReadLatestCompactionIntent_def Let_def split: if_splits prod.splits)
  next
    case False
    then show ?thesis using r D t m by (auto simp: ReadLatestCompactionIntent_def Let_def split: if_splits)
  qed
qed


text \<open>
  C24. Persisting an intent keeps the intent file valid, also when a crash tore its tail before:
  whatever file the call leaves holds complete frames of a history that only moves forward.
\<close>

theorem PersistCompactionIntent_strict:
  assumes rs: "list_all (loggable pf identity) rs" and h: "IsStrictCompactionIntentHistory rs identity"
    and n: "n \<le> length (log_bytes pf rs)" "n \<le> u64_max"
    and a: "volume_serial \<le> u32_max" "file_id \<le> u64_max" "replacement_file_id \<le> u64_max" "length identity \<le> 1048576"
      "st \<in> {Prepared, PublishArmed, Checkpointed, CleanupArmed, Cleaned}" "st = Prepared \<or> replacement_file_id \<noteq> 0"
    and p: "PersistCompactionIntent pf identity volume_serial file_id st replacement_file_id namespace_durable
              (Some (take n (log_bytes pf rs))) = Some bytes"
  shows "\<exists>rs'. bytes = log_bytes pf rs' \<and> list_all (loggable pf identity) rs' \<and> IsStrictCompactionIntentHistory rs' identity"
proof -
  let ?i = "compaction_intent identity volume_serial file_id st replacement_file_id namespace_durable"
  let ?whole = "complete_frames pf n rs"
  have dur: "\<not> (namespace_durable \<and> st \<noteq> Cleaned)" using p by (auto simp: PersistCompactionIntent_def split: if_splits)
  obtain previous b where r: "ReadLatestCompactionIntent pf identity True (take n (log_bytes pf rs)) = Some (previous, b)"
    using p by (auto simp: PersistCompactionIntent_def Let_def split: if_splits option.splits)
  note t = ReadLatestCompactionIntent_torn [OF rs h n r]
  have dn: "list_all (loggable pf identity) ?whole" using rs by (rule complete_frames_loggable)
  have "bytes = b \<or> bytes = b @ EncodeForTest pf ?i \<and> IsValidCompactionIntentTransition previous ?i"
    using p r dur by (auto simp: PersistCompactionIntent_def Let_def split: if_splits)
  then show ?thesis
  proof
    assume "bytes = b"
    then show ?thesis using t dn by blast
  next
    assume new: "bytes = b @ EncodeForTest pf ?i \<and> IsValidCompactionIntentTransition previous ?i"
    have "IsStrictCompactionIntentHistory (?whole @ [?i]) identity"
      using t new compaction_intent_strict [OF a(1) a(6,5) dur] by (intro strict_history_append) auto
    moreover have "list_all (loggable pf identity) (?whole @ [?i])"
      using dn compaction_intent_loggable [OF a(1-5)] by simp
    moreover have "bytes = log_bytes pf (?whole @ [?i])" using new t by simp
    ultimately show ?thesis by blast
  qed
qed

theorem PersistCompactionIntent_strict_witness:
  "\<exists>rs'. log_bytes example_platform [compaction_intent [118] 9 5 Prepared 6 False, compaction_intent [118] 9 5 PublishArmed 6 False] =
       log_bytes example_platform rs' \<and> list_all (loggable example_platform [118]) rs' \<and> IsStrictCompactionIntentHistory rs' [118]"
proof (rule PersistCompactionIntent_strict)
  let ?first = "compaction_intent [118] 9 5 Prepared 6 False"
  have f: "loggable example_platform [118] ?first" by (rule compaction_intent_loggable) (simp_all add: u32_max_def u64_max_def)
  have g: "loggable example_platform [118] (compaction_intent [118] 9 5 PublishArmed 6 False)"
    by (rule compaction_intent_loggable) (simp_all add: u32_max_def u64_max_def)
  have s: "IsStrictCompactionIntentRecord ?first [118]" by (rule compaction_intent_strict) (simp_all add: u32_max_def)
  show l: "list_all (loggable example_platform [118]) [?first]" using f by simp
  show h: "IsStrictCompactionIntentHistory [?first] [118]"
    using s by (simp add: IsStrictCompactionIntentHistory_def compaction_intent_def)
  let ?n = "length (log_bytes example_platform [?first])"
  have len: "?n \<le> 67108864" using loggable_frame(4) [OF f] by (simp add: kMaxRecordBytes_def)
  then show "?n \<le> u64_max" by (simp add: u64_max_def)
  have D: "DecodeWalBytes example_platform (log_bytes example_platform [?first]) [118] default_limits None =
      (\<lparr>read_status = ReadOk, recovered_torn_tail = False, read_records = [?first]\<rparr>, ?n)"
    using DecodeWalBytes_prefix [OF l order_refl, of default_limits] len
    by (simp add: complete_frames_all default_limits_def u64_max_def)
  then have r: "ReadLatestCompactionIntent example_platform [118] True (log_bytes example_platform [?first]) =
      Some (?first, log_bytes example_platform [?first])"
    using h by (simp add: ReadLatestCompactionIntent_def)
  have "148 \<le> length (EncodeForTest example_platform (compaction_intent [118] 9 5 PublishArmed 6 False))"
    using loggable_frame(3) [OF g] header_size_bounds(1) by (rule order_trans [rotated])
  then have "EncodeForTest example_platform (compaction_intent [118] 9 5 PublishArmed 6 False) \<noteq> []" by auto
  moreover have "IsValidCompactionIntentTransition ?first (compaction_intent [118] 9 5 PublishArmed 6 False)"
    by (simp add: IsValidCompactionIntentTransition_def compaction_intent_def)
  ultimately show "PersistCompactionIntent example_platform [118] 9 5 PublishArmed 6 False
      (Some (take ?n (log_bytes example_platform [?first]))) =
     Some (log_bytes example_platform [?first, compaction_intent [118] 9 5 PublishArmed 6 False])"
    using r by (simp add: PersistCompactionIntent_def) (simp add: compaction_intent_def)
qed (simp_all add: u32_max_def u64_max_def)

end
