(* ===== verification/TransactionJournal.thy ===== *)
theory TransactionJournal
  imports WriteAheadLogCompaction "HOL-Library.AList"
begin

text \<open>
  The transaction manager of \<^verbatim>\<open>src/TransactionManager.cpp\<close> with an ordinary journal: the state
  machine of a transaction, the batches it appends to the write-ahead log, and what a restart makes
  of the log.

  The manager's fields are the record \<open>TxManager\<close>; its journal is the bytes of the log file, a
  missing file being an empty one.  Every call that reaches the system takes a \<open>TxIo\<close>, the outcomes
  of the appends, the compaction and the flush, and the writer lease seen at each query.  The manager
  runs under its caller's journal gate, so its mutexes and condition variables are left out, as are
  the fault hooks, the timing counters, the protected journal and the continuation of one.
\<close>

section \<open>Mutations\<close>

definition kWalFlagCommitted :: nat where "kWalFlagCommitted = 1"
definition kWalFlagAborted :: nat where "kWalFlagAborted = 2"
definition kWalFlagReplaceIfExists :: nat where "kWalFlagReplaceIfExists = 4"
definition kWalFlagAccepted :: nat where "kWalFlagAccepted = 8"

datatype MutationKind =
    MutCreateFile | MutCreateDirectory | MutWrite | MutSetFileSize | MutRename | MutDelete | MutSetBasicInfo
  | MutSetSymbolicLinkTarget | MutRemoveSymbolicLinkTarget | MutSetExtendedAttribute
  | MutRemoveExtendedAttribute | MutSetInodeMetadata | MutSetAllocationSize
  | MutRestoreDirectoryFromSymbolicLink | MutRewriteCompressedContent | MutCloneFile | MutRenameVolume
  | MutCreateSnapshot | MutDeleteSnapshot | MutRepairVolumeFileCount | MutSetVolumeQuotaReserve
  | MutHardLink | MutNativeSparse | MutCloneRange

fun ToWalOperation :: "MutationKind \<Rightarrow> OperationKind" where
  "ToWalOperation MutCreateFile = OpCreateFile"
| "ToWalOperation MutCreateDirectory = OpCreateDirectory"
| "ToWalOperation MutWrite = OpWrite"
| "ToWalOperation MutSetFileSize = OpSetFileSize"
| "ToWalOperation MutRename = OpRename"
| "ToWalOperation MutDelete = OpDelete"
| "ToWalOperation MutSetBasicInfo = OpSetBasicInfo"
| "ToWalOperation MutSetSymbolicLinkTarget = OpSetSymbolicLinkTarget"
| "ToWalOperation MutRemoveSymbolicLinkTarget = OpRemoveSymbolicLinkTarget"
| "ToWalOperation MutSetExtendedAttribute = OpSetExtendedAttribute"
| "ToWalOperation MutRemoveExtendedAttribute = OpRemoveExtendedAttribute"
| "ToWalOperation MutSetInodeMetadata = OpSetInodeMetadata"
| "ToWalOperation MutSetAllocationSize = OpSetAllocationSize"
| "ToWalOperation MutRestoreDirectoryFromSymbolicLink = OpRestoreDirectoryFromSymbolicLink"
| "ToWalOperation MutRewriteCompressedContent = OpRewriteCompressedContent"
| "ToWalOperation MutCloneFile = OpCloneFile"
| "ToWalOperation MutRenameVolume = OpRenameVolume"
| "ToWalOperation MutCreateSnapshot = OpCreateSnapshot"
| "ToWalOperation MutDeleteSnapshot = OpDeleteSnapshot"
| "ToWalOperation MutRepairVolumeFileCount = OpRepairVolumeFileCount"
| "ToWalOperation MutSetVolumeQuotaReserve = OpSetVolumeQuotaReserve"
| "ToWalOperation MutHardLink = OpHardLink"
| "ToWalOperation MutNativeSparse = OpNativeSparse"
| "ToWalOperation MutCloneRange = OpCloneRange"

record MutationIntent =
  mutation_kind :: MutationKind
  mutation_path :: "16 word list"
  mutation_secondary_path :: "16 word list"
  mutation_offset :: nat
  mutation_length :: nat
  mutation_wal_sequence :: nat
  mutation_object_id :: nat
  mutation_generation :: nat
  payload_spool_offset :: nat
  mutation_payload_length :: nat
  timestamp_utc :: nat
  payload_checksum :: "byte list"
  mutation_inline_payload :: "byte list"
  replace_if_exists :: bool
  mutation_unlink_outcome :: "UnlinkOutcome option"

definition IsMutationOperation :: "OperationKind \<Rightarrow> bool" where
  "IsMutationOperation operation =
     List.member
       [OpCreateFile, OpCreateDirectory, OpWrite, OpSetFileSize, OpRename, OpDelete, OpSetBasicInfo,
        OpSetSymbolicLinkTarget, OpRemoveSymbolicLinkTarget, OpSetExtendedAttribute, OpRemoveExtendedAttribute,
        OpSetInodeMetadata, OpSetAllocationSize, OpRestoreDirectoryFromSymbolicLink, OpCloneFile, OpHardLink,
        OpNativeSparse, OpCloneRange, OpCreateSnapshot, OpDeleteSnapshot, OpSetVolumeQuotaReserve, OpRenameVolume,
        OpRepairVolumeFileCount, OpRewriteCompressedContent] operation"

text \<open>
  What the manager calls elsewhere, next to what the log calls: the conversion
  \<^verbatim>\<open>WideCharToMultiByte\<close> and the decoders of native payloads, with the fields the manager reads.
\<close>

record TxPlatform =
  tx_wal :: WalPlatform
  wide_to_utf8 :: "16 word list \<Rightarrow> byte list"
  hard_link_checkpoint :: "byte list \<Rightarrow> nat option"
  clone_range_checkpoint :: "byte list \<Rightarrow> nat option"
  sparse_checkpoint :: "byte list \<Rightarrow> nat option"
  snapshot_pins :: "byte list \<Rightarrow> nat list"

text \<open>The checkpoint a native operation was planned against; \<^term>\<open>None\<close> when its payload does not decode.\<close>

definition native_operations :: "OperationKind list" where
  "native_operations =
     [OpCloneFile, OpHardLink, OpCloneRange, OpNativeSparse, OpSetVolumeQuotaReserve, OpRenameVolume, OpCreateSnapshot,
      OpDeleteSnapshot, OpRepairVolumeFileCount]"

definition native_checkpoint :: "TxPlatform \<Rightarrow> WalRecord \<Rightarrow> nat option" where
  "native_checkpoint tp r =
     (let pf = tx_wal tp; payload = inline_payload r; op = wal_operation r in
      if op = OpCloneFile then map_option snd (clone_proof pf payload)
      else if op = OpHardLink then hard_link_checkpoint tp payload
      else if op = OpCloneRange then clone_range_checkpoint tp payload
      else if op = OpNativeSparse then sparse_checkpoint tp payload
      else if op = OpSetVolumeQuotaReserve then map_option snd (quota_reserve pf payload)
      else if op = OpRenameVolume then map_option snd (volume_rename pf payload)
      else if op = OpRepairVolumeFileCount then map_option (\<lambda>(i, volume, checkpoint). checkpoint) (count_repair pf payload)
      else map_option (\<lambda>(create, volume, checkpoint, raw). checkpoint) (snapshot_intent pf payload))"

text \<open>A write whose payload is not in its record needs the payload spool for replay.\<close>

definition needs_spool :: "WalPlatform \<Rightarrow> WalRecord \<Rightarrow> bool" where
  "needs_spool pf r =
     (wal_operation r = OpWrite \<and> (inline_payload r = [] \<or> \<not> InlinePayloadIsConsistentImpl pf r))"

definition RequiresPayloadSpoolFlushForRecovery :: "WalPlatform \<Rightarrow> WalRecord list \<Rightarrow> bool" where
  "RequiresPayloadSpoolFlushForRecovery pf records = list_ex (needs_spool pf) records"

section \<open>The meaning of a log\<close>

record SemanticState =
  prepared_counts :: "(nat \<times> nat) list"
  clone_checkpoints :: "(nat \<times> nat) list"
  terminal_transactions :: "nat list"
  previous_sequence :: nat
  active_transaction_id :: nat

definition semantic_start :: SemanticState where
  "semantic_start =
     \<lparr>prepared_counts = [], clone_checkpoints = [], terminal_transactions = [], previous_sequence = 0,
      active_transaction_id = 0\<rparr>"

definition IsTransactionMarkerWithState :: "WalRecord \<Rightarrow> RecordState \<Rightarrow> nat \<Rightarrow> bool" where
  "IsTransactionMarkerWithState r st flags = (wal_state r = st \<and> wal_flags r = flags)"

text \<open>The first loop: the floor, \<^term>\<open>None\<close> when an index record is not valid.\<close>

fun compaction_floor :: "nat \<Rightarrow> WalRecord list \<Rightarrow> nat option" where
  "compaction_floor floor [] = Some floor"
| "compaction_floor floor (r # rs) =
     (if wal_operation r \<noteq> OpCompactionIndex then compaction_floor floor rs
      else if wal_transaction_id r \<noteq> 0 \<or> wal_sequence r = 0 \<or> wal_sequence r = u64_max \<or> wal_state r \<noteq> Cleaned \<or> wal_flags r \<noteq> 0
      then None
      else compaction_floor (max floor (wal_sequence r)) rs)"

definition semantic_marker :: "nat \<Rightarrow> WalRecord \<Rightarrow> SemanticState \<Rightarrow> SemanticState option" where
  "semantic_marker floor r s =
     (let t = wal_transaction_id r in
      if t = 0 \<or> t = u64_max \<or> (active_transaction_id s \<noteq> 0 \<and> active_transaction_id s \<noteq> t) \<or> t \<in> set (terminal_transactions s)
      then None
      else
        let accepted = IsTransactionMarkerWithState r Accepted kWalFlagAccepted;
            committed = IsTransactionMarkerWithState r Checkpointed kWalFlagCommitted;
            aborted = IsTransactionMarkerWithState r Cleaned kWalFlagAborted;
            clone_ok = (case map_of (clone_checkpoints s) t of
                          None \<Rightarrow> True | Some checkpoint \<Rightarrow> wal_object_id r = checkpoint \<and> logical_length r = 1);
            count_ok = (wal_sequence r = floor \<or>
                        (case map_of (prepared_counts s) t of
                           None \<Rightarrow> committed \<and> logical_length r = 0
                         | Some prepared \<Rightarrow> prepared = logical_length r))
        in if \<not> accepted \<and> \<not> committed \<and> \<not> aborted then None
           else if (accepted \<or> committed) \<and> \<not> (clone_ok \<and> count_ok) then None
           else Some (s\<lparr>terminal_transactions := t # terminal_transactions s,
                        prepared_counts := AList.delete t (prepared_counts s),
                        active_transaction_id := (if active_transaction_id s = t then 0 else active_transaction_id s)\<rparr>))"

definition semantic_mutation :: "TxPlatform \<Rightarrow> WalRecord \<Rightarrow> SemanticState \<Rightarrow> SemanticState option" where
  "semantic_mutation tp r s =
     (let t = wal_transaction_id r in
      if \<not> IsMutationOperation (wal_operation r) \<or> wal_state r \<noteq> Prepared \<or> t = 0 \<or> t = u64_max \<or>
         (active_transaction_id s \<noteq> 0 \<and> active_transaction_id s \<noteq> t) \<or> t \<in> set (terminal_transactions s)
      then None
      else
        let counted = s\<lparr>active_transaction_id := t,
                        prepared_counts := AList.update t (Suc (case map_of (prepared_counts s) t of None \<Rightarrow> 0 | Some n \<Rightarrow> n))
                                             (prepared_counts s)\<rparr>
        in if \<not> List.member native_operations (wal_operation r) then Some counted
           else if \<not> InlinePayloadIsConsistentImpl (tx_wal tp) r then None
           else case native_checkpoint tp r of
               None \<Rightarrow> None
             | Some checkpoint \<Rightarrow>
                 if map_of (clone_checkpoints s) t \<noteq> None then None
                 else Some (counted\<lparr>clone_checkpoints := (t, checkpoint) # clone_checkpoints s\<rparr>))"

definition semantic_step :: "TxPlatform \<Rightarrow> nat \<Rightarrow> WalRecord \<Rightarrow> SemanticState \<Rightarrow> SemanticState option" where
  "semantic_step tp floor r s =
     (if wal_operation r = OpCompactionIndex then Some s
      else if wal_sequence r = 0 \<or> wal_sequence r = u64_max \<or> wal_sequence r < floor \<or> wal_sequence r \<le> previous_sequence s
      then None
      else
        let s = s\<lparr>previous_sequence := wal_sequence r\<rparr> in
        if wal_operation r = OpTransactionMarker then semantic_marker floor r s
        else if wal_operation r = OpDurabilityWatermark then
          (if wal_transaction_id r \<noteq> 0 \<or> active_transaction_id s \<noteq> 0 \<or> wal_flags r \<noteq> 0 \<or> logical_offset r = 0 \<or>
              (wal_state r \<noteq> Checkpointed \<and> wal_state r \<noteq> Cleaned)
           then None else Some s)
        else semantic_mutation tp r s)"

fun semantic_run :: "TxPlatform \<Rightarrow> nat \<Rightarrow> WalRecord list \<Rightarrow> SemanticState \<Rightarrow> SemanticState option" where
  "semantic_run tp floor [] s = Some s"
| "semantic_run tp floor (r # rs) s =
     (case semantic_step tp floor r s of None \<Rightarrow> None | Some s' \<Rightarrow> semantic_run tp floor rs s')"

definition ValidateWalSemantics :: "TxPlatform \<Rightarrow> WalRecord list \<Rightarrow> bool" where
  "ValidateWalSemantics tp records =
     (case compaction_floor 0 records of
        None \<Rightarrow> False
      | Some floor \<Rightarrow>
          (case semantic_run tp floor records semantic_start of
             None \<Rightarrow> False
           | Some s \<Rightarrow> active_transaction_id s = 0 \<and> prepared_counts s = []))"

section \<open>The manager\<close>

datatype TxState = TxIdle | TxActive | TxCommitting | TxFailed

datatype CoverageTrust = CoverageUnknown | CoverageTrusted | CoveragePoisoned

datatype TxOutcome = OutcomeAccepted | OutcomeCommitted | OutcomeAborted

record TxManager =
  tx_state :: TxState
  safety_level :: "16 word list"
  journal_path :: bool
  volume_identity :: "16 word list"
  journal_max_bytes :: nat
  next_transaction_id :: nat
  next_sequence :: nat
  last_committed_sequence :: nat
  highest_checkpointed_marker_sequence :: nat
  accepted_sequence :: nat
  apfs_durable_sequence :: nat
  cleanup_sequence :: nat
  recovery_state_valid :: bool
  current_transaction_id :: nat
  deferred_wal_pending_sequence :: nat
  deferred_wal_durable_sequence :: nat
  deferred_wal_flush_failed :: bool
  accepted_boundaries :: "nat set"
  spool_flush_boundaries :: "nat set"
  coverage_trust :: CoverageTrust
  coverage_generation :: nat
  journal_state_generation :: nat
  journal_append_ambiguous :: bool
  transaction_requires_spool_flush :: bool
  pending_mutations :: "MutationIntent list"
  buffered_records :: "WalRecord list"
  buffered_inline_bytes :: nat
  buffered_empty_write :: bool
  buffered_incomplete_payload :: bool
  accepted_transaction_sequences :: "(nat \<times> nat \<times> nat) list"
  accepted_checkpoint_pins :: "(nat \<times> nat list) list"
  cached_pin_entries :: nat
  pin_census_generation :: nat
  pin_census_trusted :: bool
  journal :: "byte list"

text \<open>
  The outcomes of one operation.  A compaction whose file steps end in doubt has either replaced
  the file or not.
\<close>

datatype CompactionFiles = FilesReplaced | FilesRefused | FilesInDoubt bool

datatype CompactionResult = CompactionSucceeded | CompactionRejectedBeforeWrite | CompactionBytesMayHavePersisted

record TxIo =
  lease_now :: nat
  lease_acquired :: bool
  journal_read :: WalReadIo
  lease_read :: nat
  append_io :: WalAppendIo
  compaction_files :: CompactionFiles
  lease_retry :: nat
  retry_io :: WalAppendIo
  lease_after :: nat
  flush_pending_ok :: bool

definition default_identity :: "byte list" where
  "default_identity = map (\<lambda>c. word_of_nat (of_char c)) ''default''"

definition EffectiveVolumeIdentity :: "TxPlatform \<Rightarrow> 16 word list \<Rightarrow> byte list" where
  "EffectiveVolumeIdentity tp identity =
     (let i = (if identity = [] then default_identity else wide_to_utf8 tp identity)
      in if i = [] then default_identity else i)"

definition journal_identity :: "TxPlatform \<Rightarrow> TxManager \<Rightarrow> byte list" where
  "journal_identity tp st = EffectiveVolumeIdentity tp (volume_identity st)"

definition journal_options :: "TxPlatform \<Rightarrow> TxManager \<Rightarrow> WalOptions" where
  "journal_options tp st =
     \<lparr>has_path = journal_path st, option_volume_identity = journal_identity tp st, max_bytes = journal_max_bytes st\<rparr>"

subsection \<open>Caches\<close>

definition MaxRetainedAcceptedSequenceProofs :: nat where "MaxRetainedAcceptedSequenceProofs = 64"
definition MaxCachedCheckpointPinBoundaries :: nat where "MaxCachedCheckpointPinBoundaries = 4096"
definition MaxCachedCheckpointPinEntries :: nat where "MaxCachedCheckpointPinEntries = 65536"

definition InvalidateCheckpointPinCensus :: "TxManager \<Rightarrow> TxManager" where
  "InvalidateCheckpointPinCensus st =
     st\<lparr>accepted_checkpoint_pins := [], cached_pin_entries := 0, pin_census_generation := 0, pin_census_trusted := False\<rparr>"

definition InvalidateFinalizationCoverage :: "bool \<Rightarrow> TxManager \<Rightarrow> TxManager" where
  "InvalidateFinalizationCoverage poison st =
     (let st = InvalidateCheckpointPinCensus st in
      st\<lparr>coverage_trust := (if poison then CoveragePoisoned
                            else if coverage_trust st \<noteq> CoveragePoisoned then CoverageUnknown else CoveragePoisoned),
         coverage_generation := 0\<rparr>)"

definition AdvanceCheckpointPinCensusGeneration :: "nat \<Rightarrow> nat \<Rightarrow> bool \<Rightarrow> TxManager \<Rightarrow> TxManager" where
  "AdvanceCheckpointPinCensusGeneration before after compacted st =
     (if \<not> pin_census_trusted st \<or> before = 0 \<or> after = 0 \<or> pin_census_generation st \<noteq> before \<or>
         (before \<noteq> after \<and> \<not> compacted)
      then InvalidateCheckpointPinCensus st
      else st\<lparr>pin_census_generation := after\<rparr>)"

definition CacheAcceptedCheckpointPins :: "nat \<Rightarrow> nat list \<Rightarrow> TxManager \<Rightarrow> TxManager" where
  "CacheAcceptedCheckpointPins sequence pins st =
     (if \<not> pin_census_trusted st then st
      else
        let pins = remdups_adj (sort pins) in
        if pins = [] \<or> hd pins = 0 \<or> sequence \<le> cleanup_sequence st \<or>
           length (accepted_checkpoint_pins st) \<ge> MaxCachedCheckpointPinBoundaries \<or>
           length pins > MaxCachedCheckpointPinEntries - cached_pin_entries st \<or>
           map_of (accepted_checkpoint_pins st) sequence \<noteq> None
        then InvalidateCheckpointPinCensus st
        else st\<lparr>cached_pin_entries := cached_pin_entries st + length pins,
                accepted_checkpoint_pins := (sequence, pins) # accepted_checkpoint_pins st\<rparr>)"

text \<open>\<^term>\<open>None\<close> when the payload of a snapshot record does not give its pins.\<close>

definition AppendSnapshotCheckpointPins :: "TxPlatform \<Rightarrow> WalRecord \<Rightarrow> nat list \<Rightarrow> nat list option" where
  "AppendSnapshotCheckpointPins tp r pins =
     (if wal_operation r \<noteq> OpCreateSnapshot \<and> wal_operation r \<noteq> OpDeleteSnapshot then Some pins
      else
        let payload = inline_payload r in
        if \<not> InlinePayloadIsConsistentImpl (tx_wal tp) r \<or> snapshot_intent (tx_wal tp) payload = None \<or>
           length pins > MaxCachedCheckpointPinEntries \<or>
           length (snapshot_pins tp payload) > MaxCachedCheckpointPinEntries - length pins
        then None
        else Some (pins @ snapshot_pins tp payload))"

fun append_pins :: "TxPlatform \<Rightarrow> WalRecord list \<Rightarrow> nat list \<Rightarrow> nat list option" where
  "append_pins tp [] pins = Some pins"
| "append_pins tp (r # rs) pins =
     (case AppendSnapshotCheckpointPins tp r pins of None \<Rightarrow> None | Some pins \<Rightarrow> append_pins tp rs pins)"

definition PruneAcceptedBoundariesThrough :: "nat \<Rightarrow> TxManager \<Rightarrow> TxManager" where
  "PruneAcceptedBoundariesThrough cleanup st =
     st\<lparr>cached_pin_entries := cached_pin_entries st -
          sum_list (map (length \<circ> snd) (filter (\<lambda>p. fst p \<le> cleanup) (accepted_checkpoint_pins st))),
        accepted_checkpoint_pins := filter (\<lambda>p. cleanup < fst p) (accepted_checkpoint_pins st),
        accepted_boundaries := Set.filter (\<lambda>s. cleanup < s) (accepted_boundaries st)\<rparr>"

fun seed_pins :: "TxPlatform \<Rightarrow> WalRecord list \<Rightarrow> nat list \<Rightarrow> nat \<Rightarrow> TxManager \<Rightarrow> TxManager" where
  "seed_pins tp [] pins prepared st =
     (if length (accepted_checkpoint_pins st) \<noteq> card (accepted_boundaries st) then InvalidateCheckpointPinCensus st else st)"
| "seed_pins tp (r # rs) pins prepared st =
     (if wal_state r = Prepared then
        (case AppendSnapshotCheckpointPins tp r pins of
           None \<Rightarrow> InvalidateCheckpointPinCensus st
         | Some pins \<Rightarrow> seed_pins tp rs pins (Suc prepared) st)
      else if wal_operation r = OpTransactionMarker then
        (if wal_state r = Accepted \<and> wal_sequence r > cleanup_sequence st then
           if prepared = 0 \<or> prepared \<noteq> logical_length r then InvalidateCheckpointPinCensus st
           else
             let st = CacheAcceptedCheckpointPins (wal_sequence r) (pins @ [wal_object_id r]) st in
             if \<not> pin_census_trusted st then st else seed_pins tp rs [] 0 st
         else seed_pins tp rs [] 0 st)
      else seed_pins tp rs pins prepared st)"

definition SeedCheckpointPinCensus :: "TxPlatform \<Rightarrow> WalRecord list \<Rightarrow> nat \<Rightarrow> TxManager \<Rightarrow> TxManager" where
  "SeedCheckpointPinCensus tp records generation st =
     (let st = InvalidateCheckpointPinCensus st in
      if \<not> recovery_state_valid st \<or> generation = 0 \<or> generation \<noteq> journal_state_generation st \<or>
         coverage_trust st \<noteq> CoverageTrusted \<or> highest_checkpointed_marker_sequence st > cleanup_sequence st
      then st
      else seed_pins tp records [] 0 (st\<lparr>pin_census_trusted := True, pin_census_generation := generation\<rparr>))"

section \<open>Recovery\<close>

record SeedState =
  recovered_boundaries :: "nat set"
  recovered_sequences :: "(nat \<times> nat) list"
  spool_requirements :: "(nat \<times> bool) list"
  accepted_requirements :: "(nat \<times> bool) list"
  max_transaction_id :: nat
  max_sequence :: nat
  highest_checkpointed_marker :: nat
  recovered_accepted :: nat
  recovered_durable :: nat
  recovered_cleanup :: nat
  recovered_state_valid :: bool

definition seed_start :: SeedState where
  "seed_start =
     \<lparr>recovered_boundaries = {}, recovered_sequences = [], spool_requirements = [], accepted_requirements = [],
      max_transaction_id = 0, max_sequence = 0, highest_checkpointed_marker = 0, recovered_accepted = 0,
      recovered_durable = 0, recovered_cleanup = 0, recovered_state_valid = True\<rparr>"

definition seed_marker :: "WalRecord \<Rightarrow> SeedState \<Rightarrow> SeedState" where
  "seed_marker r s =
     (let t = wal_transaction_id r; n = wal_sequence r;
          required = (map_of (spool_requirements s) t = Some True);
          s = s\<lparr>spool_requirements := AList.delete t (spool_requirements s)\<rparr>
      in if wal_state r = Accepted then
           s\<lparr>recovered_boundaries := insert n (recovered_boundaries s),
             recovered_sequences := AList.update t n (recovered_sequences s),
             recovered_accepted := max (recovered_accepted s) n,
             accepted_requirements := accepted_requirements s @ [(n, required)]\<rparr>
         else if wal_state r = Checkpointed \<and> odd (wal_flags r) then
           s\<lparr>highest_checkpointed_marker := max (highest_checkpointed_marker s) n,
             recovered_boundaries := insert n (recovered_boundaries s),
             recovered_sequences := AList.update t n (recovered_sequences s),
             recovered_accepted := max (recovered_accepted s) n,
             recovered_durable := max (recovered_durable s) n\<rparr>
         else s)"

definition seed_watermark :: "WalRecord \<Rightarrow> SeedState \<Rightarrow> SeedState" where
  "seed_watermark r s =
     (let n = logical_offset r in
      if wal_state r = Checkpointed then
        s\<lparr>recovered_state_valid :=
            (recovered_state_valid s \<and> recovered_durable s \<le> n \<and> n \<le> recovered_accepted s \<and> n \<in> recovered_boundaries s),
          recovered_durable := max (recovered_durable s) n\<rparr>
      else if wal_state r = Cleaned then
        s\<lparr>recovered_state_valid :=
            (recovered_state_valid s \<and> recovered_cleanup s \<le> n \<and> n \<le> recovered_durable s \<and> n \<in> recovered_boundaries s),
          recovered_cleanup := max (recovered_cleanup s) n\<rparr>
      else s)"

definition seed_step :: "TxPlatform \<Rightarrow> WalRecord \<Rightarrow> SeedState \<Rightarrow> SeedState" where
  "seed_step tp r s =
     (let t = wal_transaction_id r;
          s = s\<lparr>max_transaction_id := max (max_transaction_id s) t, max_sequence := max (max_sequence s) (wal_sequence r)\<rparr>
      in if wal_state r = Prepared \<and> IsMutationOperation (wal_operation r) then
           s\<lparr>spool_requirements :=
               AList.update t (needs_spool (tx_wal tp) r \<or> map_of (spool_requirements s) t = Some True) (spool_requirements s)\<rparr>
         else if wal_operation r = OpTransactionMarker then seed_marker r s
         else if wal_operation r = OpDurabilityWatermark then seed_watermark r s
         else s)"

definition seed_records :: "TxPlatform \<Rightarrow> WalRecord list \<Rightarrow> SeedState" where
  "seed_records tp records = fold (seed_step tp) records seed_start"

text \<open>An owner that cannot trust its journal any more.\<close>

definition lose_journal :: "TxManager \<Rightarrow> TxManager" where
  "lose_journal st =
     InvalidateFinalizationCoverage True (st\<lparr>recovery_state_valid := False, journal_state_generation := 0\<rparr>)"

definition seed_proofs :: "(nat \<times> nat) list \<Rightarrow> (nat \<times> nat \<times> nat) list \<Rightarrow> (nat \<times> nat \<times> nat) list" where
  "seed_proofs recovered proofs =
     List.map_filter (\<lambda>(t, sequence, retained). map_option (\<lambda>n. (t, n, retained)) (map_of recovered t)) proofs"

definition SeedIdsFromJournalRecords :: "TxPlatform \<Rightarrow> WalRecord list \<Rightarrow> nat \<Rightarrow> TxManager \<Rightarrow> bool \<times> TxManager" where
  "SeedIdsFromJournalRecords tp records generation st =
     (if tx_state st \<noteq> TxIdle \<or> \<not> ValidateWalSemantics tp records then (False, lose_journal st)
      else
        let s = seed_records tp records;
            valid = (recovered_state_valid s \<and> spool_requirements s = [] \<and>
                     recovered_cleanup s \<le> recovered_durable s \<and> recovered_durable s \<le> recovered_accepted s \<and>
                     max_transaction_id s \<noteq> u64_max \<and> max_sequence s \<noteq> u64_max);
            st = st\<lparr>accepted_boundaries := recovered_boundaries s,
                    spool_flush_boundaries :=
                      set (map fst (filter (\<lambda>(n, required). required \<and> n > recovered_durable s) (accepted_requirements s))),
                    accepted_sequence := recovered_accepted s, apfs_durable_sequence := recovered_durable s,
                    cleanup_sequence := recovered_cleanup s, last_committed_sequence := recovered_durable s,
                    highest_checkpointed_marker_sequence := highest_checkpointed_marker s,
                    recovery_state_valid := (valid \<and> \<not> journal_append_ambiguous st),
                    accepted_transaction_sequences := seed_proofs (recovered_sequences s) (accepted_transaction_sequences st)\<rparr>;
            st = PruneAcceptedBoundariesThrough (cleanup_sequence st) st;
            st = st\<lparr>next_transaction_id := (if next_transaction_id st \<le> max_transaction_id s
                                           then add64 (max_transaction_id s) 1 else next_transaction_id st),
                    next_sequence := (if next_sequence st \<le> max_sequence s then add64 (max_sequence s) 1 else next_sequence st)\<rparr>
        in if \<not> recovery_state_valid st \<or> (generation = 0 \<and> journal_path st) then
             (recovery_state_valid st,
              InvalidateFinalizationCoverage (\<not> recovery_state_valid st) (st\<lparr>journal_state_generation := 0\<rparr>))
           else
             let st = st\<lparr>journal_state_generation := generation\<rparr>;
                 st = (if generation \<noteq> 0 then st\<lparr>coverage_trust := CoverageTrusted, coverage_generation := generation\<rparr>
                       else InvalidateFinalizationCoverage False st)
             in (True, SeedCheckpointPinCensus tp records generation st))"

definition ReadAllWithExclusiveWriterLease ::
  "WalPlatform \<Rightarrow> bool \<Rightarrow> WalReadIo \<Rightarrow> byte list \<Rightarrow> WalReadLimits \<Rightarrow> byte list \<Rightarrow> ReadResult \<times> byte list" where
  "ReadAllWithExclusiveWriterLease pf acquired io identity limits bytes =
     (let failed = \<lparr>read_status = IoError, recovered_torn_tail = False, read_records = []\<rparr> in
      if \<not> acquired then (failed, bytes)
      else
        let (inspected, prefix, _) = ReadAllInternal pf io (Some bytes) identity False limits in
        if read_status inspected \<noteq> ReadOk then (inspected, bytes)
        else if recovered_torn_tail inspected \<and> \<not> truncate_ok io
        then (inspected\<lparr>read_status := IoError, read_records := []\<rparr>, bytes)
        else
          let bytes = (if recovered_torn_tail inspected then take prefix bytes else bytes);
              (verified, _) = ReadAllInternal pf io (Some bytes) identity False limits
          in if read_status verified \<noteq> ReadOk \<or> recovered_torn_tail verified
             then (verified\<lparr>read_status := IoError, read_records := []\<rparr>, bytes)
             else (verified\<lparr>recovered_torn_tail := recovered_torn_tail inspected\<rparr>, bytes))"

definition SeedIdsFromExistingJournal :: "TxPlatform \<Rightarrow> TxIo \<Rightarrow> TxManager \<Rightarrow> bool \<times> TxManager" where
  "SeedIdsFromExistingJournal tp io st =
     (if tx_state st \<noteq> TxIdle then (False, st)
      else if \<not> journal_path st then (True, InvalidateFinalizationCoverage False (st\<lparr>journal_state_generation := 0\<rparr>))
      else
        let (existing, bytes) = ReadAllWithExclusiveWriterLease (tx_wal tp) (lease_acquired io) (journal_read io)
                                  (journal_identity tp st) default_limits (journal st);
            st = st\<lparr>journal := bytes\<rparr>
        in if read_status existing \<noteq> ReadOk \<or> \<not> ValidateWalSemantics tp (read_records existing) then (False, lose_journal st)
           else SeedIdsFromJournalRecords tp (read_records existing) (lease_read io) st)"

subsection \<open>Replay\<close>

record AcceptedTransaction =
  at_transaction_id :: nat
  at_accepted_sequence :: nat
  at_mutations :: "WalRecord list"
  at_preimage_checkpoint_xid :: nat

datatype LoadError =
    WatermarkStateInvalid | AcceptedWorkHasNoPath | JournalBusy | ActiveLostOwnership | ReadBudgetExceeded
  | JournalUnreadable | SemanticValidationFailed | ReseedFailed | ActiveChangedOwnership
  | SequenceOrderingInvalid | TerminalMarkerInvalid | ExceedsWatermark | TransactionIncomplete
  | MutationNotReplayable | WatermarkHasNoTransaction

record CollectState =
  prepared_by_transaction :: "(nat \<times> WalRecord list) list"
  collected_terminal :: "nat list"
  collected_previous :: nat
  collected :: "AcceptedTransaction list"

definition collect_start :: CollectState where
  "collect_start = \<lparr>prepared_by_transaction = [], collected_terminal = [], collected_previous = 0, collected = []\<rparr>"

definition collect_marker ::
  "bool \<Rightarrow> nat \<Rightarrow> nat \<Rightarrow> WalRecord \<Rightarrow> CollectState \<Rightarrow> LoadError + CollectState" where
  "collect_marker include_checkpointed lower accepted r s =
     (let t = wal_transaction_id r; n = wal_sequence r in
      if t = 0 \<or> t \<in> set (collected_terminal s) then Inl TerminalMarkerInvalid
      else
        let s = s\<lparr>collected_terminal := t # collected_terminal s\<rparr>;
            prepared = map_of (prepared_by_transaction s) t;
            is_accepted_marker = (wal_state r = Accepted \<or>
              (include_checkpointed \<and> wal_state r = Checkpointed \<and> odd (wal_flags r)));
            empty_committed = (prepared = None \<and> logical_length r = 0 \<and> wal_state r = Checkpointed);
            s' = s\<lparr>prepared_by_transaction := AList.delete t (prepared_by_transaction s)\<rparr>
        in if is_accepted_marker \<and> n > accepted then Inl ExceedsWatermark
           else if is_accepted_marker \<and> n > lower then
             if \<not> empty_committed \<and> (case prepared of None \<Rightarrow> True | Some rs \<Rightarrow> length rs \<noteq> logical_length r)
             then Inl TransactionIncomplete
             else Inr (s'\<lparr>collected := collected s' @
                       [\<lparr>at_transaction_id = t, at_accepted_sequence = n,
                         at_mutations = (case prepared of None \<Rightarrow> [] | Some rs \<Rightarrow> rs),
                         at_preimage_checkpoint_xid = wal_object_id r\<rparr>]\<rparr>)
           else Inr s')"

definition collect_step ::
  "bool \<Rightarrow> nat \<Rightarrow> nat \<Rightarrow> WalRecord \<Rightarrow> CollectState \<Rightarrow> LoadError + CollectState" where
  "collect_step include_checkpointed lower accepted r s =
     (if wal_operation r = OpCompactionIndex then Inr s
      else if wal_sequence r = 0 \<or> wal_sequence r \<le> collected_previous s then Inl SequenceOrderingInvalid
      else
        let s = s\<lparr>collected_previous := wal_sequence r\<rparr>; t = wal_transaction_id r in
        if wal_operation r = OpDurabilityWatermark then Inr s
        else if wal_operation r = OpTransactionMarker then collect_marker include_checkpointed lower accepted r s
        else if wal_state r \<noteq> Prepared \<or> t = 0 \<or> t \<in> set (collected_terminal s) then Inl MutationNotReplayable
        else Inr (s\<lparr>prepared_by_transaction :=
                    AList.update t ((case map_of (prepared_by_transaction s) t of None \<Rightarrow> [] | Some rs \<Rightarrow> rs) @ [r])
                      (prepared_by_transaction s)\<rparr>))"

fun collect_run ::
  "bool \<Rightarrow> nat \<Rightarrow> nat \<Rightarrow> WalRecord list \<Rightarrow> CollectState \<Rightarrow> LoadError + CollectState" where
  "collect_run include_checkpointed lower accepted [] s = Inr s"
| "collect_run include_checkpointed lower accepted (r # rs) s =
     (case collect_step include_checkpointed lower accepted r s of
        Inl e \<Rightarrow> Inl e | Inr s' \<Rightarrow> collect_run include_checkpointed lower accepted rs s')"

definition HasUnappliedAcceptedWork :: "TxManager \<Rightarrow> bool" where
  "HasUnappliedAcceptedWork st = (accepted_sequence st > apfs_durable_sequence st)"

definition CollectAcceptedTransactions ::
  "WalRecord list \<Rightarrow> bool \<Rightarrow> TxManager \<Rightarrow> LoadError + AcceptedTransaction list" where
  "CollectAcceptedTransactions records include_checkpointed st =
     (let lower = (if include_checkpointed then cleanup_sequence st else apfs_durable_sequence st) in
      case collect_run include_checkpointed lower (accepted_sequence st) records collect_start of
        Inl e \<Rightarrow> Inl e
      | Inr s \<Rightarrow>
          let expected_latest = (if include_checkpointed then accepted_sequence st
                                 else if HasUnappliedAcceptedWork st then accepted_sequence st else 0)
          in if expected_latest > lower \<and>
                (collected s = [] \<or> at_accepted_sequence (last (collected s)) \<noteq> expected_latest)
             then Inl WatermarkHasNoTransaction
             else Inr (collected s))"

definition JournalStateMatchesWriterLease :: "nat \<Rightarrow> TxManager \<Rightarrow> bool" where
  "JournalStateMatchesWriterLease lease st =
     (\<not> journal_path st \<or> (lease \<noteq> 0 \<and> lease = journal_state_generation st))"

definition LoadAcceptedTransactionsAfter ::
  "TxPlatform \<Rightarrow> TxIo \<Rightarrow> bool \<Rightarrow> WalReadLimits \<Rightarrow> TxManager \<Rightarrow> (LoadError + AcceptedTransaction list) \<times> TxManager" where
  "LoadAcceptedTransactionsAfter tp io include_checkpointed limits st =
     (let invalidated = (\<lambda>st. InvalidateFinalizationCoverage True (st\<lparr>recovery_state_valid := False\<rparr>)) in
      if \<not> recovery_state_valid st then (Inl WatermarkStateInvalid, st)
      else if \<not> journal_path st then
        (if accepted_sequence st > (if include_checkpointed then cleanup_sequence st else apfs_durable_sequence st)
         then (Inl AcceptedWorkHasNoPath, st) else (Inr [], st))
      else if tx_state st \<noteq> TxIdle \<and> tx_state st \<noteq> TxActive then (Inl JournalBusy, st)
      else if tx_state st = TxActive \<and> \<not> JournalStateMatchesWriterLease (lease_now io) st
      then (Inl ActiveLostOwnership, invalidated st)
      else
        let (existing, bytes) = ReadAllWithExclusiveWriterLease (tx_wal tp) (lease_acquired io) (journal_read io)
                                  (journal_identity tp st) limits (journal st);
            st = st\<lparr>journal := bytes\<rparr>
        in if read_status existing = ResourceLimit then (Inl ReadBudgetExceeded, st)
           else if read_status existing \<noteq> ReadOk then (Inl JournalUnreadable, invalidated st)
           else if \<not> ValidateWalSemantics tp (read_records existing) then (Inl SemanticValidationFailed, invalidated st)
           else if tx_state st = TxIdle then
             (let (seeded, st) = SeedIdsFromJournalRecords tp (read_records existing) (lease_read io) st in
              if \<not> seeded then (Inl ReseedFailed, st)
              else (CollectAcceptedTransactions (read_records existing) include_checkpointed st, st))
           else if lease_read io = 0 \<or> lease_read io \<noteq> journal_state_generation st
           then (Inl ActiveChangedOwnership, invalidated st)
           else (CollectAcceptedTransactions (read_records existing) include_checkpointed st, st))"

definition LoadUnappliedAcceptedTransactions ::
  "TxPlatform \<Rightarrow> TxIo \<Rightarrow> TxManager \<Rightarrow> (LoadError + AcceptedTransaction list) \<times> TxManager" where
  "LoadUnappliedAcceptedTransactions tp io st = LoadAcceptedTransactionsAfter tp io False default_limits st"

definition LoadAcceptedTransactionsSinceCleanup ::
  "TxPlatform \<Rightarrow> TxIo \<Rightarrow> WalReadLimits \<Rightarrow> TxManager \<Rightarrow> (LoadError + AcceptedTransaction list) \<times> TxManager" where
  "LoadAcceptedTransactionsSinceCleanup tp io limits st = LoadAcceptedTransactionsAfter tp io True limits st"

end
