(* ===== verification/TransactionManager.thy ===== *)
theory TransactionManager
  imports TransactionJournal
begin

text \<open>
  The operations of the transaction manager of \<^verbatim>\<open>src/TransactionManager.cpp\<close>: appending with one
  retry after a compaction, the batch of a transaction and its marker, the watermarks, and the calls
  its clients make.
\<close>

section \<open>Writing the journal\<close>

definition blank_record :: WalRecord where
  "blank_record =
     \<lparr>wal_volume_identity = [], wal_transaction_id = 0, wal_sequence = 0, wal_operation = OpWrite, wal_state = Prepared,
      wal_object_id = 0, wal_parent_object_id = 0, payload_spool_id = 0, payload_offset = 0, payload_length = 0,
      logical_offset = 0, logical_length = 0, wal_flags = 0, payload_sha256 = replicate 32 0, inline_payload = [],
      path_utf8 = [], secondary_path_utf8 = [], unlink_outcome = None\<rparr>"

definition ClearBufferedPreparedRecords :: "TxManager \<Rightarrow> TxManager" where
  "ClearBufferedPreparedRecords st =
     st\<lparr>buffered_records := [], buffered_inline_bytes := 0, buffered_empty_write := False,
        buffered_incomplete_payload := False\<rparr>"

definition SafeCompactionFloor :: "nat \<Rightarrow> TxManager \<Rightarrow> nat" where
  "SafeCompactionFloor preferred st =
     (if highest_checkpointed_marker_sequence st > cleanup_sequence st then 1
      else if accepted_sequence st \<le> cleanup_sequence st then preferred
      else if cleanup_sequence st = 0 then 1
      else min preferred (cleanup_sequence st))"

text \<open>
  \<^verbatim>\<open>CompactWithResult\<close>, with the steps that exchange the files as an outcome.  The torn tail of
  a log is cut before the records are taken over.
\<close>

definition CompactWithResult ::
  "WalPlatform \<Rightarrow> byte list \<Rightarrow> CompactionFiles \<Rightarrow> nat \<Rightarrow> byte list \<Rightarrow> CompactionResult \<times> byte list" where
  "CompactWithResult pf identity files minimum_sequence bytes =
     (let (read, prefix) = DecodeWalBytes pf bytes identity default_limits None in
      if files = FilesRefused \<or> read_status read \<noteq> ReadOk then (CompactionRejectedBeforeWrite, bytes)
      else
        let bytes = take prefix bytes in
        case WriteWalRecordsDurably pf (compaction_kept False identity minimum_sequence (read_records read)) of
          None \<Rightarrow> (CompactionRejectedBeforeWrite, bytes)
        | Some replacement \<Rightarrow>
            (case files of
               FilesReplaced \<Rightarrow> (CompactionSucceeded, replacement)
             | FilesInDoubt replaced \<Rightarrow> (CompactionBytesMayHavePersisted, if replaced then replacement else bytes)
             | FilesRefused \<Rightarrow> (CompactionRejectedBeforeWrite, bytes)))"

text \<open>
  Appending with one retry after a compaction, as \<^verbatim>\<open>PersistTransactionBatchLocked\<close>,
  \<^verbatim>\<open>FlushPreparedRecords\<close> and \<^verbatim>\<open>AppendWalRecordWithCleanup\<close> all do it: whether the records are in
  the log, and whether the log was compacted for them.
\<close>

definition append_or_compact ::
  "TxPlatform \<Rightarrow> TxIo \<Rightarrow> (WalAppendIo \<Rightarrow> nat \<Rightarrow> byte list \<Rightarrow> AppendResult \<times> byte list) \<Rightarrow> nat \<Rightarrow> TxManager \<Rightarrow>
     bool \<times> bool \<times> TxManager" where
  "append_or_compact tp io write first_sequence_to_keep st =
     (let generation = journal_state_generation st;
          (result, bytes) = write (append_io io) generation (journal st);
          st = st\<lparr>journal := bytes\<rparr>
      in case result of
           AppendSucceeded \<Rightarrow> (True, False, st)
         | AppendBytesMayHavePersisted \<Rightarrow> (False, False, lose_journal (st\<lparr>journal_append_ambiguous := True\<rparr>))
         | AppendRejectedBeforeWrite \<Rightarrow>
             let (compaction, bytes) = CompactWithResult (tx_wal tp) (journal_identity tp st) (compaction_files io)
                                         (SafeCompactionFloor first_sequence_to_keep st) (journal st);
                 st = st\<lparr>journal := bytes\<rparr>
             in if compaction \<noteq> CompactionSucceeded then
                  (False, False, lose_journal (st\<lparr>journal_append_ambiguous := (compaction = CompactionBytesMayHavePersisted)\<rparr>))
                else if lease_retry io = 0 then (False, False, lose_journal st)
                else
                  let st = st\<lparr>journal_state_generation := lease_retry io\<rparr>;
                      (result, bytes) = write (retry_io io) (lease_retry io) (journal st);
                      st = st\<lparr>journal := bytes\<rparr>
                  in (case result of
                       AppendSucceeded \<Rightarrow> (True, True, st)
                     | AppendBytesMayHavePersisted \<Rightarrow> (False, False, lose_journal (st\<lparr>journal_append_ambiguous := True\<rparr>))
                     | AppendRejectedBeforeWrite \<Rightarrow> (False, False, lose_journal st)))"

definition coverage_trusted :: "TxManager \<Rightarrow> bool" where
  "coverage_trusted st =
     (coverage_trust st = CoverageTrusted \<and> journal_state_generation st \<noteq> 0 \<and>
      journal_state_generation st = coverage_generation st)"

text \<open>What follows a successful append: the lease it was made under, and whether the caches still hold.\<close>

definition settle_append :: "TxIo \<Rightarrow> TxManager \<Rightarrow> bool \<Rightarrow> TxManager \<Rightarrow> bool \<times> TxManager" where
  "settle_append io before compacted st =
     (let generation = lease_after io;
          remains = (coverage_trusted before \<and> generation \<noteq> 0 \<and>
                     (generation = journal_state_generation before \<or> compacted))
      in if generation = 0 then (False, lose_journal st)
         else
           let st = st\<lparr>journal_state_generation := generation\<rparr> in
           (True, if remains then st\<lparr>coverage_trust := CoverageTrusted, coverage_generation := generation\<rparr>
                  else InvalidateFinalizationCoverage False st))"

definition BuildTransactionMarkerLocked :: "TxPlatform \<Rightarrow> TxOutcome \<Rightarrow> nat \<Rightarrow> TxManager \<Rightarrow> WalRecord" where
  "BuildTransactionMarkerLocked tp outcome preimage_checkpoint_xid st =
     blank_record\<lparr>wal_volume_identity := journal_identity tp st, wal_transaction_id := current_transaction_id st,
       wal_operation := OpTransactionMarker,
       wal_state := (case outcome of OutcomeAccepted \<Rightarrow> Accepted | OutcomeCommitted \<Rightarrow> Checkpointed | OutcomeAborted \<Rightarrow> Cleaned),
       wal_flags := (case outcome of OutcomeAccepted \<Rightarrow> kWalFlagAccepted | OutcomeCommitted \<Rightarrow> kWalFlagCommitted
                     | OutcomeAborted \<Rightarrow> kWalFlagAborted),
       wal_object_id := (if outcome = OutcomeAborted then 0 else preimage_checkpoint_xid),
       logical_length := length (pending_mutations st), path_utf8 := wide_to_utf8 tp (safety_level st)\<rparr>"

text \<open>A native mutation is alone in its transaction and planned against the checkpoint it is accepted on.\<close>

definition native_proof_ok :: "TxPlatform \<Rightarrow> nat \<Rightarrow> TxManager \<Rightarrow> MutationIntent \<Rightarrow> bool" where
  "native_proof_ok tp preimage_checkpoint_xid st m =
     (let op = ToWalOperation (mutation_kind m);
          same = (\<lambda>r. if op = OpCreateSnapshot \<or> op = OpDeleteSnapshot
                      then wal_operation r = OpCreateSnapshot \<or> wal_operation r = OpDeleteSnapshot
                      else wal_operation r = op)
      in if \<not> List.member native_operations op then True
         else journal_path st \<and> length (pending_mutations st) = 1 \<and>
              (case find same (buffered_records st) of
                 None \<Rightarrow> False
               | Some r \<Rightarrow>
                   (if op = OpHardLink \<or> op = OpCloneRange \<or> op = OpNativeSparse
                    then InlinePayloadIsConsistentImpl (tx_wal tp) r else True) \<and>
                   native_checkpoint tp r = Some preimage_checkpoint_xid))"

definition buffered_for_append :: "TxPlatform \<Rightarrow> TxManager \<Rightarrow> WalRecord list" where
  "buffered_for_append tp st =
     map (\<lambda>r. if wal_volume_identity r = [] then r\<lparr>wal_volume_identity := journal_identity tp st\<rparr> else r) (buffered_records st)"

definition buffered_sequences_ok :: "TxManager \<Rightarrow> bool" where
  "buffered_sequences_ok st = list_all (\<lambda>r. wal_sequence r \<noteq> 0 \<and> wal_sequence r < next_sequence st) (buffered_records st)"

definition note_accepted :: "nat \<Rightarrow> TxManager \<Rightarrow> TxManager" where
  "note_accepted n st =
     st\<lparr>accepted_transaction_sequences :=
         map (\<lambda>(t, sequence, retained). if t = current_transaction_id st then (t, n, retained) else (t, sequence, retained))
           (accepted_transaction_sequences st)\<rparr>"

definition persist_without_journal :: "TxOutcome \<Rightarrow> TxManager \<Rightarrow> TxManager" where
  "persist_without_journal outcome st =
     (let st = ClearBufferedPreparedRecords st;
          n = mutation_wal_sequence (last (pending_mutations st))
      in if pending_mutations st = [] then st
         else if outcome = OutcomeCommitted then st\<lparr>last_committed_sequence := n\<rparr>
         else if outcome = OutcomeAccepted
         then note_accepted n (st\<lparr>accepted_sequence := n, accepted_boundaries := insert n (accepted_boundaries st)\<rparr>)
         else st)"

definition record_outcome ::
  "TxPlatform \<Rightarrow> TxOutcome \<Rightarrow> nat \<Rightarrow> WalRecord list \<Rightarrow> nat \<Rightarrow> bool \<Rightarrow> TxManager \<Rightarrow> TxManager" where
  "record_outcome tp outcome preimage_checkpoint_xid records n remains st =
     (case outcome of
        OutcomeCommitted \<Rightarrow>
          (let st = InvalidateCheckpointPinCensus st in
           st\<lparr>last_committed_sequence := n,
              highest_checkpointed_marker_sequence := max (highest_checkpointed_marker_sequence st) n\<rparr>)
      | OutcomeAccepted \<Rightarrow>
          (let st = st\<lparr>accepted_sequence := n, accepted_boundaries := insert n (accepted_boundaries st)\<rparr>;
               pins = (if preimage_checkpoint_xid = 0 then None else append_pins tp records [preimage_checkpoint_xid]);
               st = (case pins of None \<Rightarrow> InvalidateCheckpointPinCensus st | Some pins \<Rightarrow> CacheAcceptedCheckpointPins n pins st);
               st = (if remains \<and> transaction_requires_spool_flush st
                     then st\<lparr>spool_flush_boundaries := insert n (spool_flush_boundaries st)\<rparr> else st)
           in note_accepted n st)
      | OutcomeAborted \<Rightarrow> st)"

definition PersistTransactionBatchLocked ::
  "TxPlatform \<Rightarrow> TxIo \<Rightarrow> TxOutcome \<Rightarrow> bool \<Rightarrow> nat \<Rightarrow> TxManager \<Rightarrow> bool \<times> TxManager" where
  "PersistTransactionBatchLocked tp io outcome durable_flush preimage_checkpoint_xid st =
     (let n = next_sequence st in
      if n = 0 \<or> n = u64_max then (False, st)
      else if outcome \<noteq> OutcomeAborted \<and> \<not> list_all (native_proof_ok tp preimage_checkpoint_xid st) (pending_mutations st)
      then (False, st)
      else if \<not> journal_path st then (True, persist_without_journal outcome st)
      else if \<not> JournalStateMatchesWriterLease (lease_now io) st
      then (False, InvalidateFinalizationCoverage True (st\<lparr>recovery_state_valid := False\<rparr>))
      else if \<not> buffered_sequences_ok st then (False, st)
      else
        let first_sequence_to_keep = (if pending_mutations st = [] then n else mutation_wal_sequence (hd (pending_mutations st)));
            marker = (BuildTransactionMarkerLocked tp outcome preimage_checkpoint_xid st)\<lparr>wal_sequence := n\<rparr>;
            records = buffered_for_append tp st @ [marker];
            (appended, compacted, st') =
              append_or_compact tp io
                (\<lambda>aio generation. AppendBatchWithResult (tx_wal tp) (journal_options tp st) aio records durable_flush generation)
                first_sequence_to_keep st
        in if \<not> appended then (False, st')
           else
             let (settled, st') = settle_append io st compacted st' in
             if \<not> settled then (False, st')
             else
               let st' = st'\<lparr>next_sequence := add64 n 1\<rparr>;
                   st' = AdvanceCheckpointPinCensusGeneration (journal_state_generation st) (lease_after io) compacted st';
                   remains = (coverage_trusted st \<and> (lease_after io = journal_state_generation st \<or> compacted));
                   st' = record_outcome tp outcome preimage_checkpoint_xid records n remains st'
               in (True, ClearBufferedPreparedRecords st'))"

definition AppendWalRecordWithCleanup ::
  "TxPlatform \<Rightarrow> TxIo \<Rightarrow> WalRecord \<Rightarrow> bool \<Rightarrow> nat \<Rightarrow> TxManager \<Rightarrow> bool \<times> TxManager" where
  "AppendWalRecordWithCleanup tp io r durable_flush first_sequence_to_keep st =
     (let n = next_sequence st in
      if \<not> recovery_state_valid st \<or> n = 0 \<or> n = u64_max then (False, st)
      else if \<not> journal_path st then (True, st)
      else if \<not> JournalStateMatchesWriterLease (lease_now io) st
      then (False, InvalidateFinalizationCoverage True (st\<lparr>recovery_state_valid := False\<rparr>))
      else
        let r = (if wal_sequence r = 0 then r\<lparr>wal_sequence := n\<rparr> else r) in
        if wal_sequence r \<noteq> n then (False, st)
        else
          let (appended, compacted, st') =
                append_or_compact tp io
                  (\<lambda>aio generation. AppendWithResult (tx_wal tp) (journal_options tp st) aio r durable_flush generation)
                  first_sequence_to_keep st
          in if \<not> appended then (False, st')
             else
               let (settled, st') = settle_append io st compacted st' in
               if \<not> settled then (False, st')
               else (True, AdvanceCheckpointPinCensusGeneration (journal_state_generation st) (lease_after io) compacted
                             (st'\<lparr>next_sequence := add64 n 1\<rparr>)))"

definition AppendWatermarkLocked :: "TxPlatform \<Rightarrow> TxIo \<Rightarrow> RecordState \<Rightarrow> nat \<Rightarrow> TxManager \<Rightarrow> bool \<times> TxManager" where
  "AppendWatermarkLocked tp io wstate target_sequence st =
     AppendWalRecordWithCleanup tp io
       (blank_record\<lparr>wal_volume_identity := journal_identity tp st, wal_operation := OpDurabilityWatermark,
          wal_state := wstate, logical_offset := target_sequence\<rparr>) True
       (if cleanup_sequence st = u64_max then cleanup_sequence st else cleanup_sequence st + 1) st"

section \<open>Operations\<close>

text \<open>The record of a mutation, and the tests it has to pass.\<close>

definition is_inline_metadata :: "MutationKind \<Rightarrow> bool" where
  "is_inline_metadata kind =
     List.member [MutSetInodeMetadata, MutRewriteCompressedContent, MutCloneFile, MutRenameVolume,
       MutSetVolumeQuotaReserve, MutCreateSnapshot, MutDeleteSnapshot, MutRepairVolumeFileCount] kind"

definition is_link_mutation :: "MutationKind \<Rightarrow> bool" where
  "is_link_mutation kind = List.member [MutHardLink, MutNativeSparse, MutCloneRange] kind"

definition is_attribute_mutation :: "MutationKind \<Rightarrow> bool" where
  "is_attribute_mutation kind = List.member [MutSetExtendedAttribute, MutRemoveExtendedAttribute] kind"

definition mutation_record_consistent :: "WalPlatform \<Rightarrow> WalRecord \<Rightarrow> bool" where
  "mutation_record_consistent pf r =
     ((if List.member native_operations (wal_operation r) \<or> wal_operation r = OpRewriteCompressedContent
       then InlinePayloadIsConsistentImpl pf r else True) \<and>
      ExtendedAttributeMutationIsConsistentImpl pf r \<and> AllocationSizeMutationIsConsistentImpl pf r \<and>
      DirectoryRestoreMutationIsConsistentImpl pf r \<and> InodeMetadataMutationIsConsistentImpl pf r)"

definition validation_record :: "TxPlatform \<Rightarrow> MutationIntent \<Rightarrow> TxManager \<Rightarrow> WalRecord" where
  "validation_record tp m st =
     blank_record\<lparr>wal_volume_identity := journal_identity tp st, wal_operation := ToWalOperation (mutation_kind m),
       wal_object_id := mutation_object_id m, wal_parent_object_id := mutation_generation m,
       payload_offset := payload_spool_offset m, payload_length := mutation_payload_length m,
       logical_offset := mutation_offset m,
       logical_length := (if is_inline_metadata (mutation_kind m) then 0 else mutation_length m),
       wal_flags := (if replace_if_exists m then kWalFlagReplaceIfExists else 0), payload_sha256 := payload_checksum m,
       inline_payload := mutation_inline_payload m, path_utf8 := wide_to_utf8 tp (mutation_path m),
       secondary_path_utf8 := wide_to_utf8 tp (mutation_secondary_path m),
       unlink_outcome := mutation_unlink_outcome m\<rparr>"

definition mutation_refused :: "TxPlatform \<Rightarrow> MutationIntent \<Rightarrow> TxManager \<Rightarrow> bool" where
  "mutation_refused tp m st =
     (let kind = mutation_kind m; payload = mutation_inline_payload m;
          allocation = (kind = MutSetAllocationSize); restore = (kind = MutRestoreDirectoryFromSymbolicLink)
      in restore \<and> mutation_secondary_path m \<noteq> [] \<or>
         (allocation \<or> restore) \<and> timestamp_utc m \<noteq> 0 \<or>
         is_inline_metadata kind \<and>
           (mutation_length m \<noteq> length payload \<or> timestamp_utc m \<noteq> 0 \<or>
            (kind \<noteq> MutCloneFile \<and> mutation_secondary_path m \<noteq> [])) \<or>
         is_link_mutation kind \<and>
           (mutation_length m \<noteq> length payload \<or> mutation_payload_length m \<noteq> length payload \<or> timestamp_utc m \<noteq> 0 \<or>
            mutation_offset m \<noteq> 0 \<or> payload_spool_offset m \<noteq> 0 \<or> replace_if_exists m \<or>
            mutation_unlink_outcome m \<noteq> None) \<or>
         (is_attribute_mutation kind \<or> is_inline_metadata kind \<or> is_link_mutation kind \<or> allocation \<or> restore) \<and>
           \<not> mutation_record_consistent (tx_wal tp) (validation_record tp m st))"

definition mutation_record :: "TxPlatform \<Rightarrow> MutationIntent \<Rightarrow> TxManager \<Rightarrow> WalRecord" where
  "mutation_record tp m st =
     (validation_record tp m st)\<lparr>wal_transaction_id := current_transaction_id st, wal_sequence := mutation_wal_sequence m,
       wal_state := Prepared,
       payload_spool_id := (if is_attribute_mutation (mutation_kind m) \<or> is_inline_metadata (mutation_kind m) \<or>
                               is_link_mutation (mutation_kind m) \<or> mutation_payload_length m = 0
                            then 0 else mutation_wal_sequence m),
       logical_offset := (if mutation_kind m = MutSetBasicInfo then timestamp_utc m else mutation_offset m)\<rparr>"

definition complete_inline_payload :: "WalPlatform \<Rightarrow> WalRecord \<Rightarrow> bool" where
  "complete_inline_payload pf r =
     (let op = wal_operation r in
      if op = OpWrite then inline_payload r \<noteq> [] \<and> InlinePayloadIsConsistentImpl pf r
      else if List.member native_operations op \<or> op = OpRewriteCompressedContent then InlinePayloadIsConsistentImpl pf r
      else if op = OpSetInodeMetadata then InodeMetadataMutationIsConsistentImpl pf r
      else if op = OpSetExtendedAttribute then ExtendedAttributeMutationIsConsistentImpl pf r
      else inline_payload r = [])"

definition buffer_record :: "WalPlatform \<Rightarrow> WalRecord \<Rightarrow> TxManager \<Rightarrow> TxManager" where
  "buffer_record pf r st =
     st\<lparr>transaction_requires_spool_flush := (transaction_requires_spool_flush st \<or> needs_spool pf r),
        buffered_records := buffered_records st @ [r],
        buffered_empty_write := (buffered_empty_write st \<or> wal_operation r = OpWrite \<and> inline_payload r = []),
        buffered_incomplete_payload := (buffered_incomplete_payload st \<or> \<not> complete_inline_payload pf r),
        buffered_inline_bytes :=
          (if buffered_inline_bytes st < MaxInlinePayloadBytes
           then buffered_inline_bytes st + min (MaxInlinePayloadBytes - buffered_inline_bytes st) (length (inline_payload r))
           else buffered_inline_bytes st),
        next_sequence := add64 (next_sequence st) 1\<rparr>"

text \<open>
  \<^term>\<open>None\<close> when the mutation is refused, which changes nothing; else the mutation as it is kept,
  its payload moved into the record.
\<close>

definition AppendPreparedMutationLocked ::
  "TxPlatform \<Rightarrow> MutationIntent \<Rightarrow> TxManager \<Rightarrow> (MutationIntent \<times> TxManager) option" where
  "AppendPreparedMutationLocked tp m st =
     (let n = next_sequence st;
          m = (if mutation_wal_sequence m = 0 then m\<lparr>mutation_wal_sequence := n\<rparr> else m);
          r = mutation_record tp m st
      in if n = 0 \<or> n = u64_max \<or> mutation_refused tp m st \<or> mutation_wal_sequence m \<noteq> n then None
         else if \<not> journal_path st then Some (m, st\<lparr>next_sequence := add64 n 1\<rparr>)
         else if \<not> mutation_record_consistent (tx_wal tp) r \<or> \<not> UnlinkOutcomeIsConsistentImpl r then None
         else Some (m\<lparr>mutation_inline_payload := []\<rparr>, buffer_record (tx_wal tp) r st))"

text \<open>Before an operation on an idle manager: its journal state is the lease holder's, or is seeded anew.\<close>

definition ensure_seeded :: "TxPlatform \<Rightarrow> TxIo \<Rightarrow> TxManager \<Rightarrow> bool \<times> TxManager" where
  "ensure_seeded tp io st =
     (if JournalStateMatchesWriterLease (lease_now io) st then (True, st)
      else
        let (seeded, st) = SeedIdsFromExistingJournal tp io st in
        (seeded \<and> recovery_state_valid st \<and> JournalStateMatchesWriterLease (lease_read io) st, st))"

definition Begin :: "TxPlatform \<Rightarrow> TxIo \<Rightarrow> TxManager \<Rightarrow> bool \<times> TxManager" where
  "Begin tp io st =
     (if \<not> recovery_state_valid st \<or> tx_state st \<noteq> TxIdle \<or> next_transaction_id st = 0 \<or> next_transaction_id st = u64_max
      then (False, st)
      else
        let (seeded, st) = ensure_seeded tp io st in
        if \<not> seeded then (False, st)
        else (True, (ClearBufferedPreparedRecords st)
                \<lparr>current_transaction_id := next_transaction_id st, next_transaction_id := add64 (next_transaction_id st) 1,
                 pending_mutations := [], transaction_requires_spool_flush := False, tx_state := TxActive\<rparr>))"

definition RecordMutation :: "TxPlatform \<Rightarrow> TxIo \<Rightarrow> MutationIntent \<Rightarrow> TxManager \<Rightarrow> bool \<times> TxManager" where
  "RecordMutation tp io m st =
     (if \<not> recovery_state_valid st \<or> tx_state st \<noteq> TxActive then (False, st)
      else if \<not> JournalStateMatchesWriterLease (lease_now io) st
      then (False, InvalidateFinalizationCoverage True (st\<lparr>recovery_state_valid := False\<rparr>))
      else case AppendPreparedMutationLocked tp m st of
          None \<Rightarrow> (False, st)
        | Some (m, st) \<Rightarrow> (True, st\<lparr>pending_mutations := pending_mutations st @ [m]\<rparr>))"

definition finish_transaction :: "TxManager \<Rightarrow> TxManager" where
  "finish_transaction st =
     (ClearBufferedPreparedRecords st)\<lparr>pending_mutations := [], transaction_requires_spool_flush := False,
        current_transaction_id := 0, tx_state := TxIdle\<rparr>"

definition Commit :: "TxPlatform \<Rightarrow> TxIo \<Rightarrow> nat \<Rightarrow> TxManager \<Rightarrow> bool \<times> TxManager" where
  "Commit tp io preimage_checkpoint_xid st =
     (if \<not> recovery_state_valid st \<or> tx_state st \<noteq> TxActive then (False, st)
      else
        let (persisted, st) = PersistTransactionBatchLocked tp io OutcomeCommitted True preimage_checkpoint_xid
                                (st\<lparr>tx_state := TxCommitting\<rparr>)
        in if \<not> persisted then (False, st\<lparr>tx_state := TxFailed\<rparr>) else (True, finish_transaction st))"

definition Accept :: "TxPlatform \<Rightarrow> TxIo \<Rightarrow> nat \<Rightarrow> TxManager \<Rightarrow> bool \<times> TxManager" where
  "Accept tp io preimage_checkpoint_xid st =
     (if \<not> recovery_state_valid st \<or> tx_state st \<noteq> TxActive \<or> pending_mutations st = [] then (False, st)
      else
        let (persisted, st) = PersistTransactionBatchLocked tp io OutcomeAccepted True preimage_checkpoint_xid
                                (st\<lparr>tx_state := TxCommitting\<rparr>)
        in if \<not> persisted then (False, st\<lparr>tx_state := TxFailed\<rparr>) else (True, finish_transaction st))"

definition AcceptForDeferredCommit :: "TxPlatform \<Rightarrow> TxIo \<Rightarrow> nat \<Rightarrow> TxManager \<Rightarrow> nat option \<times> TxManager" where
  "AcceptForDeferredCommit tp io preimage_checkpoint_xid st =
     (if \<not> recovery_state_valid st \<or> tx_state st \<noteq> TxActive \<or> pending_mutations st = [] then (None, st)
      else
        let (persisted, st) = PersistTransactionBatchLocked tp io OutcomeAccepted False preimage_checkpoint_xid
                                (st\<lparr>tx_state := TxCommitting\<rparr>)
        in if \<not> persisted then (None, st\<lparr>tx_state := TxFailed\<rparr>)
           else (Some (accepted_sequence st),
                 (finish_transaction st)\<lparr>deferred_wal_pending_sequence := max (deferred_wal_pending_sequence st) (accepted_sequence st)\<rparr>))"

definition Abort :: "TxPlatform \<Rightarrow> TxIo \<Rightarrow> TxManager \<Rightarrow> bool \<times> TxManager" where
  "Abort tp io st =
     (if \<not> recovery_state_valid st then (False, st\<lparr>tx_state := TxFailed\<rparr>)
      else if tx_state st = TxIdle then (True, st)
      else if journal_append_ambiguous st then (False, st\<lparr>tx_state := TxFailed\<rparr>)
      else
        let st = st\<lparr>tx_state := TxFailed,
                    next_sequence := (if buffered_records st = [] then next_sequence st else wal_sequence (hd (buffered_records st)))\<rparr>;
            (persisted, st) = PersistTransactionBatchLocked tp io OutcomeAborted True 0 (ClearBufferedPreparedRecords st)
        in if \<not> persisted then (False, st) else (True, finish_transaction st))"

definition flushable :: "MutationIntent \<Rightarrow> bool" where
  "flushable m = (\<not> List.member native_operations (ToWalOperation (mutation_kind m)))"

definition FlushPreparedRecords :: "TxPlatform \<Rightarrow> TxIo \<Rightarrow> TxManager \<Rightarrow> bool \<times> TxManager" where
  "FlushPreparedRecords tp io st =
     (if \<not> list_all flushable (pending_mutations st) then (False, st)
      else if \<not> recovery_state_valid st then (False, st)
      else if buffered_records st = [] then (True, st)
      else if \<not> journal_path st then (True, ClearBufferedPreparedRecords st)
      else if \<not> JournalStateMatchesWriterLease (lease_now io) st
      then (False, InvalidateFinalizationCoverage True (st\<lparr>recovery_state_valid := False\<rparr>))
      else if \<not> buffered_sequences_ok st then (False, st)
      else
        let first_sequence_to_keep = (if pending_mutations st = [] then wal_sequence (hd (buffered_records st))
                                      else mutation_wal_sequence (hd (pending_mutations st)));
            (appended, compacted, st') =
              append_or_compact tp io
                (\<lambda>aio generation. AppendBatchWithResult (tx_wal tp) (journal_options tp st) aio (buffered_for_append tp st)
                   True generation)
                first_sequence_to_keep st
        in if \<not> appended then (False, st')
           else
             let (settled, st') = settle_append io st compacted st' in
             if \<not> settled then (False, st')
             else (True, ClearBufferedPreparedRecords
                           (AdvanceCheckpointPinCensusGeneration (journal_state_generation st) (lease_after io) compacted st')))"

subsection \<open>Opening a journal\<close>

definition new_manager :: "16 word list \<Rightarrow> TxManager" where
  "new_manager safety =
     \<lparr>tx_state = TxIdle, safety_level = safety, journal_path = False, volume_identity = [], journal_max_bytes = 64 * 1024 * 1024,
      next_transaction_id = 1, next_sequence = 1, last_committed_sequence = 0, highest_checkpointed_marker_sequence = 0,
      accepted_sequence = 0, apfs_durable_sequence = 0, cleanup_sequence = 0, recovery_state_valid = True,
      current_transaction_id = 0, deferred_wal_pending_sequence = 0, deferred_wal_durable_sequence = 0,
      deferred_wal_flush_failed = False, accepted_boundaries = {}, spool_flush_boundaries = {},
      coverage_trust = CoverageUnknown, coverage_generation = 0, journal_state_generation = 0,
      journal_append_ambiguous = False, transaction_requires_spool_flush = False, pending_mutations = [],
      buffered_records = [], buffered_inline_bytes = 0, buffered_empty_write = False, buffered_incomplete_payload = False,
      accepted_transaction_sequences = [], accepted_checkpoint_pins = [], cached_pin_entries = 0, pin_census_generation = 0,
      pin_census_trusted = False, journal = []\<rparr>"

definition reset_journal_state :: "TxManager \<Rightarrow> TxManager" where
  "reset_journal_state st =
     InvalidateFinalizationCoverage False
       (st\<lparr>deferred_wal_pending_sequence := 0, deferred_wal_durable_sequence := 0, deferred_wal_flush_failed := False,
           journal_state_generation := 0\<rparr>)"

definition SetVolumeIdentity :: "TxPlatform \<Rightarrow> TxIo \<Rightarrow> 16 word list \<Rightarrow> TxManager \<Rightarrow> TxManager" where
  "SetVolumeIdentity tp io identity st =
     (let st = reset_journal_state (st\<lparr>volume_identity := identity\<rparr>)
      in if journal_path st then snd (SeedIdsFromExistingJournal tp io st) else st)"

text \<open>The path comes with the bytes of the file it names; \<^term>\<open>None\<close> is the empty path.\<close>

definition SetJournalPath :: "TxPlatform \<Rightarrow> TxIo \<Rightarrow> byte list option \<Rightarrow> TxManager \<Rightarrow> TxManager" where
  "SetJournalPath tp io file st =
     (let st = reset_journal_state
                 (st\<lparr>journal_path := (file \<noteq> None), journal := (case file of None \<Rightarrow> [] | Some bytes \<Rightarrow> bytes)\<rparr>)
      in if journal_path st \<and> volume_identity st \<noteq> [] then snd (SeedIdsFromExistingJournal tp io st) else st)"

subsection \<open>Durability and cleanup\<close>

definition EnsureDeferredAcceptanceDurability :: "TxIo \<Rightarrow> nat \<Rightarrow> TxManager \<Rightarrow> bool \<times> TxManager" where
  "EnsureDeferredAcceptanceDurability io sequence st =
     (if sequence = 0 \<or> \<not> journal_path st then (True, st)
      else if deferred_wal_durable_sequence st \<ge> sequence \<or> deferred_wal_pending_sequence st < sequence then (True, st)
      else if deferred_wal_flush_failed st then (False, st)
      else if flush_pending_ok io
      then (True, st\<lparr>deferred_wal_durable_sequence := max (deferred_wal_durable_sequence st) (deferred_wal_pending_sequence st)\<rparr>)
      else (False, st\<lparr>deferred_wal_flush_failed := True\<rparr>))"

definition MarkDeferredAcceptanceDurabilityFailure :: "TxManager \<Rightarrow> TxManager" where
  "MarkDeferredAcceptanceDurabilityFailure st =
     InvalidateFinalizationCoverage True
       (st\<lparr>deferred_wal_flush_failed := True, recovery_state_valid := False, journal_append_ambiguous := True,
           journal_state_generation := 0, tx_state := TxFailed\<rparr>)"

definition MarkApfsDurableThrough :: "TxPlatform \<Rightarrow> TxIo \<Rightarrow> TxIo \<Rightarrow> nat \<Rightarrow> TxManager \<Rightarrow> bool \<times> TxManager" where
  "MarkApfsDurableThrough tp io io' sequence st =
     (if \<not> recovery_state_valid st \<or> tx_state st \<noteq> TxIdle then (False, st)
      else
        let (seeded, st) = ensure_seeded tp io st in
        if \<not> seeded then (False, st)
        else if sequence < apfs_durable_sequence st \<or> sequence > accepted_sequence st then (False, st)
        else if sequence = apfs_durable_sequence st then (True, st)
        else if sequence \<notin> accepted_boundaries st then (False, st)
        else
          let (flushed, st) = EnsureDeferredAcceptanceDurability io' sequence st in
          if \<not> flushed then (False, MarkDeferredAcceptanceDurabilityFailure st)
          else
            let (appended, st) = AppendWatermarkLocked tp io' Checkpointed sequence st in
            if \<not> appended then (False, st)
            else
              (True, st\<lparr>apfs_durable_sequence := sequence, last_committed_sequence := sequence,
                        spool_flush_boundaries := (if sequence = accepted_sequence st then {}
                          else Set.filter (\<lambda>n. sequence < n) (spool_flush_boundaries st))\<rparr>))"

definition MarkCleanedThrough :: "TxPlatform \<Rightarrow> TxIo \<Rightarrow> TxIo \<Rightarrow> nat \<Rightarrow> TxManager \<Rightarrow> bool \<times> TxManager" where
  "MarkCleanedThrough tp io io' sequence st =
     (if \<not> recovery_state_valid st \<or> tx_state st \<noteq> TxIdle then (False, st)
      else
        let (seeded, st) = ensure_seeded tp io st in
        if \<not> seeded then (False, st)
        else if sequence < cleanup_sequence st \<or> sequence > apfs_durable_sequence st then (False, st)
        else if sequence = cleanup_sequence st then (True, st)
        else if sequence \<notin> accepted_boundaries st then (False, st)
        else
          let (flushed, st) = EnsureDeferredAcceptanceDurability io' sequence st in
          if \<not> flushed then (False, MarkDeferredAcceptanceDurabilityFailure st)
          else
            let (appended, st) = AppendWatermarkLocked tp io' Cleaned sequence st in
            if \<not> appended then (False, st)
            else (True, PruneAcceptedBoundariesThrough sequence (st\<lparr>cleanup_sequence := sequence\<rparr>)))"

definition CanClearRecoveryState :: "TxIo \<Rightarrow> TxManager \<Rightarrow> bool" where
  "CanClearRecoveryState io st =
     (recovery_state_valid st \<and> tx_state st = TxIdle \<and> JournalStateMatchesWriterLease (lease_now io) st \<and>
      accepted_sequence st \<le> apfs_durable_sequence st \<and> apfs_durable_sequence st \<le> cleanup_sequence st)"

definition CanAcceptWithoutPayloadSpoolFlush :: "TxManager \<Rightarrow> bool" where
  "CanAcceptWithoutPayloadSpoolFlush st =
     (recovery_state_valid st \<and> tx_state st = TxActive \<and> pending_mutations st \<noteq> [] \<and>
      length (buffered_records st) = length (pending_mutations st) \<and> journal_path st \<and> volume_identity st \<noteq> [] \<and>
      \<not> buffered_incomplete_payload st)"

definition CanAddInlinePayload :: "nat \<Rightarrow> TxManager \<Rightarrow> bool" where
  "CanAddInlinePayload payload_bytes st =
     (recovery_state_valid st \<and> tx_state st = TxActive \<and> payload_bytes \<noteq> 0 \<and> payload_bytes \<le> MaxInlinePayloadBytes \<and>
      \<not> buffered_empty_write st \<and> payload_bytes \<le> MaxInlinePayloadBytes - buffered_inline_bytes st)"

definition RetainAcceptedSequenceProof :: "nat \<Rightarrow> TxManager \<Rightarrow> bool \<times> TxManager" where
  "RetainAcceptedSequenceProof t st =
     (let proofs = accepted_transaction_sequences st in
      if t = 0 \<or> tx_state st \<noteq> TxActive \<or> current_transaction_id st \<noteq> t then (False, st)
      else case map_of proofs t of
          Some (sequence, retained) \<Rightarrow>
            if retained = u64_max then (False, st)
            else (True, st\<lparr>accepted_transaction_sequences := AList.update t (sequence, Suc retained) proofs\<rparr>)
        | None \<Rightarrow>
            if length proofs \<ge> MaxRetainedAcceptedSequenceProofs then (False, st)
            else (True, st\<lparr>accepted_transaction_sequences := proofs @ [(t, 0, 1)]\<rparr>))"

definition ReleaseAcceptedSequenceProof :: "nat \<Rightarrow> TxManager \<Rightarrow> TxManager" where
  "ReleaseAcceptedSequenceProof t st =
     (let proofs = accepted_transaction_sequences st in
      case map_of proofs t of
        None \<Rightarrow> st
      | Some (sequence, retained) \<Rightarrow>
          st\<lparr>accepted_transaction_sequences :=
              (if retained > 1 then AList.update t (sequence, retained - 1) proofs else AList.delete t proofs)\<rparr>)"

definition AcceptedSequenceForTransaction :: "nat \<Rightarrow> TxManager \<Rightarrow> nat option" where
  "AcceptedSequenceForTransaction t st =
     (if t = 0 then None
      else case map_of (accepted_transaction_sequences st) t of
          None \<Rightarrow> None | Some (sequence, retained) \<Rightarrow> if sequence = 0 then None else Some sequence)"

end
