(* ===== verification/TransactionLog.thy ===== *)
theory TransactionLog
  imports TransactionManager
begin

text \<open>
  What the three readers of a journal (validation, seeding, collecting) make of a log that grows by
  the records the manager appends: the invariant \<open>log_inv\<close> and its preservation by each of them.
\<close>

section \<open>Runs over a log that grows\<close>

lemma semantic_run_append:
  "semantic_run tp floor (xs @ ys) s =
     (case semantic_run tp floor xs s of None \<Rightarrow> None | Some s' \<Rightarrow> semantic_run tp floor ys s')"
  by (induction xs arbitrary: s) (auto split: option.split)

lemma seed_records_append: "seed_records tp (xs @ ys) = fold (seed_step tp) ys (seed_records tp xs)"
  by (simp add: seed_records_def)

lemma collect_run_append:
  "collect_run i lower upper (xs @ ys) s =
     (case collect_run i lower upper xs s of Inl e \<Rightarrow> Inl e | Inr s' \<Rightarrow> collect_run i lower upper ys s')"
  by (induction xs arbitrary: s) (auto split: sum.split)

lemma compaction_floor_none: "list_all (\<lambda>r. wal_operation r \<noteq> OpCompactionIndex) rs \<Longrightarrow> compaction_floor f rs = Some f"
  by (induction rs) auto

text \<open>
  What the three readers of a log agree on: \<open>F\<close> are the records of the transaction \<open>t\<close> that has no
  marker yet, \<open>K\<close> its native checkpoint, and \<open>acc\<close> the transactions accepted so far.
\<close>

definition collects :: "WalRecord list \<Rightarrow> WalRecord list \<Rightarrow> nat \<Rightarrow> AcceptedTransaction list \<Rightarrow> SemanticState \<Rightarrow> bool" where
  "collects J F t acc s \<longleftrightarrow>
     (\<forall>i lower upper. list_all (\<lambda>a. at_accepted_sequence a \<le> upper) acc \<longrightarrow>
        collect_run i lower upper J collect_start =
          Inr \<lparr>prepared_by_transaction = (if F = [] then [] else [(t, F)]), collected_terminal = terminal_transactions s,
               collected_previous = previous_sequence s, collected = filter (\<lambda>a. lower < at_accepted_sequence a) acc\<rparr>)"

definition log_sem :: "TxPlatform \<Rightarrow> WalRecord list \<Rightarrow> WalRecord list \<Rightarrow> nat \<Rightarrow> nat option \<Rightarrow> SemanticState \<Rightarrow> bool" where
  "log_sem tp J F t K s \<longleftrightarrow>
     list_all (\<lambda>r. wal_operation r \<noteq> OpCompactionIndex) J \<and>
     semantic_run tp 0 J semantic_start = Some s \<and>
     active_transaction_id s = (if F = [] then 0 else t) \<and>
     prepared_counts s = (if F = [] then [] else [(t, length F)]) \<and>
     (\<forall>x c. map_of (clone_checkpoints s) x = Some c \<longrightarrow> x < t \<or> x = t \<and> F \<noteq> [] \<and> K = Some c) \<and>
     (\<forall>x \<in> set (terminal_transactions s). x < t)"

definition log_seed :: "WalRecord list \<Rightarrow> nat \<Rightarrow> AcceptedTransaction list \<Rightarrow> SemanticState \<Rightarrow> SeedState \<Rightarrow> bool" where
  "log_seed F t acc s \<sigma> \<longleftrightarrow>
     recovered_state_valid \<sigma> \<and> highest_checkpointed_marker \<sigma> = 0 \<and>
     map fst (spool_requirements \<sigma>) = (if F = [] then [] else [t]) \<and>
     max_transaction_id \<sigma> = (if F = [] then t - 1 else t) \<and>
     max_sequence \<sigma> = previous_sequence s \<and>
     recovered_boundaries \<sigma> = set (map at_accepted_sequence acc) \<and>
     recovered_accepted \<sigma> = (if acc = [] then 0 else at_accepted_sequence (last acc)) \<and>
     list_all (\<lambda>a. at_accepted_sequence a \<le> recovered_accepted \<sigma>) acc \<and>
     recovered_cleanup \<sigma> \<le> recovered_durable \<sigma> \<and> recovered_durable \<sigma> \<le> recovered_accepted \<sigma> \<and>
     recovered_accepted \<sigma> \<le> max_sequence \<sigma>"

definition log_inv ::
  "TxPlatform \<Rightarrow> WalRecord list \<Rightarrow> WalRecord list \<Rightarrow> nat \<Rightarrow> nat option \<Rightarrow> AcceptedTransaction list \<Rightarrow> bool" where
  "log_inv tp J F t K acc \<longleftrightarrow>
     (\<exists>s. log_sem tp J F t K s \<and> log_seed F t acc s (seed_records tp J) \<and> collects J F t acc s) \<and> 0 < t"

lemma log_inv_empty: "log_inv tp [] [] 1 None []"
  by (auto simp: log_inv_def log_sem_def log_seed_def collects_def seed_records_def seed_start_def semantic_start_def
      collect_start_def)

text \<open>A record of the open transaction.\<close>

definition prepared_record :: "nat \<Rightarrow> nat \<Rightarrow> WalRecord \<Rightarrow> bool" where
  "prepared_record t n r \<longleftrightarrow>
     IsMutationOperation (wal_operation r) \<and> wal_state r = Prepared \<and> wal_transaction_id r = t \<and> t \<noteq> 0 \<and> t \<noteq> u64_max \<and>
     wal_sequence r = n \<and> n \<noteq> u64_max"

lemma mutation_not_control:
  "IsMutationOperation op \<Longrightarrow> op \<noteq> OpCompactionIndex \<and> op \<noteq> OpTransactionMarker \<and> op \<noteq> OpDurabilityWatermark"
  by (auto simp: IsMutationOperation_def)

lemma log_sem_prepared:
  assumes s: "log_sem tp J F t K s" and r: "prepared_record t (Suc (previous_sequence s)) r"
    and k: "if List.member native_operations (wal_operation r)
            then F = [] \<and> InlinePayloadIsConsistentImpl (tx_wal tp) r \<and> native_checkpoint tp r = K' \<and> K' \<noteq> None
            else K' = K"
  shows "\<exists>s'. log_sem tp (J @ [r]) (F @ [r]) t K' s' \<and> previous_sequence s' = Suc (previous_sequence s) \<and>
     terminal_transactions s' = terminal_transactions s"
proof -
  have m: "IsMutationOperation (wal_operation r)" using r by (simp add: prepared_record_def)
  note nc = mutation_not_control [OF m]
  let ?s = "s\<lparr>previous_sequence := Suc (previous_sequence s)\<rparr>"
  let ?counted = "?s\<lparr>active_transaction_id := t, prepared_counts := [(t, Suc (length F))]\<rparr>"
  let ?s' = "if List.member native_operations (wal_operation r)
             then ?counted\<lparr>clone_checkpoints := (t, the K') # clone_checkpoints s\<rparr> else ?counted"
  have fresh: "List.member native_operations (wal_operation r) \<Longrightarrow> map_of (clone_checkpoints s) t = None"
    using s k by (fastforce simp: log_sem_def)
  have "semantic_step tp 0 r s = Some ?s'"
    using s r k nc fresh
    by (auto simp: log_sem_def semantic_step_def semantic_mutation_def prepared_record_def Let_def split: if_splits)
  then have "semantic_run tp 0 (J @ [r]) semantic_start = Some ?s'"
    using s by (simp add: log_sem_def semantic_run_append)
  then show ?thesis
    using s k nc by (intro exI [of _ ?s']) (auto simp: log_sem_def split: if_splits)
qed

lemma AList_update_single: "AList.update t v (if b then [] else [(t, w)]) = [(t, v)]"
  by simp

lemma log_seed_prepared:
  assumes "log_seed F t acc s \<sigma>" "prepared_record t (Suc (previous_sequence s)) r"
    "previous_sequence s' = Suc (previous_sequence s)"
  shows "log_seed (F @ [r]) t acc s' (seed_step tp r \<sigma>)"
proof -
  have r: "wal_state r = Prepared" "IsMutationOperation (wal_operation r)" "wal_transaction_id r = t"
     "wal_sequence r = Suc (previous_sequence s)"
    using assms(2) by (auto simp: prepared_record_def)
  have "map fst (AList.update t v (spool_requirements \<sigma>)) = [t]" for v
    using assms(1) by (auto simp: log_seed_def split: if_splits)
  then show ?thesis using assms(1,3) r by (auto simp: log_seed_def seed_step_def Let_def)
qed

lemma collects_prepared:
  assumes c: "collects J F t acc s" and r: "prepared_record t (Suc (previous_sequence s)) r"
    and s': "previous_sequence s' = Suc (previous_sequence s)" "terminal_transactions s' = terminal_transactions s"
    and t: "t \<notin> set (terminal_transactions s)"
  shows "collects (J @ [r]) (F @ [r]) t acc s'"
proof -
  have m: "IsMutationOperation (wal_operation r)" using r by (simp add: prepared_record_def)
  show ?thesis
    using c r s' t mutation_not_control [OF m]
    by (auto simp: collects_def collect_run_append collect_step_def prepared_record_def Let_def)
qed

lemma log_inv_prepared:
  assumes i: "log_inv tp J F t K acc" and r: "prepared_record t (Suc (max_sequence (seed_records tp J))) r"
    and k: "if List.member native_operations (wal_operation r)
            then F = [] \<and> InlinePayloadIsConsistentImpl (tx_wal tp) r \<and> native_checkpoint tp r = K' \<and> K' \<noteq> None
            else K' = K"
  shows "log_inv tp (J @ [r]) (F @ [r]) t K' acc"
    and "max_sequence (seed_records tp (J @ [r])) = Suc (max_sequence (seed_records tp J))"
    and "recovered_accepted (seed_records tp (J @ [r])) = recovered_accepted (seed_records tp J)"
    and "recovered_durable (seed_records tp (J @ [r])) = recovered_durable (seed_records tp J)"
    and "recovered_cleanup (seed_records tp (J @ [r])) = recovered_cleanup (seed_records tp J)"
proof -
  obtain s where s: "log_sem tp J F t K s" "log_seed F t acc s (seed_records tp J)" "collects J F t acc s" and t: "0 < t"
    using i by (auto simp: log_inv_def)
  have p: "max_sequence (seed_records tp J) = previous_sequence s" using s(2) by (simp add: log_seed_def)
  note r' = r [unfolded p]
  obtain s' where s': "log_sem tp (J @ [r]) (F @ [r]) t K' s'" "previous_sequence s' = Suc (previous_sequence s)"
     "terminal_transactions s' = terminal_transactions s"
    using log_sem_prepared [OF s(1) r' k] by blast
  have "t \<notin> set (terminal_transactions s)" using s(1) by (auto simp: log_sem_def)
  then have "collects (J @ [r]) (F @ [r]) t acc s'" by (rule collects_prepared [OF s(3) r' s'(2,3)])
  moreover have sd: "log_seed (F @ [r]) t acc s' (seed_records tp (J @ [r]))"
    using log_seed_prepared [OF s(2) r' s'(2)] by (simp add: seed_records_append)
  ultimately show "log_inv tp (J @ [r]) (F @ [r]) t K' acc" using s'(1) t by (auto simp: log_inv_def)
  show "max_sequence (seed_records tp (J @ [r])) = Suc (max_sequence (seed_records tp J))"
    using sd s'(2) p by (simp add: log_seed_def)
  have st: "wal_state r = Prepared \<and> IsMutationOperation (wal_operation r)" using r by (simp add: prepared_record_def)
  then show "recovered_accepted (seed_records tp (J @ [r])) = recovered_accepted (seed_records tp J)"
    "recovered_durable (seed_records tp (J @ [r])) = recovered_durable (seed_records tp J)"
    "recovered_cleanup (seed_records tp (J @ [r])) = recovered_cleanup (seed_records tp J)"
    by (simp_all add: seed_records_append seed_step_def Let_def)
qed

text \<open>The records of a transaction have consecutive numbers.\<close>

fun prepared_from :: "nat \<Rightarrow> nat \<Rightarrow> WalRecord list \<Rightarrow> bool" where
  "prepared_from t n [] = True"
| "prepared_from t n (r # rs) = (prepared_record t n r \<and> prepared_from t (Suc n) rs)"

lemma prepared_from_append: "prepared_from t n (xs @ ys) = (prepared_from t n xs \<and> prepared_from t (n + length xs) ys)"
  by (induction xs arbitrary: n) auto

lemma log_inv_prepared_list:
  assumes "log_inv tp J F t K acc" "prepared_from t (Suc (max_sequence (seed_records tp J))) B"
    "list_all (\<lambda>r. \<not> List.member native_operations (wal_operation r)) B"
  shows "log_inv tp (J @ B) (F @ B) t K acc \<and>
     max_sequence (seed_records tp (J @ B)) = max_sequence (seed_records tp J) + length B \<and>
     recovered_accepted (seed_records tp (J @ B)) = recovered_accepted (seed_records tp J) \<and>
     recovered_durable (seed_records tp (J @ B)) = recovered_durable (seed_records tp J) \<and>
     recovered_cleanup (seed_records tp (J @ B)) = recovered_cleanup (seed_records tp J)"
  using assms
proof (induction B arbitrary: J F)
  case (Cons r B)
  have r: "prepared_record t (Suc (max_sequence (seed_records tp J))) r" using Cons.prems by simp
  have k: "if List.member native_operations (wal_operation r)
      then F = [] \<and> InlinePayloadIsConsistentImpl (tx_wal tp) r \<and> native_checkpoint tp r = K \<and> K \<noteq> None else K = K"
    using Cons.prems(3) by simp
  note one = log_inv_prepared [OF Cons.prems(1) r k]
  have "prepared_from t (Suc (max_sequence (seed_records tp (J @ [r])))) B" using Cons.prems(2) one(2) by simp
  from Cons.IH [OF one(1) this] Cons.prems(3) show ?case using one by simp
qed simp

section \<open>Markers and watermarks\<close>

definition marker_record :: "nat \<Rightarrow> nat \<Rightarrow> WalRecord \<Rightarrow> bool" where
  "marker_record t n r \<longleftrightarrow>
     wal_operation r = OpTransactionMarker \<and> wal_transaction_id r = t \<and> t \<noteq> 0 \<and> t \<noteq> u64_max \<and> wal_sequence r = n \<and>
     n \<noteq> u64_max"

lemma log_sem_marker:
  assumes s: "log_sem tp J F t K s" and r: "marker_record t (Suc (previous_sequence s)) r"
    and o: "wal_state r = Accepted \<and> wal_flags r = kWalFlagAccepted \<and> F \<noteq> [] \<and> logical_length r = length F \<and>
              (K = None \<or> K = Some (wal_object_id r) \<and> length F = 1) \<or>
            wal_state r = Cleaned \<and> wal_flags r = kWalFlagAborted"
  shows "\<exists>s'. log_sem tp (J @ [r]) [] (Suc t) None s' \<and> previous_sequence s' = Suc (previous_sequence s) \<and>
     terminal_transactions s' = t # terminal_transactions s"
proof -
  let ?s' = "s\<lparr>previous_sequence := Suc (previous_sequence s), terminal_transactions := t # terminal_transactions s,
     prepared_counts := [], active_transaction_id := 0\<rparr>"
  have nt: "t \<notin> set (terminal_transactions s)" using s by (auto simp: log_sem_def)
  have ck: "map_of (clone_checkpoints s) t = None \<or> K \<noteq> None \<and> map_of (clone_checkpoints s) t = K"
    using s by (fastforce simp: log_sem_def)
  have "semantic_step tp 0 r s = Some ?s'"
    using s r o nt ck
    by (auto simp: log_sem_def semantic_step_def semantic_marker_def marker_record_def IsTransactionMarkerWithState_def
        kWalFlagAccepted_def kWalFlagAborted_def kWalFlagCommitted_def Let_def split: if_splits option.splits)
  then have "semantic_run tp 0 (J @ [r]) semantic_start = Some ?s'"
    using s by (simp add: log_sem_def semantic_run_append)
  then show ?thesis
    using s r by (intro exI [of _ ?s']) (fastforce simp: log_sem_def marker_record_def)
qed

lemma delete_open: "map fst xs = (if F = [] then [] else [t]) \<Longrightarrow> AList.delete t xs = []"
  by (cases xs) (auto simp: AList.delete_eq split: if_splits)

lemma log_inv_accepted:
  assumes i: "log_inv tp J F t K acc" and r: "marker_record t (Suc (max_sequence (seed_records tp J))) r"
    and o: "wal_state r = Accepted" "wal_flags r = kWalFlagAccepted" "F \<noteq> []" "logical_length r = length F"
      "K = None \<or> K = Some (wal_object_id r) \<and> length F = 1"
  shows "log_inv tp (J @ [r]) [] (Suc t) None
       (acc @ [\<lparr>at_transaction_id = t, at_accepted_sequence = wal_sequence r, at_mutations = F,
                at_preimage_checkpoint_xid = wal_object_id r\<rparr>]) \<and>
     max_sequence (seed_records tp (J @ [r])) = wal_sequence r \<and>
     recovered_accepted (seed_records tp (J @ [r])) = wal_sequence r \<and>
     recovered_durable (seed_records tp (J @ [r])) = recovered_durable (seed_records tp J) \<and>
     recovered_cleanup (seed_records tp (J @ [r])) = recovered_cleanup (seed_records tp J)"
    (is "log_inv tp _ _ _ _ (acc @ [?a]) \<and> _")
proof -
  obtain s where s: "log_sem tp J F t K s" "log_seed F t acc s (seed_records tp J)" "collects J F t acc s"
    using i by (auto simp: log_inv_def)
  have p: "max_sequence (seed_records tp J) = previous_sequence s" using s(2) by (simp add: log_seed_def)
  note r' = r [unfolded p]
  have nt: "t \<notin> set (terminal_transactions s)" using s(1) by (auto simp: log_sem_def)
  obtain s' where s': "log_sem tp (J @ [r]) [] (Suc t) None s'" "previous_sequence s' = Suc (previous_sequence s)"
     "terminal_transactions s' = t # terminal_transactions s"
    using log_sem_marker [OF s(1) r'] o by blast
  have n: "wal_sequence r = Suc (previous_sequence s)" "wal_operation r = OpTransactionMarker" "wal_transaction_id r = t" "t \<noteq> 0"
    using r' by (auto simp: marker_record_def)
  have old: "list_all (\<lambda>a. at_accepted_sequence a \<le> previous_sequence s) acc"
    using s(2) by (auto simp: log_seed_def list_all_iff)
  have mx: "max (previous_sequence s) (Suc (previous_sequence s)) = Suc (previous_sequence s)" by simp
  have acc_le: "recovered_accepted (seed_records tp J) \<le> previous_sequence s" using s(2) by (simp add: log_seed_def)
  have sd: "log_seed [] (Suc t) (acc @ [?a]) s' (seed_records tp (J @ [r]))"
    using s(2) o n s'(2) old acc_le delete_open [of "spool_requirements (seed_records tp J)" F t]
    by (auto simp: log_seed_def seed_records_append seed_step_def seed_marker_def Let_def list_all_iff max_def
        kWalFlagAccepted_def)
  have "collects (J @ [r]) [] (Suc t) (acc @ [?a]) s'"
    unfolding collects_def
  proof (intro allI impI)
    fix i lower upper assume "list_all (\<lambda>a. at_accepted_sequence a \<le> upper) (acc @ [?a])"
    then have up: "list_all (\<lambda>a. at_accepted_sequence a \<le> upper) acc" "Suc (previous_sequence s) \<le> upper" using n by auto
    show "collect_run i lower upper (J @ [r]) collect_start =
        Inr \<lparr>prepared_by_transaction = (if [] = [] then [] else [(Suc t, [])]), collected_terminal = terminal_transactions s',
           collected_previous = previous_sequence s', collected = filter (\<lambda>a. lower < at_accepted_sequence a) (acc @ [?a])\<rparr>"
      using s(3) up(1) up(2) n o(1,3,4) s'(2,3) nt
      by (auto simp: collects_def collect_run_append collect_step_def collect_marker_def Let_def)
  qed
  then have "log_inv tp (J @ [r]) [] (Suc t) None (acc @ [?a])" using s'(1) sd by (auto simp: log_inv_def)
  moreover have "max_sequence (seed_records tp (J @ [r])) = wal_sequence r" using sd s'(2) n by (simp add: log_seed_def)
  moreover have "recovered_accepted (seed_records tp (J @ [r])) = wal_sequence r" using sd by (simp add: log_seed_def)
  moreover have "recovered_durable (seed_records tp (J @ [r])) = recovered_durable (seed_records tp J)"
     "recovered_cleanup (seed_records tp (J @ [r])) = recovered_cleanup (seed_records tp J)"
    using o(1) n by (simp_all add: seed_records_append seed_step_def seed_marker_def Let_def)
  ultimately show ?thesis by blast
qed

lemma log_inv_aborted:
  assumes i: "log_inv tp J F t K acc" and r: "marker_record t (Suc (max_sequence (seed_records tp J))) r"
    and o: "wal_state r = Cleaned" "wal_flags r = kWalFlagAborted"
  shows "log_inv tp (J @ [r]) [] (Suc t) None acc \<and>
     max_sequence (seed_records tp (J @ [r])) = wal_sequence r \<and>
     recovered_accepted (seed_records tp (J @ [r])) = recovered_accepted (seed_records tp J) \<and>
     recovered_durable (seed_records tp (J @ [r])) = recovered_durable (seed_records tp J) \<and>
     recovered_cleanup (seed_records tp (J @ [r])) = recovered_cleanup (seed_records tp J)"
proof -
  obtain s where s: "log_sem tp J F t K s" "log_seed F t acc s (seed_records tp J)" "collects J F t acc s"
    using i by (auto simp: log_inv_def)
  have p: "max_sequence (seed_records tp J) = previous_sequence s" using s(2) by (simp add: log_seed_def)
  note r' = r [unfolded p]
  have nt: "t \<notin> set (terminal_transactions s)" using s(1) by (auto simp: log_sem_def)
  obtain s' where s': "log_sem tp (J @ [r]) [] (Suc t) None s'" "previous_sequence s' = Suc (previous_sequence s)"
     "terminal_transactions s' = t # terminal_transactions s"
    using log_sem_marker [OF s(1) r'] o by blast
  have n: "wal_sequence r = Suc (previous_sequence s)" "wal_operation r = OpTransactionMarker" "wal_transaction_id r = t" "t \<noteq> 0"
    using r' by (auto simp: marker_record_def)
  have sd: "log_seed [] (Suc t) acc s' (seed_records tp (J @ [r]))"
    using s(2) o n s'(2) delete_open [of "spool_requirements (seed_records tp J)" F t]
    by (auto simp: log_seed_def seed_records_append seed_step_def seed_marker_def Let_def list_all_iff max_def)
  have "collects (J @ [r]) [] (Suc t) acc s'"
    using s(3) n o(1) s'(2,3) nt
    by (auto simp: collects_def collect_run_append collect_step_def collect_marker_def Let_def)
  then have "log_inv tp (J @ [r]) [] (Suc t) None acc" using s'(1) sd by (auto simp: log_inv_def)
  moreover have "max_sequence (seed_records tp (J @ [r])) = wal_sequence r" using sd s'(2) n by (simp add: log_seed_def)
  ultimately show ?thesis
    using o(1) n by (simp add: seed_records_append seed_step_def seed_marker_def Let_def)
qed

definition watermark_record :: "RecordState \<Rightarrow> nat \<Rightarrow> nat \<Rightarrow> WalRecord \<Rightarrow> bool" where
  "watermark_record st m n r \<longleftrightarrow>
     wal_operation r = OpDurabilityWatermark \<and> wal_state r = st \<and> logical_offset r = m \<and> wal_transaction_id r = 0 \<and>
     wal_flags r = 0 \<and> wal_sequence r = n \<and> n \<noteq> u64_max"

lemma log_inv_watermark:
  assumes i: "log_inv tp J [] t None acc" and r: "watermark_record st m (Suc (max_sequence (seed_records tp J))) r"
    and m: "m \<in> recovered_boundaries (seed_records tp J)" "m \<noteq> 0"
      "st = Checkpointed \<and> recovered_durable (seed_records tp J) \<le> m \<or>
       st = Cleaned \<and> recovered_cleanup (seed_records tp J) \<le> m \<and> m \<le> recovered_durable (seed_records tp J)"
  shows "log_inv tp (J @ [r]) [] t None acc \<and>
     max_sequence (seed_records tp (J @ [r])) = wal_sequence r \<and>
     recovered_accepted (seed_records tp (J @ [r])) = recovered_accepted (seed_records tp J) \<and>
     recovered_durable (seed_records tp (J @ [r])) = (if st = Checkpointed then m else recovered_durable (seed_records tp J)) \<and>
     recovered_cleanup (seed_records tp (J @ [r])) = (if st = Checkpointed then recovered_cleanup (seed_records tp J) else m)"
proof -
  obtain s where s: "log_sem tp J [] t None s" "log_seed [] t acc s (seed_records tp J)" "collects J [] t acc s" and t: "0 < t"
    using i by (auto simp: log_inv_def)
  have p: "max_sequence (seed_records tp J) = previous_sequence s" using s(2) by (simp add: log_seed_def)
  let ?s' = "s\<lparr>previous_sequence := Suc (previous_sequence s)\<rparr>"
  have w: "wal_operation r = OpDurabilityWatermark" "wal_state r = st" "logical_offset r = m" "wal_transaction_id r = 0"
     "wal_flags r = 0" "wal_sequence r = Suc (previous_sequence s)" "wal_sequence r \<noteq> u64_max"
    using r p by (auto simp: watermark_record_def)
  have "semantic_step tp 0 r s = Some ?s'" using s(1) w m by (auto simp: semantic_step_def log_sem_def Let_def)
  then have sem: "log_sem tp (J @ [r]) [] t None ?s'" using s(1) w by (auto simp: log_sem_def semantic_run_append)
  have le: "m \<le> recovered_accepted (seed_records tp J)" using s(2) m(1) by (auto simp: log_seed_def list_all_iff)
  have step: "seed_records tp (J @ [r]) = seed_watermark r ((seed_records tp J)\<lparr>max_sequence := Suc (previous_sequence s)\<rparr>)"
    using w p by (simp add: seed_records_append seed_step_def IsMutationOperation_def Let_def)
  have sd: "log_seed [] t acc ?s' (seed_records tp (J @ [r]))"
    unfolding step using s(2) w m le by (auto simp: log_seed_def seed_watermark_def Let_def max_def)
  have "collects (J @ [r]) [] t acc ?s'"
    using s(3) w by (auto simp: collects_def collect_run_append collect_step_def Let_def)
  then have "log_inv tp (J @ [r]) [] t None acc" using sem sd t by (auto simp: log_inv_def)
  moreover have "max_sequence (seed_records tp (J @ [r])) = wal_sequence r" using sd w by (simp add: log_seed_def)
  ultimately show ?thesis unfolding step using w m by (auto simp: seed_watermark_def Let_def max_def)
qed

lemma log_inv_valid:
  assumes "log_inv tp J [] t K acc"
  shows "ValidateWalSemantics tp J"
  using assms by (auto simp: log_inv_def log_sem_def ValidateWalSemantics_def compaction_floor_none)

end
