(* ===== verification/TransactionAppend.thy ===== *)
theory TransactionAppend
  imports TransactionLog
begin

text \<open>
  The part of the manager that its journal determines, the invariant \<open>tx_inv\<close> between the two, and
  what an append and an accepted batch leave.
\<close>

section \<open>The caches do not matter\<close>

text \<open>The part of the manager that the journal determines.\<close>

definition core where
  "core st = ((tx_state st, safety_level st, journal_path st, volume_identity st, next_transaction_id st, next_sequence st),
     (highest_checkpointed_marker_sequence st, accepted_sequence st, apfs_durable_sequence st, cleanup_sequence st,
      recovery_state_valid st, current_transaction_id st),
     (accepted_boundaries st, pending_mutations st, buffered_records st, journal st))"

named_theorems core_simps \<open>operations that leave the core alone\<close>

lemma core_InvalidateCheckpointPinCensus [core_simps]: "core (InvalidateCheckpointPinCensus st) = core st"
  by (simp add: core_def InvalidateCheckpointPinCensus_def)

lemma core_InvalidateFinalizationCoverage [core_simps]: "core (InvalidateFinalizationCoverage b st) = core st"
  by (simp add: core_def InvalidateFinalizationCoverage_def InvalidateCheckpointPinCensus_def Let_def)

lemma core_Advance [core_simps]: "core (AdvanceCheckpointPinCensusGeneration b a c st) = core st"
  by (simp add: core_def AdvanceCheckpointPinCensusGeneration_def InvalidateCheckpointPinCensus_def)

lemma core_CacheAccepted [core_simps]: "core (CacheAcceptedCheckpointPins n pins st) = core st"
  by (simp add: core_def CacheAcceptedCheckpointPins_def InvalidateCheckpointPinCensus_def Let_def)

lemma core_note_accepted [core_simps]: "core (note_accepted n st) = core st"
  by (simp add: core_def note_accepted_def)

lemma core_seed_pins [core_simps]: "core (seed_pins tp rs pins n st) = core st"
proof (induction tp rs pins n st rule: seed_pins.induct)
  case (2 tp r rs pins prepared st)
  then show ?case by (auto simp: Let_def core_simps split: option.split)
qed (simp add: core_simps)

lemma core_pin_update [core_simps]: "core (st\<lparr>pin_census_trusted := b, pin_census_generation := g\<rparr>) = core st"
  by (simp add: core_def)

lemma core_SeedCheckpointPinCensus [core_simps]: "core (SeedCheckpointPinCensus tp rs g st) = core st"
  by (simp add: SeedCheckpointPinCensus_def Let_def core_simps)

lemma lose_journal_core: "\<not> recovery_state_valid (lose_journal st)" "journal_path (lose_journal st) = journal_path st"
  by (simp_all add: lose_journal_def InvalidateFinalizationCoverage_def InvalidateCheckpointPinCensus_def Let_def)

section \<open>The invariant\<close>

definition config_ok :: "TxPlatform \<Rightarrow> TxManager \<Rightarrow> bool" where
  "config_ok tp st \<longleftrightarrow> journal_path st \<and> length (journal_identity tp st) \<le> 1048576 \<and>
     length (wide_to_utf8 tp (safety_level st)) \<le> 1048576"

text \<open>\<open>J\<close> are the records of the log and \<open>F\<close> those of the current transaction that are already in it.\<close>

definition tx_holds ::
  "TxPlatform \<Rightarrow> AcceptedTransaction list \<Rightarrow> WalRecord list \<Rightarrow> TxManager \<Rightarrow> WalRecord list \<Rightarrow> WalRecord list \<Rightarrow> nat \<Rightarrow> bool" where
  "tx_holds tp acc recorded st J F t \<longleftrightarrow>
     journal st = log_bytes (tx_wal tp) J \<and> list_all (loggable (tx_wal tp) (journal_identity tp st)) J \<and>
     list_all (loggable (tx_wal tp) (journal_identity tp st)) (buffered_records st) \<and>
     list_all (\<lambda>r. wal_volume_identity r = journal_identity tp st) (buffered_records st) \<and>
     log_inv tp J F t None acc \<and> recorded = F @ buffered_records st \<and>
     map (ToWalOperation \<circ> mutation_kind) (pending_mutations st) = map wal_operation recorded \<and>
     prepared_from t (Suc (max_sequence (seed_records tp J))) (buffered_records st) \<and>
     next_sequence st = Suc (max_sequence (seed_records tp J) + length (buffered_records st)) \<and> next_sequence st \<le> u64_max \<and>
     accepted_sequence st = recovered_accepted (seed_records tp J) \<and>
     apfs_durable_sequence st = recovered_durable (seed_records tp J) \<and>
     cleanup_sequence st = recovered_cleanup (seed_records tp J) \<and> highest_checkpointed_marker_sequence st = 0 \<and>
     accepted_boundaries st = {b \<in> recovered_boundaries (seed_records tp J). cleanup_sequence st < b} \<and>
     t \<le> u64_max \<and> length recorded < next_sequence st \<and>
     (if tx_state st = TxIdle then t = next_transaction_id st \<and> recorded = []
      else t = current_transaction_id st \<and> next_transaction_id st = Suc t \<and> t \<noteq> u64_max)"

lemma tx_holdsD:
  assumes "tx_holds tp acc recorded st J F t"
  shows "journal st = log_bytes (tx_wal tp) J" "list_all (loggable (tx_wal tp) (journal_identity tp st)) J"
    "list_all (loggable (tx_wal tp) (journal_identity tp st)) (buffered_records st)"
    "list_all (\<lambda>r. wal_volume_identity r = journal_identity tp st) (buffered_records st)"
    "log_inv tp J F t None acc" "recorded = F @ buffered_records st"
    "map (ToWalOperation \<circ> mutation_kind) (pending_mutations st) = map wal_operation recorded"
    "prepared_from t (Suc (max_sequence (seed_records tp J))) (buffered_records st)"
    "next_sequence st = Suc (max_sequence (seed_records tp J) + length (buffered_records st))" "next_sequence st \<le> u64_max"
    "accepted_sequence st = recovered_accepted (seed_records tp J)"
    "apfs_durable_sequence st = recovered_durable (seed_records tp J)"
    "cleanup_sequence st = recovered_cleanup (seed_records tp J)" "highest_checkpointed_marker_sequence st = 0"
    "accepted_boundaries st = {b \<in> recovered_boundaries (seed_records tp J). cleanup_sequence st < b}"
    "t \<le> u64_max" "length recorded < next_sequence st"
    "if tx_state st = TxIdle then t = next_transaction_id st \<and> recorded = []
     else t = current_transaction_id st \<and> next_transaction_id st = Suc t \<and> t \<noteq> u64_max"
  using assms unfolding tx_holds_def by - ((elim conjE, assumption)+)

definition tx_inv :: "TxPlatform \<Rightarrow> AcceptedTransaction list \<Rightarrow> WalRecord list \<Rightarrow> TxManager \<Rightarrow> bool" where
  "tx_inv tp acc recorded st \<longleftrightarrow> config_ok tp st \<and> (recovery_state_valid st \<longrightarrow> (\<exists>J F t. tx_holds tp acc recorded st J F t))"

lemma tx_holds_core: "core st = core st' \<Longrightarrow> tx_holds tp acc recorded st J F t = tx_holds tp acc recorded st' J F t"
  by (simp add: core_def tx_holds_def journal_identity_def)

lemma tx_inv_core: "core st = core st' \<Longrightarrow> tx_inv tp acc recorded st = tx_inv tp acc recorded st'"
  using tx_holds_core [of st st'] by (simp add: core_def tx_inv_def config_ok_def journal_identity_def)

lemma tx_inv_invalid:
  "config_ok tp st \<Longrightarrow> \<not> recovery_state_valid st \<Longrightarrow> tx_inv tp acc recorded st"
  by (simp add: tx_inv_def)

section \<open>Appending\<close>

lemma identity_not_empty: "EffectiveVolumeIdentity tp i \<noteq> []"
  by (simp add: EffectiveVolumeIdentity_def default_identity_def Let_def)

lemma AppendBatch_outcome:
  assumes "list_all (\<lambda>r. wal_volume_identity r = option_volume_identity opts) records" "option_volume_identity opts \<noteq> []"
    "has_path opts" "records \<noteq> []"
  shows "(\<exists>b. AppendBatchWithResult pf opts io records d g bytes = (AppendBytesMayHavePersisted, b)) \<or>
     AppendBatchWithResult pf opts io records d g bytes \<in>
       {(AppendSucceeded, bytes @ log_bytes pf records), (AppendRejectedBeforeWrite, bytes)}"
proof -
  have "map (stamped opts) records = records"
    using assms(1,2) by (intro map_idI) (auto simp: stamped_def list_all_iff)
  then show ?thesis
    using AppendBatch_file [OF assms(3,4), of pf io d g bytes]
    by (cases "AppendBatchWithResult pf opts io records d g bytes"; cases "fst (AppendBatchWithResult pf opts io records d g bytes)") auto
qed

lemma Append_outcome:
  assumes "wal_volume_identity r = option_volume_identity opts" "option_volume_identity opts \<noteq> []" "has_path opts"
  shows "(\<exists>b. AppendWithResult pf opts io r d g bytes = (AppendBytesMayHavePersisted, b)) \<or>
     AppendWithResult pf opts io r d g bytes \<in>
       {(AppendSucceeded, bytes @ log_bytes pf [r]), (AppendRejectedBeforeWrite, bytes)}"
  using assms
  by (auto simp: AppendWithResult_def AppendEncoded_def finish_append_def writable_record_def Let_def split: option.split)

lemma CompactWithResult_refused:
  "files \<noteq> FilesReplaced \<Longrightarrow> fst (CompactWithResult pf i files m bytes) \<noteq> CompactionSucceeded"
  by (auto simp: CompactWithResult_def Let_def split: prod.split option.split CompactionFiles.split)

lemma append_or_compact_cases:
  assumes w: "\<And>aio g. (\<exists>b. write aio g (journal st) = (AppendBytesMayHavePersisted, b)) \<or>
       write aio g (journal st) \<in> {(AppendSucceeded, journal st @ bs), (AppendRejectedBeforeWrite, journal st)}"
    and c: "compaction_files io \<noteq> FilesReplaced"
    and r: "append_or_compact tp io write k st = (ok, compacted, st')"
  shows "if ok then \<not> compacted \<and> st' = st\<lparr>journal := journal st @ bs\<rparr>
     else \<not> recovery_state_valid st' \<and> journal_path st' = journal_path st \<and> volume_identity st' = volume_identity st \<and>
       safety_level st' = safety_level st"
proof -
  have lose: "volume_identity (lose_journal x) = volume_identity x" "safety_level (lose_journal x) = safety_level x" for x
    by (simp_all add: lose_journal_def InvalidateFinalizationCoverage_def InvalidateCheckpointPinCensus_def Let_def)
  have cr: "fst (CompactWithResult (tx_wal tp) i (compaction_files io) m b) \<noteq> CompactionSucceeded" for i m b
    using CompactWithResult_refused [OF c] .
  show ?thesis
    using w [of "append_io io" "journal_state_generation st"] r
      cr [of "journal_identity tp (st\<lparr>journal := journal st\<rparr>)" "SafeCompactionFloor k (st\<lparr>journal := journal st\<rparr>)" "journal st"]
    by (auto simp: append_or_compact_def Let_def lose_journal_core lose split: prod.splits)
qed

lemma settle_append_cases:
  assumes "settle_append io before compacted st = (ok, st')"
  shows "if ok then core st' = core st
     else \<not> recovery_state_valid st' \<and> journal_path st' = journal_path st \<and> volume_identity st' = volume_identity st \<and>
       safety_level st' = safety_level st"
  using assms
  by (auto simp: settle_append_def core_def lose_journal_def InvalidateFinalizationCoverage_def
      InvalidateCheckpointPinCensus_def Let_def split: if_splits)

lemma config_ok_same:
  "config_ok tp st \<Longrightarrow> journal_path st' = journal_path st \<Longrightarrow> volume_identity st' = volume_identity st \<Longrightarrow>
     safety_level st' = safety_level st \<Longrightarrow> config_ok tp st'"
  by (simp add: config_ok_def journal_identity_def)

text \<open>The two together: an append either is in the log and changes nothing else of the core, or loses the journal.\<close>

lemma append_and_settle:
  assumes w: "\<And>aio g. (\<exists>b. write aio g (journal st) = (AppendBytesMayHavePersisted, b)) \<or>
       write aio g (journal st) \<in> {(AppendSucceeded, journal st @ bs), (AppendRejectedBeforeWrite, journal st)}"
    and c: "compaction_files io \<noteq> FilesReplaced" and cfg: "config_ok tp st"
    and a: "append_or_compact tp io write k st = (ok, compacted, st1)"
  shows "(\<not> ok \<longrightarrow> config_ok tp st1 \<and> \<not> recovery_state_valid st1) \<and>
     (ok \<longrightarrow> \<not> compacted \<and> (case settle_append io st compacted st1 of (settled, st2) \<Rightarrow>
         if settled then core st2 = core (st\<lparr>journal := journal st @ bs\<rparr>)
         else config_ok tp st2 \<and> \<not> recovery_state_valid st2))"
proof (cases ok)
  case True
  then have st1: "\<not> compacted" "st1 = st\<lparr>journal := journal st @ bs\<rparr>" using append_or_compact_cases [OF w c a] by auto
  obtain settled st2 where s: "settle_append io st compacted st1 = (settled, st2)" by (cases "settle_append io st compacted st1")
  have cfg1: "config_ok tp st1" using cfg st1 by (simp add: config_ok_def journal_identity_def)
  show ?thesis using settle_append_cases [OF s] True st1 s config_ok_same [OF cfg1] by auto
next
  case False
  then show ?thesis using append_or_compact_cases [OF w c a] config_ok_same [OF cfg] by auto
qed

lemma core_fields:
  assumes "core a = core b"
  shows "tx_state a = tx_state b" "safety_level a = safety_level b" "journal_path a = journal_path b"
    "volume_identity a = volume_identity b" "next_transaction_id a = next_transaction_id b" "next_sequence a = next_sequence b"
    "highest_checkpointed_marker_sequence a = highest_checkpointed_marker_sequence b"
    "accepted_sequence a = accepted_sequence b" "apfs_durable_sequence a = apfs_durable_sequence b"
    "cleanup_sequence a = cleanup_sequence b" "recovery_state_valid a = recovery_state_valid b"
    "current_transaction_id a = current_transaction_id b" "accepted_boundaries a = accepted_boundaries b"
    "pending_mutations a = pending_mutations b" "buffered_records a = buffered_records b" "journal a = journal b"
  using assms by (simp_all add: core_def)

lemma core_intro:
  assumes "tx_state a = tx_state b" "safety_level a = safety_level b" "journal_path a = journal_path b"
    "volume_identity a = volume_identity b" "next_transaction_id a = next_transaction_id b" "next_sequence a = next_sequence b"
    "highest_checkpointed_marker_sequence a = highest_checkpointed_marker_sequence b"
    "accepted_sequence a = accepted_sequence b" "apfs_durable_sequence a = apfs_durable_sequence b"
    "cleanup_sequence a = cleanup_sequence b" "recovery_state_valid a = recovery_state_valid b"
    "current_transaction_id a = current_transaction_id b" "accepted_boundaries a = accepted_boundaries b"
    "pending_mutations a = pending_mutations b" "buffered_records a = buffered_records b" "journal a = journal b"
  shows "core a = core b"
  using assms by (simp add: core_def)

lemma loggable_consistent: "loggable pf i r \<Longrightarrow> InlinePayloadIsConsistentImpl pf r"
  by (auto simp: loggable_def EncodeWalRecord_def encode_refused_def Let_def split: if_splits)

lemma marker_loggable:
  assumes "config_ok tp st" "current_transaction_id st \<le> u64_max" "n \<le> u64_max" "xid \<le> u64_max"
    "length (pending_mutations st) \<le> u64_max"
  shows "loggable (tx_wal tp) (journal_identity tp st) ((BuildTransactionMarkerLocked tp outcome xid st)\<lparr>wal_sequence := n\<rparr>)"
    (is "loggable ?pf ?i ?r")
proof (rule loggableI)
  show "wal_record_ok ?r"
    using assms by (auto simp: wal_record_ok_def BuildTransactionMarkerLocked_def blank_record_def IsKnownOperation_def
        known_operations_def state_of_def u32_max_def u64_max_def config_ok_def kWalFlagAccepted_def kWalFlagCommitted_def
        kWalFlagAborted_def split: TxOutcome.split)
  show "\<not> encode_refused ?pf ?r (frame_version ?r 0)"
    by (simp add: encode_refused_def frame_version_def BuildTransactionMarkerLocked_def blank_record_def Let_def
        inline_only_operations_def version_cases InodeMetadataMutationIsConsistentImpl_def AllocationSizeMutationIsConsistentImpl_def
        DirectoryRestoreMutationIsConsistentImpl_def InlinePayloadIsConsistentImpl_def
        ExtendedAttributeMutationIsConsistentImpl_def UnlinkOutcomeIsConsistentImpl_def)
  show "wal_record_size ?r (header_size_of (frame_version ?r 0)) \<le> kMaxRecordBytes"
    using assms by (simp add: wal_record_size_def frame_version_def BuildTransactionMarkerLocked_def blank_record_def
        header_size_of_def version_cases kMaxRecordBytes_def kLegacyHeaderSize_def config_ok_def)
qed (simp add: BuildTransactionMarkerLocked_def blank_record_def)

definition watermark :: "TxPlatform \<Rightarrow> RecordState \<Rightarrow> nat \<Rightarrow> nat \<Rightarrow> TxManager \<Rightarrow> WalRecord" where
  "watermark tp wstate m n st =
     blank_record\<lparr>wal_volume_identity := journal_identity tp st, wal_operation := OpDurabilityWatermark, wal_state := wstate,
        logical_offset := m, wal_sequence := n\<rparr>"

lemma watermark_loggable:
  assumes "config_ok tp st" "m \<le> u64_max" "n \<le> u64_max" "wstate = Checkpointed \<or> wstate = Cleaned"
  shows "loggable (tx_wal tp) (journal_identity tp st) (watermark tp wstate m n st)"
    (is "loggable ?pf ?i ?r")
proof (rule loggableI)
  show "wal_record_ok ?r"
    using assms by (auto simp: wal_record_ok_def watermark_def blank_record_def IsKnownOperation_def
        known_operations_def state_of_def u32_max_def u64_max_def config_ok_def)
  show "\<not> encode_refused ?pf ?r (frame_version ?r 0)"
    by (simp add: encode_refused_def frame_version_def watermark_def blank_record_def Let_def
        inline_only_operations_def version_cases InodeMetadataMutationIsConsistentImpl_def AllocationSizeMutationIsConsistentImpl_def
        DirectoryRestoreMutationIsConsistentImpl_def InlinePayloadIsConsistentImpl_def
        ExtendedAttributeMutationIsConsistentImpl_def UnlinkOutcomeIsConsistentImpl_def)
  show "wal_record_size ?r (header_size_of (frame_version ?r 0)) \<le> kMaxRecordBytes"
    using assms by (simp add: wal_record_size_def frame_version_def watermark_def blank_record_def
        header_size_of_def version_cases kMaxRecordBytes_def kLegacyHeaderSize_def config_ok_def)
qed (simp add: watermark_def)

section \<open>What a batch leaves\<close>

definition marker_of :: "TxPlatform \<Rightarrow> TxOutcome \<Rightarrow> nat \<Rightarrow> TxManager \<Rightarrow> WalRecord" where
  "marker_of tp outcome xid st = (BuildTransactionMarkerLocked tp outcome xid st)\<lparr>wal_sequence := next_sequence st\<rparr>"

definition persisted :: "TxPlatform \<Rightarrow> TxOutcome \<Rightarrow> nat \<Rightarrow> TxManager \<Rightarrow> TxManager" where
  "persisted tp outcome xid st =
     (let st' = st\<lparr>journal := journal st @ log_bytes (tx_wal tp) (buffered_records st @ [marker_of tp outcome xid st]),
                  next_sequence := Suc (next_sequence st), buffered_records := []\<rparr>
      in if outcome = OutcomeAccepted
         then st'\<lparr>accepted_sequence := next_sequence st, accepted_boundaries := insert (next_sequence st) (accepted_boundaries st)\<rparr>
         else st')"

lemma core_spool_update [core_simps]: "core (st\<lparr>spool_flush_boundaries := S\<rparr>) = core st"
  by (simp add: core_def)

lemma core_record_outcome:
  "core (record_outcome tp OutcomeAccepted xid rs n b st) =
     core (st\<lparr>accepted_sequence := n, accepted_boundaries := insert n (accepted_boundaries st)\<rparr>)"
  "core (record_outcome tp OutcomeAborted xid rs n b st) = core st"
  by (simp_all add: record_outcome_def Let_def core_simps split: option.split)

lemma core_cong:
  assumes "core a = core b"
  shows "core (ClearBufferedPreparedRecords a) = core (b\<lparr>buffered_records := []\<rparr>)"
    "core (a\<lparr>next_sequence := n\<rparr>) = core (b\<lparr>next_sequence := n\<rparr>)"
    "core (a\<lparr>accepted_sequence := n, accepted_boundaries := insert n (accepted_boundaries a)\<rparr>) =
     core (b\<lparr>accepted_sequence := n, accepted_boundaries := insert n (accepted_boundaries b)\<rparr>)"
    "core (finish_transaction a) = core (finish_transaction b)"
    "core (a\<lparr>tx_state := x\<rparr>) = core (b\<lparr>tx_state := x\<rparr>)"
  using assms by (simp_all add: core_def ClearBufferedPreparedRecords_def finish_transaction_def)

lemma core_persisted:
  assumes st2: "core st2 = core (st\<lparr>journal := journal st @ log_bytes (tx_wal tp) (buffered_records st @ [marker_of tp outcome xid st])\<rparr>)"
    and o: "outcome \<noteq> OutcomeCommitted"
  shows "core (ClearBufferedPreparedRecords (record_outcome tp outcome xid rs (next_sequence st) b
       (AdvanceCheckpointPinCensusGeneration g g' c (st2\<lparr>next_sequence := Suc (next_sequence st)\<rparr>)))) =
     core (persisted tp outcome xid st)"
proof -
  let ?st3 = "AdvanceCheckpointPinCensusGeneration g g' c (st2\<lparr>next_sequence := Suc (next_sequence st)\<rparr>)"
  have st3: "core ?st3 = core (st\<lparr>journal := journal st @ log_bytes (tx_wal tp) (buffered_records st @ [marker_of tp outcome xid st]),
      next_sequence := Suc (next_sequence st)\<rparr>)"
    using core_cong(2) [OF st2] by (simp add: core_simps)
  show ?thesis
  proof (cases outcome)
    case OutcomeAccepted
    then show ?thesis
      using core_cong(1) [OF trans [OF core_record_outcome(1) core_cong(3) [OF st3]]]
      by (simp add: persisted_def core_def)
  next
    case OutcomeAborted
    then show ?thesis
      using core_cong(1) [OF trans [OF core_record_outcome(2) st3]] by (simp add: persisted_def core_def)
  qed (use o in simp)
qed

lemma Persist_result:
  assumes cfg: "config_ok tp st"
    and ids: "list_all (\<lambda>r. wal_volume_identity r = journal_identity tp st) (buffered_records st)"
    and c: "compaction_files io \<noteq> FilesReplaced" and o: "outcome \<noteq> OutcomeCommitted" and n: "next_sequence st \<le> u64_max"
    and P: "PersistTransactionBatchLocked tp io outcome d xid st = (ok, st')"
  shows "(\<not> ok \<longrightarrow> st' = st \<and> (next_sequence st = 0 \<or> next_sequence st = u64_max \<or> outcome \<noteq> OutcomeAborted \<or>
          \<not> buffered_sequences_ok st) \<or> config_ok tp st' \<and> \<not> recovery_state_valid st') \<and>
     (ok \<longrightarrow> core st' = core (persisted tp outcome xid st) \<and> next_sequence st \<noteq> u64_max \<and>
        (outcome = OutcomeAccepted \<longrightarrow> list_all (native_proof_ok tp xid st) (pending_mutations st)))"
proof (cases "next_sequence st = 0 \<or> next_sequence st = u64_max \<or>
    (outcome \<noteq> OutcomeAborted \<and> \<not> list_all (native_proof_ok tp xid st) (pending_mutations st)) \<or>
    \<not> JournalStateMatchesWriterLease (lease_now io) st \<or> \<not> buffered_sequences_ok st")
  case True
  moreover have "config_ok tp (InvalidateFinalizationCoverage True (st\<lparr>recovery_state_valid := False\<rparr>))"
    "\<not> recovery_state_valid (InvalidateFinalizationCoverage True (st\<lparr>recovery_state_valid := False\<rparr>))"
    using cfg by (simp_all add: config_ok_def journal_identity_def InvalidateFinalizationCoverage_def
        InvalidateCheckpointPinCensus_def Let_def)
  ultimately show ?thesis using P cfg by (auto simp: PersistTransactionBatchLocked_def config_ok_def Let_def split: if_splits)
next
  case False
  have path: "journal_path st" using cfg by (simp add: config_ok_def)
  have b: "buffered_for_append tp st = buffered_records st"
    using ids identity_not_empty by (auto simp: buffered_for_append_def list_all_iff journal_identity_def intro!: map_idI)
  let ?m = "marker_of tp outcome xid st"
  let ?rs = "buffered_records st @ [?m]"
  let ?put = "\<lambda>aio generation. AppendBatchWithResult (tx_wal tp) (journal_options tp st) aio ?rs d generation"
  have m: "wal_volume_identity ?m = journal_identity tp st"
    by (simp add: marker_of_def BuildTransactionMarkerLocked_def)
  have w: "(\<exists>b. ?put aio g (journal st) = (AppendBytesMayHavePersisted, b)) \<or>
       ?put aio g (journal st) \<in> {(AppendSucceeded, journal st @ log_bytes (tx_wal tp) ?rs), (AppendRejectedBeforeWrite, journal st)}" for aio g
    using ids path m identity_not_empty
    by (intro AppendBatch_outcome) (auto simp: journal_options_def journal_identity_def)
  define k where "k = (if pending_mutations st = [] then next_sequence st else mutation_wal_sequence (hd (pending_mutations st)))"
  obtain ok1 compacted st1 where a: "append_or_compact tp io ?put k st = (ok1, compacted, st1)" by (rule prod_cases3)
  note A = append_and_settle [OF w c cfg a]
  have unfold: "PersistTransactionBatchLocked tp io outcome d xid st =
     (if \<not> ok1 then (False, st1)
      else case settle_append io st compacted st1 of (settled, st2) \<Rightarrow>
        if \<not> settled then (False, st2)
        else (True, ClearBufferedPreparedRecords (record_outcome tp outcome xid ?rs (next_sequence st)
           (coverage_trusted st \<and> (lease_after io = journal_state_generation st \<or> compacted))
           (AdvanceCheckpointPinCensusGeneration (journal_state_generation st) (lease_after io) compacted
              (st2\<lparr>next_sequence := add64 (next_sequence st) 1\<rparr>)))))"
    using False path a unfolding PersistTransactionBatchLocked_def Let_def b k_def marker_of_def by (auto split: prod.splits)
  have n': "add64 (next_sequence st) 1 = Suc (next_sequence st)"
    using False n by (simp add: add64_def u64_max_def)
  obtain settled st2 where s: "settle_append io st compacted st1 = (settled, st2)" by (cases "settle_append io st compacted st1")
  show ?thesis
  proof (cases "ok1 \<and> settled")
    case True
    then have "core st2 = core (st\<lparr>journal := journal st @ log_bytes (tx_wal tp) ?rs\<rparr>)" using A s by simp
    from core_persisted [OF this o] show ?thesis using True P o s False n' unfolding unfold by (cases outcome) auto
  next
    case False
    then show ?thesis using A s P unfolding unfold by (auto split: if_splits)
  qed
qed

section \<open>Every operation keeps the invariant\<close>

lemma log_inv_order:
  assumes "log_inv tp J F t K acc"
  shows "recovered_boundaries (seed_records tp J) = set (map at_accepted_sequence acc)"
    "recovered_cleanup (seed_records tp J) \<le> recovered_durable (seed_records tp J)"
    "recovered_durable (seed_records tp J) \<le> recovered_accepted (seed_records tp J)"
    "recovered_accepted (seed_records tp J) \<le> max_sequence (seed_records tp J)"
    "0 < t" "recovered_state_valid (seed_records tp J)" "highest_checkpointed_marker (seed_records tp J) = 0"
  using assms by (auto simp: log_inv_def log_seed_def)

text \<open>The buffered records, in the log: a native one is alone and its checkpoint is the one it was accepted on.\<close>

lemma log_inv_buffered:
  assumes H: "tx_holds tp acc recorded st J F t"
    and nat: "list_all (native_proof_ok tp xid st) (pending_mutations st)"
  shows "\<exists>K. log_inv tp (J @ buffered_records st) recorded t K acc \<and> (K = None \<or> K = Some xid \<and> length recorded = 1) \<and>
     max_sequence (seed_records tp (J @ buffered_records st)) = max_sequence (seed_records tp J) + length (buffered_records st) \<and>
     recovered_accepted (seed_records tp (J @ buffered_records st)) = recovered_accepted (seed_records tp J) \<and>
     recovered_durable (seed_records tp (J @ buffered_records st)) = recovered_durable (seed_records tp J) \<and>
     recovered_cleanup (seed_records tp (J @ buffered_records st)) = recovered_cleanup (seed_records tp J)"
proof (cases "list_all (\<lambda>r. \<not> List.member native_operations (wal_operation r)) (buffered_records st)")
  case True
  have "log_inv tp J F t None acc" "prepared_from t (Suc (max_sequence (seed_records tp J))) (buffered_records st)"
     "recorded = F @ buffered_records st"
    using tx_holdsD(5,6,8) [OF H] by simp_all
  then show ?thesis using log_inv_prepared_list [of tp J F t None acc "buffered_records st"] True by auto
next
  case False
  then obtain r where r: "r \<in> set (buffered_records st)" "List.member native_operations (wal_operation r)"
    by (auto simp: list_all_iff)
  have h: "recorded = F @ buffered_records st" "map (ToWalOperation \<circ> mutation_kind) (pending_mutations st) = map wal_operation recorded"
     "log_inv tp J F t None acc" "prepared_from t (Suc (max_sequence (seed_records tp J))) (buffered_records st)"
     "list_all (loggable (tx_wal tp) (journal_identity tp st)) (buffered_records st)"
    using tx_holdsD(3,5-8) [OF H] by simp_all
  then have "wal_operation r \<in> set (map (ToWalOperation \<circ> mutation_kind) (pending_mutations st))" using r(1) by auto
  then obtain m where m: "m \<in> set (pending_mutations st)" "ToWalOperation (mutation_kind m) = wal_operation r" by auto
  then have p: "native_proof_ok tp xid st m" using nat by (auto simp: list_all_iff)
  then have "length (pending_mutations st) = 1" using m(2) r(2) by (auto simp: native_proof_ok_def Let_def)
  then have one: "length recorded = 1" using h(2) by (metis length_map)
  then have b: "F = []" "buffered_records st = [r]" "recorded = [r]"
    using h(1) r(1) by (cases F; cases "buffered_records st"; auto)+
  have ck: "native_checkpoint tp r = Some xid" using p m(2) r(2) b by (auto simp: native_proof_ok_def Let_def split: if_splits)
  have "log_inv tp (J @ [r]) (F @ [r]) t (Some xid) acc \<and>
     max_sequence (seed_records tp (J @ [r])) = Suc (max_sequence (seed_records tp J)) \<and>
     recovered_accepted (seed_records tp (J @ [r])) = recovered_accepted (seed_records tp J) \<and>
     recovered_durable (seed_records tp (J @ [r])) = recovered_durable (seed_records tp J) \<and>
     recovered_cleanup (seed_records tp (J @ [r])) = recovered_cleanup (seed_records tp J)"
    using log_inv_prepared [OF h(3), of r "Some xid"] h(4,5) b r(2) ck loggable_consistent [of "tx_wal tp" _ r] by auto
  then show ?thesis using b one by auto
qed

lemma accepted_holds:
  assumes H: "tx_holds tp acc recorded st J F t" and st: "tx_state st \<noteq> TxIdle" and cfg: "config_ok tp st"
    and rec: "pending_mutations st \<noteq> []" and nat: "list_all (native_proof_ok tp xid st) (pending_mutations st)"
    and n: "next_sequence st \<noteq> u64_max" and xid: "xid \<le> u64_max"
  shows "tx_holds tp (acc @ [\<lparr>at_transaction_id = current_transaction_id st, at_accepted_sequence = next_sequence st,
        at_mutations = recorded, at_preimage_checkpoint_xid = xid\<rparr>]) []
     (finish_transaction (persisted tp OutcomeAccepted xid st))
     (J @ buffered_records st @ [marker_of tp OutcomeAccepted xid st]) [] (Suc t)"
    (is "tx_holds _ _ _ ?st _ _ _")
proof -
  let ?m = "marker_of tp OutcomeAccepted xid st"
  let ?J = "J @ buffered_records st"
  obtain K where K: "log_inv tp ?J recorded t K acc" "K = None \<or> K = Some xid \<and> length recorded = 1"
     "max_sequence (seed_records tp ?J) = max_sequence (seed_records tp J) + length (buffered_records st)"
     "recovered_accepted (seed_records tp ?J) = recovered_accepted (seed_records tp J)"
     "recovered_durable (seed_records tp ?J) = recovered_durable (seed_records tp J)"
     "recovered_cleanup (seed_records tp ?J) = recovered_cleanup (seed_records tp J)"
    using log_inv_buffered [OF H nat] by blast
  have "map (ToWalOperation \<circ> mutation_kind) (pending_mutations st) = map wal_operation recorded"
    by (rule tx_holdsD(7) [OF H])
  then have lp: "length (pending_mutations st) = length recorded" by (metis length_map)
  have h: "next_sequence st = Suc (max_sequence (seed_records tp ?J))" "next_sequence st \<le> u64_max"
     "t = current_transaction_id st" "next_transaction_id st = Suc t" "t \<noteq> u64_max" "t \<le> u64_max" "length recorded < next_sequence st"
    using tx_holdsD(9,10,16-18) [OF H] st K(3) by simp_all
  have mr: "marker_record t (Suc (max_sequence (seed_records tp ?J))) ?m"
    using h n log_inv_order(5) [OF K(1)] by (simp add: marker_record_def marker_of_def BuildTransactionMarkerLocked_def)
  have mf: "wal_state ?m = Accepted" "wal_flags ?m = kWalFlagAccepted" "logical_length ?m = length recorded"
     "wal_object_id ?m = xid" "wal_sequence ?m = next_sequence st"
    using lp by (simp_all add: marker_of_def BuildTransactionMarkerLocked_def)
  have ne: "recorded \<noteq> []" using rec lp by auto
  have ml: "loggable (tx_wal tp) (journal_identity tp st) ?m"
    unfolding marker_of_def using cfg h xid lp by (intro marker_loggable) auto
  note A = log_inv_accepted [OF K(1) mr mf(1,2) ne mf(3)]
  have A: "log_inv tp (?J @ [?m]) [] (Suc t) None
       (acc @ [\<lparr>at_transaction_id = t, at_accepted_sequence = next_sequence st, at_mutations = recorded,
                at_preimage_checkpoint_xid = xid\<rparr>])"
     "max_sequence (seed_records tp (?J @ [?m])) = next_sequence st"
     "recovered_accepted (seed_records tp (?J @ [?m])) = next_sequence st"
     "recovered_durable (seed_records tp (?J @ [?m])) = apfs_durable_sequence st"
     "recovered_cleanup (seed_records tp (?J @ [?m])) = cleanup_sequence st"
    using A K(2,5,6) tx_holdsD(12,13) [OF H] unfolding mf(4,5) by auto
  have bd: "recovered_boundaries (seed_records tp (?J @ [?m])) = insert (next_sequence st) (recovered_boundaries (seed_records tp J))"
    using log_inv_order(1) [OF A(1)] log_inv_order(1) [OF tx_holdsD(5) [OF H]] by simp
  have cl: "cleanup_sequence st < next_sequence st"
    using log_inv_order(2,3,4) [OF K(1)] h(1) K(6) tx_holdsD(13) [OF H] by linarith
  have fin: "tx_state ?st = TxIdle" "journal ?st = journal st @ log_bytes (tx_wal tp) (buffered_records st @ [?m])"
     "buffered_records ?st = []" "pending_mutations ?st = []" "next_sequence ?st = Suc (next_sequence st)"
     "accepted_sequence ?st = next_sequence st" "apfs_durable_sequence ?st = apfs_durable_sequence st"
     "cleanup_sequence ?st = cleanup_sequence st" "highest_checkpointed_marker_sequence ?st = highest_checkpointed_marker_sequence st"
     "accepted_boundaries ?st = insert (next_sequence st) (accepted_boundaries st)"
     "next_transaction_id ?st = next_transaction_id st" "journal_identity tp ?st = journal_identity tp st"
    by (simp_all add: finish_transaction_def ClearBufferedPreparedRecords_def persisted_def journal_identity_def)
  have "list_all (loggable (tx_wal tp) (journal_identity tp st)) (?J @ [?m])" using tx_holdsD(2,3) [OF H] ml by simp
  moreover have "insert (next_sequence st) (accepted_boundaries st) =
     {b \<in> insert (next_sequence st) (recovered_boundaries (seed_records tp J)). cleanup_sequence st < b}"
    using tx_holdsD(15) [OF H] cl by auto
  ultimately show ?thesis
    unfolding tx_holds_def fin append_assoc [symmetric] bd A(2-5)
    using A(1) tx_holdsD(1,14) [OF H] h n by simp
qed

end
