(* ===== verification/TransactionSeeding.thy ===== *)
theory TransactionSeeding
  imports TransactionAppend
begin

text \<open>
  Reading the journal back under the writer lease and seeding a manager from it.
\<close>

section \<open>Reading the journal back\<close>

lemma log_cut_plain:
  "list_all (loggable pf i) J \<Longrightarrow> n \<le> length (log_bytes pf J) \<Longrightarrow> log_cut pf i [] (take n (log_bytes pf J)) J n"
  by (simp add: log_cut_def)

text \<open>
  A log that was cut at some byte, read under the lease: its complete records, and the file cut back
  to them; nothing, when the system fails.
\<close>

lemma read_cut:
  assumes J: "list_all (loggable pf i) J" "n \<le> length (log_bytes pf J)"
    and r: "ReadAllWithExclusiveWriterLease pf acquired io i default_limits (take n (log_bytes pf J)) = (res, bytes)"
  shows "read_status res = ReadOk \<Longrightarrow>
       read_records res = complete_frames pf n J \<and> bytes = log_bytes pf (complete_frames pf n J)"
    and "acquired \<Longrightarrow> namespace_settled io \<Longrightarrow> \<not> read_failed io \<Longrightarrow> truncate_ok io \<Longrightarrow> n \<le> u64_max \<Longrightarrow> read_status res = ReadOk"
proof -
  let ?P = "complete_frames pf n J"
  have m: "length (log_bytes pf ?P) \<le> n" by (rule log_bytes_complete)
  have P: "list_all (loggable pf i) ?P" by (rule complete_frames_loggable [OF J(1)])
  have tk: "take (length (log_bytes pf ?P)) (take n (log_bytes pf J)) = log_bytes pf ?P" by (rule wal.repaired)
  have len: "length (take n (log_bytes pf J)) = n" using J(2) by simp
  have D1: "DecodeWalBytes pf (take n (log_bytes pf J)) i default_limits None =
      (\<lparr>read_status = ReadOk, recovered_torn_tail = (length (log_bytes pf ?P) < n), read_records = ?P\<rparr>, length (log_bytes pf ?P))"
    if "n \<le> u64_max"
    using log_cut_read [OF log_cut_plain [OF J]] that len by simp
  have D2: "DecodeWalBytes pf (log_bytes pf ?P) i default_limits None =
      (\<lparr>read_status = ReadOk, recovered_torn_tail = False, read_records = ?P\<rparr>, length (log_bytes pf ?P))"
    if "n \<le> u64_max"
    using log_cut_read [OF log_cut_plain [OF P order_refl]] that m complete_frames_all [of pf ?P] by simp
  have same: "take n (log_bytes pf J) = log_bytes pf ?P" if "\<not> length (log_bytes pf ?P) < n"
    using tk m that by simp
  have lim: "limit_bytes default_limits = u64_max" by (simp add: default_limits_def)
  show "read_records res = ?P \<and> bytes = log_bytes pf ?P" if ok: "read_status res = ReadOk"
  proof -
    have "n \<le> u64_max" 
      using r ok len by (auto simp: ReadAllWithExclusiveWriterLease_def ReadAllInternal_def lim split: if_splits)
    from D1 [OF this] D2 [OF this] show ?thesis
      using r ok same tk m J(2)
      by (auto simp: ReadAllWithExclusiveWriterLease_def ReadAllInternal_def lim Let_def split: if_splits)
  qed
  show "read_status res = ReadOk" if "acquired" "namespace_settled io" "\<not> read_failed io" "truncate_ok io" "n \<le> u64_max"
    using r that D1 D2 same tk m J(2)
    by (auto simp: ReadAllWithExclusiveWriterLease_def ReadAllInternal_def lim Let_def split: if_splits)
qed

text \<open>What seeding from the records of a log makes of a manager.\<close>

definition seeded :: "TxPlatform \<Rightarrow> WalRecord list \<Rightarrow> nat \<Rightarrow> TxManager \<Rightarrow> TxManager" where
  "seeded tp J t st =
     st\<lparr>accepted_boundaries := {b \<in> recovered_boundaries (seed_records tp J). recovered_cleanup (seed_records tp J) < b},
        accepted_sequence := recovered_accepted (seed_records tp J), apfs_durable_sequence := recovered_durable (seed_records tp J),
        cleanup_sequence := recovered_cleanup (seed_records tp J), highest_checkpointed_marker_sequence := 0,
        recovery_state_valid := \<not> journal_append_ambiguous st, next_transaction_id := t,
        next_sequence := Suc (max_sequence (seed_records tp J))\<rparr>"

lemma core_generation [core_simps]:
  "core (st\<lparr>journal_state_generation := g\<rparr>) = core st"
  "core (st\<lparr>coverage_trust := c, coverage_generation := g\<rparr>) = core st"
  by (simp_all add: core_def)

lemma log_inv_seed:
  assumes "log_inv tp J [] t K acc"
  shows "spool_requirements (seed_records tp J) = []" "max_transaction_id (seed_records tp J) = t - 1"
  using assms by (auto simp: log_inv_def log_seed_def)

lemma Seed_result:
  assumes i: "log_inv tp J [] t K acc" and idle: "tx_state st = TxIdle"
    and b: "t \<le> u64_max" "max_sequence (seed_records tp J) < u64_max"
    and n: "next_transaction_id st \<le> t" "next_sequence st \<le> Suc (max_sequence (seed_records tp J))"
    and S: "SeedIdsFromJournalRecords tp J g st = (ok, st')"
  shows "core st' = core (seeded tp J t st)" "ok = (\<not> journal_append_ambiguous st)"
proof -
  note o = log_inv_order [OF i] and q = log_inv_seed [OF i]
  have t: "add64 (t - 1) 1 = t" "add64 (max_sequence (seed_records tp J)) 1 = Suc (max_sequence (seed_records tp J))"
    using b o(5) by (simp_all add: add64_def u64_max_def)
  have nt: "(if next_transaction_id st \<le> t - 1 then t else next_transaction_id st) = t" using n(1) o(5) by (simp; linarith)
  have ns: "(if next_sequence st \<le> max_sequence (seed_records tp J) then Suc (max_sequence (seed_records tp J)) else next_sequence st) =
      Suc (max_sequence (seed_records tp J))" using n(2) by (simp; linarith)
  have mt: "t - 1 \<noteq> u64_max" using b o(5) by simp
  have valid: "ValidateWalSemantics tp J" by (rule log_inv_valid [OF i])
  let ?s = "seed_records tp J"
  define st1 where "st1 = st\<lparr>accepted_boundaries := recovered_boundaries ?s,
     spool_flush_boundaries := set (map fst (filter (\<lambda>(n, required). required \<and> n > recovered_durable ?s) (accepted_requirements ?s))),
     accepted_sequence := recovered_accepted ?s, apfs_durable_sequence := recovered_durable ?s,
     cleanup_sequence := recovered_cleanup ?s, last_committed_sequence := recovered_durable ?s,
     highest_checkpointed_marker_sequence := 0, recovery_state_valid := \<not> journal_append_ambiguous st,
     accepted_transaction_sequences := seed_proofs (recovered_sequences ?s) (accepted_transaction_sequences st)\<rparr>"
  define st2 where "st2 = (PruneAcceptedBoundariesThrough (recovered_cleanup ?s) st1)
     \<lparr>next_transaction_id := t, next_sequence := Suc (max_sequence ?s)\<rparr>"
  have c2: "core st2 = core (seeded tp J t st)"
    by (auto simp: st2_def st1_def core_def PruneAcceptedBoundariesThrough_def seeded_def)
  have v2: "recovery_state_valid st2 = (\<not> journal_append_ambiguous st)"
    by (simp add: st2_def st1_def PruneAcceptedBoundariesThrough_def)
  have "SeedIdsFromJournalRecords tp J g st =
     (if \<not> recovery_state_valid st2 \<or> (g = 0 \<and> journal_path st2) then
        (recovery_state_valid st2, InvalidateFinalizationCoverage (\<not> recovery_state_valid st2) (st2\<lparr>journal_state_generation := 0\<rparr>))
      else
        let st3 = st2\<lparr>journal_state_generation := g\<rparr>;
            st3 = (if g \<noteq> 0 then st3\<lparr>coverage_trust := CoverageTrusted, coverage_generation := g\<rparr>
                   else InvalidateFinalizationCoverage False st3)
        in (True, SeedCheckpointPinCensus tp J g st3))"
  proof -
    have nx: "next_transaction_id (PruneAcceptedBoundariesThrough c st1) = next_transaction_id st"
       "next_sequence (PruneAcceptedBoundariesThrough c st1) = next_sequence st" "cleanup_sequence st1 = recovered_cleanup ?s" for c
      by (simp_all add: st1_def PruneAcceptedBoundariesThrough_def)
    have vv: "(recovered_state_valid ?s \<and> spool_requirements ?s = [] \<and>
        recovered_cleanup ?s \<le> recovered_durable ?s \<and> recovered_durable ?s \<le> recovered_accepted ?s \<and>
        t - 1 \<noteq> u64_max \<and> max_sequence ?s \<noteq> u64_max) = True"
      using o q mt b by simp
    show ?thesis
      unfolding SeedIdsFromJournalRecords_def Let_def idle vv o(7) simp_thms st1_def [symmetric] nx q(2) t nt ns st2_def [symmetric]
      using valid by simp
  qed
  with S v2 have "core st' = core st2 \<and> ok = (\<not> journal_append_ambiguous st)"
    by (auto simp: Let_def core_simps split: if_splits)
  then show "core st' = core (seeded tp J t st)" "ok = (\<not> journal_append_ambiguous st)" using c2 by simp_all
qed

lemma SeedExisting_result:
  assumes J: "list_all (loggable (tx_wal tp) (journal_identity tp st)) J" "n \<le> length (log_bytes (tx_wal tp) J)"
      "journal st = take n (log_bytes (tx_wal tp) J)"
    and P: "P = complete_frames (tx_wal tp) n J" and i: "log_inv tp P [] t K acc"
    and st: "tx_state st = TxIdle" "journal_path st"
    and b: "t \<le> u64_max" "max_sequence (seed_records tp P) < u64_max"
      "next_transaction_id st \<le> t" "next_sequence st \<le> Suc (max_sequence (seed_records tp P))"
    and S: "SeedIdsFromExistingJournal tp io st = (ok, st')"
  shows "if ok then core st' = core (seeded tp P t (st\<lparr>journal := log_bytes (tx_wal tp) P\<rparr>)) \<and> \<not> journal_append_ambiguous st
     else \<not> recovery_state_valid st' \<and> journal_path st' = journal_path st \<and> volume_identity st' = volume_identity st \<and>
       safety_level st' = safety_level st"
    and "lease_acquired io \<Longrightarrow> namespace_settled (journal_read io) \<Longrightarrow> \<not> read_failed (journal_read io) \<Longrightarrow>
       truncate_ok (journal_read io) \<Longrightarrow> n \<le> u64_max \<Longrightarrow> \<not> journal_append_ambiguous st \<Longrightarrow> ok"
proof -
  obtain res bytes where r: "ReadAllWithExclusiveWriterLease (tx_wal tp) (lease_acquired io) (journal_read io)
      (journal_identity tp st) default_limits (take n (log_bytes (tx_wal tp) J)) = (res, bytes)"
    by (rule prod.exhaust)
  note R = read_cut [OF J(1,2) r, folded P]
  have lose: "volume_identity (lose_journal x) = volume_identity x" "safety_level (lose_journal x) = safety_level x"
     "journal_path (lose_journal x) = journal_path x" "\<not> recovery_state_valid (lose_journal x)" for x
    by (simp_all add: lose_journal_def InvalidateFinalizationCoverage_def InvalidateCheckpointPinCensus_def Let_def)
  let ?st = "st\<lparr>journal := log_bytes (tx_wal tp) P\<rparr>"
  have e: "SeedIdsFromExistingJournal tp io st =
     (if read_status res \<noteq> ReadOk then (False, lose_journal (st\<lparr>journal := bytes\<rparr>))
      else SeedIdsFromJournalRecords tp P (lease_read io) ?st)"
    using R(1) st log_inv_valid [OF i] unfolding SeedIdsFromExistingJournal_def J(3) r by auto
  obtain ok' st'' where s: "SeedIdsFromJournalRecords tp P (lease_read io) ?st = (ok', st'')" by (rule prod.exhaust)
  note q = Seed_result [OF i _ b(1,2) _ _ s]
  have q: "core st'' = core (seeded tp P t ?st)" "ok' = (\<not> journal_append_ambiguous st)"
    using q st b by simp_all
  have f: "\<not> recovery_state_valid (seeded tp P t ?st)" "journal_path (seeded tp P t ?st) = journal_path st"
    "volume_identity (seeded tp P t ?st) = volume_identity st" "safety_level (seeded tp P t ?st) = safety_level st"
    if "journal_append_ambiguous st" using that by (simp_all add: seeded_def)
  show "if ok then core st' = core (seeded tp P t ?st) \<and> \<not> journal_append_ambiguous st
     else \<not> recovery_state_valid st' \<and> journal_path st' = journal_path st \<and> volume_identity st' = volume_identity st \<and>
       safety_level st' = safety_level st"
    using S q f core_fields [OF q(1)] unfolding e s by (auto simp: lose split: if_splits)
  show ok if "lease_acquired io" "namespace_settled (journal_read io)" "\<not> read_failed (journal_read io)"
     "truncate_ok (journal_read io)" "n \<le> u64_max" "\<not> journal_append_ambiguous st"
    using S q R(2) that unfolding e s by (auto split: if_splits)
qed

text \<open>A manager whose state is the one of its log is unchanged by reading the log.\<close>

lemma seeded_holds:
  assumes "log_inv tp P [] t None acc" "list_all (loggable (tx_wal tp) (journal_identity tp st)) P"
    "tx_state st = TxIdle" "pending_mutations st = []" "buffered_records st = []" "journal st = log_bytes (tx_wal tp) P"
    "t \<le> u64_max" "max_sequence (seed_records tp P) < u64_max"
  shows "tx_holds tp acc [] (seeded tp P t st) P [] t"
  using assms by (simp add: tx_holds_def seeded_def journal_identity_def Suc_le_eq)

lemma holds_idle:
  assumes "tx_holds tp acc recorded st J F t" "tx_state st = TxIdle"
  shows "F = []" "buffered_records st = []" "pending_mutations st = []" "recorded = []" "t = next_transaction_id st"
  using tx_holdsD(6,7,18) [OF assms(1)] assms(2) by auto

lemma seeded_same:
  assumes H: "tx_holds tp acc recorded st J F t" and st: "tx_state st = TxIdle" "recovery_state_valid st" "\<not> journal_append_ambiguous st"
  shows "core (seeded tp J t st) = core st"
  using tx_holdsD(9,11-15) [OF H] holds_idle [OF H st(1)] st by (intro core_intro) (simp_all add: seeded_def)

lemma ensure_seeded_result:
  assumes H: "tx_holds tp acc recorded st J F t" and st: "tx_state st = TxIdle" "recovery_state_valid st" and cfg: "config_ok tp st"
    and e: "ensure_seeded tp io st = (ok, st')"
  shows "core st' = core st \<or> \<not> ok \<and> \<not> recovery_state_valid st' \<and> config_ok tp st'"
proof (cases "JournalStateMatchesWriterLease (lease_now io) st")
  case True
  then show ?thesis using e by (simp add: ensure_seeded_def)
next
  case False
  obtain ok' st'' where s: "SeedIdsFromExistingJournal tp io st = (ok', st'')" by (rule prod.exhaust)
  let ?n = "length (log_bytes (tx_wal tp) J)"
  note h = tx_holdsD [OF H] and d = holds_idle [OF H st(1)]
  have cf: "complete_frames (tx_wal tp) ?n J = J" by (rule complete_frames_all)
  have path: "journal_path st" using cfg by (simp add: config_ok_def)
  have ns: "next_sequence st = Suc (max_sequence (seed_records tp J))" using h(9) d by simp
  note R = SeedExisting_result(1) [OF h(2) order_refl _ cf [symmetric] h(5) [unfolded d(1)] st(1) path h(16) _ _ _ s]
  have R: "if ok' then core st'' = core (seeded tp J t (st\<lparr>journal := log_bytes (tx_wal tp) J\<rparr>)) \<and> \<not> journal_append_ambiguous st
     else \<not> recovery_state_valid st'' \<and> journal_path st'' = journal_path st \<and> volume_identity st'' = volume_identity st \<and>
       safety_level st'' = safety_level st"
    by (rule R) (use h(1,10) ns d in simp_all)
  have same: "st\<lparr>journal := log_bytes (tx_wal tp) J\<rparr> = st" using h(1) by simp
  show ?thesis
    using R e s False seeded_same [OF H st] config_ok_same [OF cfg] unfolding same
    by (auto simp: ensure_seeded_def split: if_splits)
qed

end
