(* ===== verification/TransactionSteps.thy ===== *)
theory TransactionSteps
  imports TransactionSeeding
begin

text \<open>
  Every operation of the manager keeps the invariant, whatever the outcome of its appends.
\<close>

lemma log_inv_boundaries:
  assumes "log_inv tp J F t K acc" "log_inv tp J' F' t' K' acc"
  shows "recovered_boundaries (seed_records tp J') = recovered_boundaries (seed_records tp J)"
  using log_inv_order(1) [OF assms(1)] log_inv_order(1) [OF assms(2)] by simp

lemma aborted_holds:
  assumes H: "tx_holds tp acc recorded st J F t" and st: "tx_state st \<noteq> TxIdle" and cfg: "config_ok tp st"
    and n: "Suc (max_sequence (seed_records tp J)) \<noteq> u64_max"
    and st1: "st1 = ClearBufferedPreparedRecords (st\<lparr>tx_state := TxFailed, next_sequence := Suc (max_sequence (seed_records tp J))\<rparr>)"
  shows "tx_holds tp acc [] (finish_transaction (persisted tp OutcomeAborted 0 st1)) (J @ [marker_of tp OutcomeAborted 0 st1]) [] (Suc t)"
    (is "tx_holds _ _ _ ?st _ _ _")
proof -
  let ?m = "marker_of tp OutcomeAborted 0 st1"
  note h = tx_holdsD [OF H]
  have t: "t = current_transaction_id st" "next_transaction_id st = Suc t" "t \<noteq> u64_max" using h(18) st by simp_all
  have lp: "length (pending_mutations st) = length recorded" using arg_cong [OF h(7), of length] by simp
  have le: "Suc (max_sequence (seed_records tp J)) \<le> u64_max" using h(9,10) by simp
  have f1: "current_transaction_id st1 = t" "next_sequence st1 = Suc (max_sequence (seed_records tp J))" "buffered_records st1 = []"
     "pending_mutations st1 = pending_mutations st" "journal_identity tp st1 = journal_identity tp st" "journal st1 = journal st"
     "config_ok tp st1"
    using cfg t by (simp_all add: st1 ClearBufferedPreparedRecords_def journal_identity_def config_ok_def)
  have mf: "wal_state ?m = Cleaned" "wal_flags ?m = kWalFlagAborted" "wal_sequence ?m = Suc (max_sequence (seed_records tp J))"
     "marker_record t (Suc (max_sequence (seed_records tp J))) ?m"
    using f1 n t log_inv_order(5) [OF h(5)] by (simp_all add: marker_of_def BuildTransactionMarkerLocked_def marker_record_def)
  have ml: "loggable (tx_wal tp) (journal_identity tp st) ?m"
    using marker_loggable [OF f1(7), of "next_sequence st1" 0 OutcomeAborted] f1 h(10,16,17) lp le by (simp add: marker_of_def)
  note A = log_inv_aborted [OF h(5) mf(4) mf(1,2), unfolded mf(3)]
  have bd: "recovered_boundaries (seed_records tp (J @ [?m])) = recovered_boundaries (seed_records tp J)"
    using A log_inv_boundaries [OF h(5)] by blast
  have fin: "tx_state ?st = TxIdle" "journal ?st = journal st @ log_bytes (tx_wal tp) [?m]"
     "buffered_records ?st = []" "pending_mutations ?st = []" "next_sequence ?st = Suc (Suc (max_sequence (seed_records tp J)))"
     "accepted_sequence ?st = accepted_sequence st" "apfs_durable_sequence ?st = apfs_durable_sequence st"
     "cleanup_sequence ?st = cleanup_sequence st" "highest_checkpointed_marker_sequence ?st = highest_checkpointed_marker_sequence st"
     "accepted_boundaries ?st = accepted_boundaries st"
     "next_transaction_id ?st = next_transaction_id st" "journal_identity tp ?st = journal_identity tp st"
    using f1 by (simp_all add: finish_transaction_def ClearBufferedPreparedRecords_def persisted_def journal_identity_def st1)
  show ?thesis
    unfolding tx_holds_def fin bd using A h(1,2,11-16) ml t n le by simp
qed

section \<open>Watermarks\<close>

lemma invalidated_inv:
  "config_ok tp st \<Longrightarrow> config_ok tp (InvalidateFinalizationCoverage True (st\<lparr>recovery_state_valid := False\<rparr>)) \<and>
     \<not> recovery_state_valid (InvalidateFinalizationCoverage True (st\<lparr>recovery_state_valid := False\<rparr>))"
  by (simp add: config_ok_def journal_identity_def InvalidateFinalizationCoverage_def InvalidateCheckpointPinCensus_def Let_def)

lemma AppendWatermark_result:
  assumes cfg: "config_ok tp st" and c: "compaction_files io \<noteq> FilesReplaced"
    and n: "0 < next_sequence st" "next_sequence st \<le> u64_max"
    and A: "AppendWatermarkLocked tp io w m st = (ok, st')"
  shows "(\<not> ok \<longrightarrow> st' = st \<or> config_ok tp st' \<and> \<not> recovery_state_valid st') \<and>
     (ok \<longrightarrow> next_sequence st \<noteq> u64_max \<and>
        core st' = core (st\<lparr>journal := journal st @ log_bytes (tx_wal tp) [watermark tp w m (next_sequence st) st],
                         next_sequence := Suc (next_sequence st)\<rparr>))"
proof (cases "\<not> recovery_state_valid st \<or> next_sequence st = u64_max \<or> \<not> JournalStateMatchesWriterLease (lease_now io) st")
  case True
  then show ?thesis using A cfg n invalidated_inv [OF cfg]
    by (auto simp: AppendWatermarkLocked_def AppendWalRecordWithCleanup_def config_ok_def Let_def split: if_splits)
next
  case False
  have path: "journal_path st" using cfg by (simp add: config_ok_def)
  let ?r = "watermark tp w m (next_sequence st) st"
  let ?put = "\<lambda>aio generation. AppendWithResult (tx_wal tp) (journal_options tp st) aio ?r True generation"
  have w: "(\<exists>b. ?put aio g (journal st) = (AppendBytesMayHavePersisted, b)) \<or>
       ?put aio g (journal st) \<in> {(AppendSucceeded, journal st @ log_bytes (tx_wal tp) [?r]), (AppendRejectedBeforeWrite, journal st)}" for aio g
    using path identity_not_empty
    by (intro Append_outcome) (auto simp: journal_options_def journal_identity_def watermark_def)
  define k where "k = (if cleanup_sequence st = u64_max then cleanup_sequence st else cleanup_sequence st + 1)"
  obtain ok1 compacted st1 where a: "append_or_compact tp io ?put k st = (ok1, compacted, st1)" by (rule prod_cases3)
  note B = append_and_settle [OF w c cfg a]
  have unfold: "AppendWatermarkLocked tp io w m st =
     (if \<not> ok1 then (False, st1)
      else case settle_append io st compacted st1 of (settled, st2) \<Rightarrow>
        if \<not> settled then (False, st2)
        else (True, AdvanceCheckpointPinCensusGeneration (journal_state_generation st) (lease_after io) compacted
              (st2\<lparr>next_sequence := add64 (next_sequence st) 1\<rparr>)))"
    using False path a n unfolding AppendWatermarkLocked_def AppendWalRecordWithCleanup_def Let_def k_def watermark_def
    by (auto simp: blank_record_def split: prod.splits)
  have n': "add64 (next_sequence st) 1 = Suc (next_sequence st)" using False n by (simp add: add64_def u64_max_def)
  obtain settled st2 where s: "settle_append io st compacted st1 = (settled, st2)" by (cases "settle_append io st compacted st1")
  show ?thesis
  proof (cases "ok1 \<and> settled")
    case True
    then have "core st2 = core (st\<lparr>journal := journal st @ log_bytes (tx_wal tp) [?r]\<rparr>)" using B s by simp
    from core_cong(2) [OF this] show ?thesis using True A s False n' unfolding unfold by (auto simp: core_simps)
  next
    case False
    then show ?thesis using B s A unfolding unfold by (auto split: if_splits)
  qed
qed

lemma watermark_holds:
  assumes H: "tx_holds tp acc recorded st J F t" and idle: "tx_state st = TxIdle" and cfg: "config_ok tp st"
    and n: "next_sequence st \<noteq> u64_max" and m: "m \<in> accepted_boundaries st" "m \<noteq> 0"
      "w = Checkpointed \<and> apfs_durable_sequence st \<le> m \<or>
       w = Cleaned \<and> cleanup_sequence st \<le> m \<and> m \<le> apfs_durable_sequence st"
    and st': "core st' = core (st\<lparr>journal := journal st @ log_bytes (tx_wal tp) [watermark tp w m (next_sequence st) st],
        next_sequence := Suc (next_sequence st),
        apfs_durable_sequence := (if w = Checkpointed then m else apfs_durable_sequence st),
        cleanup_sequence := (if w = Checkpointed then cleanup_sequence st else m),
        accepted_boundaries := (if w = Checkpointed then accepted_boundaries st else {b \<in> accepted_boundaries st. m < b})\<rparr>)"
  shows "\<exists>J'. tx_holds tp acc recorded st' J' F t"
proof -
  let ?r = "watermark tp w m (next_sequence st) st"
  note h = tx_holdsD [OF H] and d = holds_idle [OF H idle]
  have ns: "next_sequence st = Suc (max_sequence (seed_records tp J))" using h(9) d by simp
  have wr: "watermark_record w m (Suc (max_sequence (seed_records tp J))) ?r"
    using n ns by (simp add: watermark_record_def watermark_def blank_record_def)
  have mb: "m \<in> recovered_boundaries (seed_records tp J)" using m(1) h(15) by simp
  have mm: "w = Checkpointed \<and> recovered_durable (seed_records tp J) \<le> m \<or>
       w = Cleaned \<and> recovered_cleanup (seed_records tp J) \<le> m \<and> m \<le> recovered_durable (seed_records tp J)"
    using m(3) h(12,13) by simp
  note A = log_inv_watermark [OF h(5) [unfolded d(1)] wr mb m(2) mm]
  have ws: "wal_sequence ?r = next_sequence st" by (simp add: watermark_def)
  have bd: "recovered_boundaries (seed_records tp (J @ [?r])) = recovered_boundaries (seed_records tp J)"
    using A log_inv_boundaries [OF h(5)] by blast
  have "m \<le> recovered_accepted (seed_records tp J)"
    using mb h(5) log_inv_order(1) [OF h(5)] by (auto simp: log_inv_def log_seed_def list_all_iff)
  then have mu: "m \<le> u64_max" using log_inv_order(4) [OF h(5)] ns h(10) by linarith
  have wl: "loggable (tx_wal tp) (journal_identity tp st) ?r"
    using m(3) by (intro watermark_loggable [OF cfg mu h(10)]) auto
  have ds: "b \<in> recovered_boundaries (seed_records tp J) \<and> cleanup_sequence st < b \<and> m < b \<longleftrightarrow>
      b \<in> recovered_boundaries (seed_records tp J) \<and> m < b" if "w \<noteq> Checkpointed" for b
    using m(3) that by auto
  note q = core_fields [OF st', simplified]
  have ji: "journal_identity tp st' = journal_identity tp st" using q by (simp add: journal_identity_def)
  have "tx_holds tp acc recorded st' (J @ [?r]) F t"
    unfolding tx_holds_def q ji bd
    using A h(1-8,11-18) wl idle d n ns ws le_neq_implies_less [OF h(10) n] ds
    by (auto simp: Suc_le_eq)
  then show ?thesis by blast
qed

section \<open>Recording and flushing\<close>

lemma Flush_result:
  assumes cfg: "config_ok tp st"
    and ids: "list_all (\<lambda>r. wal_volume_identity r = journal_identity tp st) (buffered_records st)"
    and c: "compaction_files io \<noteq> FilesReplaced"
    and P: "FlushPreparedRecords tp io st = (ok, st')"
  shows "(\<not> ok \<longrightarrow> st' = st \<or> config_ok tp st' \<and> \<not> recovery_state_valid st') \<and>
     (ok \<longrightarrow> list_all flushable (pending_mutations st) \<and>
        core st' = core (st\<lparr>journal := journal st @ log_bytes (tx_wal tp) (buffered_records st), buffered_records := []\<rparr>))"
proof (cases "\<not> list_all flushable (pending_mutations st) \<or> \<not> recovery_state_valid st \<or> buffered_records st = [] \<or>
    \<not> JournalStateMatchesWriterLease (lease_now io) st \<or> \<not> buffered_sequences_ok st")
  case True
  then show ?thesis using P cfg invalidated_inv [OF cfg]
    by (auto simp: FlushPreparedRecords_def config_ok_def core_def Let_def split: if_splits)
next
  case False
  have path: "journal_path st" using cfg by (simp add: config_ok_def)
  have b: "buffered_for_append tp st = buffered_records st"
    using ids identity_not_empty by (auto simp: buffered_for_append_def list_all_iff journal_identity_def intro!: map_idI)
  let ?rs = "buffered_records st"
  let ?put = "\<lambda>aio generation. AppendBatchWithResult (tx_wal tp) (journal_options tp st) aio ?rs True generation"
  have w: "(\<exists>b. ?put aio g (journal st) = (AppendBytesMayHavePersisted, b)) \<or>
       ?put aio g (journal st) \<in> {(AppendSucceeded, journal st @ log_bytes (tx_wal tp) ?rs), (AppendRejectedBeforeWrite, journal st)}" for aio g
    using ids path False identity_not_empty
    by (intro AppendBatch_outcome) (auto simp: journal_options_def journal_identity_def)
  define k where "k = (if pending_mutations st = [] then wal_sequence (hd (buffered_records st))
     else mutation_wal_sequence (hd (pending_mutations st)))"
  obtain ok1 compacted st1 where a: "append_or_compact tp io ?put k st = (ok1, compacted, st1)" by (rule prod_cases3)
  note A = append_and_settle [OF w c cfg a]
  have unfold: "FlushPreparedRecords tp io st =
     (if \<not> ok1 then (False, st1)
      else case settle_append io st compacted st1 of (settled, st2) \<Rightarrow>
        if \<not> settled then (False, st2)
        else (True, ClearBufferedPreparedRecords
           (AdvanceCheckpointPinCensusGeneration (journal_state_generation st) (lease_after io) compacted st2)))"
    using False path a unfolding FlushPreparedRecords_def Let_def b k_def by (auto split: prod.splits)
  obtain settled st2 where s: "settle_append io st compacted st1 = (settled, st2)" by (cases "settle_append io st compacted st1")
  show ?thesis
  proof (cases "ok1 \<and> settled")
    case True
    then have "core (AdvanceCheckpointPinCensusGeneration (journal_state_generation st) (lease_after io) compacted st2) =
       core (st\<lparr>journal := journal st @ log_bytes (tx_wal tp) ?rs\<rparr>)" using A s by (simp add: core_simps)
    from core_cong(1) [OF this] show ?thesis using True P s False unfolding unfold by auto
  next
    case False
    then show ?thesis using A s P unfolding unfold by (auto split: if_splits)
  qed
qed

lemma flushed_holds:
  assumes H: "tx_holds tp acc recorded st J F t" and f: "list_all flushable (pending_mutations st)"
    and st': "core st' = core (st\<lparr>journal := journal st @ log_bytes (tx_wal tp) (buffered_records st), buffered_records := []\<rparr>)"
  shows "tx_holds tp acc recorded st' (J @ buffered_records st) recorded t"
proof -
  note h = tx_holdsD [OF H]
  have "list_all (\<lambda>op. \<not> List.member native_operations op) (map (ToWalOperation \<circ> mutation_kind) (pending_mutations st))"
    using f by (simp add: list_all_iff flushable_def)
  then have "list_all (\<lambda>r. \<not> List.member native_operations (wal_operation r)) recorded"
    unfolding h(7) by (simp add: list_all_iff)
  then have nn: "list_all (\<lambda>r. \<not> List.member native_operations (wal_operation r)) (buffered_records st)" using h(6) by simp
  note A = log_inv_prepared_list [OF h(5,8) nn, folded h(6)]
  have bd: "recovered_boundaries (seed_records tp (J @ buffered_records st)) = recovered_boundaries (seed_records tp J)"
    using A log_inv_boundaries [OF h(5)] by blast
  note q = core_fields [OF st', simplified]
  have ji: "journal_identity tp st' = journal_identity tp st" using q by (simp add: journal_identity_def)
  show ?thesis
    unfolding tx_holds_def q ji bd using A h(1-3,7,9-18) by simp
qed

lemma ToWalOperation_mutation: "IsMutationOperation (ToWalOperation k)"
  by (cases k) (simp_all add: IsMutationOperation_def)

lemma recorded_holds:
  assumes H: "tx_holds tp acc recorded st J F t" and st: "tx_state st = TxActive" and path: "journal_path st"
    and a: "AppendPreparedMutationLocked tp m st = Some (m', st1)"
    and r: "r = mutation_record tp (m\<lparr>mutation_wal_sequence := next_sequence st\<rparr>) st"
    and l: "loggable (tx_wal tp) (journal_identity tp st) r"
    and st': "core st' = core (st1\<lparr>pending_mutations := pending_mutations st1 @ [m']\<rparr>)"
  shows "tx_holds tp acc (recorded @ [r]) st' J F t" "recovery_state_valid st' = recovery_state_valid st"
    "journal_path st' = journal_path st" "volume_identity st' = volume_identity st" "safety_level st' = safety_level st"
proof -
  note h = tx_holdsD [OF H]
  have t: "t = current_transaction_id st" "next_transaction_id st = Suc t" "t \<noteq> u64_max" "tx_state st \<noteq> TxIdle"
    using h(18) st by simp_all
  have eq: "m\<lparr>mutation_wal_sequence := next_sequence st\<rparr> = m" if "mutation_wal_sequence m = next_sequence st"
    using that by (cases m) simp
  have g: "next_sequence st \<noteq> u64_max" "m' = (m\<lparr>mutation_wal_sequence := next_sequence st\<rparr>)\<lparr>mutation_inline_payload := []\<rparr>"
     "st1 = buffer_record (tx_wal tp) r st"
    using a path unfolding r by (auto simp: AppendPreparedMutationLocked_def Let_def eq split: if_splits)
  have n': "add64 (next_sequence st) 1 = Suc (next_sequence st)" using g(1) h(10) by (simp add: add64_def u64_max_def)
  have lt: "Suc (next_sequence st) \<le> u64_max" using g(1) h(10) by simp
  have rf: "wal_volume_identity r = journal_identity tp st" "wal_operation r = ToWalOperation (mutation_kind m')"
     "prepared_record t (next_sequence st) r"
    using t g log_inv_order(5) [OF h(5)] ToWalOperation_mutation
    by (simp_all add: r mutation_record_def validation_record_def prepared_record_def)
  have pf: "prepared_from t (Suc (max_sequence (seed_records tp J))) (buffered_records st @ [r])"
    using rf(3) h(8,9) by (simp add: prepared_from_append)
  note q = core_fields [OF st', unfolded g(3) buffer_record_def, simplified]
  have ji: "journal_identity tp st' = journal_identity tp st" using q by (simp add: journal_identity_def)
  show "tx_holds tp acc (recorded @ [r]) st' J F t"
    unfolding tx_holds_def q ji n' [unfolded One_nat_def] using h(1-7,9-18) pf lt l rf(1,2) t by simp
  show "recovery_state_valid st' = recovery_state_valid st" "journal_path st' = journal_path st"
    "volume_identity st' = volume_identity st" "safety_level st' = safety_level st"
    using q by simp_all
qed

lemma begun_holds:
  assumes H: "tx_holds tp acc recorded st J F t" and idle: "tx_state st = TxIdle" and n: "next_transaction_id st \<noteq> u64_max"
    and st': "st' = (ClearBufferedPreparedRecords st)\<lparr>current_transaction_id := next_transaction_id st,
        next_transaction_id := add64 (next_transaction_id st) 1, pending_mutations := [],
        transaction_requires_spool_flush := False, tx_state := TxActive\<rparr>"
  shows "tx_holds tp acc [] st' J [] t"
proof -
  note h = tx_holdsD [OF H] and d = holds_idle [OF H idle]
  have n': "add64 t 1 = Suc t" using n d h(16) by (simp add: add64_def u64_max_def)
  have ji: "journal_identity tp st' = journal_identity tp st" by (simp add: st' journal_identity_def ClearBufferedPreparedRecords_def)
  show ?thesis
    unfolding tx_holds_def ji using h d n n' by (simp add: st' ClearBufferedPreparedRecords_def)
qed

section \<open>Every operation keeps the invariant\<close>

definition accepted_now :: "nat \<Rightarrow> WalRecord list \<Rightarrow> TxManager \<Rightarrow> AcceptedTransaction" where
  "accepted_now xid recorded st =
     \<lparr>at_transaction_id = current_transaction_id st, at_accepted_sequence = next_sequence st, at_mutations = recorded,
      at_preimage_checkpoint_xid = xid\<rparr>"

lemma tx_invI: "config_ok tp st \<Longrightarrow> tx_holds tp acc recorded st J F t \<Longrightarrow> tx_inv tp acc recorded st"
  by (auto simp: tx_inv_def)

lemma tx_invE:
  assumes "tx_inv tp acc recorded st" "recovery_state_valid st"
  obtains J F t where "tx_holds tp acc recorded st J F t"
  using assms by (auto simp: tx_inv_def)

lemma tx_inv_config: "tx_inv tp acc recorded st \<Longrightarrow> config_ok tp st"
  by (simp add: tx_inv_def)

lemma holds_state:
  assumes "tx_state st \<noteq> TxIdle" "x \<noteq> TxIdle"
  shows "tx_holds tp acc recorded (st\<lparr>tx_state := x\<rparr>) J F t = tx_holds tp acc recorded st J F t"
  using assms by (simp add: tx_holds_def journal_identity_def)

lemma config_ok_fields:
  "config_ok tp (st\<lparr>tx_state := x\<rparr>) = config_ok tp st" "config_ok tp (finish_transaction st) = config_ok tp st"
  "config_ok tp (persisted tp' outcome xid st) = config_ok tp st"
  by (simp_all add: config_ok_def journal_identity_def finish_transaction_def ClearBufferedPreparedRecords_def persisted_def Let_def)

lemma config_ok_core: "core st = core st' \<Longrightarrow> config_ok tp st = config_ok tp st'"
  by (simp add: core_def config_ok_def journal_identity_def)

lemma accept_common:
  assumes inv: "tx_inv tp acc recorded st" and st: "recovery_state_valid st" "tx_state st = TxActive" "pending_mutations st \<noteq> []"
    and c: "compaction_files io \<noteq> FilesReplaced" and xid: "xid \<le> u64_max"
    and P: "PersistTransactionBatchLocked tp io OutcomeAccepted d xid (st\<lparr>tx_state := TxCommitting\<rparr>) = (ok, st1)"
  shows "if ok then tx_inv tp (acc @ [accepted_now xid recorded st]) [] (finish_transaction st1)
     else tx_inv tp acc recorded (st1\<lparr>tx_state := TxFailed\<rparr>)"
proof -
  let ?st = "st\<lparr>tx_state := TxCommitting\<rparr>"
  obtain J F t where H: "tx_holds tp acc recorded st J F t" using inv st(1) by (rule tx_invE)
  have H': "tx_holds tp acc recorded ?st J F t" using H st holds_state by simp
  have cfg: "config_ok tp ?st" using tx_inv_config [OF inv] by (simp add: config_ok_fields)
  note h = tx_holdsD [OF H']
  note R = Persist_result [OF cfg h(4) c _ h(10) P]
  show ?thesis
  proof (cases ok)
    case True
    then have c1: "core st1 = core (persisted tp OutcomeAccepted xid ?st)" "next_sequence ?st \<noteq> u64_max"
      "list_all (native_proof_ok tp xid ?st) (pending_mutations ?st)" using R by simp_all
    have "tx_holds tp (acc @ [accepted_now xid recorded st]) [] (finish_transaction (persisted tp OutcomeAccepted xid ?st))
       (J @ buffered_records ?st @ [marker_of tp OutcomeAccepted xid ?st]) [] (Suc t)"
      using accepted_holds [OF H' _ cfg _ c1(3,2) xid] st by (simp add: accepted_now_def)
    then have "tx_inv tp (acc @ [accepted_now xid recorded st]) [] (finish_transaction (persisted tp OutcomeAccepted xid ?st))"
      using cfg by (intro tx_invI) (simp_all add: config_ok_fields)
    then show ?thesis using True tx_inv_core [OF core_cong(4) [OF c1(1)]] by simp
  next
    case False
    then have "st1 = ?st \<or> config_ok tp st1 \<and> \<not> recovery_state_valid st1" using R by simp
    moreover have "tx_inv tp acc recorded (st\<lparr>tx_state := TxFailed\<rparr>)"
      using H holds_state [of st TxFailed] st cfg by (intro tx_invI) (simp_all add: config_ok_fields)
    moreover have "tx_inv tp acc recorded (st1\<lparr>tx_state := TxFailed\<rparr>)" if "config_ok tp st1" "\<not> recovery_state_valid st1"
      using that by (intro tx_inv_invalid) (simp_all add: config_ok_fields)
    ultimately show ?thesis using False by auto
  qed
qed

lemma Accept_inv:
  assumes inv: "tx_inv tp acc recorded st" and c: "compaction_files io \<noteq> FilesReplaced" and xid: "xid \<le> u64_max"
    and A: "Accept tp io xid st = (ok, st')"
  shows "tx_inv tp (if ok then acc @ [accepted_now xid recorded st] else acc) (if ok then [] else recorded) st'"
proof (cases "\<not> recovery_state_valid st \<or> tx_state st \<noteq> TxActive \<or> pending_mutations st = []")
  case True
  then show ?thesis using A inv by (auto simp: Accept_def)
next
  case False
  obtain p st1 where P: "PersistTransactionBatchLocked tp io OutcomeAccepted True xid (st\<lparr>tx_state := TxCommitting\<rparr>) = (p, st1)"
    by (rule prod.exhaust)
  show ?thesis using accept_common [OF inv _ _ _ c xid P] False A P by (auto simp: Accept_def split: if_splits)
qed

lemma core_deferred [core_simps]:
  "core (st\<lparr>deferred_wal_pending_sequence := n\<rparr>) = core st" "core (st\<lparr>deferred_wal_durable_sequence := n\<rparr>) = core st"
  "core (st\<lparr>deferred_wal_flush_failed := b\<rparr>) = core st"
  by (simp_all add: core_def)

lemma AcceptForDeferredCommit_inv:
  assumes inv: "tx_inv tp acc recorded st" and c: "compaction_files io \<noteq> FilesReplaced" and xid: "xid \<le> u64_max"
    and A: "AcceptForDeferredCommit tp io xid st = (ok, st')"
  shows "tx_inv tp (if ok \<noteq> None then acc @ [accepted_now xid recorded st] else acc) (if ok \<noteq> None then [] else recorded) st'"
proof (cases "\<not> recovery_state_valid st \<or> tx_state st \<noteq> TxActive \<or> pending_mutations st = []")
  case True
  then show ?thesis using A inv by (auto simp: AcceptForDeferredCommit_def)
next
  case False
  obtain p st1 where P: "PersistTransactionBatchLocked tp io OutcomeAccepted False xid (st\<lparr>tx_state := TxCommitting\<rparr>) = (p, st1)"
    by (rule prod.exhaust)
  show ?thesis using accept_common [OF inv _ _ _ c xid P] False A P tx_inv_core [OF core_deferred(1)]
    by (auto simp: AcceptForDeferredCommit_def split: if_splits)
qed

lemma Abort_inv:
  assumes inv: "tx_inv tp acc recorded st" and c: "compaction_files io \<noteq> FilesReplaced" and A: "Abort tp io st = (ok, st')"
  shows "tx_inv tp acc (if ok then [] else recorded) st'"
proof (cases "\<not> recovery_state_valid st \<or> tx_state st = TxIdle \<or> journal_append_ambiguous st")
  case True
  have "tx_inv tp acc recorded (st\<lparr>tx_state := TxFailed\<rparr>)" if "\<not> recovery_state_valid st \<or> tx_state st \<noteq> TxIdle"
    using inv that holds_state [of st TxFailed] by (auto simp: tx_inv_def config_ok_fields)
  moreover have "recorded = []" if "tx_state st = TxIdle" "recovery_state_valid st"
    using inv that holds_idle(4) by (auto simp: tx_inv_def)
  ultimately show ?thesis using A True inv by (auto simp: Abort_def split: if_splits)
next
  case False
  obtain J F t where H: "tx_holds tp acc recorded st J F t" using inv False by (auto elim: tx_invE)
  note h = tx_holdsD [OF H]
  let ?n = "Suc (max_sequence (seed_records tp J))"
  have n: "(if buffered_records st = [] then next_sequence st else wal_sequence (hd (buffered_records st))) = ?n"
    using h(8,9) by (cases "buffered_records st") (auto simp: prepared_record_def)
  define st1 where "st1 = ClearBufferedPreparedRecords (st\<lparr>tx_state := TxFailed, next_sequence := ?n\<rparr>)"
  have cfg: "config_ok tp st1" using tx_inv_config [OF inv]
    by (simp add: st1_def config_ok_def journal_identity_def ClearBufferedPreparedRecords_def)
  obtain p st2 where P: "PersistTransactionBatchLocked tp io OutcomeAborted True 0 st1 = (p, st2)" by (rule prod.exhaust)
  have e: "Abort tp io st = (if \<not> p then (False, st2) else (True, finish_transaction st2))"
    using False P unfolding Abort_def n st1_def Let_def by simp
  have f: "list_all (\<lambda>r. wal_volume_identity r = journal_identity tp st1) (buffered_records st1)" "next_sequence st1 = ?n"
     "next_sequence st1 \<le> u64_max"
    using h(9,10) by (simp_all add: st1_def ClearBufferedPreparedRecords_def)
  note R = Persist_result [OF cfg f(1) c _ f(3) P]
  show ?thesis
  proof (cases p)
    case True
    then have c2: "core st2 = core (persisted tp OutcomeAborted 0 st1)" "?n \<noteq> u64_max" using R f(2) by simp_all
    have "tx_inv tp acc [] (finish_transaction (persisted tp OutcomeAborted 0 st1))"
      using aborted_holds [OF H _ tx_inv_config [OF inv] c2(2) st1_def] False cfg
      by (intro tx_invI) (simp_all add: config_ok_fields)
    then show ?thesis using True A e tx_inv_core [OF core_cong(4) [OF c2(1)]] by simp
  next
    case np: False
    show ?thesis
    proof (cases "buffered_records st = []")
      case True
      then have "core st1 = core (st\<lparr>tx_state := TxFailed\<rparr>)" using h(9) by (simp add: core_def st1_def ClearBufferedPreparedRecords_def)
      then have "tx_inv tp acc recorded st1"
        using tx_inv_core [of st1] inv False holds_state [of st TxFailed] by (simp add: tx_inv_def config_ok_fields)
      then show ?thesis using np A e R tx_inv_invalid by auto
    next
      case bf: False
      then obtain r rs where "buffered_records st = r # rs" by (cases "buffered_records st") auto
      then have "?n \<noteq> u64_max" using h(8) by (auto simp: prepared_record_def)
      moreover have "buffered_sequences_ok st1" by (simp add: st1_def buffered_sequences_ok_def ClearBufferedPreparedRecords_def)
      ultimately have "config_ok tp st2 \<and> \<not> recovery_state_valid st2" using R np f(2) by auto
      then show ?thesis using np A e R tx_inv_invalid by auto
    qed
  qed
qed

lemma Begin_inv:
  assumes inv: "tx_inv tp acc recorded st" and B: "Begin tp io st = (ok, st')"
  shows "tx_inv tp acc recorded st'"
proof (cases "\<not> recovery_state_valid st \<or> tx_state st \<noteq> TxIdle \<or> next_transaction_id st = 0 \<or> next_transaction_id st = u64_max")
  case True
  then show ?thesis using B inv by (auto simp: Begin_def)
next
  case False
  obtain J F t where H: "tx_holds tp acc recorded st J F t" using inv False by (auto elim: tx_invE)
  obtain sd st1 where e: "ensure_seeded tp io st = (sd, st1)" by (rule prod.exhaust)
  have R: "core st1 = core st \<or> \<not> sd \<and> \<not> recovery_state_valid st1 \<and> config_ok tp st1"
    using ensure_seeded_result [OF H _ _ tx_inv_config [OF inv] e] False by blast
  show ?thesis
  proof (cases sd)
    case True
    then have c: "core st1 = core st" using R by blast
    have H1: "tx_holds tp acc recorded st1 J F t" using H tx_holds_core [OF c] by simp
    note q = core_fields [OF c]
    have cfg: "config_ok tp st1" using config_ok_core [OF c] tx_inv_config [OF inv] by simp
    have i1: "tx_state st1 = TxIdle" "next_transaction_id st1 \<noteq> u64_max" using q False by simp_all
    have st': "st' = (ClearBufferedPreparedRecords st1)\<lparr>current_transaction_id := next_transaction_id st1,
        next_transaction_id := add64 (next_transaction_id st1) 1, pending_mutations := [],
        transaction_requires_spool_flush := False, tx_state := TxActive\<rparr>"
      using B False True e by (auto simp: Begin_def)
    have "config_ok tp st'" using cfg by (simp add: st' config_ok_def journal_identity_def ClearBufferedPreparedRecords_def)
    then show ?thesis using begun_holds [OF H1 i1 st'] holds_idle(4) [OF H1 i1(1)] by (auto intro: tx_invI)
  next
    case nsd: False
    then have "st' = st1" using B False e by (auto simp: Begin_def)
    then show ?thesis using R inv tx_inv_core [of st1 st] tx_inv_invalid by auto
  qed
qed

lemma RecordMutation_inv:
  assumes inv: "tx_inv tp acc recorded st" and B: "RecordMutation tp io m st = (ok, st')"
    and r: "r = mutation_record tp (m\<lparr>mutation_wal_sequence := next_sequence st\<rparr>) st"
    and l: "ok \<longrightarrow> loggable (tx_wal tp) (journal_identity tp st) r"
  shows "tx_inv tp acc (if ok then recorded @ [r] else recorded) st'"
proof (cases ok)
  case True
  then have st: "recovery_state_valid st" "tx_state st = TxActive"
    using B by (auto simp: RecordMutation_def split: if_splits)
  obtain m' st1 where a: "AppendPreparedMutationLocked tp m st = Some (m', st1)"
     and st': "st' = st1\<lparr>pending_mutations := pending_mutations st1 @ [m']\<rparr>"
    using B True by (auto simp: RecordMutation_def split: if_splits option.splits)
  obtain J F t where H: "tx_holds tp acc recorded st J F t" using inv st by (auto elim: tx_invE)
  have path: "journal_path st" using tx_inv_config [OF inv] by (simp add: config_ok_def)
  note R = recorded_holds [OF H st(2) path a r _ arg_cong [OF st', of core]]
  have "config_ok tp st'" using tx_inv_config [OF inv] R(3-5) l True config_ok_same by blast
  then show ?thesis using R(1) l True by (auto intro: tx_invI)
next
  case False
  then have "st' = st \<or> st' = InvalidateFinalizationCoverage True (st\<lparr>recovery_state_valid := False\<rparr>)"
    using B by (auto simp: RecordMutation_def split: if_splits option.splits)
  then show ?thesis
    using inv False invalidated_inv [OF tx_inv_config [OF inv]] by (auto intro: tx_inv_invalid)
qed

lemma FlushPreparedRecords_inv:
  assumes inv: "tx_inv tp acc recorded st" and c: "compaction_files io \<noteq> FilesReplaced"
    and B: "FlushPreparedRecords tp io st = (ok, st')"
  shows "tx_inv tp acc recorded st'"
proof (cases "recovery_state_valid st")
  case True
  then obtain J F t where H: "tx_holds tp acc recorded st J F t" using inv by (auto elim: tx_invE)
  note R = Flush_result [OF tx_inv_config [OF inv] tx_holdsD(4) [OF H] c B]
  show ?thesis
  proof (cases ok)
    case True
    then have c': "list_all flushable (pending_mutations st)"
      "core st' = core (st\<lparr>journal := journal st @ log_bytes (tx_wal tp) (buffered_records st), buffered_records := []\<rparr>)"
      using R by simp_all
    have "config_ok tp st'" using config_ok_core [OF c'(2)] tx_inv_config [OF inv] by (simp add: config_ok_def journal_identity_def)
    then show ?thesis using flushed_holds [OF H c'] by (rule tx_invI)
  next
    case False
    then show ?thesis using R inv by (auto intro: tx_inv_invalid)
  qed
next
  case False
  then have "st' = st" using B by (auto simp: FlushPreparedRecords_def split: if_splits)
  then show ?thesis using inv by simp
qed

lemma EnsureDeferred_core: "core (snd (EnsureDeferredAcceptanceDurability io n st)) = core st"
  by (simp add: EnsureDeferredAcceptanceDurability_def core_simps)

lemma MarkDeferred_inv: "config_ok tp st \<Longrightarrow> tx_inv tp acc recorded (MarkDeferredAcceptanceDurabilityFailure st)"
  by (intro tx_inv_invalid)
     (simp_all add: MarkDeferredAcceptanceDurabilityFailure_def config_ok_def journal_identity_def
        InvalidateFinalizationCoverage_def InvalidateCheckpointPinCensus_def Let_def)

text \<open>The two watermark operations, from the point where they have a boundary to write.\<close>

lemma watermark_step:
  assumes H: "tx_holds tp acc recorded st J F t" and cfg: "config_ok tp st" and idle: "tx_state st = TxIdle"
    and c: "compaction_files io \<noteq> FilesReplaced"
    and m: "m \<in> accepted_boundaries st"
      "w = Checkpointed \<and> apfs_durable_sequence st < m \<or>
       w = Cleaned \<and> cleanup_sequence st < m \<and> m \<le> apfs_durable_sequence st"
    and A: "AppendWatermarkLocked tp io w m st = (ok, st1)"
    and st': "core st' = core (st1\<lparr>
        apfs_durable_sequence := (if w = Checkpointed then m else apfs_durable_sequence st1),
        cleanup_sequence := (if w = Checkpointed then cleanup_sequence st1 else m),
        accepted_boundaries := (if w = Checkpointed then accepted_boundaries st1 else {b \<in> accepted_boundaries st1. m < b})\<rparr>)"
  shows "tx_inv tp acc recorded (if ok then st' else st1)"
proof -
  note h = tx_holdsD [OF H]
  have n: "0 < next_sequence st" using h(9) by simp
  note R = AppendWatermark_result [OF cfg c n h(10) A]
  show ?thesis
  proof (cases ok)
    case True
    then have n': "next_sequence st \<noteq> u64_max"
      and c1: "core st1 = core (st\<lparr>journal := journal st @ log_bytes (tx_wal tp) [watermark tp w m (next_sequence st) st],
                         next_sequence := Suc (next_sequence st)\<rparr>)" using R by simp_all
    note q = core_fields [OF c1, simplified]
    have m': "m \<noteq> 0" "w = Checkpointed \<and> apfs_durable_sequence st \<le> m \<or>
       w = Cleaned \<and> cleanup_sequence st \<le> m \<and> m \<le> apfs_durable_sequence st" using m(2) by auto
    have c': "core st' = core (st\<lparr>journal := journal st @ log_bytes (tx_wal tp) [watermark tp w m (next_sequence st) st],
        next_sequence := Suc (next_sequence st),
        apfs_durable_sequence := (if w = Checkpointed then m else apfs_durable_sequence st),
        cleanup_sequence := (if w = Checkpointed then cleanup_sequence st else m),
        accepted_boundaries := (if w = Checkpointed then accepted_boundaries st else {b \<in> accepted_boundaries st. m < b})\<rparr>)"
      unfolding st' by (rule core_intro) (simp_all add: q)
    have "config_ok tp st'" using config_ok_core [OF c'] cfg by (simp add: config_ok_def journal_identity_def)
    then show ?thesis using watermark_holds [OF H idle cfg n' m(1) m' c'] True by (auto intro: tx_invI)
  next
    case False
    then show ?thesis using R H cfg by (auto intro: tx_inv_invalid tx_invI)
  qed
qed

lemma MarkApfsDurableThrough_inv:
  assumes inv: "tx_inv tp acc recorded st" and c: "compaction_files io' \<noteq> FilesReplaced"
    and B: "MarkApfsDurableThrough tp io io' m st = (ok, st')"
  shows "tx_inv tp acc recorded st'"
proof (cases "\<not> recovery_state_valid st \<or> tx_state st \<noteq> TxIdle")
  case True
  then show ?thesis using B inv by (auto simp: MarkApfsDurableThrough_def)
next
  case False
  obtain J F t where H: "tx_holds tp acc recorded st J F t" using inv False by (auto elim: tx_invE)
  obtain sd st1 where e: "ensure_seeded tp io st = (sd, st1)" by (rule prod.exhaust)
  obtain fl st2 where d: "EnsureDeferredAcceptanceDurability io' m st1 = (fl, st2)" by (rule prod.exhaust)
  obtain ap st3 where a: "AppendWatermarkLocked tp io' Checkpointed m st2 = (ap, st3)" by (rule prod.exhaust)
  have R: "core st1 = core st \<or> \<not> sd \<and> \<not> recovery_state_valid st1 \<and> config_ok tp st1"
    using ensure_seeded_result [OF H _ _ tx_inv_config [OF inv] e] False by blast
  then have i1: "tx_inv tp acc recorded st1" using inv tx_inv_core [of st1 st] tx_inv_invalid by auto
  have c2: "core st2 = core st1" using EnsureDeferred_core [of io' m st1] d by simp
  note q = core_fields [OF c2]
  show ?thesis
  proof (cases "sd \<and> apfs_durable_sequence st1 < m \<and> m \<le> accepted_sequence st1 \<and> m \<in> accepted_boundaries st1 \<and> fl")
    case True
    then have c': "core st2 = core st" using R c2 by auto
    have H2: "tx_holds tp acc recorded st2 J F t" using H tx_holds_core [OF c'] by simp
    have "tx_inv tp acc recorded (if ap then st3\<lparr>apfs_durable_sequence := m, last_committed_sequence := m,
                        spool_flush_boundaries := (if m = accepted_sequence st3 then {}
                          else Set.filter (\<lambda>n. m < n) (spool_flush_boundaries st3))\<rparr> else st3)"
      using True q core_fields [OF c'] False config_ok_core [OF c'] tx_inv_config [OF inv]
      by (intro watermark_step [OF H2 _ _ c _ _ a]) (simp_all add: core_def)
    then show ?thesis using B False True e d a by (auto simp: MarkApfsDurableThrough_def split: if_splits)
  next
    case nt: False
    have "tx_inv tp acc recorded (MarkDeferredAcceptanceDurabilityFailure st2)"
      using config_ok_core [OF c2] tx_inv_config [OF i1] MarkDeferred_inv by simp
    then show ?thesis using B False nt e d a i1 by (auto simp: MarkApfsDurableThrough_def split: if_splits)
  qed
qed

lemma MarkCleanedThrough_inv:
  assumes inv: "tx_inv tp acc recorded st" and c: "compaction_files io' \<noteq> FilesReplaced"
    and B: "MarkCleanedThrough tp io io' m st = (ok, st')"
  shows "tx_inv tp acc recorded st'"
proof (cases "\<not> recovery_state_valid st \<or> tx_state st \<noteq> TxIdle")
  case True
  then show ?thesis using B inv by (auto simp: MarkCleanedThrough_def)
next
  case False
  obtain J F t where H: "tx_holds tp acc recorded st J F t" using inv False by (auto elim: tx_invE)
  obtain sd st1 where e: "ensure_seeded tp io st = (sd, st1)" by (rule prod.exhaust)
  obtain fl st2 where d: "EnsureDeferredAcceptanceDurability io' m st1 = (fl, st2)" by (rule prod.exhaust)
  obtain ap st3 where a: "AppendWatermarkLocked tp io' Cleaned m st2 = (ap, st3)" by (rule prod.exhaust)
  have R: "core st1 = core st \<or> \<not> sd \<and> \<not> recovery_state_valid st1 \<and> config_ok tp st1"
    using ensure_seeded_result [OF H _ _ tx_inv_config [OF inv] e] False by blast
  then have i1: "tx_inv tp acc recorded st1" using inv tx_inv_core [of st1 st] tx_inv_invalid by auto
  have c2: "core st2 = core st1" using EnsureDeferred_core [of io' m st1] d by simp
  note q = core_fields [OF c2]
  show ?thesis
  proof (cases "sd \<and> cleanup_sequence st1 < m \<and> m \<le> apfs_durable_sequence st1 \<and> m \<in> accepted_boundaries st1 \<and> fl")
    case True
    then have c': "core st2 = core st" using R c2 by auto
    have H2: "tx_holds tp acc recorded st2 J F t" using H tx_holds_core [OF c'] by simp
    have "tx_inv tp acc recorded (if ap then PruneAcceptedBoundariesThrough m (st3\<lparr>cleanup_sequence := m\<rparr>) else st3)"
      using True q core_fields [OF c'] False config_ok_core [OF c'] tx_inv_config [OF inv]
      by (intro watermark_step [OF H2 _ _ c _ _ a]) (auto simp: core_def PruneAcceptedBoundariesThrough_def)
    then show ?thesis using B False True e d a by (auto simp: MarkCleanedThrough_def split: if_splits)
  next
    case nt: False
    have "tx_inv tp acc recorded (MarkDeferredAcceptanceDurabilityFailure st2)"
      using config_ok_core [OF c2] tx_inv_config [OF i1] MarkDeferred_inv by simp
    then show ?thesis using B False nt e d a i1 by (auto simp: MarkCleanedThrough_def split: if_splits)
  qed
qed

end
