(* ===== verification/TransactionRecovery.thy ===== *)
theory TransactionRecovery
  imports TransactionSteps
begin

text \<open>
  Opening a journal again after the process ended, also in the middle of an acceptance, and loading
  the accepted transactions.
\<close>

section \<open>Opening a journal again\<close>

definition open_manager :: "TxPlatform \<Rightarrow> TxIo \<Rightarrow> 16 word list \<Rightarrow> 16 word list \<Rightarrow> byte list \<Rightarrow> TxManager" where
  "open_manager tp io safety identity bytes =
     SetJournalPath tp io (Some bytes) (SetVolumeIdentity tp io identity (new_manager safety))"

definition unopened :: "16 word list \<Rightarrow> 16 word list \<Rightarrow> byte list \<Rightarrow> TxManager" where
  "unopened safety identity bytes =
     (new_manager safety)\<lparr>volume_identity := identity, journal_path := True, journal := bytes\<rparr>"

lemma open_manager_seeds:
  assumes "identity \<noteq> []"
  shows "open_manager tp io safety identity bytes = snd (SeedIdsFromExistingJournal tp io (unopened safety identity bytes))"
proof -
  have "reset_journal_state ((reset_journal_state ((new_manager safety)\<lparr>volume_identity := identity\<rparr>))
      \<lparr>journal_path := True, journal := bytes\<rparr>) = unopened safety identity bytes"
    by (simp add: reset_journal_state_def unopened_def new_manager_def InvalidateFinalizationCoverage_def
        InvalidateCheckpointPinCensus_def Let_def)
  then show ?thesis
    using assms by (simp add: open_manager_def SetJournalPath_def SetVolumeIdentity_def Let_def)
       (simp add: reset_journal_state_def unopened_def new_manager_def InvalidateFinalizationCoverage_def
         InvalidateCheckpointPinCensus_def Let_def)
qed

definition healthy :: "TxIo \<Rightarrow> bool" where
  "healthy io \<longleftrightarrow> lease_acquired io \<and> namespace_settled (journal_read io) \<and> \<not> read_failed (journal_read io) \<and>
     truncate_ok (journal_read io)"

lemma unopened_fields:
  "tx_state (unopened s i b) = TxIdle" "journal_path (unopened s i b)" "next_transaction_id (unopened s i b) = 1"
  "next_sequence (unopened s i b) = 1" "\<not> journal_append_ambiguous (unopened s i b)" "journal (unopened s i b) = b"
  "journal_identity tp (unopened s i b) = EffectiveVolumeIdentity tp i" "pending_mutations (unopened s i b) = []"
  "buffered_records (unopened s i b) = []" "volume_identity (unopened s i b) = i" "safety_level (unopened s i b) = s"
  "current_transaction_id (unopened s i b) = 0"
  by (simp_all add: unopened_def new_manager_def journal_identity_def)

lemma reopened:
  assumes i: "identity \<noteq> []" and cfg: "config_ok tp (unopened safety identity [])"
    and J: "list_all (loggable (tx_wal tp) (EffectiveVolumeIdentity tp identity)) J" "n \<le> length (log_bytes (tx_wal tp) J)"
      "bytes = take n (log_bytes (tx_wal tp) J)"
    and P: "P = complete_frames (tx_wal tp) n J" and inv: "log_inv tp P [] t None acc"
    and b: "t \<le> u64_max" "max_sequence (seed_records tp P) < u64_max"
    and st: "st = open_manager tp io safety identity bytes"
  shows "tx_inv tp acc [] st"
    and "healthy io \<Longrightarrow> n \<le> u64_max \<Longrightarrow> recovery_state_valid st \<and> tx_holds tp acc [] st P [] t \<and> tx_state st = TxIdle \<and>
      safety_level st = safety \<and> volume_identity st = identity \<and> current_transaction_id st = 0"
proof -
  let ?u = "unopened safety identity bytes"
  let ?s = "seeded tp P t (?u\<lparr>journal := log_bytes (tx_wal tp) P\<rparr>)"
  obtain ok st' where s: "SeedIdsFromExistingJournal tp io ?u = (ok, st')" by (rule prod.exhaust)
  have t: "1 \<le> t" using log_inv_order(5) [OF inv] by simp
  note R = SeedExisting_result [of tp ?u J n P t None acc io ok st', unfolded unopened_fields, OF J(1,2,3) P inv _ _ b t _ s]
  have e: "st' = st" using st i s by (simp add: open_manager_seeds)
  have H: "tx_holds tp acc [] ?s P [] t"
    using complete_frames_loggable [OF J(1)] inv b P by (intro seeded_holds) (simp_all add: unopened_fields journal_identity_def)
  have cs: "config_ok tp ?s" using cfg by (simp add: config_ok_def journal_identity_def seeded_def unopened_def)
  have cu: "config_ok tp ?u" using cfg by (simp add: config_ok_def journal_identity_def unopened_def)
  have ok: "core st = core ?s" if ok using R(1) that e by (simp add: unopened_fields)
  show "tx_inv tp acc [] st"
  proof (cases ok)
    case True
    then show ?thesis using tx_inv_core [OF ok] tx_invI [OF cs H] by simp
  next
    case False
    then show ?thesis using R(1) e config_ok_same [OF cu] by (auto intro: tx_inv_invalid simp: unopened_fields)
  qed
  show "recovery_state_valid st \<and> tx_holds tp acc [] st P [] t \<and> tx_state st = TxIdle \<and>
      safety_level st = safety \<and> volume_identity st = identity \<and> current_transaction_id st = 0" if "healthy io" "n \<le> u64_max"
  proof -
    have ok using R(2) that unfolding healthy_def by (simp add: unopened_fields)
    note c = ok [OF this]
    have "recovery_state_valid ?s \<and> tx_state ?s = TxIdle \<and> safety_level ?s = safety \<and> volume_identity ?s = identity \<and>
        current_transaction_id ?s = 0"
      by (simp add: seeded_def unopened_fields)
    then show ?thesis using H tx_holds_core [OF c] core_fields [OF c] by simp
  qed
qed

text \<open>A log with an unfinished transaction is refused.\<close>

lemma log_inv_unfinished: "log_inv tp J F t K acc \<Longrightarrow> F \<noteq> [] \<Longrightarrow> \<not> ValidateWalSemantics tp J"
  by (auto simp: log_inv_def log_sem_def ValidateWalSemantics_def compaction_floor_none)

lemma reopened_refused:
  assumes i: "identity \<noteq> []" and cfg: "config_ok tp (unopened safety identity [])"
    and J: "list_all (loggable (tx_wal tp) (EffectiveVolumeIdentity tp identity)) J" "n \<le> length (log_bytes (tx_wal tp) J)"
      "bytes = take n (log_bytes (tx_wal tp) J)"
    and P: "P = complete_frames (tx_wal tp) n J" "\<not> ValidateWalSemantics tp P"
    and st: "st = open_manager tp io safety identity bytes"
  shows "\<not> recovery_state_valid st" "config_ok tp st"
proof -
  let ?u = "unopened safety identity bytes"
  obtain res b' where r: "ReadAllWithExclusiveWriterLease (tx_wal tp) (lease_acquired io) (journal_read io)
      (EffectiveVolumeIdentity tp identity) default_limits (take n (log_bytes (tx_wal tp) J)) = (res, b')"
    by (rule prod.exhaust)
  have "SeedIdsFromExistingJournal tp io ?u = (False, lose_journal (?u\<lparr>journal := b'\<rparr>))"
    using read_cut(1) [OF J(1,2) r] P r by (auto simp: SeedIdsFromExistingJournal_def unopened_fields J(3))
  then have "st = lose_journal (?u\<lparr>journal := b'\<rparr>)" using st i by (simp add: open_manager_seeds)
  then show "\<not> recovery_state_valid st" "config_ok tp st"
    using cfg by (simp_all add: lose_journal_def InvalidateFinalizationCoverage_def InvalidateCheckpointPinCensus_def Let_def
        config_ok_def journal_identity_def unopened_def)
qed

section \<open>Crashes\<close>

lemma holds_config_unopened: "config_ok tp st \<Longrightarrow> config_ok tp (unopened (safety_level st) (volume_identity st) [])"
  by (simp add: config_ok_def journal_identity_def unopened_def new_manager_def)

definition reopen :: "TxPlatform \<Rightarrow> TxIo \<Rightarrow> byte list \<Rightarrow> TxManager \<Rightarrow> TxManager" where
  "reopen tp io bytes st = open_manager tp io (safety_level st) (volume_identity st) bytes"

lemma holds_unflushed:
  assumes "tx_holds tp acc recorded st J F t" "length (buffered_records st) = length (pending_mutations st)"
  shows "F = []" "recorded = buffered_records st"
  using tx_holdsD(6) [OF assms(1)] arg_cong [OF tx_holdsD(7) [OF assms(1)], of length] assms(2) by auto

text \<open>The process ends between two operations.\<close>

lemma crash_reopens:
  assumes H: "tx_holds tp acc recorded st J F t" and cfg: "config_ok tp st" and i: "volume_identity st \<noteq> []"
    and u: "length (buffered_records st) = length (pending_mutations st)"
  shows "tx_inv tp acc [] (reopen tp io (journal st) st)"
    and "healthy io \<Longrightarrow> length (journal st) \<le> u64_max \<Longrightarrow>
      recovery_state_valid (reopen tp io (journal st) st) \<and> tx_holds tp acc [] (reopen tp io (journal st) st) J [] t \<and>
      tx_state (reopen tp io (journal st) st) = TxIdle \<and> safety_level (reopen tp io (journal st) st) = safety_level st \<and>
      volume_identity (reopen tp io (journal st) st) = volume_identity st \<and>
      current_transaction_id (reopen tp io (journal st) st) = 0"
proof -
  note h = tx_holdsD [OF H] and d = holds_unflushed [OF H u]
  have J: "list_all (loggable (tx_wal tp) (EffectiveVolumeIdentity tp (volume_identity st))) J"
    using h(2) by (simp add: journal_identity_def)
  have inv: "log_inv tp J [] t None acc" using h(5) d by simp
  have b: "max_sequence (seed_records tp J) < u64_max" using h(9,10) by simp
  have bs: "journal st = take (length (log_bytes (tx_wal tp) J)) (log_bytes (tx_wal tp) J)" using h(1) by simp
  have e: "reopen tp io (journal st) st = open_manager tp io (safety_level st) (volume_identity st) (journal st)"
    by (simp add: reopen_def)
  note R = reopened [OF i holds_config_unopened [OF cfg] J order_refl bs complete_frames_all [symmetric] inv h(16) b e]
  show "tx_inv tp acc [] (reopen tp io (journal st) st)" by (rule R(1))
  show "recovery_state_valid (reopen tp io (journal st) st) \<and> tx_holds tp acc [] (reopen tp io (journal st) st) J [] t \<and>
      tx_state (reopen tp io (journal st) st) = TxIdle \<and> safety_level (reopen tp io (journal st) st) = safety_level st \<and>
      volume_identity (reopen tp io (journal st) st) = volume_identity st \<and>
      current_transaction_id (reopen tp io (journal st) st) = 0" if "healthy io" "length (journal st) \<le> u64_max"
    using R(2) that h(1) by simp
qed

text \<open>The bytes an acceptance appends, and a crash after the first \<open>n\<close> of them.\<close>

definition acceptance_bytes :: "TxPlatform \<Rightarrow> nat \<Rightarrow> TxManager \<Rightarrow> byte list" where
  "acceptance_bytes tp xid st = log_bytes (tx_wal tp) (buffered_records st @ [marker_of tp OutcomeAccepted xid st])"

lemma log_inv_part:
  assumes H: "tx_holds tp acc recorded st J [] t" and nat: "list_all (native_proof_ok tp xid st) (pending_mutations st)"
  shows "\<exists>K. log_inv tp (J @ take k (buffered_records st)) (take k (buffered_records st)) t K acc"
proof (cases "list_all (\<lambda>r. \<not> List.member native_operations (wal_operation r)) (buffered_records st)")
  case True
  note h = tx_holdsD [OF H]
  have "prepared_from t (Suc (max_sequence (seed_records tp J))) (take k (buffered_records st))"
    using h(8) prepared_from_append [of t _ "take k (buffered_records st)" "drop k (buffered_records st)"] by simp
  moreover have "list_all (\<lambda>r. \<not> List.member native_operations (wal_operation r)) (take k (buffered_records st))"
    using True by (auto simp: list_all_iff dest: in_set_takeD)
  ultimately show ?thesis using log_inv_prepared_list [OF h(5)] by fastforce
next
  case False
  note h = tx_holdsD [OF H]
  obtain K where K: "log_inv tp (J @ buffered_records st) recorded t K acc" "K = None \<or> length recorded = 1"
    using log_inv_buffered [OF H nat] by blast
  show ?thesis
  proof (cases "k = 0")
    case True
    then show ?thesis using h(5) by auto
  next
    case k: False
    from False obtain r where r: "r \<in> set (buffered_records st)" "List.member native_operations (wal_operation r)"
      by (auto simp: list_all_iff)
    have "wal_operation r \<in> set (map (ToWalOperation \<circ> mutation_kind) (pending_mutations st))" using r(1) h(6,7) by auto
    then obtain m where m: "m \<in> set (pending_mutations st)" "ToWalOperation (mutation_kind m) = wal_operation r" by auto
    then have "native_proof_ok tp xid st m" using nat by (auto simp: list_all_iff)
    then have "length (pending_mutations st) = 1" using m(2) r(2) by (auto simp: native_proof_ok_def Let_def)
    then have "length (buffered_records st) = 1" using h(6) arg_cong [OF h(7), of length] by simp
    then have "take k (buffered_records st) = buffered_records st" using k by simp
    then show ?thesis using K(1) h(6) by auto
  qed
qed

lemma crash_accepting:
  assumes H: "tx_holds tp acc recorded st J F t" and cfg: "config_ok tp st" and i: "volume_identity st \<noteq> []"
    and u: "length (buffered_records st) = length (pending_mutations st)"
    and st: "tx_state st = TxActive" "pending_mutations st \<noteq> []" "next_sequence st \<noteq> u64_max" "xid \<le> u64_max"
    and nat: "list_all (native_proof_ok tp xid st) (pending_mutations st)"
  shows "tx_inv tp (if length (acceptance_bytes tp xid st) \<le> n then acc @ [accepted_now xid recorded st] else acc) []
     (reopen tp io (journal st @ take n (acceptance_bytes tp xid st)) st)" (is ?inv)
    and "healthy io \<Longrightarrow> n = 0 \<or> length (acceptance_bytes tp xid st) \<le> n \<Longrightarrow>
     length (journal st @ acceptance_bytes tp xid st) \<le> u64_max \<Longrightarrow>
     recovery_state_valid (reopen tp io (journal st @ take n (acceptance_bytes tp xid st)) st)" (is "_ \<Longrightarrow> _ \<Longrightarrow> _ \<Longrightarrow> ?valid")
proof -
  let ?m = "marker_of tp OutcomeAccepted xid st"
  let ?B = "buffered_records st @ [?m]"
  note h = tx_holdsD [OF H] and d = holds_unflushed [OF H u]
  let ?pf = "tx_wal tp" and ?i = "EffectiveVolumeIdentity tp (volume_identity st)"
  have ji: "journal_identity tp st = ?i" by (simp add: journal_identity_def)
  let ?A = "acc @ [accepted_now xid recorded st]"
  let ?fin = "finish_transaction (persisted tp OutcomeAccepted xid st)"
  have fin: "tx_holds tp ?A [] ?fin (J @ ?B) [] (Suc t)"
    using accepted_holds [OF H _ cfg st(2) nat st(3,4)] st(1) by (simp add: accepted_now_def)
  note g = tx_holdsD [OF fin]
  have jf: "journal_identity tp ?fin = ?i"
    by (simp add: journal_identity_def finish_transaction_def ClearBufferedPreparedRecords_def persisted_def)
  have L: "list_all (loggable ?pf ?i) (J @ ?B)" using g(2) jf by simp
  define n' where "n' = length (log_bytes ?pf J) + min n (length (acceptance_bytes tp xid st))"
  have nb: "n' \<le> length (log_bytes ?pf (J @ ?B))" by (simp add: n'_def acceptance_bytes_def)
  have bs: "journal st @ take n (acceptance_bytes tp xid st) = take n' (log_bytes ?pf (J @ ?B))"
    using h(1) by (simp add: n'_def acceptance_bytes_def min_def)
  have cf: "complete_frames ?pf n' (J @ ?B) = J @ complete_frames ?pf (n' - length (log_bytes ?pf J)) ?B"
    by (rule wal.whole_append) (simp add: n'_def)
  have e: "reopen tp io x st = open_manager tp io (safety_level st) (volume_identity st) x" for x by (simp add: reopen_def)
  note cu = holds_config_unopened [OF cfg]
  have whole: "J @ ?B = complete_frames ?pf n' (J @ ?B)" if "length (acceptance_bytes tp xid st) \<le> n"
    unfolding cf using wal.whole_all [of ?pf ?B] that by (simp add: n'_def acceptance_bytes_def min_def)
  have bw: "max_sequence (seed_records tp (J @ ?B)) < u64_max" using g(9,10) by simp
  have inv0: "log_inv tp J [] t None acc" using h(5) d by simp
  have b0: "max_sequence (seed_records tp J) < u64_max" using h(9,10) by simp
  show ?inv
  proof (cases "length (acceptance_bytes tp xid st) \<le> n")
    case True
    show ?thesis using reopened(1) [OF i cu L nb bs whole [OF True] g(5,16) bw e] True by simp
  next
    case False
    then have sh: "n' - length (log_bytes ?pf J) < length (log_bytes ?pf ?B)" by (simp add: n'_def acceptance_bytes_def)
    obtain k where k: "complete_frames ?pf (n' - length (log_bytes ?pf J)) ?B = take k ?B" using complete_frames_prefix by blast
    have "take k ?B \<noteq> ?B" using log_bytes_complete [of ?pf "n' - length (log_bytes ?pf J)" ?B] sh unfolding k by (metis leD)
    then have "\<not> length ?B \<le> k" by (metis take_all)
    then have "k \<le> length (buffered_records st)" by simp
    then have P: "J @ take k (buffered_records st) = complete_frames ?pf n' (J @ ?B)" unfolding cf k by simp
    obtain K where K: "log_inv tp (J @ take k (buffered_records st)) (take k (buffered_records st)) t K acc"
      using log_inv_part [OF H [unfolded d(1)] nat] by blast
    show ?thesis
    proof (cases "take k (buffered_records st) = []")
      case True
      show ?thesis using reopened(1) [OF i cu L nb bs P [unfolded True append_Nil2] inv0 h(16) b0 e] False by simp
    next
      case ne: False
      show ?thesis using reopened_refused [OF i cu L nb bs P log_inv_unfinished [OF K ne] e] False
        by (simp add: tx_inv_invalid)
    qed
  qed
  assume io: "healthy io" and n: "n = 0 \<or> length (acceptance_bytes tp xid st) \<le> n"
    and len: "length (journal st @ acceptance_bytes tp xid st) \<le> u64_max"
  have nu: "n' \<le> u64_max" using len h(1) by (simp add: n'_def acceptance_bytes_def)
  show ?valid
  proof (cases "length (acceptance_bytes tp xid st) \<le> n")
    case True
    show ?thesis using reopened(2) [OF i cu L nb bs whole [OF True] g(5,16) bw e io nu] by blast
  next
    case False
    then have "n = 0" using n by simp
    then have j: "journal st @ take n (acceptance_bytes tp xid st) = journal st" by simp
    show ?thesis unfolding j using crash_reopens(2) [OF H cfg i u io] len by simp
  qed
qed

section \<open>Loading\<close>

lemma last_filter_last: "xs \<noteq> [] \<Longrightarrow> p (last xs) \<Longrightarrow> filter p xs \<noteq> [] \<and> last (filter p xs) = last xs"
  by (induction xs rule: rev_induct) auto

lemma Collect_result:
  assumes inv: "log_inv tp J F t K acc" and st: "accepted_sequence st = recovered_accepted (seed_records tp J)"
  shows "CollectAcceptedTransactions J b st =
     Inr (filter (\<lambda>a. (if b then cleanup_sequence st else apfs_durable_sequence st) < at_accepted_sequence a) acc)"
proof -
  obtain s where s: "log_seed F t acc s (seed_records tp J)" "collects J F t acc s" using inv by (auto simp: log_inv_def)
  have up: "list_all (\<lambda>a. at_accepted_sequence a \<le> accepted_sequence st) acc" using s(1) st by (auto simp: log_seed_def)
  have la: "accepted_sequence st = (if acc = [] then 0 else at_accepted_sequence (last acc))" using s(1) st by (auto simp: log_seed_def)
  let ?lower = "if b then cleanup_sequence st else apfs_durable_sequence st"
  have r: "collect_run b ?lower (accepted_sequence st) J collect_start =
      Inr \<lparr>prepared_by_transaction = (if F = [] then [] else [(t, F)]), collected_terminal = terminal_transactions s,
           collected_previous = previous_sequence s, collected = filter (\<lambda>a. ?lower < at_accepted_sequence a) acc\<rparr>"
    using s(2) up unfolding collects_def by blast
  have "filter (\<lambda>a. ?lower < at_accepted_sequence a) acc \<noteq> [] \<and>
      last (filter (\<lambda>a. ?lower < at_accepted_sequence a) acc) = last acc" if "?lower < accepted_sequence st"
    using that la by (intro last_filter_last) (auto split: if_splits)
  then show ?thesis using la unfolding CollectAcceptedTransactions_def Let_def r
    by (cases b) (auto simp: HasUnappliedAcceptedWork_def split: if_splits)
qed

lemma Load_idle:
  assumes H: "tx_holds tp acc recorded st J F t" and cfg: "config_ok tp st"
    and st: "tx_state st = TxIdle" "recovery_state_valid st"
    and L: "LoadAcceptedTransactionsAfter tp io b default_limits st = (res, st')"
  shows "tx_inv tp acc recorded st'"
    and "healthy io \<Longrightarrow> length (journal st) \<le> u64_max \<Longrightarrow> \<not> journal_append_ambiguous st \<Longrightarrow>
       core st' = core st \<and>
       res = Inr (filter (\<lambda>a. (if b then cleanup_sequence st else apfs_durable_sequence st) < at_accepted_sequence a) acc)"
proof -
  note h = tx_holdsD [OF H] and d = holds_idle [OF H st(1)]
  have path: "journal_path st" using cfg by (simp add: config_ok_def)
  have inv: "log_inv tp J [] t None acc" using h(5) d by simp
  obtain rd bytes where r: "ReadAllWithExclusiveWriterLease (tx_wal tp) (lease_acquired io) (journal_read io)
      (journal_identity tp st) default_limits (journal st) = (rd, bytes)" by (rule prod.exhaust)
  have jt: "take (length (log_bytes (tx_wal tp) J)) (log_bytes (tx_wal tp) J) = journal st" using h(1) by simp
  note R = read_cut [OF h(2) order_refl r [folded jt], unfolded complete_frames_all jt]
  obtain ok st1 where s: "SeedIdsFromJournalRecords tp J (lease_read io) st = (ok, st1)" by (rule prod.exhaust)
  have b: "max_sequence (seed_records tp J) < u64_max" "next_sequence st \<le> Suc (max_sequence (seed_records tp J))"
     "next_transaction_id st \<le> t"
    using h(9,10) d by simp_all
  note S = Seed_result [OF inv st(1) h(16) b(1,3,2) s]
  have same: "st\<lparr>journal := log_bytes (tx_wal tp) J\<rparr> = st" using h(1) by simp
  have cf: "config_ok tp (InvalidateFinalizationCoverage True (st\<lparr>journal := x, recovery_state_valid := False\<rparr>))"
     "\<not> recovery_state_valid (InvalidateFinalizationCoverage True (st\<lparr>journal := x, recovery_state_valid := False\<rparr>))" for x
    using cfg by (simp_all add: config_ok_def journal_identity_def InvalidateFinalizationCoverage_def
        InvalidateCheckpointPinCensus_def Let_def)
  have ev: "LoadAcceptedTransactionsAfter tp io b default_limits st =
     (if read_status rd = ResourceLimit then (Inl ReadBudgetExceeded, st\<lparr>journal := bytes\<rparr>)
      else if read_status rd \<noteq> ReadOk
      then (Inl JournalUnreadable, InvalidateFinalizationCoverage True (st\<lparr>journal := bytes, recovery_state_valid := False\<rparr>))
      else if \<not> ok then (Inl ReseedFailed, st1) else (CollectAcceptedTransactions J b st1, st1))"
    using st path R(1) log_inv_valid [OF inv] s same unfolding LoadAcceptedTransactionsAfter_def Let_def r
    by (auto split: if_splits)
  have unread: "bytes = journal st" if "read_status rd = ResourceLimit"
    using r that by (auto simp: ReadAllWithExclusiveWriterLease_def Let_def split: if_splits prod.splits)
  have c1: "core st1 = core st" if ok using S that seeded_same [OF H st] by simp
  have cs: "config_ok tp st1"
    using config_ok_core [OF S(1)] cfg by (simp add: seeded_def config_ok_def journal_identity_def)
  have "\<not> recovery_state_valid st1" if "\<not> ok" using S core_fields(11) [OF S(1)] that by (simp add: seeded_def)
  then have i1: "tx_inv tp acc recorded st1"
    using tx_inv_core [OF c1] tx_invI [OF cfg H] tx_inv_invalid [OF cs] by blast
  have "tx_inv tp acc recorded (st\<lparr>journal := bytes\<rparr>)" if "read_status rd = ResourceLimit"
    using unread [OF that] tx_invI [OF cfg H] by simp
  then show "tx_inv tp acc recorded st'"
    using L i1 cf tx_inv_invalid unfolding ev by (auto split: if_splits)
  show "core st' = core st \<and>
       res = Inr (filter (\<lambda>a. (if b then cleanup_sequence st else apfs_durable_sequence st) < at_accepted_sequence a) acc)"
    if "healthy io" "length (journal st) \<le> u64_max" "\<not> journal_append_ambiguous st"
  proof -
    have ok: "read_status rd = ReadOk" ok using R(2) that S(2) h(1) by (simp_all add: healthy_def)
    have c: "core st1 = core st" by (rule c1 [OF ok(2)])
    show ?thesis using L ok c Collect_result [OF inv, of st1] h(11) core_fields [OF c] unfolding ev by auto
  qed
qed

end
