(* ===== verification/TransactionRuns.thy ===== *)
theory TransactionRuns
  imports TransactionRecovery
begin

text \<open>
  The runs of transaction managers on one journal and what they promise.
\<close>

section \<open>Runs\<close>

text \<open>
  The runs of managers on one journal: \<open>acc\<close> are the transactions whose acceptance was reported, or
  whose acceptance was on the file when the process ended, and \<open>recorded\<close> the records of the current
  transaction.  Any append may be rejected, end in doubt or lose its lease; only a compaction never
  replaces the file.
\<close>

inductive tx_run :: "TxPlatform \<Rightarrow> AcceptedTransaction list \<Rightarrow> WalRecord list \<Rightarrow> TxManager \<Rightarrow> bool" for tp where
  started: "identity \<noteq> [] \<Longrightarrow> length (EffectiveVolumeIdentity tp identity) \<le> 1048576 \<Longrightarrow> length (wide_to_utf8 tp safety) \<le> 1048576 \<Longrightarrow>
     tx_run tp [] [] (open_manager tp io safety identity [])"
| begun: "tx_run tp acc recorded st \<Longrightarrow> Begin tp io st = (ok, st') \<Longrightarrow> tx_run tp acc recorded st'"
| recorded: "tx_run tp acc recorded st \<Longrightarrow> RecordMutation tp io m st = (ok, st') \<Longrightarrow>
     r = mutation_record tp (m\<lparr>mutation_wal_sequence := next_sequence st\<rparr>) st \<Longrightarrow>
     ok \<longrightarrow> loggable (tx_wal tp) (journal_identity tp st) r \<Longrightarrow>
     tx_run tp acc (if ok then recorded @ [r] else recorded) st'"
| flushed: "tx_run tp acc recorded st \<Longrightarrow> compaction_files io \<noteq> FilesReplaced \<Longrightarrow> FlushPreparedRecords tp io st = (ok, st') \<Longrightarrow>
     tx_run tp acc recorded st'"
| accepted: "tx_run tp acc recorded st \<Longrightarrow> compaction_files io \<noteq> FilesReplaced \<Longrightarrow> xid \<le> u64_max \<Longrightarrow>
     Accept tp io xid st = (ok, st') \<Longrightarrow>
     tx_run tp (if ok then acc @ [accepted_now xid recorded st] else acc) (if ok then [] else recorded) st'"
| deferred: "tx_run tp acc recorded st \<Longrightarrow> compaction_files io \<noteq> FilesReplaced \<Longrightarrow> xid \<le> u64_max \<Longrightarrow>
     AcceptForDeferredCommit tp io xid st = (n, st') \<Longrightarrow>
     tx_run tp (if n \<noteq> None then acc @ [accepted_now xid recorded st] else acc) (if n \<noteq> None then [] else recorded) st'"
| aborted: "tx_run tp acc recorded st \<Longrightarrow> compaction_files io \<noteq> FilesReplaced \<Longrightarrow> Abort tp io st = (ok, st') \<Longrightarrow>
     tx_run tp acc (if ok then [] else recorded) st'"
| durable: "tx_run tp acc recorded st \<Longrightarrow> compaction_files io' \<noteq> FilesReplaced \<Longrightarrow>
     MarkApfsDurableThrough tp io io' n st = (ok, st') \<Longrightarrow> tx_run tp acc recorded st'"
| cleaned: "tx_run tp acc recorded st \<Longrightarrow> compaction_files io' \<noteq> FilesReplaced \<Longrightarrow>
     MarkCleanedThrough tp io io' n st = (ok, st') \<Longrightarrow> tx_run tp acc recorded st'"
| crashed: "tx_run tp acc recorded st \<Longrightarrow> recovery_state_valid st \<Longrightarrow> volume_identity st \<noteq> [] \<Longrightarrow>
     length (buffered_records st) = length (pending_mutations st) \<Longrightarrow>
     tx_run tp acc [] (reopen tp io (journal st) st)"
| crashed_accepting: "tx_run tp acc recorded st \<Longrightarrow> recovery_state_valid st \<Longrightarrow> volume_identity st \<noteq> [] \<Longrightarrow>
     length (buffered_records st) = length (pending_mutations st) \<Longrightarrow> tx_state st = TxActive \<Longrightarrow> pending_mutations st \<noteq> [] \<Longrightarrow>
     next_sequence st \<noteq> u64_max \<Longrightarrow> xid \<le> u64_max \<Longrightarrow> list_all (native_proof_ok tp xid st) (pending_mutations st) \<Longrightarrow>
     tx_run tp (if length (acceptance_bytes tp xid st) \<le> n then acc @ [accepted_now xid recorded st] else acc) []
       (reopen tp io (journal st @ take n (acceptance_bytes tp xid st)) st)"

lemma new_manager_inv:
  assumes "identity \<noteq> []" "length (EffectiveVolumeIdentity tp identity) \<le> 1048576" "length (wide_to_utf8 tp safety) \<le> 1048576"
  shows "tx_inv tp [] [] (open_manager tp io safety identity [])"
proof -
  have cfg: "config_ok tp (unopened safety identity [])"
    using assms by (simp add: config_ok_def journal_identity_def unopened_def new_manager_def)
  have m: "max_sequence (seed_records tp []) < u64_max" by (simp add: seed_records_def seed_start_def u64_max_def)
  show ?thesis
    using reopened(1) [OF assms(1) cfg _ _ _ _ log_inv_empty _ m refl, of "[]" 0] by (simp add: u64_max_def)
qed

lemma tx_run_inv: "tx_run tp acc recorded st \<Longrightarrow> tx_inv tp acc recorded st"
proof (induction rule: tx_run.induct)
  case (started identity safety io)
  then show ?case by (rule new_manager_inv)
next
  case (begun acc recorded st io ok st')
  then show ?case by (blast intro: Begin_inv)
next
  case (recorded acc recorded st io m ok st' r)
  then show ?case by (blast intro: RecordMutation_inv)
next
  case (flushed acc recorded st io ok st')
  then show ?case by (blast intro: FlushPreparedRecords_inv)
next
  case (accepted acc recorded st io xid ok st')
  then show ?case by (blast intro: Accept_inv)
next
  case (deferred acc recorded st io xid n st')
  then show ?case by (blast intro: AcceptForDeferredCommit_inv)
next
  case (aborted acc recorded st io ok st')
  then show ?case by (blast intro: Abort_inv)
next
  case (durable acc recorded st io' io n ok st')
  then show ?case by (blast intro: MarkApfsDurableThrough_inv)
next
  case (cleaned acc recorded st io' io n ok st')
  then show ?case by (blast intro: MarkCleanedThrough_inv)
next
  case (crashed acc recorded st io)
  from crashed.IH crashed.hyps(2) obtain J F t where "tx_holds tp acc recorded st J F t" by (rule tx_invE)
  from crash_reopens(1) [OF this tx_inv_config [OF crashed.IH] crashed.hyps(3,4)] show ?case .
next
  case (crashed_accepting acc recorded st xid n io)
  from crashed_accepting.IH crashed_accepting.hyps(2) obtain J F t where "tx_holds tp acc recorded st J F t" by (rule tx_invE)
  from crash_accepting(1) [OF this tx_inv_config [OF crashed_accepting.IH] crashed_accepting.hyps(3-9)] show ?case .
qed

text \<open>What opening a journal leaves alone.\<close>

lemma seed_pins_ambiguous: "journal_append_ambiguous (seed_pins tp rs pins n st) = journal_append_ambiguous st"
proof (induction tp rs pins n st rule: seed_pins.induct)
  case (2 tp r rs pins prepared st)
  then show ?case by (auto simp: Let_def InvalidateCheckpointPinCensus_def CacheAcceptedCheckpointPins_def split: option.split)
qed (simp add: InvalidateCheckpointPinCensus_def)

lemma seed_pins_state: "tx_state (seed_pins tp rs pins n st) = tx_state st" "journal (seed_pins tp rs pins n st) = journal st"
  "volume_identity (seed_pins tp rs pins n st) = volume_identity st" "buffered_records (seed_pins tp rs pins n st) = buffered_records st"
  "pending_mutations (seed_pins tp rs pins n st) = pending_mutations st"
  using core_fields(1,4,14,15,16) [OF core_seed_pins] by simp_all

lemmas seed_fields = seed_pins_ambiguous seed_pins_state SeedIdsFromJournalRecords_def SeedCheckpointPinCensus_def lose_journal_def
  InvalidateFinalizationCoverage_def InvalidateCheckpointPinCensus_def PruneAcceptedBoundariesThrough_def Let_def

lemma SeedIdsFromJournalRecords_fields:
  "tx_state (snd (SeedIdsFromJournalRecords tp rs g st)) = tx_state st \<and>
   journal (snd (SeedIdsFromJournalRecords tp rs g st)) = journal st \<and>
   volume_identity (snd (SeedIdsFromJournalRecords tp rs g st)) = volume_identity st \<and>
   buffered_records (snd (SeedIdsFromJournalRecords tp rs g st)) = buffered_records st \<and>
   pending_mutations (snd (SeedIdsFromJournalRecords tp rs g st)) = pending_mutations st \<and>
   journal_append_ambiguous (snd (SeedIdsFromJournalRecords tp rs g st)) = journal_append_ambiguous st"
  by (simp add: seed_fields)

lemma lease_read_shrinks: "length (snd (ReadAllWithExclusiveWriterLease pf a io i limits bytes)) \<le> length bytes"
  by (simp add: ReadAllWithExclusiveWriterLease_def Let_def split: prod.split)

lemma open_manager_fields:
  assumes "identity \<noteq> []" "st = open_manager tp io safety identity bytes"
  shows "tx_state st = TxIdle" "\<not> journal_append_ambiguous st" "length (journal st) \<le> length bytes"
    "volume_identity st = identity" "buffered_records st = []" "pending_mutations st = []"
proof -
  let ?u = "unopened safety identity bytes"
  obtain rd b where r: "ReadAllWithExclusiveWriterLease (tx_wal tp) (lease_acquired io) (journal_read io)
      (journal_identity tp ?u) default_limits bytes = (rd, b)" by (rule prod.exhaust)
  have b: "length b \<le> length bytes"
    using lease_read_shrinks [of "tx_wal tp" "lease_acquired io" "journal_read io" "journal_identity tp ?u" default_limits bytes] r by simp
  have st: "st = (if read_status rd \<noteq> ReadOk \<or> \<not> ValidateWalSemantics tp (read_records rd) then lose_journal (?u\<lparr>journal := b\<rparr>)
      else snd (SeedIdsFromJournalRecords tp (read_records rd) (lease_read io) (?u\<lparr>journal := b\<rparr>)))"
    using assms r unfolding open_manager_seeds [OF assms(1)] SeedIdsFromExistingJournal_def by (simp add: unopened_fields)
  have "tx_state st = TxIdle \<and> \<not> journal_append_ambiguous st \<and> journal st = b \<and>
      volume_identity st = identity \<and> buffered_records st = [] \<and> pending_mutations st = []"
    unfolding st using SeedIdsFromJournalRecords_fields [of tp "read_records rd" "lease_read io" "?u\<lparr>journal := b\<rparr>"]
    by (auto simp: unopened_fields lose_journal_def InvalidateFinalizationCoverage_def InvalidateCheckpointPinCensus_def Let_def)
  then show "tx_state st = TxIdle" "\<not> journal_append_ambiguous st" "length (journal st) \<le> length bytes"
    "volume_identity st = identity" "buffered_records st = []" "pending_mutations st = []" using b by simp_all
qed

lemma holds_watermarks:
  assumes H: "tx_holds tp acc recorded st J F t"
  shows "cleanup_sequence st \<le> apfs_durable_sequence st" "apfs_durable_sequence st \<le> accepted_sequence st"
    "accepted_sequence st < next_sequence st" "accepted_sequence st = (if acc = [] then 0 else at_accepted_sequence (last acc))"
    "accepted_boundaries st = {b \<in> set (map at_accepted_sequence acc). cleanup_sequence st < b}"
    "list_all (\<lambda>a. at_accepted_sequence a < next_sequence st) acc"
proof -
  note h = tx_holdsD [OF H] and o = log_inv_order [OF h(5)]
  obtain s where s: "log_seed F t acc s (seed_records tp J)" using h(5) by (auto simp: log_inv_def)
  show "cleanup_sequence st \<le> apfs_durable_sequence st" "apfs_durable_sequence st \<le> accepted_sequence st"
    using o h(11-13) by simp_all
  show lt: "accepted_sequence st < next_sequence st" using o(4) h(9,11) by simp
  show "accepted_sequence st = (if acc = [] then 0 else at_accepted_sequence (last acc))"
    using s h(11) by (auto simp: log_seed_def)
  show "accepted_boundaries st = {b \<in> set (map at_accepted_sequence acc). cleanup_sequence st < b}"
    using h(15) o(1) by simp
  show "list_all (\<lambda>a. at_accepted_sequence a < next_sequence st) acc"
    using s lt h(11) by (auto simp: log_seed_def list_all_iff intro: le_less_trans)
qed

lemma run_below:
  "tx_run tp acc recorded st \<Longrightarrow> recovery_state_valid st \<Longrightarrow> list_all (\<lambda>a. at_accepted_sequence a < next_sequence st) acc"
  by (auto elim!: tx_invE dest!: tx_run_inv holds_watermarks(6))

lemma accept_valid:
  "Accept tp io xid st = (True, st') \<Longrightarrow> recovery_state_valid st"
  "AcceptForDeferredCommit tp io xid st = (Some n, st') \<Longrightarrow> recovery_state_valid st"
  by (auto simp: Accept_def AcceptForDeferredCommit_def split: if_splits)

lemma sequences_grow:
  assumes "tx_run tp acc recorded st"
  shows "sorted_wrt (<) (map at_accepted_sequence acc)"
  using assms
proof (induction rule: tx_run.induct)
  case (accepted acc recorded st io xid ok st')
  then show ?case using run_below [OF accepted.hyps(1)] accept_valid(1)
    by (auto simp: sorted_wrt_append accepted_now_def list_all_iff)
next
  case (deferred acc recorded st io xid n st')
  then show ?case using run_below [OF deferred.hyps(1)] accept_valid(2)
    by (auto simp: sorted_wrt_append accepted_now_def list_all_iff)
next
  case (crashed_accepting acc recorded st xid n io)
  then show ?case using run_below [OF crashed_accepting.hyps(1)]
    by (auto simp: sorted_wrt_append accepted_now_def list_all_iff)
qed auto

section \<open>Examples\<close>

definition tx_example_platform :: TxPlatform where
  "tx_example_platform =
     \<lparr>tx_wal = example_platform, wide_to_utf8 = map (\<lambda>w. word_of_nat (unat w)), hard_link_checkpoint = (\<lambda>bytes. None),
      clone_range_checkpoint = (\<lambda>bytes. None), sparse_checkpoint = (\<lambda>bytes. None), snapshot_pins = (\<lambda>bytes. [])\<rparr>"

definition tx_example_io :: TxIo where
  "tx_example_io =
     \<lparr>lease_now = 1, lease_acquired = True,
      journal_read = \<lparr>namespace_settled = True, read_failed = False, truncate_ok = True\<rparr>, lease_read = 1,
      append_io = \<lparr>directory_ready = True, handle_ready = True, lease_generation = 1, short_write = None, flush_ok = True\<rparr>, compaction_files = FilesRefused,
      lease_retry = 1, retry_io = \<lparr>directory_ready = True, handle_ready = True, lease_generation = 1, short_write = None, flush_ok = True\<rparr>, lease_after = 1, flush_pending_ok = True\<rparr>"

definition tx_example_mutation :: MutationIntent where
  "tx_example_mutation =
     \<lparr>mutation_kind = MutCreateFile, mutation_path = [97], mutation_secondary_path = [], mutation_offset = 0,
      mutation_length = 0, mutation_wal_sequence = 0, mutation_object_id = 7, mutation_generation = 1,
      payload_spool_offset = 0, mutation_payload_length = 0, timestamp_utc = 0, payload_checksum = replicate 32 0,
      mutation_inline_payload = [], replace_if_exists = False, mutation_unlink_outcome = None\<rparr>"

definition tx_example_open :: TxManager where
  "tx_example_open =
     (unopened [] [118] [])\<lparr>journal_state_generation := 1, coverage_trust := CoverageTrusted, coverage_generation := 1,
        pin_census_trusted := True, pin_census_generation := 1\<rparr>"

definition tx_example_begun :: TxManager where
  "tx_example_begun = tx_example_open\<lparr>current_transaction_id := 1, next_transaction_id := 2, tx_state := TxActive\<rparr>"

definition tx_example_record :: WalRecord where
  "tx_example_record =
     mutation_record tx_example_platform (tx_example_mutation\<lparr>mutation_wal_sequence := 1\<rparr>) tx_example_begun"

definition tx_example_recorded :: TxManager where
  "tx_example_recorded =
     tx_example_begun\<lparr>buffered_records := [tx_example_record], next_sequence := 2,
       pending_mutations := [tx_example_mutation\<lparr>mutation_wal_sequence := 1\<rparr>]\<rparr>"

lemma tx_example_opens: "open_manager tx_example_platform tx_example_io [] [118] [] = tx_example_open"
  by (simp add: tx_example_open_def open_manager_seeds SeedIdsFromExistingJournal_def unopened_fields ReadAllWithExclusiveWriterLease_def
    ReadAllInternal_def DecodeWalBytes_def decode_frames.simps default_limits_def tx_example_io_def ValidateWalSemantics_def
    SeedIdsFromJournalRecords_def seed_records_def seed_start_def semantic_start_def seed_proofs_def
    PruneAcceptedBoundariesThrough_def SeedCheckpointPinCensus_def InvalidateCheckpointPinCensus_def unopened_def new_manager_def
    u64_max_def Let_def List.map_filter_def)

lemma tx_example_begins: "Begin tx_example_platform tx_example_io tx_example_open = (True, tx_example_begun)"
  by (simp add: Begin_def tx_example_open_def tx_example_begun_def unopened_def new_manager_def ensure_seeded_def
    JournalStateMatchesWriterLease_def tx_example_io_def ClearBufferedPreparedRecords_def u64_max_def add64_def)

lemma tx_example_records:
  "RecordMutation tx_example_platform tx_example_io tx_example_mutation tx_example_begun = (True, tx_example_recorded)"
  by (simp add: RecordMutation_def AppendPreparedMutationLocked_def buffer_record_def tx_example_recorded_def tx_example_record_def
    tx_example_begun_def tx_example_open_def unopened_def new_manager_def JournalStateMatchesWriterLease_def tx_example_io_def
    tx_example_mutation_def mutation_refused_def is_inline_metadata_def is_link_mutation_def is_attribute_mutation_def
    mutation_record_consistent_def mutation_record_def validation_record_def blank_record_def native_operations_def
    ExtendedAttributeMutationIsConsistentImpl_def AllocationSizeMutationIsConsistentImpl_def
    DirectoryRestoreMutationIsConsistentImpl_def InodeMetadataMutationIsConsistentImpl_def UnlinkOutcomeIsConsistentImpl_def
    needs_spool_def complete_inline_payload_def MaxInlinePayloadBytes_def u64_max_def add64_def Let_def)

lemma tx_example_platform_fields [simp]:
  "tx_wal tx_example_platform = example_platform" "wide_to_utf8 tx_example_platform = map (\<lambda>w. word_of_nat (unat w))"
  by (simp_all add: tx_example_platform_def)

lemma tx_example_config:
  "config_ok tx_example_platform tx_example_begun" "journal_identity tx_example_platform tx_example_begun = [118]"
  by (simp_all add: config_ok_def tx_example_begun_def tx_example_open_def unopened_def new_manager_def journal_identity_def
    EffectiveVolumeIdentity_def)

lemma tx_example_loggable: "loggable example_platform [118] tx_example_record" (is "loggable ?pf ?i ?r")
proof (rule loggableI)
  note defs = tx_example_record_def mutation_record_def validation_record_def tx_example_mutation_def blank_record_def
    is_inline_metadata_def is_link_mutation_def is_attribute_mutation_def tx_example_config(2)
  show "wal_record_ok ?r"
    by (simp add: wal_record_ok_def defs IsKnownOperation_def known_operations_def state_of_def u32_max_def u64_max_def
        tx_example_begun_def tx_example_open_def unopened_def new_manager_def MaxInlinePayloadBytes_def)
  show "\<not> encode_refused ?pf ?r (frame_version ?r 0)"
    by (simp add: encode_refused_def frame_version_def defs Let_def
        inline_only_operations_def version_cases InodeMetadataMutationIsConsistentImpl_def AllocationSizeMutationIsConsistentImpl_def
        DirectoryRestoreMutationIsConsistentImpl_def InlinePayloadIsConsistentImpl_def
        ExtendedAttributeMutationIsConsistentImpl_def UnlinkOutcomeIsConsistentImpl_def)
  show "wal_record_size ?r (header_size_of (frame_version ?r 0)) \<le> kMaxRecordBytes"
    by (simp add: wal_record_size_def frame_version_def defs
        header_size_of_def version_cases kMaxRecordBytes_def kLegacyHeaderSize_def)
qed (simp add: tx_example_record_def mutation_record_def validation_record_def tx_example_config(2))

lemma tx_example_runs:
  "tx_run tx_example_platform [] [] tx_example_open"
  "tx_run tx_example_platform [] [tx_example_record] tx_example_recorded"
proof -
  have "tx_run tx_example_platform [] [] (open_manager tx_example_platform tx_example_io [] [118] [])"
    by (rule tx_run.started) (simp_all add: EffectiveVolumeIdentity_def)
  then show o: "tx_run tx_example_platform [] [] tx_example_open" by (simp only: tx_example_opens)
  have n: "next_sequence tx_example_begun = 1" by (simp add: tx_example_begun_def tx_example_open_def unopened_fields)
  have "tx_run tx_example_platform [] (if True then [] @ [tx_example_record] else []) tx_example_recorded"
    by (rule tx_run.recorded [OF tx_run.begun [OF o tx_example_begins] tx_example_records])
       (simp_all add: n tx_example_record_def [unfolded One_nat_def, symmetric] tx_example_config(2) tx_example_loggable)
  then show "tx_run tx_example_platform [] [tx_example_record] tx_example_recorded" by simp
qed

lemma tx_example_recorded_fields:
  "recovery_state_valid tx_example_recorded" "volume_identity tx_example_recorded = [118]"
  "buffered_records tx_example_recorded = [tx_example_record]" "length (pending_mutations tx_example_recorded) = 1"
  "tx_state tx_example_recorded = TxActive" "next_sequence tx_example_recorded = 2" "journal tx_example_recorded = []"
  "pending_mutations tx_example_recorded \<noteq> []"
  "list_all (native_proof_ok tx_example_platform xid tx_example_recorded) (pending_mutations tx_example_recorded)"
  by (simp_all add: tx_example_recorded_def tx_example_begun_def tx_example_open_def unopened_def new_manager_def
    native_proof_ok_def native_operations_def tx_example_mutation_def Let_def)

lemma tx_example_bytes: "length (acceptance_bytes tx_example_platform 5 tx_example_recorded) \<le> u64_max"
proof -
  let ?m = "marker_of tx_example_platform OutcomeAccepted 5 tx_example_recorded"
  have "config_ok tx_example_platform tx_example_recorded"
    using tx_run_inv [OF tx_example_runs(2)] by (rule tx_inv_config)
  then have "loggable (tx_wal tx_example_platform) (journal_identity tx_example_platform tx_example_recorded) ?m"
    unfolding marker_of_def
    by (rule marker_loggable)
       (simp_all add: tx_example_recorded_fields u64_max_def, simp add: tx_example_recorded_def tx_example_begun_def)
  then have "length (EncodeForTest example_platform ?m) \<le> kMaxRecordBytes"
    by (auto simp: loggable_def)
  moreover have "length (EncodeForTest example_platform tx_example_record) \<le> kMaxRecordBytes"
    using tx_example_loggable by (simp add: loggable_def)
  ultimately show ?thesis
    by (simp add: acceptance_bytes_def tx_example_recorded_fields kMaxRecordBytes_def u64_max_def)
qed

definition tx_example_restarted :: TxManager where
  "tx_example_restarted =
     reopen tx_example_platform tx_example_io (acceptance_bytes tx_example_platform 5 tx_example_recorded) tx_example_recorded"

lemma tx_example_restarts:
  "tx_run tx_example_platform [accepted_now 5 [tx_example_record] tx_example_recorded] [] tx_example_restarted"
  "recovery_state_valid tx_example_restarted" "length (journal tx_example_restarted) \<le> u64_max"
  "volume_identity tx_example_restarted = [118]" "buffered_records tx_example_restarted = []"
  "pending_mutations tx_example_restarted = []"
proof -
  let ?b = "acceptance_bytes tx_example_platform 5 tx_example_recorded"
  let ?s = tx_example_recorded
  have io: "healthy tx_example_io" by (simp add: healthy_def tx_example_io_def)
  have e: "tx_example_restarted = reopen tx_example_platform tx_example_io (journal ?s @ take (length ?b) ?b) ?s"
    by (simp add: tx_example_restarted_def tx_example_recorded_fields)
  have r: "tx_run tx_example_platform (if length ?b \<le> length ?b then [] @ [accepted_now 5 [tx_example_record] ?s] else []) []
     (reopen tx_example_platform tx_example_io (journal ?s @ take (length ?b) ?b) ?s)"
    by (rule tx_run.crashed_accepting [OF tx_example_runs(2)]) (simp_all add: tx_example_recorded_fields u64_max_def)
  then show "tx_run tx_example_platform [accepted_now 5 [tx_example_record] ?s] [] tx_example_restarted" using e by simp
  note inv = tx_run_inv [OF tx_example_runs(2)]
  obtain J F t where H: "tx_holds tx_example_platform [] [tx_example_record] ?s J F t"
    using inv tx_example_recorded_fields(1) by (rule tx_invE)
  show "recovery_state_valid tx_example_restarted" unfolding e
    by (rule crash_accepting(2) [OF H tx_inv_config [OF inv]])
       (use io tx_example_bytes in \<open>simp_all add: tx_example_recorded_fields u64_max_def\<close>)
  have i: "volume_identity ?s \<noteq> []" by (simp add: tx_example_recorded_fields)
  note f = open_manager_fields [OF i tx_example_restarted_def [unfolded reopen_def]]
  show "length (journal tx_example_restarted) \<le> u64_max" using f(3) tx_example_bytes by (rule le_trans)
  show "volume_identity tx_example_restarted = [118]" "buffered_records tx_example_restarted = []"
    "pending_mutations tx_example_restarted = []" using f(4-6) by (simp_all add: tx_example_recorded_fields)
qed

definition tx_example_flushed :: TxManager where
  "tx_example_flushed = snd (FlushPreparedRecords tx_example_platform tx_example_io tx_example_recorded)"

lemma tx_example_flushes:
  "FlushPreparedRecords tx_example_platform tx_example_io tx_example_recorded = (True, tx_example_flushed)"
  "recovery_state_valid tx_example_flushed" "volume_identity tx_example_flushed = [118]" "buffered_records tx_example_flushed = []"
  "length (pending_mutations tx_example_flushed) = 1"
proof -
  have n: "EncodeForTest example_platform tx_example_record \<noteq> []" 
    using loggable_frame(3) [OF tx_example_loggable] header_size_bounds(1) [of "frame_version tx_example_record 0"] by auto
  have l: "length (EncodeForTest example_platform tx_example_record) \<le> 67108864"
    using tx_example_loggable by (simp add: loggable_def kMaxRecordBytes_def)
  have w: "wal_volume_identity tx_example_record = [118]" "wal_sequence tx_example_record = 1"
    by (simp_all add: tx_example_record_def mutation_record_def validation_record_def tx_example_config)
  have j: "journal_identity tx_example_platform tx_example_recorded = [118]" "journal_path tx_example_recorded"
     "journal_max_bytes tx_example_recorded = 67108864" "journal_state_generation tx_example_recorded = 1"
    by (simp_all add: journal_identity_def EffectiveVolumeIdentity_def tx_example_recorded_def tx_example_begun_def
        tx_example_open_def unopened_def new_manager_def)
  have f: "list_all flushable (pending_mutations tx_example_recorded)"
    by (simp add: tx_example_recorded_def tx_example_mutation_def flushable_def native_operations_def)
  have "AppendBatchWithResult example_platform (journal_options tx_example_platform tx_example_recorded) (append_io tx_example_io)
      [tx_example_record] True 1 [] = (AppendSucceeded, EncodeForTest example_platform tx_example_record)"
    using n l w j by (simp add: AppendBatchWithResult_def journal_options_def writable_record_def finish_append_def AppendEncoded_def
        tx_example_io_def lease_refused_def)
  then have F: "fst (FlushPreparedRecords tx_example_platform tx_example_io tx_example_recorded)"
    using f w j by (simp add: FlushPreparedRecords_def tx_example_recorded_fields JournalStateMatchesWriterLease_def buffered_sequences_ok_def
        append_or_compact_def buffered_for_append_def settle_append_def Let_def tx_example_io_def)
  then show s: "FlushPreparedRecords tx_example_platform tx_example_io tx_example_recorded = (True, tx_example_flushed)"
    by (metis tx_example_flushed_def prod.collapse)
  have "list_all (\<lambda>r. wal_volume_identity r = journal_identity tx_example_platform tx_example_recorded) (buffered_records tx_example_recorded)"
    using w j by (simp add: tx_example_recorded_fields)
  from Flush_result [OF tx_inv_config [OF tx_run_inv [OF tx_example_runs(2)]] this _ s]
  have c: "core tx_example_flushed = core (tx_example_recorded\<lparr>journal := journal tx_example_recorded @
      log_bytes (tx_wal tx_example_platform) (buffered_records tx_example_recorded), buffered_records := []\<rparr>)"
    by (simp add: tx_example_io_def)
  note q = core_fields [OF c]
  show "recovery_state_valid tx_example_flushed" "volume_identity tx_example_flushed = [118]" "buffered_records tx_example_flushed = []"
    "length (pending_mutations tx_example_flushed) = 1"
    unfolding q by (simp_all add: tx_example_recorded_fields)
qed

section \<open>What a journal promises\<close>

text \<open>
  C2. A crash while an acceptance is being appended, after any number of its bytes: the manager that
  opens the journal next either refuses it, and then loads nothing, or loads the transactions accepted
  before, and the interrupted one exactly when all of its bytes are in the file.  When none or all of
  them are, it does not refuse.
\<close>

theorem acceptance_is_atomic:
  assumes "tx_run tp acc recorded st" "recovery_state_valid st" "volume_identity st \<noteq> []"
    and "length (buffered_records st) = length (pending_mutations st)" "tx_state st = TxActive" "pending_mutations st \<noteq> []"
    and "next_sequence st \<noteq> u64_max" "xid \<le> u64_max" "list_all (native_proof_ok tp xid st) (pending_mutations st)"
    and "length (journal st @ acceptance_bytes tp xid st) \<le> u64_max" "healthy io'"
    and "st' = reopen tp io (journal st @ take n (acceptance_bytes tp xid st)) st"
  shows "fst (LoadAcceptedTransactionsAfter tp io' b default_limits st') =
     (if \<not> recovery_state_valid st' then Inl WatermarkStateInvalid
      else Inr (filter (\<lambda>a. (if b then cleanup_sequence st' else apfs_durable_sequence st') < at_accepted_sequence a)
        (if length (acceptance_bytes tp xid st) \<le> n then acc @ [accepted_now xid recorded st] else acc))) \<and>
     (healthy io \<and> (n = 0 \<or> length (acceptance_bytes tp xid st) \<le> n) \<longrightarrow> recovery_state_valid st')"
proof -
  let ?acc = "if length (acceptance_bytes tp xid st) \<le> n then acc @ [accepted_now xid recorded st] else acc"
  have inv: "tx_inv tp ?acc [] st'"
    unfolding assms(12) by (intro tx_run_inv tx_run.crashed_accepting assms)
  note f = open_manager_fields [OF assms(3) assms(12) [unfolded reopen_def]]
  have len: "length (journal st') \<le> u64_max" using f(3) assms(10) by simp
  obtain res st'' where L: "LoadAcceptedTransactionsAfter tp io' b default_limits st' = (res, st'')" by (rule prod.exhaust)
  obtain J F t where H: "tx_holds tp acc recorded st J F t" using tx_run_inv [OF assms(1)] assms(2) by (rule tx_invE)
  have valid: "recovery_state_valid st'" if "healthy io" "n = 0 \<or> length (acceptance_bytes tp xid st) \<le> n"
    unfolding assms(12)
    using crash_accepting(2) [OF H tx_inv_config [OF tx_run_inv [OF assms(1)]] assms(3-9) that assms(10)] .
  show ?thesis
  proof (cases "recovery_state_valid st'")
    case True
    with inv obtain J F t where H: "tx_holds tp ?acc [] st' J F t" by (rule tx_invE)
    from Load_idle(2) [OF H tx_inv_config [OF inv] f(1) True L assms(11) len f(2)] show ?thesis using True L by simp
  next
    case False
    moreover have "fst (LoadAcceptedTransactionsAfter tp io' b default_limits st') = Inl WatermarkStateInvalid"
      using False by (simp add: LoadAcceptedTransactionsAfter_def Let_def)
    ultimately show ?thesis using valid by argo
  qed
qed

theorem acceptance_is_atomic_witness:
  "let st = tx_example_recorded; n = length (acceptance_bytes tx_example_platform 5 st);
       st' = reopen tx_example_platform tx_example_io (journal st @ take n (acceptance_bytes tx_example_platform 5 st)) st
   in recovery_state_valid st' \<and>
      fst (LoadAcceptedTransactionsAfter tx_example_platform tx_example_io False default_limits st') =
        Inr (filter (\<lambda>a. apfs_durable_sequence st' < at_accepted_sequence a) [accepted_now 5 [tx_example_record] st])"
proof -
  have io: "healthy tx_example_io" by (simp add: healthy_def tx_example_io_def)
  show ?thesis
    using acceptance_is_atomic [where xid = 5 and io = tx_example_io and b = False and
        n = "length (acceptance_bytes tx_example_platform 5 tx_example_recorded)",
        OF tx_example_runs(2) tx_example_recorded_fields(1) _ _ tx_example_recorded_fields(5,8) _ _
        tx_example_recorded_fields(9) _ io refl]
      tx_example_bytes io
    by (simp add: Let_def tx_example_recorded_fields u64_max_def)
qed





text \<open>
  C20. Records of a transaction that were flushed without a marker: the journal is refused when it is
  opened, no transaction begins on it and none is loaded.
\<close>

theorem unfinished_transaction_refused:
  assumes "tx_run tp acc recorded st" "recovery_state_valid st" "volume_identity st \<noteq> []"
    and "length (buffered_records st) < length (pending_mutations st)"
    and "st' = reopen tp io (journal st) st"
  shows "\<not> recovery_state_valid st' \<and> Begin tp io' st' = (False, st') \<and>
     LoadAcceptedTransactionsAfter tp io' b limits st' = (Inl WatermarkStateInvalid, st')"
proof -
  note inv = tx_run_inv [OF assms(1)]
  obtain J F t where H: "tx_holds tp acc recorded st J F t" using inv assms(2) by (rule tx_invE)
  note h = tx_holdsD [OF H]
  have F: "F \<noteq> []" using h(6) arg_cong [OF h(7), of length] assms(4) by auto
  have J: "list_all (loggable (tx_wal tp) (EffectiveVolumeIdentity tp (volume_identity st))) J"
    using h(2) by (simp add: journal_identity_def)
  have bs: "journal st = take (length (log_bytes (tx_wal tp) J)) (log_bytes (tx_wal tp) J)" using h(1) by simp
  have "\<not> recovery_state_valid st'"
    by (rule reopened_refused [OF assms(3) holds_config_unopened [OF tx_inv_config [OF inv]] J order_refl bs
        complete_frames_all [symmetric] log_inv_unfinished [OF h(5) F] assms(5) [unfolded reopen_def]])
  then show ?thesis by (simp add: Begin_def LoadAcceptedTransactionsAfter_def Let_def)
qed

theorem unfinished_transaction_refused_witness:
  "let st' = reopen tx_example_platform tx_example_io (journal tx_example_flushed) tx_example_flushed in
     \<not> recovery_state_valid st' \<and>
     LoadAcceptedTransactionsAfter tx_example_platform tx_example_io True default_limits st' = (Inl WatermarkStateInvalid, st')"
proof -
  have "tx_run tx_example_platform [] [tx_example_record] tx_example_flushed"
    by (rule tx_run.flushed [OF tx_example_runs(2) _ tx_example_flushes(1)]) (simp add: tx_example_io_def)
  from unfinished_transaction_refused [OF this tx_example_flushes(2) _ _ refl, of tx_example_io tx_example_io True default_limits]
  show ?thesis by (simp add: Let_def tx_example_flushes(3-5))
qed

section \<open>Compaction\<close>

definition example_prepared :: "nat \<Rightarrow> nat \<Rightarrow> WalRecord" where
  "example_prepared t n =
     blank_record\<lparr>wal_volume_identity := [118], wal_transaction_id := t, wal_sequence := n, wal_operation := OpCreateFile,
       wal_state := Prepared, wal_object_id := 7, path_utf8 := [97]\<rparr>"

definition example_marker :: "nat \<Rightarrow> nat \<Rightarrow> WalRecord" where
  "example_marker t n =
     blank_record\<lparr>wal_volume_identity := [118], wal_transaction_id := t, wal_sequence := n,
       wal_operation := OpTransactionMarker, wal_state := Accepted, wal_flags := kWalFlagAccepted, logical_length := 1\<rparr>"

definition example_watermark :: "RecordState \<Rightarrow> nat \<Rightarrow> nat \<Rightarrow> WalRecord" where
  "example_watermark state n m =
     blank_record\<lparr>wal_volume_identity := [118], wal_sequence := n, wal_operation := OpDurabilityWatermark, wal_state := state,
       logical_offset := m\<rparr>"

definition deferred_log :: "WalRecord list" where
  "deferred_log =
     [example_prepared 1 1, example_marker 1 2, example_prepared 2 3, example_marker 2 4, example_watermark Checkpointed 5 2,
      example_prepared 3 6, example_marker 3 7, example_watermark Checkpointed 8 4, example_watermark Cleaned 9 4]"

lemmas deferred_defs = deferred_log_def example_prepared_def example_marker_def example_watermark_def blank_record_def
  IsMutationOperation_def kWalFlagAccepted_def kWalFlagCommitted_def kWalFlagAborted_def

lemmas semantic_defs = ValidateWalSemantics_def semantic_start_def semantic_step_def semantic_marker_def semantic_mutation_def
  IsTransactionMarkerWithState_def native_operations_def u64_max_def

lemmas seed_defs = seed_records_def seed_start_def seed_step_def seed_marker_def seed_watermark_def needs_spool_def

lemma deferred_log_valid: "ValidateWalSemantics tx_example_platform deferred_log"
  by (simp add: deferred_defs semantic_defs Let_def)

lemma deferred_log_seed:
  "recovered_boundaries (seed_records tx_example_platform deferred_log) = {2, 4, 7}"
  "recovered_accepted (seed_records tx_example_platform deferred_log) = 7"
  "recovered_durable (seed_records tx_example_platform deferred_log) = 4"
  "recovered_cleanup (seed_records tx_example_platform deferred_log) = 4"
  "recovered_state_valid (seed_records tx_example_platform deferred_log)"
  "spool_requirements (seed_records tx_example_platform deferred_log) = []"
  "max_sequence (seed_records tx_example_platform deferred_log) = 9"
  "max_transaction_id (seed_records tx_example_platform deferred_log) = 3"
  "highest_checkpointed_marker (seed_records tx_example_platform deferred_log) = 0"
  by (auto simp add: deferred_defs seed_defs Let_def)

definition compacted_log :: "WalRecord list" where
  "compacted_log =
     [example_marker 2 4, example_watermark Checkpointed 5 2, example_prepared 3 6, example_marker 3 7,
      example_watermark Checkpointed 8 4, example_watermark Cleaned 9 4, compaction_index [118] 4]"

lemma compacted_log_kept: "compaction_kept False [118] 4 deferred_log = compacted_log"
  by (simp add: compaction_kept_def deferred_defs compacted_log_def compaction_index_def)

lemma compacted_log_valid: "ValidateWalSemantics tx_example_platform compacted_log"
  by (simp add: compacted_log_def compaction_index_def deferred_defs semantic_defs Let_def)

lemma compacted_log_seed: "\<not> recovered_state_valid (seed_records tx_example_platform compacted_log)"
  by (simp add: compacted_log_def compaction_index_def deferred_defs seed_defs Let_def)

lemmas seed_pins_fields = core_fields [OF core_seed_pins]

lemma SeedIds_watermarks:
  assumes "tx_state st = TxIdle" "ValidateWalSemantics tp rs"
  shows "accepted_sequence (snd (SeedIdsFromJournalRecords tp rs g st)) = recovered_accepted (seed_records tp rs)"
    "apfs_durable_sequence (snd (SeedIdsFromJournalRecords tp rs g st)) = recovered_durable (seed_records tp rs)"
    "cleanup_sequence (snd (SeedIdsFromJournalRecords tp rs g st)) = recovered_cleanup (seed_records tp rs)"
    "highest_checkpointed_marker_sequence (snd (SeedIdsFromJournalRecords tp rs g st)) = highest_checkpointed_marker (seed_records tp rs)"
  using assms by (simp_all add: seed_fields seed_pins_fields)

lemma SeedIds_valid:
  assumes "tx_state st = TxIdle" "ValidateWalSemantics tp rs" "\<not> journal_append_ambiguous st"
  shows "fst (SeedIdsFromJournalRecords tp rs g st) = recovery_state_valid (snd (SeedIdsFromJournalRecords tp rs g st))"
    "recovery_state_valid (snd (SeedIdsFromJournalRecords tp rs g st)) \<longleftrightarrow>
      recovered_state_valid (seed_records tp rs) \<and> spool_requirements (seed_records tp rs) = [] \<and>
      recovered_cleanup (seed_records tp rs) \<le> recovered_durable (seed_records tp rs) \<and>
      recovered_durable (seed_records tp rs) \<le> recovered_accepted (seed_records tp rs) \<and>
      max_transaction_id (seed_records tp rs) \<noteq> u64_max \<and> max_sequence (seed_records tp rs) \<noteq> u64_max"
  using assms by (simp_all add: seed_fields seed_pins_fields)

lemma deferred_log_collects:
  assumes "accepted_sequence st = 7" "apfs_durable_sequence st = 4"
  shows "CollectAcceptedTransactions deferred_log False st =
     Inr [\<lparr>at_transaction_id = 3, at_accepted_sequence = 7, at_mutations = [example_prepared 3 6], at_preimage_checkpoint_xid = 0\<rparr>]"
  using assms
  by (simp add: CollectAcceptedTransactions_def deferred_defs collect_start_def collect_step_def collect_marker_def
      HasUnappliedAcceptedWork_def Let_def)


end
