(* ===== verification/Spec2Isabelle.thy ===== *)
theory Spec2Isabelle
  imports VolumeTreeProjection CheckpointDeltaState LedgerStaging LedgerRecovery CheckpointFamilyReload
    SharedSpace StandardMountLocks ReplayCheckpoint SuperblockSwitch TransactionRuns
begin

text \<open>
  A verification development for the native APFS read/write engine of APFS Access for Windows.
  Paths below are relative to \<^verbatim>\<open>src/src-native/ApfsAccess.ApfsRwEngine\<close> unless they
  name another directory.

  \<^bold>\<open>The program.\<close>  The engine mounts an APFS container for writing.  A \<^verbatim>\<open>MetadataStore\<close>
  (\<^verbatim>\<open>src/MetadataStore.cpp\<close>) keeps the committed state of a volume: object map, inodes,
  directory and extent records, and a space ledger of allocated and free ranges.  A transaction
  allocates through the extent allocator (\<^verbatim>\<open>src/ExtentAllocator.cpp\<close>), stages its changes
  in the ledger and in B-tree records (\<^verbatim>\<open>src/BtreeMutationCodec.cpp\<close>), and is committed by
  writing checkpoints into the slots of a private checkpoint band.  Mutations are accepted before they
  are applied: the transaction manager (\<^verbatim>\<open>src/TransactionManager.cpp\<close>) appends their records to a
  write-ahead log (\<^verbatim>\<open>src/WriteAheadLog.cpp\<close>) and replays them after a restart.  On load the store picks the
  checkpoint blocks, parses them (\<^verbatim>\<open>src/ApfsObjectMapStore.cpp\<close>,
  \<^verbatim>\<open>src/ApfsSpacemanStore.cpp\<close>), checks that the B-tree records describe a consistent tree
  (\<^verbatim>\<open>src/ApfsVolumeTreeStore.cpp\<close>), and may replay checkpoint deltas
  (\<^verbatim>\<open>src/CheckpointDelta.cpp\<close>).  The file system host
  (\<^verbatim>\<open>src-native/ApfsAccess.FsHost\<close>) serves Windows requests from that state.

  \<^bold>\<open>Theories and sources.\<close>
  \<^item> \<open>Prelude\<close>: the bounds of machine integers, wrapping addition \<open>add64\<close>, byte ranges
    \<open>ivl\<close>, list facts and the named collections.
  \<^item> \<open>ExtentAllocator\<close>, \<open>ExtentAllocation\<close>, \<open>FileExtentAllocation\<close>: all of
    \<^verbatim>\<open>src/ExtentAllocator.cpp\<close>.  The free list is a list of records; its meaning is the set of
    addresses \<open>space\<close>.  Normalisation, insertion with undo and batch removal are exact on these
    sets (C1, C5); a contiguous or fragmented allocation is off everything the policy rejects,
    and rolls back exactly (C6, C9); a request the capacity check accepts is served (C10).
    The locales \<open>free_space_store\<close> and \<open>clean_policy\<close> state what a client may assume of a
    free list and of a policy.
  \<^item> \<open>ByteCodec\<close>, \<open>BtreeMutationCodec\<close>, \<open>VolumeTreeStore\<close>, \<open>VolumeTreeProjection\<close>: the byte
    helpers, the record encoders and decoders, and the consistency check of
    \<^verbatim>\<open>TryProjectFromBtreeRecords\<close>: keys identify records (C11), decoders read what encoders
    wrote (C12), and the check accepts exactly the consistent trees (C13).
  \<^item> \<open>CheckpointDelta\<close>, \<open>CheckpointDeltaRoundTrip\<close>, \<open>CheckpointDeltaState\<close>: all of
    \<^verbatim>\<open>src/CheckpointDelta.cpp\<close>.  Encoders and decoders are inverse, decoders accept only
    well-formed deltas (C14, C17) and notice every single-byte change (over the section contract
    of the locale \<open>delta_section\<close>); replay is atomic and
    preserves the state's invariant (C18, C19, over the locale \<open>versioned_store\<close>); compaction has the net effect of the chain but is
    rejected by the replay (C21).
  \<^item> \<open>SpacemanExtents\<close>, \<open>CheckpointLayout\<close>: helpers of \<^verbatim>\<open>src/MetadataStore.cpp\<close> on extent
    vectors and the slots of the checkpoint band: the three subtraction routines agree, the
    overlap search is exact, the slots of a shared container partition the list and
    the slot families tile the band (C25).
  \<^item> \<open>SpacemanLedger\<close>, \<open>LedgerAllocation\<close>, \<open>LedgerStaging\<close>, \<open>LedgerRecovery\<close>: the allocation
    ledger of \<^verbatim>\<open>src/MetadataStore.cpp\<close>.  Its state is the record \<open>SpacemanLedger\<close> over the
    geometry \<open>StoreGeometry\<close>; its operations are the functions of the same names.  The overlap
    tests are exact, so the store's policy meets the allocator's contract (interpretation
    \<open>store\<close> of \<open>clean_policy\<close>), and every allocation lies in the container, off live
    allocations and reserved metadata (C28).  Freeing is exact, and every sequence of
    operations keeps the staged allocations disjoint, their index exact and the free list
    canonical (C31).  The indexed slot test agrees with the scan (C32), the search past
    unavailable ranges gives the first clean one (C33), and recovered read extents are protected
    when the loader adopts them, which it does not when they touch an allocation (C35).
  \<^item> \<open>CheckpointFamily\<close>, \<open>CheckpointFamilyCodec\<close>, \<open>CheckpointFamilyReload\<close>: the object map and
    spaceman checkpoints, from the writers of \<^verbatim>\<open>src/MetadataStore.cpp\<close> through the windows of
    the checkpoint band to the parsers and loaders.  Validation always returns and is exact (C36);
    a written checkpoint is loaded back (C37).
  \<^item> \<open>BtreeTable\<close>, \<open>BtreeTableSteps\<close>, \<open>BtreeTableCommit\<close>: the committed B-tree records of
    \<^verbatim>\<open>src/MetadataStore.cpp\<close>, a vector with two indexes.  Applying pending records in place is
    canonicalising all of them (C4), which keeps the last record of each identity; the restore
    log undoes it (C15, over the locale \<open>undo_table\<close>), the indexes stay exact (C23), but a failed
    commit can leave the vector out of order (C30).
  \<^item> \<open>BtreeCheckpoint\<close>: the checkpoint of those records; a commit of records survives a restart (C38).
  \<^item> \<open>CommitBlob\<close>, \<open>CommitBlobBuild\<close>, \<open>CommitBlobReplay\<close>, \<open>ReplayCheckpoint\<close>: the commit blob, which
    holds the pending changes of a commit, and the replay checkpoint that points to it
    (\<^verbatim>\<open>BuildCommitBlob\<close>, \<^verbatim>\<open>ValidateReplayCommitBlobCandidate\<close> and the parser in
    \<^verbatim>\<open>ReplayOrRecover\<close>).  The two ways to fill the blob give the same bytes, an interrupted commit is
    recovered (C22), and what the validation accepts is replayed (C34).
  \<^item> \<open>SuperblockSwitch\<close>: \<^verbatim>\<open>PersistCheckpointSuperblock\<close>, the last step of a commit; the active superblock
    is intact until the new one is written (C27).
  \<^item> \<open>InodeMetadataPatchCodec\<close>, \<open>WriteAheadLog\<close>, \<open>WriteAheadLogCodec\<close>, \<open>WriteAheadLogRecovery\<close>,
    \<open>WriteAheadLogCompaction\<close>: the ordinary write-ahead log.  A log cut at any byte reads as its
    complete records (C8), acknowledged records survive every run of failing appends and repairs (C7,
    over the locale \<open>torn_log\<close>), a changed byte is noticed (C26), the compacted file reads back
    and the intent file only moves forward (C24).
  \<^item> \<open>TransactionJournal\<close>, \<open>TransactionManager\<close>: the transaction manager with an ordinary journal.
    Its fields are the record \<open>TxManager\<close>, with the bytes of the journal file as \<open>journal\<close>.
    \<open>TransactionLog\<close> relates the three readers of a log, \<open>TransactionAppend\<close> and
    \<open>TransactionSteps\<close> show that every operation keeps manager and journal related,
    \<open>TransactionSeeding\<close> and \<open>TransactionRecovery\<close> read the journal back, and \<open>TransactionRuns\<close>
    has the runs of operations and crashes: acceptance is atomic (C2), a restart loads exactly the
    accepted transactions (C3), the watermarks stay in order (C16), an unfinished transaction is
    refused (C20), and a compaction can make the journal unreadable (C29).
  \<^item> \<open>SharedSpace\<close>: \<^verbatim>\<open>src/ApfsSharedSpace.cpp\<close>; a projection never promises a volume the
    reserves of its siblings (C40).
  \<^item> \<open>StandardMountLocks\<close>: \<^verbatim>\<open>src-native/ApfsAccess.FsHost/src/NativeStandardLocks.h\<close>; the
    table of byte-range locks as a step relation, with mutual exclusion as an invariant of its
    reachable states (C39).

  \<^bold>\<open>Modelling.\<close>  A \<^verbatim>\<open>std::uint64_t\<close> is a \<^typ>\<open>nat\<close>; each overflow test of the source is
  kept and each sum the source does not test is \<open>add64\<close>.  Bytes are \<open>8 word\<close>, code units
  \<open>16 word\<close>, the checksum a \<open>32 word\<close>.  A result that the source reports by \<^verbatim>\<open>false\<close> or
  \<^verbatim>\<open>nullopt\<close> is \<^term>\<open>None\<close>, or a pair of a flag and the state where the source leaves a
  changed state behind.  Error texts are constructors.  Hash maps whose order the result does
  not depend on are lists in insertion order.

  \<^bold>\<open>Termination.\<close>  No definition uses fuel.  Loops are structural recursion, or \<open>function\<close>s
  with a measure: the searches of the ledger move to a larger block or address each round and stop
  at \<open>u64_max\<close>; the window loops consume at least one block.  The walk of
  \<^verbatim>\<open>ApfsSpacemanStore::ValidateState\<close> has a branch without progress and is a partial function,
  shown to return on every input (C36); so is the walk \<open>release_walk\<close> of the blob validation
  (\<open>validation_ends\<close>).

  \<^bold>\<open>Parameters.\<close>  The device is a parameter of the checkpoint theories: a read function, and the
  list of spans handed to the batch write.  The theorems assume that the spans read back
  (\<open>holds\<close>) and that no other window holds a checkpoint of the same transaction
  (\<open>sole_window\<close>).  The log takes the hash, the UTF-8 test and the decoders of native payloads as
  the record \<open>WalPlatform\<close>, and the manager adds its own in \<open>TxPlatform\<close>; no law is assumed of
  them.  What the system does in an append, a read or an operation (\<open>WalAppendIo\<close>, \<open>WalReadIo\<close>,
  \<open>TxIo\<close>) is an argument, and the theorems hold for every value of it, apart from compactions that
  replace the journal, which the runs leave out and C29 is about.  Answers of functions outside the modelled parts
  (\<^verbatim>\<open>CanUseAppleTransactionWriter\<close>, the environment switches, the tests of the device path)
  are fields of the state or arguments.

  \<^bold>\<open>Not modelled.\<close>  Of \<^verbatim>\<open>src/MetadataStore.cpp\<close>: the loading of superblocks, the inode
  checkpoint, the namespace mutations, the commit stages and what \<^verbatim>\<open>ReplayOrRecover\<close> does with the
  parsed changes, which thread the whole store through device I/O; performance counters, traces and caches.  The protected form of the
  write-ahead log and of the transaction manager; the
  payload spool, the mount coordinator, the Apple transaction writer, the
  readers of the native format, Fusion and encrypted containers, snapshots, backups, the verifier,
  volume management and the block devices, which rest on Windows files, devices, threads or
  cryptography; and the file system host apart from its lock table.
\<close>

end
